(* ===== verification/Prelude.thy ===== *)
theory Prelude
  imports Complex_Main "HOL-Library.AList" "HOL-Library.Char_ord" "HOL-Library.List_Lexorder"
    "HOL-Library.Multiset"
begin

text \<open>
  Shared vocabulary of the development: Go's maps, strings, integers, times and
  sorts as the orchestrator uses them, with the lemmas the component theories
  rely on.

  \<^item> A Go \<open>map[K]V\<close> is an association list with distinct keys (\<open>gomap\<close>); a Go set
    (\<open>map[K]struct{}\<close>) is a \<open>gomap\<close> into \<open>unit\<close>. The order of the list is the order a
    \<open>range\<close> loop happens to visit, so a statement about every \<open>gomap\<close> covers every
    iteration order. A nil map reads as the empty map and every write in the modelled code
    is preceded by a nil check, so nil and empty are one value.
  \<^item> Strings are byte strings; case folding and trimming are given on ASCII.
  \<^item> A \<open>time.Time\<close> is the number of nanoseconds since Go's zero time, so \<open>IsZero\<close> is
    equality with \<open>0\<close>; \<open>Sub\<close> saturates at the \<open>int64\<close> range of \<open>time.Duration\<close> as Go's
    does.
  \<^item> A Go \<open>int\<close> or \<open>int64\<close> is an \<open>int\<close>; where the code multiplies or shifts so that
    the width matters, \<open>wrap64\<close> writes the wrap-around out.
\<close>

named_theorems gomap_simps "laws of Go maps"
named_theorems gomap_intros "well-formedness of Go maps"
named_theorems str_simps "unfolding of the string functions"
named_theorems time_simps "unfolding of the time functions"

section \<open>Go maps\<close>

type_synonym ('k, 'v) gomap = "('k \<times> 'v) list"
type_synonym 'k goset = "('k \<times> unit) list"

abbreviation mget :: "('k, 'v) gomap \<Rightarrow> 'k \<Rightarrow> 'v option" where
  "mget \<equiv> map_of"

definition mhas :: "('k, 'v) gomap \<Rightarrow> 'k \<Rightarrow> bool" where
  "mhas m k = (mget m k \<noteq> None)"

definition mput :: "('k, 'v) gomap \<Rightarrow> 'k \<Rightarrow> 'v \<Rightarrow> ('k, 'v) gomap" where
  "mput m k v = AList.update k v m"

definition mdel :: "('k, 'v) gomap \<Rightarrow> 'k \<Rightarrow> ('k, 'v) gomap" where
  "mdel m k = AList.delete k m"

definition mkeys :: "('k, 'v) gomap \<Rightarrow> 'k list" where
  "mkeys m = map fst m"

definition mwf :: "('k, 'v) gomap \<Rightarrow> bool" where
  "mwf m = distinct (mkeys m)"

text \<open>Reading a missing key gives the zero value of the value type.\<close>

definition mget_or :: "('k, 'v) gomap \<Rightarrow> 'k \<Rightarrow> 'v \<Rightarrow> 'v" where
  "mget_or m k z = (case mget m k of None \<Rightarrow> z | Some v \<Rightarrow> v)"

text \<open>Deleting, in a \<open>range\<close> loop, the entries that fail \<open>P\<close>.\<close>

definition mkeep :: "('k \<Rightarrow> 'v \<Rightarrow> bool) \<Rightarrow> ('k, 'v) gomap \<Rightarrow> ('k, 'v) gomap" where
  "mkeep P m = filter (\<lambda>(k, v). P k v) m"

text \<open>The contract every client of a Go map relies on.\<close>

locale go_map =
  fixes get :: "'m \<Rightarrow> 'k \<Rightarrow> 'v option"
    and put :: "'m \<Rightarrow> 'k \<Rightarrow> 'v \<Rightarrow> 'm"
    and del :: "'m \<Rightarrow> 'k \<Rightarrow> 'm"
    and emp :: "'m"
    and wf :: "'m \<Rightarrow> bool"
  assumes get_emp: "get emp k = None"
    and get_put: "get (put m k v) k' = (if k' = k then Some v else get m k')"
    and get_del: "wf m \<Longrightarrow> get (del m k) k' = (if k' = k then None else get m k')"
    and wf_emp: "wf emp"
    and wf_put: "wf m \<Longrightarrow> wf (put m k v)"
    and wf_del: "wf m \<Longrightarrow> wf (del m k)"
begin

lemma put_put_get: "get (put (put m k v) k w) k' = get (put m k w) k'"
  by (simp add: get_put)

lemma del_put_get: "wf m \<Longrightarrow> get m k = None \<Longrightarrow> get (del (put m k v) k) k' = get m k'"
  by (simp add: get_put get_del wf_put)

lemma get_fold_put:
  "get (fold (\<lambda>k m. put m k (f k)) ks m) k' = (if k' \<in> set ks then Some (f k') else get m k')"
  by (induction ks arbitrary: m) (auto simp: get_put)

lemma wf_fold_put: "wf m \<Longrightarrow> wf (fold (\<lambda>k m. put m k (f k)) ks m)"
  by (induction ks arbitrary: m) (auto simp: wf_put)

lemma get_fold_del:
  "wf m \<Longrightarrow> get (fold (\<lambda>k m. del m k) ks m) k' = (if k' \<in> set ks then None else get m k')"
  by (induction ks arbitrary: m) (auto simp: get_del wf_del)

end

lemma mget_mput [simp, gomap_simps]:
  "mget (mput m k v) k' = (if k' = k then Some v else mget m k')"
  by (simp add: mput_def update_conv')

lemma mget_mdel [simp, gomap_simps]:
  "mget (mdel m k) k' = (if k' = k then None else mget m k')"
  by (simp add: mdel_def delete_conv')

lemma mwf_Nil [simp, gomap_intros]: "mwf []"
  by (simp add: mwf_def mkeys_def)

lemma mwf_mput [simp, gomap_intros]: "mwf m \<Longrightarrow> mwf (mput m k v)"
  by (simp add: mwf_def mkeys_def mput_def distinct_update)

lemma mwf_mdel [simp, gomap_intros]: "mwf m \<Longrightarrow> mwf (mdel m k)"
  by (simp add: mwf_def mkeys_def mdel_def distinct_delete)

interpretation alist_map: go_map mget mput mdel "[]" mwf
  by unfold_locales simp_all

lemma mhas_Nil [simp]: "mhas [] k = False"
  by (simp add: mhas_def)

lemma mhas_mput [simp]: "mhas (mput m k v) k' = (k' = k \<or> mhas m k')"
  by (simp add: mhas_def)

lemma mhas_mdel [simp]: "mhas (mdel m k) k' = (k' \<noteq> k \<and> mhas m k')"
  by (simp add: mhas_def)

lemma mhas_Some: "mget m k = Some v \<Longrightarrow> mhas m k"
  by (simp add: mhas_def)

lemma mhas_iff_keys: "mhas m k \<longleftrightarrow> k \<in> set (mkeys m)"
  by (simp add: mhas_def mkeys_def map_of_eq_None_iff)

lemma set_mkeys_mput [simp]: "set (mkeys (mput m k v)) = insert k (set (mkeys m))"
  using dom_update [of k v m] by (simp add: mkeys_def mput_def dom_map_of_conv_image_fst)

lemma set_mkeys_mdel [simp]: "set (mkeys (mdel m k)) = set (mkeys m) - {k}"
  by (auto simp: mkeys_def mdel_def AList.delete_eq)

lemma mkeys_mput_old: "k \<in> set (mkeys m) \<Longrightarrow> mkeys (mput m k v) = mkeys m"
  by (simp add: mkeys_def mput_def update_keys)

lemma mkeys_mput_new: "k \<notin> set (mkeys m) \<Longrightarrow> mkeys (mput m k v) = mkeys m @ [k]"
  by (simp add: mkeys_def mput_def update_keys)

lemma length_mput:
  "length (mput m k v) = (if mhas m k then length m else Suc (length m))"
proof -
  have "length (mkeys (mput m k v)) = (if mhas m k then length (mkeys m) else Suc (length (mkeys m)))"
    by (simp add: mhas_iff_keys mkeys_mput_old mkeys_mput_new)
  then show ?thesis by (simp add: mkeys_def)
qed

lemma length_mdel:
  assumes "mwf m"
  shows "length (mdel m k) = (if mhas m k then length m - 1 else length m)"
proof -
  have "length (mdel m k) = card (set (mkeys (mdel m k)))"
    using distinct_card [of "mkeys (mdel m k)"] mwf_mdel [OF assms, of k]
    by (simp add: mwf_def) (simp add: mkeys_def)
  also have "\<dots> = card (set (mkeys m) - {k})" by simp
  also have "\<dots> = (if mhas m k then card (set (mkeys m)) - 1 else card (set (mkeys m)))"
    by (simp add: mhas_iff_keys)
  also have "card (set (mkeys m)) = length m"
    using distinct_card [of "mkeys m"] assms by (simp add: mwf_def) (simp add: mkeys_def)
  finally show ?thesis .
qed

lemma mwf_mkeep [simp, gomap_intros]: "mwf m \<Longrightarrow> mwf (mkeep P m)"
  by (induction m) (auto simp: mwf_def mkeys_def mkeep_def)

lemma mget_mkeep:
  "mwf m \<Longrightarrow> mget (mkeep P m) k = (case mget m k of None \<Rightarrow> None | Some v \<Rightarrow> if P k v then Some v else None)"
proof (induction m)
  case Nil
  show ?case by (simp add: mkeep_def)
next
  case (Cons x m)
  obtain k0 v0 where x: "x = (k0, v0)" by (cases x)
  have wf: "mwf m" and notin: "k0 \<notin> fst ` set m"
    using Cons.prems by (auto simp: x mwf_def mkeys_def)
  have none: "mget (mkeep P m) k0 = None" if "mget m k0 = None"
    using Cons.IH [OF wf] that by (cases "k = k0") (auto simp: mkeep_def map_of_eq_None_iff)
  show ?case
  proof (cases "k = k0")
    case True
    have "mget m k0 = None" using notin by (simp add: map_of_eq_None_iff)
    with none True show ?thesis by (simp add: x mkeep_def)
  next
    case False
    then show ?thesis using Cons.IH [OF wf] by (auto simp: x mkeep_def)
  qed
qed

lemma length_mkeep_le: "length (mkeep P m) \<le> length m"
  by (simp add: mkeep_def)

lemma map_of_Some_in_set: "mget m k = Some v \<Longrightarrow> (k, v) \<in> set m"
  by (rule map_of_SomeD)

lemma mwf_in_set_iff: "mwf m \<Longrightarrow> (k, v) \<in> set m \<longleftrightarrow> mget m k = Some v"
  by (simp add: mwf_def mkeys_def map_of_eq_Some_iff)

lemma mget_or_simps [simp]:
  "mget m k = None \<Longrightarrow> mget_or m k z = z"
  "mget m k = Some v \<Longrightarrow> mget_or m k z = v"
  by (simp_all add: mget_or_def)

section \<open>Strings\<close>

definition lower_char :: "char \<Rightarrow> char" where
  "lower_char c = (let n = (of_char c :: nat) in if 65 \<le> n \<and> n \<le> 90 then char_of (n + 32) else c)"

definition to_lower :: "string \<Rightarrow> string" where
  "to_lower s = map lower_char s"

definition equal_fold :: "string \<Rightarrow> string \<Rightarrow> bool" where
  "equal_fold s t = (to_lower s = to_lower t)"

definition is_space :: "char \<Rightarrow> bool" where
  "is_space c = (let n = (of_char c :: nat) in n = 32 \<or> (9 \<le> n \<and> n \<le> 13))"

definition trim_left :: "string \<Rightarrow> string" where
  "trim_left s = dropWhile is_space s"

definition trim_space :: "string \<Rightarrow> string" where
  "trim_space s = rev (dropWhile is_space (rev (dropWhile is_space s)))"

definition has_prefix :: "string \<Rightarrow> string \<Rightarrow> bool" where
  "has_prefix s p = (take (length p) s = p)"

definition cut_prefix :: "string \<Rightarrow> string \<Rightarrow> string option" where
  "cut_prefix s p = (if has_prefix s p then Some (drop (length p) s) else None)"

text \<open>\<open>strings.Cut\<close> on a one-byte separator: text before, text after, found.\<close>

fun cut_char :: "char \<Rightarrow> string \<Rightarrow> string \<times> string \<times> bool" where
  "cut_char c [] = ([], [], False)"
| "cut_char c (x # xs) =
     (if x = c then ([], xs, True)
      else (case cut_char c xs of (b, a, f) \<Rightarrow> (x # b, a, f)))"

text \<open>\<open>strings.Split\<close> on a one-byte separator; never empty.\<close>

fun split_char :: "char \<Rightarrow> string \<Rightarrow> string list" where
  "split_char c [] = [[]]"
| "split_char c (x # xs) =
     (if x = c then [] # split_char c xs
      else (case split_char c xs of [] \<Rightarrow> [[x]] | w # ws \<Rightarrow> (x # w) # ws))"

text \<open>\<open>strings.Fields\<close>: the maximal runs of non-space bytes.\<close>

definition str_fields :: "string \<Rightarrow> string list" where
  "str_fields s = filter (\<lambda>w. w \<noteq> []) (foldr (\<lambda>c ws. if is_space c then [] # ws else
     (case ws of [] \<Rightarrow> [[c]] | w # ws' \<Rightarrow> (c # w) # ws')) s [[]])"

fun join_with :: "string \<Rightarrow> string list \<Rightarrow> string" where
  "join_with sep [] = []"
| "join_with sep [x] = x"
| "join_with sep (x # y # ys) = x @ sep @ join_with sep (y # ys)"

lemmas string_defs [str_simps] =
  lower_char_def to_lower_def equal_fold_def is_space_def trim_space_def has_prefix_def
  cut_prefix_def

lemma equal_fold_refl [simp]: "equal_fold s s"
  by (simp add: equal_fold_def)

lemma equal_fold_sym: "equal_fold s t = equal_fold t s"
  by (auto simp: equal_fold_def)

lemma equal_fold_trans: "equal_fold s t \<Longrightarrow> equal_fold t u \<Longrightarrow> equal_fold s u"
  by (simp add: equal_fold_def)

lemma has_prefix_append [simp]: "has_prefix (p @ s) p"
  by (simp add: has_prefix_def)

lemma has_prefix_Nil [simp]: "has_prefix s []"
  by (simp add: has_prefix_def)

lemma cut_prefix_append [simp]: "cut_prefix (p @ s) p = Some s"
  by (simp add: cut_prefix_def)

lemma cut_char_notin: "c \<notin> set s \<Longrightarrow> cut_char c s = (s, [], False)"
  by (induction s) auto

lemma cut_char_split: "c \<notin> set b \<Longrightarrow> cut_char c (b @ c # a) = (b, a, True)"
  by (induction b) auto

lemma cut_char_found:
  "cut_char c s = (b, a, True) \<longleftrightarrow> c \<notin> set b \<and> s = b @ c # a"
proof (induction s arbitrary: b)
  case Nil
  show ?case by simp
next
  case (Cons x s)
  show ?case
  proof (cases "x = c")
    case True
    then show ?thesis by (cases b) auto
  next
    case False
    then show ?thesis using Cons.IH by (cases b; cases "cut_char c s") auto
  qed
qed

text \<open>\<open>strconv.Itoa\<close> and \<open>strconv.Atoi\<close> in base ten.\<close>

definition digit_char :: "nat \<Rightarrow> char" where
  "digit_char d = char_of (48 + d)"

fun nat_digits :: "nat \<Rightarrow> string" where
  "nat_digits n = (if n < 10 then [digit_char n] else nat_digits (n div 10) @ [digit_char (n mod 10)])"

declare nat_digits.simps [simp del]

definition itoa :: "int \<Rightarrow> string" where
  "itoa i = (if i < 0 then CHR ''-'' # nat_digits (nat (- i)) else nat_digits (nat i))"

definition is_digit :: "char \<Rightarrow> bool" where
  "is_digit c = (let n = (of_char c :: nat) in 48 \<le> n \<and> n \<le> 57)"

definition digit_val :: "char \<Rightarrow> int" where
  "digit_val c = int (of_char c) - 48"

definition parse_digits :: "string \<Rightarrow> int option" where
  "parse_digits s = (if s \<noteq> [] \<and> list_all is_digit s
     then Some (foldl (\<lambda>acc c. acc * 10 + digit_val c) 0 s) else None)"

definition int64_min :: int where "int64_min = - (2 ^ 63)"
definition int64_max :: int where "int64_max = 2 ^ 63 - 1"

definition atoi :: "string \<Rightarrow> int option" where
  "atoi s = (case (case s of
        [] \<Rightarrow> None
      | c # cs \<Rightarrow> if c = CHR ''-'' then map_option uminus (parse_digits cs)
                  else if c = CHR ''+'' then parse_digits cs
                  else parse_digits s) of
      None \<Rightarrow> None
    | Some n \<Rightarrow> if int64_min \<le> n \<and> n \<le> int64_max then Some n else None)"

lemma of_char_digit_char: "d < 10 \<Longrightarrow> (of_char (digit_char d) :: nat) = 48 + d"
  by (simp add: digit_char_def)

lemma is_digit_digit_char [simp]: "d < 10 \<Longrightarrow> is_digit (digit_char d)"
  by (simp add: is_digit_def of_char_digit_char)

lemma digit_val_digit_char [simp]: "d < 10 \<Longrightarrow> digit_val (digit_char d) = int d"
  by (simp add: digit_val_def of_char_digit_char)

lemma nat_digits_ne [simp]: "nat_digits n \<noteq> []"
  by (simp add: nat_digits.simps)

lemma nat_digits_digits: "list_all is_digit (nat_digits n)"
proof (induction n rule: nat_digits.induct)
  case (1 n)
  then show ?case by (cases "n < 10") (simp_all add: nat_digits.simps [of n])
qed

lemma nat_digits_val: "foldl (\<lambda>acc c. acc * 10 + digit_val c) 0 (nat_digits n) = int n"
proof (induction n rule: nat_digits.induct)
  case (1 n)
  show ?case
  proof (cases "n < 10")
    case True
    then show ?thesis by (simp add: nat_digits.simps [of n])
  next
    case False
    with 1 have "foldl (\<lambda>acc c. acc * 10 + digit_val c) 0 (nat_digits (n div 10)) = int (n div 10)"
      by simp
    with False show ?thesis
      by (simp add: nat_digits.simps [of n]) (simp add: zdiv_int zmod_int)
  qed
qed

lemma parse_nat_digits: "parse_digits (nat_digits n) = Some (int n)"
  by (simp add: parse_digits_def nat_digits_digits nat_digits_val)

lemma is_digit_not_sign: "is_digit c \<Longrightarrow> c \<noteq> CHR ''-'' \<and> c \<noteq> CHR ''+''"
  by (auto simp: is_digit_def)

lemma atoi_itoa:
  assumes "int64_min \<le> i" "i \<le> int64_max"
  shows "atoi (itoa i) = Some i"
proof (cases "i < 0")
  case True
  then show ?thesis using assms by (simp add: atoi_def itoa_def parse_nat_digits)
next
  case False
  obtain c cs where c: "nat_digits (nat i) = c # cs"
    using nat_digits_ne by (cases "nat_digits (nat i)") auto
  then have "is_digit c" using nat_digits_digits [of "nat i"] by simp
  then have "c \<noteq> CHR ''-''" "c \<noteq> CHR ''+''" by (simp_all add: is_digit_not_sign)
  with c False assms parse_nat_digits [of "nat i"] show ?thesis
    by (simp add: atoi_def itoa_def)
qed

section \<open>Machine integers and durations\<close>

definition wrap64 :: "int \<Rightarrow> int" where
  "wrap64 x = (x + 2 ^ 63) mod 2 ^ 64 - 2 ^ 63"

lemma wrap64_id: "int64_min \<le> x \<Longrightarrow> x \<le> int64_max \<Longrightarrow> wrap64 x = x"
  by (simp add: wrap64_def int64_min_def int64_max_def)

lemma wrap64_range: "int64_min \<le> wrap64 x \<and> wrap64 x \<le> int64_max"
proof -
  have "0 \<le> (x + 2 ^ 63) mod 2 ^ 64" "(x + 2 ^ 63) mod 2 ^ 64 < 2 ^ 64"
    by (rule pos_mod_sign, simp) (rule pos_mod_bound, simp)
  then show ?thesis by (simp add: wrap64_def int64_min_def int64_max_def)
qed

text \<open>Go's integer division truncates towards zero.\<close>

definition go_div :: "int \<Rightarrow> int \<Rightarrow> int" where
  "go_div a b = sgn a * sgn b * (\<bar>a\<bar> div \<bar>b\<bar>)"

lemma go_div_nonneg: "0 \<le> a \<Longrightarrow> 0 < b \<Longrightarrow> go_div a b = a div b"
  by (cases "a = 0") (simp_all add: go_div_def)

type_synonym time = int
type_synonym duration = int

definition isZero :: "time \<Rightarrow> bool" where
  "isZero t = (t = 0)"

definition millisecond :: duration where "millisecond = 1000000"
definition second :: duration where "second = 1000 * millisecond"
definition minute :: duration where "minute = 60 * second"
definition hour :: duration where "hour = 60 * minute"

text \<open>\<open>t.Sub(u)\<close>, saturating at the range of \<open>time.Duration\<close>.\<close>

definition time_sub :: "time \<Rightarrow> time \<Rightarrow> duration" where
  "time_sub t u = max int64_min (min int64_max (t - u))"

lemmas duration_defs [time_simps] =
  millisecond_def second_def minute_def hour_def isZero_def time_sub_def
  int64_min_def int64_max_def

lemma time_sub_le_iff: "d < int64_max \<Longrightarrow> int64_min \<le> d \<Longrightarrow> time_sub t u \<le> d \<longleftrightarrow> t - u \<le> d"
  by (auto simp: time_sub_def min_def max_def)

lemma time_sub_mono: "t \<le> t' \<Longrightarrow> time_sub t u \<le> time_sub t' u"
  by (auto simp: time_sub_def min_def max_def)

section \<open>Runs of operations\<close>

text \<open>\<open>along app P s es\<close>: the condition \<open>P\<close> holds of every operation of \<open>es\<close>, in the state it is applied to.\<close>

fun along :: "('s \<Rightarrow> 'e \<Rightarrow> 's) \<Rightarrow> ('s \<Rightarrow> 'e \<Rightarrow> bool) \<Rightarrow> 's \<Rightarrow> 'e list \<Rightarrow> bool" where
  "along app P s [] = True"
| "along app P s (e # es) = (P s e \<and> along app P (app s e) es)"

lemma along_invariant:
  assumes "along app P s es" "I s" "\<And>s e. I s \<Longrightarrow> P s e \<Longrightarrow> I (app s e)"
  shows "I (foldl app s es)"
  using assms(1,2) by (induction es arbitrary: s) (auto intro: assms(3))

lemma foldl_invariant:
  assumes "I s" "\<And>s e. I s \<Longrightarrow> e \<in> set es \<Longrightarrow> I (app s e)"
  shows "I (foldl app s es)"
  using assms by (induction es arbitrary: s) auto

section \<open>Stable sorting\<close>

text \<open>
  \<open>sort.SliceStable(xs, lt)\<close>: an element moves past the ones already placed only while they
  are strictly smaller. Below it is shown to be the only stable, sorted permutation.
\<close>

fun insert_stable :: "('a \<Rightarrow> 'a \<Rightarrow> bool) \<Rightarrow> 'a \<Rightarrow> 'a list \<Rightarrow> 'a list" where
  "insert_stable lt x [] = [x]"
| "insert_stable lt x (y # ys) =
     (if lt y x then y # insert_stable lt x ys else x # y # ys)"

definition stable_sort :: "('a \<Rightarrow> 'a \<Rightarrow> bool) \<Rightarrow> 'a list \<Rightarrow> 'a list" where
  "stable_sort lt xs = foldr (insert_stable lt) xs []"

lemma stable_sort_simps [simp]:
  "stable_sort lt [] = []"
  "stable_sort lt (x # xs) = insert_stable lt x (stable_sort lt xs)"
  by (simp_all add: stable_sort_def)

lemma mset_insert_stable [simp]: "mset (insert_stable lt x xs) = add_mset x (mset xs)"
  by (induction xs) auto

lemma mset_stable_sort [simp]: "mset (stable_sort lt xs) = mset xs"
  by (induction xs) auto

lemma set_stable_sort [simp]: "set (stable_sort lt xs) = set xs"
  by (metis mset_stable_sort set_mset_mset)

lemma length_stable_sort [simp]: "length (stable_sort lt xs) = length xs"
  by (metis mset_stable_sort size_mset)

lemma distinct_stable_sort [simp]: "distinct (stable_sort lt xs) = distinct xs"
  by (metis mset_eq_imp_distinct_iff mset_stable_sort)

lemma insert_stable_cong:
  "(\<And>y. y \<in> set ys \<Longrightarrow> lt y x = lt' y x) \<Longrightarrow>
    insert_stable lt x ys = insert_stable lt' x ys"
  by (induction ys) auto

lemma stable_sort_cong:
  "(\<And>x y. x \<in> set xs \<Longrightarrow> y \<in> set xs \<Longrightarrow> lt x y = lt' x y) \<Longrightarrow>
    stable_sort lt xs = stable_sort lt' xs"
proof (induction xs)
  case Nil
  show ?case by simp
next
  case (Cons x xs)
  then have "stable_sort lt xs = stable_sort lt' xs" by auto
  moreover have "insert_stable lt x (stable_sort lt' xs) = insert_stable lt' x (stable_sort lt' xs)"
    by (rule insert_stable_cong) (simp add: Cons.prems)
  ultimately show ?case by simp
qed

text \<open>
  The contract \<open>sort.SliceStable\<close> asks of its comparison, a strict weak order, and what it
  promises in return.
\<close>

locale strict_weak_order =
  fixes lt :: "'a \<Rightarrow> 'a \<Rightarrow> bool"
  assumes irrefl: "\<not> lt x x"
    and trans: "lt x y \<Longrightarrow> lt y z \<Longrightarrow> lt x z"
    and incomp_trans: "\<not> lt x y \<Longrightarrow> \<not> lt y z \<Longrightarrow> \<not> lt x z"
begin

lemma asym: "lt x y \<Longrightarrow> \<not> lt y x"
  using irrefl trans by blast

lemma sorted_insert:
  "sorted_wrt (\<lambda>x y. \<not> lt y x) xs \<Longrightarrow> sorted_wrt (\<lambda>x y. \<not> lt y x) (insert_stable lt x xs)"
proof (induction xs)
  case Nil
  show ?case by simp
next
  case (Cons y ys)
  have set_ins: "set (insert_stable lt x ys) = insert x (set ys)"
    by (metis mset_insert_stable set_mset_add_mset_insert set_mset_mset)
  show ?case
  proof (cases "lt y x")
    case True
    then show ?thesis using Cons by (auto simp: set_ins asym)
  next
    case False
    then show ?thesis using Cons.prems incomp_trans by auto
  qed
qed

lemma sorted_stable_sort: "sorted_wrt (\<lambda>x y. \<not> lt y x) (stable_sort lt xs)"
  by (induction xs) (simp_all add: sorted_insert)

lemma filter_insert_stable:
  assumes "sorted_wrt (\<lambda>x y. \<not> lt y x) ys"
  shows "filter (\<lambda>y. \<not> lt a y \<and> \<not> lt y a) (insert_stable lt x ys) =
    filter (\<lambda>y. \<not> lt a y \<and> \<not> lt y a) (x # ys)"
  using assms
proof (induction ys)
  case Nil
  show ?case by simp
next
  case (Cons y ys)
  show ?case
  proof (cases "lt y x")
    case True
    then have "\<not> ((\<not> lt a x \<and> \<not> lt x a) \<and> (\<not> lt a y \<and> \<not> lt y a))"
      using incomp_trans by blast
    with True Cons show ?thesis by auto
  next
    case False
    then show ?thesis by simp
  qed
qed

lemma stable_stable_sort:
  "filter (\<lambda>y. \<not> lt a y \<and> \<not> lt y a) (stable_sort lt xs) =
    filter (\<lambda>y. \<not> lt a y \<and> \<not> lt y a) xs"
  by (induction xs) (simp_all add: filter_insert_stable sorted_stable_sort)

lemma stable_sort_unique:
  assumes "mset ys = mset xs"
    and "sorted_wrt (\<lambda>x y. \<not> lt y x) ys"
    and "\<And>a. filter (\<lambda>y. \<not> lt a y \<and> \<not> lt y a) ys = filter (\<lambda>y. \<not> lt a y \<and> \<not> lt y a) xs"
  shows "ys = stable_sort lt xs"
proof -
  let ?P = "\<lambda>a y. \<not> lt a y \<and> \<not> lt y a"
  have "ys = zs"
    if "sorted_wrt (\<lambda>x y. \<not> lt y x) ys" "sorted_wrt (\<lambda>x y. \<not> lt y x) zs"
      "mset ys = mset zs" "\<And>a. filter (?P a) ys = filter (?P a) zs" for ys zs :: "'a list"
    using that
  proof (induction ys arbitrary: zs)
    case Nil
    then show ?case by simp
  next
    case (Cons y ys)
    then obtain z zs' where zs: "zs = z # zs'" by (cases zs) auto
    have zin: "z \<in> set (y # ys)" and yin: "y \<in> set (z # zs')"
      using Cons.prems(3) zs by (metis list.set_intros(1) set_mset_mset)+
    have "\<not> lt z y" using Cons.prems(1) zin irrefl by auto
    moreover have "\<not> lt y z" using Cons.prems(2) yin irrefl zs by auto
    ultimately have eqv: "?P y z" by simp
    have "filter (?P y) (y # ys) = filter (?P y) (z # zs')"
      using Cons.prems(4) [of y] zs by simp
    with eqv irrefl have yz: "y = z" by simp
    moreover have "ys = zs'"
    proof (rule Cons.IH)
      show "sorted_wrt (\<lambda>x y. \<not> lt y x) ys" "sorted_wrt (\<lambda>x y. \<not> lt y x) zs'"
        using Cons.prems(1,2) zs by auto
      show "mset ys = mset zs'" using Cons.prems(3) zs yz by simp
      show "filter (?P a) ys = filter (?P a) zs'" for a
        using Cons.prems(4) [of a] zs yz by (simp split: if_splits)
    qed
    ultimately show ?case using zs by simp
  qed
  from this [OF assms(2) sorted_stable_sort] assms(1,3) show ?thesis
    by (simp add: stable_stable_sort)
qed

end

end
