(* ===== verification/Cron.thy ===== *)
theory Cron
  imports Prelude
begin

text \<open>
  The cron expressions of automation rules (\<open>internal/schedule/cron.go\<close>): parsing of the five Unix fields and of the
  Quartz forms, and matching against the wall clock. The loop that fills a field adds the step with 64-bit wrap-around; it is a partial function
  and proved to return. A time is given by its reading in the zone of the rule (\<open>civil_time\<close>).
\<close>

section \<open>Data\<close>

record field_spec =
  fs_any :: bool
  fs_values :: "int goset"

record cron_expression =
  ce_minute :: field_spec
  ce_hour :: field_spec
  ce_day :: field_spec
  ce_month :: field_spec
  ce_week :: field_spec

record civil_time =
  ct_Minute :: int
  ct_Hour :: int
  ct_Day :: int
  ct_Month :: int
  ct_Weekday :: int

datatype field_error =
    NoValues
  | EmptyPart
  | BadStepExpression string
  | BadStepValue string
  | BadRange string
  | DescendingRange string
  | BadInteger string
  | OutOfRange int int int

datatype cron_error =
    FieldCount nat
  | QuartzSeconds string
  | QuartzYear string
  | InField string field_error

section \<open>Parsing\<close>

definition parseBound :: "string \<Rightarrow> int \<Rightarrow> int \<Rightarrow> field_error + int" where
  "parseBound expr lo hi =
     (case atoi expr of
        None \<Rightarrow> Inl (BadInteger expr)
      | Some value \<Rightarrow> if value < lo \<or> value > hi then Inl (OutOfRange value lo hi) else Inr value)"

definition parseRange :: "string \<Rightarrow> int \<Rightarrow> int \<Rightarrow> field_error + int \<times> int" where
  "parseRange expr lo hi =
     (if expr = [] \<or> expr = ''*'' then Inr (lo, hi)
      else if CHR ''-'' \<in> set expr
      then case split_char (CHR ''-'') expr of
             [p, q] \<Rightarrow>
               (case parseBound p lo hi of
                  Inl e \<Rightarrow> Inl e
                | Inr start \<Rightarrow>
                    (case parseBound q lo hi of
                       Inl e \<Rightarrow> Inl e
                     | Inr fin \<Rightarrow> if fin < start then Inl (DescendingRange expr) else Inr (start, fin)))
           | _ \<Rightarrow> Inl (BadRange expr)
      else case parseBound expr lo hi of Inl e \<Rightarrow> Inl e | Inr value \<Rightarrow> Inr (value, value))"

partial_function (option) fill_from :: "int goset \<Rightarrow> int \<Rightarrow> int \<Rightarrow> int \<Rightarrow> int goset option" where
  "fill_from values value fin step =
     (if value \<le> fin then fill_from (mput values value ()) (wrap64 (value + step)) fin step else Some values)"

definition part_step :: "string \<Rightarrow> field_error + string \<times> int" where
  "part_step expr =
     (if CHR ''/'' \<in> set expr
      then case split_char (CHR ''/'') expr of
             [base, n] \<Rightarrow>
               (case atoi n of
                  None \<Rightarrow> Inl (BadStepValue n)
                | Some k \<Rightarrow> if k \<le> 0 then Inl (BadStepValue n) else Inr (base, k))
           | _ \<Rightarrow> Inl (BadStepExpression expr)
      else Inr (expr, 1))"

definition addFieldPart :: "int goset \<Rightarrow> string \<Rightarrow> int \<Rightarrow> int \<Rightarrow> (field_error + int goset) option" where
  "addFieldPart values expr lo hi =
     (if expr = [] then Some (Inl EmptyPart)
      else case part_step expr of
             Inl e \<Rightarrow> Some (Inl e)
           | Inr (base, step) \<Rightarrow>
               (case parseRange base lo hi of
                  Inl e \<Rightarrow> Some (Inl e)
                | Inr (start, fin) \<Rightarrow> map_option Inr (fill_from values start fin step)))"

fun add_parts :: "int goset \<Rightarrow> string list \<Rightarrow> int \<Rightarrow> int \<Rightarrow> (field_error + int goset) option" where
  "add_parts values [] lo hi = Some (Inr values)"
| "add_parts values (part # parts) lo hi =
     (case addFieldPart values (trim_space part) lo hi of
        None \<Rightarrow> None
      | Some (Inl e) \<Rightarrow> Some (Inl e)
      | Some (Inr values') \<Rightarrow> add_parts values' parts lo hi)"

definition parseField :: "string \<Rightarrow> int \<Rightarrow> int \<Rightarrow> (field_error + field_spec) option" where
  "parseField expr lo hi =
     (if expr = ''*'' then Some (Inr \<lparr>fs_any = True, fs_values = []\<rparr>)
      else case add_parts [] (split_char (CHR '','') expr) lo hi of
             None \<Rightarrow> None
           | Some (Inl e) \<Rightarrow> Some (Inl e)
           | Some (Inr values) \<Rightarrow> Some (if values = [] then Inl NoValues else Inr \<lparr>fs_any = False, fs_values = values\<rparr>))"

definition unix_fields :: "string list \<Rightarrow> cron_error + string list" where
  "unix_fields fs =
     (if length fs = 5 then Inr fs
      else if length fs = 6 \<or> length fs = 7
      then if fs ! 0 \<noteq> ''0'' then Inl (QuartzSeconds (fs ! 0))
           else if length fs = 7 \<and> fs ! 6 \<noteq> ''*'' then Inl (QuartzYear (fs ! 6))
           else Inr (take 5 (drop 1 fs))
      else Inl (FieldCount (length fs)))"

definition in_field :: "string \<Rightarrow> (field_error + field_spec) option \<Rightarrow> (field_spec \<Rightarrow> (cron_error + 'a) option) \<Rightarrow> (cron_error + 'a) option" where
  "in_field name r k =
     (case r of None \<Rightarrow> None | Some (Inl e) \<Rightarrow> Some (Inl (InField name e)) | Some (Inr f) \<Rightarrow> k f)"

definition Parse :: "string \<Rightarrow> (cron_error + cron_expression) option" where
  "Parse expr =
     (case unix_fields (str_fields (trim_space expr)) of
        Inl e \<Rightarrow> Some (Inl e)
      | Inr fields0 \<Rightarrow>
          let fs = map (\<lambda>f. if f = ''?'' then ''*'' else f) fields0
          in in_field ''minute'' (parseField (fs ! 0) 0 59) (\<lambda>mi.
             in_field ''hour'' (parseField (fs ! 1) 0 23) (\<lambda>ho.
             in_field ''day-of-month'' (parseField (fs ! 2) 1 31) (\<lambda>da.
             in_field ''month'' (parseField (fs ! 3) 1 12) (\<lambda>mo.
             in_field ''day-of-week'' (parseField (fs ! 4) 0 6) (\<lambda>we.
               Some (Inr \<lparr>ce_minute = mi, ce_hour = ho, ce_day = da, ce_month = mo, ce_week = we\<rparr>)))))))"

section \<open>Matching\<close>

definition matchesField :: "field_spec \<Rightarrow> int \<Rightarrow> bool" where
  "matchesField spec value = (if fs_any spec then True else mhas (fs_values spec) value)"

definition Matches :: "cron_expression \<Rightarrow> civil_time \<Rightarrow> bool" where
  "Matches e t =
     (if \<not> matchesField (ce_minute e) (ct_Minute t) \<or> \<not> matchesField (ce_hour e) (ct_Hour t) \<or> \<not> matchesField (ce_month e) (ct_Month t)
      then False
      else let dayMatch = matchesField (ce_day e) (ct_Day t);
               weekMatch = matchesField (ce_week e) (ct_Weekday t)
           in if fs_any (ce_day e) \<and> fs_any (ce_week e) then True
              else if fs_any (ce_day e) then weekMatch
              else if fs_any (ce_week e) then dayMatch
              else dayMatch \<or> weekMatch)"

section \<open>The loop that fills a field\<close>


lemma wrap64_over:
  assumes "int64_max < x" and "x \<le> int64_max + 2 ^ 64"
  shows "wrap64 x = x - 2 ^ 64"
proof -
  have "(x + 2 ^ 63) mod 2 ^ 64 = (x + 2 ^ 63 - 2 ^ 64) mod 2 ^ 64" by (rule minus_mod_self2 [symmetric])
  also have "\<dots> = x + 2 ^ 63 - 2 ^ 64" using assms by (intro mod_pos_pos_trivial) (simp_all add: int64_max_def)
  finally show ?thesis by (simp add: wrap64_def)
qed

lemma fill_exact:
  assumes "0 < step" and "fin + step \<le> int64_max" and "int64_min \<le> v"
  shows "\<exists>vs'. fill_from vs v fin step = Some vs' \<and>
    (\<forall>x. mhas vs' x \<longleftrightarrow> mhas vs x \<or> v \<le> x \<and> x \<le> fin \<and> (x - v) mod step = 0)"
  using assms(3)
proof (induction "nat (fin + 1 - v)" arbitrary: vs v rule: less_induct)
  case less
  show ?case
  proof (cases "v \<le> fin")
    case False
    then show ?thesis by (subst fill_from.simps) auto
  next
    case True
    let ?vs = "mput vs v ()"
    have w: "wrap64 (v + step) = v + step" using assms(1,2) True less.prems by (intro wrap64_id) simp_all
    obtain vs' where vs': "fill_from ?vs (v + step) fin step = Some vs'"
      "\<And>x. mhas vs' x \<longleftrightarrow> mhas ?vs x \<or> v + step \<le> x \<and> x \<le> fin \<and> (x - (v + step)) mod step = 0"
      using less.hyps [of "v + step" ?vs] less.prems assms(1) True by auto
    have m1: "(x - (v + step)) mod step = (x - v) mod step" for x
      using minus_mod_self2 [of "x - v" step] by (simp add: algebra_simps)
    have m2: "x = v \<or> v + step \<le> x" if "v \<le> x" "(x - v) mod step = 0" for x
      using that zdvd_imp_le [of step "x - v"] by (cases "x = v") (simp_all add: mod_eq_0_iff_dvd)
    have "mhas vs' x \<longleftrightarrow> mhas vs x \<or> v \<le> x \<and> x \<le> fin \<and> (x - v) mod step = 0" for x
      using vs'(2) [of x] m1 [of x] m2 [of x] True assms(1) by auto
    with vs'(1) True w show ?thesis by (subst fill_from.simps) simp
  qed
qed

text \<open>A step close to the largest integer wraps around; the loop still ends.\<close>

lemma fill_wrapped:
  assumes "int64_max < fin + step" and "step \<le> int64_max" and "0 \<le> fin" and "fin \<le> 59" and "-60 \<le> v" and "v \<le> fin"
  shows "\<exists>vs'. fill_from vs v fin step = Some vs' \<and> (\<forall>x. mhas vs x \<longrightarrow> mhas vs' x)
    \<and> mhas vs' v \<and> (int64_max < v + step \<longrightarrow> mhas vs' (v + 2 * step - 2 ^ 64))"
  using assms(5,6)
proof (induction "nat (v + 60)" arbitrary: vs v rule: less_induct)
  case less
  let ?vs = "mput vs v ()"
  show ?case
  proof (cases "int64_max < v + step")
    case False
    then have "wrap64 (v + step) = v + step" using assms less.prems by (intro wrap64_id) (simp_all add: int64_min_def int64_max_def)
    moreover have "\<not> v + step \<le> fin" using assms less.prems by (simp add: int64_max_def)
    ultimately have "fill_from ?vs (wrap64 (v + step)) fin step = Some ?vs" by (subst fill_from.simps) simp
    with less.prems(2) False show ?thesis by (subst fill_from.simps) simp
  next
    case True
    let ?u = "v + step - 2 ^ 64" and ?w = "v + 2 * step - 2 ^ 64"
    have u: "wrap64 (v + step) = ?u" using True less.prems assms by (intro wrap64_over) (simp_all add: int64_max_def)
    have w: "wrap64 (?u + step) = ?w" using True less.prems assms by (subst wrap64_id) (simp_all add: int64_min_def int64_max_def)
    have le: "?u \<le> fin" "?w \<le> fin" "-60 \<le> ?w" "nat (?w + 60) < nat (v + 60)"
      using True less.prems assms by (simp_all add: int64_max_def)
    obtain vs' where vs': "fill_from (mput ?vs ?u ()) ?w fin step = Some vs'" "\<And>x. mhas (mput ?vs ?u ()) x \<Longrightarrow> mhas vs' x" "mhas vs' ?w"
      using less.hyps [OF le(4,3,2), of "mput ?vs ?u ()"] by blast
    have "fill_from ?vs ?u fin step = Some vs'" using vs'(1) le(1) w by (subst fill_from.simps) simp
    then have "fill_from vs v fin step = Some vs'" using less.prems(2) u by (subst fill_from.simps) simp
    moreover have "mhas vs x \<longrightarrow> mhas vs' x" "mhas vs' v" for x using vs'(2) [of x] vs'(2) [of v] by simp_all
    ultimately show ?thesis using vs'(3) by blast
  qed
qed

lemma fill_returns:
  assumes "0 < step" and "step \<le> int64_max" and "0 \<le> v" and "v \<le> fin" and "fin \<le> 59"
  shows "\<exists>vs'. fill_from vs v fin step = Some vs' \<and> mhas vs' v"
proof (cases "fin + step \<le> int64_max")
  case True
  then show ?thesis using fill_exact [OF assms(1) True, of v vs] assms by (fastforce simp: int64_min_def)
next
  case False
  then show ?thesis using fill_wrapped [of fin step v vs] assms by fastforce
qed

section \<open>Parsing ends\<close>

lemma atoi_bounds: "atoi s = Some n \<Longrightarrow> int64_min \<le> n \<and> n \<le> int64_max"
  by (auto simp: atoi_def split: option.splits if_splits)

lemma part_step_bounds: "part_step s = Inr (base, k) \<Longrightarrow> 0 < k \<and> k \<le> int64_max"
  by (auto simp: part_step_def int64_max_def dest: atoi_bounds split: if_splits list.splits option.splits)

lemma parseBound_bounds: "parseBound s lo hi = Inr n \<Longrightarrow> lo \<le> n \<and> n \<le> hi"
  by (auto simp: parseBound_def split: option.splits if_splits)

lemma parseRange_bounds: "parseRange s lo hi = Inr (a, b) \<Longrightarrow> lo \<le> hi \<Longrightarrow> lo \<le> a \<and> a \<le> b \<and> b \<le> hi"
  by (auto simp: parseRange_def dest!: parseBound_bounds split: if_splits list.splits sum.splits)

lemma part_returns:
  assumes "0 \<le> lo" and "lo \<le> hi" and "hi \<le> 59"
  shows "\<exists>r. addFieldPart values s lo hi = Some r \<and> (\<forall>vs. r = Inr vs \<longrightarrow> vs \<noteq> [])"
proof (cases "s = [] \<or> (\<exists>e. part_step s = Inl e) \<or> (\<exists>b k e. part_step s = Inr (b, k) \<and> parseRange b lo hi = Inl e)")
  case True
  then show ?thesis by (auto simp: addFieldPart_def)
next
  case False
  then obtain b k where p: "s \<noteq> []" "part_step s = Inr (b, k)" by (metis surj_pair sum.exhaust)
  with False obtain x y where r: "parseRange b lo hi = Inr (x, y)" by (metis surj_pair sum.exhaust)
  have "\<exists>vs. fill_from values x y k = Some vs \<and> mhas vs x"
    using part_step_bounds [OF p(2)] parseRange_bounds [OF r assms(2)] assms by (intro fill_returns) simp_all
  then show ?thesis using p r by (auto simp: addFieldPart_def mhas_def)
qed

lemma parts_return:
  assumes "0 \<le> lo" and "lo \<le> hi" and "hi \<le> 59"
  shows "\<exists>r. add_parts vs0 ps lo hi = Some r \<and> (\<forall>vs. r = Inr vs \<longrightarrow> ps \<noteq> [] \<longrightarrow> vs \<noteq> [])"
proof (induction ps arbitrary: vs0)
  case (Cons p ps)
  obtain r where r: "addFieldPart vs0 (trim_space p) lo hi = Some r" "\<And>vs. r = Inr vs \<Longrightarrow> vs \<noteq> []"
    using part_returns [OF assms] by blast
  show ?case
  proof (cases r)
    case (Inr vs)
    then show ?thesis using r Cons.IH [of vs] by (cases "ps = []") auto
  qed (use r in auto)
qed simp

lemma field_returns:
  assumes "0 \<le> lo" and "lo \<le> hi" and "hi \<le> 59"
  shows "\<exists>r. parseField s lo hi = Some r"
  using parts_return [OF assms, of "[]" "split_char (CHR '','') s"]
  by (auto simp: parseField_def split: sum.splits)

text \<open>
  C35. The parser returns on every text, whatever its steps: the loops that fill the five fields end, with a result or an error.
\<close>

theorem cron_parse_returns: "\<exists>r. Parse s = Some r"
proof -
  have step: "\<exists>r. in_field n (parseField t lo hi) k = Some r"
    if "0 \<le> lo" "lo \<le> hi" "hi \<le> 59" "\<And>f. \<exists>r. k f = Some r" for n t lo hi and k :: "field_spec \<Rightarrow> (cron_error + cron_expression) option"
    using field_returns [OF that(1-3), of t] that(4) by (auto simp: in_field_def split: sum.splits)
  show ?thesis
  proof (cases "unix_fields (str_fields (trim_space s))")
    case (Inl e)
    then show ?thesis by (simp add: Parse_def)
  next
    case (Inr fs)
    show ?thesis unfolding Parse_def Inr Let_def sum.case by (intro step) simp_all
  qed
qed

section \<open>The meaning of a field\<close>

text \<open>What a rule's author writes: parts of a field, their text, and the values they stand for.\<close>

datatype cron_base = Star | Single int | Span int int

type_synonym cron_part = "cron_base \<times> int option"

fun base_bounds :: "int \<Rightarrow> int \<Rightarrow> cron_base \<Rightarrow> int \<times> int" where
  "base_bounds lo hi Star = (lo, hi)"
| "base_bounds lo hi (Single n) = (n, n)"
| "base_bounds lo hi (Span a b) = (a, b)"

fun base_text :: "cron_base \<Rightarrow> string" where
  "base_text Star = ''*''"
| "base_text (Single n) = itoa n"
| "base_text (Span a b) = itoa a @ ''-'' @ itoa b"

definition part_text :: "cron_part \<Rightarrow> string" where
  "part_text p = base_text (fst p) @ (case snd p of None \<Rightarrow> [] | Some k \<Rightarrow> ''/'' @ itoa k)"

definition field_text :: "cron_part list \<Rightarrow> string" where
  "field_text ps = join_with '','' (map part_text ps)"

definition part_wf :: "int \<Rightarrow> int \<Rightarrow> cron_part \<Rightarrow> bool" where
  "part_wf lo hi p \<longleftrightarrow> (case base_bounds lo hi (fst p) of (a, b) \<Rightarrow> lo \<le> a \<and> a \<le> b \<and> b \<le> hi \<and>
     (case snd p of None \<Rightarrow> True | Some k \<Rightarrow> 0 < k \<and> k \<le> int64_max))"

definition part_ok :: "int \<Rightarrow> int \<Rightarrow> cron_part \<Rightarrow> bool" where
  "part_ok lo hi p \<longleftrightarrow> part_wf lo hi p \<and>
     (case snd p of None \<Rightarrow> True | Some k \<Rightarrow> snd (base_bounds lo hi (fst p)) + k \<le> int64_max)"

definition part_denotes :: "int \<Rightarrow> int \<Rightarrow> cron_part \<Rightarrow> int \<Rightarrow> bool" where
  "part_denotes lo hi p v \<longleftrightarrow> (case base_bounds lo hi (fst p) of (a, b) \<Rightarrow> a \<le> v \<and> v \<le> b \<and>
     (v - a) mod (case snd p of None \<Rightarrow> 1 | Some k \<Rightarrow> k) = 0)"

definition field_ok :: "int \<Rightarrow> int \<Rightarrow> cron_part list \<Rightarrow> bool" where
  "field_ok lo hi ps \<longleftrightarrow> ps \<noteq> [] \<and> list_all (part_ok lo hi) ps"

definition field_denotes :: "int \<Rightarrow> int \<Rightarrow> cron_part list \<Rightarrow> int \<Rightarrow> bool" where
  "field_denotes lo hi ps v \<longleftrightarrow> (\<exists>p\<in>set ps. part_denotes lo hi p v)"

abbreviation starred :: "cron_part list \<Rightarrow> bool" where
  "starred ps \<equiv> ps = [(Star, None)]"

lemma split_char_notin: "c \<notin> set s \<Longrightarrow> split_char c s = [s]"
  by (induction s) auto

lemma split_char_append: "c \<notin> set b \<Longrightarrow> split_char c (b @ c # s) = b # split_char c s"
  by (induction b) auto

lemma split_char_join:
  assumes "ws \<noteq> []" and "\<forall>w\<in>set ws. c \<notin> set w"
  shows "split_char c (join_with [c] ws) = ws"
  using assms by (induction "[c]" ws rule: join_with.induct) (auto simp: split_char_notin split_char_append)

lemma itoa_digits: "0 \<le> n \<Longrightarrow> list_all is_digit (itoa n)"
  by (simp add: itoa_def nat_digits_digits)

lemma itoa_ne [simp]: "itoa n \<noteq> []"
  by (simp add: itoa_def)

lemma itoa_chars:
  assumes "0 \<le> n" and "\<not> is_digit c"
  shows "c \<notin> set (itoa n)"
  using itoa_digits [OF assms(1)] assms(2) by (auto simp: list_all_iff)

lemma separators: "\<not> is_digit (CHR ''-'')" "\<not> is_digit (CHR ''/'')" "\<not> is_digit (CHR '','')" "\<not> is_digit (CHR ''*'')" "\<not> is_digit (CHR ''?'')"
  "\<not> is_space (CHR ''-'')" "\<not> is_space (CHR ''/'')" "\<not> is_space (CHR '','')" "\<not> is_space (CHR ''*'')" "is_space (CHR '' '')"
  by code_simp+

lemma space_not_digit: "is_space c \<Longrightarrow> \<not> is_digit c"
  by (auto simp: is_space_def is_digit_def Let_def)

lemma part_bounds:
  assumes "part_wf lo hi p" and "0 \<le> lo" and "hi \<le> 59" and "base_bounds lo hi (fst p) = (a, b)"
  shows "0 \<le> a" "a \<le> b" "b \<le> hi" "lo \<le> a" "\<And>k. snd p = Some k \<Longrightarrow> 0 < k \<and> k \<le> int64_max"
  using assms by (auto simp: part_wf_def)

lemma base_chars:
  assumes "part_wf lo hi p" and "0 \<le> lo" and "\<not> is_digit c" and "c \<noteq> CHR ''*''" and "c \<noteq> CHR ''-''"
  shows "c \<notin> set (base_text (fst p))"
  using assms by (cases "fst p") (simp_all add: part_wf_def itoa_chars)

lemma part_chars:
  assumes "part_wf lo hi p" and "0 \<le> lo" and "\<not> is_digit c" and "c \<noteq> CHR ''*''" and "c \<noteq> CHR ''-''" and "c \<noteq> CHR ''/''"
  shows "c \<notin> set (part_text p)"
proof -
  have "0 \<le> k" if "snd p = Some k" for k using assms(1) that by (auto simp: part_wf_def)
  then show ?thesis using base_chars [OF assms(1-5)] assms(3,6) by (cases "snd p") (simp_all add: part_text_def itoa_chars)
qed

lemma part_text_ne [simp]: "part_text p \<noteq> []"
  by (cases "fst p") (simp_all add: part_text_def)

lemma trim_space_id:
  assumes "s \<noteq> []" and "\<not> is_space (hd s)" and "\<not> is_space (last s)"
  shows "trim_space s = s"
proof -
  obtain c t where s: "s = c # t" using assms(1) by (cases s) auto
  have "dropWhile is_space s = s" using assms(2) s by simp
  moreover have "dropWhile is_space (rev s) = rev s" using assms(1,3) by (cases "rev s") (auto simp: last_rev hd_rev [symmetric])
  ultimately show ?thesis by (simp add: trim_space_def)
qed

lemma spaceless_trim: "\<forall>c\<in>set s. \<not> is_space c \<Longrightarrow> trim_space s = s"
  by (cases "s = []") (simp add: trim_space_def, simp add: trim_space_id)

lemma part_trim:
  assumes "part_wf lo hi p" and "0 \<le> lo"
  shows "\<forall>c\<in>set (part_text p). \<not> is_space c"
  using part_chars [OF assms] space_not_digit separators by metis

lemma part_step_text:
  assumes "part_wf lo hi p" and "0 \<le> lo" and "hi \<le> 59"
  shows "part_step (part_text p) = Inr (base_text (fst p), case snd p of None \<Rightarrow> 1 | Some k \<Rightarrow> k)"
proof -
  have b: "CHR ''/'' \<notin> set (base_text (fst p))" by (rule base_chars [OF assms(1,2)]) (simp_all add: separators)
  show ?thesis
  proof (cases "snd p")
    case None
    then show ?thesis using b by (simp add: part_step_def part_text_def)
  next
    case (Some k)
    then have k: "0 < k" "k \<le> int64_max" using part_bounds(5) [OF assms, of _ _ k] part_bounds(5) [OF assms] by (cases "base_bounds lo hi (fst p)", auto)+
    have "split_char (CHR ''/'') (base_text (fst p) @ CHR ''/'' # itoa k) = [base_text (fst p), itoa k]"
      using b k(1) by (simp add: split_char_append split_char_notin itoa_chars separators)
    moreover have "atoi (itoa k) = Some k" using k by (intro atoi_itoa) (simp_all add: int64_min_def)
    ultimately show ?thesis using k Some by (simp add: part_step_def part_text_def)
  qed
qed

lemma parseBound_itoa: "lo \<le> n \<Longrightarrow> n \<le> hi \<Longrightarrow> 0 \<le> lo \<Longrightarrow> hi \<le> 59 \<Longrightarrow> parseBound (itoa n) lo hi = Inr n"
  by (simp add: parseBound_def atoi_itoa int64_min_def int64_max_def)

lemma parseRange_text:
  assumes "part_wf lo hi p" and "0 \<le> lo" and "hi \<le> 59"
  shows "parseRange (base_text (fst p)) lo hi = Inr (base_bounds lo hi (fst p))"
proof (cases "fst p")
  case Star
  then show ?thesis by (simp add: parseRange_def)
next
  case (Single n)
  then have n: "lo \<le> n" "n \<le> hi" "0 \<le> n" using assms by (auto simp: part_wf_def)
  then have "CHR ''-'' \<notin> set (itoa n)" "itoa n \<noteq> ''*''"
    using itoa_chars [OF n(3) separators(1)] itoa_chars [OF n(3) separators(4)] by (auto split: if_splits)
  then show ?thesis using n assms by (simp add: parseRange_def Single parseBound_itoa)
next
  case (Span a b)
  then have n: "lo \<le> a" "a \<le> b" "b \<le> hi" "0 \<le> a" "0 \<le> b" using assms by (auto simp: part_wf_def)
  then have d: "CHR ''-'' \<notin> set (itoa a)" "CHR ''-'' \<notin> set (itoa b)" by (simp_all add: itoa_chars separators)
  have "itoa a @ CHR ''-'' # itoa b \<noteq> ''*''" by (cases "itoa a") auto
  then show ?thesis using n d assms by (simp add: parseRange_def Span split_char_append split_char_notin parseBound_itoa)
qed

lemma part_exact:
  assumes ok: "part_ok lo hi p" and "0 \<le> lo" and "hi \<le> 59"
  shows "\<exists>vs'. addFieldPart vs (trim_space (part_text p)) lo hi = Some (Inr vs') \<and> (\<forall>x. mhas vs' x \<longleftrightarrow> mhas vs x \<or> part_denotes lo hi p x)"
proof -
  have wf: "part_wf lo hi p" using ok by (simp add: part_ok_def)
  obtain a b where ab: "base_bounds lo hi (fst p) = (a, b)" by (cases "base_bounds lo hi (fst p)")
  note bd = part_bounds [OF wf assms(2,3) ab]
  define k where "k = (case snd p of None \<Rightarrow> 1 | Some k \<Rightarrow> k)"
  have "0 < k" "b + k \<le> int64_max" using bd assms(3) ok by (auto simp: k_def int64_max_def part_ok_def ab split: option.split)
  from fill_exact [OF this, of a vs] bd(1) obtain vs' where "fill_from vs a b k = Some vs'"
    "\<forall>x. mhas vs' x \<longleftrightarrow> mhas vs x \<or> a \<le> x \<and> x \<le> b \<and> (x - a) mod k = 0" by (auto simp: int64_min_def)
  then show ?thesis
    by (simp add: addFieldPart_def spaceless_trim [OF part_trim [OF wf assms(2)]] part_step_text [OF wf assms(2,3)] parseRange_text [OF wf assms(2,3)]
        ab k_def [symmetric] part_denotes_def)
qed

lemma parts_exact:
  assumes "list_all (part_ok lo hi) ps" and "0 \<le> lo" and "hi \<le> 59"
  shows "\<exists>vs'. add_parts vs (map part_text ps) lo hi = Some (Inr vs') \<and> (\<forall>x. mhas vs' x \<longleftrightarrow> mhas vs x \<or> field_denotes lo hi ps x)"
  using assms(1)
proof (induction ps arbitrary: vs)
  case (Cons p ps)
  obtain vs1 where vs1: "addFieldPart vs (trim_space (part_text p)) lo hi = Some (Inr vs1)"
    "\<And>x. mhas vs1 x \<longleftrightarrow> mhas vs x \<or> part_denotes lo hi p x" using part_exact [OF _ assms(2,3), of p vs] Cons.prems by auto
  obtain vs2 where "add_parts vs1 (map part_text ps) lo hi = Some (Inr vs2)" "\<And>x. mhas vs2 x \<longleftrightarrow> mhas vs1 x \<or> field_denotes lo hi ps x"
    using Cons.IH [of vs1] Cons.prems by auto
  with vs1 show ?case by (auto simp: field_denotes_def)
qed (simp add: field_denotes_def)

lemma field_split:
  assumes "field_ok lo hi ps" and "0 \<le> lo"
  shows "split_char (CHR '','') (field_text ps) = map part_text ps"
proof -
  have "CHR '','' \<notin> set (part_text p)" if "p \<in> set ps" for p
    using that assms by (intro part_chars [of lo hi]) (simp_all add: field_ok_def list_all_iff separators part_ok_def)
  then show ?thesis using assms(1) by (simp add: field_text_def field_ok_def split_char_join)
qed

lemma star_text:
  assumes "part_wf lo hi p" and "0 \<le> lo"
  shows "part_text p = ''*'' \<longleftrightarrow> p = (Star, None)"
proof
  assume t: "part_text p = ''*''"
  have "itoa n \<noteq> ''*''" if "0 \<le> n" for n using itoa_chars [OF that separators(4)] by (auto split: if_splits)
  then have "fst p = Star" using t assms
    by (cases "fst p"; cases "snd p") (auto simp: part_text_def part_wf_def append_eq_Cons_conv)
  then show "p = (Star, None)" using t by (cases p; cases "snd p") (simp_all add: part_text_def)
qed (simp add: part_text_def)

lemma field_star:
  assumes "field_ok lo hi ps" and "0 \<le> lo"
  shows "field_text ps = ''*'' \<longleftrightarrow> starred ps"
proof
  assume "field_text ps = ''*''"
  then have "map part_text ps = [''*'']" using field_split [OF assms] by (simp add: split_char_notin)
  then obtain p where "ps = [p]" "part_text p = ''*''" by (cases ps) auto
  then show "starred ps" using assms star_text [of lo hi p] by (simp add: field_ok_def part_ok_def)
qed (simp add: field_text_def part_text_def)

lemma field_exact:
  assumes "field_ok lo hi ps" and "0 \<le> lo" and "hi \<le> 59"
  shows "\<exists>f. parseField (field_text ps) lo hi = Some (Inr f) \<and> fs_any f = starred ps \<and>
    (\<forall>v. lo \<le> v \<and> v \<le> hi \<longrightarrow> matchesField f v = field_denotes lo hi ps v)"
proof (cases "starred ps")
  case True
  then show ?thesis
    using field_star [OF assms(1,2)] by (simp add: parseField_def matchesField_def field_denotes_def part_denotes_def)
next
  case False
  obtain vs where vs: "add_parts [] (map part_text ps) lo hi = Some (Inr vs)" "\<And>x. mhas vs x \<longleftrightarrow> field_denotes lo hi ps x"
    using parts_exact [of lo hi ps "[]"] assms by (auto simp: field_ok_def mhas_def)
  obtain p where p: "p \<in> set ps" "part_wf lo hi p" using assms(1) by (cases ps) (auto simp: field_ok_def part_ok_def)
  obtain a b where "base_bounds lo hi (fst p) = (a, b)" by (cases "base_bounds lo hi (fst p)")
  then have "part_denotes lo hi p a" using p(2) by (simp add: part_denotes_def part_wf_def)
  then have "mhas vs a" using vs(2) p(1) by (auto simp: field_denotes_def)
  then have "vs \<noteq> []" by (auto simp: mhas_def)
  then show ?thesis
    using False field_star [OF assms(1,2)] vs field_split [OF assms(1,2)] by (simp add: parseField_def matchesField_def)
qed

section \<open>The meaning of an expression\<close>

definition next_char :: "char \<Rightarrow> string list \<Rightarrow> string list" where
  "next_char c ws = (if is_space c then [] # ws else (case ws of [] \<Rightarrow> [[c]] | w # ws' \<Rightarrow> (c # w) # ws'))"

lemma str_fields_next: "str_fields s = filter (\<lambda>w. w \<noteq> []) (foldr next_char s [[]])"
  by (simp add: str_fields_def next_char_def [abs_def])

lemma next_word: "\<forall>c\<in>set w. \<not> is_space c \<Longrightarrow> foldr next_char w (x # xs) = (w @ x) # xs"
  by (induction w) (simp_all add: next_char_def)

lemma str_fields_join:
  assumes "ws \<noteq> []" and "\<forall>w\<in>set ws. w \<noteq> [] \<and> (\<forall>c\<in>set w. \<not> is_space c)"
  shows "str_fields (join_with '' '' ws) = ws"
proof -
  have "foldr next_char (join_with '' '' ws) [[]] = ws"
    using assms
    by (induction "'' ''" ws rule: join_with.induct) (simp_all add: next_word, simp add: next_char_def [of "CHR '' ''"] separators next_word)
  then show ?thesis using assms(2) by (simp add: str_fields_next)
qed

lemma join_ends:
  assumes "ws \<noteq> []" and "\<forall>w\<in>set ws. w \<noteq> []"
  shows "join_with sep ws \<noteq> []" "hd (join_with sep ws) = hd (hd ws)" "last (join_with sep ws) = last (last ws)"
  using assms by (induction sep ws rule: join_with.induct) auto

lemma parsed_fields:
  assumes "ws \<noteq> []" and "\<forall>w\<in>set ws. w \<noteq> [] \<and> (\<forall>c\<in>set w. \<not> is_space c)"
  shows "str_fields (trim_space (join_with '' '' ws)) = ws"
proof -
  have ne: "\<forall>w\<in>set ws. w \<noteq> []" using assms(2) by blast
  have "\<not> is_space (hd (hd ws))" "\<not> is_space (last (last ws))" using assms hd_in_set last_in_set by metis+
  then have "trim_space (join_with '' '' ws) = join_with '' '' ws"
    using join_ends [OF assms(1) ne] by (intro trim_space_id) simp_all
  then show ?thesis using str_fields_join [OF assms] by simp
qed

datatype cron_style = Unix | Quartz | QuartzYearly

record cron_rule =
  rl_minute :: "cron_part list"
  rl_hour :: "cron_part list"
  rl_day :: "cron_part list"
  rl_month :: "cron_part list"
  rl_week :: "cron_part list"

fun styled :: "cron_style \<Rightarrow> string list \<Rightarrow> string list" where
  "styled Unix fs = fs"
| "styled Quartz fs = ''0'' # fs"
| "styled QuartzYearly fs = ''0'' # fs @ [''*'']"

definition rule_fields :: "cron_rule \<Rightarrow> string list" where
  "rule_fields r = map field_text [rl_minute r, rl_hour r, rl_day r, rl_month r, rl_week r]"

definition rule_text :: "cron_style \<Rightarrow> cron_rule \<Rightarrow> string" where
  "rule_text style r = join_with '' '' (styled style (rule_fields r))"

definition rule_ok :: "cron_rule \<Rightarrow> bool" where
  "rule_ok r \<longleftrightarrow> field_ok 0 59 (rl_minute r) \<and> field_ok 0 23 (rl_hour r) \<and> field_ok 1 31 (rl_day r) \<and> field_ok 1 12 (rl_month r) \<and> field_ok 0 6 (rl_week r)"

definition wall_clock :: "civil_time \<Rightarrow> bool" where
  "wall_clock t \<longleftrightarrow> 0 \<le> ct_Minute t \<and> ct_Minute t \<le> 59 \<and> 0 \<le> ct_Hour t \<and> ct_Hour t \<le> 23 \<and> 1 \<le> ct_Day t \<and> ct_Day t \<le> 31 \<and>
     1 \<le> ct_Month t \<and> ct_Month t \<le> 12 \<and> 0 \<le> ct_Weekday t \<and> ct_Weekday t \<le> 6"

definition rule_due :: "cron_rule \<Rightarrow> civil_time \<Rightarrow> bool" where
  "rule_due r t \<longleftrightarrow> field_denotes 0 59 (rl_minute r) (ct_Minute t) \<and> field_denotes 0 23 (rl_hour r) (ct_Hour t) \<and>
     field_denotes 1 12 (rl_month r) (ct_Month t) \<and>
     (if starred (rl_day r) \<or> starred (rl_week r)
      then field_denotes 1 31 (rl_day r) (ct_Day t) \<and> field_denotes 0 6 (rl_week r) (ct_Weekday t)
      else field_denotes 1 31 (rl_day r) (ct_Day t) \<or> field_denotes 0 6 (rl_week r) (ct_Weekday t))"

lemma field_chars:
  assumes "field_ok lo hi ps" and "0 \<le> lo"
  shows "field_text ps \<noteq> []" "\<forall>c\<in>set (field_text ps). \<not> is_space c \<and> c \<noteq> CHR ''?''"
proof -
  show "field_text ps \<noteq> []" using assms(1) join_ends(1) [of "map part_text ps"] by (auto simp: field_text_def field_ok_def)
  have "\<forall>p\<in>set ps. \<forall>c\<in>set (part_text p). \<not> is_space c \<and> c \<noteq> CHR ''?''"
    using assms part_trim part_chars [OF _ assms(2) separators(5)] by (auto simp: field_ok_def list_all_iff part_ok_def)
  moreover have "set (join_with '','' ws) \<subseteq> insert (CHR '','') (\<Union>w\<in>set ws. set w)" for ws
    by (induction "'',''" ws rule: join_with.induct) auto
  ultimately show "\<forall>c\<in>set (field_text ps). \<not> is_space c \<and> c \<noteq> CHR ''?''"
    using separators(8) by (fastforce simp: field_text_def)
qed

lemma starred_denotes: "starred ps \<Longrightarrow> lo \<le> v \<Longrightarrow> v \<le> hi \<Longrightarrow> field_denotes lo hi ps v"
  by (simp add: field_denotes_def part_denotes_def)

lemma styled_fields:
  assumes "rule_ok r"
  shows "unix_fields (str_fields (trim_space (rule_text style r))) = Inr (rule_fields r)"
    and "map (\<lambda>f. if f = ''?'' then ''*'' else f) (rule_fields r) = rule_fields r"
proof -
  have f: "\<forall>w\<in>set (rule_fields r). w \<noteq> [] \<and> (\<forall>c\<in>set w. \<not> is_space c \<and> c \<noteq> CHR ''?'')"
    using assms field_chars [of 0 59 "rl_minute r"] field_chars [of 0 23 "rl_hour r"] field_chars [of 1 31 "rl_day r"]
      field_chars [of 1 12 "rl_month r"] field_chars [of 0 6 "rl_week r"] by (simp add: rule_fields_def rule_ok_def)
  then have "\<forall>w\<in>set (styled style (rule_fields r)). w \<noteq> [] \<and> (\<forall>c\<in>set w. \<not> is_space c)"
    using separators(9) by (cases style) (auto simp: is_space_def)
  then have "str_fields (trim_space (rule_text style r)) = styled style (rule_fields r)"
    unfolding rule_text_def by (intro parsed_fields) (cases style; simp_all add: rule_fields_def)
  then show "unix_fields (str_fields (trim_space (rule_text style r))) = Inr (rule_fields r)"
    by (cases style) (simp_all add: unix_fields_def rule_fields_def nth_append)
  show "map (\<lambda>f. if f = ''?'' then ''*'' else f) (rule_fields r) = rule_fields r"
  proof (rule map_idI)
    fix w assume "w \<in> set (rule_fields r)"
    then have "\<forall>c\<in>set w. c \<noteq> CHR ''?''" using f by blast
    then have "w \<noteq> ''?''" by (metis list.set_intros(1))
    then show "(if w = ''?'' then ''*'' else w) = w" by simp
  qed
qed


text \<open>
  A huge step leaves its range. With the largest step the counter of the filling loop wraps around, so the range from \<open>a\<close> to
  \<open>b\<close> also contains \<open>a - 2\<close>.
\<close>

theorem cron_step_wraps:
  assumes "0 \<le> lo" and "lo \<le> a" and "1 \<le> a" and "a \<le> b" and "b \<le> hi" and "hi \<le> 59"
  shows "\<exists>f. parseField (part_text (Span a b, Some int64_max)) lo hi = Some (Inr f) \<and> matchesField f (a - 2)"
proof -
  let ?p = "(Span a b, Some int64_max)"
  have wf: "part_wf lo hi ?p" using assms by (simp add: part_wf_def int64_max_def)
  have "CHR '','' \<notin> set (part_text ?p)" by (rule part_chars [OF wf assms(1)]) (simp_all add: separators)
  then have split: "split_char (CHR '','') (part_text ?p) = [part_text ?p]" by (rule split_char_notin)
  obtain vs where vs: "fill_from [] a b int64_max = Some vs" "mhas vs a" "int64_max < a + int64_max \<longrightarrow> mhas vs (a + 2 * int64_max - 2 ^ 64)"
    using fill_wrapped [of b int64_max a "[]"] assms by (auto simp: int64_max_def)
  have "mhas vs (a - 2)" using vs(3) assms(3) by (simp add: int64_max_def algebra_simps)
  moreover have "addFieldPart [] (part_text ?p) lo hi = Some (Inr vs)"
    using part_step_text [OF wf assms(1,6)] parseRange_text [OF wf assms(1,6)] vs(1) by (simp add: addFieldPart_def)
  moreover have "part_text ?p \<noteq> ''*''" using star_text [OF wf assms(1)] by simp
  moreover have "vs \<noteq> []" using vs(2) by (auto simp: mhas_def)
  ultimately show ?thesis
    using spaceless_trim [OF part_trim [OF wf assms(1)]] by (simp add: parseField_def split matchesField_def)
qed


section \<open>Concrete schedules\<close>

definition ex_rule :: cron_rule where
  "ex_rule = \<lparr>rl_minute = [(Star, Some 15)], rl_hour = [(Span 9 17, None)], rl_day = [(Star, None)], rl_month = [(Star, None)],
     rl_week = [(Span 1 5, None), (Single 0, None)]\<rparr>"

definition ex_clock :: civil_time where
  "ex_clock = \<lparr>ct_Minute = 30, ct_Hour = 9, ct_Day = 7, ct_Month = 4, ct_Weekday = 2\<rparr>"


theorem cron_step_wraps_witness:
  "\<exists>f. parseField ''10-20/9223372036854775807'' 0 59 = Some (Inr f) \<and> matchesField f 8"
proof -
  have "part_text (Span 10 20, Some int64_max) = ''10-20/9223372036854775807''"
    by (simp add: part_text_def itoa_def int64_max_def nat_digits.simps digit_char_def) code_simp
  then show ?thesis using cron_step_wraps [of 0 10 20 59] by simp
qed

end
