(* ===== verification/Domain_Types.thy ===== *)
theory Domain_Types
  imports Prelude
begin

text \<open>
  The normalized tracker records of \<open>internal/domain\<close> and the part of
  \<open>internal/config\<close> the orchestrator's decisions read. Pointers that may be nil are
  options; a \<open>*time.Time\<close> is a \<open>time option\<close>.
\<close>

section \<open>Issues and blockers\<close>

record comment =
  cm_ID :: string
  cm_Body :: string
  cm_CreatedAt :: "time option"
  cm_AuthorID :: string
  cm_AuthorName :: string

record blocker_ref =
  br_ID :: "string option"
  br_Identifier :: "string option"
  br_State :: "string option"
  br_URL :: "string option"
  br_Origin :: string
  br_BranchName :: "string option"

record issue =
  is_ID :: string
  is_Identifier :: string
  is_Title :: string
  is_Description :: "string option"
  is_Priority :: "int option"
  is_State :: string
  is_BranchName :: "string option"
  is_URL :: "string option"
  is_Labels :: "string list"
  is_BlockedBy :: "blocker_ref list"
  is_Comments :: "comment list"
  is_CreatedAt :: "time option"
  is_UpdatedAt :: "time option"

definition BlockerOriginSubIssue :: string where
  "BlockerOriginSubIssue = ''sub_issue''"

section \<open>The terminal-state predicate\<close>

fun terminal_loop :: "string \<Rightarrow> string list \<Rightarrow> bool" where
  "terminal_loop s [] = False"
| "terminal_loop s (t # ts) = (if equal_fold s (trim_space t) then True else terminal_loop s ts)"

definition IsTerminalState :: "string \<Rightarrow> string list \<Rightarrow> bool" where
  "IsTerminalState state terminal =
     (let s = trim_space state in if s = [] then False else terminal_loop s terminal)"

section \<open>Configuration\<close>

record agent_profile =
  pr_Command :: string
  pr_Backend :: string
  pr_Enabled :: "bool option"

definition ProfileEnabled :: "agent_profile \<Rightarrow> bool" where
  "ProfileEnabled p = (pr_Enabled p = None \<or> pr_Enabled p = Some True)"

record backend_fallback_config =
  fb_Enabled :: bool
  fb_Chain :: "string list"
  fb_ProfileMap :: "(string, (string, string) gomap) gomap"
  fb_OnUnmapped :: string
  fb_DefaultCooldownMinutes :: int
  fb_MinDwellMinutes :: int
  fb_SwitchBack :: string

definition BackendFallbackSwitchBackAtReset :: string where
  "BackendFallbackSwitchBackAtReset = ''at_reset''"
definition BackendFallbackSwitchBackOnSuccess :: string where
  "BackendFallbackSwitchBackOnSuccess = ''on_success''"
definition BackendFallbackUnmappedBackendHint :: string where
  "BackendFallbackUnmappedBackendHint = ''backend_hint''"
definition BackendFallbackDefaultProfileKey :: string where
  "BackendFallbackDefaultProfileKey = ''default''"
definition DefaultBackendFallbackCooldownMinutes :: int where
  "DefaultBackendFallbackCooldownMinutes = 15"

definition Lookup :: "backend_fallback_config \<Rightarrow> string \<Rightarrow> string \<Rightarrow> string" where
  "Lookup b profile backend =
     (let profile = (if profile = [] then BackendFallbackDefaultProfileKey else profile)
      in mget_or (mget_or (fb_ProfileMap b) profile []) backend [])"

definition CooldownMinutes :: "backend_fallback_config \<Rightarrow> int" where
  "CooldownMinutes b = (if 0 < fb_DefaultCooldownMinutes b then fb_DefaultCooldownMinutes b
     else DefaultBackendFallbackCooldownMinutes)"

record agent_config =
  ag_Command :: string
  ag_Backend :: string
  ag_MaxConcurrentAgents :: int
  ag_MaxConcurrentAgentsByState :: "(string, int) gomap"
  ag_MaxRetryBackoffMs :: int
  ag_StallTimeoutMs :: int
  ag_Profiles :: "(string, agent_profile) gomap"
  ag_SSHHosts :: "string list"
  ag_PauseDispatchWhenAnyInState :: "string list"
  ag_MaxAutomationQueueLength :: int
  ag_ReviewerProfile :: string
  ag_ReviewerProfiles :: "string list"
  ag_ReviewQuorum :: string
  ag_BackendFallback :: backend_fallback_config
  ag_MaxSwitchesPerIssuePerWindow :: int
  ag_SwitchWindowHours :: int
  ag_SwitchRevertHours :: int
  ag_DispatchStrategy :: string
  ag_MaxRetries :: int
  ag_AutoReview :: bool

record tracker_config =
  tk_ActiveStates :: "string list"
  tk_TerminalStates :: "string list"
  tk_CompletionState :: string
  tk_WorkingState :: string
  tk_FailedState :: string
  tk_BacklogStates :: "string list"

text \<open>
  A confidence is a \<open>float64\<close> read from JSON, so it is finite; it is only ever compared, and
  finite binary64 values are rationals ordered as \<open>rat\<close> orders them.
\<close>

record dependencies_config =
  dp_InferredGating :: bool
  dp_ConfidenceThreshold :: rat
  dp_StalenessHours :: int
  dp_EscalateBlockedAfterHours :: int
  dp_StackedPRs :: bool
  dp_Ordering :: string

record workspace_config =
  wc_BaseBranch :: string
  wc_AutoClearWorkspace :: bool

record config =
  cf_PollIntervalMs :: int
  cf_Agent :: agent_config
  cf_Tracker :: tracker_config
  cf_Dependencies :: dependencies_config
  cf_Workspace :: workspace_config

section \<open>Facts\<close>

lemma terminal_loop_iff: "terminal_loop s ts \<longleftrightarrow> (\<exists>t \<in> set ts. equal_fold s (trim_space t))"
  by (induction ts) auto

lemma IsTerminalState_iff:
  "IsTerminalState state terminal \<longleftrightarrow>
    trim_space state \<noteq> [] \<and> (\<exists>t \<in> set terminal. equal_fold (trim_space state) (trim_space t))"
  by (simp add: IsTerminalState_def Let_def terminal_loop_iff)

lemma IsTerminalState_blank [simp]: "trim_space state = [] \<Longrightarrow> \<not> IsTerminalState state ts"
  by (simp add: IsTerminalState_iff)

lemma IsTerminalState_mono: "set ts \<subseteq> set us \<Longrightarrow> IsTerminalState s ts \<Longrightarrow> IsTerminalState s us"
  by (auto simp: IsTerminalState_iff)

lemma CooldownMinutes_pos: "0 < CooldownMinutes b"
  by (simp add: CooldownMinutes_def DefaultBackendFallbackCooldownMinutes_def)

end
