(* ===== verification/Orch_State.thy ===== *)
theory Orch_State
  imports Domain_Types
begin

text \<open>
  The in-memory state of the orchestrator (\<open>internal/orchestrator/state.go\<close>) and the
  records it holds. \<open>State\<close> is owned by the single event-loop goroutine, so every
  operation of the component theories is a function from a state to a state. The fields keep
  the source's names behind a prefix per struct (\<open>s_\<close> for \<open>State\<close>). A map whose values are
  pointers that the loop never shares outside the map holds the values themselves.
\<close>

section \<open>Runs, retries and waiting issues\<close>

datatype terminal_reason =
    TerminalNone
  | TerminalSucceeded
  | TerminalFailed
  | TerminalCanceledByReconciliation
  | TerminalStalled
  | TerminalInputRequired
  | TerminalRateLimited
  | TerminalStackUnavailable

record run_entry =
  ru_Issue :: issue
  ru_SessionID :: string
  ru_AgentSessionID :: string
  ru_WorkerHost :: string
  ru_Backend :: string
  ru_ProfileName :: string
  ru_Kind :: string
  ru_AutomationID :: string
  ru_TriggerType :: string
  ru_CommentCount :: int
  ru_PendingInputResume :: bool
  ru_BranchName :: string
  ru_PRURL :: string
  ru_TerminalReason :: terminal_reason
  ru_LastEventAt :: "time option"
  ru_LastMessage :: string
  ru_InputTokens :: int
  ru_OutputTokens :: int
  ru_TotalTokens :: int
  ru_TurnCount :: int
  ru_RetryAttempt :: "int option"
  ru_StartedAt :: time
  ru_WorkerCancel :: bool

record retry_entry =
  rt_IssueID :: string
  rt_Identifier :: string
  rt_Attempt :: int
  rt_DueAt :: time
  rt_Error :: "string option"

record paused_session_info =
  ps_IssueID :: string
  ps_SessionID :: string
  ps_WorkerHost :: string
  ps_Backend :: string
  ps_Command :: string
  ps_ProfileName :: string

record input_required_entry =
  ir_IssueID :: string
  ir_Identifier :: string
  ir_SessionID :: string
  ir_Context :: string
  ir_BranchName :: string
  ir_Backend :: string
  ir_Command :: string
  ir_WorkerHost :: string
  ir_ProfileName :: string
  ir_QuestionCommentKey :: string
  ir_QuestionCommentID :: string
  ir_QuestionAuthorID :: string
  ir_QuestionAuthorName :: string
  ir_QueuedAt :: time
  ir_LastReplyCheckAt :: time
  ir_QuestionStuckWarned :: bool

record pending_input_resume_entry =
  pi_IssueID :: string
  pi_Identifier :: string
  pi_SessionID :: string
  pi_Context :: string
  pi_UserMessage :: string
  pi_BranchName :: string
  pi_Backend :: string
  pi_Command :: string
  pi_WorkerHost :: string
  pi_ProfileName :: string
  pi_QuestionCommentKey :: string
  pi_QuestionCommentID :: string
  pi_QuestionAuthorID :: string
  pi_QuestionAuthorName :: string
  pi_QueuedAt :: time
  pi_LastResumeAttemptAt :: time

record discard_marker =
  dm_Gen :: nat
  dm_At :: time

section \<open>Backend breakers and automatic switches\<close>

datatype backend_status = BackendStatusHealthy | BackendStatusWarning
  | BackendStatusLimited | BackendStatusProbing

record backend_health_entry =
  bh_Backend :: string
  bh_Host :: string
  bh_Status :: backend_status
  bh_Kind :: string
  bh_LimitType :: string
  bh_Source :: string
  bh_LimitedUntil :: time
  bh_ResetKnown :: bool
  bh_Since :: time
  bh_Hits :: int
  bh_LastIssue :: string
  bh_ProbeIssue :: string
  bh_ThrottleCount :: int
  bh_ThrottleWindowStart :: time

record backend_hold =
  hd_Key :: string
  hd_Until :: time

record auto_switch_record =
  aw_Source :: string
  aw_FromBackend :: string
  aw_FromProfile :: string
  aw_ToBackend :: string
  aw_ToProfile :: string
  aw_Reason :: string
  aw_FromKey :: string
  aw_SwitchedAt :: time

section \<open>Automations\<close>

record automation_trigger_context =
  tr_Type :: string
  tr_FiredAt :: time
  tr_AutomationID :: string
  tr_CurrentState :: string
  tr_Cron :: string
  tr_Timezone :: string
  tr_TriggerState :: string
  tr_PreviousState :: string
  tr_InputContext :: string
  tr_BlockedProfile :: string
  tr_BlockedBackend :: string
  tr_CommentID :: string
  tr_CommentBody :: string
  tr_CommentAuthorID :: string
  tr_CommentAuthorName :: string
  tr_CommentCreatedAt :: string
  tr_ErrorMessage :: string
  tr_WillRetry :: bool
  tr_RetryAttempt :: int
  tr_RetryBackoffMs :: int
  tr_PRURL :: string
  tr_PRBranch :: string
  tr_PRBaseBranch :: string
  tr_PRNumber :: int
  tr_MergedSHA :: string
  tr_MergedAt :: time
  tr_FailedProfile :: string
  tr_FailedBackend :: string
  tr_PromptTokensTotal :: int
  tr_CompletionTokensTotal :: int
  tr_SwitchedToProfile :: string
  tr_SwitchedToBackend :: string
  tr_ResolvedBlockers :: "blocker_ref list"
  tr_PreviouslyBlockedBy :: "blocker_ref list"
  tr_DependencyAuditVersion :: int
  tr_DependencyUnblockedAt :: time
  tr_MoveToState :: string

record automation_dispatch =
  ad_AutomationID :: string
  ad_ProfileName :: string
  ad_Instructions :: string
  ad_Trigger :: automation_trigger_context
  ad_AutoResume :: bool
  ad_MoveToState :: string
  ad_UseIssueLifecycle :: bool

datatype automation_queue_status = AutomationQueueQueued | AutomationQueueBlocked
  | AutomationQueueDispatching

record automation_queue_entry =
  aq_ID :: string
  aq_AutomationID :: string
  aq_TriggerType :: string
  aq_Issue :: issue
  aq_ProfileName :: string
  aq_Instructions :: string
  aq_Trigger :: automation_trigger_context
  aq_AutoResume :: bool
  aq_MoveToState :: string
  aq_UseIssueLifecycle :: bool
  aq_Status :: automation_queue_status
  aq_Reason :: string
  aq_ReasonDetail :: string
  aq_QueuedAt :: time
  aq_FiredAt :: time
  aq_LastFiredAt :: time
  aq_LastAttemptAt :: time
  aq_AttemptCount :: int
  aq_LastError :: string

record automation_queue_backpressure =
  bp_Length :: int
  bp_MaxLength :: int
  bp_Saturated :: bool
  bp_PausedProducers :: bool
  bp_RejectedSinceBoot :: int
  bp_LastRejectedAt :: time
  bp_LastRejectedReason :: string
  bp_LastRejectedAutomationID :: string
  bp_LastRejectedTrigger :: string
  bp_LastRejectedIdentifier :: string

section \<open>Dependencies, reviews and history\<close>

datatype dependency_audit_status = DependencyAuditUnknown | DependencyAuditBlocked
  | DependencyAuditUnblocked

datatype dependency_audit_source = DependencySourceTrackerRelation | DependencySourceIssueText
  | DependencySourceIssueComment | DependencySourceSubIssue

record dependency_audit_entry =
  da_IssueID :: string
  da_Identifier :: string
  da_IssueState :: string
  da_Status :: dependency_audit_status
  da_Sources :: "dependency_audit_source list"
  da_BlockedBy :: "blocker_ref list"
  da_UnresolvedBlockers :: "blocker_ref list"
  da_ResolvedBlockers :: "blocker_ref list"
  da_WasBlocked :: bool
  da_FirstBlockedAt :: time
  da_UnblockedAt :: time
  da_LastAuditedAt :: time
  da_LastTransitionVersion :: int
  da_LastTransitionReason :: string
  da_InFlight :: bool
  da_ConsecutiveFailures :: int
  da_LastRefreshAttemptAt :: time

record inferred_dep_entry =
  id_Source :: string
  id_Evidence :: string
  id_Confidence :: rat
  id_InferredAt :: time
  id_Stale :: bool
  id_BelowThreshold :: bool
  id_SourceKnown :: bool
  id_SourceTerminal :: bool
  id_Overridden :: bool
  id_Gating :: bool

record dependency_cycle =
  dc_Members :: "string list"
  dc_Kind :: string
  dc_DetectedAt :: time

record dependency_attention_entry =
  at_Identifier :: string
  at_Blockers :: "string list"
  at_BlockedSince :: time
  at_Kind :: string

record dispatch_pressure =
  dq_TicksObserved :: int
  dq_TicksSlotBound :: int
  dq_TicksDependencyBound :: int
  dq_SlotsOccupiedTotal :: int
  dq_SlotsCapacityTotal :: int
  dq_BlockedByDependency :: int
  dq_EligibleWaiting :: int

datatype issue_status_source = StatusSourceUnset | StatusSourceTrackerObserved
  | StatusSourceDashboard | StatusSourceWorkerLifecycle | StatusSourceAutomation
  | StatusSourceSystem | StatusSourceJanitor

record issue_status_change =
  sc_Identifier :: string
  sc_FromState :: string
  sc_ToState :: string
  sc_Source :: issue_status_source
  sc_AutomationID :: string
  sc_TriggerType :: string
  sc_ProfileName :: string
  sc_Backend :: string
  sc_WorkerHost :: string
  sc_Reason :: string
  sc_At :: time

record review_comment =
  rc_Path :: string
  rc_Line :: int
  rc_Body :: string

record review_verdict =
  rv_Profile :: string
  rv_Verdict :: string
  rv_Reasons :: "string list"
  rv_Comments :: "review_comment list"
  rv_RecordedAt :: time

record review_outcome =
  ro_Blocked :: bool
  ro_Approvals :: int
  ro_Blocks :: int
  ro_Quorum :: string

record failure_record =
  fr_Kind :: string
  fr_Identifier :: string
  fr_Source :: string
  fr_Message :: string
  fr_OccurredAt :: time
  fr_RecordedAt :: time
  fr_Count :: int

record tracker_error_info =
  te_At :: time
  te_Op :: string
  te_Kind :: string
  te_Message :: string
  te_ResetAt :: time

record pending_review =
  pv_IssueID :: string
  pv_Identifier :: string
  pv_Profile :: string
  pv_QueuedAt :: time
  pv_IssueState :: string

record candidate_seen_row =
  cr_Identifier :: string
  cr_UpdatedAt :: time

section \<open>The state\<close>

record state =
  s_Draining :: bool
  s_PollIntervalMs :: int
  s_MaxConcurrentAgents :: int
  s_ActiveStates :: "string list"
  s_TerminalStates :: "string list"
  s_PauseDispatchWhenAnyInState :: "string list"
  s_Running :: "(string, run_entry) gomap"
  s_ExitPending :: "string goset"
  s_Claimed :: "string goset"
  s_RetryAttempts :: "(string, retry_entry) gomap"
  s_PausedIdentifiers :: "(string, string) gomap"
  s_PauseReasons :: "(string, string) gomap"
  s_PausedSessions :: "(string, paused_session_info) gomap"
  s_IssueProfiles :: "(string, string) gomap"
  s_IssueBackends :: "(string, string) gomap"
  s_AutoSwitchedIdentifiers :: "string goset"
  s_AutoSwitchedAt :: "(string, time) gomap"
  s_SwitchHistory :: "(string, time list) gomap"
  s_RateLimitCooldowns :: "(string, time) gomap"
  s_RateLimitCapCommentUntil :: "(string, time) gomap"
  s_AutoSwitchInfo :: "(string, auto_switch_record) gomap"
  s_BackendHealth :: "(string, backend_health_entry) gomap"
  s_BackendLimitedHolds :: "(string, backend_hold) gomap"
  s_PrevIssueStates :: "(string, string) gomap"
  s_IssueStatusHistory :: "(string, issue_status_change list) gomap"
  s_DiscardingIdentifiers :: "(string, discard_marker) gomap"
  s_DiscardGeneration :: nat
  s_InputRequiredIssues :: "(string, input_required_entry) gomap"
  s_PendingInputResumes :: "(string, pending_input_resume_entry) gomap"
  s_AutomationQueue :: "(string, automation_queue_entry) gomap"
  s_AutomationQueueOrder :: "string list"
  s_AutomationQueueBackpressure :: automation_queue_backpressure
  s_ReviewVerdicts :: "(string, review_verdict list) gomap"
  s_ReviewChainIndex :: "(string, int) gomap"
  s_ReviewOutcomes :: "(string, review_outcome) gomap"
  s_DispatchPressure :: dispatch_pressure
  s_DependencyAudit :: "(string, dependency_audit_entry) gomap"
  s_DependencyTransitionSeq :: int
  s_PROpenedDispatched :: "string goset"
  s_AutomationDispatchesPROpenedTotal :: nat
  s_AutomationDroppedPROpenedDedupTotal :: nat
  s_InferredDeps :: "(string, inferred_dep_entry list) gomap"
  s_DepsOverrides :: "(string, time) gomap"
  s_StackOnReviewState :: string
  s_CompletionState :: string
  s_StackUnavailable :: "(string, string) gomap"
  s_DependencyCycles :: "dependency_cycle list"
  s_DependencyAttention :: "dependency_attention_entry list"
  s_OutboxSyncing :: "string goset"
  s_ForceReanalyze :: "string goset"
  s_PendingRestacks :: "string goset"
  s_PrevActiveIdentifiers :: "string goset"
  s_FailureAcks :: "(string, time) gomap"
  s_PersistWriteErrors :: int
  s_LastTrackerError :: tracker_error_info
  s_ConsecutivePollFailures :: int
  s_RecentFailures :: "failure_record list"
  s_LastBlockersResolvedAuditSeq :: int
  s_DepsRefreshInFlight :: bool
  s_DepsRefreshStartedAt :: time
  s_DepsRefreshBatchSize :: int
  s_DepsRefreshLastDurationMs :: int
  s_DepsRefreshGeneration :: int
  s_PRMergedDispatched :: "string goset"
  s_AutomationDropsSelfReentryTotal :: nat
  s_AutomationDispatchesPRMergedTotal :: nat
  s_AutomationDroppedPRMergedDedupTotal :: nat
  s_TransportFailureCount :: nat
  s_PendingReviews :: "(string, pending_review) gomap"
  s_CandidateSeen :: "candidate_seen_row list"

section \<open>The initial state\<close>

text \<open>The pause states of the configuration, lower-cased, trimmed and without repeats.\<close>

fun normalize_loop :: "string list \<Rightarrow> string list \<Rightarrow> string list" where
  "normalize_loop seen [] = []"
| "normalize_loop seen (s # ss) =
     (let normalized = to_lower (trim_space s)
      in if normalized = [] then normalize_loop seen ss
         else if normalized \<in> set seen then normalize_loop seen ss
         else normalized # normalize_loop (normalized # seen) ss)"

definition normalizePauseStates :: "string list \<Rightarrow> string list" where
  "normalizePauseStates states = normalize_loop [] states"

definition stackOnReviewState :: "config \<Rightarrow> string" where
  "stackOnReviewState cfg =
     (if \<not> dp_StackedPRs (cf_Dependencies cfg) then []
      else to_lower (trim_space (tk_CompletionState (cf_Tracker cfg))))"

definition zero_pressure :: dispatch_pressure where
  "zero_pressure = \<lparr>dq_TicksObserved = 0, dq_TicksSlotBound = 0, dq_TicksDependencyBound = 0,
     dq_SlotsOccupiedTotal = 0, dq_SlotsCapacityTotal = 0, dq_BlockedByDependency = 0,
     dq_EligibleWaiting = 0\<rparr>"

definition zero_backpressure :: automation_queue_backpressure where
  "zero_backpressure = \<lparr>bp_Length = 0, bp_MaxLength = 0, bp_Saturated = False,
     bp_PausedProducers = False, bp_RejectedSinceBoot = 0, bp_LastRejectedAt = 0,
     bp_LastRejectedReason = [], bp_LastRejectedAutomationID = [], bp_LastRejectedTrigger = [],
     bp_LastRejectedIdentifier = []\<rparr>"

definition zero_tracker_error :: tracker_error_info where
  "zero_tracker_error = \<lparr>te_At = 0, te_Op = [], te_Kind = [], te_Message = [], te_ResetAt = 0\<rparr>"

definition NewState :: "config \<Rightarrow> state" where
  "NewState cfg = \<lparr>
     s_Draining = False,
     s_PollIntervalMs = cf_PollIntervalMs cfg,
     s_MaxConcurrentAgents = ag_MaxConcurrentAgents (cf_Agent cfg),
     s_ActiveStates = tk_ActiveStates (cf_Tracker cfg),
     s_TerminalStates = tk_TerminalStates (cf_Tracker cfg),
     s_PauseDispatchWhenAnyInState =
       normalizePauseStates (ag_PauseDispatchWhenAnyInState (cf_Agent cfg)),
     s_Running = [],
     s_ExitPending = [],
     s_Claimed = [],
     s_RetryAttempts = [],
     s_PausedIdentifiers = [],
     s_PauseReasons = [],
     s_PausedSessions = [],
     s_IssueProfiles = [],
     s_IssueBackends = [],
     s_AutoSwitchedIdentifiers = [],
     s_AutoSwitchedAt = [],
     s_SwitchHistory = [],
     s_RateLimitCooldowns = [],
     s_RateLimitCapCommentUntil = [],
     s_AutoSwitchInfo = [],
     s_BackendHealth = [],
     s_BackendLimitedHolds = [],
     s_PrevIssueStates = [],
     s_IssueStatusHistory = [],
     s_DiscardingIdentifiers = [],
     s_DiscardGeneration = 0,
     s_InputRequiredIssues = [],
     s_PendingInputResumes = [],
     s_AutomationQueue = [],
     s_AutomationQueueOrder = [],
     s_AutomationQueueBackpressure =
       zero_backpressure\<lparr>bp_MaxLength := ag_MaxAutomationQueueLength (cf_Agent cfg)\<rparr>,
     s_ReviewVerdicts = [],
     s_ReviewChainIndex = [],
     s_ReviewOutcomes = [],
     s_DispatchPressure = zero_pressure,
     s_DependencyAudit = [],
     s_DependencyTransitionSeq = 0,
     s_PROpenedDispatched = [],
     s_AutomationDispatchesPROpenedTotal = 0,
     s_AutomationDroppedPROpenedDedupTotal = 0,
     s_InferredDeps = [],
     s_DepsOverrides = [],
     s_StackOnReviewState = stackOnReviewState cfg,
     s_CompletionState = tk_CompletionState (cf_Tracker cfg),
     s_StackUnavailable = [],
     s_DependencyCycles = [],
     s_DependencyAttention = [],
     s_OutboxSyncing = [],
     s_ForceReanalyze = [],
     s_PendingRestacks = [],
     s_PrevActiveIdentifiers = [],
     s_FailureAcks = [],
     s_PersistWriteErrors = 0,
     s_LastTrackerError = zero_tracker_error,
     s_ConsecutivePollFailures = 0,
     s_RecentFailures = [],
     s_LastBlockersResolvedAuditSeq = 0,
     s_DepsRefreshInFlight = False,
     s_DepsRefreshStartedAt = 0,
     s_DepsRefreshBatchSize = 0,
     s_DepsRefreshLastDurationMs = 0,
     s_DepsRefreshGeneration = 0,
     s_PRMergedDispatched = [],
     s_AutomationDropsSelfReentryTotal = 0,
     s_AutomationDispatchesPRMergedTotal = 0,
     s_AutomationDroppedPRMergedDedupTotal = 0,
     s_TransportFailureCount = 0,
     s_PendingReviews = [],
     s_CandidateSeen = []\<rparr>"

section \<open>Concrete values\<close>

text \<open>A small configuration, issue and state on which the component theories are run.\<close>

definition ex_config :: config where
  "ex_config = \<lparr>cf_PollIntervalMs = 30000,
     cf_Agent = \<lparr>ag_Command = ''claude'', ag_Backend = [], ag_MaxConcurrentAgents = 2,
       ag_MaxConcurrentAgentsByState = [(''todo'', 1)], ag_MaxRetryBackoffMs = 300000,
       ag_StallTimeoutMs = 60000, ag_Profiles = [], ag_SSHHosts = [],
       ag_PauseDispatchWhenAnyInState = [], ag_MaxAutomationQueueLength = 2,
       ag_ReviewerProfile = [], ag_ReviewerProfiles = [], ag_ReviewQuorum = ''any_block'',
       ag_BackendFallback = \<lparr>fb_Enabled = True, fb_Chain = [''claude'', ''codex''],
         fb_ProfileMap = [], fb_OnUnmapped = ''hold'', fb_DefaultCooldownMinutes = 15,
         fb_MinDwellMinutes = 30, fb_SwitchBack = ''at_reset''\<rparr>,
       ag_MaxSwitchesPerIssuePerWindow = 3, ag_SwitchWindowHours = 6, ag_SwitchRevertHours = 0,
       ag_DispatchStrategy = [], ag_MaxRetries = 3, ag_AutoReview = False\<rparr>,
     cf_Tracker = \<lparr>tk_ActiveStates = [''Todo'', ''In Progress''], tk_TerminalStates = [''Done''],
       tk_CompletionState = ''In Review'', tk_WorkingState = ''In Progress'', tk_FailedState = [],
       tk_BacklogStates = [''Backlog'']\<rparr>,
     cf_Dependencies = \<lparr>dp_InferredGating = True, dp_ConfidenceThreshold = 1 / 2,
       dp_StalenessHours = 168, dp_EscalateBlockedAfterHours = 24, dp_StackedPRs = True,
       dp_Ordering = ''critical_path''\<rparr>,
     cf_Workspace = \<lparr>wc_BaseBranch = ''main'', wc_AutoClearWorkspace = False\<rparr>\<rparr>"

definition ex_issue :: "string \<Rightarrow> issue" where
  "ex_issue ident = \<lparr>is_ID = ''id-'' @ ident, is_Identifier = ident, is_Title = ''title'',
     is_Description = None, is_Priority = None, is_State = ''Todo'', is_BranchName = None,
     is_URL = None, is_Labels = [], is_BlockedBy = [], is_Comments = [], is_CreatedAt = None,
     is_UpdatedAt = None\<rparr>"

definition ex_blocker :: "string \<Rightarrow> blocker_ref" where
  "ex_blocker ident = \<lparr>br_ID = None, br_Identifier = Some ident, br_State = Some ''Todo'',
     br_URL = None, br_Origin = [], br_BranchName = None\<rparr>"

definition ex_run :: "issue \<Rightarrow> run_entry" where
  "ex_run i = \<lparr>ru_Issue = i, ru_SessionID = [], ru_AgentSessionID = [], ru_WorkerHost = [],
     ru_Backend = ''claude'', ru_ProfileName = [], ru_Kind = ''worker'', ru_AutomationID = [],
     ru_TriggerType = [], ru_CommentCount = 0, ru_PendingInputResume = False, ru_BranchName = [],
     ru_PRURL = [], ru_TerminalReason = TerminalNone, ru_LastEventAt = None, ru_LastMessage = [],
     ru_InputTokens = 0, ru_OutputTokens = 0, ru_TotalTokens = 0, ru_TurnCount = 0,
     ru_RetryAttempt = None, ru_StartedAt = 1000, ru_WorkerCancel = True\<rparr>"

definition ex_state :: state where
  "ex_state = NewState ex_config"

lemmas ex_defs = ex_config_def ex_issue_def ex_blocker_def ex_run_def ex_state_def NewState_def
  zero_pressure_def zero_backpressure_def zero_tracker_error_def

section \<open>Facts\<close>

lemma normalize_loop_set:
  "set (normalize_loop seen ss) = (\<lambda>s. to_lower (trim_space s)) ` set ss - {[]} - set seen"
  by (induction seen ss rule: normalize_loop.induct) (auto simp: Let_def)

lemma normalize_loop_distinct: "distinct (normalize_loop seen ss)"
  by (induction seen ss rule: normalize_loop.induct) (auto simp: Let_def normalize_loop_set)

lemma normalizePauseStates_correct:
  "distinct (normalizePauseStates ss) \<and> [] \<notin> set (normalizePauseStates ss) \<and>
    set (normalizePauseStates ss) = (\<lambda>s. to_lower (trim_space s)) ` set ss - {[]}"
  by (auto simp: normalizePauseStates_def normalize_loop_set normalize_loop_distinct)

end
