(* ===== verification/Backend_Health.thy ===== *)
theory Backend_Health
  imports Orch_State
begin

text \<open>
  The backend circuit breaker (\<open>internal/orchestrator/backend_health.go\<close> and
  \<open>backend_health_ops.go\<close>): one breaker per backend and worker host, opened by vendor
  limit signals, half-open after its cooldown, closed by one successful probe. An absent key
  is healthy.
\<close>

section \<open>Limit signals\<close>

datatype limit_kind = LimitKindQuota | LimitKindThrottle

fun limit_kind_string :: "limit_kind \<Rightarrow> string" where
  "limit_kind_string LimitKindQuota = ''quota''"
| "limit_kind_string LimitKindThrottle = ''throttle''"

definition LimitSourceRateLimitEvent :: string where
  "LimitSourceRateLimitEvent = ''rate_limit_event''"
definition LimitSourceAPIRetry :: string where "LimitSourceAPIRetry = ''api_retry''"
definition LimitSourceResult :: string where "LimitSourceResult = ''result''"
definition LimitSourceText :: string where "LimitSourceText = ''text''"

record limit_signal =
  ls_Kind :: limit_kind
  ls_Source :: string
  ls_Status :: string
  ls_LimitType :: string
  ls_ResetsAt :: time
  ls_RetryAfter :: duration
  ls_HTTPStatus :: int
  ls_ErrorCategory :: string
  ls_Message :: string
  ls_ResetZoneAssumed :: bool

definition Terminal :: "limit_signal option \<Rightarrow> bool" where
  "Terminal s = (case s of None \<Rightarrow> False | Some l \<Rightarrow> ls_Kind l = LimitKindQuota)"

definition VendorDelay :: "limit_signal option \<Rightarrow> time \<Rightarrow> duration" where
  "VendorDelay sig now =
     (case sig of
        None \<Rightarrow> 0
      | Some s \<Rightarrow>
          if Terminal sig \<and> \<not> isZero (ls_ResetsAt s)
          then (let d = time_sub (ls_ResetsAt s) now in if 0 < d then d else 0)
          else if 0 < ls_RetryAfter s then ls_RetryAfter s
          else if \<not> isZero (ls_ResetsAt s)
          then (let d = time_sub (ls_ResetsAt s) now in if 0 < d then d else 0)
          else 0)"

definition mergeLimit :: "limit_signal option \<Rightarrow> limit_signal option \<Rightarrow> limit_signal option" where
  "mergeLimit prev next =
     (case next of
        None \<Rightarrow> prev
      | Some n \<Rightarrow>
          if Terminal prev \<and> \<not> Terminal next then prev
          else (case prev of
             None \<Rightarrow> Some n
           | Some p \<Rightarrow>
               let c = (if isZero (ls_ResetsAt n)
                        then n\<lparr>ls_ResetsAt := ls_ResetsAt p, ls_ResetZoneAssumed := ls_ResetZoneAssumed p\<rparr>
                        else n);
                   c = (if ls_LimitType c = [] then c\<lparr>ls_LimitType := ls_LimitType p\<rparr> else c);
                   c = (if ls_Status c = [] then c\<lparr>ls_Status := ls_Status p\<rparr> else c);
                   c = (if ls_RetryAfter c = 0 \<and> (\<not> Terminal (Some c) \<or> Terminal prev)
                        then c\<lparr>ls_RetryAfter := ls_RetryAfter p\<rparr> else c);
                   c = (if ls_HTTPStatus c = 0 then c\<lparr>ls_HTTPStatus := ls_HTTPStatus p\<rparr> else c)
               in Some c))"

section \<open>Bounds on a breaker\<close>

definition backendThrottleWindow :: duration where "backendThrottleWindow = 5 * minute"
definition backendThrottleThreshold :: int where "backendThrottleThreshold = 3"
definition backendThrottleCooldown :: duration where "backendThrottleCooldown = 5 * minute"
definition backendThrottleMaxCooldown :: duration where "backendThrottleMaxCooldown = hour"

definition rateLimitVendorDelayCap :: duration where "rateLimitVendorDelayCap = 6 * hour"

definition backendCapFiveHour :: duration where "backendCapFiveHour = 5 * hour + 15 * minute"
definition backendCapSevenDay :: duration where "backendCapSevenDay = 7 * 24 * hour + hour"
definition backendCapStructure :: duration where "backendCapStructure = 24 * hour"
definition backendCapText :: duration where "backendCapText = rateLimitVendorDelayCap"

lemmas backend_caps [time_simps] =
  backendThrottleWindow_def backendThrottleCooldown_def backendThrottleMaxCooldown_def
  rateLimitVendorDelayCap_def backendCapFiveHour_def backendCapSevenDay_def
  backendCapStructure_def backendCapText_def

definition backendLimitCap :: "string \<Rightarrow> string \<Rightarrow> string \<Rightarrow> duration" where
  "backendLimitCap kind source limitType =
     (if kind = limit_kind_string LimitKindThrottle then backendThrottleMaxCooldown
      else if source = LimitSourceRateLimitEvent then
        (if limitType = ''five_hour'' then backendCapFiveHour
         else if has_prefix limitType ''seven_day'' then backendCapSevenDay
         else backendCapStructure)
      else if source = LimitSourceText \<or> source = LimitSourceResult then backendCapText
      else backendCapStructure)"

definition clampLimitedUntil :: "time \<Rightarrow> time \<Rightarrow> string \<Rightarrow> string \<Rightarrow> string \<Rightarrow> time" where
  "clampLimitedUntil until now kind source limitType =
     (let limit = now + backendLimitCap kind source limitType
      in if limit < until then limit else until)"

definition BackendHealthKey :: "string \<Rightarrow> string \<Rightarrow> string" where
  "BackendHealthKey backend host = (if host = [] then backend else backend @ ''@'' @ host)"

definition backendCooldown :: "config \<Rightarrow> duration" where
  "backendCooldown cfg = wrap64 (CooldownMinutes (ag_BackendFallback (cf_Agent cfg)) * minute)"

text \<open>The zero value a Go map returns for a missing breaker.\<close>

definition zero_health :: backend_health_entry where
  "zero_health = \<lparr>bh_Backend = [], bh_Host = [], bh_Status = BackendStatusHealthy, bh_Kind = [],
     bh_LimitType = [], bh_Source = [], bh_LimitedUntil = 0, bh_ResetKnown = False, bh_Since = 0,
     bh_Hits = 0, bh_LastIssue = [], bh_ProbeIssue = [], bh_ThrottleCount = 0,
     bh_ThrottleWindowStart = 0\<rparr>"

section \<open>Opening a breaker\<close>

text \<open>
  The end of the limit a quota signal announces, before it is merged with a breaker that is
  already open, and whether the vendor published it.
\<close>

definition reset_known :: "limit_signal \<Rightarrow> time \<Rightarrow> bool" where
  "reset_known l now = (\<not> (isZero (ls_ResetsAt l) \<or> \<not> now < ls_ResetsAt l))"

definition limit_until :: "config \<Rightarrow> limit_signal \<Rightarrow> time \<Rightarrow> time" where
  "limit_until cfg l now =
     clampLimitedUntil
       (if reset_known l now then ls_ResetsAt l
        else now + min (backendCooldown cfg) backendCapStructure)
       now (limit_kind_string (ls_Kind l)) (ls_Source l) (ls_LimitType l)"

definition recordBackendLimit ::
  "config \<Rightarrow> state \<Rightarrow> string \<Rightarrow> string \<Rightarrow> string \<Rightarrow> limit_signal option \<Rightarrow> time \<Rightarrow> state \<times> bool" where
  "recordBackendLimit cfg s backend host identifier sig now =
     (case sig of
        None \<Rightarrow> (s, False)
      | Some l \<Rightarrow>
     if backend = [] \<or> \<not> Terminal sig then (s, False)
     else let key = BackendHealthKey backend host;
          e = mget_or (s_BackendHealth s) key zero_health;
          wasOpen = (bh_Status e = BackendStatusLimited \<or> bh_Status e = BackendStatusProbing);
          until = limit_until cfg l now;
          keep = (bh_Status e = BackendStatusLimited \<and> until < bh_LimitedUntil e);
          e' = e\<lparr>bh_Backend := backend, bh_Host := host, bh_Status := BackendStatusLimited,
            bh_Kind := limit_kind_string (ls_Kind l), bh_LimitType := ls_LimitType l,
            bh_Source := ls_Source l,
            bh_LimitedUntil := (if keep then bh_LimitedUntil e else until),
            bh_ResetKnown := (if keep then bh_ResetKnown e else reset_known l now),
            bh_Since := (if \<not> wasOpen \<or> isZero (bh_Since e) then now else bh_Since e),
            bh_Hits := bh_Hits e + 1, bh_LastIssue := identifier, bh_ProbeIssue := []\<rparr>
      in (s\<lparr>s_BackendHealth := mput (s_BackendHealth s) key e'\<rparr>, True))"

definition recordBackendThrottle ::
  "state \<Rightarrow> string \<Rightarrow> string \<Rightarrow> string \<Rightarrow> limit_signal option \<Rightarrow> time \<Rightarrow> state \<times> bool" where
  "recordBackendThrottle s backend host identifier sig now =
     (case sig of
        None \<Rightarrow> (s, False)
      | Some l \<Rightarrow>
     if backend = [] \<or> ls_Kind l \<noteq> LimitKindThrottle \<or> ls_Source l \<noteq> LimitSourceAPIRetry
     then (s, False)
     else let key = BackendHealthKey backend host;
          old = mget_or (s_BackendHealth s) key zero_health;
          e = (if isZero (bh_ThrottleWindowStart old) \<or>
                  backendThrottleWindow < time_sub now (bh_ThrottleWindowStart old)
               then old\<lparr>bh_ThrottleWindowStart := now, bh_ThrottleCount := 0\<rparr> else old);
          e = e\<lparr>bh_ThrottleCount := bh_ThrottleCount e + 1, bh_Backend := backend, bh_Host := host\<rparr>;
          e = (if bh_Status e = BackendStatusLimited \<or> bh_Status e = BackendStatusProbing then e
               else if backendThrottleThreshold \<le> bh_ThrottleCount e
               then e\<lparr>bh_Status := BackendStatusLimited, bh_Kind := limit_kind_string LimitKindThrottle,
                 bh_LimitType := [], bh_Source := ls_Source l,
                 bh_LimitedUntil := now + min (max backendThrottleCooldown (ls_RetryAfter l))
                   backendThrottleMaxCooldown,
                 bh_ResetKnown := False, bh_Since := now, bh_Hits := bh_Hits e + 1,
                 bh_ProbeIssue := []\<rparr>
               else if bh_Status e \<noteq> BackendStatusWarning
               then e\<lparr>bh_Status := BackendStatusWarning, bh_Since := now\<rparr>
               else e);
          changed = (\<not> (bh_Status old = BackendStatusLimited \<or> bh_Status old = BackendStatusProbing) \<and>
            bh_Status e \<noteq> bh_Status old);
          e = e\<lparr>bh_LastIssue := identifier\<rparr>
      in (s\<lparr>s_BackendHealth := mput (s_BackendHealth s) key e\<rparr>, changed))"

section \<open>Time, admission and probes\<close>

definition live_identifiers :: "state \<Rightarrow> string list" where
  "live_identifiers s = map (\<lambda>(k, r). is_Identifier (ru_Issue r)) (s_Running s) @
     map (\<lambda>(k, r). rt_Identifier r) (s_RetryAttempts s) @ mkeys (s_PendingInputResumes s)"

text \<open>One breaker at a tick: \<open>None\<close> when the entry is deleted.\<close>

definition advance_entry ::
  "string list \<Rightarrow> time \<Rightarrow> backend_health_entry \<Rightarrow> backend_health_entry option" where
  "advance_entry live now e =
     (case bh_Status e of
        BackendStatusLimited \<Rightarrow>
          Some (if \<not> now < bh_LimitedUntil e
                then e\<lparr>bh_Status := BackendStatusProbing, bh_ProbeIssue := []\<rparr> else e)
      | BackendStatusProbing \<Rightarrow>
          Some (if bh_ProbeIssue e \<noteq> [] \<and> bh_ProbeIssue e \<notin> set live
                then e\<lparr>bh_ProbeIssue := []\<rparr> else e)
      | BackendStatusWarning \<Rightarrow>
          if backendThrottleWindow < time_sub now (bh_ThrottleWindowStart e) then None else Some e
      | BackendStatusHealthy \<Rightarrow> Some e)"

definition advanceBackendHealth :: "state \<Rightarrow> time \<Rightarrow> state \<times> bool" where
  "advanceBackendHealth s now =
     (if s_BackendHealth s = [] then (s, False)
      else let live = live_identifiers s;
               next = List.map_filter (\<lambda>(k, e). map_option (Pair k) (advance_entry live now e))
                 (s_BackendHealth s)
      in (s\<lparr>s_BackendHealth := next\<rparr>,
          list_ex (\<lambda>(k, e). advance_entry live now e \<noteq> Some e) (s_BackendHealth s)))"

definition backendKeyBlocked :: "state \<Rightarrow> string \<Rightarrow> string \<Rightarrow> time \<Rightarrow> bool \<times> time" where
  "backendKeyBlocked s key identifier now =
     (case mget (s_BackendHealth s) key of
        None \<Rightarrow> (False, 0)
      | Some e \<Rightarrow>
          (case bh_Status e of
             BackendStatusLimited \<Rightarrow>
               if now < bh_LimitedUntil e then (True, bh_LimitedUntil e) else (False, 0)
           | BackendStatusProbing \<Rightarrow>
               if bh_ProbeIssue e \<noteq> [] \<and> bh_ProbeIssue e \<noteq> identifier
               then (True, bh_LimitedUntil e) else (False, 0)
           | _ \<Rightarrow> (False, 0)))"

definition admitBackendKey :: "state \<Rightarrow> string \<Rightarrow> string \<Rightarrow> time \<Rightarrow> state \<times> bool" where
  "admitBackendKey s key identifier now =
     (if fst (backendKeyBlocked s key identifier now) then (s, False)
      else case mget (s_BackendHealth s) key of
        None \<Rightarrow> (s, True)
      | Some e \<Rightarrow>
          (case bh_Status e of
             BackendStatusLimited \<Rightarrow>
               (s\<lparr>s_BackendHealth := mput (s_BackendHealth s) key
                   (e\<lparr>bh_Status := BackendStatusProbing, bh_ProbeIssue := identifier\<rparr>)\<rparr>, True)
           | BackendStatusProbing \<Rightarrow>
               (s\<lparr>s_BackendHealth := mput (s_BackendHealth s) key
                   (if bh_ProbeIssue e = [] then e\<lparr>bh_ProbeIssue := identifier\<rparr> else e)\<rparr>, True)
           | _ \<Rightarrow> (s, True)))"

definition settleBackendProbe ::
  "state \<Rightarrow> run_entry option \<Rightarrow> string \<Rightarrow> terminal_reason \<Rightarrow> state \<times> bool" where
  "settleBackendProbe s liveEntry identifier reason =
     (case liveEntry of
        None \<Rightarrow> (s, False)
      | Some r \<Rightarrow>
          if reason \<noteq> TerminalSucceeded \<and> reason \<noteq> TerminalInputRequired then (s, False)
          else let key = BackendHealthKey (ru_Backend r) (ru_WorkerHost r)
          in (case mget (s_BackendHealth s) key of
                None \<Rightarrow> (s, False)
              | Some e \<Rightarrow>
                  if bh_Status e \<noteq> BackendStatusProbing \<or> bh_ProbeIssue e \<noteq> identifier
                  then (s, False)
                  else (s\<lparr>s_BackendHealth := mdel (s_BackendHealth s) key\<rparr>, True)))"

section \<open>Holds\<close>

definition setBackendHold :: "state \<Rightarrow> string \<Rightarrow> backend_hold \<Rightarrow> state" where
  "setBackendHold s identifier hold =
     s\<lparr>s_BackendLimitedHolds := mput (s_BackendLimitedHolds s) identifier hold\<rparr>"

definition clearBackendHold :: "state \<Rightarrow> string \<Rightarrow> state" where
  "clearBackendHold s identifier =
     s\<lparr>s_BackendLimitedHolds := mdel (s_BackendLimitedHolds s) identifier\<rparr>"

definition backendHoldActive :: "state \<Rightarrow> string \<Rightarrow> bool" where
  "backendHoldActive s identifier =
     (case mget (s_BackendLimitedHolds s) identifier of
        None \<Rightarrow> False
      | Some h \<Rightarrow>
          (case mget (s_BackendHealth s) (hd_Key h) of
             None \<Rightarrow> False
           | Some e \<Rightarrow>
               (case bh_Status e of
                  BackendStatusLimited \<Rightarrow> True
                | BackendStatusProbing \<Rightarrow> bh_ProbeIssue e \<noteq> [] \<and> bh_ProbeIssue e \<noteq> identifier
                | _ \<Rightarrow> False)))"

definition holdRetryDelay :: "state \<Rightarrow> backend_hold \<Rightarrow> time \<Rightarrow> int" where
  "holdRetryDelay s hold now =
     (let floor = wrap64 (max (s_PollIntervalMs s) 1000 * millisecond);
          d = min (max (time_sub (hd_Until hold) now) floor) rateLimitVendorDelayCap
      in go_div d millisecond)"

text \<open>The operator's override: close the breaker and drop the holds recorded against it.\<close>

definition applyClearBackendBreaker :: "state \<Rightarrow> string \<Rightarrow> state" where
  "applyClearBackendBreaker s key =
     s\<lparr>s_BackendHealth := mdel (s_BackendHealth s) key,
       s_BackendLimitedHolds := mkeep (\<lambda>ident h. hd_Key h \<noteq> key) (s_BackendLimitedHolds s)\<rparr>"

definition limitForHost :: "limit_signal option \<Rightarrow> string \<Rightarrow> limit_signal option" where
  "limitForHost sig host =
     (case sig of
        None \<Rightarrow> None
      | Some l \<Rightarrow>
          if host = [] \<or> \<not> ls_ResetZoneAssumed l \<or> isZero (ls_ResetsAt l) then sig
          else Some (l\<lparr>ls_ResetsAt := 0, ls_ResetZoneAssumed := False\<rparr>))"

definition vendorRetryDelayMs :: "limit_signal option \<Rightarrow> time \<Rightarrow> int" where
  "vendorRetryDelayMs limit now =
     go_div (min (VendorDelay limit now) rateLimitVendorDelayCap) millisecond"

text \<open>
  \<open>pruneOrphanBreakers\<close>: \<open>used\<close> and \<open>anyBackend\<close> are what the configuration walk collects.
\<close>

definition prune_breakers ::
  "string list \<Rightarrow> string list \<Rightarrow> bool \<Rightarrow> (string, backend_health_entry) gomap \<Rightarrow>
    (string, backend_health_entry) gomap" where
  "prune_breakers hosts used anyBackend m =
     mkeep (\<lambda>key e.
       \<not> ((bh_Host e \<noteq> [] \<and> bh_Host e \<notin> set hosts) \<or>
          (\<not> anyBackend \<and> bh_Backend e \<notin> set used \<and> bh_Status e \<noteq> BackendStatusLimited))) m"

section \<open>The specification of a breaker\<close>

text \<open>
  What the dispatch gate may rely on: a breaker is closed, open until a time, half-open, or
  half-open with its single probe reserved. A move is what an operation means for one breaker.
\<close>

datatype breaker = Closed | Open time | HalfOpen | Reserved string

datatype breaker_move =
    MAdmit string time
  | MAdvance time "string list"
  | MLimit time
  | MTrip time
  | MSettle string
  | MClear
  | MNone

definition reserve :: "string \<Rightarrow> breaker" where
  "reserve q = (if q = [] then HalfOpen else Reserved q)"

fun spec_move :: "breaker \<Rightarrow> breaker_move \<Rightarrow> breaker" where
  "spec_move (Open u) (MAdmit q now) = (if now < u then Open u else reserve q)"
| "spec_move HalfOpen (MAdmit q now) = reserve q"
| "spec_move b (MAdmit q now) = b"
| "spec_move (Open u) (MAdvance now live) = (if now < u then Open u else HalfOpen)"
| "spec_move (Reserved p) (MAdvance now live) = (if p \<in> set live then Reserved p else HalfOpen)"
| "spec_move b (MAdvance now live) = b"
| "spec_move (Open u') (MLimit u) = Open (max u' u)"
| "spec_move b (MLimit u) = Open u"
| "spec_move Closed (MTrip u) = Open u"
| "spec_move b (MTrip u) = b"
| "spec_move b (MSettle q) = (if b = reserve q then Closed else b)"
| "spec_move b MClear = Closed"
| "spec_move b MNone = b"

fun spec_admits :: "breaker \<Rightarrow> string \<Rightarrow> time \<Rightarrow> bool" where
  "spec_admits Closed q now = True"
| "spec_admits (Open u) q now = (\<not> now < u)"
| "spec_admits HalfOpen q now = True"
| "spec_admits (Reserved p) q now = (p = q)"

definition breaker_of :: "state \<Rightarrow> string \<Rightarrow> breaker" where
  "breaker_of s key =
     (case mget (s_BackendHealth s) key of
        None \<Rightarrow> Closed
      | Some e \<Rightarrow>
          (case bh_Status e of
             BackendStatusLimited \<Rightarrow> Open (bh_LimitedUntil e)
           | BackendStatusProbing \<Rightarrow> reserve (bh_ProbeIssue e)
           | _ \<Rightarrow> Closed))"

text \<open>
  The operations of this theory as events of the loop; \<open>EvElse\<close> is anything else the loop does,
  which may change every other field of the state.
\<close>

datatype breaker_event =
    EvLimit string string string "limit_signal option" time
  | EvThrottle string string string "limit_signal option" time
  | EvTick time
  | EvAdmit string string time
  | EvSettle "run_entry option" string terminal_reason
  | EvClear string
  | EvElse state

fun breaker_apply :: "config \<Rightarrow> state \<Rightarrow> breaker_event \<Rightarrow> state" where
  "breaker_apply cfg s (EvLimit backend host ident sig now) =
     fst (recordBackendLimit cfg s backend host ident sig now)"
| "breaker_apply cfg s (EvThrottle backend host ident sig now) =
     fst (recordBackendThrottle s backend host ident sig now)"
| "breaker_apply cfg s (EvTick now) = fst (advanceBackendHealth s now)"
| "breaker_apply cfg s (EvAdmit key ident now) = fst (admitBackendKey s key ident now)"
| "breaker_apply cfg s (EvSettle run ident reason) = fst (settleBackendProbe s run ident reason)"
| "breaker_apply cfg s (EvClear key) = applyClearBackendBreaker s key"
| "breaker_apply cfg s (EvElse t) = t\<lparr>s_BackendHealth := s_BackendHealth s\<rparr>"

definition throttle_count :: "state \<Rightarrow> string \<Rightarrow> time \<Rightarrow> int" where
  "throttle_count s key now =
     (let e = mget_or (s_BackendHealth s) key zero_health
      in 1 + (if isZero (bh_ThrottleWindowStart e) \<or>
                 backendThrottleWindow < time_sub now (bh_ThrottleWindowStart e)
              then 0 else bh_ThrottleCount e))"

definition throttle_until :: "limit_signal \<Rightarrow> time \<Rightarrow> time" where
  "throttle_until l now =
     now + min (max backendThrottleCooldown (ls_RetryAfter l)) backendThrottleMaxCooldown"

fun move_of :: "config \<Rightarrow> string \<Rightarrow> state \<Rightarrow> breaker_event \<Rightarrow> breaker_move" where
  "move_of cfg key s (EvLimit backend host ident sig now) =
     (case sig of None \<Rightarrow> MNone
      | Some l \<Rightarrow> if backend \<noteq> [] \<and> Terminal sig \<and> BackendHealthKey backend host = key
                  then MLimit (limit_until cfg l now) else MNone)"
| "move_of cfg key s (EvThrottle backend host ident sig now) =
     (case sig of None \<Rightarrow> MNone
      | Some l \<Rightarrow> if backend \<noteq> [] \<and> ls_Kind l = LimitKindThrottle \<and> ls_Source l = LimitSourceAPIRetry \<and>
                     BackendHealthKey backend host = key \<and>
                     backendThrottleThreshold \<le> throttle_count s key now
                  then MTrip (throttle_until l now) else MNone)"
| "move_of cfg key s (EvTick now) = MAdvance now (live_identifiers s)"
| "move_of cfg key s (EvAdmit k ident now) = (if k = key then MAdmit ident now else MNone)"
| "move_of cfg key s (EvSettle run ident reason) =
     (case run of None \<Rightarrow> MNone
      | Some r \<Rightarrow> if (reason = TerminalSucceeded \<or> reason = TerminalInputRequired) \<and>
                     BackendHealthKey (ru_Backend r) (ru_WorkerHost r) = key
                  then MSettle ident else MNone)"
| "move_of cfg key s (EvClear k) = (if k = key then MClear else MNone)"
| "move_of cfg key s (EvElse t) = MNone"

section \<open>Concrete values\<close>

definition ex_signal :: limit_signal where
  "ex_signal = \<lparr>ls_Kind = LimitKindQuota, ls_Source = LimitSourceRateLimitEvent, ls_Status = ''rejected'',
     ls_LimitType = ''five_hour'', ls_ResetsAt = 200, ls_RetryAfter = 0, ls_HTTPStatus = 429,
     ls_ErrorCategory = [], ls_Message = [], ls_ResetZoneAssumed = False\<rparr>"

definition ex_retry :: "string \<Rightarrow> retry_entry" where
  "ex_retry ident = \<lparr>rt_IssueID = ''id-'' @ ident, rt_Identifier = ident, rt_Attempt = 1,
     rt_DueAt = 500, rt_Error = None\<rparr>"

definition ex_limited :: state where
  "ex_limited = fst (recordBackendLimit ex_config ex_state ''claude'' [] ''ENG-1'' (Some ex_signal) 100)"

definition ex_probe_run :: "breaker_event list" where
  "ex_probe_run = [EvLimit ''claude'' [] ''ENG-1'' (Some ex_signal) 100,
     EvElse (ex_state\<lparr>s_RetryAttempts := [(''id-ENG-1'', ex_retry ''ENG-1'')]\<rparr>),
     EvTick 300, EvAdmit ''claude'' ''ENG-1'' 300]"

section \<open>Lemmas\<close>

lemma breaker_of_put [simp]:
  "breaker_of (s\<lparr>s_BackendHealth := mput (s_BackendHealth s) k e\<rparr>) key =
    (if key = k then
       (case bh_Status e of
          BackendStatusLimited \<Rightarrow> Open (bh_LimitedUntil e)
        | BackendStatusProbing \<Rightarrow> reserve (bh_ProbeIssue e)
        | _ \<Rightarrow> Closed)
     else breaker_of s key)"
  by (simp add: breaker_of_def)

lemma breaker_of_entry:
  "breaker_of s key =
    (let e = mget_or (s_BackendHealth s) key zero_health in
     case bh_Status e of
       BackendStatusLimited \<Rightarrow> Open (bh_LimitedUntil e)
     | BackendStatusProbing \<Rightarrow> reserve (bh_ProbeIssue e)
     | _ \<Rightarrow> Closed)"
  by (cases "mget (s_BackendHealth s) key") (simp_all add: breaker_of_def zero_health_def)

lemma spec_move_MLimit:
  "spec_move b (MLimit u) = Open (case b of Open u' \<Rightarrow> max u' u | _ \<Rightarrow> u)"
  by (cases b) simp_all

lemma reserve_neq [simp]:
  "reserve q \<noteq> Closed" "reserve q \<noteq> Open u" "Closed \<noteq> reserve q" "Open u \<noteq> reserve q"
  by (simp_all add: reserve_def)

lemma reserve_inj [simp]: "reserve p = reserve q \<longleftrightarrow> p = q"
  by (auto simp: reserve_def)

lemma map_filter_mget:
  assumes "mwf m"
  shows "mget (List.map_filter (\<lambda>(k, e). map_option (Pair k) (g e)) m) key =
    (case mget m key of None \<Rightarrow> None | Some e \<Rightarrow> g e)"
  using assms
proof (induction m)
  case Nil
  show ?case by (simp add: List.map_filter_def)
next
  case (Cons x m)
  obtain k e where x: "x = (k, e)" by (cases x)
  have wf: "mwf m" and new: "mget m k = None"
    using Cons.prems by (auto simp: x mwf_def mkeys_def map_of_eq_None_iff)
  show ?case
    using Cons.IH [OF wf] new
    by (cases "key = k"; cases "g e") (simp_all add: x List.map_filter_simps)
qed

lemma map_filter_mwf:
  "mwf m \<Longrightarrow> mwf (List.map_filter (\<lambda>(k, e). map_option (Pair k) (g e)) m)"
proof (induction m)
  case Nil
  show ?case by (simp add: List.map_filter_def)
next
  case (Cons x m)
  obtain k e where x: "x = (k, e)" by (cases x)
  have "k \<notin> set (mkeys (List.map_filter (\<lambda>(k, e). map_option (Pair k) (g e)) m))"
    using Cons.prems by (auto simp: x mwf_def mkeys_def List.map_filter_def image_iff)
  with Cons show ?case
    by (cases "g e") (auto simp: x List.map_filter_simps mwf_def mkeys_def)
qed

lemma limit_refines:
  "breaker_of (breaker_apply cfg s (EvLimit backend host ident sig now)) key =
    spec_move (breaker_of s key) (move_of cfg key s (EvLimit backend host ident sig now))"
proof (cases "\<exists>l. sig = Some l \<and> backend \<noteq> [] \<and> Terminal sig")
  case False
  then show ?thesis by (cases sig) (auto simp: recordBackendLimit_def)
next
  case True
  then obtain l where l: "sig = Some l" "backend \<noteq> []" "Terminal (Some l)" by auto
  let ?k = "BackendHealthKey backend host"
  let ?e = "mget_or (s_BackendHealth s) ?k zero_health"
  show ?thesis
    using l by (cases "bh_Status ?e"; cases "key = ?k")
      (simp_all add: recordBackendLimit_def Let_def breaker_of_entry [of s] reserve_def max_def)
qed

lemma throttle_refines:
  "breaker_of (breaker_apply cfg s (EvThrottle backend host ident sig now)) key =
    spec_move (breaker_of s key) (move_of cfg key s (EvThrottle backend host ident sig now))"
proof (cases "\<exists>l. sig = Some l \<and> backend \<noteq> [] \<and> ls_Kind l = LimitKindThrottle \<and>
    ls_Source l = LimitSourceAPIRetry")
  case False
  then show ?thesis by (cases sig) (auto simp: recordBackendThrottle_def)
next
  case True
  then obtain l where l: "sig = Some l" "backend \<noteq> []" "ls_Kind l = LimitKindThrottle"
    "ls_Source l = LimitSourceAPIRetry" by auto
  let ?k = "BackendHealthKey backend host"
  let ?e = "mget_or (s_BackendHealth s) ?k zero_health"
  show ?thesis
    using l by (cases "bh_Status ?e"; cases "key = ?k")
      (simp_all add: recordBackendThrottle_def throttle_count_def throttle_until_def Let_def
        breaker_of_entry [of s] reserve_def add.commute)
qed

lemma tick_refines:
  assumes "mwf (s_BackendHealth s)"
  shows "breaker_of (breaker_apply cfg s (EvTick now)) key =
    spec_move (breaker_of s key) (move_of cfg key s (EvTick now))"
proof (cases "s_BackendHealth s = []")
  case True
  then show ?thesis by (simp add: advanceBackendHealth_def breaker_of_def)
next
  case False
  have "mget (s_BackendHealth (fst (advanceBackendHealth s now))) key =
      (case mget (s_BackendHealth s) key of None \<Rightarrow> None
       | Some e \<Rightarrow> advance_entry (live_identifiers s) now e)"
    using False map_filter_mget [OF assms] by (simp add: advanceBackendHealth_def Let_def)
  then show ?thesis
    by (cases "mget (s_BackendHealth s) key")
      (auto simp: breaker_of_def advance_entry_def reserve_def split: backend_status.splits)
qed

lemma admit_answer:
  "snd (admitBackendKey s key q now) = spec_admits (breaker_of s key) q now"
  by (auto simp: admitBackendKey_def backendKeyBlocked_def breaker_of_def reserve_def
      split: option.splits backend_status.splits)

lemma admit_refines:
  "breaker_of (breaker_apply cfg s (EvAdmit k q now)) key =
    spec_move (breaker_of s key) (move_of cfg key s (EvAdmit k q now))"
proof (cases "mget (s_BackendHealth s) k")
  case None
  then show ?thesis by (auto simp: admitBackendKey_def breaker_of_def)
next
  case (Some e)
  then show ?thesis
    by (cases "bh_Status e")
      (auto simp: admitBackendKey_def backendKeyBlocked_def breaker_of_def reserve_def)
qed

lemma settle_refines:
  "breaker_of (breaker_apply cfg s (EvSettle run q reason)) key =
    spec_move (breaker_of s key) (move_of cfg key s (EvSettle run q reason))"
proof (cases run)
  case None
  then show ?thesis by (simp add: settleBackendProbe_def)
next
  case (Some r)
  then show ?thesis
    by (auto simp: settleBackendProbe_def Let_def breaker_of_def split: option.splits
        backend_status.splits)
qed

lemma clear_refines:
  "breaker_of (breaker_apply cfg s (EvClear k)) key =
    spec_move (breaker_of s key) (move_of cfg key s (EvClear k))"
  by (simp add: applyClearBackendBreaker_def breaker_of_def)

lemma else_refines:
  "breaker_of (breaker_apply cfg s (EvElse t)) key =
    spec_move (breaker_of s key) (move_of cfg key s (EvElse t))"
  by (simp add: breaker_of_def)

lemma breaker_apply_mwf:
  "mwf (s_BackendHealth s) \<Longrightarrow> mwf (s_BackendHealth (breaker_apply cfg s ev))"
  by (cases ev)
    (auto simp: recordBackendLimit_def recordBackendThrottle_def advanceBackendHealth_def
      admitBackendKey_def settleBackendProbe_def applyClearBackendBreaker_def Let_def map_filter_mwf
      split: option.splits backend_status.splits prod.splits)

lemma breaker_apply_refines:
  "mwf (s_BackendHealth s) \<Longrightarrow>
    breaker_of (breaker_apply cfg s ev) key = spec_move (breaker_of s key) (move_of cfg key s ev)"
  by (cases ev) (simp_all only: limit_refines throttle_refines tick_refines admit_refines
      settle_refines clear_refines else_refines)

section \<open>Runs of a breaker\<close>

text \<open>The moves that take a reserved probe away from \<open>p\<close>.\<close>

fun disturbs :: "string \<Rightarrow> breaker_move \<Rightarrow> bool" where
  "disturbs p (MLimit u) = True"
| "disturbs p (MSettle q) = (q = p)"
| "disturbs p MClear = True"
| "disturbs p (MAdvance now live) = (p \<notin> set live)"
| "disturbs p m = False"

lemma spec_move_Reserved:
  "p \<noteq> [] \<Longrightarrow> \<not> disturbs p m \<Longrightarrow> spec_move (Reserved p) m = Reserved p"
  by (cases m) (auto simp: reserve_def)

text \<open>No move opens a breaker beyond the bound of the move that opened it.\<close>

fun opens_by :: "time \<Rightarrow> breaker_move \<Rightarrow> bool" where
  "opens_by T (MLimit u) = (u \<le> T)"
| "opens_by T (MTrip u) = (u \<le> T)"
| "opens_by T m = True"

fun open_by :: "time \<Rightarrow> breaker \<Rightarrow> bool" where
  "open_by T (Open u) = (u \<le> T)"
| "open_by T b = True"

lemma open_by_reserve [simp]: "open_by T (reserve q)"
  by (simp add: reserve_def)

lemma spec_move_open_by: "open_by T b \<Longrightarrow> opens_by T m \<Longrightarrow> open_by T (spec_move b m)"
  by (cases b; cases m) auto

lemma spec_move_tick_expired:
  "open_by T b \<Longrightarrow> T \<le> now \<Longrightarrow>
    (case spec_move b (MAdvance now live) of Open u \<Rightarrow> False | Reserved p \<Rightarrow> p \<in> set live | _ \<Rightarrow> True)"
  by (cases b) auto

locale breaker_impl =
  fixes abs :: "'s \<Rightarrow> breaker"
    and app :: "'s \<Rightarrow> 'e \<Rightarrow> 's"
    and mv :: "'s \<Rightarrow> 'e \<Rightarrow> breaker_move"
    and wf :: "'s \<Rightarrow> bool"
  assumes refines: "wf s \<Longrightarrow> abs (app s e) = spec_move (abs s) (mv s e)"
    and wf_app: "wf s \<Longrightarrow> wf (app s e)"
begin

lemma reserved_kept:
  assumes "wf s" "abs s = Reserved p" "p \<noteq> []"
    and "along app (\<lambda>t e. \<not> disturbs p (mv t e)) s es"
  shows "abs (foldl app s es) = Reserved p"
proof -
  have "wf (foldl app s es) \<and> abs (foldl app s es) = Reserved p"
    by (rule along_invariant [OF assms(4)])
      (use assms in \<open>auto simp: refines wf_app spec_move_Reserved\<close>)
  then show ?thesis by simp
qed

lemma open_bounded:
  assumes "wf s" "open_by T (abs s)"
    and "\<And>t e. e \<in> set es \<Longrightarrow> opens_by T (mv t e)"
  shows "wf (foldl app s es) \<and> open_by T (abs (foldl app s es))"
  by (rule foldl_invariant) (use assms in \<open>auto simp: refines wf_app spec_move_open_by\<close>)

end

interpretation health: breaker_impl "\<lambda>s. breaker_of s key" "breaker_apply cfg" "move_of cfg key"
    "\<lambda>s. mwf (s_BackendHealth s)" for cfg key
  by unfold_locales (auto intro: breaker_apply_refines breaker_apply_mwf)

text \<open>When an event happens, for the events that can open a breaker.\<close>

fun opened_at :: "breaker_event \<Rightarrow> time" where
  "opened_at (EvLimit backend host ident sig now) = now"
| "opened_at (EvThrottle backend host ident sig now) = now"
| "opened_at (EvTick now) = now"
| "opened_at (EvAdmit key ident now) = now"
| "opened_at (EvSettle run ident reason) = 0"
| "opened_at (EvClear key) = 0"
| "opened_at (EvElse t) = 0"

lemma backendLimitCap_le: "0 < backendLimitCap kind source ty \<and> backendLimitCap kind source ty \<le> backendCapSevenDay"
  by (simp add: backendLimitCap_def time_simps)

text \<open>The configured cooldown is positive as long as its nanoseconds fit in an \<open>int64\<close>.\<close>

definition cooldown_fits :: "config \<Rightarrow> bool" where
  "cooldown_fits cfg \<longleftrightarrow> fb_DefaultCooldownMinutes (ag_BackendFallback (cf_Agent cfg)) \<le> 100000000"

lemma backendCooldown_pos:
  assumes "cooldown_fits cfg"
  shows "0 < backendCooldown cfg"
proof -
  let ?m = "CooldownMinutes (ag_BackendFallback (cf_Agent cfg))"
  have m: "0 < ?m" "?m \<le> 100000000"
    using assms CooldownMinutes_pos by (simp_all add: CooldownMinutes_def cooldown_fits_def
        DefaultBackendFallbackCooldownMinutes_def)
  then have "wrap64 (?m * minute) = ?m * minute"
    by (intro wrap64_id) (simp_all add: time_simps)
  with m show ?thesis by (simp add: backendCooldown_def time_simps)
qed

lemma limit_until_le:
  "limit_until cfg l now \<le> now + backendLimitCap (limit_kind_string (ls_Kind l)) (ls_Source l) (ls_LimitType l)"
  by (simp add: limit_until_def clampLimitedUntil_def Let_def)

lemma limit_until_later:
  assumes "cooldown_fits cfg"
  shows "now < limit_until cfg l now"
proof -
  have "0 < min (backendCooldown cfg) backendCapStructure"
    using backendCooldown_pos [OF assms] by (simp add: time_simps)
  then show ?thesis
    using backendLimitCap_le by (auto simp: limit_until_def clampLimitedUntil_def Let_def reset_known_def)
qed

lemma throttle_until_bounds:
  "now + backendThrottleCooldown \<le> throttle_until l now"
  "throttle_until l now \<le> now + backendThrottleMaxCooldown"
  by (simp_all add: throttle_until_def time_simps)

lemma until_le_week:
  "limit_until cfg l now \<le> now + backendCapSevenDay" "throttle_until l now \<le> now + backendCapSevenDay"
  using limit_until_le [of cfg l now] backendLimitCap_le throttle_until_bounds(2) [of l now]
  by (meson add_left_mono order_trans) (simp add: throttle_until_def time_simps)

lemma move_opens_by:
  assumes "opened_at ev \<le> T"
  shows "opens_by (T + backendCapSevenDay) (move_of cfg key s ev)"
proof -
  have "now \<le> T \<Longrightarrow> limit_until cfg l now \<le> T + backendCapSevenDay"
    "now \<le> T \<Longrightarrow> throttle_until l now \<le> T + backendCapSevenDay" for now l
    using until_le_week(1) [of cfg l now] until_le_week(2) [of l now] by linarith+
  with assms show ?thesis by (cases ev) (auto split: option.splits)
qed

lemma Terminal_mergeLimit: "Terminal (mergeLimit prev new) \<longleftrightarrow> Terminal prev \<or> Terminal new"
  by (cases prev; cases new) (auto simp: mergeLimit_def Terminal_def Let_def)

lemma Terminal_foldl_mergeLimit:
  "Terminal (foldl mergeLimit prev sigs) \<longleftrightarrow> Terminal prev \<or> (\<exists>sig \<in> set sigs. Terminal sig)"
  by (induction sigs arbitrary: prev) (auto simp: Terminal_mergeLimit)

lemma VendorDelay_nonneg: "0 \<le> VendorDelay sig now"
  by (auto simp: VendorDelay_def Let_def split: option.splits)

lemma go_div_ms_bounds:
  assumes "0 \<le> a" "a * millisecond \<le> d" "d \<le> b * millisecond"
  shows "a \<le> go_div d millisecond \<and> go_div d millisecond \<le> b"
proof -
  have "0 \<le> a * millisecond" using assms(1) by (simp add: millisecond_def)
  then have "go_div d millisecond = d div millisecond"
    using assms(2) by (intro go_div_nonneg) (auto simp: millisecond_def)
  then show ?thesis
    using zdiv_mono1 [OF assms(2), of millisecond] zdiv_mono1 [OF assms(3), of millisecond]
    by (simp add: millisecond_def)
qed

section \<open>Properties\<close>

text \<open>
  C5. The breaker refines its specification: every operation on the stored breakers moves every
  key's breaker exactly as the four-phase specification does, and the gate's admission answer is
  the specification's.
\<close>

theorem backend_breaker_refines_spec:
  assumes "mwf (s_BackendHealth s)"
  shows "breaker_of (breaker_apply cfg s ev) key = spec_move (breaker_of s key) (move_of cfg key s ev) \<and>
    snd (admitBackendKey s key q now) = spec_admits (breaker_of s key) q now \<and>
    mwf (s_BackendHealth (breaker_apply cfg s ev))"
  using assms by (simp add: breaker_apply_refines admit_answer breaker_apply_mwf)

theorem backend_breaker_refines_witness:
  "breaker_of ex_limited ''claude'' = Open 200 \<and>
    breaker_of (breaker_apply ex_config ex_limited (EvTick 200)) ''claude'' = HalfOpen"
proof -
  have wf: "mwf (s_BackendHealth ex_limited)" by code_simp
  have open1: "breaker_of ex_limited ''claude'' = Open 200" by code_simp
  have "breaker_of (breaker_apply ex_config ex_limited (EvTick 200)) ''claude'' =
      spec_move (breaker_of ex_limited ''claude'') (move_of ex_config ''claude'' ex_limited (EvTick 200))"
    using backend_breaker_refines_spec [OF wf] by blast
  with open1 show ?thesis by simp
qed

text \<open>
  C6. One probe at a time: once issue \<open>p\<close> is admitted on a breaker that is open or half-open,
  no other issue is admitted on that key, whatever sequence of operations follows, until the
  probe succeeds, is no longer live at a tick, reports a limit, or the operator clears the
  breaker; \<open>p\<close> itself is always admitted again.
\<close>

theorem single_half_open_probe:
  assumes "mwf (s_BackendHealth s)" "breaker_of s key \<noteq> Closed" "p \<noteq> []"
    and "admitBackendKey s key p now = (s1, True)"
    and "along (breaker_apply cfg) (\<lambda>t ev. \<not> disturbs p (move_of cfg key t ev)) s1 evs"
  shows "snd (admitBackendKey (foldl (breaker_apply cfg) s1 evs) key q now') \<longleftrightarrow> q = p"
proof -
  have s1: "s1 = breaker_apply cfg s (EvAdmit key p now)" using assms(4) by simp
  have "spec_admits (breaker_of s key) p now" using admit_answer [of s key p now] assms(4) by simp
  then have "breaker_of s1 key = Reserved p"
    using assms(1-3) unfolding s1
    by (cases "breaker_of s key") (simp_all add: breaker_apply_refines reserve_def del: breaker_apply.simps)
  moreover have "mwf (s_BackendHealth s1)" unfolding s1 using assms(1) by (rule breaker_apply_mwf)
  ultimately have "breaker_of (foldl (breaker_apply cfg) s1 evs) key = Reserved p"
    using assms(3,5) by (intro health.reserved_kept)
  then show ?thesis by (auto simp: admit_answer)
qed

theorem single_half_open_probe_witness:
  "\<not> snd (admitBackendKey (foldl (breaker_apply ex_config)
      (fst (admitBackendKey ex_limited ''claude'' ''ENG-1'' 300)) [EvAdmit ''claude'' ''ENG-2'' 400])
      ''claude'' ''ENG-3'' 500)"
proof -
  have wf: "mwf (s_BackendHealth ex_limited)" by code_simp
  have nc: "breaker_of ex_limited ''claude'' \<noteq> Closed" by code_simp
  have adm: "admitBackendKey ex_limited ''claude'' ''ENG-1'' 300 =
      (fst (admitBackendKey ex_limited ''claude'' ''ENG-1'' 300), True)"
    by (rule prod_eqI) (simp, code_simp)
  have "along (breaker_apply ex_config)
      (\<lambda>t ev. \<not> disturbs ''ENG-1'' (move_of ex_config ''claude'' t ev))
      (fst (admitBackendKey ex_limited ''claude'' ''ENG-1'' 300)) [EvAdmit ''claude'' ''ENG-2'' 400]"
    by simp
  from single_half_open_probe [OF wf nc _ adm this, of "''ENG-3''" 500] show ?thesis by simp
qed

text \<open>
  No breaker parks a backend forever: in any run of operations from the initial state, a
  tick at least seven days and one hour after the last signal leaves no breaker open; what may
  still refuse an issue is only the reservation of a probe whose issue is still live.
\<close>

theorem breaker_never_stuck:
  assumes "\<forall>ev \<in> set evs. opened_at ev \<le> T" "T + backendCapSevenDay \<le> now"
    and "s = foldl (breaker_apply cfg) (NewState cfg') evs"
    and "\<not> snd (admitBackendKey (fst (advanceBackendHealth s now)) key q now)"
  shows "\<exists>p \<in> set (live_identifiers s). p \<noteq> q \<and>
    breaker_of (fst (advanceBackendHealth s now)) key = Reserved p"
proof -
  have ok: "mwf (s_BackendHealth s) \<and> open_by (T + backendCapSevenDay) (breaker_of s key)"
    unfolding assms(3) by (rule health.open_bounded)
      (use assms(1) move_opens_by in \<open>auto simp: NewState_def breaker_of_def\<close>)
  have tick: "breaker_of (fst (advanceBackendHealth s now)) key =
      spec_move (breaker_of s key) (MAdvance now (live_identifiers s))"
    using tick_refines [of s cfg now key] ok by simp
  show ?thesis
    using spec_move_tick_expired [of "T + backendCapSevenDay" "breaker_of s key" now
        "live_identifiers s"] ok assms(2,4)
    by (cases "spec_move (breaker_of s key) (MAdvance now (live_identifiers s))")
      (auto simp: admit_answer tick)
qed

theorem breaker_never_stuck_witness:
  "\<exists>p \<in> set (live_identifiers (foldl (breaker_apply ex_config) (NewState ex_config) ex_probe_run)).
    p \<noteq> ''ENG-2''"
proof -
  let ?s = "foldl (breaker_apply ex_config) (NewState ex_config) ex_probe_run"
  have at: "\<forall>ev \<in> set ex_probe_run. opened_at ev \<le> 300" by (simp add: ex_probe_run_def)
  have "\<not> snd (admitBackendKey (fst (advanceBackendHealth ?s (300 + backendCapSevenDay)))
      ''claude'' ''ENG-2'' (300 + backendCapSevenDay))" by code_simp
  from breaker_never_stuck [OF at order_refl refl this] show ?thesis by blast
qed

text \<open>
  A quota signal is never lost: after merging any sequence of a run's limit signals, the
  merged signal is terminal exactly when one of them was, and it then opens the breaker of the
  run's key, strictly into the future (for a configured cooldown that fits in a duration) and
  within the cap of its origin, unless the breaker was already open for longer.
\<close>

theorem quota_signal_opens_breaker:
  assumes "sig \<in> set sigs" "Terminal sig" "backend \<noteq> []" "cooldown_fits cfg"
  shows "\<exists>l u. foldl mergeLimit None sigs = Some l \<and>
    breaker_of (fst (recordBackendLimit cfg s backend host ident (foldl mergeLimit None sigs) now))
      (BackendHealthKey backend host) = Open u \<and> now < u \<and>
    (u \<le> now + backendLimitCap (limit_kind_string (ls_Kind l)) (ls_Source l) (ls_LimitType l) \<or>
     breaker_of s (BackendHealthKey backend host) = Open u)"
proof -
  have t: "Terminal (foldl mergeLimit None sigs)"
    using assms(1,2) by (auto simp: Terminal_foldl_mergeLimit)
  then obtain l where l: "foldl mergeLimit None sigs = Some l"
    by (cases "foldl mergeLimit None sigs") (auto simp: Terminal_def)
  let ?b = "breaker_of s (BackendHealthKey backend host)"
  have "breaker_of (fst (recordBackendLimit cfg s backend host ident (Some l) now))
      (BackendHealthKey backend host) = spec_move ?b (MLimit (limit_until cfg l now))"
    using limit_refines [of cfg s backend host ident "Some l" now "BackendHealthKey backend host"] t l
      assms(3) by simp
  then show ?thesis
    using limit_until_later [OF assms(4), of now l] limit_until_le [of cfg l now] l by (cases ?b) (auto simp: max_def)
qed

theorem quota_signal_opens_breaker_witness:
  "\<exists>l u. foldl mergeLimit None [Some ex_signal, None] = Some l \<and>
    breaker_of (fst (recordBackendLimit ex_config ex_state ''claude'' ''h1'' ''ENG-1''
      (foldl mergeLimit None [Some ex_signal, None]) 100)) (BackendHealthKey ''claude'' ''h1'') = Open u \<and>
    100 < u"
proof -
  have "Terminal (Some ex_signal)" by (simp add: Terminal_def ex_signal_def)
  moreover have "cooldown_fits ex_config" by (simp add: cooldown_fits_def ex_config_def)
  ultimately show ?thesis
    using quota_signal_opens_breaker [of "Some ex_signal" "[Some ex_signal, None]" "''claude''" ex_config
        ex_state "''h1''" "''ENG-1''" 100] by auto
qed

text \<open>
  The delays handed to the retry timer stay within the six-hour cap, whatever the vendor
  announced, and a held issue is never re-checked sooner than one poll interval or one second.
\<close>

theorem retry_delays_bounded:
  assumes "s_PollIntervalMs s \<le> 6 * 60 * 60 * 1000"
  shows "max (s_PollIntervalMs s) 1000 \<le> holdRetryDelay s hold now \<and>
    holdRetryDelay s hold now \<le> 6 * 60 * 60 * 1000 \<and>
    0 \<le> vendorRetryDelayMs sig now \<and> vendorRetryDelayMs sig now \<le> 6 * 60 * 60 * 1000"
proof -
  let ?m = "max (s_PollIntervalMs s) 1000"
  have w: "wrap64 (?m * millisecond) = ?m * millisecond"
    using assms by (intro wrap64_id) (auto simp: time_simps max_def)
  have "?m \<le> holdRetryDelay s hold now \<and> holdRetryDelay s hold now \<le> 6 * 60 * 60 * 1000"
    unfolding holdRetryDelay_def Let_def w
    by (rule go_div_ms_bounds) (use assms in \<open>auto simp: time_simps max_def min_def\<close>)
  moreover have "0 \<le> vendorRetryDelayMs sig now \<and> vendorRetryDelayMs sig now \<le> 6 * 60 * 60 * 1000"
    unfolding vendorRetryDelayMs_def
    by (rule go_div_ms_bounds) (use VendorDelay_nonneg [of sig now] in \<open>auto simp: time_simps\<close>)
  ultimately show ?thesis by simp
qed

theorem retry_delays_bounded_witness:
  "holdRetryDelay ex_state \<lparr>hd_Key = ''claude'', hd_Until = 10 ^ 18\<rparr> 1 \<le> 21600000"
  using retry_delays_bounded [of ex_state "\<lparr>hd_Key = ''claude'', hd_Until = 10 ^ 18\<rparr>" 1]
  by (simp add: ex_defs)

end
