(* ===== verification/Rate_Switch.thy ===== *)
theory Rate_Switch
  imports Backend_Health
begin

text \<open>
  Automatic profile and backend switches: the rolling per-issue switch cap and its bookkeeping
  (\<open>internal/orchestrator/automation_rate_limited.go\<close>) and the switch-back policies of
  \<open>backend_gate.go\<close>. A configured number of hours or minutes becomes a \<open>time.Duration\<close> with
  its 64-bit wrap-around.
\<close>

section \<open>The switch cap\<close>

definition rateLimitSwitchWindowDuration :: "config \<Rightarrow> duration" where
  "rateLimitSwitchWindowDuration cfg =
     (let windowH = ag_SwitchWindowHours (cf_Agent cfg);
          windowH = (if windowH \<le> 0 then 6 else windowH)
      in wrap64 (windowH * hour))"

definition allowRateLimitSwitch :: "config \<Rightarrow> state \<Rightarrow> string \<Rightarrow> time \<Rightarrow> state \<times> bool" where
  "allowRateLimitSwitch cfg s issueID now =
     (let cap = ag_MaxSwitchesPerIssuePerWindow (cf_Agent cfg)
      in if cap \<le> 0 then (s, True)
         else let windowStart = now - rateLimitSwitchWindowDuration cfg;
                  pruned = filter (\<lambda>t. \<not> t < windowStart) (mget_or (s_SwitchHistory s) issueID []);
                  history = (if pruned = [] then mdel (s_SwitchHistory s) issueID
                             else mput (s_SwitchHistory s) issueID pruned)
              in (s\<lparr>s_SwitchHistory := history\<rparr>, int (length pruned) < cap))"

definition recordRateLimitSwitch :: "state \<Rightarrow> string \<Rightarrow> time \<Rightarrow> state" where
  "recordRateLimitSwitch s issueID now =
     s\<lparr>s_SwitchHistory :=
        mput (s_SwitchHistory s) issueID (mget_or (s_SwitchHistory s) issueID [] @ [now])\<rparr>"

fun oldest_in_window :: "time \<Rightarrow> time \<Rightarrow> time list \<Rightarrow> time" where
  "oldest_in_window windowStart oldest [] = oldest"
| "oldest_in_window windowStart oldest (t # ts) =
     (if t < windowStart then oldest_in_window windowStart oldest ts
      else if isZero oldest \<or> t < oldest then oldest_in_window windowStart t ts
      else oldest_in_window windowStart oldest ts)"

definition nextRateLimitCapCommentUntil :: "config \<Rightarrow> state \<Rightarrow> string \<Rightarrow> time \<Rightarrow> time" where
  "nextRateLimitCapCommentUntil cfg s issueID now =
     (let window = rateLimitSwitchWindowDuration cfg;
          windowStart = now - window;
          oldest = oldest_in_window windowStart 0 (mget_or (s_SwitchHistory s) issueID [])
      in if isZero oldest then now + window
         else let until = oldest + window
              in if \<not> now < until then now + window else until)"

definition claimRateLimitCapComment :: "config \<Rightarrow> state \<Rightarrow> string \<Rightarrow> time \<Rightarrow> state \<times> bool" where
  "claimRateLimitCapComment cfg s issueID now =
     (if issueID = [] then (s, False)
      else let until = nextRateLimitCapCommentUntil cfg s issueID now
      in case mget (s_RateLimitCapCommentUntil s) issueID of
           Some existing \<Rightarrow>
             if now < existing then (s, False)
             else (s\<lparr>s_RateLimitCapCommentUntil := mput (s_RateLimitCapCommentUntil s) issueID until\<rparr>, True)
         | None \<Rightarrow>
             (s\<lparr>s_RateLimitCapCommentUntil := mput (s_RateLimitCapCommentUntil s) issueID until\<rparr>, True))"

definition rateLimitCooldownUntil :: "state \<Rightarrow> string \<Rightarrow> time option" where
  "rateLimitCooldownUntil s key = mget (s_RateLimitCooldowns s) key"

definition setRateLimitCooldown :: "state \<Rightarrow> string \<Rightarrow> time \<Rightarrow> state" where
  "setRateLimitCooldown s key until =
     s\<lparr>s_RateLimitCooldowns := mput (s_RateLimitCooldowns s) key until\<rparr>"

definition newest_stamp :: "time list \<Rightarrow> time" where
  "newest_stamp stamps = foldl (\<lambda>newest t. if newest < t then t else newest) 0 stamps"

definition pruneRateLimitedMaps :: "config \<Rightarrow> state \<Rightarrow> time \<Rightarrow> state \<times> nat" where
  "pruneRateLimitedMaps cfg s now =
     (let staleAfter = now + wrap64 (- 2 * rateLimitSwitchWindowDuration cfg);
          history = mkeep (\<lambda>k stamps. \<not> (stamps = [] \<or> newest_stamp stamps < staleAfter)) (s_SwitchHistory s);
          cooldowns = mkeep (\<lambda>k until. now < until) (s_RateLimitCooldowns s);
          comments = mkeep (\<lambda>k until. now < until) (s_RateLimitCapCommentUntil s)
      in (s\<lparr>s_SwitchHistory := history, s_RateLimitCooldowns := cooldowns,
            s_RateLimitCapCommentUntil := comments\<rparr>,
          (length (s_SwitchHistory s) - length history) +
          (length (s_RateLimitCooldowns s) - length cooldowns) +
          (length (s_RateLimitCapCommentUntil s) - length comments)))"

section \<open>Switching back\<close>

definition AutoSwitchSourceAutomation :: string where
  "AutoSwitchSourceAutomation = ''automation''"
definition AutoSwitchSourceBackendFallback :: string where
  "AutoSwitchSourceBackendFallback = ''backend_fallback''"

definition clearAutoSwitch :: "state \<Rightarrow> string \<Rightarrow> state" where
  "clearAutoSwitch s identifier =
     s\<lparr>s_IssueProfiles := mdel (s_IssueProfiles s) identifier,
       s_IssueBackends := mdel (s_IssueBackends s) identifier,
       s_AutoSwitchedIdentifiers := mdel (s_AutoSwitchedIdentifiers s) identifier,
       s_AutoSwitchedAt := mdel (s_AutoSwitchedAt s) identifier,
       s_AutoSwitchInfo := mdel (s_AutoSwitchInfo s) identifier\<rparr>"

text \<open>A \<open>range\<close> loop that clears the switches of the keys that satisfy \<open>P\<close>.\<close>

definition clear_switches :: "state \<Rightarrow> string list \<Rightarrow> state" where
  "clear_switches s idents = foldl clearAutoSwitch s idents"

definition RevertExpiredAutoSwitches :: "state \<Rightarrow> duration \<Rightarrow> time \<Rightarrow> state \<times> nat" where
  "RevertExpiredAutoSwitches s ttl now =
     (if ttl \<le> 0 \<or> s_AutoSwitchedAt s = [] then (s, 0)
      else let threshold = now - ttl;
               expired = map fst (filter (\<lambda>(k, switchedAt). \<not> threshold < switchedAt) (s_AutoSwitchedAt s))
           in (clear_switches s expired, length expired))"

definition revertExpiredAutoSwitchesForTick :: "config \<Rightarrow> state \<Rightarrow> time \<Rightarrow> state \<times> nat" where
  "revertExpiredAutoSwitchesForTick cfg s now =
     (if ag_SwitchRevertHours (cf_Agent cfg) \<le> 0 then (s, 0)
      else RevertExpiredAutoSwitches s (wrap64 (ag_SwitchRevertHours (cf_Agent cfg) * hour)) now)"

definition clearAutoSwitchOnSuccess :: "config \<Rightarrow> state \<Rightarrow> string \<Rightarrow> time \<Rightarrow> bool" where
  "clearAutoSwitchOnSuccess cfg s identifier now =
     (case mget (s_AutoSwitchInfo s) identifier of
        None \<Rightarrow> True
      | Some r \<Rightarrow>
          if aw_Source r \<noteq> AutoSwitchSourceBackendFallback then True
          else let fb = ag_BackendFallback (cf_Agent cfg)
          in if fb_SwitchBack fb \<noteq> BackendFallbackSwitchBackOnSuccess then False
             else \<not> now < aw_SwitchedAt r + wrap64 (fb_MinDwellMinutes fb * minute))"

definition switches_back :: "config \<Rightarrow> state \<Rightarrow> time \<Rightarrow> auto_switch_record \<Rightarrow> bool" where
  "switches_back cfg s now r =
     (let dwell = wrap64 (fb_MinDwellMinutes (ag_BackendFallback (cf_Agent cfg)) * minute)
      in if aw_Source r \<noteq> AutoSwitchSourceBackendFallback \<or> now < aw_SwitchedAt r + dwell then False
         else (case mget (s_BackendHealth s) (aw_FromKey r) of
             None \<Rightarrow> True
           | Some e \<Rightarrow> \<not> (bh_Status e = BackendStatusLimited \<and> now < bh_LimitedUntil e)))"

definition revertBackendFallbackSwitches :: "config \<Rightarrow> state \<Rightarrow> time \<Rightarrow> state \<times> nat" where
  "revertBackendFallbackSwitches cfg s now =
     (let fb = ag_BackendFallback (cf_Agent cfg)
      in if \<not> fb_Enabled fb \<or> fb_SwitchBack fb \<noteq> BackendFallbackSwitchBackAtReset \<or> s_AutoSwitchInfo s = []
         then (s, 0)
         else let back = map fst (filter (\<lambda>(k, r). switches_back cfg s now r) (s_AutoSwitchInfo s))
              in (clear_switches s back, length back))"

section \<open>Lemmas\<close>

lemma clear_switches_frame:
  "s_BackendHealth (clear_switches s ids) = s_BackendHealth s"
  "s_Running (clear_switches s ids) = s_Running s"
  "s_SwitchHistory (clear_switches s ids) = s_SwitchHistory s"
  by (induction ids arbitrary: s) (simp_all add: clear_switches_def clearAutoSwitch_def)

lemma clear_switches_get:
  "mget (s_AutoSwitchInfo (clear_switches s ids)) k = (if k \<in> set ids then None else mget (s_AutoSwitchInfo s) k)"
  "mget (s_AutoSwitchedAt (clear_switches s ids)) k = (if k \<in> set ids then None else mget (s_AutoSwitchedAt s) k)"
  "mget (s_AutoSwitchedIdentifiers (clear_switches s ids)) k =
    (if k \<in> set ids then None else mget (s_AutoSwitchedIdentifiers s) k)"
  "mget (s_IssueProfiles (clear_switches s ids)) k = (if k \<in> set ids then None else mget (s_IssueProfiles s) k)"
  "mget (s_IssueBackends (clear_switches s ids)) k = (if k \<in> set ids then None else mget (s_IssueBackends s) k)"
  by (induction ids arbitrary: s) (simp_all add: clear_switches_def clearAutoSwitch_def)

lemma in_filtered_keys:
  assumes "mwf m"
  shows "k \<in> set (map fst (filter (\<lambda>(k, v). P k v) m)) \<longleftrightarrow> (\<exists>v. mget m k = Some v \<and> P k v)"
  using assms by (force simp: mwf_in_set_iff [symmetric])

text \<open>
  An attempt to switch at a time: allowed and then recorded, or refused. \<open>switch_run\<close> gives the
  times at which the issue was really switched.
\<close>

definition try_switch :: "config \<Rightarrow> string \<Rightarrow> state \<Rightarrow> time \<Rightarrow> state \<times> bool" where
  "try_switch cfg issueID s now =
     (case allowRateLimitSwitch cfg s issueID now of (t, ok) \<Rightarrow>
        if ok then (recordRateLimitSwitch t issueID now, True) else (t, False))"

fun switch_run :: "config \<Rightarrow> string \<Rightarrow> state \<Rightarrow> time list \<Rightarrow> time list" where
  "switch_run cfg issueID s [] = []"
| "switch_run cfg issueID s (now # ticks) =
     (case try_switch cfg issueID s now of (t, ok) \<Rightarrow>
        (if ok then now # switch_run cfg issueID t ticks else switch_run cfg issueID t ticks))"

definition stamps :: "state \<Rightarrow> string \<Rightarrow> time list" where
  "stamps s issueID = mget_or (s_SwitchHistory s) issueID []"

lemma try_switch_stamps:
  assumes "0 < ag_MaxSwitchesPerIssuePerWindow (cf_Agent cfg)"
  shows "stamps (fst (try_switch cfg k s now)) k =
      filter (\<lambda>t. now - rateLimitSwitchWindowDuration cfg \<le> t) (stamps s k) @
      (if snd (try_switch cfg k s now) then [now] else [])"
    and "snd (try_switch cfg k s now) \<longleftrightarrow>
      int (length (filter (\<lambda>t. now - rateLimitSwitchWindowDuration cfg \<le> t) (stamps s k)))
        < ag_MaxSwitchesPerIssuePerWindow (cf_Agent cfg)"
  using assms
  by (auto simp: try_switch_def allowRateLimitSwitch_def recordRateLimitSwitch_def stamps_def Let_def
      mget_or_def not_less split: prod.splits)

lemma switch_run_subset: "set (switch_run cfg k s ticks) \<subseteq> set ticks"
  by (induction ticks arbitrary: s) (auto split: prod.splits if_splits)

abbreviation in_window :: "duration \<Rightarrow> time \<Rightarrow> time \<Rightarrow> bool" where
  "in_window w t u \<equiv> t - w \<le> u \<and> u \<le> t"

lemma filter_window_pruned:
  "now \<le> t \<Longrightarrow> filter (in_window w t) (filter (\<lambda>u. now - w \<le> u) us) = filter (in_window w t) us"
  by (auto intro: filter_cong)

lemma switch_run_window:
  fixes cfg k
  defines "w \<equiv> rateLimitSwitchWindowDuration cfg" and "cap \<equiv> ag_MaxSwitchesPerIssuePerWindow (cf_Agent cfg)"
  assumes cap: "0 < cap" and "sorted ticks" and "t \<in> set (switch_run cfg k s ticks)"
  shows "int (length (filter (in_window w t) (stamps s k @ switch_run cfg k s ticks))) \<le> cap"
  using assms(4,5)
proof (induction ticks arbitrary: s)
  case Nil
  then show ?case by simp
next
  case (Cons now ticks)
  obtain s' ok where tried: "try_switch cfg k s now = (s', ok)" by fastforce
  let ?old = "filter (\<lambda>u. now - w \<le> u) (stamps s k)"
  let ?G = "switch_run cfg k s' ticks"
  have stamps': "stamps s' k = ?old @ (if ok then [now] else [])"
    and ok: "ok \<longleftrightarrow> int (length ?old) < cap"
    using try_switch_stamps [of cfg k s now] cap tried by (simp_all add: w_def cap_def)
  have run: "switch_run cfg k s (now # ticks) = (if ok then now # ?G else ?G)" by (simp add: tried)
  have later: "now \<le> u" if "u \<in> set ?G" for u
    using that switch_run_subset [of cfg k s' ticks] Cons.prems(1) by auto
  have split: "length (filter (in_window w t) (stamps s k @ switch_run cfg k s (now # ticks))) =
      length (filter (in_window w t) (stamps s' k @ ?G))" if "now \<le> t" for t
    using that unfolding run stamps' filter_append filter_window_pruned [OF that] by simp
  show ?case
  proof (cases "t \<in> set ?G")
    case True
    then show ?thesis using Cons.IH [of s'] Cons.prems(1) split [OF later] by simp
  next
    case False
    then have t: "t = now" "ok" using Cons.prems(2) unfolding run by (auto split: if_splits)
    then have "filter (in_window w now) ?G = []"
      using False later by (auto simp: filter_empty_conv dest: antisym)
    moreover have "int (length (filter (in_window w now) ?old)) \<le> int (length ?old)"
      by (simp only: of_nat_le_iff length_filter_le)
    ultimately show ?thesis using split [of now] t ok by (simp add: stamps')
  qed
qed

section \<open>Properties\<close>

text \<open>
  The switch cap holds over every rolling window: whatever the times at which switches of an
  issue are attempted, and whatever its history, at the moment of any granted switch the window
  that ends there contains at most the configured number of switches, that one included.
\<close>

theorem switch_cap_respected:
  assumes "0 < ag_MaxSwitchesPerIssuePerWindow (cf_Agent cfg)" "sorted ticks"
    and "t \<in> set (switch_run cfg issueID s ticks)"
  shows "int (length (filter (\<lambda>u. t - rateLimitSwitchWindowDuration cfg \<le> u \<and> u \<le> t)
      (stamps s issueID @ switch_run cfg issueID s ticks))) \<le> ag_MaxSwitchesPerIssuePerWindow (cf_Agent cfg)"
  using switch_run_window [OF assms] .

theorem switch_cap_respected_witness:
  "switch_run ex_config ''id-ENG-1'' ex_state [10, 20, 30, 40, 50] = [10, 20, 30] \<and>
    int (length (filter (\<lambda>u. 30 - rateLimitSwitchWindowDuration ex_config \<le> u \<and> u \<le> 30)
      (stamps ex_state ''id-ENG-1'' @ switch_run ex_config ''id-ENG-1'' ex_state [10, 20, 30, 40, 50]))) \<le> 3"
proof -
  have run: "switch_run ex_config ''id-ENG-1'' ex_state [10, 20, 30, 40, 50] = [10, 20, 30]" by code_simp
  have cap: "ag_MaxSwitchesPerIssuePerWindow (cf_Agent ex_config) = 3" by (simp add: ex_config_def)
  show ?thesis
    using switch_cap_respected [of ex_config "[10, 20, 30, 40, 50]" 30 "''id-ENG-1''" ex_state]
    unfolding run cap by simp
qed

text \<open>
  Switch-back at reset never flaps: a tick clears exactly the fallback switches that have
  dwelt for the configured time and whose original breaker is no longer open, together with
  their profile and backend overrides; every other switch, and every override an operator set
  without one, is kept.
\<close>

theorem switch_back_at_reset_exact:
  assumes "mwf (s_AutoSwitchInfo s)" "fb_Enabled (ag_BackendFallback (cf_Agent cfg))"
    and "fb_SwitchBack (ag_BackendFallback (cf_Agent cfg)) = BackendFallbackSwitchBackAtReset"
    and "s' = fst (revertBackendFallbackSwitches cfg s now)"
    and "dwell = wrap64 (fb_MinDwellMinutes (ag_BackendFallback (cf_Agent cfg)) * minute)"
    and "back \<longleftrightarrow> (\<exists>r. mget (s_AutoSwitchInfo s) ident = Some r \<and>
      aw_Source r = AutoSwitchSourceBackendFallback \<and> aw_SwitchedAt r + dwell \<le> now \<and>
      (\<forall>u. breaker_of s (aw_FromKey r) = Open u \<longrightarrow> u \<le> now))"
  shows "mget (s_AutoSwitchInfo s') ident = (if back then None else mget (s_AutoSwitchInfo s) ident) \<and>
    mget (s_IssueProfiles s') ident = (if back then None else mget (s_IssueProfiles s) ident) \<and>
    mget (s_IssueBackends s') ident = (if back then None else mget (s_IssueBackends s) ident)"
proof -
  have sb: "switches_back cfg s now r \<longleftrightarrow> aw_Source r = AutoSwitchSourceBackendFallback \<and>
      aw_SwitchedAt r + dwell \<le> now \<and> (\<forall>u. breaker_of s (aw_FromKey r) = Open u \<longrightarrow> u \<le> now)" for r
    using assms(5) by (auto simp: switches_back_def Let_def breaker_of_def reserve_def not_less
        split: option.splits backend_status.splits)
  let ?ids = "map fst (filter (\<lambda>(k, r). switches_back cfg s now r) (s_AutoSwitchInfo s))"
  have s': "s' = clear_switches s ?ids"
  proof (cases "s_AutoSwitchInfo s = []")
    case True
    then show ?thesis by (simp add: assms(4) revertBackendFallbackSwitches_def Let_def clear_switches_def)
  next
    case False
    then show ?thesis using assms(2,3) by (simp add: assms(4) revertBackendFallbackSwitches_def Let_def)
  qed
  have "ident \<in> set ?ids \<longleftrightarrow> back"
    using in_filtered_keys [OF assms(1), of ident "\<lambda>k. switches_back cfg s now"] assms(6) by (simp add: sb)
  then show ?thesis by (simp add: s' clear_switches_get)
qed

definition ex_switched :: state where
  "ex_switched = ex_state\<lparr>s_AutoSwitchInfo := [(''ENG-1'', \<lparr>aw_Source = ''backend_fallback'',
     aw_FromBackend = ''claude'', aw_FromProfile = [], aw_ToBackend = ''codex'', aw_ToProfile = [],
     aw_Reason = [], aw_FromKey = ''claude'', aw_SwitchedAt = 100\<rparr>)],
     s_IssueBackends := [(''ENG-1'', ''codex'')]\<rparr>"

theorem switch_back_at_reset_witness:
  "mget (s_IssueBackends (fst (revertBackendFallbackSwitches ex_config ex_switched (100 + 30 * minute)))) ''ENG-1'' = None"
proof -
  have wf: "mwf (s_AutoSwitchInfo ex_switched)" by code_simp
  have en: "fb_Enabled (ag_BackendFallback (cf_Agent ex_config))" by (simp add: ex_config_def)
  have sw: "fb_SwitchBack (ag_BackendFallback (cf_Agent ex_config)) = BackendFallbackSwitchBackAtReset"
    by (simp add: ex_config_def BackendFallbackSwitchBackAtReset_def)
  have "\<exists>r. mget (s_AutoSwitchInfo ex_switched) ''ENG-1'' = Some r \<and>
      aw_Source r = AutoSwitchSourceBackendFallback \<and>
      aw_SwitchedAt r + wrap64 (fb_MinDwellMinutes (ag_BackendFallback (cf_Agent ex_config)) * minute) \<le> 100 + 30 * minute \<and>
      (\<forall>u. breaker_of ex_switched (aw_FromKey r) = Open u \<longrightarrow> u \<le> 100 + 30 * minute)"
    by (simp add: ex_switched_def ex_defs AutoSwitchSourceBackendFallback_def breaker_of_def wrap64_def time_simps)
  with switch_back_at_reset_exact [OF wf en sw refl refl refl, of "100 + 30 * minute" "''ENG-1''"]
  show ?thesis by simp
qed

text \<open>
  Switches expire together with their overrides: an age limit clears exactly the switches
  that are at least that old, from all five maps at once; overrides without a switch time, which
  an operator set, are kept.
\<close>

theorem expired_switches_cleared:
  assumes "mwf (s_AutoSwitchedAt s)" "0 < ttl"
    and "old \<longleftrightarrow> (\<exists>since. mget (s_AutoSwitchedAt s) ident = Some since \<and> since + ttl \<le> now)"
  shows "let s' = fst (RevertExpiredAutoSwitches s ttl now) in
    mget (s_IssueProfiles s') ident = (if old then None else mget (s_IssueProfiles s) ident) \<and>
    mget (s_IssueBackends s') ident = (if old then None else mget (s_IssueBackends s) ident) \<and>
    mget (s_AutoSwitchedIdentifiers s') ident = (if old then None else mget (s_AutoSwitchedIdentifiers s) ident) \<and>
    mget (s_AutoSwitchedAt s') ident = (if old then None else mget (s_AutoSwitchedAt s) ident) \<and>
    mget (s_AutoSwitchInfo s') ident = (if old then None else mget (s_AutoSwitchInfo s) ident)"
proof -
  let ?ids = "map fst (filter (\<lambda>(k, since). \<not> now - ttl < since) (s_AutoSwitchedAt s))"
  have s': "fst (RevertExpiredAutoSwitches s ttl now) = clear_switches s ?ids"
    using assms(2) by (simp add: RevertExpiredAutoSwitches_def Let_def clear_switches_def)
  have "ident \<in> set ?ids \<longleftrightarrow> old"
    using in_filtered_keys [OF assms(1), of ident "\<lambda>k since. \<not> now - ttl < since"] assms(3)
    by (auto simp: not_less le_diff_eq)
  then show ?thesis unfolding s' Let_def by (simp add: clear_switches_get)
qed

theorem expired_switches_cleared_witness:
  "mget (s_IssueBackends (fst (RevertExpiredAutoSwitches
    (ex_switched\<lparr>s_AutoSwitchedAt := [(''ENG-1'', 100)]\<rparr>) 50 150))) ''ENG-1'' = None"
  using expired_switches_cleared [of "ex_switched\<lparr>s_AutoSwitchedAt := [(''ENG-1'', 100)]\<rparr>" 50 True "''ENG-1''" 150]
  by (simp add: mwf_def mkeys_def Let_def)

end
