(* ===== verification/Backend_Command.thy ===== *)
theory Backend_Command
  imports Domain_Types
begin

text \<open>
  Which backend a command runs on: the token parser of
  \<open>internal/config/backend_command.go\<close>, the backend hint of \<open>internal/agent/multi.go\<close> and the
  dispatch resolver of \<open>internal/orchestrator/dispatch_resolve.go\<close>. Letters and digits are the
  ASCII ones; \<open>%q\<close> is rendered by putting a string between double quotes.
\<close>

section \<open>Commands\<close>

definition BackendHintPrefix :: string where
  "BackendHintPrefix = ''@@itervox-backend=''"

definition IsSupportedBackend :: "string \<Rightarrow> bool" where
  "IsSupportedBackend backend = (backend = ''claude'' \<or> backend = ''codex'')"

definition is_blank :: "char \<Rightarrow> bool" where
  "is_blank c = (c = CHR '' '' \<or> c = CHR 0x09)"

text \<open>\<open>filepath.Base\<close> on Unix paths.\<close>

definition path_base :: "string \<Rightarrow> string" where
  "path_base p =
     (if p = [] then ''.''
      else let q = rev (dropWhile (\<lambda>c. c = CHR ''/'') (rev p))
      in if q = [] then ''/'' else rev (takeWhile (\<lambda>c. c \<noteq> CHR ''/'') (rev q)))"

definition letter_or_underscore :: "char \<Rightarrow> bool" where
  "letter_or_underscore c = (let n = (of_char c :: nat) in
     n = 95 \<or> (65 \<le> n \<and> n \<le> 90) \<or> (97 \<le> n \<and> n \<le> 122))"

definition IsEnvAssignment :: "string \<Rightarrow> bool" where
  "IsEnvAssignment token =
     (case cut_char (CHR ''='') token of (key, rest, ok) \<Rightarrow>
        if \<not> ok then False
        else case key of
          [] \<Rightarrow> False
        | c # cs \<Rightarrow> letter_or_underscore c \<and> list_all (\<lambda>r. letter_or_underscore r \<or> is_digit r) cs)"

fun env_program :: "string list \<Rightarrow> string" where
  "env_program [] = []"
| "env_program (token # rest) =
     (if token = [] then env_program rest
      else if IsEnvAssignment token \<or> has_prefix token ''-'' then env_program rest
      else token)"

fun first_token :: "string list \<Rightarrow> string" where
  "first_token [] = []"
| "first_token (token # rest) =
     (if token = [] then first_token rest
      else if IsEnvAssignment token then first_token rest
      else if path_base token = ''env'' then env_program rest
      else token)"

definition FirstCommandToken :: "string \<Rightarrow> string" where
  "FirstCommandToken command = first_token (str_fields command)"

definition ParseBackendHint :: "string \<Rightarrow> string \<times> string" where
  "ParseBackendHint command =
     (let trimmed = trim_space command
      in if \<not> has_prefix trimmed BackendHintPrefix then ([], command)
         else let rest = drop (length BackendHintPrefix) trimmed
         in if rest = [] then ([], command)
            else if list_all (\<lambda>c. \<not> is_blank c) rest then (rest, [])
            else (takeWhile (\<lambda>c. \<not> is_blank c) rest,
                  dropWhile is_blank (dropWhile (\<lambda>c. \<not> is_blank c) rest)))"

definition SplitBackendFromCommand :: "string \<Rightarrow> string \<times> string" where
  "SplitBackendFromCommand command =
     (case ParseBackendHint command of (hinted, rest) \<Rightarrow>
        if hinted \<noteq> [] then (hinted, rest)
        else let first = FirstCommandToken command
        in if first = [] then ([], command)
           else if IsSupportedBackend (path_base first) then (path_base first, command)
           else ([], command))"

definition BackendFromCommand :: "string \<Rightarrow> string" where
  "BackendFromCommand command = fst (SplitBackendFromCommand command)"

definition CommandWithBackendHint :: "string \<Rightarrow> string \<Rightarrow> string" where
  "CommandWithBackendHint command backend =
     (if backend = [] then command
      else if BackendFromCommand command = backend then command
      else case ParseBackendHint command of (current, cleaned) \<Rightarrow>
        if current = backend then command
        else BackendHintPrefix @ backend @ '' '' @ (if current \<noteq> [] then cleaned else command))"

definition ProfileRunsBackend :: "agent_profile \<Rightarrow> string \<Rightarrow> string" where
  "ProfileRunsBackend profile defaultCommand =
     (let command = (if trim_space (pr_Command profile) = [] then defaultCommand else pr_Command profile);
          bin = BackendFromCommand command
      in if bin \<noteq> [] then bin
         else if IsSupportedBackend (pr_Backend profile) then pr_Backend profile
         else [])"

definition commandBinaryBackend :: "string \<Rightarrow> string" where
  "commandBinaryBackend command =
     (let command = (case ParseBackendHint command of (hinted, rest) \<Rightarrow> if hinted \<noteq> [] then rest else command);
          first = FirstCommandToken command
      in if first = [] then []
         else if IsSupportedBackend (path_base first) then path_base first
         else [])"

definition stripBackendHint :: "string \<Rightarrow> string" where
  "stripBackendHint command =
     (case ParseBackendHint command of (hinted, rest) \<Rightarrow> if hinted \<noteq> [] then rest else command)"

section \<open>The resolver\<close>

record dispatch_input =
  di_DefaultCommand :: string
  di_DefaultBackend :: string
  di_Profile :: "agent_profile option"
  di_IssueBackend :: string
  di_RecoveryBackend :: string

record dispatch_target =
  dt_Command :: string
  dt_RunnerCommand :: string
  dt_Backend :: string
  dt_Reason :: string

definition go_quote :: "string \<Rightarrow> string" where
  "go_quote s = CHR 0x22 # s @ [CHR 0x22]"

definition request_backend :: "string \<Rightarrow> string \<Rightarrow> dispatch_target \<Rightarrow> dispatch_target" where
  "request_backend backend source t =
     (if backend = [] then t
      else let bin = commandBinaryBackend (dt_Command t)
      in if bin \<noteq> [] \<and> bin \<noteq> backend
         then t\<lparr>dt_Reason := source @ '' requested backend '' @ go_quote backend @
                  '' but the command runs '' @ go_quote bin @ ''; kept '' @ go_quote bin,
                dt_Backend := bin, dt_RunnerCommand := stripBackendHint (dt_Command t)\<rparr>
         else t\<lparr>dt_Backend := backend,
                dt_RunnerCommand := CommandWithBackendHint (dt_Command t) backend\<rparr>)"

definition use_profile :: "agent_profile \<Rightarrow> dispatch_target \<Rightarrow> dispatch_target" where
  "use_profile p t =
     request_backend (pr_Backend p) ''profile backend''
       (if pr_Command p \<noteq> []
        then t\<lparr>dt_Command := pr_Command p, dt_RunnerCommand := pr_Command p,
               dt_Backend := BackendFromCommand (pr_Command p), dt_Reason := []\<rparr>
        else t)"

definition resolveDispatchTarget :: "dispatch_input \<Rightarrow> dispatch_target" where
  "resolveDispatchTarget inp =
     (let t = \<lparr>dt_Command = di_DefaultCommand inp, dt_RunnerCommand = di_DefaultCommand inp,
               dt_Backend = BackendFromCommand (di_DefaultCommand inp), dt_Reason = []\<rparr>;
          t = request_backend (di_DefaultBackend inp) ''agent.backend'' t;
          t = (case di_Profile inp of None \<Rightarrow> t | Some p \<Rightarrow> use_profile p t);
          t = request_backend (di_IssueBackend inp) ''per-issue backend'' t
      in request_backend (di_RecoveryBackend inp) ''rate_limited switch_to_backend'' t)"

definition resolveResumeTarget ::
  "string \<Rightarrow> string \<Rightarrow> string \<Rightarrow> string \<Rightarrow> dispatch_target" where
  "resolveResumeTarget storedCommand storedBackend profileCommand defaultCommand =
     (let cmd = (if storedCommand \<noteq> [] then storedCommand
                 else if profileCommand \<noteq> [] then profileCommand
                 else if storedBackend \<noteq> [] \<and> storedBackend \<noteq> ''claude'' then storedBackend
                 else defaultCommand)
      in if storedBackend = []
         then \<lparr>dt_Command = cmd, dt_RunnerCommand = cmd, dt_Backend = BackendFromCommand cmd, dt_Reason = []\<rparr>
         else let bin = commandBinaryBackend cmd;
                  refused = (bin \<noteq> [] \<and> bin \<noteq> storedBackend \<and> IsSupportedBackend storedBackend);
                  command = (if refused then storedBackend else stripBackendHint cmd)
              in \<lparr>dt_Command = command, dt_RunnerCommand = CommandWithBackendHint command storedBackend,
                  dt_Backend = storedBackend,
                  dt_Reason = (if refused
                    then ''stored '' @ storedBackend @ '' session cannot resume with a '' @ go_quote bin @
                      '' command; using the '' @ go_quote storedBackend @ '' binary'' else [])\<rparr>)"

text \<open>\<open>resumeBackendMatches\<close> of \<open>event_loop.go\<close>.\<close>

definition resumeBackendMatches :: "string \<Rightarrow> string \<Rightarrow> bool" where
  "resumeBackendMatches stored resolved =
     (if stored = ''claude'' \<or> stored = ''codex'' then stored = resolved else False)"

section \<open>Lemmas\<close>

lemma dropWhile_all: "(\<And>x. x \<in> set xs \<Longrightarrow> \<not> P x) \<Longrightarrow> dropWhile P xs = xs"
  by (cases xs) auto

lemma supported_chars:
  "IsSupportedBackend b \<Longrightarrow> b \<noteq> [] \<and> list_all (\<lambda>c. \<not> is_blank c \<and> \<not> is_space c) b"
  by (auto simp: IsSupportedBackend_def is_blank_def is_space_def)

lemma prefix_chars: "list_all (\<lambda>c. \<not> is_space c) BackendHintPrefix" "BackendHintPrefix \<noteq> []"
  by (simp_all add: BackendHintPrefix_def is_space_def)

lemma trim_space_front:
  assumes "list_all (\<lambda>c. \<not> is_space c) a" "a \<noteq> []"
  shows "trim_space (a @ w) = a @ rev (dropWhile is_space (rev w))"
proof -
  have "\<not> is_space (hd a)" using assms by (cases a) auto
  then have "dropWhile is_space (a @ w) = a @ w" using assms(2) by (cases a) auto
  moreover have "dropWhile is_space (rev w @ rev a) = dropWhile is_space (rev w) @ rev a"
  proof (cases "\<forall>x \<in> set (rev w). is_space x")
    case True
    have "dropWhile is_space (rev a) = rev a"
      using assms by (intro dropWhile_all) (auto simp: list_all_iff)
    with True show ?thesis by (simp add: dropWhile_append)
  next
    case False
    then show ?thesis by (auto simp: dropWhile_append1)
  qed
  ultimately show ?thesis by (simp add: trim_space_def)
qed

lemma takeWhile_before:
  "list_all (\<lambda>c. \<not> is_blank c) b \<Longrightarrow> is_blank c \<Longrightarrow> takeWhile (\<lambda>c. \<not> is_blank c) (b @ c # w) = b"
  by (induction b) auto

lemma ParseBackendHint_hinted:
  assumes "IsSupportedBackend b"
  shows "fst (ParseBackendHint (BackendHintPrefix @ b @ '' '' @ cmd)) = b"
proof -
  note b = supported_chars [OF assms]
  have ns: "list_all (\<lambda>c. \<not> is_space c) (BackendHintPrefix @ b)" and nb: "list_all (\<lambda>c. \<not> is_blank c) b"
    using b prefix_chars by (auto simp: list_all_iff)
  define w where "w = rev (dropWhile is_space (rev ('' '' @ cmd)))"
  have tr: "trim_space (BackendHintPrefix @ b @ '' '' @ cmd) = BackendHintPrefix @ b @ w"
    using trim_space_front [OF ns, of "'' '' @ cmd"] prefix_chars by (simp add: w_def)
  have "w = [] \<or> (\<exists>v. w = CHR '' '' # v)"
  proof (cases "\<forall>x \<in> set cmd. is_space x")
    case True
    then have "dropWhile is_space (rev cmd @ '' '') = []"
      by (simp add: dropWhile_eq_Nil_conv is_space_def)
    then show ?thesis by (simp add: w_def)
  next
    case False
    then have "dropWhile is_space (rev cmd @ '' '') = dropWhile is_space (rev cmd) @ '' ''"
      by (auto simp: dropWhile_append1)
    then show ?thesis by (simp add: w_def)
  qed
  then show ?thesis
  proof
    assume "w = []"
    with b nb tr show ?thesis by (simp add: ParseBackendHint_def Let_def)
  next
    assume "\<exists>v. w = CHR '' '' # v"
    then obtain v where v: "w = CHR '' '' # v" by blast
    have "is_blank (CHR '' '')" by (simp add: is_blank_def)
    with b nb tr v show ?thesis
      by (auto simp: ParseBackendHint_def Let_def takeWhile_before list_all_iff)
  qed
qed

text \<open>The runner selects the backend the hint names.\<close>

lemma hint_selects_backend:
  assumes "IsSupportedBackend b"
  shows "BackendFromCommand (CommandWithBackendHint cmd b) = b"
proof -
  have ne: "b \<noteq> []" using supported_chars [OF assms] by simp
  have hinted: "BackendFromCommand (BackendHintPrefix @ b @ '' '' @ c) = b" for c
    using ParseBackendHint_hinted [OF assms, of c] ne
    by (auto simp: BackendFromCommand_def SplitBackendFromCommand_def split: prod.split)
  show ?thesis
  proof (cases "BackendFromCommand cmd = b")
    case True
    then show ?thesis using ne by (simp add: CommandWithBackendHint_def)
  next
    case False
    then have "fst (ParseBackendHint cmd) \<noteq> b"
      using ne by (auto simp: BackendFromCommand_def SplitBackendFromCommand_def split: prod.splits)
    with False ne hinted show ?thesis
      by (auto simp: CommandWithBackendHint_def split: prod.split)
  qed
qed

definition unhinted :: "string \<Rightarrow> bool" where
  "unhinted command \<longleftrightarrow> fst (ParseBackendHint command) = []"

lemma unhinted_parse: "unhinted c \<Longrightarrow> \<exists>r. ParseBackendHint c = ([], r)"
  by (cases "ParseBackendHint c") (simp add: unhinted_def)

lemma unhinted_strip: "unhinted c \<Longrightarrow> stripBackendHint c = c"
  by (auto simp: stripBackendHint_def dest!: unhinted_parse)

lemma unhinted_backend: "unhinted c \<Longrightarrow> BackendFromCommand c = commandBinaryBackend c"
  by (auto simp: BackendFromCommand_def SplitBackendFromCommand_def commandBinaryBackend_def Let_def
      dest!: unhinted_parse)

lemma commandBinaryBackend_supported: "commandBinaryBackend c = [] \<or> IsSupportedBackend (commandBinaryBackend c)"
  by (simp add: commandBinaryBackend_def Let_def)

text \<open>
  What every stage of the resolver keeps: the runner picks the announced backend, and a
  recognisable binary is never announced as the other backend.
\<close>

definition coherent :: "dispatch_target \<Rightarrow> bool" where
  "coherent t \<longleftrightarrow> unhinted (dt_Command t) \<and> BackendFromCommand (dt_RunnerCommand t) = dt_Backend t \<and>
     (commandBinaryBackend (dt_Command t) \<noteq> [] \<longrightarrow> dt_Backend t = commandBinaryBackend (dt_Command t))"

lemma coherent_initial:
  "unhinted c \<Longrightarrow> coherent \<lparr>dt_Command = c, dt_RunnerCommand = c, dt_Backend = BackendFromCommand c, dt_Reason = r\<rparr>"
  by (simp add: coherent_def unhinted_backend)

lemma coherent_request:
  assumes "coherent t" "b = [] \<or> IsSupportedBackend b"
  shows "coherent (request_backend b src t)"
proof (cases "b = []")
  case True
  then show ?thesis using assms by (simp add: request_backend_def)
next
  case False
  have u: "unhinted (dt_Command t)" using assms(1) by (simp add: coherent_def)
  then have "stripBackendHint (dt_Command t) = dt_Command t" by (rule unhinted_strip)
  then show ?thesis
    using False assms(2) u hint_selects_backend [of b "dt_Command t"]
    by (auto simp: coherent_def request_backend_def Let_def unhinted_backend)
qed

lemma coherent_profile:
  assumes "coherent t" "unhinted (pr_Command p)" "pr_Backend p = [] \<or> IsSupportedBackend (pr_Backend p)"
  shows "coherent (use_profile p t)"
proof -
  have "coherent (t\<lparr>dt_Command := pr_Command p, dt_RunnerCommand := pr_Command p,
      dt_Backend := BackendFromCommand (pr_Command p), dt_Reason := []\<rparr>)"
    using assms(2) by (simp add: coherent_def unhinted_backend)
  then show ?thesis using assms(1,3) by (simp add: use_profile_def coherent_request)
qed

section \<open>Properties\<close>

text \<open>
  The resolver never builds a mismatched pair: when the configured commands carry no hint of
  their own and every requested backend is empty or a supported one, the runner command it emits
  makes the runner select exactly the backend it announces, and when the command's binary is
  recognisable that backend is the binary's own. A refused request leaves the command unchanged
  and gives a reason.
\<close>

theorem resolver_never_mismatches:
  assumes "unhinted (di_DefaultCommand inp)"
    and "\<forall>p. di_Profile inp = Some p \<longrightarrow>
      unhinted (pr_Command p) \<and> (pr_Backend p = [] \<or> IsSupportedBackend (pr_Backend p))"
    and "\<forall>b \<in> {di_DefaultBackend inp, di_IssueBackend inp, di_RecoveryBackend inp}. b = [] \<or> IsSupportedBackend b"
  shows "let t = resolveDispatchTarget inp in
    BackendFromCommand (dt_RunnerCommand t) = dt_Backend t \<and>
    (commandBinaryBackend (dt_Command t) \<noteq> [] \<longrightarrow> dt_Backend t = commandBinaryBackend (dt_Command t)) \<and>
    (di_RecoveryBackend inp \<noteq> [] \<and> dt_Backend t \<noteq> di_RecoveryBackend inp \<longrightarrow>
      dt_Reason t \<noteq> [] \<and> dt_RunnerCommand t = dt_Command t)"
proof -
  let ?t1 = "request_backend (di_DefaultBackend inp) ''agent.backend''
    \<lparr>dt_Command = di_DefaultCommand inp, dt_RunnerCommand = di_DefaultCommand inp,
     dt_Backend = BackendFromCommand (di_DefaultCommand inp), dt_Reason = []\<rparr>"
  let ?t2 = "case di_Profile inp of None \<Rightarrow> ?t1 | Some p \<Rightarrow> use_profile p ?t1"
  let ?t3 = "request_backend (di_IssueBackend inp) ''per-issue backend'' ?t2"
  have "coherent ?t1" using assms(1,3) by (simp add: coherent_request coherent_initial)
  then have "coherent ?t2" using assms(2) by (auto simp: coherent_profile split: option.split)
  then have c3: "coherent ?t3" using assms(3) by (simp add: coherent_request)
  have res: "resolveDispatchTarget inp = request_backend (di_RecoveryBackend inp) ''rate_limited switch_to_backend'' ?t3"
    by (simp add: resolveDispatchTarget_def Let_def)
  then have "coherent (resolveDispatchTarget inp)" using c3 assms(3) by (simp add: coherent_request)
  moreover have "di_RecoveryBackend inp \<noteq> [] \<and> dt_Backend (resolveDispatchTarget inp) \<noteq> di_RecoveryBackend inp \<longrightarrow>
      dt_Reason (resolveDispatchTarget inp) \<noteq> [] \<and>
      dt_RunnerCommand (resolveDispatchTarget inp) = dt_Command (resolveDispatchTarget inp)"
    using c3 unfolding res request_backend_def [of "di_RecoveryBackend inp"]
    by (auto simp: Let_def go_quote_def coherent_def unhinted_strip)
  ultimately show ?thesis by (simp add: coherent_def Let_def)
qed

theorem resolver_never_mismatches_witness:
  "dt_Backend (resolveDispatchTarget \<lparr>di_DefaultCommand = ''env A=1 /usr/bin/claude -p'', di_DefaultBackend = [],
      di_Profile = None, di_IssueBackend = ''codex'', di_RecoveryBackend = []\<rparr>) = ''claude''"
proof -
  let ?inp = "\<lparr>di_DefaultCommand = ''env A=1 /usr/bin/claude -p'', di_DefaultBackend = [],
      di_Profile = None, di_IssueBackend = ''codex'', di_RecoveryBackend = []\<rparr> :: dispatch_input"
  have u: "unhinted (di_DefaultCommand ?inp)" unfolding unhinted_def by code_simp
  have s: "\<forall>b \<in> {di_DefaultBackend ?inp, di_IssueBackend ?inp, di_RecoveryBackend ?inp}. b = [] \<or> IsSupportedBackend b"
    by (simp add: IsSupportedBackend_def)
  have bin: "commandBinaryBackend (dt_Command (resolveDispatchTarget ?inp)) = ''claude''" by code_simp
  show ?thesis using resolver_never_mismatches [OF u _ s] bin by (simp add: Let_def)
qed

text \<open>
  A stored session resumes on the backend that created it: for a supported stored backend
  the resume command makes the runner select that backend, whatever was stored as command or is
  configured now.
\<close>

theorem resume_keeps_backend:
  assumes "IsSupportedBackend storedBackend"
  shows "let t = resolveResumeTarget storedCommand storedBackend profileCommand defaultCommand in
    dt_Backend t = storedBackend \<and> BackendFromCommand (dt_RunnerCommand t) = storedBackend \<and>
    resumeBackendMatches storedBackend (BackendFromCommand (dt_RunnerCommand t))"
  using assms hint_selects_backend [OF assms] supported_chars [OF assms]
  by (auto simp: resolveResumeTarget_def Let_def resumeBackendMatches_def IsSupportedBackend_def)

theorem resume_keeps_backend_witness:
  "BackendFromCommand (dt_RunnerCommand (resolveResumeTarget ''claude --resume'' ''codex'' [] ''claude'')) = ''codex''"
  using resume_keeps_backend [of "''codex''" "''claude --resume''" "[]" "''claude''"]
  by (simp add: IsSupportedBackend_def Let_def)

end
