(* ===== verification/Backend_Gate.thy ===== *)
theory Backend_Gate
  imports Rate_Switch Backend_Command
begin

text \<open>
  The dispatch gate and the declarative backend fallback
  (\<open>internal/orchestrator/backend_gate.go\<close>): a resolved target passes the circuit breaker of
  its backend on some host, is rerouted along the fallback chain, or the issue is held.
\<close>

section \<open>Requests and results\<close>

text \<open>
  \<open>rerouteAllowed\<close> is nil (\<open>None\<close>) for per-run reroutes, otherwise the closure that consults,
  and may prune, the switch history.
\<close>

record gate_request =
  gr_identifier :: string
  gr_in :: dispatch_input
  gr_profileName :: string
  gr_host :: string
  gr_hosts :: "string list"
  gr_allowReroute :: bool
  gr_rerouteAllowed :: "(state \<Rightarrow> state \<times> bool) option"

record gate_result =
  gt_target :: dispatch_target
  gt_profileName :: string
  gt_host :: string
  gt_rerouted :: bool
  gt_fromBackend :: string
  gt_fromProfile :: string
  gt_fromKey :: string
  gt_held :: bool
  gt_hold :: backend_hold

definition hostCandidates :: "string \<Rightarrow> string list \<Rightarrow> string list" where
  "hostCandidates host hosts = host # filter (\<lambda>h. h \<noteq> host) hosts"

section \<open>Fallback targets\<close>

definition profileKeyToName :: "config \<Rightarrow> string \<Rightarrow> string" where
  "profileKeyToName cfg key =
     (if key \<noteq> BackendFallbackDefaultProfileKey then key
      else if mhas (ag_Profiles (cf_Agent cfg)) key then key else [])"

definition profileKeyBackend :: "config \<Rightarrow> string \<Rightarrow> string \<Rightarrow> string" where
  "profileKeyBackend cfg key defaultCommand =
     (case mget (ag_Profiles (cf_Agent cfg)) key of
        None \<Rightarrow> if key = BackendFallbackDefaultProfileKey then BackendFromCommand defaultCommand else []
      | Some profile \<Rightarrow> ProfileRunsBackend profile defaultCommand)"

fun source_rows ::
  "config \<Rightarrow> string \<Rightarrow> string \<Rightarrow> string \<Rightarrow> (string \<times> (string, string) gomap) list \<Rightarrow> string option" where
  "source_rows cfg profile b defaultCommand [] = None"
| "source_rows cfg profile b defaultCommand ((src, row) # rest) =
     (if \<not> list_ex (\<lambda>(backend, target). target \<noteq> [] \<and> target = profile) row
      then source_rows cfg profile b defaultCommand rest
      else if profileKeyBackend cfg src defaultCommand = b then Some (profileKeyToName cfg src)
      else let name = mget_or row b []
      in if name \<noteq> [] \<and> name \<noteq> profile then Some (profileKeyToName cfg name)
         else source_rows cfg profile b defaultCommand rest)"

definition fallbackProfileFor :: "config \<Rightarrow> string \<Rightarrow> string \<Rightarrow> string \<Rightarrow> string option" where
  "fallbackProfileFor cfg profile b defaultCommand =
     (let fb = ag_BackendFallback (cf_Agent cfg);
          name = Lookup fb profile b
      in if name \<noteq> [] then Some (profileKeyToName cfg name)
         else source_rows cfg profile b defaultCommand
                (sort_key fst (fb_ProfileMap fb)))"

definition fallbackTarget ::
  "config \<Rightarrow> gate_request \<Rightarrow> string \<Rightarrow> (dispatch_target \<times> string) option" where
  "fallbackTarget cfg req b =
     (let fb = ag_BackendFallback (cf_Agent cfg)
      in case fallbackProfileFor cfg (gr_profileName req) b (di_DefaultCommand (gr_in req)) of
           Some name \<Rightarrow>
             let inp = \<lparr>di_DefaultCommand = di_DefaultCommand (gr_in req),
                   di_DefaultBackend = di_DefaultBackend (gr_in req), di_Profile = None,
                   di_IssueBackend = [], di_RecoveryBackend = []\<rparr>;
                 finish = (\<lambda>inp. let alt = resolveDispatchTarget inp
                   in if dt_Backend alt \<noteq> b then None else Some (alt, name))
             in if name = [] then finish inp
                else (case mget (ag_Profiles (cf_Agent cfg)) name of
                   None \<Rightarrow> None
                 | Some profile \<Rightarrow>
                     if \<not> ProfileEnabled profile then None else finish (inp\<lparr>di_Profile := Some profile\<rparr>))
         | None \<Rightarrow>
             if fb_OnUnmapped fb = BackendFallbackUnmappedBackendHint
             then let alt = resolveDispatchTarget ((gr_in req)\<lparr>di_IssueBackend := b, di_RecoveryBackend := []\<rparr>)
                  in if dt_Backend alt \<noteq> b \<or> dt_Reason alt \<noteq> [] then None else Some (alt, gr_profileName req)
             else None)"

definition backendFallbackCovers :: "config \<Rightarrow> string \<Rightarrow> string \<Rightarrow> string \<Rightarrow> bool" where
  "backendFallbackCovers cfg pin profile backend =
     (let fb = ag_BackendFallback (cf_Agent cfg)
      in if \<not> fb_Enabled fb \<or> pin \<noteq> [] then False
         else if fb_OnUnmapped fb = BackendFallbackUnmappedBackendHint then True
         else list_ex (\<lambda>b. b \<noteq> backend \<and>
           fallbackProfileFor cfg profile b (ag_Command (cf_Agent cfg)) \<noteq> None) (fb_Chain fb))"

section \<open>The gate\<close>

text \<open>The hold a refusal leaves: the first refused key, or the one that frees earliest.\<close>

definition consider_hold :: "state \<Rightarrow> string \<Rightarrow> time \<Rightarrow> string \<Rightarrow> backend_hold \<Rightarrow> backend_hold" where
  "consider_hold s identifier now key hold =
     (let until = snd (backendKeyBlocked s key identifier now)
      in if hd_Key hold = [] \<or> until < hd_Until hold then \<lparr>hd_Key = key, hd_Until = until\<rparr> else hold)"

fun admit_hosts ::
  "string \<Rightarrow> time \<Rightarrow> string \<Rightarrow> string list \<Rightarrow> state \<Rightarrow> backend_hold \<Rightarrow> state \<times> backend_hold \<times> string option" where
  "admit_hosts identifier now backend [] s hold = (s, hold, None)"
| "admit_hosts identifier now backend (h # hs) s hold =
     (let key = BackendHealthKey backend h
      in case admitBackendKey s key identifier now of
           (s', True) \<Rightarrow> (s', hold, Some h)
         | (s', False) \<Rightarrow> admit_hosts identifier now backend hs s' (consider_hold s' identifier now key hold))"

text \<open>
  The walk along the chain; \<open>allowed\<close> is \<open>None\<close> until the switch cap has been asked. The result
  carries the rerouted target when one was admitted.
\<close>

fun try_chain ::
  "config \<Rightarrow> gate_request \<Rightarrow> time \<Rightarrow> string \<Rightarrow> string list \<Rightarrow> bool option \<Rightarrow> state \<Rightarrow> backend_hold \<Rightarrow>
    state \<times> backend_hold \<times> (dispatch_target \<times> string \<times> string) option" where
  "try_chain cfg req now from [] allowed s hold = (s, hold, None)"
| "try_chain cfg req now from (b # bs) allowed s hold =
     (if b = from then try_chain cfg req now from bs allowed s hold
      else case fallbackTarget cfg req b of
        None \<Rightarrow> try_chain cfg req now from bs allowed s hold
      | Some (alt, altProfile) \<Rightarrow>
          (let (s, ok) = (case allowed of
                 Some a \<Rightarrow> (s, a)
               | None \<Rightarrow> (case gr_rerouteAllowed req of None \<Rightarrow> (s, True) | Some f \<Rightarrow> f s))
           in if \<not> ok then (s, hold, None)
              else case admit_hosts (gr_identifier req) now b (hostCandidates (gr_host req) (gr_hosts req)) s hold of
                (s', hold', Some h) \<Rightarrow> (s', hold', Some (alt, altProfile, h))
              | (s', hold', None) \<Rightarrow> try_chain cfg req now from bs (Some True) s' hold'))"

definition gateDispatch :: "config \<Rightarrow> state \<Rightarrow> gate_request \<Rightarrow> time \<Rightarrow> state \<times> gate_result" where
  "gateDispatch cfg s req now =
     (let t = resolveDispatchTarget (gr_in req);
          nohold = \<lparr>hd_Key = [], hd_Until = 0\<rparr>;
          ident = gr_identifier req;
          res = \<lparr>gt_target = t, gt_profileName = gr_profileName req, gt_host = gr_host req,
            gt_rerouted = False, gt_fromBackend = [], gt_fromProfile = [], gt_fromKey = [],
            gt_held = False, gt_hold = nohold\<rparr>
      in case admit_hosts ident now (dt_Backend t) (hostCandidates (gr_host req) (gr_hosts req)) s nohold of
           (s1, hold, Some h) \<Rightarrow> (clearBackendHold s1 ident, res\<lparr>gt_host := h\<rparr>)
         | (s1, hold, None) \<Rightarrow>
             let fb = ag_BackendFallback (cf_Agent cfg);
                 (s2, hold, found) =
                   (if gr_allowReroute req \<and> fb_Enabled fb
                    then try_chain cfg req now (dt_Backend t) (fb_Chain fb) None s1 hold
                    else (s1, hold, None))
             in (case found of
                   Some (alt, altProfile, h) \<Rightarrow>
                     (clearBackendHold s2 ident,
                      res\<lparr>gt_target := alt, gt_profileName := altProfile, gt_host := h, gt_rerouted := True,
                        gt_fromBackend := dt_Backend t, gt_fromProfile := gr_profileName req,
                        gt_fromKey := BackendHealthKey (dt_Backend t) (gr_host req)\<rparr>)
                 | None \<Rightarrow> (setBackendHold s2 ident hold, res\<lparr>gt_held := True, gt_hold := hold\<rparr>)))"

text \<open>\<open>describe\<close> stands for the rendering of a time in the human-readable reason.\<close>

definition recordFallbackSwitch ::
  "(time \<Rightarrow> string) \<Rightarrow> state \<Rightarrow> issue \<Rightarrow> gate_result \<Rightarrow> time \<Rightarrow> state" where
  "recordFallbackSwitch describe s issue g now =
     (let ident = is_Identifier issue;
          profiles = (if gt_profileName g = [] then mdel (s_IssueProfiles s) ident
                      else mput (s_IssueProfiles s) ident (gt_profileName g));
          reason = ''backend_fallback: '' @ gt_fromKey g @ '' limited'' @
            (case mget (s_BackendHealth s) (gt_fromKey g) of
               None \<Rightarrow> []
             | Some e \<Rightarrow>
                 if isZero (bh_LimitedUntil e) then []
                 else '' until '' @ describe (bh_LimitedUntil e) @
                   (if bh_ResetKnown e then [] else '' (cooldown; reset unknown)''));
          s1 = s\<lparr>s_IssueProfiles := profiles,
                 s_IssueBackends := mput (s_IssueBackends s) ident (dt_Backend (gt_target g)),
                 s_AutoSwitchedIdentifiers := mput (s_AutoSwitchedIdentifiers s) ident (),
                 s_AutoSwitchedAt := mput (s_AutoSwitchedAt s) ident now,
                 s_AutoSwitchInfo := mput (s_AutoSwitchInfo s) ident
                   \<lparr>aw_Source = AutoSwitchSourceBackendFallback, aw_FromBackend = gt_fromBackend g,
                    aw_FromProfile = gt_fromProfile g, aw_ToBackend = dt_Backend (gt_target g),
                    aw_ToProfile = gt_profileName g, aw_Reason = reason, aw_FromKey = gt_fromKey g,
                    aw_SwitchedAt = now\<rparr>\<rparr>
      in recordRateLimitSwitch s1 (is_ID issue) now)"

definition CheckIssueBackendPin :: "config \<Rightarrow> state \<Rightarrow> string \<Rightarrow> string \<Rightarrow> string option" where
  "CheckIssueBackendPin cfg snap identifier backend =
     (if backend = [] then None
      else let profileName = mget_or (s_IssueProfiles snap) identifier [];
               profile = (case mget (ag_Profiles (cf_Agent cfg)) profileName of
                   None \<Rightarrow> None
                 | Some p \<Rightarrow> if profileName \<noteq> [] \<and> ProfileEnabled p then Some p else None);
               t = resolveDispatchTarget \<lparr>di_DefaultCommand = ag_Command (cf_Agent cfg),
                     di_DefaultBackend = ag_Backend (cf_Agent cfg), di_Profile = profile,
                     di_IssueBackend = backend, di_RecoveryBackend = []\<rparr>
           in if dt_Reason t \<noteq> [] then Some (''orchestrator: '' @ dt_Reason t) else None)"

text \<open>The configuration walk of \<open>pruneOrphanBreakers\<close>.\<close>

definition used_backends :: "config \<Rightarrow> string list" where
  "used_backends cfg =
     (let ag = cf_Agent cfg;
          dflt = \<lparr>pr_Command = ag_Command ag, pr_Backend = ag_Backend ag, pr_Enabled = None\<rparr>
      in map (\<lambda>p. ProfileRunsBackend p (ag_Command ag))
           (dflt # filter ProfileEnabled (map snd (ag_Profiles ag))))"

definition pruneOrphanBreakers :: "config \<Rightarrow> state \<Rightarrow> state \<times> bool" where
  "pruneOrphanBreakers cfg s =
     (if s_BackendHealth s = [] then (s, False)
      else let fb = ag_BackendFallback (cf_Agent cfg);
               used = filter (\<lambda>b. b \<noteq> []) (used_backends cfg) @ (if fb_Enabled fb then fb_Chain fb else []);
               anyBackend = list_ex (\<lambda>b. b = []) (used_backends cfg);
               kept = prune_breakers (ag_SSHHosts (cf_Agent cfg)) used anyBackend (s_BackendHealth s)
           in (s\<lparr>s_BackendHealth := kept\<rparr>, length kept < length (s_BackendHealth s)))"

section \<open>Lemmas\<close>

definition refuses :: "state \<Rightarrow> string \<Rightarrow> time \<Rightarrow> string \<Rightarrow> bool" where
  "refuses s ident now key \<longleftrightarrow> \<not> spec_admits (breaker_of s key) ident now"

lemma breaker_of_cong: "s_BackendHealth s = s_BackendHealth t \<Longrightarrow> breaker_of s key = breaker_of t key"
  by (simp add: breaker_of_def)

lemma refuses_cong: "s_BackendHealth s = s_BackendHealth t \<Longrightarrow> refuses s = refuses t"
  by (intro ext) (simp only: refuses_def breaker_of_cong [of s t])

lemma admit_refused:
  assumes "refuses s ident now key"
  shows "admitBackendKey s key ident now = (s, False)"
proof -
  have "\<not> snd (admitBackendKey s key ident now)" using assms by (simp add: admit_answer refuses_def)
  then have "fst (backendKeyBlocked s key ident now)"
    by (cases "fst (backendKeyBlocked s key ident now)")
      (simp_all add: admitBackendKey_def split: option.splits backend_status.splits)
  then show ?thesis by (simp add: admitBackendKey_def)
qed

lemma admit_granted:
  assumes "\<not> refuses s ident now key"
  obtains s' where "admitBackendKey s key ident now = (s', True)"
    "breaker_of s' key = spec_move (breaker_of s key) (MAdmit ident now)"
proof -
  have "snd (admitBackendKey s key ident now)" using assms by (simp add: admit_answer refuses_def)
  then have eq: "admitBackendKey s key ident now = (fst (admitBackendKey s key ident now), True)"
    by (intro prod_eqI) simp_all
  moreover have "breaker_of (fst (admitBackendKey s key ident now)) key = spec_move (breaker_of s key) (MAdmit ident now)"
    using admit_refines [of undefined s key ident now key] by simp
  ultimately show ?thesis by (rule that)
qed

lemma consider_hold_key: "hd_Key (consider_hold s ident now key hold) = key \<or>
    consider_hold s ident now key hold = hold \<and> hd_Key hold \<noteq> []"
  by (simp add: consider_hold_def Let_def)

lemma admit_hosts_cases:
  obtains (admitted) h s' hold' where "admit_hosts ident now backend hs s hold = (s', hold', Some h)"
      "h \<in> set hs" "\<not> refuses s ident now (BackendHealthKey backend h)"
      "breaker_of s' (BackendHealthKey backend h) =
        spec_move (breaker_of s (BackendHealthKey backend h)) (MAdmit ident now)"
  | (refused) hold' where "admit_hosts ident now backend hs s hold = (s, hold', None)"
      "\<And>h. h \<in> set hs \<Longrightarrow> refuses s ident now (BackendHealthKey backend h)"
      "hs \<noteq> [] \<or> refuses s ident now (hd_Key hold) \<Longrightarrow>
        hd_Key hold = [] \<or> refuses s ident now (hd_Key hold) \<Longrightarrow> refuses s ident now (hd_Key hold')"
proof (induction hs arbitrary: hold thesis)
  case Nil
  show ?case by (rule Nil(2)) simp_all
next
  case (Cons h hs)
  let ?key = "BackendHealthKey backend h"
  show ?case
  proof (cases "refuses s ident now ?key")
    case False
    then obtain s' where "admitBackendKey s ?key ident now = (s', True)"
      "breaker_of s' ?key = spec_move (breaker_of s ?key) (MAdmit ident now)" by (rule admit_granted)
    with False show ?thesis by (intro Cons.prems(1)) (simp_all add: Let_def)
  next
    case True
    let ?hold = "consider_hold s ident now ?key hold"
    have step: "admit_hosts ident now backend (h # hs) s hold = admit_hosts ident now backend hs s ?hold"
      by (simp add: admit_refused [OF True] Let_def)
    have ref: "hd_Key hold = [] \<or> refuses s ident now (hd_Key hold) \<Longrightarrow> refuses s ident now (hd_Key ?hold)"
      using consider_hold_key [of s ident now ?key hold] True by auto
    show ?thesis
    proof (rule Cons.IH [of ?hold])
      fix h' s' hold'
      assume "admit_hosts ident now backend hs s ?hold = (s', hold', Some h')" "h' \<in> set hs"
        "\<not> refuses s ident now (BackendHealthKey backend h')"
        "breaker_of s' (BackendHealthKey backend h') =
          spec_move (breaker_of s (BackendHealthKey backend h')) (MAdmit ident now)"
      then show ?thesis by (intro Cons.prems(1)) (simp_all add: step del: admit_hosts.simps)
    next
      fix hold'
      assume *: "admit_hosts ident now backend hs s ?hold = (s, hold', None)"
        "\<And>h. h \<in> set hs \<Longrightarrow> refuses s ident now (BackendHealthKey backend h)"
        "hs \<noteq> [] \<or> refuses s ident now (hd_Key ?hold) \<Longrightarrow>
          hd_Key ?hold = [] \<or> refuses s ident now (hd_Key ?hold) \<Longrightarrow> refuses s ident now (hd_Key hold')"
      show ?thesis
      proof (rule Cons.prems(2))
        show "admit_hosts ident now backend (h # hs) s hold = (s, hold', None)" using *(1) step by simp
        show "refuses s ident now (BackendHealthKey backend h')" if "h' \<in> set (h # hs)" for h'
          using that True *(2) by auto
        show "refuses s ident now (hd_Key hold')"
          if "hd_Key hold = [] \<or> refuses s ident now (hd_Key hold)"
          using *(3) ref [OF that] by blast
      qed
    qed
  qed
qed

lemma fallbackTarget_backend: "fallbackTarget cfg req b = Some (alt, p) \<Longrightarrow> dt_Backend alt = b"
  by (auto simp: fallbackTarget_def Let_def split: option.splits if_splits)

text \<open>The reroute closure may touch only what is not a breaker.\<close>

definition cap_only :: "gate_request \<Rightarrow> bool" where
  "cap_only req \<longleftrightarrow> (\<forall>f t. gr_rerouteAllowed req = Some f \<longrightarrow> s_BackendHealth (fst (f t)) = s_BackendHealth t)"

abbreviation req_hosts :: "gate_request \<Rightarrow> string list" where
  "req_hosts req \<equiv> hostCandidates (gr_host req) (gr_hosts req)"

text \<open>What a walk along the chain establishes, for a found and for a missing target.\<close>

definition chain_outcome ::
  "config \<Rightarrow> gate_request \<Rightarrow> time \<Rightarrow> string \<Rightarrow> string list \<Rightarrow> bool option \<Rightarrow> state \<Rightarrow>
    state \<times> backend_hold \<times> (dispatch_target \<times> string \<times> string) option \<Rightarrow> bool" where
  "chain_outcome cfg req now from bs allowed s res \<longleftrightarrow>
     (case res of
        (s', hold', Some (alt, altProfile, h)) \<Rightarrow>
          dt_Backend alt \<in> set bs \<and> dt_Backend alt \<noteq> from \<and> h \<in> set (req_hosts req) \<and>
          \<not> refuses s (gr_identifier req) now (BackendHealthKey (dt_Backend alt) h) \<and>
          breaker_of s' (BackendHealthKey (dt_Backend alt) h) =
            spec_move (breaker_of s (BackendHealthKey (dt_Backend alt) h)) (MAdmit (gr_identifier req) now)
      | (s', hold', None) \<Rightarrow>
          s_BackendHealth s' = s_BackendHealth s \<and> refuses s (gr_identifier req) now (hd_Key hold') \<and>
          ((case allowed of None \<Rightarrow> gr_rerouteAllowed req = None | Some a \<Rightarrow> a) \<longrightarrow>
           (\<forall>b \<in> set bs. b \<noteq> from \<and> fallbackTarget cfg req b \<noteq> None \<longrightarrow>
              (\<forall>h \<in> set (req_hosts req). refuses s (gr_identifier req) now (BackendHealthKey b h)))))"

lemma chain_outcome_cons:
  assumes "s_BackendHealth s1 = s_BackendHealth s" "chain_outcome cfg req now from bs allowed1 s1 res"
    and "b = from \<or> fallbackTarget cfg req b = None \<or>
      (\<forall>h \<in> set (req_hosts req). refuses s (gr_identifier req) now (BackendHealthKey b h))"
    and "(case allowed of None \<Rightarrow> gr_rerouteAllowed req = None | Some a \<Rightarrow> a) \<Longrightarrow>
      (case allowed1 of None \<Rightarrow> gr_rerouteAllowed req = None | Some a \<Rightarrow> a)"
  shows "chain_outcome cfg req now from (b # bs) allowed s res"
proof -
  have rc: "refuses s1 = refuses s" and bc: "\<And>k. breaker_of s1 k = breaker_of s k"
    using assms(1) by (rule refuses_cong, rule breaker_of_cong)
  obtain s' hold' found where res: "res = (s', hold', found)" by (cases res)
  show ?thesis
  proof (cases found)
    case None
    show ?thesis
      using assms(2-4) unfolding res None chain_outcome_def prod.case option.case rc assms(1) by auto
  next
    case (Some a)
    then show ?thesis using assms(2) by (cases a) (simp add: res chain_outcome_def rc bc)
  qed
qed

lemma try_chain_outcome:
  assumes "cap_only req" "refuses s (gr_identifier req) now (hd_Key hold)"
  shows "chain_outcome cfg req now from bs allowed s (try_chain cfg req now from bs allowed s hold)"
  using assms(2)
proof (induction bs arbitrary: s hold allowed)
  case Nil
  then show ?case by (simp add: chain_outcome_def)
next
  case (Cons b bs)
  let ?id = "gr_identifier req"
  show ?case
  proof (cases "b = from \<or> fallbackTarget cfg req b = None")
    case True
    then have "chain_outcome cfg req now from (b # bs) allowed s (try_chain cfg req now from bs allowed s hold)"
      by (intro chain_outcome_cons [OF refl Cons.IH [OF Cons.prems]]) auto
    with True show ?thesis by auto
  next
    case False
    then obtain alt p where fb: "b \<noteq> from" "fallbackTarget cfg req b = Some (alt, p)" by auto
    obtain s1 ok where ask: "(case allowed of Some a \<Rightarrow> (s, a)
        | None \<Rightarrow> (case gr_rerouteAllowed req of None \<Rightarrow> (s, True) | Some f \<Rightarrow> f s)) = (s1, ok)"
      by fastforce
    have bh: "s_BackendHealth s1 = s_BackendHealth s"
    proof (cases allowed)
      case None
      show ?thesis
      proof (cases "gr_rerouteAllowed req")
        case (Some f)
        then have "s_BackendHealth (fst (f s)) = s_BackendHealth s" using assms(1) by (simp add: cap_only_def)
        with ask None Some show ?thesis by simp
      qed (use ask None in simp)
    qed (use ask in simp)
    have step: "try_chain cfg req now from (b # bs) allowed s hold =
        (if \<not> ok then (s1, hold, None)
         else case admit_hosts ?id now b (req_hosts req) s1 hold of
           (s', hold', Some h) \<Rightarrow> (s', hold', Some (alt, p, h))
         | (s', hold', None) \<Rightarrow> try_chain cfg req now from bs (Some True) s' hold')"
      using fb ask by simp
    show ?thesis
    proof (cases ok)
      case False
      then have "\<not> (case allowed of None \<Rightarrow> gr_rerouteAllowed req = None | Some a \<Rightarrow> a)"
        using ask by (auto split: option.splits)
      with False Cons.prems bh step show ?thesis by (simp add: chain_outcome_def)
    next
      case True
      note rc = refuses_cong [OF bh] and bc = breaker_of_cong [OF bh]
      show ?thesis
      proof (rule admit_hosts_cases [of ?id now b "req_hosts req" s1 hold])
        fix h s' hold'
        assume "admit_hosts ?id now b (req_hosts req) s1 hold = (s', hold', Some h)" "h \<in> set (req_hosts req)"
          "\<not> refuses s1 ?id now (BackendHealthKey b h)"
          "breaker_of s' (BackendHealthKey b h) = spec_move (breaker_of s1 (BackendHealthKey b h)) (MAdmit ?id now)"
        then show ?thesis
          using True step fb fallbackTarget_backend [OF fb(2)] by (simp add: chain_outcome_def rc bc)
      next
        fix hold'
        assume *: "admit_hosts ?id now b (req_hosts req) s1 hold = (s1, hold', None)"
          "\<And>h. h \<in> set (req_hosts req) \<Longrightarrow> refuses s1 ?id now (BackendHealthKey b h)"
          "req_hosts req \<noteq> [] \<or> refuses s1 ?id now (hd_Key hold) \<Longrightarrow>
            hd_Key hold = [] \<or> refuses s1 ?id now (hd_Key hold) \<Longrightarrow> refuses s1 ?id now (hd_Key hold')"
        have "refuses s1 ?id now (hd_Key hold')" using *(3) Cons.prems rc by simp
        then have "chain_outcome cfg req now from bs (Some True) s1
            (try_chain cfg req now from bs (Some True) s1 hold')" by (rule Cons.IH)
        then have "chain_outcome cfg req now from (b # bs) allowed s
            (try_chain cfg req now from bs (Some True) s1 hold')"
          by (rule chain_outcome_cons [OF bh]) (use *(2) rc in auto)
        with True step *(1) show ?thesis by simp
      qed
    qed
  qed
qed

lemma hold_active_if_refused:
  assumes "refuses s ident now (hd_Key hold)" "mget (s_BackendLimitedHolds t) ident = Some hold"
    and "s_BackendHealth t = s_BackendHealth s"
  shows "backendHoldActive t ident"
  using assms by (auto simp: refuses_def backendHoldActive_def breaker_of_def reserve_def
      split: option.splits backend_status.splits if_splits)

lemma hold_simps [simp]:
  "mget (s_BackendLimitedHolds (setBackendHold s ident h)) ident = Some h"
  "mget (s_BackendLimitedHolds (clearBackendHold s ident)) ident = None"
  "s_BackendHealth (setBackendHold s ident h) = s_BackendHealth s"
  "s_BackendHealth (clearBackendHold s ident) = s_BackendHealth s"
  "breaker_of (clearBackendHold s ident) key = breaker_of s key"
  by (simp_all add: setBackendHold_def clearBackendHold_def breaker_of_def)

lemma hosts_nonempty [simp]: "req_hosts req \<noteq> []"
  by (simp add: hostCandidates_def)

lemma cap_only_switch_cap:
  "gr_rerouteAllowed req = Some (\<lambda>t. allowRateLimitSwitch cfg t issueID now) \<Longrightarrow> cap_only req"
  by (auto simp: cap_only_def allowRateLimitSwitch_def Let_def)

text \<open>The three outcomes of the gate.\<close>

lemma gate_cases:
  assumes "cap_only req" "gateDispatch cfg s req now = (s', g)"
  defines "ident \<equiv> gr_identifier req" and "natural \<equiv> dt_Backend (resolveDispatchTarget (gr_in req))"
    and "fb \<equiv> ag_BackendFallback (cf_Agent cfg)"
  obtains (admitted) s1 where "\<not> gt_held g" "\<not> gt_rerouted g" "dt_Backend (gt_target g) = natural"
      "gt_host g \<in> set (req_hosts req)" "\<not> refuses s ident now (BackendHealthKey natural (gt_host g))"
      "s' = clearBackendHold s1 ident"
      "breaker_of s1 (BackendHealthKey natural (gt_host g)) =
        spec_move (breaker_of s (BackendHealthKey natural (gt_host g))) (MAdmit ident now)"
  | (rerouted) s1 where "\<not> gt_held g" "gt_rerouted g" "gr_allowReroute req" "fb_Enabled fb"
      "dt_Backend (gt_target g) \<in> set (fb_Chain fb)" "dt_Backend (gt_target g) \<noteq> natural"
      "\<And>h. h \<in> set (req_hosts req) \<Longrightarrow> refuses s ident now (BackendHealthKey natural h)"
      "gt_host g \<in> set (req_hosts req)"
      "\<not> refuses s ident now (BackendHealthKey (dt_Backend (gt_target g)) (gt_host g))"
      "s' = clearBackendHold s1 ident"
      "breaker_of s1 (BackendHealthKey (dt_Backend (gt_target g)) (gt_host g)) =
        spec_move (breaker_of s (BackendHealthKey (dt_Backend (gt_target g)) (gt_host g))) (MAdmit ident now)"
  | (held) s1 where "gt_held g" "\<not> gt_rerouted g" "s' = setBackendHold s1 ident (gt_hold g)"
      "s_BackendHealth s1 = s_BackendHealth s" "refuses s ident now (hd_Key (gt_hold g))"
      "\<And>h. h \<in> set (req_hosts req) \<Longrightarrow> refuses s ident now (BackendHealthKey natural h)"
      "\<And>b h. gr_allowReroute req \<Longrightarrow> fb_Enabled fb \<Longrightarrow> gr_rerouteAllowed req = None \<Longrightarrow>
        b \<in> set (fb_Chain fb) \<Longrightarrow> b \<noteq> natural \<Longrightarrow> fallbackTarget cfg req b \<noteq> None \<Longrightarrow>
        h \<in> set (req_hosts req) \<Longrightarrow> refuses s ident now (BackendHealthKey b h)"
proof (rule admit_hosts_cases [of ident now natural "req_hosts req" s "\<lparr>hd_Key = [], hd_Until = 0\<rparr>"])
  fix h s1 hold'
  assume *: "admit_hosts ident now natural (req_hosts req) s \<lparr>hd_Key = [], hd_Until = 0\<rparr> = (s1, hold', Some h)"
    "h \<in> set (req_hosts req)" "\<not> refuses s ident now (BackendHealthKey natural h)"
    "breaker_of s1 (BackendHealthKey natural h) = spec_move (breaker_of s (BackendHealthKey natural h)) (MAdmit ident now)"
  have "s' = clearBackendHold s1 ident" "\<not> gt_held g" "\<not> gt_rerouted g" "dt_Backend (gt_target g) = natural" "gt_host g = h"
    using assms(2) *(1) by (auto simp: gateDispatch_def Let_def ident_def natural_def)
  with * show thesis by (intro admitted [of s1]) simp_all
next
  fix hold1
  assume *: "admit_hosts ident now natural (req_hosts req) s \<lparr>hd_Key = [], hd_Until = 0\<rparr> = (s, hold1, None)"
    "\<And>h. h \<in> set (req_hosts req) \<Longrightarrow> refuses s ident now (BackendHealthKey natural h)"
    and "req_hosts req \<noteq> [] \<or> refuses s ident now (hd_Key \<lparr>hd_Key = [], hd_Until = 0\<rparr>) \<Longrightarrow>
      hd_Key \<lparr>hd_Key = [], hd_Until = 0\<rparr> = [] \<or> refuses s ident now (hd_Key \<lparr>hd_Key = [], hd_Until = 0\<rparr>) \<Longrightarrow>
      refuses s ident now (hd_Key hold1)"
  then have h1: "refuses s ident now (hd_Key hold1)" by simp
  define chain where "chain = (if gr_allowReroute req \<and> fb_Enabled fb
    then try_chain cfg req now natural (fb_Chain fb) None s hold1 else (s, hold1, None))"
  obtain s2 hold2 found where c: "chain = (s2, hold2, found)" by (cases chain)
  have ch: "(if gr_allowReroute req \<and> fb_Enabled (ag_BackendFallback (cf_Agent cfg))
      then try_chain cfg req now (dt_Backend (resolveDispatchTarget (gr_in req)))
        (fb_Chain (ag_BackendFallback (cf_Agent cfg))) None s hold1
      else (s, hold1, None)) = (s2, hold2, found)"
    using c unfolding chain_def natural_def fb_def .
  note first = *(1) [unfolded ident_def natural_def]
  have out: "gr_allowReroute req \<and> fb_Enabled fb \<Longrightarrow>
      chain_outcome cfg req now natural (fb_Chain fb) None s (s2, hold2, found)"
    using try_chain_outcome [OF assms(1) h1 [unfolded ident_def], of cfg natural "fb_Chain fb" None] c chain_def
    by simp
  show thesis
  proof (cases found)
    case None
    have g: "s' = setBackendHold s2 ident hold2" "gt_held g" "\<not> gt_rerouted g" "gt_hold g = hold2"
      using assms(2) unfolding gateDispatch_def Let_def first prod.case option.case ch
      by (auto simp: None ident_def)
    show thesis
    proof (cases "gr_allowReroute req \<and> fb_Enabled fb")
      case True
      with out None have "chain_outcome cfg req now natural (fb_Chain fb) None s (s2, hold2, None)" by simp
      with g *(2) show thesis by (intro held [of s2]) (auto simp: chain_outcome_def ident_def)
    next
      case False
      then have "s2 = s" "hold2 = hold1" using c chain_def by auto
      with g *(2) h1 False show thesis by (intro held [of s2]) auto
    qed
  next
    case (Some a)
    obtain alt p h where a: "a = (alt, p, h)" by (cases a)
    have en: "gr_allowReroute req \<and> fb_Enabled fb" using c chain_def Some by (auto split: if_splits)
    have g: "s' = clearBackendHold s2 ident" "\<not> gt_held g" "gt_rerouted g" "gt_target g = alt" "gt_host g = h"
      using assms(2) unfolding gateDispatch_def Let_def first prod.case option.case ch
      by (auto simp: Some a ident_def)
    from out en Some a have "chain_outcome cfg req now natural (fb_Chain fb) None s (s2, hold2, Some (alt, p, h))" by simp
    with g en *(2) show thesis by (intro rerouted [of s2]) (auto simp: chain_outcome_def ident_def)
  qed
qed

section \<open>Properties\<close>

text \<open>
  C16. The gate starts a run only through a breaker that admits it. An admitted dispatch names a
  host of the request whose breaker for the chosen backend admits the issue now, that breaker is
  moved to reserve the probe when it was not closed, and the issue's hold is dropped. A held
  dispatch leaves every breaker alone and records an active hold, and then the natural backend
  is refused on every host and, with per-run rerouting, so is every fallback target. A reroute
  happens only when it is enabled and the natural backend is refused everywhere, and only onto
  another backend of the chain.
\<close>

theorem gate_admits_through_breaker_or_holds:
  assumes "cap_only req" "gateDispatch cfg s req now = (s', g)"
    and "natural = dt_Backend (resolveDispatchTarget (gr_in req))"
    and "key = BackendHealthKey (dt_Backend (gt_target g)) (gt_host g)"
    and "hosts = hostCandidates (gr_host req) (gr_hosts req)"
  shows "(\<not> gt_held g \<longrightarrow> gt_host g \<in> set hosts \<and> spec_admits (breaker_of s key) (gr_identifier req) now \<and>
      breaker_of s' key = spec_move (breaker_of s key) (MAdmit (gr_identifier req) now) \<and>
      mget (s_BackendLimitedHolds s') (gr_identifier req) = None) \<and>
    (gt_held g \<longrightarrow> s_BackendHealth s' = s_BackendHealth s \<and>
      mget (s_BackendLimitedHolds s') (gr_identifier req) = Some (gt_hold g) \<and>
      backendHoldActive s' (gr_identifier req)) \<and>
    (gt_held g \<or> gt_rerouted g \<longrightarrow>
      (\<forall>h \<in> set hosts. \<not> spec_admits (breaker_of s (BackendHealthKey natural h)) (gr_identifier req) now)) \<and>
    (gt_rerouted g \<longrightarrow> gr_allowReroute req \<and> fb_Enabled (ag_BackendFallback (cf_Agent cfg)) \<and>
      dt_Backend (gt_target g) \<in> set (fb_Chain (ag_BackendFallback (cf_Agent cfg))) \<and>
      dt_Backend (gt_target g) \<noteq> natural) \<and>
    (gt_held g \<and> gr_allowReroute req \<and> fb_Enabled (ag_BackendFallback (cf_Agent cfg)) \<and>
      gr_rerouteAllowed req = None \<longrightarrow>
      (\<forall>b \<in> set (fb_Chain (ag_BackendFallback (cf_Agent cfg))). b \<noteq> natural \<and> fallbackTarget cfg req b \<noteq> None \<longrightarrow>
        (\<forall>h \<in> set hosts. \<not> spec_admits (breaker_of s (BackendHealthKey b h)) (gr_identifier req) now)))"
proof (rule gate_cases [OF assms(1,2)])
  fix s1
  assume "\<not> gt_held g" "\<not> gt_rerouted g" "dt_Backend (gt_target g) = dt_Backend (resolveDispatchTarget (gr_in req))"
    "gt_host g \<in> set (req_hosts req)"
    "\<not> refuses s (gr_identifier req) now (BackendHealthKey (dt_Backend (resolveDispatchTarget (gr_in req))) (gt_host g))"
    "s' = clearBackendHold s1 (gr_identifier req)"
    "breaker_of s1 (BackendHealthKey (dt_Backend (resolveDispatchTarget (gr_in req))) (gt_host g)) =
      spec_move (breaker_of s (BackendHealthKey (dt_Backend (resolveDispatchTarget (gr_in req))) (gt_host g)))
        (MAdmit (gr_identifier req) now)"
  then show ?thesis by (simp add: assms(3-5) refuses_def)
next
  fix s1
  assume "\<not> gt_held g" "gt_rerouted g" "gr_allowReroute req" "fb_Enabled (ag_BackendFallback (cf_Agent cfg))"
    "dt_Backend (gt_target g) \<in> set (fb_Chain (ag_BackendFallback (cf_Agent cfg)))"
    "dt_Backend (gt_target g) \<noteq> dt_Backend (resolveDispatchTarget (gr_in req))"
    "\<And>h. h \<in> set (req_hosts req) \<Longrightarrow>
      refuses s (gr_identifier req) now (BackendHealthKey (dt_Backend (resolveDispatchTarget (gr_in req))) h)"
    "gt_host g \<in> set (req_hosts req)"
    "\<not> refuses s (gr_identifier req) now (BackendHealthKey (dt_Backend (gt_target g)) (gt_host g))"
    "s' = clearBackendHold s1 (gr_identifier req)"
    "breaker_of s1 (BackendHealthKey (dt_Backend (gt_target g)) (gt_host g)) =
      spec_move (breaker_of s (BackendHealthKey (dt_Backend (gt_target g)) (gt_host g))) (MAdmit (gr_identifier req) now)"
  then show ?thesis by (simp add: assms(3-5) refuses_def)
next
  fix s1
  assume *: "gt_held g" "\<not> gt_rerouted g" "s' = setBackendHold s1 (gr_identifier req) (gt_hold g)"
    "s_BackendHealth s1 = s_BackendHealth s" "refuses s (gr_identifier req) now (hd_Key (gt_hold g))"
    "\<And>h. h \<in> set (req_hosts req) \<Longrightarrow>
      refuses s (gr_identifier req) now (BackendHealthKey (dt_Backend (resolveDispatchTarget (gr_in req))) h)"
    "\<And>b h. gr_allowReroute req \<Longrightarrow> fb_Enabled (ag_BackendFallback (cf_Agent cfg)) \<Longrightarrow> gr_rerouteAllowed req = None \<Longrightarrow>
      b \<in> set (fb_Chain (ag_BackendFallback (cf_Agent cfg))) \<Longrightarrow> b \<noteq> dt_Backend (resolveDispatchTarget (gr_in req)) \<Longrightarrow>
      fallbackTarget cfg req b \<noteq> None \<Longrightarrow> h \<in> set (req_hosts req) \<Longrightarrow>
      refuses s (gr_identifier req) now (BackendHealthKey b h)"
  have "backendHoldActive s' (gr_identifier req)"
    by (rule hold_active_if_refused [OF *(5)]) (simp_all add: *(3,4))
  then show ?thesis
    using *(6,7) by (simp add: assms(3-5) *(1-4) refuses_def)
qed

definition ex_request :: gate_request where
  "ex_request = \<lparr>gr_identifier = ''ENG-1'', gr_in = \<lparr>di_DefaultCommand = ''claude'', di_DefaultBackend = [],
     di_Profile = None, di_IssueBackend = [], di_RecoveryBackend = []\<rparr>, gr_profileName = [],
     gr_host = [], gr_hosts = [], gr_allowReroute = True, gr_rerouteAllowed = None\<rparr>"

theorem gate_admits_or_holds_witness:
  "backendHoldActive (fst (gateDispatch ex_config ex_limited ex_request 150)) ''ENG-1''"
proof -
  have cap: "cap_only ex_request" by (simp add: cap_only_def ex_request_def)
  have held: "gt_held (snd (gateDispatch ex_config ex_limited ex_request 150))" by code_simp
  have ident: "gr_identifier ex_request = ''ENG-1''" by (simp add: ex_request_def)
  have "gateDispatch ex_config ex_limited ex_request 150 =
      (fst (gateDispatch ex_config ex_limited ex_request 150), snd (gateDispatch ex_config ex_limited ex_request 150))"
    by simp
  from gate_admits_through_breaker_or_holds [OF cap this refl refl refl] held show ?thesis
    unfolding ident by blast
qed

text \<open>
  A pin the operator is allowed to set is honoured: when the check reports no error for a
  non-empty backend, the resolver gives a dispatch with that pin exactly that backend.
\<close>

theorem accepted_pin_is_honoured:
  assumes "CheckIssueBackendPin cfg snap ident backend = None" "backend \<noteq> []"
    and "profile = (case mget (ag_Profiles (cf_Agent cfg)) (mget_or (s_IssueProfiles snap) ident []) of
        None \<Rightarrow> None
      | Some p \<Rightarrow> if mget_or (s_IssueProfiles snap) ident [] \<noteq> [] \<and> ProfileEnabled p then Some p else None)"
  shows "dt_Backend (resolveDispatchTarget \<lparr>di_DefaultCommand = ag_Command (cf_Agent cfg),
      di_DefaultBackend = ag_Backend (cf_Agent cfg), di_Profile = profile, di_IssueBackend = backend,
      di_RecoveryBackend = []\<rparr>) = backend"
proof -
  have granted: "dt_Reason (request_backend b src t) = [] \<Longrightarrow> b \<noteq> [] \<Longrightarrow> dt_Backend (request_backend b src t) = b" for b src t
    by (auto simp: request_backend_def Let_def go_quote_def split: if_splits)
  have "dt_Reason (resolveDispatchTarget \<lparr>di_DefaultCommand = ag_Command (cf_Agent cfg),
      di_DefaultBackend = ag_Backend (cf_Agent cfg), di_Profile = profile, di_IssueBackend = backend,
      di_RecoveryBackend = []\<rparr>) = []"
    using assms(1,2) unfolding CheckIssueBackendPin_def Let_def assms(3) by (simp split: if_splits)
  then show ?thesis
    using granted [OF _ assms(2)] by (simp add: resolveDispatchTarget_def Let_def request_backend_def [of "[]"])
qed

theorem accepted_pin_is_honoured_witness:
  "dt_Backend (resolveDispatchTarget \<lparr>di_DefaultCommand = ag_Command (cf_Agent ex_config),
      di_DefaultBackend = ag_Backend (cf_Agent ex_config), di_Profile = None, di_IssueBackend = ''claude'',
      di_RecoveryBackend = []\<rparr>) = ''claude''"
proof -
  have "CheckIssueBackendPin ex_config ex_state ''ENG-1'' ''claude'' = None" by code_simp
  from accepted_pin_is_honoured [OF this _ refl] show ?thesis by (simp add: ex_defs)
qed

text \<open>
  The check is not complete: a refusal of \<open>agent.backend\<close> is not forgotten when a later
  request is honoured. Whenever \<open>agent.backend\<close> disagrees with the binary of
  \<open>agent.command\<close>, a pin of an issue without a profile to the binary's own backend is honoured
  by dispatch and yet rejected by the check, with a reason about the other request.
\<close>

theorem honoured_pin_rejected_for_stale_reason:
  assumes "bin = commandBinaryBackend (ag_Command (cf_Agent cfg))" and "bin \<noteq> []"
    and "ag_Backend (cf_Agent cfg) \<notin> {[], bin}" and "\<not> mhas (s_IssueProfiles snap) ident"
  shows "dt_Backend (resolveDispatchTarget \<lparr>di_DefaultCommand = ag_Command (cf_Agent cfg),
      di_DefaultBackend = ag_Backend (cf_Agent cfg), di_Profile = None, di_IssueBackend = bin,
      di_RecoveryBackend = []\<rparr>) = bin
    \<and> CheckIssueBackendPin cfg snap ident bin = Some (''orchestrator: agent.backend requested backend '' @
        go_quote (ag_Backend (cf_Agent cfg)) @ '' but the command runs '' @ go_quote bin @ ''; kept '' @ go_quote bin)"
proof -
  have "mget_or (s_IssueProfiles snap) ident [] = []" using assms(4) by (simp add: mget_or_def mhas_def)
  then have "(case mget (ag_Profiles (cf_Agent cfg)) (mget_or (s_IssueProfiles snap) ident []) of
      None \<Rightarrow> None
    | Some p \<Rightarrow> if mget_or (s_IssueProfiles snap) ident [] \<noteq> [] \<and> ProfileEnabled p then Some p else None) = None"
    by (simp split: option.split)
  with assms(1-3) show ?thesis
    by (auto simp add: CheckIssueBackendPin_def resolveDispatchTarget_def request_backend_def Let_def)
qed

theorem honoured_pin_rejected_witness:
  "CheckIssueBackendPin (ex_config\<lparr>cf_Agent := (cf_Agent ex_config)\<lparr>ag_Backend := ''codex''\<rparr>\<rparr>) ex_state
     ''ENG-1'' ''claude'' \<noteq> None"
proof -
  let ?cfg = "ex_config\<lparr>cf_Agent := (cf_Agent ex_config)\<lparr>ag_Backend := ''codex''\<rparr>\<rparr>"
  have "''claude'' = commandBinaryBackend (ag_Command (cf_Agent ?cfg))"
    and "ag_Backend (cf_Agent ?cfg) \<notin> {[], ''claude''}"
    and "\<not> mhas (s_IssueProfiles ex_state) ''ENG-1''" by code_simp+
  from honoured_pin_rejected_for_stale_reason [OF this(1) _ this(2,3)] show ?thesis
    by (metis list.distinct(1) option.distinct(1))
qed

end
