(* ===== verification/Status_History.thy ===== *)
theory Status_History
  imports Orch_State
begin

text \<open>
  The bounded status ledger of \<open>internal/orchestrator/status_history.go\<close>: what the loop last
  saw of every issue (\<open>PrevIssueStates\<close>) and, per issue, at most fifty state changes
  (\<open>IssueStatusHistory\<close>). \<open>clock\<close> is the value of \<open>time.Now()\<close> the code stamps when the
  caller gave no time.
\<close>

section \<open>Operations\<close>

definition maxIssueStatusHistory :: nat where
  "maxIssueStatusHistory = 50"

text \<open>The defaults a change receives before it is compared with the ledger.\<close>

definition complete_change :: "time \<Rightarrow> state \<Rightarrow> issue_status_change \<Rightarrow> issue_status_change" where
  "complete_change clock s c =
     (let c1 = (if sc_Source c = StatusSourceUnset then c\<lparr>sc_Source := StatusSourceSystem\<rparr> else c);
          c2 = (if isZero (sc_At c1) then c1\<lparr>sc_At := clock\<rparr> else c1)
      in if sc_FromState c2 = []
         then c2\<lparr>sc_FromState := mget_or (s_PrevIssueStates s) (sc_Identifier c2) []\<rparr> else c2)"

definition same_change :: "issue_status_change \<Rightarrow> issue_status_change \<Rightarrow> bool" where
  "same_change l c = (sc_FromState l = sc_FromState c \<and> sc_ToState l = sc_ToState c \<and>
     sc_Source l = sc_Source c \<and> sc_AutomationID l = sc_AutomationID c)"

definition appendIssueStatusChange :: "time \<Rightarrow> state \<Rightarrow> issue_status_change \<Rightarrow> state" where
  "appendIssueStatusChange clock s change =
     (if sc_Identifier change = [] \<or> sc_ToState change = [] then s
      else let c = complete_change clock s change;
               seen = s\<lparr>s_PrevIssueStates :=
                 mput (s_PrevIssueStates s) (sc_Identifier c) (sc_ToState c)\<rparr>;
               history = mget_or (s_IssueStatusHistory s) (sc_Identifier c) []
      in if sc_FromState c = sc_ToState c \<and> sc_Source c \<noteq> StatusSourceJanitor then seen
         else if history \<noteq> [] \<and> same_change (last history) c then seen
         else let grown = history @ [c];
                  kept = (if maxIssueStatusHistory < length grown
                          then drop (length grown - maxIssueStatusHistory) grown else grown)
              in seen\<lparr>s_IssueStatusHistory :=
                   mput (s_IssueStatusHistory s) (sc_Identifier c) kept\<rparr>)"

definition observed_change :: "issue \<Rightarrow> string \<Rightarrow> time \<Rightarrow> issue_status_change" where
  "observed_change issue prev now =
     \<lparr>sc_Identifier = is_Identifier issue, sc_FromState = prev, sc_ToState = is_State issue,
      sc_Source = StatusSourceTrackerObserved, sc_AutomationID = [], sc_TriggerType = [],
      sc_ProfileName = [], sc_Backend = [], sc_WorkerHost = [], sc_Reason = [], sc_At = now\<rparr>"

definition recordObservedIssueState :: "time \<Rightarrow> state \<Rightarrow> issue \<Rightarrow> time \<Rightarrow> state" where
  "recordObservedIssueState clock s issue now =
     (if is_Identifier issue = [] \<or> is_State issue = [] then s
      else let prev = mget_or (s_PrevIssueStates s) (is_Identifier issue) []
      in if prev = []
         then s\<lparr>s_PrevIssueStates :=
                mput (s_PrevIssueStates s) (is_Identifier issue) (is_State issue)\<rparr>
         else appendIssueStatusChange clock s (observed_change issue prev now))"

section \<open>Invariant\<close>

fun no_repeats :: "issue_status_change list \<Rightarrow> bool" where
  "no_repeats [] = True"
| "no_repeats [c] = True"
| "no_repeats (c # d # cs) = (\<not> same_change c d \<and> no_repeats (d # cs))"

definition history_ok :: "string \<Rightarrow> issue_status_change list \<Rightarrow> bool" where
  "history_ok ident h \<longleftrightarrow> h \<noteq> [] \<and> length h \<le> maxIssueStatusHistory \<and> no_repeats h \<and>
     list_all (\<lambda>c. sc_Identifier c = ident \<and> sc_ToState c \<noteq> [] \<and>
       (sc_FromState c \<noteq> sc_ToState c \<or> sc_Source c = StatusSourceJanitor)) h"

definition ledger_ok :: "state \<Rightarrow> bool" where
  "ledger_ok s \<longleftrightarrow> (\<forall>ident h. mget (s_IssueStatusHistory s) ident = Some h \<longrightarrow> history_ok ident h)"

section \<open>Lemmas\<close>

lemma complete_change_simps [simp]:
  "sc_Identifier (complete_change clock s c) = sc_Identifier c"
  "sc_ToState (complete_change clock s c) = sc_ToState c"
  "sc_AutomationID (complete_change clock s c) = sc_AutomationID c"
  by (simp_all add: complete_change_def Let_def)

lemma no_repeats_snoc:
  "no_repeats (h @ [c]) \<longleftrightarrow> no_repeats h \<and> (h = [] \<or> \<not> same_change (last h) c)"
  by (induction h rule: no_repeats.induct) auto

lemma no_repeats_tl: "no_repeats h \<Longrightarrow> no_repeats (tl h)"
  by (cases h rule: no_repeats.cases) auto

lemma no_repeats_drop: "no_repeats h \<Longrightarrow> no_repeats (drop n h)"
  by (induction n arbitrary: h) (auto simp: no_repeats_tl drop_Suc)

lemma list_all_drop: "list_all P h \<Longrightarrow> list_all P (drop n h)"
  by (auto simp: list_all_iff dest: in_set_dropD)

definition cap_history :: "issue_status_change list \<Rightarrow> issue_status_change list" where
  "cap_history g = (if maxIssueStatusHistory < length g
     then drop (length g - maxIssueStatusHistory) g else g)"

lemma cap_history_props:
  "length (cap_history g) \<le> maxIssueStatusHistory"
  "no_repeats g \<Longrightarrow> no_repeats (cap_history g)"
  "list_all P g \<Longrightarrow> list_all P (cap_history g)"
  "g \<noteq> [] \<Longrightarrow> cap_history g \<noteq> [] \<and> last (cap_history g) = last g"
  by (auto simp: cap_history_def no_repeats_drop list_all_drop maxIssueStatusHistory_def)

text \<open>The three outcomes of an append.\<close>

lemma append_cases:
  obtains (ignored) "sc_Identifier ch = [] \<or> sc_ToState ch = []"
      "appendIssueStatusChange clock s ch = s"
  | (seen) "sc_Identifier ch \<noteq> []" "sc_ToState ch \<noteq> []"
      "appendIssueStatusChange clock s ch =
        s\<lparr>s_PrevIssueStates := mput (s_PrevIssueStates s) (sc_Identifier ch) (sc_ToState ch)\<rparr>"
  | (recorded) c where "c = complete_change clock s ch" "sc_Identifier ch \<noteq> []" "sc_ToState ch \<noteq> []"
      "sc_FromState c \<noteq> sc_ToState c \<or> sc_Source c = StatusSourceJanitor"
      "mget_or (s_IssueStatusHistory s) (sc_Identifier ch) [] = [] \<or>
        \<not> same_change (last (mget_or (s_IssueStatusHistory s) (sc_Identifier ch) [])) c"
      "appendIssueStatusChange clock s ch =
        s\<lparr>s_PrevIssueStates := mput (s_PrevIssueStates s) (sc_Identifier ch) (sc_ToState ch),
          s_IssueStatusHistory := mput (s_IssueStatusHistory s) (sc_Identifier ch)
            (cap_history (mget_or (s_IssueStatusHistory s) (sc_Identifier ch) [] @ [c]))\<rparr>"
proof (cases "sc_Identifier ch = [] \<or> sc_ToState ch = []")
  case True
  then show ?thesis by (intro ignored) (auto simp: appendIssueStatusChange_def)
next
  case False
  define c where "c = complete_change clock s ch"
  define h where "h = mget_or (s_IssueStatusHistory s) (sc_Identifier ch) []"
  have eq: "appendIssueStatusChange clock s ch =
    (let seen = s\<lparr>s_PrevIssueStates := mput (s_PrevIssueStates s) (sc_Identifier ch) (sc_ToState ch)\<rparr>
     in if (sc_FromState c = sc_ToState c \<and> sc_Source c \<noteq> StatusSourceJanitor) \<or>
          (h \<noteq> [] \<and> same_change (last h) c) then seen
        else seen\<lparr>s_IssueStatusHistory := mput (s_IssueStatusHistory s) (sc_Identifier ch)
            (cap_history (h @ [c]))\<rparr>)"
    using False unfolding appendIssueStatusChange_def cap_history_def Let_def c_def h_def
    by (simp only: complete_change_simps if_False) (auto simp only: split: if_split)
  show ?thesis
  proof (cases "(sc_FromState c = sc_ToState c \<and> sc_Source c \<noteq> StatusSourceJanitor) \<or>
      (h \<noteq> [] \<and> same_change (last h) c)")
    case True
    then show ?thesis using False by (intro seen) (simp_all add: eq)
  next
    case nonskip: False
    show ?thesis
      by (rule recorded [OF c_def]) (use False nonskip in \<open>auto simp: eq h_def\<close>)
  qed
qed

lemma history_ok_extend:
  assumes "h = [] \<or> history_ok ident h"
    and "h = [] \<or> \<not> same_change (last h) c"
    and "sc_Identifier c = ident" "sc_ToState c \<noteq> []"
      "sc_FromState c \<noteq> sc_ToState c \<or> sc_Source c = StatusSourceJanitor"
  shows "history_ok ident (cap_history (h @ [c]))"
proof -
  have "no_repeats (h @ [c])"
    using assms(1,2) by (auto simp: no_repeats_snoc history_ok_def)
  moreover have "list_all (\<lambda>c. sc_Identifier c = ident \<and> sc_ToState c \<noteq> [] \<and>
       (sc_FromState c \<noteq> sc_ToState c \<or> sc_Source c = StatusSourceJanitor)) (h @ [c])"
    using assms by (auto simp: history_ok_def)
  ultimately show ?thesis
    by (simp add: history_ok_def cap_history_props)
qed

lemma append_ledger_ok:
  assumes "ledger_ok s"
  shows "ledger_ok (appendIssueStatusChange clock s ch)"
proof (cases rule: append_cases [of ch clock s])
  case ignored
  with assms show ?thesis by simp
next
  case seen
  with assms show ?thesis by (simp add: ledger_ok_def)
next
  case (recorded c)
  let ?h = "mget_or (s_IssueStatusHistory s) (sc_Identifier ch) []"
  have "?h = [] \<or> history_ok (sc_Identifier ch) ?h"
    using assms by (cases "mget (s_IssueStatusHistory s) (sc_Identifier ch)") (auto simp: ledger_ok_def)
  then have "history_ok (sc_Identifier ch) (cap_history (?h @ [c]))"
    by (rule history_ok_extend) (use recorded in auto)
  with assms recorded show ?thesis by (simp add: ledger_ok_def)
qed

lemma append_prev_state:
  "sc_Identifier ch \<noteq> [] \<Longrightarrow> sc_ToState ch \<noteq> [] \<Longrightarrow>
    mget (s_PrevIssueStates (appendIssueStatusChange clock s ch)) (sc_Identifier ch) = Some (sc_ToState ch)"
  by (cases rule: append_cases [of ch clock s]) auto

text \<open>Everything but the two ledger maps is left alone.\<close>

lemma append_frame:
  "appendIssueStatusChange clock s ch =
    s\<lparr>s_PrevIssueStates := s_PrevIssueStates (appendIssueStatusChange clock s ch),
      s_IssueStatusHistory := s_IssueStatusHistory (appendIssueStatusChange clock s ch)\<rparr>"
  by (cases rule: append_cases [of ch clock s]) auto

lemma record_frame:
  "recordObservedIssueState clock s issue now =
    s\<lparr>s_PrevIssueStates := s_PrevIssueStates (recordObservedIssueState clock s issue now),
      s_IssueStatusHistory := s_IssueStatusHistory (recordObservedIssueState clock s issue now)\<rparr>"
  by (auto simp: recordObservedIssueState_def Let_def intro: append_frame)

lemma record_ledger_ok:
  "ledger_ok s \<Longrightarrow> ledger_ok (recordObservedIssueState clock s issue now)"
  by (auto simp: recordObservedIssueState_def Let_def append_ledger_ok) (simp add: ledger_ok_def)

lemma record_prev_state:
  "is_Identifier issue \<noteq> [] \<Longrightarrow> is_State issue \<noteq> [] \<Longrightarrow>
    mget (s_PrevIssueStates (recordObservedIssueState clock s issue now)) (is_Identifier issue) =
      Some (is_State issue)"
  using append_prev_state [of "observed_change issue p now" clock s for p]
  by (auto simp: recordObservedIssueState_def Let_def observed_change_def)

lemma ledger_ok_NewState: "ledger_ok (NewState cfg)"
  by (simp add: ledger_ok_def NewState_def)

end
