(* ===== verification/Dependency_Audit.thy ===== *)
theory Dependency_Audit
  imports Status_History
begin

text \<open>
  Blockers and the dependency audit (\<open>internal/orchestrator/dependency_audit.go\<close>). Every tick
  recomputes, for each candidate, which of its blockers are resolved, and reports a
  \<open>blockers_resolved\<close> transition when an issue that was genuinely blocked becomes
  unblocked. The last section shows that, per audit row, this is exactly a one-bit latch.
\<close>

section \<open>Blockers\<close>

definition isTerminalState :: "string \<Rightarrow> state \<Rightarrow> bool" where
  "isTerminalState st s = IsTerminalState st (s_TerminalStates s)"

definition blockerResolvedForDispatch :: "blocker_ref \<Rightarrow> state \<Rightarrow> bool" where
  "blockerResolvedForDispatch b s =
     (case br_State b of None \<Rightarrow> False | Some st \<Rightarrow> isTerminalState st s)"

definition unresolvedBlockers :: "issue \<Rightarrow> state \<Rightarrow> blocker_ref list" where
  "unresolvedBlockers issue s =
     filter (\<lambda>b. \<not> blockerResolvedForDispatch b s) (is_BlockedBy issue)"

definition firstUnresolvedBlocker :: "issue \<Rightarrow> state \<Rightarrow> blocker_ref option" where
  "firstUnresolvedBlocker issue s =
     (case unresolvedBlockers issue s of [] \<Rightarrow> None | b # bs \<Rightarrow> Some b)"

definition blockerIdentifier :: "blocker_ref \<Rightarrow> string" where
  "blockerIdentifier b = (case br_Identifier b of None \<Rightarrow> [] | Some i \<Rightarrow> i)"

definition nonempty_opt :: "string option \<Rightarrow> bool" where
  "nonempty_opt x = (case x of None \<Rightarrow> False | Some s \<Rightarrow> s \<noteq> [])"

definition blockerKey :: "blocker_ref \<Rightarrow> string" where
  "blockerKey b =
     (if nonempty_opt (br_ID b) then ''id:'' @ the (br_ID b)
      else if nonempty_opt (br_Identifier b) then ''identifier:'' @ the (br_Identifier b)
      else if nonempty_opt (br_URL b) then ''url:'' @ the (br_URL b)
      else ''unknown'')"

definition resolvedBlockers :: "issue \<Rightarrow> blocker_ref list \<Rightarrow> blocker_ref list" where
  "resolvedBlockers issue unresolved =
     (let unresolvedKeys = map blockerKey unresolved
      in filter (\<lambda>b. blockerKey b \<notin> set unresolvedKeys) (is_BlockedBy issue))"

definition dependencyStatusForIssue :: "issue \<Rightarrow> state \<Rightarrow> dependency_audit_status" where
  "dependencyStatusForIssue issue s =
     (if is_BlockedBy issue = [] then DependencyAuditUnblocked
      else let unresolved = unresolvedBlockers issue s
      in if unresolved = [] then DependencyAuditUnblocked
         else if list_ex (\<lambda>b. br_State b = None) unresolved then DependencyAuditUnknown
         else DependencyAuditBlocked)"

definition dependencySourceForBlocker :: "blocker_ref \<Rightarrow> dependency_audit_source" where
  "dependencySourceForBlocker b =
     (if br_Origin b = BlockerOriginSubIssue then DependencySourceSubIssue
      else if (case br_Identifier b of None \<Rightarrow> False | Some i \<Rightarrow> has_prefix i ''#'')
      then DependencySourceIssueText
      else DependencySourceTrackerRelation)"

fun sources_loop ::
  "dependency_audit_source list \<Rightarrow> blocker_ref list \<Rightarrow> dependency_audit_source list" where
  "sources_loop seen [] = []"
| "sources_loop seen (b # bs) =
     (let source = dependencySourceForBlocker b
      in if source \<in> set seen then sources_loop seen bs
         else source # sources_loop (source # seen) bs)"

definition dependencySources :: "issue \<Rightarrow> dependency_audit_source list" where
  "dependencySources issue = sources_loop [] (is_BlockedBy issue)"

section \<open>The audit\<close>

definition dependencyAuditKey :: "issue \<Rightarrow> string" where
  "dependencyAuditKey issue = (if is_ID issue \<noteq> [] then is_ID issue else is_Identifier issue)"

definition issueHasResolvedBlockersTransition ::
  "dependency_audit_entry option \<Rightarrow> dependency_audit_entry \<Rightarrow> bool" where
  "issueHasResolvedBlockersTransition prev next =
     (case prev of
        None \<Rightarrow> False
      | Some p \<Rightarrow>
          (if da_Status next \<noteq> DependencyAuditUnblocked then False
           else if da_Status p = DependencyAuditUnblocked then False
           else da_WasBlocked p))"

definition audit_row :: "state \<Rightarrow> issue \<Rightarrow> time \<Rightarrow> dependency_audit_entry" where
  "audit_row s issue now =
     (let unresolved = unresolvedBlockers issue s in
      \<lparr>da_IssueID = is_ID issue, da_Identifier = is_Identifier issue, da_IssueState = is_State issue,
       da_Status = dependencyStatusForIssue issue s, da_Sources = dependencySources issue,
       da_BlockedBy = is_BlockedBy issue, da_UnresolvedBlockers = unresolved,
       da_ResolvedBlockers = resolvedBlockers issue unresolved,
       da_WasBlocked = False, da_FirstBlockedAt = 0, da_UnblockedAt = 0, da_LastAuditedAt = now,
       da_LastTransitionVersion = 0, da_LastTransitionReason = [], da_InFlight = False,
       da_ConsecutiveFailures = 0, da_LastRefreshAttemptAt = 0\<rparr>)"

definition audit_carry ::
  "dependency_audit_entry option \<Rightarrow> dependency_audit_entry \<Rightarrow> dependency_audit_entry" where
  "audit_carry prev next =
     (case prev of
        None \<Rightarrow> next
      | Some p \<Rightarrow> next\<lparr>da_WasBlocked := da_WasBlocked p, da_FirstBlockedAt := da_FirstBlockedAt p,
          da_UnblockedAt := da_UnblockedAt p,
          da_LastTransitionVersion := da_LastTransitionVersion p,
          da_LastTransitionReason := da_LastTransitionReason p, da_InFlight := da_InFlight p,
          da_ConsecutiveFailures := da_ConsecutiveFailures p,
          da_LastRefreshAttemptAt := da_LastRefreshAttemptAt p\<rparr>)"

definition audit_arm :: "time \<Rightarrow> dependency_audit_entry \<Rightarrow> dependency_audit_entry" where
  "audit_arm now next =
     (if da_Status next = DependencyAuditBlocked
      then next\<lparr>da_WasBlocked := True,
        da_FirstBlockedAt := (if isZero (da_FirstBlockedAt next) then now else da_FirstBlockedAt next)\<rparr>
      else next)"

definition auditIssueDependencies ::
  "state \<Rightarrow> issue \<Rightarrow> time \<Rightarrow> state \<times> dependency_audit_entry" where
  "auditIssueDependencies s issue now =
     (let key = dependencyAuditKey issue;
          prev = mget (s_DependencyAudit s) key;
          next = audit_arm now (audit_carry prev (audit_row s issue now));
          fired = issueHasResolvedBlockersTransition prev next;
          seq = (if fired then s_DependencyTransitionSeq s + 1 else s_DependencyTransitionSeq s);
          next = (if fired then next\<lparr>da_UnblockedAt := now, da_LastTransitionVersion := seq,
            da_LastTransitionReason := ''blockers_resolved''\<rparr> else next);
          stored = (if fired then next\<lparr>da_WasBlocked := False\<rparr> else next)
      in (s\<lparr>s_DependencyTransitionSeq := seq,
            s_DependencyAudit := mput (s_DependencyAudit s) key stored\<rparr>, next))"

definition sameIssueIdentity :: "issue \<Rightarrow> issue \<Rightarrow> bool" where
  "sameIssueIdentity a b =
     ((is_ID a \<noteq> [] \<and> is_ID b \<noteq> [] \<and> is_ID a = is_ID b) \<or>
      (is_Identifier a \<noteq> [] \<and> is_Identifier b \<noteq> [] \<and> is_Identifier a = is_Identifier b))"

definition refresh_queued ::
  "issue \<Rightarrow> dependency_audit_entry \<Rightarrow> time \<Rightarrow> automation_queue_entry \<Rightarrow> automation_queue_entry" where
  "refresh_queued issue audit now q =
     (if \<not> sameIssueIdentity (aq_Issue q) issue then q
      else let q = q\<lparr>aq_Issue := issue\<rparr>
      in if aq_Reason q = ''blocked_by'' \<and> da_Status audit = DependencyAuditUnblocked
         then q\<lparr>aq_Status := AutomationQueueQueued, aq_Reason := ''ready'', aq_ReasonDetail := [],
                aq_LastAttemptAt := now\<rparr>
         else q)"

definition updateAutomationQueueIssueFromDependencyAudit ::
  "state \<Rightarrow> issue \<Rightarrow> dependency_audit_entry \<Rightarrow> time \<Rightarrow> state" where
  "updateAutomationQueueIssueFromDependencyAudit s issue audit now =
     s\<lparr>s_AutomationQueue :=
        map (\<lambda>(k, q). (k, refresh_queued issue audit now q)) (s_AutomationQueue s)\<rparr>"

definition auditFetchedIssueDependencies ::
  "time \<Rightarrow> state \<Rightarrow> issue \<Rightarrow> time \<Rightarrow> state \<times> dependency_audit_entry" where
  "auditFetchedIssueDependencies clock s issue now =
     (let s1 = recordObservedIssueState clock s issue now;
          (s2, entry) = auditIssueDependencies s1 issue now
      in (updateAutomationQueueIssueFromDependencyAudit s2 issue entry now, entry))"

section \<open>Lemmas about blockers\<close>

lemma unresolvedBlockers_iff:
  "b \<in> set (unresolvedBlockers issue s) \<longleftrightarrow>
    b \<in> set (is_BlockedBy issue) \<and> \<not> blockerResolvedForDispatch b s"
  by (auto simp: unresolvedBlockers_def)

lemma firstUnresolvedBlocker_None:
  "firstUnresolvedBlocker issue s = None \<longleftrightarrow>
    (\<forall>b \<in> set (is_BlockedBy issue). blockerResolvedForDispatch b s)"
proof -
  have "firstUnresolvedBlocker issue s = None \<longleftrightarrow> unresolvedBlockers issue s = []"
    by (simp add: firstUnresolvedBlocker_def split: list.splits)
  then show ?thesis by (simp add: unresolvedBlockers_def filter_empty_conv)
qed

lemma status_iff:
  "dependencyStatusForIssue issue s = DependencyAuditUnblocked \<longleftrightarrow>
    firstUnresolvedBlocker issue s = None"
  "dependencyStatusForIssue issue s = DependencyAuditUnknown \<longleftrightarrow>
    (\<exists>b \<in> set (is_BlockedBy issue). br_State b = None)"
  "dependencyStatusForIssue issue s = DependencyAuditBlocked \<longleftrightarrow>
    firstUnresolvedBlocker issue s \<noteq> None \<and> (\<forall>b \<in> set (is_BlockedBy issue). br_State b \<noteq> None)"
proof -
  have none: "br_State b = None \<Longrightarrow> \<not> blockerResolvedForDispatch b s" for b
    by (simp add: blockerResolvedForDispatch_def)
  have emp: "is_BlockedBy issue = [] \<Longrightarrow> unresolvedBlockers issue s = []"
    by (simp add: unresolvedBlockers_def)
  have ex: "list_ex (\<lambda>b. br_State b = None) (unresolvedBlockers issue s) \<longleftrightarrow>
      (\<exists>b \<in> set (is_BlockedBy issue). br_State b = None)"
    using none by (auto simp: list_ex_iff unresolvedBlockers_iff)
  have first: "firstUnresolvedBlocker issue s = None \<longleftrightarrow> unresolvedBlockers issue s = []"
    by (simp add: firstUnresolvedBlocker_def split: list.splits)
  have ne: "(\<exists>b \<in> set (is_BlockedBy issue). br_State b = None) \<Longrightarrow> unresolvedBlockers issue s \<noteq> []"
    using ex by (cases "unresolvedBlockers issue s") auto
  show "dependencyStatusForIssue issue s = DependencyAuditUnblocked \<longleftrightarrow>
      firstUnresolvedBlocker issue s = None"
    using emp by (auto simp: dependencyStatusForIssue_def Let_def first)
  show "dependencyStatusForIssue issue s = DependencyAuditUnknown \<longleftrightarrow>
      (\<exists>b \<in> set (is_BlockedBy issue). br_State b = None)"
    using emp ne by (auto simp: dependencyStatusForIssue_def Let_def ex)
  show "dependencyStatusForIssue issue s = DependencyAuditBlocked \<longleftrightarrow>
      firstUnresolvedBlocker issue s \<noteq> None \<and> (\<forall>b \<in> set (is_BlockedBy issue). br_State b \<noteq> None)"
    using emp by (auto simp: dependencyStatusForIssue_def Let_def first ex)
qed

lemma sources_loop_set:
  "set (sources_loop seen bs) = dependencySourceForBlocker ` set bs - set seen"
  by (induction seen bs rule: sources_loop.induct) (auto simp: Let_def)

lemma sources_loop_distinct: "distinct (sources_loop seen bs)"
  by (induction seen bs rule: sources_loop.induct) (auto simp: Let_def sources_loop_set)

lemma dependencySources_correct:
  "distinct (dependencySources issue) \<and>
    set (dependencySources issue) = dependencySourceForBlocker ` set (is_BlockedBy issue)"
  by (simp add: dependencySources_def sources_loop_set sources_loop_distinct)

lemma resolvedBlockers_resolved:
  "b \<in> set (resolvedBlockers issue (unresolvedBlockers issue s)) \<Longrightarrow> blockerResolvedForDispatch b s"
  by (auto simp: resolvedBlockers_def Let_def unresolvedBlockers_iff)

section \<open>The latch\<close>

text \<open>
  The specification: one bit per issue. A genuinely blocked observation arms it, an unblocked
  observation of an armed bit fires and disarms it, and everything else leaves it alone.
\<close>

fun latch_step :: "bool \<Rightarrow> dependency_audit_status \<Rightarrow> bool \<times> bool" where
  "latch_step armed DependencyAuditBlocked = (True, False)"
| "latch_step armed DependencyAuditUnblocked = (False, armed)"
| "latch_step armed DependencyAuditUnknown = (armed, False)"

fun latch_run :: "bool \<Rightarrow> dependency_audit_status list \<Rightarrow> bool list" where
  "latch_run armed [] = []"
| "latch_run armed (st # sts) =
     (case latch_step armed st of (armed', fired) \<Rightarrow> fired # latch_run armed' sts)"

definition armed :: "state \<Rightarrow> string \<Rightarrow> bool" where
  "armed s key = (case mget (s_DependencyAudit s) key of None \<Rightarrow> False | Some p \<Rightarrow> da_WasBlocked p)"

definition audit_fired :: "state \<Rightarrow> issue \<Rightarrow> time \<Rightarrow> bool" where
  "audit_fired s issue now =
     (s_DependencyTransitionSeq (fst (auditIssueDependencies s issue now)) \<noteq>
      s_DependencyTransitionSeq s)"

text \<open>No stored row is both unblocked and armed.\<close>

definition audit_ok :: "state \<Rightarrow> bool" where
  "audit_ok s \<longleftrightarrow> (\<forall>k p. mget (s_DependencyAudit s) k = Some p \<longrightarrow>
     da_Status p = DependencyAuditUnblocked \<longrightarrow> \<not> da_WasBlocked p)"

lemma audit_row_carry_arm_simps [simp]:
  "da_Status (audit_arm now (audit_carry prev (audit_row s issue now))) =
    dependencyStatusForIssue issue s"
  "da_WasBlocked (audit_arm now (audit_carry prev (audit_row s issue now))) =
    (dependencyStatusForIssue issue s = DependencyAuditBlocked \<or>
      (case prev of None \<Rightarrow> False | Some p \<Rightarrow> da_WasBlocked p))"
  by (auto simp: audit_arm_def audit_carry_def audit_row_def Let_def split: option.splits)

lemma transition_fires_iff:
  assumes "audit_ok s"
  shows "issueHasResolvedBlockersTransition (mget (s_DependencyAudit s) key)
      (audit_arm now (audit_carry prev (audit_row s issue now))) \<longleftrightarrow>
    armed s key \<and> dependencyStatusForIssue issue s = DependencyAuditUnblocked"
  using assms
  by (auto simp: issueHasResolvedBlockersTransition_def armed_def audit_ok_def split: option.splits)

lemma audit_seq:
  assumes "audit_ok s"
  shows "s_DependencyTransitionSeq (fst (auditIssueDependencies s issue now)) =
    s_DependencyTransitionSeq s +
      (if armed s (dependencyAuditKey issue) \<and>
          dependencyStatusForIssue issue s = DependencyAuditUnblocked then 1 else 0)"
  by (simp add: auditIssueDependencies_def Let_def transition_fires_iff [OF assms])

lemma audit_stored:
  assumes "audit_ok s"
  shows "\<exists>p. mget (s_DependencyAudit (fst (auditIssueDependencies s issue now)))
      (dependencyAuditKey issue) = Some p \<and>
    da_Status p = dependencyStatusForIssue issue s \<and>
    da_WasBlocked p = fst (latch_step (armed s (dependencyAuditKey issue))
       (dependencyStatusForIssue issue s))"
  by (cases "dependencyStatusForIssue issue s")
    (simp_all add: auditIssueDependencies_def Let_def transition_fires_iff [OF assms] armed_def)

lemma audit_other_rows:
  "k \<noteq> dependencyAuditKey issue \<Longrightarrow>
    mget (s_DependencyAudit (fst (auditIssueDependencies s issue now))) k = mget (s_DependencyAudit s) k"
  by (simp add: auditIssueDependencies_def Let_def)

lemma audit_terminal_states [simp]:
  "s_TerminalStates (fst (auditIssueDependencies s issue now)) = s_TerminalStates s"
  by (simp add: auditIssueDependencies_def Let_def)

lemma status_cong:
  "s_TerminalStates s = s_TerminalStates t \<Longrightarrow>
    dependencyStatusForIssue issue s = dependencyStatusForIssue issue t"
  by (simp add: dependencyStatusForIssue_def unresolvedBlockers_def blockerResolvedForDispatch_def
      isTerminalState_def cong: filter_cong option.case_cong)

lemma audit_armed:
  assumes "audit_ok s"
  shows "armed (fst (auditIssueDependencies s issue now)) (dependencyAuditKey issue) =
    fst (latch_step (armed s (dependencyAuditKey issue)) (dependencyStatusForIssue issue s))"
  using audit_stored [OF assms, of issue now] by (auto simp: armed_def [of "fst _"])

lemma audit_fired_latch:
  assumes "audit_ok s"
  shows "audit_fired s issue now =
    snd (latch_step (armed s (dependencyAuditKey issue)) (dependencyStatusForIssue issue s))"
  by (cases "dependencyStatusForIssue issue s")
    (simp_all add: audit_fired_def audit_seq [OF assms])

lemma audit_preserves_ok:
  assumes "audit_ok s"
  shows "audit_ok (fst (auditIssueDependencies s issue now))"
  unfolding audit_ok_def
proof (intro allI impI)
  fix k p
  assume k: "mget (s_DependencyAudit (fst (auditIssueDependencies s issue now))) k = Some p"
    and st: "da_Status p = DependencyAuditUnblocked"
  show "\<not> da_WasBlocked p"
  proof (cases "k = dependencyAuditKey issue")
    case True
    with k st audit_stored [OF assms, of issue now] show ?thesis by auto
  next
    case False
    with k st assms show ?thesis by (auto simp: audit_other_rows audit_ok_def)
  qed
qed

section \<open>Sequences of audits\<close>

text \<open>The transitions fired by a sequence of audits, in order.\<close>

fun audit_run :: "state \<Rightarrow> (issue \<times> time) list \<Rightarrow> bool list" where
  "audit_run s [] = []"
| "audit_run s ((issue, now) # obs) =
     audit_fired s issue now # audit_run (fst (auditIssueDependencies s issue now)) obs"

lemma audit_run_latch_run:
  assumes "audit_ok s" "\<forall>(issue, now) \<in> set obs. dependencyAuditKey issue = key"
  shows "audit_run s obs =
    latch_run (armed s key) (map (\<lambda>ob. dependencyStatusForIssue (fst ob) s) obs)"
  using assms
proof (induction obs arbitrary: s)
  case Nil
  show ?case by simp
next
  case (Cons ob obs)
  obtain issue now where ob: "ob = (issue, now)" by (cases ob)
  let ?t = "fst (auditIssueDependencies s issue now)"
  have key: "dependencyAuditKey issue = key" using Cons.prems(2) ob by simp
  have same: "dependencyStatusForIssue i ?t = dependencyStatusForIssue i s" for i
    by (rule status_cong) simp
  have "audit_run ?t obs =
      latch_run (armed ?t key) (map (\<lambda>ob. dependencyStatusForIssue (fst ob) ?t) obs)"
    by (rule Cons.IH) (use Cons.prems audit_preserves_ok in auto)
  then show ?case
    using audit_armed [OF Cons.prems(1), of issue now] audit_fired_latch [OF Cons.prems(1), of issue now]
    by (simp add: ob key same split: prod.splits)
qed

lemma latch_run_nth:
  "j < length sts \<Longrightarrow> latch_run b sts ! j \<longleftrightarrow>
    sts ! j = DependencyAuditUnblocked \<and>
    ((b \<and> (\<forall>k < j. sts ! k \<noteq> DependencyAuditUnblocked)) \<or>
     (\<exists>i < j. sts ! i = DependencyAuditBlocked \<and>
        (\<forall>k. i < k \<and> k < j \<longrightarrow> sts ! k \<noteq> DependencyAuditUnblocked)))"
proof (induction sts arbitrary: b j)
  case Nil
  then show ?case by simp
next
  case (Cons st sts)
  show ?case
  proof (cases j)
    case 0
    then show ?thesis by (cases st) auto
  next
    case (Suc j')
    with Cons.prems have "j' < length sts" by simp
    note IH = Cons.IH [OF this]
    have split_ex: "(\<exists>i < Suc j'. P i) \<longleftrightarrow> P 0 \<or> (\<exists>i < j'. P (Suc i))" for P :: "nat \<Rightarrow> bool"
      by (metis Suc_less_eq less_Suc_eq_0_disj)
    have split_all: "(\<forall>k < Suc j'. P k) \<longleftrightarrow> P 0 \<and> (\<forall>k < j'. P (Suc k))" for P :: "nat \<Rightarrow> bool"
      by (metis Suc_less_eq less_Suc_eq_0_disj)
    have shift: "(\<forall>k. Suc i < k \<and> k < Suc j' \<longrightarrow> (st # sts) ! k \<noteq> DependencyAuditUnblocked) \<longleftrightarrow>
        (\<forall>k. i < k \<and> k < j' \<longrightarrow> sts ! k \<noteq> DependencyAuditUnblocked)" for i
      by (metis (no_types, lifting) Suc_less_eq Suc_lessE nth_Cons_Suc)
    have shift0: "(\<forall>k. 0 < k \<and> k < Suc j' \<longrightarrow> (st # sts) ! k \<noteq> DependencyAuditUnblocked) \<longleftrightarrow>
        (\<forall>k < j'. sts ! k \<noteq> DependencyAuditUnblocked)"
      by (metis (no_types, lifting) Suc_less_eq gr0_conv_Suc nth_Cons_Suc zero_less_Suc)
    show ?thesis
      unfolding Suc split_ex split_all shift shift0
      by (cases st) (auto simp: IH)
  qed
qed

section \<open>Properties\<close>

text \<open>
  C15. The \<open>blockers_resolved\<close> transition. Auditing one issue any number of times, from a state
  that never audited it, fires at the \<open>j\<close>-th audit exactly when that audit finds the issue
  unblocked and some earlier audit found it genuinely blocked (every blocker state known, one
  unresolved) with no unblocked audit in between. In particular an unknown status (a tracker
  outage) neither arms nor fires it, and one blocked episode fires once.
\<close>

theorem blockers_resolved_fires_once_per_blocked_episode:
  assumes "audit_ok s" "mget (s_DependencyAudit s) key = None"
    and "\<forall>(issue, now) \<in> set obs. dependencyAuditKey issue = key" and "j < length obs"
  shows "audit_run s obs ! j \<longleftrightarrow>
    dependencyStatusForIssue (fst (obs ! j)) s = DependencyAuditUnblocked \<and>
    (\<exists>i < j. dependencyStatusForIssue (fst (obs ! i)) s = DependencyAuditBlocked \<and>
      (\<forall>k. i < k \<and> k < j \<longrightarrow> dependencyStatusForIssue (fst (obs ! k)) s \<noteq> DependencyAuditUnblocked))"
proof -
  let ?sts = "map (\<lambda>ob. dependencyStatusForIssue (fst ob) s) obs"
  have "\<not> armed s key" using assms(2) by (simp add: armed_def)
  then show ?thesis
    using audit_run_latch_run [OF assms(1,3)] latch_run_nth [of j ?sts "armed s key"] assms(4)
    by (simp cong: conj_cong)
qed

text \<open>
  Applied to the run blocked, unknown, unblocked, unknown, unblocked of one issue: it fires at
  the third audit only.
\<close>

definition ex_obs :: "(issue \<times> time) list" where
  "ex_obs = map (\<lambda>st. (ex_issue ''ENG-1''
       \<lparr>is_BlockedBy := [ex_blocker ''ENG-2''\<lparr>br_State := st\<rparr>]\<rparr>, 100))
     [Some ''Todo'', None, Some ''Done'', None, Some ''Done'']"

theorem blockers_resolved_witness:
  "audit_run ex_state ex_obs ! 2 \<and> \<not> audit_run ex_state ex_obs ! 4"
proof -
  have ok: "audit_ok ex_state" by (simp add: audit_ok_def ex_state_def NewState_def)
  have new: "mget (s_DependencyAudit ex_state) ''id-ENG-1'' = None"
    by (simp add: ex_state_def NewState_def)
  have key: "\<forall>(issue, now) \<in> set ex_obs. dependencyAuditKey issue = ''id-ENG-1''"
    by (simp add: ex_obs_def dependencyAuditKey_def ex_issue_def)
  have st: "map (\<lambda>ob. dependencyStatusForIssue (fst ob) ex_state) ex_obs =
      [DependencyAuditBlocked, DependencyAuditUnknown, DependencyAuditUnblocked,
       DependencyAuditUnknown, DependencyAuditUnblocked]"
    by code_simp
  have len: "length ex_obs = 5" by (simp add: ex_obs_def)
  have nth: "dependencyStatusForIssue (fst (ex_obs ! k)) ex_state =
      [DependencyAuditBlocked, DependencyAuditUnknown, DependencyAuditUnblocked,
       DependencyAuditUnknown, DependencyAuditUnblocked] ! k" if "k < 5" for k
    using that by (simp add: st [symmetric] len)
  have "audit_run ex_state ex_obs ! 2"
    by (subst blockers_resolved_fires_once_per_blocked_episode [OF ok new key])
      (auto simp: len nth numeral_2_eq_2 less_Suc_eq intro!: exI [of _ 0])
  moreover have "\<not> audit_run ex_state ex_obs ! 4"
  proof
    assume "audit_run ex_state ex_obs ! 4"
    then obtain i where i: "i < 4" "dependencyStatusForIssue (fst (ex_obs ! i)) ex_state = DependencyAuditBlocked"
      "\<And>k. i < k \<and> k < 4 \<Longrightarrow> dependencyStatusForIssue (fst (ex_obs ! k)) ex_state \<noteq> DependencyAuditUnblocked"
      using blockers_resolved_fires_once_per_blocked_episode [OF ok new key, of 4] len by auto
    then have "i = 0" by (auto simp: nth less_Suc_eq numeral_nat)
    with i(3) [of 2] show False by (simp add: nth)
  qed
  ultimately show ?thesis by blast
qed

lemma audit_ok_NewState: "audit_ok (NewState cfg)"
  by (simp add: audit_ok_def NewState_def)

end
