(* ===== verification/Workspace_Branch.thy ===== *)
theory Workspace_Branch
  imports Dependency_Audit
begin

text \<open>
  Branch names (\<open>internal/workspace/worktree.go\<close>) and the stacking policy of
  \<open>internal/orchestrator/stacked_base.go\<close>: which branch a worktree is created from, and which
  in-review blocker an issue may start stacked on. Letters and digits are the ASCII ones.
\<close>

section \<open>Branch names\<close>

definition defaultBranches :: "string list" where
  "defaultBranches = ['''', ''main'', ''master'', ''develop'', ''HEAD'']"

definition IsDefaultBranch :: "string \<Rightarrow> bool" where
  "IsDefaultBranch branch = (branch \<in> set defaultBranches)"

definition is_alnum :: "char \<Rightarrow> bool" where
  "is_alnum c = (let n = (of_char c :: nat) in
     (48 \<le> n \<and> n \<le> 57) \<or> (65 \<le> n \<and> n \<le> 90) \<or> (97 \<le> n \<and> n \<le> 122))"

definition dash :: char where "dash = CHR ''-''"

definition trim_dashes :: "string \<Rightarrow> string" where
  "trim_dashes s = rev (dropWhile (\<lambda>c. c = dash) (rev (dropWhile (\<lambda>c. c = dash) s)))"

text \<open>One \<open>strings.ReplaceAll(s, "--", "-")\<close>, left to right without overlap.\<close>

fun replace_dashes :: "string \<Rightarrow> string" where
  "replace_dashes (a # b # s) =
     (if a = dash \<and> b = dash then dash # replace_dashes s else a # replace_dashes (b # s))"
| "replace_dashes s = s"

fun has_double_dash :: "string \<Rightarrow> bool" where
  "has_double_dash (a # b # s) = ((a = dash \<and> b = dash) \<or> has_double_dash (b # s))"
| "has_double_dash s = False"

lemma length_replace_dashes: "length (replace_dashes s) \<le> length s"
  by (induction s rule: replace_dashes.induct) auto

lemma length_replace_dashes_less: "has_double_dash s \<Longrightarrow> length (replace_dashes s) < length s"
proof (induction s rule: replace_dashes.induct)
  case (1 a b s)
  then show ?case using length_replace_dashes [of s] by (auto simp: less_Suc_eq_le)
qed auto

function dedup_dashes :: "string \<Rightarrow> string" where
  "dedup_dashes s = (if has_double_dash s then dedup_dashes (replace_dashes s) else s)"
  by pat_completeness auto
termination
  by (relation "measure length") (simp_all add: length_replace_dashes_less)

declare dedup_dashes.simps [simp del]

definition SlugifyIdentifier :: "string \<Rightarrow> string" where
  "SlugifyIdentifier ident =
     (let lowered = trim_space (to_lower ident)
      in dedup_dashes (trim_dashes (map (\<lambda>r. if is_alnum r then r else dash) lowered)))"

definition ResolveWorktreeBranch :: "string option \<Rightarrow> string \<Rightarrow> string" where
  "ResolveWorktreeBranch branchName identifier =
     (case branchName of
        Some b \<Rightarrow> if \<not> IsDefaultBranch b then b else ''itervox/'' @ SlugifyIdentifier identifier
      | None \<Rightarrow> ''itervox/'' @ SlugifyIdentifier identifier)"

section \<open>Stacking\<close>

fun stacked_loop ::
  "state \<Rightarrow> blocker_ref list \<Rightarrow> nat \<Rightarrow> string \<Rightarrow> string option \<Rightarrow> (string \<times> string option) option" where
  "stacked_loop s [] live cand branch = Some (cand, branch)"
| "stacked_loop s (b # bs) live cand branch =
     (if (case br_State b of None \<Rightarrow> False | Some st \<Rightarrow> isTerminalState st s)
      then stacked_loop s bs live cand branch
      else if 1 < live + 1 then None
      else case br_Identifier b of
             None \<Rightarrow> None
           | Some i \<Rightarrow> if i = [] then None else stacked_loop s bs (live + 1) i (br_BranchName b))"

definition stackedBaseBranch :: "state \<Rightarrow> issue \<Rightarrow> string" where
  "stackedBaseBranch s issue =
     (case stacked_loop s (is_BlockedBy issue) 0 [] None of
        None \<Rightarrow> []
      | Some (cand, branch) \<Rightarrow> if cand = [] then [] else ResolveWorktreeBranch branch cand)"

definition reviewStackKey :: "issue \<Rightarrow> state \<Rightarrow> string" where
  "reviewStackKey issue s =
     (if s_StackOnReviewState s = [] then []
      else case unresolvedBlockers issue s of
        [b] \<Rightarrow>
          (case br_State b of
             None \<Rightarrow> []
           | Some st \<Rightarrow>
               if \<not> equal_fold (trim_space st) (s_StackOnReviewState s) then []
               else (case br_Identifier b of
                  None \<Rightarrow> []
                | Some i \<Rightarrow> if i = [] then [] else i @ ''@'' @ to_lower (trim_space st)))
      | _ \<Rightarrow> [])"

definition reviewStackAdmits :: "issue \<Rightarrow> state \<Rightarrow> bool" where
  "reviewStackAdmits issue s =
     (let key = reviewStackKey issue s
      in key \<noteq> [] \<and> mget_or (s_StackUnavailable s) (is_Identifier issue) [] \<noteq> key)"

definition shouldBackOutUnstacked :: "bool \<Rightarrow> string \<Rightarrow> string \<Rightarrow> bool" where
  "shouldBackOutUnstacked inputRequiredResume stackedOn stackKey =
     (\<not> inputRequiredResume \<and> stackedOn = [] \<and> stackKey \<noteq> [])"

definition pruneStackUnavailable :: "state \<Rightarrow> issue list \<Rightarrow> state" where
  "pruneStackUnavailable s candidates =
     (if s_StackUnavailable s = [] then s
      else let current = fold (\<lambda>issue m. mput m (is_Identifier issue) (reviewStackKey issue s)) candidates []
      in s\<lparr>s_StackUnavailable :=
            mkeep (\<lambda>ident key. mget_or current ident [] = key) (s_StackUnavailable s)\<rparr>)"

section \<open>Lemmas\<close>

lemma dedup_no_double: "\<not> has_double_dash (dedup_dashes s)"
proof (induction s rule: dedup_dashes.induct)
  case (1 s)
  then show ?case by (simp add: dedup_dashes.simps [of s])
qed

lemma set_replace_dashes: "set (replace_dashes s) \<subseteq> set s"
  by (induction s rule: replace_dashes.induct) auto

lemma replace_dashes_ne: "replace_dashes s = [] \<longleftrightarrow> s = []"
  by (induction s rule: replace_dashes.induct) auto

lemma hd_replace_dashes: "s \<noteq> [] \<Longrightarrow> hd (replace_dashes s) = hd s"
  by (induction s rule: replace_dashes.induct) auto

lemma last_replace_dashes: "s \<noteq> [] \<Longrightarrow> last (replace_dashes s) = last s"
proof (induction s rule: replace_dashes.induct)
  case (1 a b s)
  then show ?case by (cases "s = []") (auto simp: replace_dashes_ne)
qed auto

lemma dedup_dashes_keeps:
  "set (dedup_dashes s) \<subseteq> set s \<and> (s \<noteq> [] \<longrightarrow> dedup_dashes s \<noteq> [] \<and> hd (dedup_dashes s) = hd s \<and>
    last (dedup_dashes s) = last s)"
proof (induction s rule: dedup_dashes.induct)
  case (1 s)
  show ?case
  proof (cases "has_double_dash s")
    case True
    with 1 show ?thesis
      using set_replace_dashes [of s]
      by (auto simp: dedup_dashes.simps [of s] replace_dashes_ne hd_replace_dashes last_replace_dashes)
  next
    case False
    then show ?thesis by (simp add: dedup_dashes.simps [of s])
  qed
qed

lemma trim_dashes_ends:
  assumes "trim_dashes s \<noteq> []"
  shows "hd (trim_dashes s) \<noteq> dash" "last (trim_dashes s) \<noteq> dash" "set (trim_dashes s) \<subseteq> set s"
proof -
  let ?t = "dropWhile (\<lambda>c. c = dash) s"
  let ?u = "dropWhile (\<lambda>c. c = dash) (rev ?t)"
  have ne: "?u \<noteq> []" using assms by (simp add: trim_dashes_def)
  show "last (trim_dashes s) \<noteq> dash"
    using hd_dropWhile [OF ne] ne by (simp add: trim_dashes_def last_rev)
  have "?t \<noteq> []" using ne by (cases ?t) simp_all
  then have hd_t: "hd ?t \<noteq> dash" using hd_dropWhile by blast
  obtain p where p: "rev ?t = p @ ?u" by (metis takeWhile_dropWhile_id)
  then have "?t = rev ?u @ rev p" by (metis rev_append rev_rev_ident)
  then have "hd ?t = hd (rev ?u)" using ne by (metis hd_append2 rev_is_Nil_conv)
  then show "hd (trim_dashes s) \<noteq> dash" using hd_t by (simp add: trim_dashes_def)
  have sub: "set (dropWhile P xs) \<subseteq> set xs" for P :: "char \<Rightarrow> bool" and xs
    by (auto dest: set_dropWhileD)
  show "set (trim_dashes s) \<subseteq> set s"
    using sub [of _ "rev ?t"] sub [of _ s] by (simp only: trim_dashes_def set_rev) blast
qed

lemma terminal_test:
  "(case br_State b of None \<Rightarrow> False | Some st \<Rightarrow> isTerminalState st s) = blockerResolvedForDispatch b s"
  by (simp add: blockerResolvedForDispatch_def)

lemma stacked_loop_one:
  "stacked_loop s bs (Suc 0) cand branch =
    (if \<forall>b \<in> set bs. blockerResolvedForDispatch b s then Some (cand, branch) else None)"
  by (induction bs) (auto simp: terminal_test)

lemma stacked_loop_zero:
  "stacked_loop s bs 0 [] None =
    (case filter (\<lambda>b. \<not> blockerResolvedForDispatch b s) bs of
       [] \<Rightarrow> Some ([], None)
     | [b] \<Rightarrow> (case br_Identifier b of None \<Rightarrow> None
          | Some i \<Rightarrow> if i = [] then None else Some (i, br_BranchName b))
     | _ \<Rightarrow> None)"
proof (induction bs)
  case Nil
  show ?case by simp
next
  case (Cons b bs)
  show ?case
  proof (cases "blockerResolvedForDispatch b s")
    case True
    with Cons show ?thesis by (simp add: terminal_test)
  next
    case False
    have all: "(\<forall>b \<in> set bs. blockerResolvedForDispatch b s) \<longleftrightarrow>
        filter (\<lambda>b. \<not> blockerResolvedForDispatch b s) bs = []"
      by (simp add: filter_empty_conv)
    from False show ?thesis
      by (simp add: terminal_test stacked_loop_one all split: option.split list.split)
  qed
qed

section \<open>Properties\<close>


text \<open>
  Stacking picks a base only when it is unambiguous: the base branch is empty exactly when
  the issue does not have exactly one unresolved blocker with a non-empty identifier, and
  otherwise it is that blocker's own worktree branch.
\<close>

theorem stacked_base_unambiguous:
  "stackedBaseBranch s issue =
    (case unresolvedBlockers issue s of
       [b] \<Rightarrow> if blockerIdentifier b = [] then [] else ResolveWorktreeBranch (br_BranchName b) (blockerIdentifier b)
     | _ \<Rightarrow> [])"
  by (simp add: stackedBaseBranch_def stacked_loop_zero unresolvedBlockers_def blockerIdentifier_def
      split: list.split option.split)

end
