(* ===== verification/Dispatch.thy ===== *)
theory Dispatch
  imports Workspace_Branch Backend_Health
begin

text \<open>
  Dispatch eligibility (\<open>internal/orchestrator/dispatch.go\<close>, \<open>pause_dispatch.go\<close>), the
  pressure counters of \<open>dispatch_pressure.go\<close> and the read-shedding decision of
  \<open>read_shedding.go\<close>. A reason is the source's string; the empty string means eligible.
\<close>

section \<open>Slots and states\<close>

definition AvailableSlots :: "state \<Rightarrow> int" where
  "AvailableSlots s =
     (if s_Draining s then 0
      else let n = s_MaxConcurrentAgents s - int (length (s_Running s)) in if n < 0 then 0 else n)"

definition isActiveState :: "string \<Rightarrow> state \<Rightarrow> bool" where
  "isActiveState st s = list_ex (\<lambda>a. equal_fold st a) (s_ActiveStates s)"

definition countRunningInState :: "state \<Rightarrow> string \<Rightarrow> int" where
  "countRunningInState s issueState =
     int (length (filter (\<lambda>(k, entry). equal_fold (is_State (ru_Issue entry)) issueState) (s_Running s)))"

fun find_pause :: "string list \<Rightarrow> string list \<Rightarrow> string option" where
  "find_pause pauseSet [] = None"
| "find_pause pauseSet (st # sts) =
     (if to_lower st \<in> set pauseSet then Some st else find_pause pauseSet sts)"

definition pausedByAnyInState :: "state \<Rightarrow> string option" where
  "pausedByAnyInState s =
     (if s_PauseDispatchWhenAnyInState s = [] then None
      else case find_pause (s_PauseDispatchWhenAnyInState s)
             (map (\<lambda>(k, entry). is_State (ru_Issue entry)) (s_Running s)) of
          Some st \<Rightarrow> Some st
        | None \<Rightarrow> find_pause (s_PauseDispatchWhenAnyInState s) (map snd (s_PrevIssueStates s)))"

section \<open>Eligibility\<close>

definition IneligibleBackendLimited :: string where
  "IneligibleBackendLimited = ''backend_limited''"
definition IneligibleBlockedByPrefix :: string where
  "IneligibleBlockedByPrefix = ''blocked_by:''"
definition IneligibleInferredBlockedByPrefix :: string where
  "IneligibleInferredBlockedByPrefix = ''inferred_blocked_by:''"

text \<open>The first gating inferred edge of an issue.\<close>

definition first_gating :: "issue \<Rightarrow> state \<Rightarrow> inferred_dep_entry option" where
  "first_gating issue s = find id_Gating (mget_or (s_InferredDeps s) (is_Identifier issue) [])"

definition per_state_full :: "issue \<Rightarrow> state \<Rightarrow> config \<Rightarrow> bool" where
  "per_state_full issue s cfg =
     (case mget (ag_MaxConcurrentAgentsByState (cf_Agent cfg)) (to_lower (is_State issue)) of
        None \<Rightarrow> False
      | Some limit \<Rightarrow> limit \<le> countRunningInState s (is_State issue))"

definition ineligibleReasonShared :: "issue \<Rightarrow> state \<Rightarrow> config \<Rightarrow> bool \<Rightarrow> string" where
  "ineligibleReasonShared issue s cfg allowInputRequired =
     (if isTerminalState (is_State issue) s then ''terminal_state''
      else if mhas (s_PausedIdentifiers s) (is_Identifier issue) then ''paused''
      else if mhas (s_DiscardingIdentifiers s) (is_Identifier issue) then ''discarding''
      else if mhas (s_InputRequiredIssues s) (is_Identifier issue) \<and> \<not> allowInputRequired
      then ''input_required''
      else if mhas (s_PendingInputResumes s) (is_Identifier issue) then ''pending_input_resume''
      else if mhas (s_Running s) (is_ID issue) then ''already_running''
      else if mhas (s_Claimed s) (is_ID issue) then ''claimed''
      else if AvailableSlots s \<le> 0 then ''no_slots''
      else case pausedByAnyInState s of
        Some pauseState \<Rightarrow> ''paused_by_state:'' @ pauseState
      | None \<Rightarrow>
      if per_state_full issue s cfg then ''per_state_limit''
      else if firstUnresolvedBlocker issue s \<noteq> None \<and> \<not> reviewStackAdmits issue s
      then IneligibleBlockedByPrefix @ blockerIdentifier (the (firstUnresolvedBlocker issue s))
      else case first_gating issue s of
        Some entry \<Rightarrow> IneligibleInferredBlockedByPrefix @ id_Source entry
      | None \<Rightarrow>
      if backendHoldActive s (is_Identifier issue) then IneligibleBackendLimited
      else [])"

definition missing_fields :: "issue \<Rightarrow> bool" where
  "missing_fields issue =
     (is_ID issue = [] \<or> is_Identifier issue = [] \<or> is_Title issue = [] \<or> is_State issue = [])"

definition IneligibleReason :: "issue \<Rightarrow> state \<Rightarrow> config \<Rightarrow> string" where
  "IneligibleReason issue s cfg =
     (if missing_fields issue then ''missing_fields''
      else if \<not> isActiveState (is_State issue) s then ''not_active_state''
      else ineligibleReasonShared issue s cfg False)"

definition IneligibleReasonForAutomation :: "issue \<Rightarrow> state \<Rightarrow> config \<Rightarrow> string" where
  "IneligibleReasonForAutomation issue s cfg =
     (if missing_fields issue then ''missing_fields''
      else ineligibleReasonShared issue s cfg True)"

definition IsEligible :: "issue \<Rightarrow> state \<Rightarrow> config \<Rightarrow> bool" where
  "IsEligible issue s cfg = (IneligibleReason issue s cfg = [])"

section \<open>Pressure\<close>

definition UtilizationPercent :: "dispatch_pressure \<Rightarrow> int" where
  "UtilizationPercent d =
     (if dq_SlotsCapacityTotal d \<le> 0 then 0
      else go_div (wrap64 (dq_SlotsOccupiedTotal d * 100)) (dq_SlotsCapacityTotal d))"

definition pressure_probe :: "state \<Rightarrow> issue list \<Rightarrow> state" where
  "pressure_probe s candidates =
     s\<lparr>s_MaxConcurrentAgents := int (length (s_Running s)) + int (length candidates) + 1\<rparr>"

fun pressure_loop :: "state \<Rightarrow> state \<Rightarrow> config \<Rightarrow> issue list \<Rightarrow> int \<times> int \<Rightarrow> int \<times> int" where
  "pressure_loop s probe cfg [] acc = acc"
| "pressure_loop s probe cfg (issue # rest) (blocked, waiting) =
     (if mhas (s_Running s) (is_ID issue) then pressure_loop s probe cfg rest (blocked, waiting)
      else let reason = IneligibleReason issue probe cfg
      in if reason = [] then pressure_loop s probe cfg rest (blocked, waiting + 1)
         else if has_prefix reason IneligibleBlockedByPrefix \<or>
                 has_prefix reason IneligibleInferredBlockedByPrefix
         then pressure_loop s probe cfg rest (blocked + 1, waiting)
         else pressure_loop s probe cfg rest (blocked, waiting))"

definition observeDispatchPressure ::
  "dispatch_pressure \<Rightarrow> state \<Rightarrow> issue list \<Rightarrow> config \<Rightarrow> dispatch_pressure" where
  "observeDispatchPressure prev s candidates cfg =
     (let (blocked, waiting) = pressure_loop s (pressure_probe s candidates) cfg candidates (0, 0);
          out = prev\<lparr>dq_TicksObserved := dq_TicksObserved prev + 1,
            dq_SlotsOccupiedTotal := dq_SlotsOccupiedTotal prev + int (length (s_Running s)),
            dq_SlotsCapacityTotal := dq_SlotsCapacityTotal prev + s_MaxConcurrentAgents s,
            dq_BlockedByDependency := blocked, dq_EligibleWaiting := waiting\<rparr>
      in if AvailableSlots s \<le> 0 \<and> 0 < waiting
         then out\<lparr>dq_TicksSlotBound := dq_TicksSlotBound out + 1\<rparr>
         else if 0 < AvailableSlots s \<and> 0 < blocked
         then out\<lparr>dq_TicksDependencyBound := dq_TicksDependencyBound out + 1\<rparr>
         else out)"

section \<open>Read shedding\<close>

record rate_limit_snapshot =
  sn_RequestsLimit :: int
  sn_RequestsRemaining :: int
  sn_Reset :: "time option"
  sn_ComplexityLimit :: int
  sn_ComplexityRemaining :: int

definition DefaultRateLimitReservePercent :: int where
  "DefaultRateLimitReservePercent = 10"

text \<open>
  The outer option is whether the adapter reports counters at all, the inner one whether it has
  a snapshot yet.
\<close>

definition shouldShedPollingReads :: "rate_limit_snapshot option option \<Rightarrow> int \<Rightarrow> bool" where
  "shouldShedPollingReads limiter reservePercent =
     (case limiter of
        None \<Rightarrow> False
      | Some snapshot \<Rightarrow>
          if reservePercent \<le> 0 then False
          else case snapshot of
            None \<Rightarrow> False
          | Some snap \<Rightarrow>
              if sn_RequestsLimit snap \<le> 0 then False
              else let reserve = go_div (wrap64 (sn_RequestsLimit snap * reservePercent)) 100
                   in sn_RequestsRemaining snap < reserve)"

definition rateLimitReservePercent :: "int option \<Rightarrow> int" where
  "rateLimitReservePercent pct =
     (case pct of
        None \<Rightarrow> DefaultRateLimitReservePercent
      | Some p \<Rightarrow> if p < 0 \<or> 100 \<le> p then DefaultRateLimitReservePercent else p)"

section \<open>Lemmas\<close>

lemmas reason_prefixes = IneligibleBlockedByPrefix_def IneligibleInferredBlockedByPrefix_def
  IneligibleBackendLimited_def

lemma AvailableSlots_nonneg: "0 \<le> AvailableSlots s"
  by (simp add: AvailableSlots_def Let_def)

lemma AvailableSlots_pos_iff:
  "0 < AvailableSlots s \<longleftrightarrow> \<not> s_Draining s \<and> int (length (s_Running s)) < s_MaxConcurrentAgents s"
  by (auto simp: AvailableSlots_def Let_def)

lemma AvailableSlots_none_iff:
  "AvailableSlots s \<le> 0 \<longleftrightarrow> s_Draining s \<or> s_MaxConcurrentAgents s \<le> int (length (s_Running s))"
  by (auto simp: AvailableSlots_def Let_def)

lemma find_pause_None: "find_pause ps sts = None \<longleftrightarrow> (\<forall>st \<in> set sts. to_lower st \<notin> set ps)"
  by (induction sts) auto

lemma find_pause_Some: "find_pause ps sts = Some st \<Longrightarrow> st \<in> set sts \<and> to_lower st \<in> set ps"
  by (induction sts) (auto split: if_splits)

lemma pausedByAnyInState_None:
  "pausedByAnyInState s = None \<longleftrightarrow>
    (\<forall>(k, r) \<in> set (s_Running s). to_lower (is_State (ru_Issue r)) \<notin> set (s_PauseDispatchWhenAnyInState s)) \<and>
    (\<forall>(k, st) \<in> set (s_PrevIssueStates s). to_lower st \<notin> set (s_PauseDispatchWhenAnyInState s))"
proof (cases "s_PauseDispatchWhenAnyInState s = []")
  case True
  then show ?thesis by (auto simp: pausedByAnyInState_def)
next
  case False
  then have "pausedByAnyInState s = None \<longleftrightarrow>
      find_pause (s_PauseDispatchWhenAnyInState s)
        (map (\<lambda>(k, entry). is_State (ru_Issue entry)) (s_Running s)) = None \<and>
      find_pause (s_PauseDispatchWhenAnyInState s) (map snd (s_PrevIssueStates s)) = None"
    by (simp add: pausedByAnyInState_def split: option.split)
  then show ?thesis by (auto simp: find_pause_None)
qed

lemma first_gating_None:
  "first_gating issue s = None \<longleftrightarrow>
    (\<forall>e \<in> set (mget_or (s_InferredDeps s) (is_Identifier issue) []). \<not> id_Gating e)"
  by (auto simp: first_gating_def find_None_iff)

text \<open>The dependency gate: an unresolved blocker that stacking does not admit, or an inferred edge.\<close>

definition dependency_gated :: "issue \<Rightarrow> state \<Rightarrow> bool" where
  "dependency_gated issue s \<longleftrightarrow>
     (\<exists>b \<in> set (is_BlockedBy issue). \<not> blockerResolvedForDispatch b s) \<and> \<not> reviewStackAdmits issue s \<or>
     (\<exists>e \<in> set (mget_or (s_InferredDeps s) (is_Identifier issue) []). id_Gating e)"

text \<open>Every guard of the ladder before the dependency gates, for reconcile dispatch.\<close>

definition passes_before_dependencies :: "issue \<Rightarrow> state \<Rightarrow> config \<Rightarrow> bool \<Rightarrow> bool" where
  "passes_before_dependencies issue s cfg allowInputRequired \<longleftrightarrow>
     \<not> isTerminalState (is_State issue) s \<and>
     \<not> mhas (s_PausedIdentifiers s) (is_Identifier issue) \<and>
     \<not> mhas (s_DiscardingIdentifiers s) (is_Identifier issue) \<and>
     (mhas (s_InputRequiredIssues s) (is_Identifier issue) \<longrightarrow> allowInputRequired) \<and>
     \<not> mhas (s_PendingInputResumes s) (is_Identifier issue) \<and>
     \<not> mhas (s_Running s) (is_ID issue) \<and> \<not> mhas (s_Claimed s) (is_ID issue) \<and>
     0 < AvailableSlots s \<and> pausedByAnyInState s = None \<and> \<not> per_state_full issue s cfg"

lemma dependency_gated_iff:
  "dependency_gated issue s \<longleftrightarrow>
    firstUnresolvedBlocker issue s \<noteq> None \<and> \<not> reviewStackAdmits issue s \<or> first_gating issue s \<noteq> None"
proof -
  have "firstUnresolvedBlocker issue s \<noteq> None \<longleftrightarrow>
      (\<exists>b \<in> set (is_BlockedBy issue). \<not> blockerResolvedForDispatch b s)"
    by (auto simp: firstUnresolvedBlocker_None)
  moreover have "first_gating issue s \<noteq> None \<longleftrightarrow>
      (\<exists>e \<in> set (mget_or (s_InferredDeps s) (is_Identifier issue) []). id_Gating e)"
    by (auto simp: first_gating_None)
  ultimately show ?thesis by (simp only: dependency_gated_def)
qed

lemma shared_eligible_iff:
  "ineligibleReasonShared issue s cfg allow = [] \<longleftrightarrow>
    passes_before_dependencies issue s cfg allow \<and> \<not> dependency_gated issue s \<and>
    \<not> backendHoldActive s (is_Identifier issue)"
  unfolding dependency_gated_iff passes_before_dependencies_def ineligibleReasonShared_def
  by (auto simp add: reason_prefixes not_le split: option.split)

lemma shared_dependency_iff:
  "(has_prefix (ineligibleReasonShared issue s cfg allow) IneligibleBlockedByPrefix \<or>
    has_prefix (ineligibleReasonShared issue s cfg allow) IneligibleInferredBlockedByPrefix) \<longleftrightarrow>
    passes_before_dependencies issue s cfg allow \<and> dependency_gated issue s"
  unfolding dependency_gated_iff passes_before_dependencies_def ineligibleReasonShared_def
  by (auto simp add: reason_prefixes has_prefix_def not_le split: option.split)

lemma pressure_loop_counts:
  "pressure_loop s probe cfg issues (b, w) =
    (b + int (length (filter (\<lambda>i. \<not> mhas (s_Running s) (is_ID i) \<and>
       (has_prefix (IneligibleReason i probe cfg) IneligibleBlockedByPrefix \<or>
        has_prefix (IneligibleReason i probe cfg) IneligibleInferredBlockedByPrefix)) issues)),
     w + int (length (filter (\<lambda>i. \<not> mhas (s_Running s) (is_ID i) \<and> IsEligible i probe cfg) issues)))"
proof (induction issues arbitrary: b w)
  case Nil
  show ?case by simp
next
  case (Cons i issues)
  have "\<not> has_prefix [] IneligibleBlockedByPrefix" "\<not> has_prefix [] IneligibleInferredBlockedByPrefix"
    by (simp_all add: reason_prefixes has_prefix_def)
  then show ?case using Cons.IH by (simp add: IsEligible_def Let_def)
qed

lemma filter_length_pos: "0 < int (length (filter P xs)) \<longleftrightarrow> (\<exists>x \<in> set xs. P x)"
  by (simp add: filter_empty_conv)

lemma AvailableSlots_probe: "0 < AvailableSlots (pressure_probe s issues) \<longleftrightarrow> \<not> s_Draining s"
  by (simp add: AvailableSlots_pos_iff pressure_probe_def)

lemma reason_dependency_iff:
  "(has_prefix (IneligibleReason issue s cfg) IneligibleBlockedByPrefix \<or>
    has_prefix (IneligibleReason issue s cfg) IneligibleInferredBlockedByPrefix) \<longleftrightarrow>
    \<not> missing_fields issue \<and> isActiveState (is_State issue) s \<and>
    passes_before_dependencies issue s cfg False \<and> dependency_gated issue s"
proof (cases "missing_fields issue \<or> \<not> isActiveState (is_State issue) s")
  case True
  then show ?thesis by (auto simp: IneligibleReason_def reason_prefixes has_prefix_def)
next
  case False
  then show ?thesis using shared_dependency_iff [of issue s cfg False] by (simp add: IneligibleReason_def)
qed

lemma observe_counts:
  assumes "pressure_loop s (pressure_probe s candidates) cfg candidates (0, 0) =
      (int (length (filter H candidates)), int (length (filter W candidates)))"
    and "\<not> s_Draining s"
  shows "dq_TicksObserved (observeDispatchPressure prev s candidates cfg) = dq_TicksObserved prev + 1 \<and>
    dq_EligibleWaiting (observeDispatchPressure prev s candidates cfg) = int (length (filter W candidates)) \<and>
    dq_BlockedByDependency (observeDispatchPressure prev s candidates cfg) = int (length (filter H candidates)) \<and>
    dq_TicksSlotBound (observeDispatchPressure prev s candidates cfg) = dq_TicksSlotBound prev +
      (if s_MaxConcurrentAgents s \<le> int (length (s_Running s)) \<and> (\<exists>i \<in> set candidates. W i) then 1 else 0) \<and>
    dq_TicksDependencyBound (observeDispatchPressure prev s candidates cfg) = dq_TicksDependencyBound prev +
      (if \<not> s_MaxConcurrentAgents s \<le> int (length (s_Running s)) \<and> (\<exists>i \<in> set candidates. H i) then 1 else 0)"
proof -
  have slots: "AvailableSlots s \<le> 0 \<longleftrightarrow> s_MaxConcurrentAgents s \<le> int (length (s_Running s))"
    "0 < AvailableSlots s \<longleftrightarrow> \<not> s_MaxConcurrentAgents s \<le> int (length (s_Running s))"
    using assms(2) by (auto simp: AvailableSlots_none_iff AvailableSlots_pos_iff)
  show ?thesis
    unfolding observeDispatchPressure_def Let_def assms(1)
    by (simp only: prod.case slots filter_length_pos) simp
qed

section \<open>Properties\<close>

text \<open>
  C7. An issue is dispatched by the reconcile loop exactly when every guard holds: it is
  complete, active and not terminal; not paused, being discarded, waiting for input or for an
  input resume; neither running nor claimed; the daemon is not draining and a slot is free; no
  tracked issue sits in a pause state; its state's own limit is not reached; every blocker is
  resolved or stacking admits it; no inferred edge gates it; and no backend hold applies.
\<close>

theorem eligible_iff_all_guards_pass:
  "IsEligible issue s cfg \<longleftrightarrow>
    (is_ID issue \<noteq> [] \<and> is_Identifier issue \<noteq> [] \<and> is_Title issue \<noteq> [] \<and> is_State issue \<noteq> []) \<and>
    isActiveState (is_State issue) s \<and> \<not> isTerminalState (is_State issue) s \<and>
    \<not> mhas (s_PausedIdentifiers s) (is_Identifier issue) \<and>
    \<not> mhas (s_DiscardingIdentifiers s) (is_Identifier issue) \<and>
    \<not> mhas (s_InputRequiredIssues s) (is_Identifier issue) \<and>
    \<not> mhas (s_PendingInputResumes s) (is_Identifier issue) \<and>
    \<not> mhas (s_Running s) (is_ID issue) \<and> \<not> mhas (s_Claimed s) (is_ID issue) \<and>
    \<not> s_Draining s \<and> int (length (s_Running s)) < s_MaxConcurrentAgents s \<and>
    (\<forall>(k, r) \<in> set (s_Running s). to_lower (is_State (ru_Issue r)) \<notin> set (s_PauseDispatchWhenAnyInState s)) \<and>
    (\<forall>(k, st) \<in> set (s_PrevIssueStates s). to_lower st \<notin> set (s_PauseDispatchWhenAnyInState s)) \<and>
    (\<forall>limit. mget (ag_MaxConcurrentAgentsByState (cf_Agent cfg)) (to_lower (is_State issue)) = Some limit \<longrightarrow>
      countRunningInState s (is_State issue) < limit) \<and>
    ((\<forall>b \<in> set (is_BlockedBy issue). blockerResolvedForDispatch b s) \<or> reviewStackAdmits issue s) \<and>
    (\<forall>e \<in> set (mget_or (s_InferredDeps s) (is_Identifier issue) []). \<not> id_Gating e) \<and>
    \<not> backendHoldActive s (is_Identifier issue)"
proof -
  have full: "\<not> per_state_full issue s cfg \<longleftrightarrow>
      (\<forall>limit. mget (ag_MaxConcurrentAgentsByState (cf_Agent cfg)) (to_lower (is_State issue)) = Some limit \<longrightarrow>
        countRunningInState s (is_State issue) < limit)"
    by (auto simp: per_state_full_def split: option.split)
  have "IsEligible issue s cfg \<longleftrightarrow> \<not> missing_fields issue \<and> isActiveState (is_State issue) s \<and>
      passes_before_dependencies issue s cfg False \<and> \<not> dependency_gated issue s \<and>
      \<not> backendHoldActive s (is_Identifier issue)"
    by (simp add: IsEligible_def IneligibleReason_def shared_eligible_iff)
  then show ?thesis
    unfolding passes_before_dependencies_def pausedByAnyInState_None AvailableSlots_pos_iff full
      missing_fields_def dependency_gated_def by blast
qed

theorem eligible_iff_all_guards_pass_witness:
  "IsEligible (ex_issue ''ENG-1'') ex_state ex_config \<and>
    \<not> IsEligible (ex_issue ''ENG-1'') (ex_state\<lparr>s_Draining := True\<rparr>) ex_config"
proof -
  have limit: "\<forall>limit. mget (ag_MaxConcurrentAgentsByState (cf_Agent ex_config))
        (to_lower (is_State (ex_issue ''ENG-1''))) = Some limit \<longrightarrow>
      countRunningInState ex_state (is_State (ex_issue ''ENG-1'')) < limit"
    by (simp add: ex_defs countRunningInState_def)
  have "IsEligible (ex_issue ''ENG-1'') ex_state ex_config"
    unfolding eligible_iff_all_guards_pass by (intro conjI limit; code_simp)
  moreover have "\<not> IsEligible (ex_issue ''ENG-1'') (ex_state\<lparr>s_Draining := True\<rparr>) ex_config"
    unfolding eligible_iff_all_guards_pass by simp
  ultimately show ?thesis by blast
qed

text \<open>
  The pressure counters say which constraint was binding: after a tick that is not draining,
  the slot-bound counter grows exactly when no slot is free and some candidate that is not
  running would be eligible with more capacity; the dependency-bound counter grows exactly when
  a slot is free and some candidate is held by a dependency gate and by nothing before it. At
  most one of them grows.
\<close>

theorem dispatch_pressure_exact:
  assumes "\<not> s_Draining s"
  shows "let out = observeDispatchPressure prev s candidates cfg;
             probe = pressure_probe s candidates;
             full = (s_MaxConcurrentAgents s \<le> int (length (s_Running s)));
             waits = (\<lambda>i. \<not> mhas (s_Running s) (is_ID i) \<and> IsEligible i probe cfg);
             held = (\<lambda>i. \<not> mhas (s_Running s) (is_ID i) \<and> \<not> missing_fields i \<and>
               isActiveState (is_State i) probe \<and> passes_before_dependencies i probe cfg False \<and>
               dependency_gated i probe)
         in dq_TicksObserved out = dq_TicksObserved prev + 1 \<and>
            dq_EligibleWaiting out = int (length (filter waits candidates)) \<and>
            dq_BlockedByDependency out = int (length (filter held candidates)) \<and>
            dq_TicksSlotBound out = dq_TicksSlotBound prev +
              (if full \<and> (\<exists>i \<in> set candidates. waits i) then 1 else 0) \<and>
            dq_TicksDependencyBound out = dq_TicksDependencyBound prev +
              (if \<not> full \<and> (\<exists>i \<in> set candidates. held i) then 1 else 0)"
  unfolding Let_def
  by (rule observe_counts [OF _ assms])
    (simp only: pressure_loop_counts reason_dependency_iff add_0 conj_assoc)

theorem dispatch_pressure_exact_witness:
  "dq_TicksDependencyBound (observeDispatchPressure zero_pressure ex_state
      [ex_issue ''ENG-1''\<lparr>is_BlockedBy := [ex_blocker ''ENG-2'']\<rparr>] ex_config) = 1"
proof -
  let ?i = "ex_issue ''ENG-1''\<lparr>is_BlockedBy := [ex_blocker ''ENG-2'']\<rparr>"
  have nd: "\<not> s_Draining ex_state" by (simp add: ex_defs)
  have "\<not> missing_fields ?i \<and> isActiveState (is_State ?i) (pressure_probe ex_state [?i]) \<and>
      passes_before_dependencies ?i (pressure_probe ex_state [?i]) ex_config False \<and>
      dependency_gated ?i (pressure_probe ex_state [?i]) \<and> \<not> mhas (s_Running ex_state) (is_ID ?i)"
    unfolding passes_before_dependencies_def pausedByAnyInState_None
    by (intro conjI; code_simp)
  moreover have "\<not> s_MaxConcurrentAgents ex_state \<le> int (length (s_Running ex_state))"
    by (simp add: ex_defs)
  ultimately show ?thesis
    using dispatch_pressure_exact [OF nd, of zero_pressure "[?i]" ex_config]
    by (simp add: Let_def zero_pressure_def)
qed

text \<open>
  Reads are shed only inside the write reserve: whatever percentage is configured, an
  adapter that reports nothing is never shed, and a budget that is not partly used is never shed,
  so a freshly reset budget always polls again.
\<close>

theorem shedding_is_never_permanent:
  assumes "sn_RequestsLimit snap \<le> sn_RequestsRemaining snap" "sn_RequestsLimit snap < 2 ^ 56"
  shows "\<not> shouldShedPollingReads None (rateLimitReservePercent pct) \<and>
    \<not> shouldShedPollingReads (Some None) (rateLimitReservePercent pct) \<and>
    \<not> shouldShedPollingReads (Some (Some snap)) (rateLimitReservePercent pct)"
proof -
  let ?p = "rateLimitReservePercent pct"
  have p: "0 \<le> ?p" "?p < 100"
    by (auto simp: rateLimitReservePercent_def DefaultRateLimitReservePercent_def split: option.split)
  have "\<not> shouldShedPollingReads (Some (Some snap)) ?p"
  proof (cases "0 < sn_RequestsLimit snap \<and> 0 < ?p")
    case True
    have mono: "sn_RequestsLimit snap * ?p \<le> sn_RequestsLimit snap * 100"
      using True p by (intro mult_left_mono) auto
    have "0 \<le> sn_RequestsLimit snap * ?p" using True by simp
    then have "wrap64 (sn_RequestsLimit snap * ?p) = sn_RequestsLimit snap * ?p"
      using mono assms(2) by (intro wrap64_id) (simp_all add: int64_min_def int64_max_def)
    moreover have "sn_RequestsLimit snap * ?p div 100 \<le> sn_RequestsLimit snap"
      using zdiv_mono1 [OF mono, of 100] by simp
    ultimately show ?thesis
      using True assms(1) go_div_nonneg [of "sn_RequestsLimit snap * ?p" 100]
      by (simp add: shouldShedPollingReads_def Let_def)
  next
    case False
    then show ?thesis by (auto simp: shouldShedPollingReads_def)
  qed
  then show ?thesis by (simp add: shouldShedPollingReads_def)
qed

theorem shedding_is_never_permanent_witness:
  "\<not> shouldShedPollingReads (Some (Some \<lparr>sn_RequestsLimit = 2500, sn_RequestsRemaining = 2500,
      sn_Reset = None, sn_ComplexityLimit = 0, sn_ComplexityRemaining = 0\<rparr>)) (rateLimitReservePercent (Some 99))"
  using shedding_is_never_permanent [of "\<lparr>sn_RequestsLimit = 2500, sn_RequestsRemaining = 2500,
      sn_Reset = None, sn_ComplexityLimit = 0, sn_ComplexityRemaining = 0\<rparr>" "Some 99"] by simp

end
