(* ===== verification/Retry.thy ===== *)
theory Retry
  imports Orch_State
begin

text \<open>
  Retries and claims (\<open>internal/orchestrator/retry.go\<close>) and pause reasons
  (\<open>pause_reason.go\<close>). The \<open>int\<close> product of the backoff and the \<open>time.Duration\<close> product of the
  due time are written with their 64-bit wrap-around.
\<close>

section \<open>Operations\<close>

definition BackoffMs :: "int \<Rightarrow> int \<Rightarrow> int" where
  "BackoffMs attempt maxMs =
     (let attempt = (if attempt \<le> 0 then 1 else attempt);
          shift = attempt - 1;
          shift = (if 30 < shift then 30 else shift);
          delay = wrap64 (10000 * wrap64 (2 ^ nat shift))
      in min delay maxMs)"

definition ScheduleRetry ::
  "state \<Rightarrow> string \<Rightarrow> int \<Rightarrow> string \<Rightarrow> string \<Rightarrow> time \<Rightarrow> int \<Rightarrow> state" where
  "ScheduleRetry s issueID attempt identifier errMsg now delayMs =
     (let dueAt = now + wrap64 (delayMs * millisecond);
          errPtr = (if errMsg \<noteq> [] then Some errMsg else None);
          entry = \<lparr>rt_IssueID = issueID, rt_Identifier = identifier, rt_Attempt = attempt,
            rt_DueAt = dueAt, rt_Error = errPtr\<rparr>
      in s\<lparr>s_RetryAttempts := mput (s_RetryAttempts s) issueID entry,
           s_Claimed := mput (s_Claimed s) issueID ()\<rparr>)"

definition CancelRetry :: "state \<Rightarrow> string \<Rightarrow> state" where
  "CancelRetry s issueID =
     s\<lparr>s_RetryAttempts := mdel (s_RetryAttempts s) issueID,
       s_Claimed := mdel (s_Claimed s) issueID\<rparr>"

definition setPauseReason :: "state \<Rightarrow> string \<Rightarrow> string \<Rightarrow> state" where
  "setPauseReason s identifier reason =
     (if identifier = [] \<or> reason = [] then s
      else s\<lparr>s_PauseReasons := mput (s_PauseReasons s) identifier reason\<rparr>)"

definition clearPauseReason :: "state \<Rightarrow> string \<Rightarrow> state" where
  "clearPauseReason s identifier =
     s\<lparr>s_PauseReasons := mdel (s_PauseReasons s) identifier\<rparr>"

section \<open>Lemmas\<close>

definition backoff_exponent :: "int \<Rightarrow> nat" where
  "backoff_exponent attempt = nat (min (max attempt 1 - 1) 30)"

lemma pow2_le_30: "n \<le> 30 \<Longrightarrow> (2 :: int) ^ n \<le> 2 ^ 30"
  by (rule power_increasing) simp_all

lemma no_wrap: "0 < p \<Longrightarrow> p \<le> 2 ^ 30 \<Longrightarrow> wrap64 p = p \<and> wrap64 (10000 * p) = 10000 * p"
  by (simp add: wrap64_id int64_min_def int64_max_def)

lemma BackoffMs_closed: "BackoffMs attempt maxMs = min (10000 * 2 ^ backoff_exponent attempt) maxMs"
proof -
  let ?n = "backoff_exponent attempt"
  have "(2 :: int) ^ ?n \<le> 2 ^ 30" by (rule pow2_le_30) (simp add: backoff_exponent_def)
  moreover have "(0 :: int) < 2 ^ ?n" by simp
  ultimately have "wrap64 (2 ^ ?n) = 2 ^ ?n \<and> wrap64 (10000 * 2 ^ ?n) = 10000 * 2 ^ ?n"
    by (intro no_wrap)
  moreover have "nat (if 30 < (if attempt \<le> 0 then 1 else attempt) - 1 then 30
      else (if attempt \<le> 0 then 1 else attempt) - 1) = ?n"
    by (auto simp: backoff_exponent_def min_def max_def)
  ultimately show ?thesis by (simp add: BackoffMs_def Let_def)
qed

lemma backoff_exponent_mono: "a \<le> b \<Longrightarrow> backoff_exponent a \<le> backoff_exponent b"
  unfolding backoff_exponent_def by (intro nat_mono min.mono diff_right_mono max.mono order_refl)

lemma ScheduleRetry_fields [simp]:
  "s_Claimed (ScheduleRetry s k a i e now d) = mput (s_Claimed s) k ()"
  "mget (s_RetryAttempts (ScheduleRetry s k a i e now d)) k' =
    (if k' = k then Some \<lparr>rt_IssueID = k, rt_Identifier = i, rt_Attempt = a,
       rt_DueAt = now + wrap64 (d * millisecond), rt_Error = (if e \<noteq> [] then Some e else None)\<rparr>
     else mget (s_RetryAttempts s) k')"
  "s_Running (ScheduleRetry s k a i e now d) = s_Running s"
  by (simp_all add: ScheduleRetry_def Let_def)

lemma CancelRetry_fields [simp]:
  "s_Claimed (CancelRetry s k) = mdel (s_Claimed s) k"
  "s_RetryAttempts (CancelRetry s k) = mdel (s_RetryAttempts s) k"
  "s_Running (CancelRetry s k) = s_Running s"
  by (simp_all add: CancelRetry_def)

text \<open>Every pending retry owns a claim, so nothing else can dispatch its issue.\<close>

definition retries_claimed :: "state \<Rightarrow> bool" where
  "retries_claimed s \<longleftrightarrow> (\<forall>k. mhas (s_RetryAttempts s) k \<longrightarrow> mhas (s_Claimed s) k)"

lemma retries_claimed_schedule: "retries_claimed s \<Longrightarrow> retries_claimed (ScheduleRetry s k a i e now d)"
  by (auto simp: retries_claimed_def mhas_def)

lemma retries_claimed_cancel: "retries_claimed s \<Longrightarrow> retries_claimed (CancelRetry s k)"
  by (auto simp: retries_claimed_def)

section \<open>Properties\<close>

text \<open>
  The backoff is the documented one and never overflows: ten seconds doubled per attempt,
  the exponent capped at thirty, the result capped at the configured maximum. It never shrinks
  as the attempts grow, and with a positive maximum it is always positive.
\<close>

theorem backoff_formula:
  assumes "0 < maxMs" "a \<le> b"
  shows "BackoffMs a maxMs = min (10000 * 2 ^ nat (min (max a 1 - 1) 30)) maxMs \<and>
    0 < BackoffMs a maxMs \<and> BackoffMs a maxMs \<le> maxMs \<and> BackoffMs a maxMs \<le> BackoffMs b maxMs"
proof -
  have "(2 :: int) ^ backoff_exponent a \<le> 2 ^ backoff_exponent b"
    by (rule power_increasing) (use assms(2) backoff_exponent_mono in auto)
  then have "min (10000 * 2 ^ backoff_exponent a) maxMs \<le> min (10000 * 2 ^ backoff_exponent b) maxMs"
    by (intro min.mono) simp_all
  moreover have "0 < min (10000 * 2 ^ backoff_exponent a) maxMs" using assms(1) by (simp only: min_less_iff_conj) simp
  ultimately show ?thesis
    unfolding BackoffMs_closed backoff_exponent_def [symmetric] by (intro conjI refl min.cobounded2)
qed

theorem backoff_formula_witness:
  "BackoffMs 3 300000 = 40000 \<and> BackoffMs 3 300000 \<le> BackoffMs 6 300000"
  using backoff_formula [of 300000 3 6] by simp

text \<open>
  Scheduling a retry records it with its due time and claims the issue, cancelling it
  releases both, and neither touches any other issue; both keep the invariant that every pending
  retry owns its issue's claim.
\<close>

theorem retry_schedule_cancel:
  assumes "retries_claimed s" "\<bar>delayMs\<bar> \<le> 6 * 60 * 60 * 1000"
  shows "let s' = ScheduleRetry s k attempt ident err now delayMs in
    (\<exists>r. mget (s_RetryAttempts s') k = Some r \<and> rt_DueAt r = now + delayMs * millisecond \<and>
       rt_Attempt r = attempt \<and> rt_Identifier r = ident) \<and>
    mhas (s_Claimed s') k \<and> retries_claimed s' \<and>
    \<not> mhas (s_RetryAttempts (CancelRetry s' k)) k \<and> \<not> mhas (s_Claimed (CancelRetry s' k)) k \<and>
    retries_claimed (CancelRetry s' k) \<and>
    (\<forall>k'. k' \<noteq> k \<longrightarrow>
      mget (s_RetryAttempts (CancelRetry s' k)) k' = mget (s_RetryAttempts s) k' \<and>
      mget (s_Claimed (CancelRetry s' k)) k' = mget (s_Claimed s) k')"
proof -
  have "wrap64 (delayMs * millisecond) = delayMs * millisecond"
    using assms(2) by (intro wrap64_id) (simp_all add: time_simps)
  then show ?thesis
    using assms(1) by (simp add: Let_def retries_claimed_schedule retries_claimed_cancel)
qed

theorem retry_schedule_cancel_witness:
  "\<not> mhas (s_Claimed (CancelRetry (ScheduleRetry ex_state ''id'' 1 ''ENG-1'' [] 5 10000) ''id'')) ''id''"
proof -
  have "retries_claimed ex_state" by (simp add: retries_claimed_def ex_state_def NewState_def)
  from retry_schedule_cancel [OF this, of 10000 "''id''" 1 "''ENG-1''" "[]" 5] show ?thesis
    by (simp only: Let_def) simp
qed

end
