(* ===== verification/Automation_Queue.thy ===== *)
theory Automation_Queue
  imports Dispatch Retry
begin

text \<open>
  The durable automation queue (\<open>internal/orchestrator/automation_queue.go\<close>): entries in a map,
  their order in a list, a length cap with back-pressure on the producers, and the
  classification of ineligibility reasons into those that wait and those that drop.
\<close>

section \<open>Triggers, reasons and keys\<close>

definition AutomationTriggerInputRequired :: string where "AutomationTriggerInputRequired = ''input_required''"
definition AutomationTriggerTrackerComment :: string where "AutomationTriggerTrackerComment = ''tracker_comment_added''"
definition AutomationTriggerIssueEnteredState :: string where "AutomationTriggerIssueEnteredState = ''issue_entered_state''"
definition AutomationTriggerIssueMovedBacklog :: string where "AutomationTriggerIssueMovedBacklog = ''issue_moved_to_backlog''"
definition AutomationTriggerRunFailed :: string where "AutomationTriggerRunFailed = ''run_failed''"
definition AutomationTriggerPROpened :: string where "AutomationTriggerPROpened = ''pr_opened''"
definition AutomationTriggerRateLimited :: string where "AutomationTriggerRateLimited = ''rate_limited''"
definition AutomationTriggerBlockersResolved :: string where "AutomationTriggerBlockersResolved = ''blockers_resolved''"
definition TestAutomationTriggerType :: string where "TestAutomationTriggerType = ''test''"

definition AutomationQueueReasonNoSlots :: string where "AutomationQueueReasonNoSlots = ''no_slots''"
definition AutomationQueueReasonPerStateLimit :: string where "AutomationQueueReasonPerStateLimit = ''per_state_limit''"
definition AutomationQueueReasonAlreadyRunning :: string where "AutomationQueueReasonAlreadyRunning = ''already_running''"
definition AutomationQueueReasonClaimed :: string where "AutomationQueueReasonClaimed = ''claimed''"
definition AutomationQueueReasonInputRequired :: string where "AutomationQueueReasonInputRequired = ''input_required''"
definition AutomationQueueReasonPendingInputResume :: string where "AutomationQueueReasonPendingInputResume = ''pending_input_resume''"
definition AutomationQueueReasonBlockedBy :: string where "AutomationQueueReasonBlockedBy = ''blocked_by''"
definition AutomationQueueReasonInferredBlockedBy :: string where "AutomationQueueReasonInferredBlockedBy = ''inferred_blocked_by''"
definition AutomationQueueReasonPausedByState :: string where "AutomationQueueReasonPausedByState = ''paused_by_state''"
definition AutomationQueueReasonBackendLimited :: string where "AutomationQueueReasonBackendLimited = IneligibleBackendLimited"

lemmas trigger_types = AutomationTriggerInputRequired_def AutomationTriggerTrackerComment_def
  AutomationTriggerIssueEnteredState_def AutomationTriggerIssueMovedBacklog_def
  AutomationTriggerRunFailed_def AutomationTriggerPROpened_def AutomationTriggerRateLimited_def
  AutomationTriggerBlockersResolved_def TestAutomationTriggerType_def

lemmas queue_reasons = AutomationQueueReasonNoSlots_def AutomationQueueReasonPerStateLimit_def
  AutomationQueueReasonAlreadyRunning_def AutomationQueueReasonClaimed_def
  AutomationQueueReasonInputRequired_def AutomationQueueReasonPendingInputResume_def
  AutomationQueueReasonBlockedBy_def AutomationQueueReasonInferredBlockedBy_def
  AutomationQueueReasonPausedByState_def AutomationQueueReasonBackendLimited_def
  IneligibleBackendLimited_def

text \<open>\<open>t.UnixNano()\<close>: nanoseconds since 1970, which is 62135596800 s after Go's zero time.\<close>

definition unix_nano :: "time \<Rightarrow> int" where
  "unix_nano t = wrap64 (t - 62135596800 * second)"

definition key_suffix :: "automation_trigger_context \<Rightarrow> string list" where
  "key_suffix t =
     (if tr_Type t = AutomationTriggerPROpened then [tr_PRURL t]
      else if tr_Type t = AutomationTriggerRateLimited then [tr_FailedProfile t, tr_FailedBackend t]
      else if tr_Type t = AutomationTriggerInputRequired
      then [if tr_CommentID t = [] then tr_InputContext t else tr_CommentID t]
      else if tr_Type t = AutomationTriggerRunFailed then [itoa (tr_RetryAttempt t)]
      else if tr_Type t = AutomationTriggerBlockersResolved then [itoa (tr_DependencyAuditVersion t)]
      else if tr_Type t = AutomationTriggerTrackerComment
      then [if tr_CommentID t \<noteq> [] then tr_CommentID t
            else if tr_CommentCreatedAt t \<noteq> [] then tr_CommentCreatedAt t
            else itoa (unix_nano (tr_FiredAt t))]
      else if tr_Type t = AutomationTriggerIssueEnteredState \<or> tr_Type t = AutomationTriggerIssueMovedBacklog
      then [tr_PreviousState t, tr_TriggerState t] @
           (if isZero (tr_FiredAt t) then [] else [itoa (unix_nano (tr_FiredAt t))])
      else if tr_Type t = TestAutomationTriggerType then [itoa (unix_nano (tr_FiredAt t))]
      else [])"

definition automationQueueKey :: "issue \<Rightarrow> automation_dispatch \<Rightarrow> string" where
  "automationQueueKey issue dispatch =
     (let issueKey = (if is_ID issue = [] then is_Identifier issue else is_ID issue)
      in join_with '':'' ([''automation'', ad_AutomationID dispatch, tr_Type (ad_Trigger dispatch), issueKey] @
           key_suffix (ad_Trigger dispatch)))"

definition automationQueueReasonFromString :: "string \<Rightarrow> string \<times> string" where
  "automationQueueReasonFromString reason =
     (case cut_char (CHR '':'') reason of (before, after, ok) \<Rightarrow>
        if \<not> ok then (reason, [])
        else if before = AutomationQueueReasonBlockedBy \<or> before = AutomationQueueReasonInferredBlockedBy
        then (before, after)
        else (reason, []))"

definition automationQueueableReason :: "string \<Rightarrow> (string \<times> string) option" where
  "automationQueueableReason reason =
     (case cut_prefix reason ''paused_by_state:'' of
        Some st \<Rightarrow> Some (AutomationQueueReasonPausedByState, st)
      | None \<Rightarrow>
          let (queueReason, detail) = automationQueueReasonFromString reason
          in if queueReason \<in> {AutomationQueueReasonNoSlots, AutomationQueueReasonPerStateLimit,
                AutomationQueueReasonAlreadyRunning, AutomationQueueReasonClaimed,
                AutomationQueueReasonInputRequired, AutomationQueueReasonPendingInputResume,
                AutomationQueueReasonBlockedBy, AutomationQueueReasonInferredBlockedBy,
                AutomationQueueReasonBackendLimited}
             then Some (queueReason, detail) else None)"

definition IsQueueableAutomationReason :: "string \<Rightarrow> bool" where
  "IsQueueableAutomationReason reason = (automationQueueableReason reason \<noteq> None)"

definition automationQueueStatusForReason :: "string \<Rightarrow> automation_queue_status" where
  "automationQueueStatusForReason reason =
     (if reason = AutomationQueueReasonBlockedBy \<or> reason = AutomationQueueReasonInferredBlockedBy
      then AutomationQueueBlocked else AutomationQueueQueued)"

section \<open>Back-pressure\<close>

definition automationQueueMaxLength :: "state \<Rightarrow> int" where
  "automationQueueMaxLength s =
     (if 0 < bp_MaxLength (s_AutomationQueueBackpressure s)
      then bp_MaxLength (s_AutomationQueueBackpressure s) else 100)"

definition automationQueueLowWater :: "int \<Rightarrow> int" where
  "automationQueueLowWater maxLength =
     (if maxLength \<le> 1 then 1
      else let low = go_div (wrap64 (maxLength * 8)) 10 in if low < 1 then 1 else low)"

definition refreshAutomationQueueBackpressure :: "state \<Rightarrow> state" where
  "refreshAutomationQueueBackpressure s =
     (let maxLength = automationQueueMaxLength s;
          len = int (length (s_AutomationQueue s));
          bp = (s_AutomationQueueBackpressure s)\<lparr>bp_Length := len, bp_MaxLength := maxLength\<rparr>
      in if maxLength \<le> len
         then s\<lparr>s_AutomationQueueBackpressure := bp\<lparr>bp_Saturated := True, bp_PausedProducers := True\<rparr>\<rparr>
         else s\<lparr>s_AutomationQueueBackpressure := bp\<lparr>bp_Saturated := False,
             bp_PausedProducers := bp_PausedProducers bp \<and> \<not> len < automationQueueLowWater maxLength\<rparr>\<rparr>)"

definition automationQueueCanAccept :: "state \<Rightarrow> string \<Rightarrow> bool" where
  "automationQueueCanAccept s key =
     (mhas (s_AutomationQueue s) key \<or> int (length (s_AutomationQueue s)) < automationQueueMaxLength s)"

definition recordAutomationQueueRejected ::
  "state \<Rightarrow> automation_dispatch \<Rightarrow> issue \<Rightarrow> string \<Rightarrow> time \<Rightarrow> state" where
  "recordAutomationQueueRejected s dispatch issue reason now =
     (let bp = s_AutomationQueueBackpressure s
      in s\<lparr>s_AutomationQueueBackpressure := bp\<lparr>
           bp_Length := int (length (s_AutomationQueue s)), bp_MaxLength := automationQueueMaxLength s,
           bp_Saturated := True, bp_PausedProducers := True,
           bp_RejectedSinceBoot := bp_RejectedSinceBoot bp + 1, bp_LastRejectedAt := now,
           bp_LastRejectedReason := join_with '':'' [reason, ad_AutomationID dispatch,
             tr_Type (ad_Trigger dispatch), is_Identifier issue],
           bp_LastRejectedAutomationID := ad_AutomationID dispatch,
           bp_LastRejectedTrigger := tr_Type (ad_Trigger dispatch),
           bp_LastRejectedIdentifier := is_Identifier issue\<rparr>\<rparr>)"

section \<open>The queue\<close>

definition ensureAutomationQueueState :: "state \<Rightarrow> state" where
  "ensureAutomationQueueState s = refreshAutomationQueueBackpressure s"

definition new_entry ::
  "string \<Rightarrow> issue \<Rightarrow> automation_dispatch \<Rightarrow> string \<Rightarrow> string \<Rightarrow> time \<Rightarrow> time \<Rightarrow> automation_queue_entry" where
  "new_entry k issue dispatch queueReason detail firedAt now =
     \<lparr>aq_ID = k, aq_AutomationID = ad_AutomationID dispatch, aq_TriggerType = tr_Type (ad_Trigger dispatch),
      aq_Issue = issue, aq_ProfileName = ad_ProfileName dispatch, aq_Instructions = ad_Instructions dispatch,
      aq_Trigger = ad_Trigger dispatch, aq_AutoResume = ad_AutoResume dispatch,
      aq_MoveToState = ad_MoveToState dispatch, aq_UseIssueLifecycle = ad_UseIssueLifecycle dispatch,
      aq_Status = automationQueueStatusForReason queueReason, aq_Reason = queueReason,
      aq_ReasonDetail = detail, aq_QueuedAt = now, aq_FiredAt = firedAt, aq_LastFiredAt = firedAt,
      aq_LastAttemptAt = now, aq_AttemptCount = 1, aq_LastError = []\<rparr>"

definition refresh_entry ::
  "automation_queue_entry \<Rightarrow> issue \<Rightarrow> automation_dispatch \<Rightarrow> string \<Rightarrow> string \<Rightarrow> time \<Rightarrow> time \<Rightarrow> automation_queue_entry" where
  "refresh_entry e issue dispatch queueReason detail firedAt now =
     e\<lparr>aq_Issue := issue, aq_ProfileName := ad_ProfileName dispatch,
       aq_Instructions := ad_Instructions dispatch, aq_Trigger := ad_Trigger dispatch,
       aq_AutoResume := ad_AutoResume dispatch, aq_MoveToState := ad_MoveToState dispatch,
       aq_UseIssueLifecycle := ad_UseIssueLifecycle dispatch,
       aq_Status := automationQueueStatusForReason queueReason, aq_Reason := queueReason,
       aq_ReasonDetail := detail, aq_LastFiredAt := firedAt, aq_LastAttemptAt := now,
       aq_AttemptCount := aq_AttemptCount e + 1\<rparr>"

definition enqueueAutomation ::
  "state \<Rightarrow> issue \<Rightarrow> automation_dispatch \<Rightarrow> string \<Rightarrow> time \<Rightarrow> state \<times> bool" where
  "enqueueAutomation s issue dispatch reason now =
     (let s = ensureAutomationQueueState s;
          k = automationQueueKey issue dispatch;
          (queueReason, detail) = automationQueueReasonFromString reason;
          firedAt = (if isZero (tr_FiredAt (ad_Trigger dispatch)) then now else tr_FiredAt (ad_Trigger dispatch))
      in case mget (s_AutomationQueue s) k of
           Some e \<Rightarrow>
             (refreshAutomationQueueBackpressure (s\<lparr>s_AutomationQueue := mput (s_AutomationQueue s) k
                (refresh_entry e issue dispatch queueReason detail firedAt now)\<rparr>), True)
         | None \<Rightarrow>
             if \<not> automationQueueCanAccept s k
             then (recordAutomationQueueRejected s dispatch issue ''queue_full'' now, False)
             else (refreshAutomationQueueBackpressure (s\<lparr>
                 s_AutomationQueue := mput (s_AutomationQueue s) k
                   (new_entry k issue dispatch queueReason detail firedAt now),
                 s_AutomationQueueOrder := s_AutomationQueueOrder s @ [k]\<rparr>), True))"

definition automationDispatchFromQueueEntry :: "automation_queue_entry \<Rightarrow> automation_dispatch" where
  "automationDispatchFromQueueEntry e =
     \<lparr>ad_AutomationID = aq_AutomationID e, ad_ProfileName = aq_ProfileName e,
      ad_Instructions = aq_Instructions e, ad_Trigger = aq_Trigger e, ad_AutoResume = aq_AutoResume e,
      ad_MoveToState = aq_MoveToState e, ad_UseIssueLifecycle = aq_UseIssueLifecycle e\<rparr>"

definition sortedAutomationQueue :: "state \<Rightarrow> automation_queue_entry list" where
  "sortedAutomationQueue s = List.map_filter (mget (s_AutomationQueue s)) (s_AutomationQueueOrder s)"

definition removeAutomationQueueEntry :: "state \<Rightarrow> string \<Rightarrow> state" where
  "removeAutomationQueueEntry s k =
     (let s = ensureAutomationQueueState s
      in refreshAutomationQueueBackpressure (s\<lparr>
           s_AutomationQueue := mdel (s_AutomationQueue s) k,
           s_AutomationQueueOrder := remove1 k (s_AutomationQueueOrder s)\<rparr>))"

definition updateAutomationQueueEntryReason ::
  "automation_queue_entry \<Rightarrow> string \<Rightarrow> time \<Rightarrow> automation_queue_entry option" where
  "updateAutomationQueueEntryReason e reason now =
     (case automationQueueableReason reason of
        None \<Rightarrow> None
      | Some (queueReason, detail) \<Rightarrow>
          Some (e\<lparr>aq_Status := automationQueueStatusForReason queueReason, aq_Reason := queueReason,
            aq_ReasonDetail := detail, aq_LastAttemptAt := now, aq_AttemptCount := aq_AttemptCount e + 1\<rparr>))"

definition claimPROpenedDedup :: "state \<Rightarrow> issue \<Rightarrow> automation_dispatch \<Rightarrow> state \<times> bool" where
  "claimPROpenedDedup s issue dispatch =
     (if tr_Type (ad_Trigger dispatch) \<noteq> AutomationTriggerPROpened then (s, True)
      else if tr_PRURL (ad_Trigger dispatch) = [] then (s, True)
      else let key = is_Identifier issue @ ''|'' @ tr_PRURL (ad_Trigger dispatch) @ ''|'' @ ad_AutomationID dispatch
      in if mhas (s_PROpenedDispatched s) key
         then (s\<lparr>s_AutomationDroppedPROpenedDedupTotal := s_AutomationDroppedPROpenedDedupTotal s + 1\<rparr>, False)
         else (s\<lparr>s_PROpenedDispatched := mput (s_PROpenedDispatched s) key (),
                 s_AutomationDispatchesPROpenedTotal := s_AutomationDispatchesPROpenedTotal s + 1\<rparr>, True))"

text \<open>\<open>lookupCandidate\<close>: a queued entry's issue in the tick's fetch, by ID or identifier.\<close>

definition lookupCandidate :: "(string, issue) gomap \<Rightarrow> issue \<Rightarrow> issue option" where
  "lookupCandidate candidates target =
     (case (if is_ID target \<noteq> [] then mget candidates (is_ID target) else None) of
        Some hit \<Rightarrow> Some hit
      | None \<Rightarrow> if is_Identifier target \<noteq> [] then mget candidates (is_Identifier target) else None)"

section \<open>Lemmas\<close>

lemma refresh_fields [simp]:
  "s_AutomationQueue (refreshAutomationQueueBackpressure s) = s_AutomationQueue s"
  "s_AutomationQueueOrder (refreshAutomationQueueBackpressure s) = s_AutomationQueueOrder s"
  "automationQueueMaxLength (refreshAutomationQueueBackpressure s) = automationQueueMaxLength s"
  "s_Running (refreshAutomationQueueBackpressure s) = s_Running s"
  by (simp_all add: refreshAutomationQueueBackpressure_def automationQueueMaxLength_def Let_def)

lemma max_length_cong:
  "automationQueueMaxLength (s\<lparr>s_AutomationQueue := q\<rparr>) = automationQueueMaxLength s"
  "automationQueueMaxLength (s\<lparr>s_AutomationQueue := q, s_AutomationQueueOrder := ord\<rparr>) = automationQueueMaxLength s"
  by (simp_all add: automationQueueMaxLength_def)

lemma rejected_fields [simp]:
  "s_AutomationQueue (recordAutomationQueueRejected s d i r now) = s_AutomationQueue s"
  "s_AutomationQueueOrder (recordAutomationQueueRejected s d i r now) = s_AutomationQueueOrder s"
  "automationQueueMaxLength (recordAutomationQueueRejected s d i r now) = automationQueueMaxLength s"
  by (simp_all add: recordAutomationQueueRejected_def automationQueueMaxLength_def Let_def)

lemma max_length_pos: "0 < automationQueueMaxLength s"
  by (simp add: automationQueueMaxLength_def)

text \<open>Map and order agree, and every entry is stored under its own key.\<close>

definition queue_ok :: "state \<Rightarrow> bool" where
  "queue_ok s \<longleftrightarrow> mwf (s_AutomationQueue s) \<and> distinct (s_AutomationQueueOrder s) \<and>
     set (s_AutomationQueueOrder s) = set (mkeys (s_AutomationQueue s)) \<and>
     (\<forall>k e. mget (s_AutomationQueue s) k = Some e \<longrightarrow> aq_ID e = k)"

lemma queue_ok_length: "queue_ok s \<Longrightarrow> length (s_AutomationQueueOrder s) = length (s_AutomationQueue s)"
proof -
  assume ok: "queue_ok s"
  then have "length (s_AutomationQueueOrder s) = card (set (mkeys (s_AutomationQueue s)))"
    using distinct_card [of "s_AutomationQueueOrder s"] by (simp add: queue_ok_def)
  also have "\<dots> = length (s_AutomationQueue s)"
    using ok distinct_card [of "mkeys (s_AutomationQueue s)"] by (simp add: queue_ok_def mwf_def) (simp add: mkeys_def)
  finally show ?thesis .
qed

lemma queue_ok_has: "queue_ok s \<Longrightarrow> mhas (s_AutomationQueue s) k \<longleftrightarrow> k \<in> set (s_AutomationQueueOrder s)"
  by (simp add: queue_ok_def mhas_iff_keys)

text \<open>The specification of the queue: a bounded list of distinct keys.\<close>

definition spec_enqueue :: "int \<Rightarrow> string \<Rightarrow> string list \<Rightarrow> string list \<times> bool" where
  "spec_enqueue cap k ks =
     (if k \<in> set ks then (ks, True)
      else if int (length ks) < cap then (ks @ [k], True) else (ks, False))"

text \<open>The three outcomes of an enqueue.\<close>

lemma enqueue_cases:
  fixes s :: state and issue :: issue and dispatch :: automation_dispatch
  defines "k \<equiv> automationQueueKey issue dispatch"
  obtains (refreshed) e e' where "mget (s_AutomationQueue s) k = Some e" "aq_ID e' = aq_ID e"
      "s_AutomationQueue (fst (enqueueAutomation s issue dispatch reason now)) = mput (s_AutomationQueue s) k e'"
      "s_AutomationQueueOrder (fst (enqueueAutomation s issue dispatch reason now)) = s_AutomationQueueOrder s"
      "snd (enqueueAutomation s issue dispatch reason now)"
  | (rejected) "mget (s_AutomationQueue s) k = None"
      "automationQueueMaxLength s \<le> int (length (s_AutomationQueue s))"
      "s_AutomationQueue (fst (enqueueAutomation s issue dispatch reason now)) = s_AutomationQueue s"
      "s_AutomationQueueOrder (fst (enqueueAutomation s issue dispatch reason now)) = s_AutomationQueueOrder s"
      "\<not> snd (enqueueAutomation s issue dispatch reason now)"
  | (added) e where "mget (s_AutomationQueue s) k = None" "aq_ID e = k"
      "automationDispatchFromQueueEntry e = dispatch" "aq_Issue e = issue"
      "int (length (s_AutomationQueue s)) < automationQueueMaxLength s"
      "s_AutomationQueue (fst (enqueueAutomation s issue dispatch reason now)) = mput (s_AutomationQueue s) k e"
      "s_AutomationQueueOrder (fst (enqueueAutomation s issue dispatch reason now)) = s_AutomationQueueOrder s @ [k]"
      "snd (enqueueAutomation s issue dispatch reason now)"
proof (cases "mget (s_AutomationQueue s) k")
  case (Some e)
  then show ?thesis
    by (intro refreshed [OF Some, of "refresh_entry e issue dispatch (fst (automationQueueReasonFromString reason))
          (snd (automationQueueReasonFromString reason)) (if isZero (tr_FiredAt (ad_Trigger dispatch)) then now
           else tr_FiredAt (ad_Trigger dispatch)) now"])
      (simp_all add: enqueueAutomation_def ensureAutomationQueueState_def Let_def k_def refresh_entry_def
        split: prod.splits)
next
  case None
  then have can: "automationQueueCanAccept (ensureAutomationQueueState s) k \<longleftrightarrow>
      int (length (s_AutomationQueue s)) < automationQueueMaxLength s"
    by (simp add: automationQueueCanAccept_def ensureAutomationQueueState_def mhas_def)
  show ?thesis
  proof (cases "int (length (s_AutomationQueue s)) < automationQueueMaxLength s")
    case False
    with None can show ?thesis
      by (intro rejected) (simp_all add: enqueueAutomation_def ensureAutomationQueueState_def Let_def k_def split: prod.splits)
  next
    case True
    let ?e = "new_entry k issue dispatch (fst (automationQueueReasonFromString reason))
      (snd (automationQueueReasonFromString reason)) (if isZero (tr_FiredAt (ad_Trigger dispatch)) then now
       else tr_FiredAt (ad_Trigger dispatch)) now"
    show ?thesis
      by (rule added [OF None, of ?e])
        (use None True can in \<open>simp_all add: enqueueAutomation_def ensureAutomationQueueState_def Let_def k_def
          new_entry_def automationDispatchFromQueueEntry_def split: prod.splits\<close>)
  qed
qed

lemma enqueue_max [simp]:
  "automationQueueMaxLength (fst (enqueueAutomation s issue dispatch reason now)) = automationQueueMaxLength s"
  by (simp add: enqueueAutomation_def ensureAutomationQueueState_def Let_def max_length_cong
      split: prod.splits option.splits)

lemma remove_fields:
  "s_AutomationQueue (removeAutomationQueueEntry s k) = mdel (s_AutomationQueue s) k"
  "s_AutomationQueueOrder (removeAutomationQueueEntry s k) = remove1 k (s_AutomationQueueOrder s)"
  "automationQueueMaxLength (removeAutomationQueueEntry s k) = automationQueueMaxLength s"
  by (simp_all add: removeAutomationQueueEntry_def ensureAutomationQueueState_def Let_def max_length_cong)

lemma enqueue_ok:
  assumes "queue_ok s"
  shows "queue_ok (fst (enqueueAutomation s issue dispatch reason now))"
proof (cases rule: enqueue_cases [of s issue dispatch reason now])
  case (refreshed e e')
  then show ?thesis using assms mhas_Some [OF refreshed(1)]
    by (auto simp: queue_ok_def mhas_iff_keys)
next
  case rejected
  then show ?thesis using assms by (simp add: queue_ok_def)
next
  case (added e)
  then have "automationQueueKey issue dispatch \<notin> set (mkeys (s_AutomationQueue s))"
    by (metis mhas_def mhas_iff_keys)
  then show ?thesis using assms added by (auto simp: queue_ok_def)
qed

lemma enqueue_spec:
  assumes "queue_ok s"
  shows "(s_AutomationQueueOrder (fst (enqueueAutomation s issue dispatch reason now)),
      snd (enqueueAutomation s issue dispatch reason now)) =
    spec_enqueue (automationQueueMaxLength s) (automationQueueKey issue dispatch) (s_AutomationQueueOrder s)"
proof (cases rule: enqueue_cases [of s issue dispatch reason now])
  case (refreshed e e')
  with queue_ok_has [OF assms, of "automationQueueKey issue dispatch"] show ?thesis
    by (simp add: spec_enqueue_def mhas_def)
next
  case rejected
  with queue_ok_has [OF assms, of "automationQueueKey issue dispatch"] queue_ok_length [OF assms] show ?thesis
    by (simp add: spec_enqueue_def mhas_def)
next
  case (added e)
  with queue_ok_has [OF assms, of "automationQueueKey issue dispatch"] queue_ok_length [OF assms] show ?thesis
    by (simp add: spec_enqueue_def mhas_def)
qed

lemma remove_ok: "queue_ok s \<Longrightarrow> queue_ok (removeAutomationQueueEntry s k)"
  by (auto simp: queue_ok_def remove_fields set_remove1_eq split: if_splits)

section \<open>The contract of a bounded queue\<close>

text \<open>
  A client that enqueues requests and removes keys sees a first-in-first-out list of distinct
  keys of bounded length.
\<close>

locale bounded_queue =
  fixes inv :: "'s \<Rightarrow> bool" and view :: "'s \<Rightarrow> string list" and capacity :: "'s \<Rightarrow> int"
    and request_key :: "'r \<Rightarrow> string" and enq :: "'s \<Rightarrow> 'r \<Rightarrow> 's \<times> bool" and deq :: "'s \<Rightarrow> string \<Rightarrow> 's"
  assumes inv_enq: "inv s \<Longrightarrow> inv (fst (enq s r))"
    and inv_deq: "inv s \<Longrightarrow> inv (deq s k)"
    and inv_distinct: "inv s \<Longrightarrow> distinct (view s)"
    and view_enq: "inv s \<Longrightarrow> (view (fst (enq s r)), snd (enq s r)) = spec_enqueue (capacity s) (request_key r) (view s)"
    and view_deq: "inv s \<Longrightarrow> view (deq s k) = remove1 k (view s)"
    and cap_enq: "capacity (fst (enq s r)) = capacity s"
    and cap_deq: "capacity (deq s k) = capacity s"
begin

fun apply_op :: "'s \<Rightarrow> 'r + string \<Rightarrow> 's" where
  "apply_op s (Inl r) = fst (enq s r)"
| "apply_op s (Inr k) = deq s k"

fun spec_op :: "int \<Rightarrow> string list \<Rightarrow> 'r + string \<Rightarrow> string list" where
  "spec_op n ks (Inl r) = fst (spec_enqueue n (request_key r) ks)"
| "spec_op n ks (Inr k) = remove1 k ks"

lemma inv_op: "inv s \<Longrightarrow> inv (apply_op s op)"
  by (cases op) (simp_all add: inv_enq inv_deq)

lemma cap_op: "capacity (apply_op s op) = capacity s"
  by (cases op) (simp_all add: cap_enq cap_deq)

lemma view_op: "inv s \<Longrightarrow> view (apply_op s op) = spec_op (capacity s) (view s) op"
proof (cases op)
  case (Inl r)
  then show "inv s \<Longrightarrow> ?thesis" using view_enq [of s r] by (simp add: prod_eq_iff)
qed (simp add: view_deq)

lemma spec_op_bounded:
  "int (length ks) \<le> n \<Longrightarrow> int (length (spec_op n ks op)) \<le> n"
  by (cases op) (auto simp: spec_enqueue_def length_remove1)

lemma run_refines:
  assumes "inv s" and "int (length (view s)) \<le> capacity s"
  shows "inv (foldl apply_op s ops)
    \<and> view (foldl apply_op s ops) = foldl (spec_op (capacity s)) (view s) ops
    \<and> int (length (view (foldl apply_op s ops))) \<le> capacity s"
  using assms
proof (induction ops arbitrary: s)
  case (Cons op ops)
  have "int (length (view (apply_op s op))) \<le> capacity (apply_op s op)"
    using Cons.prems spec_op_bounded [of "view s" "capacity s" op] by (simp add: view_op cap_op)
  from Cons.IH [OF inv_op [OF Cons.prems(1)] this] show ?case
    using Cons.prems by (auto simp: view_op cap_op)
qed simp

text \<open>An accepted key keeps its place behind the keys that were there before.\<close>

lemma accepted_key_queued:
  assumes "inv s" and "snd (enq s r)"
  shows "request_key r \<in> set (view (fst (enq s r)))"
  using view_enq [OF assms(1), of r] assms(2)
  by (auto simp: spec_enqueue_def prod_eq_iff split: if_splits)

lemma rejected_only_when_full:
  assumes "inv s"
  shows "snd (enq s r) \<longleftrightarrow> request_key r \<in> set (view s) \<or> int (length (view s)) < capacity s"
  using view_enq [OF assms, of r] by (auto simp: spec_enqueue_def prod_eq_iff split: if_splits)

end

text \<open>The automation queue honours the contract.\<close>

record queue_request =
  qr_issue :: issue
  qr_dispatch :: automation_dispatch
  qr_reason :: string
  qr_now :: time

interpretation aq: bounded_queue queue_ok s_AutomationQueueOrder automationQueueMaxLength
  "\<lambda>r. automationQueueKey (qr_issue r) (qr_dispatch r)"
  "\<lambda>s r. enqueueAutomation s (qr_issue r) (qr_dispatch r) (qr_reason r) (qr_now r)"
  removeAutomationQueueEntry
proof unfold_locales
  fix s :: state assume "queue_ok s"
  then show "distinct (s_AutomationQueueOrder s)" by (simp add: queue_ok_def)
qed (simp_all add: enqueue_ok remove_ok enqueue_spec remove_fields)

text \<open>The operations on the queue as one step, for sequences of them.\<close>

fun queue_op :: "state \<Rightarrow> queue_request + string \<Rightarrow> state" where
  "queue_op s (Inl r) = fst (enqueueAutomation s (qr_issue r) (qr_dispatch r) (qr_reason r) (qr_now r))"
| "queue_op s (Inr k) = removeAutomationQueueEntry s k"

fun queue_spec_op :: "int \<Rightarrow> string list \<Rightarrow> queue_request + string \<Rightarrow> string list" where
  "queue_spec_op n ks (Inl r) = fst (spec_enqueue n (automationQueueKey (qr_issue r) (qr_dispatch r)) ks)"
| "queue_spec_op n ks (Inr k) = remove1 k ks"

lemma queue_op_eq: "queue_op = aq.apply_op"
proof (intro ext)
  show "queue_op s op = aq.apply_op s op" for s op by (cases op) simp_all
qed

lemma queue_spec_op_eq: "queue_spec_op = aq.spec_op"
proof (intro ext)
  show "queue_spec_op n ks op = aq.spec_op n ks op" for n ks op by (cases op) simp_all
qed

lemma sorted_queue_keys:
  assumes "queue_ok s"
  shows "map aq_ID (sortedAutomationQueue s) = s_AutomationQueueOrder s"
proof -
  have "map aq_ID (List.map_filter (mget (s_AutomationQueue s)) ks) = ks"
    if "set ks \<subseteq> set (s_AutomationQueueOrder s)" for ks
    using that
  proof (induction ks)
    case (Cons k ks)
    then have "mhas (s_AutomationQueue s) k" by (simp add: queue_ok_has [OF assms])
    then obtain e where "mget (s_AutomationQueue s) k = Some e" by (auto simp: mhas_def)
    moreover have "aq_ID e = k" using assms calculation by (simp add: queue_ok_def)
    ultimately show ?case using Cons by (simp add: map_filter_simps)
  qed (simp add: map_filter_simps)
  then show ?thesis by (simp add: sortedAutomationQueue_def)
qed

definition ex_trigger :: "string \<Rightarrow> automation_trigger_context" where
  "ex_trigger ty = \<lparr>tr_Type = ty, tr_FiredAt = 0, tr_AutomationID = ''a1'', tr_CurrentState = [],
     tr_Cron = [], tr_Timezone = [], tr_TriggerState = [], tr_PreviousState = [], tr_InputContext = [],
     tr_BlockedProfile = [], tr_BlockedBackend = [], tr_CommentID = [], tr_CommentBody = [],
     tr_CommentAuthorID = [], tr_CommentAuthorName = [], tr_CommentCreatedAt = [], tr_ErrorMessage = [],
     tr_WillRetry = False, tr_RetryAttempt = 0, tr_RetryBackoffMs = 0, tr_PRURL = ''http://pr/1'',
     tr_PRBranch = [], tr_PRBaseBranch = [], tr_PRNumber = 1, tr_MergedSHA = [], tr_MergedAt = 0,
     tr_FailedProfile = [], tr_FailedBackend = [], tr_PromptTokensTotal = 0, tr_CompletionTokensTotal = 0,
     tr_SwitchedToProfile = [], tr_SwitchedToBackend = [], tr_ResolvedBlockers = [],
     tr_PreviouslyBlockedBy = [], tr_DependencyAuditVersion = 0, tr_DependencyUnblockedAt = 0,
     tr_MoveToState = []\<rparr>"

definition ex_dispatch :: "string \<Rightarrow> automation_dispatch" where
  "ex_dispatch auto = \<lparr>ad_AutomationID = auto, ad_ProfileName = ''p'', ad_Instructions = [],
     ad_Trigger = ex_trigger AutomationTriggerPROpened, ad_AutoResume = False, ad_MoveToState = [],
     ad_UseIssueLifecycle = False\<rparr>"

section \<open>Classification of reasons\<close>

lemma no_colon_reason: "CHR '':'' \<notin> set r \<Longrightarrow> automationQueueReasonFromString r = (r, [])"
  by (simp add: automationQueueReasonFromString_def cut_char_notin)

lemma prefixed_reasons:
  "automationQueueReasonFromString (''blocked_by:'' @ x) = (''blocked_by'', x)"
  "automationQueueReasonFromString (''inferred_blocked_by:'' @ x) = (''inferred_blocked_by'', x)"
  using cut_char_split [of "CHR '':''" "''blocked_by''" x]
    cut_char_split [of "CHR '':''" "''inferred_blocked_by''" x]
  by (simp_all add: automationQueueReasonFromString_def queue_reasons)

lemma shared_reason_cases:
  "ineligibleReasonShared issue s cfg a \<in> {[], ''terminal_state'', ''paused'', ''discarding'',
      ''input_required'', ''pending_input_resume'', ''already_running'', ''claimed'', ''no_slots'',
      ''per_state_limit'', ''backend_limited''}
    \<or> (\<exists>x. ineligibleReasonShared issue s cfg a \<in>
        {''paused_by_state:'' @ x, ''blocked_by:'' @ x, ''inferred_blocked_by:'' @ x})"
  by (auto simp: ineligibleReasonShared_def reason_prefixes split: option.splits if_splits)

lemma queueable_prefixed:
  "automationQueueableReason (''paused_by_state:'' @ x) = Some (''paused_by_state'', x)"
  "automationQueueableReason (''blocked_by:'' @ x) = Some (''blocked_by'', x)"
  "automationQueueableReason (''inferred_blocked_by:'' @ x) = Some (''inferred_blocked_by'', x)"
  unfolding automationQueueableReason_def prefixed_reasons cut_prefix_append
  by (simp_all add: queue_reasons cut_prefix_def has_prefix_def)

lemma queueable_plain:
  "\<forall>r \<in> {''no_slots'', ''per_state_limit'', ''already_running'', ''claimed'', ''input_required'',
      ''pending_input_resume'', ''backend_limited''}. automationQueueableReason r = Some (r, [])"
  "\<forall>r \<in> {[], ''missing_fields'', ''terminal_state'', ''paused'', ''discarding''}. automationQueueableReason r = None"
  by (simp_all add: automationQueueableReason_def no_colon_reason queue_reasons cut_prefix_def has_prefix_def)

text \<open>
  Every reason the automation gate can give is either waited for or final, and exactly four
  are final: missing fields, a terminal state, an operator pause and a discard in progress. Every
  other ineligible dispatch is kept in the queue, with the blocker as its detail and the blocked
  status when a dependency, hard or inferred, is the reason.
\<close>

theorem automation_reasons_wait_or_drop:
  "IsQueueableAutomationReason (IneligibleReasonForAutomation issue s cfg) =
     (IneligibleReasonForAutomation issue s cfg \<notin>
        {[], ''missing_fields'', ''terminal_state'', ''paused'', ''discarding''})
   \<and> automationQueueableReason (IneligibleBlockedByPrefix @ b) = Some (AutomationQueueReasonBlockedBy, b)
   \<and> automationQueueableReason (IneligibleInferredBlockedByPrefix @ b) = Some (AutomationQueueReasonInferredBlockedBy, b)
   \<and> (automationQueueStatusForReason r = AutomationQueueBlocked) =
       (r \<in> {AutomationQueueReasonBlockedBy, AutomationQueueReasonInferredBlockedBy})"
proof -
  have "IsQueueableAutomationReason (IneligibleReasonForAutomation issue s cfg) =
     (IneligibleReasonForAutomation issue s cfg \<notin>
        {[], ''missing_fields'', ''terminal_state'', ''paused'', ''discarding''})"
    using shared_reason_cases [of issue s cfg True] queueable_plain queueable_prefixed
    by (auto simp: IneligibleReasonForAutomation_def IsQueueableAutomationReason_def)
  then show ?thesis
    by (simp add: reason_prefixes queueable_prefixed queue_reasons automationQueueStatusForReason_def
        del: append.simps)
qed

section \<open>Back-pressure\<close>

lemma go_div_le:
  assumes "a \<le> M" and "0 \<le> M"
  shows "go_div a 10 \<le> M div 10"
proof (cases "0 \<le> a")
  case True
  then show ?thesis using assms by (simp add: go_div_nonneg zdiv_mono1)
next
  case False
  then have "go_div a 10 \<le> 0" by (simp add: go_div_def sgn_if)
  also have "0 \<le> M div 10" using assms by simp
  finally show ?thesis .
qed

lemma low_water_bounds: "1 \<le> automationQueueLowWater m \<and> (1 \<le> m \<longrightarrow> automationQueueLowWater m \<le> m)"
proof (cases "int64_min \<le> m * 8 \<and> m * 8 \<le> int64_max")
  case True
  then show ?thesis
    by (auto simp: automationQueueLowWater_def Let_def wrap64_id go_div_nonneg)
next
  case False
  have "go_div (wrap64 (m * 8)) 10 \<le> int64_max div 10"
    by (rule go_div_le) (use wrap64_range [of "m * 8"] in \<open>simp_all add: int64_max_def\<close>)
  with False show ?thesis
    by (auto simp: automationQueueLowWater_def Let_def int64_max_def int64_min_def)
qed

text \<open>The counters and flags describe the queue, and a pause holds only above the low-water mark.\<close>

definition backpressure_ok :: "state \<Rightarrow> bool" where
  "backpressure_ok s =
     (let bp = s_AutomationQueueBackpressure s; n = int (length (s_AutomationQueue s)); m = automationQueueMaxLength s
      in bp_Length bp = n \<and> (bp_Saturated bp \<longleftrightarrow> m \<le> n) \<and>
         (m \<le> n \<longrightarrow> bp_PausedProducers bp) \<and> (bp_PausedProducers bp \<longrightarrow> automationQueueLowWater m \<le> n))"

abbreviation paused_producers :: "state \<Rightarrow> bool" where
  "paused_producers s \<equiv> bp_PausedProducers (s_AutomationQueueBackpressure s)"

lemma refresh_ok: "backpressure_ok (refreshAutomationQueueBackpressure s)"
  using low_water_bounds [of "automationQueueMaxLength s"] max_length_pos [of s]
  by (auto simp: backpressure_ok_def Let_def refreshAutomationQueueBackpressure_def automationQueueMaxLength_def)

lemma refresh_paused:
  "paused_producers (refreshAutomationQueueBackpressure s) \<longleftrightarrow>
    automationQueueMaxLength s \<le> int (length (s_AutomationQueue s)) \<or>
    paused_producers s \<and> automationQueueLowWater (automationQueueMaxLength s) \<le> int (length (s_AutomationQueue s))"
  by (auto simp: refreshAutomationQueueBackpressure_def Let_def)

lemma rejected_ok:
  "automationQueueMaxLength s \<le> int (length (s_AutomationQueue s)) \<Longrightarrow>
    backpressure_ok (recordAutomationQueueRejected s d i r now)"
  using low_water_bounds [of "automationQueueMaxLength s"] max_length_pos [of s]
  by (auto simp: backpressure_ok_def Let_def recordAutomationQueueRejected_def automationQueueMaxLength_def)

lemma refresh_after_refresh:
  assumes "backpressure_ok s"
  shows "paused_producers (ensureAutomationQueueState s) = paused_producers s"
    and "int (length (s_AutomationQueue (ensureAutomationQueueState s))) = int (length (s_AutomationQueue s))"
    and "automationQueueMaxLength (ensureAutomationQueueState s) = automationQueueMaxLength s"
  using assms by (auto simp: ensureAutomationQueueState_def refresh_paused backpressure_ok_def Let_def)

text \<open>The pause flag that the operation's result must carry.\<close>

definition hysteresis :: "bool \<Rightarrow> state \<Rightarrow> bool" where
  "hysteresis was s \<longleftrightarrow>
     automationQueueMaxLength s \<le> int (length (s_AutomationQueue s)) \<or>
     was \<and> automationQueueLowWater (automationQueueMaxLength s) \<le> int (length (s_AutomationQueue s))"

lemma refresh_hysteresis:
  "paused_producers s = was \<Longrightarrow> paused_producers (refreshAutomationQueueBackpressure s) = hysteresis was (refreshAutomationQueueBackpressure s)"
  by (simp add: refresh_paused hysteresis_def)

lemma enqueue_backpressure:
  assumes "backpressure_ok s"
  shows "backpressure_ok (fst (enqueueAutomation s issue dispatch reason now)) \<and>
    paused_producers (fst (enqueueAutomation s issue dispatch reason now)) =
      hysteresis (paused_producers s) (fst (enqueueAutomation s issue dispatch reason now))"
proof -
  let ?s = "ensureAutomationQueueState s"
  let ?k = "automationQueueKey issue dispatch"
  obtain qr det where qr: "automationQueueReasonFromString reason = (qr, det)" by (cases "automationQueueReasonFromString reason")
  note paused = refresh_after_refresh(1) [OF assms]
  show ?thesis
  proof (cases "mget (s_AutomationQueue ?s) ?k")
    case (Some e)
    then show ?thesis
      using qr paused by (simp add: enqueueAutomation_def Let_def refresh_ok refresh_hysteresis)
  next
    case None
    show ?thesis
    proof (cases "automationQueueCanAccept ?s ?k")
      case True
      with None show ?thesis
        using qr paused by (simp add: enqueueAutomation_def Let_def refresh_ok refresh_hysteresis)
    next
      case False
      then have "automationQueueMaxLength ?s \<le> int (length (s_AutomationQueue ?s))"
        by (simp add: automationQueueCanAccept_def)
      with None False show ?thesis
        using qr by (simp add: enqueueAutomation_def Let_def rejected_ok hysteresis_def)
          (simp add: recordAutomationQueueRejected_def Let_def)
    qed
  qed
qed

lemma remove_backpressure:
  assumes "backpressure_ok s"
  shows "backpressure_ok (removeAutomationQueueEntry s k) \<and>
    paused_producers (removeAutomationQueueEntry s k) = hysteresis (paused_producers s) (removeAutomationQueueEntry s k)"
  using refresh_after_refresh(1) [OF assms]
  by (simp add: removeAutomationQueueEntry_def Let_def refresh_ok refresh_hysteresis)

lemma queue_op_backpressure:
  "backpressure_ok s \<Longrightarrow> backpressure_ok (queue_op s op) \<and>
    paused_producers (queue_op s op) = hysteresis (paused_producers s) (queue_op s op)"
  by (cases op) (simp_all add: enqueue_backpressure remove_backpressure)

lemma run_backpressure: "backpressure_ok s \<Longrightarrow> backpressure_ok (foldl queue_op s ops)"
  by (induction ops arbitrary: s) (simp_all add: queue_op_backpressure)

lemma NewState_queue: "queue_ok (NewState cfg) \<and> backpressure_ok (NewState cfg)"
  by (auto simp: queue_ok_def backpressure_ok_def Let_def NewState_def zero_backpressure_def mkeys_def
      automationQueueMaxLength_def)

section \<open>Properties\<close>

text \<open>
  C17. The queue is a bounded first-in-first-out list of distinct keys. From a new state and under
  any sequence of enqueues and removals, the stored order is the list the specification computes,
  it never exceeds the cap, the drain visits exactly these entries in this order, and an enqueue is
  accepted exactly when its key is already queued or there is room.
\<close>

theorem automation_queue_refines_fifo:
  "let s = foldl queue_op (NewState cfg) ops
   in s_AutomationQueueOrder s = foldl (queue_spec_op (automationQueueMaxLength (NewState cfg))) [] ops
    \<and> int (length (s_AutomationQueueOrder s)) \<le> automationQueueMaxLength (NewState cfg)
    \<and> distinct (s_AutomationQueueOrder s)
    \<and> map aq_ID (sortedAutomationQueue s) = s_AutomationQueueOrder s
    \<and> (snd (enqueueAutomation s issue dispatch reason now) =
        (automationQueueKey issue dispatch \<in> set (s_AutomationQueueOrder s) \<or>
         int (length (s_AutomationQueueOrder s)) < automationQueueMaxLength s))"
proof -
  let ?s = "foldl queue_op (NewState cfg) ops"
  have new: "s_AutomationQueueOrder (NewState cfg) = []" by (simp add: NewState_def)
  have run: "queue_ok ?s
      \<and> s_AutomationQueueOrder ?s = foldl (queue_spec_op (automationQueueMaxLength (NewState cfg))) [] ops
      \<and> int (length (s_AutomationQueueOrder ?s)) \<le> automationQueueMaxLength (NewState cfg)"
    using aq.run_refines [of "NewState cfg" ops] NewState_queue [of cfg] max_length_pos [of "NewState cfg"]
    by (auto simp: queue_op_eq queue_spec_op_eq new)
  then have ok: "queue_ok ?s" by blast
  show ?thesis
    using run sorted_queue_keys [OF ok] aq.inv_distinct [OF ok]
      aq.rejected_only_when_full [OF ok, of "\<lparr>qr_issue = issue, qr_dispatch = dispatch, qr_reason = reason, qr_now = now\<rparr>"]
    unfolding Let_def queue_request.simps by blast
qed

text \<open>
  Producers pause with hysteresis. Under any sequence of operations the pause flag is set when the
  queue reaches its cap, stays set until the length falls below the low-water mark, and is then
  cleared; the low-water mark is between 1 and the cap; and while producers are not paused no
  enqueue is rejected.
\<close>

theorem backpressure_hysteresis:
  "let s = foldl queue_op (NewState cfg) ops; t = queue_op s op; m = automationQueueMaxLength t;
       n = int (length (s_AutomationQueue t))
   in bp_Length (s_AutomationQueueBackpressure t) = n
    \<and> bp_Saturated (s_AutomationQueueBackpressure t) = (m \<le> n)
    \<and> paused_producers t = (m \<le> n \<or> (paused_producers s \<and> automationQueueLowWater m \<le> n))
    \<and> 1 \<le> automationQueueLowWater m \<and> automationQueueLowWater m \<le> m
    \<and> (paused_producers t \<or> snd (enqueueAutomation t issue dispatch reason now))"
proof -
  let ?s = "foldl queue_op (NewState cfg) ops"
  let ?t = "queue_op ?s op"
  have s: "backpressure_ok ?s" using NewState_queue by (blast intro: run_backpressure)
  note t = queue_op_backpressure [OF s, of op]
  have "snd (enqueueAutomation ?t issue dispatch reason now)" if "\<not> paused_producers ?t"
    using that t by (cases rule: enqueue_cases [of ?t issue dispatch reason now])
      (auto simp: backpressure_ok_def Let_def)
  then show ?thesis
    using t low_water_bounds [of "automationQueueMaxLength ?t"] max_length_pos [of ?t]
    by (auto simp: Let_def backpressure_ok_def hysteresis_def)
qed

lemma remove_other_key:
  "queue_ok s \<Longrightarrow> k' \<noteq> k \<Longrightarrow> mget (s_AutomationQueue (removeAutomationQueueEntry s k')) k = mget (s_AutomationQueue s) k"
  by (simp add: remove_fields queue_ok_def)

lemma enqueue_other_key:
  assumes "automationQueueKey issue dispatch \<noteq> k"
  shows "mget (s_AutomationQueue (fst (enqueueAutomation s issue dispatch reason now))) k = mget (s_AutomationQueue s) k"
  using assms by (cases rule: enqueue_cases [of s issue dispatch reason now]) simp_all

fun touches :: "string \<Rightarrow> queue_request + string \<Rightarrow> bool" where
  "touches k (Inl r) = (automationQueueKey (qr_issue r) (qr_dispatch r) = k)"
| "touches k (Inr k') = (k' = k)"

lemma untouched_entry_stays:
  "queue_ok s \<Longrightarrow> list_all (\<lambda>op. \<not> touches k op) ops \<Longrightarrow>
    mget (s_AutomationQueue (foldl queue_op s ops)) k = mget (s_AutomationQueue s) k"
proof (induction ops arbitrary: s)
  case (Cons op ops)
  moreover have "queue_ok (queue_op s op)" using Cons.prems by (cases op) (simp_all add: enqueue_ok remove_ok)
  moreover have "mget (s_AutomationQueue (queue_op s op)) k = mget (s_AutomationQueue s) k"
    using Cons.prems by (cases op) (simp_all add: enqueue_other_key remove_other_key)
  ultimately show ?case by simp
qed simp

text \<open>
  An accepted dispatch is not lost. Once a dispatch with a new key is accepted, the entry is
  stored with its issue, whatever is queued or removed under other keys, and rebuilding the
  dispatch from it gives back the one that was enqueued.
\<close>

theorem queued_dispatch_round_trip:
  assumes "queue_ok s"
    and "mget (s_AutomationQueue s) (automationQueueKey issue dispatch) = None"
    and "snd (enqueueAutomation s issue dispatch reason now)"
    and "list_all (\<lambda>op. \<not> touches (automationQueueKey issue dispatch) op) ops"
  shows "\<exists>e. mget (s_AutomationQueue (foldl queue_op (fst (enqueueAutomation s issue dispatch reason now)) ops))
        (automationQueueKey issue dispatch) = Some e
      \<and> e \<in> set (sortedAutomationQueue (foldl queue_op (fst (enqueueAutomation s issue dispatch reason now)) ops))
      \<and> aq_Issue e = issue \<and> automationDispatchFromQueueEntry e = dispatch"
proof -
  let ?t = "fst (enqueueAutomation s issue dispatch reason now)"
  let ?u = "foldl queue_op ?t ops"
  let ?k = "automationQueueKey issue dispatch"
  obtain e where e: "mget (s_AutomationQueue ?t) ?k = Some e" "aq_Issue e = issue"
      "automationDispatchFromQueueEntry e = dispatch"
    using assms(2,3) by (cases rule: enqueue_cases [of s issue dispatch reason now]) simp_all
  have t: "queue_ok ?t" using assms(1) by (rule enqueue_ok)
  have get: "mget (s_AutomationQueue ?u) ?k = Some e"
    using untouched_entry_stays [OF t assms(4)] e(1) by simp
  have "queue_ok ?u"
    using t by (induction ops rule: rev_induct) (simp_all add: queue_op_eq aq.inv_op)
  then have "?k \<in> set (s_AutomationQueueOrder ?u)"
    using get by (simp add: queue_ok_has [symmetric] mhas_def)
  then have "e \<in> set (sortedAutomationQueue ?u)"
    using get by (force simp: sortedAutomationQueue_def List.map_filter_def)
  with get e show ?thesis by blast
qed

theorem queued_dispatch_round_trip_witness:
  "\<exists>e. mget (s_AutomationQueue (foldl queue_op (fst (enqueueAutomation ex_state (ex_issue ''A-1'') (ex_dispatch ''a'') ''no_slots'' 5))
          [Inr ''other''])) (automationQueueKey (ex_issue ''A-1'') (ex_dispatch ''a'')) = Some e
      \<and> e \<in> set (sortedAutomationQueue (foldl queue_op
          (fst (enqueueAutomation ex_state (ex_issue ''A-1'') (ex_dispatch ''a'') ''no_slots'' 5)) [Inr ''other'']))
      \<and> aq_Issue e = ex_issue ''A-1'' \<and> automationDispatchFromQueueEntry e = ex_dispatch ''a''"
proof (rule queued_dispatch_round_trip)
  show "queue_ok ex_state" using NewState_queue by (simp add: ex_state_def)
  show "mget (s_AutomationQueue ex_state) (automationQueueKey (ex_issue ''A-1'') (ex_dispatch ''a'')) = None"
    by code_simp
  show "snd (enqueueAutomation ex_state (ex_issue ''A-1'') (ex_dispatch ''a'') ''no_slots'' 5)"
    by code_simp
  show "list_all (\<lambda>op. \<not> touches (automationQueueKey (ex_issue ''A-1'') (ex_dispatch ''a'')) op) [Inr ''other'']"
    by code_simp
qed

section \<open>The pr\_opened ledger\<close>

fun claim_all :: "state \<Rightarrow> (issue \<times> automation_dispatch) list \<Rightarrow> bool list" where
  "claim_all s [] = []"
| "claim_all s ((issue, dispatch) # rest) =
     snd (claimPROpenedDedup s issue dispatch) # claim_all (fst (claimPROpenedDedup s issue dispatch)) rest"

definition pr_key :: "issue \<times> automation_dispatch \<Rightarrow> string" where
  "pr_key r = is_Identifier (fst r) @ ''|'' @ tr_PRURL (ad_Trigger (snd r)) @ ''|'' @ ad_AutomationID (snd r)"

definition pr_request :: "issue \<times> automation_dispatch \<Rightarrow> bool" where
  "pr_request r \<longleftrightarrow> tr_Type (ad_Trigger (snd r)) = AutomationTriggerPROpened \<and> tr_PRURL (ad_Trigger (snd r)) \<noteq> []"

lemma claim_result:
  assumes "pr_request r"
  shows "snd (claimPROpenedDedup s (fst r) (snd r)) = (\<not> mhas (s_PROpenedDispatched s) (pr_key r))"
    and "mhas (s_PROpenedDispatched (fst (claimPROpenedDedup s (fst r) (snd r)))) k \<longleftrightarrow>
      mhas (s_PROpenedDispatched s) k \<or> k = pr_key r"
  using assms by (auto simp: claimPROpenedDedup_def Let_def pr_key_def pr_request_def)

text \<open>
  A pr\_opened automation fires once per issue, pull request and rule. In any sequence of
  requests the ledger grants exactly those whose key neither was recorded before nor occurs
  earlier in the sequence.
\<close>

theorem pr_opened_fires_once:
  assumes "list_all pr_request reqs"
  shows "claim_all s reqs = map (\<lambda>n. \<not> mhas (s_PROpenedDispatched s) (pr_key (reqs ! n)) \<and>
    pr_key (reqs ! n) \<notin> set (map pr_key (take n reqs))) [0..<length reqs]"
  using assms
proof (induction reqs arbitrary: s)
  case (Cons r reqs)
  obtain i d where r: "r = (i, d)" by (cases r)
  have pr: "pr_request r" using Cons.prems by simp
  let ?s = "fst (claimPROpenedDedup s i d)"
  have IH: "claim_all ?s reqs = map (\<lambda>n. \<not> mhas (s_PROpenedDispatched ?s) (pr_key (reqs ! n)) \<and>
      pr_key (reqs ! n) \<notin> set (map pr_key (take n reqs))) [0..<length reqs]"
    using Cons by simp
  have upt: "[0..<length (r # reqs)] = 0 # map Suc [0..<length reqs]" unfolding map_Suc_upt list.size(4) by (simp only: add_0_right add_Suc_right upt_conv_Cons zero_less_Suc)
  show ?case
    unfolding upt using IH claim_result [OF pr, of s] by (auto simp: r)
qed simp

theorem pr_opened_fires_once_witness:
  "list_all pr_request [(ex_issue ''A-1'', ex_dispatch ''a''), (ex_issue ''A-1'', ex_dispatch ''a'')] \<and>
   claim_all ex_state [(ex_issue ''A-1'', ex_dispatch ''a''), (ex_issue ''A-1'', ex_dispatch ''a'')] = [True, False]"
proof -
  have "list_all pr_request [(ex_issue ''A-1'', ex_dispatch ''a''), (ex_issue ''A-1'', ex_dispatch ''a'')]"
    by code_simp
  from this pr_opened_fires_once [OF this, of ex_state] show ?thesis
    by (simp add: ex_state_def NewState_def upt_rec)
qed

end
