(* ===== verification/Review_Quorum.thy ===== *)
theory Review_Quorum
  imports Orch_State
begin

text \<open>
  The reviewer chain and its quorum (\<open>internal/orchestrator/review_quorum.go\<close>): verdicts are
  normalized fail-closed, one per reviewer profile, and combined when the chain is complete.
  Reading the verdict file is not modelled; its result, a verdict or an error text, is an argument.
\<close>

section \<open>Verdicts\<close>

definition ReviewVerdictApprove :: string where "ReviewVerdictApprove = ''approve''"
definition ReviewVerdictBlock :: string where "ReviewVerdictBlock = ''block''"
definition ReviewQuorumUnanimous :: string where "ReviewQuorumUnanimous = ''unanimous''"
definition ReviewQuorumMajority :: string where "ReviewQuorumMajority = ''majority''"

definition NormalizeReviewVerdict :: "string \<Rightarrow> string" where
  "NormalizeReviewVerdict raw =
     (if equal_fold (trim_space raw) ReviewVerdictApprove then ReviewVerdictApprove else ReviewVerdictBlock)"

fun count_votes :: "review_verdict list \<Rightarrow> int \<times> int \<Rightarrow> int \<times> int" where
  "count_votes [] acc = acc"
| "count_votes (v # vs) (approvals, blocks) =
     (if NormalizeReviewVerdict (rv_Verdict v) = ReviewVerdictBlock
      then count_votes vs (approvals, blocks + 1) else count_votes vs (approvals + 1, blocks))"

definition EvaluateReviewQuorum :: "review_verdict list \<Rightarrow> string \<Rightarrow> review_outcome" where
  "EvaluateReviewQuorum verdicts quorum =
     (let (approvals, blocks) = count_votes verdicts (0, 0); n = int (length verdicts);
          out = \<lparr>ro_Blocked = False, ro_Approvals = approvals, ro_Blocks = blocks, ro_Quorum = quorum\<rparr>
      in if verdicts = [] then out
         else if quorum = ReviewQuorumUnanimous then out\<lparr>ro_Blocked := (blocks = n)\<rparr>
         else if quorum = ReviewQuorumMajority then out\<lparr>ro_Blocked := (n < blocks * 2)\<rparr>
         else out\<lparr>ro_Blocked := (0 < blocks)\<rparr>)"

fun UpsertReviewVerdict :: "review_verdict list \<Rightarrow> review_verdict \<Rightarrow> review_verdict list" where
  "UpsertReviewVerdict [] v = [v]"
| "UpsertReviewVerdict (x # xs) v =
     (if rv_Profile x = rv_Profile v then v # xs else x # UpsertReviewVerdict xs v)"

section \<open>The chain\<close>

definition ReviewerProfileChain :: "config \<Rightarrow> string list" where
  "ReviewerProfileChain cfg =
     (let ag = cf_Agent cfg;
          source = (if ag_ReviewerProfiles ag \<noteq> [] then ag_ReviewerProfiles ag
                    else if ag_ReviewerProfile ag = [] then [] else [ag_ReviewerProfile ag])
      in filter (\<lambda>p. p \<noteq> []) (map trim_space source))"

definition ResetReviewChain :: "state \<Rightarrow> string \<Rightarrow> state" where
  "ResetReviewChain s identifier =
     s\<lparr>s_ReviewVerdicts := mdel (s_ReviewVerdicts s) identifier,
       s_ReviewOutcomes := mdel (s_ReviewOutcomes s) identifier,
       s_ReviewChainIndex := mput (s_ReviewChainIndex s) identifier 0\<rparr>"

definition reviewChainInFlight :: "state \<Rightarrow> string \<Rightarrow> bool" where
  "reviewChainInFlight s identifier = mhas (s_ReviewChainIndex s) identifier"

text \<open>The verdict that is recorded: an unreadable one blocks.\<close>

definition recorded_verdict :: "string \<Rightarrow> review_verdict \<Rightarrow> string option \<Rightarrow> time \<Rightarrow> review_verdict" where
  "recorded_verdict finishedProfile verdict verdictErr now =
     (let v = (case verdictErr of
             None \<Rightarrow> verdict
           | Some err \<Rightarrow> \<lparr>rv_Profile = finishedProfile, rv_Verdict = ReviewVerdictBlock,
               rv_Reasons = [''no parseable verdict recorded: '' @ err], rv_Comments = [], rv_RecordedAt = 0\<rparr>)
      in v\<lparr>rv_Profile := finishedProfile, rv_Verdict := NormalizeReviewVerdict (rv_Verdict v), rv_RecordedAt := now\<rparr>)"

definition AdvanceReviewChain ::
  "state \<Rightarrow> string \<Rightarrow> string \<Rightarrow> review_verdict \<Rightarrow> string option \<Rightarrow> string list \<Rightarrow> string \<Rightarrow> time \<Rightarrow> state \<times> string \<times> bool" where
  "AdvanceReviewChain s identifier finishedProfile verdict verdictErr chain quorum now =
     (let v = recorded_verdict finishedProfile verdict verdictErr now;
          verdicts = UpsertReviewVerdict (mget_or (s_ReviewVerdicts s) identifier []) v;
          s1 = s\<lparr>s_ReviewVerdicts := mput (s_ReviewVerdicts s) identifier verdicts\<rparr>;
          next_i = mget_or (s_ReviewChainIndex s1) identifier 0 + 1
      in if next_i < int (length chain)
         then (s1\<lparr>s_ReviewChainIndex := mput (s_ReviewChainIndex s1) identifier next_i\<rparr>, chain ! nat next_i, False)
         else (s1\<lparr>s_ReviewOutcomes := mput (s_ReviewOutcomes s1) identifier (EvaluateReviewQuorum verdicts quorum),
                  s_ReviewChainIndex := mdel (s_ReviewChainIndex s1) identifier\<rparr>, [], True))"

section \<open>Lemmas\<close>

abbreviation votes_block :: "review_verdict \<Rightarrow> bool" where
  "votes_block v \<equiv> NormalizeReviewVerdict (rv_Verdict v) = ReviewVerdictBlock"

lemma count_votes_eq:
  "count_votes vs (a, b) =
     (a + int (length (filter (\<lambda>v. \<not> votes_block v) vs)), b + int (length (filter votes_block vs)))"
  by (induction vs arbitrary: a b) simp_all

lemma votes_total:
  "length (filter (\<lambda>v. \<not> votes_block v) vs) + length (filter votes_block vs) = length vs"
  by (induction vs) simp_all

lemma normalize_cases:
  "NormalizeReviewVerdict r = ReviewVerdictApprove \<or> NormalizeReviewVerdict r = ReviewVerdictBlock"
  by (simp add: NormalizeReviewVerdict_def)

lemma normalize_idem: "NormalizeReviewVerdict (NormalizeReviewVerdict r) = NormalizeReviewVerdict r"
proof -
  have "NormalizeReviewVerdict ReviewVerdictApprove = ReviewVerdictApprove"
    "NormalizeReviewVerdict ReviewVerdictBlock = ReviewVerdictBlock" by code_simp+
  with normalize_cases [of r] show ?thesis by auto
qed

lemma upsert_new:
  "rv_Profile v \<notin> set (map rv_Profile vs) \<Longrightarrow> UpsertReviewVerdict vs v = vs @ [v]"
  by (induction vs) auto

lemma upsert_distinct:
  "distinct (map rv_Profile vs) \<Longrightarrow> distinct (map rv_Profile (UpsertReviewVerdict vs v)) \<and>
    set (map rv_Profile (UpsertReviewVerdict vs v)) = insert (rv_Profile v) (set (map rv_Profile vs))"
  by (induction vs) auto

lemma recorded_fields [simp]:
  "rv_Profile (recorded_verdict p v e now) = p"
  "votes_block (recorded_verdict p v (Some err) now)"
  "votes_block (recorded_verdict p v None now) = votes_block v"
proof -
  show "rv_Profile (recorded_verdict p v e now) = p" by (simp add: recorded_verdict_def Let_def)
  show "votes_block (recorded_verdict p v None now) = votes_block v"
    by (simp add: recorded_verdict_def normalize_idem)
  have "NormalizeReviewVerdict (NormalizeReviewVerdict ReviewVerdictBlock) = ReviewVerdictBlock" by code_simp
  then show "votes_block (recorded_verdict p v (Some err) now)" by (simp add: recorded_verdict_def)
qed

section \<open>Running the chain\<close>

text \<open>Reviewers run one after the other; each report is a verdict or a read error.\<close>

fun review_run ::
  "state \<Rightarrow> string \<Rightarrow> string list \<Rightarrow> string \<Rightarrow> time \<Rightarrow> string \<Rightarrow> (review_verdict \<times> string option) list \<Rightarrow>
    state \<times> string list" where
  "review_run s ident chain quorum now profile [] = (s, [])"
| "review_run s ident chain quorum now profile ((v, e) # rest) =
     (case AdvanceReviewChain s ident profile v e chain quorum now of
        (s', nxt, finished) \<Rightarrow>
          if finished then (s', [profile])
          else (case review_run s' ident chain quorum now nxt rest of (s'', ps) \<Rightarrow> (s'', profile # ps)))"

fun recorded_all :: "time \<Rightarrow> string list \<Rightarrow> (review_verdict \<times> string option) list \<Rightarrow> review_verdict list" where
  "recorded_all now (p # ps) ((v, e) # rest) = recorded_verdict p v e now # recorded_all now ps rest"
| "recorded_all now _ _ = []"

lemma recorded_all_profiles:
  "length ps = length reports \<Longrightarrow> map rv_Profile (recorded_all now ps reports) = ps"
  by (induction now ps reports rule: recorded_all.induct) simp_all

lemma review_run_from:
  assumes "distinct chain" and "i < length chain" and "length reports = length chain - i"
    and "mget (s_ReviewChainIndex s) ident = Some (int i)"
    and "map rv_Profile (mget_or (s_ReviewVerdicts s) ident []) = take i chain"
  shows "\<exists>s'. review_run s ident chain quorum now (chain ! i) reports = (s', drop i chain)
    \<and> mget (s_ReviewVerdicts s') ident =
        Some (mget_or (s_ReviewVerdicts s) ident [] @ recorded_all now (drop i chain) reports)
    \<and> mget (s_ReviewOutcomes s') ident =
        Some (EvaluateReviewQuorum (mget_or (s_ReviewVerdicts s) ident [] @ recorded_all now (drop i chain) reports) quorum)
    \<and> (mwf (s_ReviewChainIndex s) \<longrightarrow> \<not> reviewChainInFlight s' ident)"
  using assms(2-)
proof (induction reports arbitrary: s i)
  case Nil
  then show ?case by simp
next
  case (Cons r reports)
  obtain v e where r: "r = (v, e)" by (cases r)
  let ?vs = "mget_or (s_ReviewVerdicts s) ident []"
  let ?v = "recorded_verdict (chain ! i) v e now"
  have drop: "drop i chain = chain ! i # drop (Suc i) chain" using Cons.prems(1) by (rule Cons_nth_drop_Suc [symmetric])
  have "chain ! i \<notin> set (take i chain)"
    using assms(1) Cons.prems(1) by (auto simp: in_set_conv_nth nth_eq_iff_index_eq)
  then have ups: "UpsertReviewVerdict ?vs ?v = ?vs @ [?v]"
    using Cons.prems(4) by (intro upsert_new) (metis recorded_fields(1))
  show ?case
  proof (cases "Suc i < length chain")
    case False
    then have "length reports = 0" using Cons.prems(1,2) unfolding list.size by linarith
    then have last: "reports = []" "drop (Suc i) chain = []" using False by simp_all
    have "\<not> int i + 1 < int (length chain)" using False by linarith
    then show ?thesis
      using Cons.prems ups by (simp add: r last drop AdvanceReviewChain_def Let_def reviewChainInFlight_def mget_or_def)
  next
    case True
    let ?s = "s\<lparr>s_ReviewVerdicts := mput (s_ReviewVerdicts s) ident (?vs @ [?v]),
        s_ReviewChainIndex := mput (s_ReviewChainIndex s) ident (int (Suc i))\<rparr>"
    have adv: "AdvanceReviewChain s ident (chain ! i) v e chain quorum now = (?s, chain ! Suc i, False)"
      using True Cons.prems(3) ups
      by (simp add: AdvanceReviewChain_def Let_def mget_or_def add.commute nat_add_distrib)
    have IH: "\<exists>s'. review_run ?s ident chain quorum now (chain ! Suc i) reports = (s', drop (Suc i) chain)
      \<and> mget (s_ReviewVerdicts s') ident =
          Some (mget_or (s_ReviewVerdicts ?s) ident [] @ recorded_all now (drop (Suc i) chain) reports)
      \<and> mget (s_ReviewOutcomes s') ident =
          Some (EvaluateReviewQuorum (mget_or (s_ReviewVerdicts ?s) ident [] @ recorded_all now (drop (Suc i) chain) reports) quorum)
      \<and> (mwf (s_ReviewChainIndex ?s) \<longrightarrow> \<not> reviewChainInFlight s' ident)"
      by (rule Cons.IH) (use True Cons.prems in \<open>simp_all add: mget_or_def take_Suc_conv_app_nth\<close>)
    then obtain s' where s': "review_run ?s ident chain quorum now (chain ! Suc i) reports = (s', drop (Suc i) chain)"
      "mget (s_ReviewVerdicts s') ident =
          Some (mget_or (s_ReviewVerdicts ?s) ident [] @ recorded_all now (drop (Suc i) chain) reports)"
      "mget (s_ReviewOutcomes s') ident =
          Some (EvaluateReviewQuorum (mget_or (s_ReviewVerdicts ?s) ident [] @ recorded_all now (drop (Suc i) chain) reports) quorum)"
      "mwf (s_ReviewChainIndex ?s) \<longrightarrow> \<not> reviewChainInFlight s' ident" by blast
    have get: "mget_or (s_ReviewVerdicts ?s) ident [] = ?vs @ [?v]" by (simp add: mget_or_def)
    show ?thesis
      using adv s' unfolding get by (auto simp: r drop)
  qed
qed

section \<open>Properties\<close>

text \<open>
  C39. A review chain asks every reviewer exactly once and is judged on all of them. After a reset, a
  chain of distinct profiles dispatches its profiles in order, stops after the last, records one
  verdict per reviewer in that order, stores the quorum over exactly these verdicts and leaves no
  chain in flight. A reviewer whose verdict could not be read counts as a block.
\<close>

theorem review_chain_complete:
  assumes "distinct chain" and "chain \<noteq> []" and "length reports = length chain"
    and "mwf (s_ReviewVerdicts s)" and "mwf (s_ReviewChainIndex s)"
  shows "\<exists>s'. review_run (ResetReviewChain s ident) ident chain quorum now (chain ! 0) reports = (s', chain)
    \<and> mget (s_ReviewVerdicts s') ident = Some (recorded_all now chain reports)
    \<and> map rv_Profile (recorded_all now chain reports) = chain
    \<and> mget (s_ReviewOutcomes s') ident = Some (EvaluateReviewQuorum (recorded_all now chain reports) quorum)
    \<and> \<not> reviewChainInFlight s' ident
    \<and> map votes_block (recorded_all now chain reports) = map (\<lambda>(v, e). e \<noteq> None \<or> votes_block v) reports"
proof -
  let ?s = "ResetReviewChain s ident"
  have empty: "mget_or (s_ReviewVerdicts ?s) ident [] = []" and wf: "mwf (s_ReviewChainIndex ?s)"
    using assms(4,5) by (simp_all add: ResetReviewChain_def mget_or_def)
  have votes: "length ps = length rs \<Longrightarrow>
      map votes_block (recorded_all now ps rs) = map (\<lambda>(v, e). e \<noteq> None \<or> votes_block v) rs" for ps rs
  proof (induction now ps rs rule: recorded_all.induct)
    case (1 now p ps v e rest)
    then show ?case by (cases e) simp_all
  qed simp_all
  have "\<exists>s'. review_run ?s ident chain quorum now (chain ! 0) reports = (s', drop 0 chain)
    \<and> mget (s_ReviewVerdicts s') ident =
        Some (mget_or (s_ReviewVerdicts ?s) ident [] @ recorded_all now (drop 0 chain) reports)
    \<and> mget (s_ReviewOutcomes s') ident =
        Some (EvaluateReviewQuorum (mget_or (s_ReviewVerdicts ?s) ident [] @ recorded_all now (drop 0 chain) reports) quorum)
    \<and> (mwf (s_ReviewChainIndex ?s) \<longrightarrow> \<not> reviewChainInFlight s' ident)"
    by (rule review_run_from) (use assms empty in \<open>simp_all add: ResetReviewChain_def\<close>)
  with votes [of chain reports] assms(3) wf show ?thesis
    by (simp add: empty recorded_all_profiles)
qed

definition ex_verdict :: "string \<Rightarrow> review_verdict" where
  "ex_verdict v = \<lparr>rv_Profile = [], rv_Verdict = v, rv_Reasons = [], rv_Comments = [], rv_RecordedAt = 0\<rparr>"

theorem review_chain_complete_witness:
  "\<exists>s'. review_run (ResetReviewChain ex_state ''A-1'') ''A-1'' [''sec'', ''qa''] ''any_block'' 7 ''sec''
        [(ex_verdict '' Approve '', None), (ex_verdict ''approve'', Some ''no file'')] = (s', [''sec'', ''qa''])
    \<and> \<not> reviewChainInFlight s' ''A-1''"
  using review_chain_complete [of "[''sec'', ''qa'']"
      "[(ex_verdict '' Approve '', None), (ex_verdict ''approve'', Some ''no file'')]" ex_state "''A-1''" "''any_block''" 7]
  by (auto simp: ex_state_def NewState_def)

text \<open>
  The quorum fails closed and its rules are ordered. Every vote counts once as an approval or a
  block, anything that does not normalize to approve is a block, no votes means nothing is gated,
  and for votes the three rules block exactly when all, more than half, or any of them block; an
  unknown rule is the strictest one.
\<close>

theorem review_quorum_fails_closed:
  "let out = EvaluateReviewQuorum vs quorum; b = length (filter votes_block vs)
   in ro_Blocks out = int b \<and> ro_Approvals out + ro_Blocks out = int (length vs)
    \<and> ro_Blocked out = (vs \<noteq> [] \<and>
        (if quorum = ReviewQuorumUnanimous then b = length vs
         else if quorum = ReviewQuorumMajority then length vs < 2 * b
         else 0 < b))
    \<and> (votes_block v = (\<not> equal_fold (trim_space (rv_Verdict v)) ''approve''))"
proof -
  have "ReviewVerdictApprove \<noteq> ReviewVerdictBlock" by code_simp
  then have "votes_block v = (\<not> equal_fold (trim_space (rv_Verdict v)) ''approve'')"
    by (simp add: NormalizeReviewVerdict_def ReviewVerdictApprove_def)
  then show ?thesis
    using votes_total [of vs]
    by (auto simp: EvaluateReviewQuorum_def Let_def count_votes_eq)
qed

end
