(* ===== verification/Admission.thy ===== *)
theory Admission
  imports Backend_Gate Automation_Queue Review_Quorum
begin

text \<open>
  Every path by which the orchestrator admits work: drains (\<open>internal/orchestrator/drain.go\<close>), SSH
  host selection (\<open>ssh_host.go\<close>), \<open>dispatch\<close> and \<open>dispatchReviewerForIssue\<close>
  (\<open>event_loop.go\<close>), automation runs (\<open>automation.go\<close>), the automation queue's dispatch and drain
  (\<open>automation_queue.go\<close>) and reviews postponed by a drain (\<open>pending_review.go\<close>).

  The fields of the \<open>Orchestrator\<close> struct that these read or write are the record \<open>orch\<close>; the
  goroutines they start are the list \<open>o_started\<close>. All clock readings of one call are the one
  argument \<open>now\<close>. \<open>fmt_time\<close> stands for the RFC 3339 rendering inside human-readable reasons. Disk
  writes, log lines and worker cancellation functions are not modelled.
\<close>

section \<open>The orchestrator's own fields\<close>

text \<open>What a resumed worker continues: the session, and the human's reply to the question asked.\<close>

record resume_context =
  rc_SessionID :: string
  rc_UserMessage :: string
  rc_InputContext :: string

record worker_start =
  ws_Issue :: issue
  ws_Attempt :: int
  ws_Host :: string
  ws_Command :: string
  ws_Backend :: string
  ws_Profile :: string
  ws_SkipPRCheck :: bool
  ws_Resume :: "resume_context option"
  ws_Automation :: "automation_dispatch option"

record orch =
  o_sshHostIdx :: int
  o_issueProfiles :: "(string, string) gomap"
  o_issueBackends :: "(string, string) gomap"
  o_reviewerInjectedProfiles :: "string goset"
  o_drainRequested :: bool
  o_draining :: bool
  o_drained :: bool
  o_DryRun :: bool
  o_started :: "worker_start list"

type_synonym daemon = "orch \<times> state"

section \<open>Draining\<close>

definition applyDrain :: "daemon \<Rightarrow> daemon" where
  "applyDrain d =
     (case d of (o', s) \<Rightarrow>
        if s_Draining s then (o', s) else (o'\<lparr>o_draining := True\<rparr>, s\<lparr>s_Draining := True\<rparr>))"

definition syncDrainRequest :: "daemon \<Rightarrow> daemon" where
  "syncDrainRequest d =
     (if \<not> s_Draining (snd d) \<and> o_drainRequested (fst d) then applyDrain d else d)"

text \<open>The announcement half of \<open>RequestDrain\<close>; the queued event is \<open>applyDrain\<close>.\<close>

definition RequestDrain :: "orch \<Rightarrow> orch" where
  "RequestDrain o' = o'\<lparr>o_drainRequested := True\<rparr>"

definition AdmissionClosed :: "orch \<Rightarrow> bool" where
  "AdmissionClosed o' = (o_draining o' \<or> o_drainRequested o')"

definition observeDrained :: "daemon \<Rightarrow> daemon" where
  "observeDrained d =
     (case d of (o', s) \<Rightarrow>
        if s_Draining s \<and> s_Running s = [] then (o'\<lparr>o_drained := True\<rparr>, s) else (o', s))"

section \<open>Hosts, profiles and pins\<close>

definition host_load :: "(string, run_entry) gomap \<Rightarrow> string \<Rightarrow> int" where
  "host_load running h = int (length (filter (\<lambda>(k, e). ru_WorkerHost e = h) running))"

fun least_loop :: "(string \<Rightarrow> int) \<Rightarrow> string list \<Rightarrow> int \<Rightarrow> string \<Rightarrow> string" where
  "least_loop load [] minCount selected = selected"
| "least_loop load (h # hs) minCount selected =
     (if load h < minCount then least_loop load hs (load h) h
      else least_loop load hs minCount selected)"

definition selectLeastLoadedHost :: "string list \<Rightarrow> (string, run_entry) gomap \<Rightarrow> string" where
  "selectLeastLoadedHost hosts running =
     (case hosts of [] \<Rightarrow> [] | h # _ \<Rightarrow> least_loop (host_load running) hosts int64_max h)"

definition selectWorkerHost :: "config \<Rightarrow> daemon \<Rightarrow> orch \<times> string" where
  "selectWorkerHost cfg d =
     (let hosts = ag_SSHHosts (cf_Agent cfg)
      in if hosts = [] then (fst d, [])
         else if ag_DispatchStrategy (cf_Agent cfg) = ''least-loaded''
         then (fst d, selectLeastLoadedHost hosts (s_Running (snd d)))
         else ((fst d)\<lparr>o_sshHostIdx := o_sshHostIdx (fst d) + 1\<rparr>,
               hosts ! nat (o_sshHostIdx (fst d) mod int (length hosts))))"

definition issueProfileForDispatch :: "daemon \<Rightarrow> string \<Rightarrow> string" where
  "issueProfileForDispatch d identifier =
     (case mget (o_issueProfiles (fst d)) identifier of
        Some override \<Rightarrow> override | None \<Rightarrow> mget_or (s_IssueProfiles (snd d)) identifier [])"

definition issueBackendForDispatch :: "daemon \<Rightarrow> string \<Rightarrow> string" where
  "issueBackendForDispatch d identifier =
     (case mget (o_issueBackends (fst d)) identifier of
        Some override \<Rightarrow> override | None \<Rightarrow> mget_or (s_IssueBackends (snd d)) identifier [])"

definition operatorPinnedBackend :: "orch \<Rightarrow> string \<Rightarrow> string" where
  "operatorPinnedBackend o' identifier = mget_or (o_issueBackends o') identifier []"

definition isReviewerInjected :: "orch \<Rightarrow> string \<Rightarrow> bool" where
  "isReviewerInjected o' identifier = mhas (o_reviewerInjectedProfiles o') identifier"

section \<open>Dispatch of a worker\<close>

definition new_run ::
  "issue \<Rightarrow> string \<Rightarrow> string \<Rightarrow> string \<Rightarrow> string \<Rightarrow> string \<Rightarrow> string \<Rightarrow> int \<Rightarrow> time \<Rightarrow> run_entry" where
  "new_run issue host backend profile kind autoID trig attempt now =
     \<lparr>ru_Issue = issue, ru_SessionID = [], ru_AgentSessionID = [], ru_WorkerHost = host,
      ru_Backend = backend, ru_ProfileName = profile, ru_Kind = kind, ru_AutomationID = autoID,
      ru_TriggerType = trig, ru_CommentCount = 0, ru_PendingInputResume = False, ru_BranchName = [],
      ru_PRURL = [], ru_TerminalReason = TerminalNone, ru_LastEventAt = None, ru_LastMessage = [],
      ru_InputTokens = 0, ru_OutputTokens = 0, ru_TotalTokens = 0, ru_TurnCount = 0,
      ru_RetryAttempt = Some attempt, ru_StartedAt = now, ru_WorkerCancel = True\<rparr>"

definition claim_issue :: "state \<Rightarrow> string \<Rightarrow> state" where
  "claim_issue s k = s\<lparr>s_Claimed := mput (s_Claimed s) k ()\<rparr>"

definition claim_and_run :: "state \<Rightarrow> string \<Rightarrow> run_entry \<Rightarrow> state" where
  "claim_and_run s k r =
     (claim_issue s k)\<lparr>s_Running := mput (s_Running s) k r\<rparr>"

text \<open>The issue's profile, dropped when it is missing or disabled.\<close>

definition usable_profile :: "config \<Rightarrow> string \<Rightarrow> string \<times> agent_profile option" where
  "usable_profile cfg name =
     (if name = [] then ([], None)
      else case mget (ag_Profiles (cf_Agent cfg)) name of
        None \<Rightarrow> ([], None)
      | Some p \<Rightarrow> if ProfileEnabled p then (name, Some p) else ([], None))"

definition target_input :: "config \<Rightarrow> agent_profile option \<Rightarrow> string \<Rightarrow> string \<Rightarrow> dispatch_input" where
  "target_input cfg profile issueBackend recovery =
     \<lparr>di_DefaultCommand = ag_Command (cf_Agent cfg), di_DefaultBackend = ag_Backend (cf_Agent cfg),
      di_Profile = profile, di_IssueBackend = issueBackend, di_RecoveryBackend = recovery\<rparr>"

definition worker_request :: "config \<Rightarrow> daemon \<Rightarrow> issue \<Rightarrow> string \<Rightarrow> time \<Rightarrow> gate_request" where
  "worker_request cfg d issue host now =
     (let ident = is_Identifier issue;
          (profileName, profile) = usable_profile cfg (issueProfileForDispatch d ident)
      in \<lparr>gr_identifier = ident,
          gr_in = target_input cfg profile (issueBackendForDispatch d ident) [],
          gr_profileName = profileName, gr_host = host, gr_hosts = ag_SSHHosts (cf_Agent cfg),
          gr_allowReroute = (operatorPinnedBackend (fst d) ident = []),
          gr_rerouteAllowed =
            (if isReviewerInjected (fst d) ident then None
             else Some (\<lambda>t. allowRateLimitSwitch cfg t (is_ID issue) now))\<rparr>)"

text \<open>A rerouted reviewer keeps its per-run profile; a rerouted implementer is switched.\<close>

definition note_reroute ::
  "(time \<Rightarrow> string) \<Rightarrow> daemon \<Rightarrow> issue \<Rightarrow> gate_result \<Rightarrow> time \<Rightarrow> daemon" where
  "note_reroute fmt_time d issue g now =
     (if \<not> gt_rerouted g then d
      else if isReviewerInjected (fst d) (is_Identifier issue)
      then ((fst d)\<lparr>o_issueProfiles := mput (o_issueProfiles (fst d)) (is_Identifier issue) (gt_profileName g)\<rparr>, snd d)
      else (fst d, recordFallbackSwitch fmt_time (snd d) issue g now))"

text \<open>The session a resumed worker continues: only on the backend that created it.\<close>

definition resume_session :: "state \<Rightarrow> string \<Rightarrow> string \<Rightarrow> resume_context option" where
  "resume_session s identifier runnerCommand =
     (case mget (s_PausedSessions s) identifier of
        None \<Rightarrow> None
      | Some p \<Rightarrow> if resumeBackendMatches (ps_Backend p) (BackendFromCommand runnerCommand)
                  then Some \<lparr>rc_SessionID = ps_SessionID p, rc_UserMessage = [], rc_InputContext = []\<rparr> else None)"

definition launch_worker :: "daemon \<Rightarrow> issue \<Rightarrow> int \<Rightarrow> gate_result \<Rightarrow> bool \<Rightarrow> time \<Rightarrow> daemon" where
  "launch_worker d issue attempt g skipPRCheck now =
     (let t = gt_target g; ident = is_Identifier issue;
          s = claim_and_run (snd d) (is_ID issue)
            (new_run issue (gt_host g) (dt_Backend t) (gt_profileName g) [] [] [] attempt now)
      in ((fst d)\<lparr>o_started := o_started (fst d) @
            [\<lparr>ws_Issue = issue, ws_Attempt = attempt, ws_Host = gt_host g, ws_Command = dt_RunnerCommand t,
              ws_Backend = dt_Backend t, ws_Profile = gt_profileName g, ws_SkipPRCheck = skipPRCheck,
              ws_Resume = resume_session (snd d) ident (dt_RunnerCommand t), ws_Automation = None\<rparr>]\<rparr>,
          s\<lparr>s_PausedSessions := mdel (s_PausedSessions s) ident\<rparr>))"

text \<open>A forced re-analysis is consumed by the dispatch that honours it.\<close>

definition take_force :: "state \<Rightarrow> string \<Rightarrow> state" where
  "take_force s identifier = s\<lparr>s_ForceReanalyze := mdel (s_ForceReanalyze s) identifier\<rparr>"

definition dispatch :: "(time \<Rightarrow> string) \<Rightarrow> config \<Rightarrow> time \<Rightarrow> daemon \<Rightarrow> issue \<Rightarrow> int \<Rightarrow> daemon" where
  "dispatch fmt_time cfg now d issue attempt =
     (let (o1, s1) = syncDrainRequest d
      in if s_Draining s1 then (o1, s1)
         else let ident = is_Identifier issue;
                  skipPRCheck = mhas (s_ForceReanalyze s1) ident;
                  s2 = take_force s1 ident;
                  (o2, host) = selectWorkerHost cfg (o1, s2);
                  (s3, g) = gateDispatch cfg s2 (worker_request cfg (o2, s2) issue host now) now
              in if gt_held g then (o2, s3)
                 else let (o4, s4) = note_reroute fmt_time (o2, s3) issue g now
                      in if o_DryRun o4 then (o4, claim_issue s4 (is_ID issue))
                         else launch_worker (o4, s4) issue attempt g skipPRCheck now)"

section \<open>Dispatch of a reviewer\<close>

definition recordPendingReview :: "state \<Rightarrow> issue \<Rightarrow> string \<Rightarrow> time \<Rightarrow> state" where
  "recordPendingReview s issue profile now =
     (if is_ID issue = [] \<or> is_Identifier issue = [] \<or> profile = [] then s
      else s\<lparr>s_PendingReviews := mput (s_PendingReviews s) (is_Identifier issue)
        \<lparr>pv_IssueID = is_ID issue, pv_Identifier = is_Identifier issue, pv_Profile = profile,
         pv_QueuedAt = now, pv_IssueState = is_State issue\<rparr>\<rparr>)"

definition clearPendingReview :: "state \<Rightarrow> string \<Rightarrow> state" where
  "clearPendingReview s identifier =
     s\<lparr>s_PendingReviews := mdel (s_PendingReviews s) identifier\<rparr>"

definition describeHold :: "(time \<Rightarrow> string) \<Rightarrow> backend_hold \<Rightarrow> string" where
  "describeHold fmt_time h =
     (if isZero (hd_Until h) then hd_Key h else hd_Key h @ '' until '' @ fmt_time (hd_Until h))"

definition profile_request :: "config \<Rightarrow> daemon \<Rightarrow> issue \<Rightarrow> string \<Rightarrow> agent_profile \<Rightarrow> string \<Rightarrow> string \<Rightarrow> bool \<Rightarrow> gate_request" where
  "profile_request cfg d issue profileName profile recovery host allow =
     \<lparr>gr_identifier = is_Identifier issue,
      gr_in = target_input cfg (Some profile) (issueBackendForDispatch d (is_Identifier issue)) recovery,
      gr_profileName = profileName, gr_host = host, gr_hosts = ag_SSHHosts (cf_Agent cfg),
      gr_allowReroute = (allow \<and> operatorPinnedBackend (fst d) (is_Identifier issue) = []),
      gr_rerouteAllowed = None\<rparr>"

definition inject_reviewer :: "orch \<Rightarrow> string \<Rightarrow> string \<Rightarrow> orch" where
  "inject_reviewer o' identifier profileName =
     o'\<lparr>o_issueProfiles := mput (o_issueProfiles o') identifier profileName,
        o_reviewerInjectedProfiles := mput (o_reviewerInjectedProfiles o') identifier ()\<rparr>"

definition launch_reviewer :: "daemon \<Rightarrow> issue \<Rightarrow> gate_result \<Rightarrow> time \<Rightarrow> daemon" where
  "launch_reviewer d issue g now =
     (let t = gt_target g; ident = is_Identifier issue;
          s = claim_and_run (snd d) (is_ID issue)
            (new_run issue (gt_host g) (dt_Backend t) (gt_profileName g) ''reviewer'' [] [] 0 now);
          o' = inject_reviewer (fst d) ident (gt_profileName g)
      in (o'\<lparr>o_started := o_started o' @
            [\<lparr>ws_Issue = issue, ws_Attempt = 0, ws_Host = gt_host g, ws_Command = dt_RunnerCommand t,
              ws_Backend = dt_Backend t, ws_Profile = gt_profileName g, ws_SkipPRCheck = False,
              ws_Resume = None, ws_Automation = None\<rparr>]\<rparr>,
          clearPendingReview s ident))"

definition dispatchReviewerForIssue ::
  "(time \<Rightarrow> string) \<Rightarrow> config \<Rightarrow> time \<Rightarrow> daemon \<Rightarrow> issue \<Rightarrow> string \<Rightarrow> daemon" where
  "dispatchReviewerForIssue fmt_time cfg now d issue profileName =
     (let (o1, s1) = syncDrainRequest d
      in if s_Draining s1 then (o1, recordPendingReview s1 issue profileName now)
         else case mget (ag_Profiles (cf_Agent cfg)) profileName of
           None \<Rightarrow> (o1, s1)
         | Some profile \<Rightarrow>
             if \<not> ProfileEnabled profile then (o1, s1)
             else let (o2, host) = selectWorkerHost cfg (o1, s1);
                      (s2, g) = gateDispatch cfg s1
                        (profile_request cfg (o2, s1) issue profileName profile [] host True) now
                  in if gt_held g
                     then (inject_reviewer o2 (is_Identifier issue) profileName,
                           ScheduleRetry s2 (is_ID issue) 0 (is_Identifier issue)
                             (''backend limited: '' @ describeHold fmt_time (gt_hold g)) now
                             (holdRetryDelay s2 (gt_hold g) now))
                     else if o_DryRun o2 then (o2, s2)
                     else launch_reviewer (o2, s2) issue g now)"

section \<open>Automation runs\<close>

definition launch_automation :: "daemon \<Rightarrow> issue \<Rightarrow> automation_dispatch \<Rightarrow> gate_result \<Rightarrow> time \<Rightarrow> daemon" where
  "launch_automation d issue a g now =
     (let t = gt_target g;
          kind = (if ad_UseIssueLifecycle a then ''worker'' else ''automation'')
      in ((fst d)\<lparr>o_started := o_started (fst d) @
            [\<lparr>ws_Issue = issue, ws_Attempt = 0, ws_Host = gt_host g, ws_Command = dt_RunnerCommand t,
              ws_Backend = dt_Backend t, ws_Profile = gt_profileName g, ws_SkipPRCheck = False,
              ws_Resume = None, ws_Automation = Some a\<rparr>]\<rparr>,
          claim_and_run (snd d) (is_ID issue)
            (new_run issue (gt_host g) (dt_Backend t) (gt_profileName g) kind (ad_AutomationID a)
              (tr_Type (ad_Trigger a)) 0 now)))"

datatype start_result = NotStarted | Started | Held

definition startAutomationRunOrHold ::
  "config \<Rightarrow> time \<Rightarrow> daemon \<Rightarrow> issue \<Rightarrow> automation_dispatch \<Rightarrow> daemon \<times> start_result" where
  "startAutomationRunOrHold cfg now d issue a =
     (if ad_ProfileName a = [] then (d, NotStarted)
      else if mhas (s_Running (snd d)) (is_ID issue) then (d, NotStarted)
      else if mhas (s_Claimed (snd d)) (is_ID issue) then (d, NotStarted)
      else let (o1, s1) = syncDrainRequest d
      in if AvailableSlots s1 \<le> 0 then ((o1, s1), NotStarted)
         else case mget (ag_Profiles (cf_Agent cfg)) (ad_ProfileName a) of
           None \<Rightarrow> ((o1, s1), NotStarted)
         | Some profile \<Rightarrow>
             if \<not> ProfileEnabled profile then ((o1, s1), NotStarted)
             else let (o2, host) = selectWorkerHost cfg (o1, s1);
                      recovery = (if tr_Type (ad_Trigger a) = AutomationTriggerRateLimited \<and> ad_AutoResume a
                                  then tr_SwitchedToBackend (ad_Trigger a) else []);
                      (s2, g) = gateDispatch cfg s1
                        (profile_request cfg (o2, s1) issue (ad_ProfileName a) profile recovery host
                          (\<not> ad_UseIssueLifecycle a)) now
                  in if gt_held g then ((o2, s2), Held)
                     else if o_DryRun o2 then ((o2, claim_issue s2 (is_ID issue)), Started)
                     else (launch_automation (o2, s2) issue a g now, Started))"

definition automationProfileUnavailableReason :: "config \<Rightarrow> automation_dispatch \<Rightarrow> string" where
  "automationProfileUnavailableReason cfg a =
     (if ad_ProfileName a = [] then ''missing_profile''
      else case mget (ag_Profiles (cf_Agent cfg)) (ad_ProfileName a) of
        None \<Rightarrow> ''missing_profile''
      | Some p \<Rightarrow> if ProfileEnabled p then [] else ''disabled_profile'')"

definition clear_switched_pause :: "state \<Rightarrow> issue \<Rightarrow> automation_dispatch \<Rightarrow> state" where
  "clear_switched_pause s issue a =
     (if tr_Type (ad_Trigger a) = AutomationTriggerRateLimited \<and> ad_AutoResume a \<and>
         mhas (s_AutoSwitchedIdentifiers s) (is_Identifier issue)
      then let s1 = clearPauseReason (s\<lparr>s_PausedIdentifiers :=
                 mdel (s_PausedIdentifiers s) (is_Identifier issue)\<rparr>) (is_Identifier issue)
           in s1\<lparr>s_PausedSessions := mdel (s_PausedSessions s1) (is_Identifier issue)\<rparr>
      else s)"

definition queue_automation :: "daemon \<Rightarrow> issue \<Rightarrow> automation_dispatch \<Rightarrow> string \<Rightarrow> time \<Rightarrow> daemon \<times> bool" where
  "queue_automation d issue a reason now =
     (case enqueueAutomation (snd d) issue a reason now of (s, ok) \<Rightarrow> ((fst d, s), ok))"

definition dispatchOrQueueAutomation ::
  "config \<Rightarrow> time \<Rightarrow> daemon \<Rightarrow> issue \<Rightarrow> automation_dispatch \<Rightarrow> daemon \<times> bool" where
  "dispatchOrQueueAutomation cfg now d issue a =
     (let (s1, fresh) = claimPROpenedDedup (snd d) issue a
      in if \<not> fresh then ((fst d, s1), False)
         else if automationProfileUnavailableReason cfg a \<noteq> [] then ((fst d, s1), False)
         else if mhas (s_InputRequiredIssues s1) (is_Identifier issue) \<and>
                 tr_Type (ad_Trigger a) \<noteq> AutomationTriggerInputRequired
         then queue_automation (fst d, s1) issue a AutomationQueueReasonInputRequired now
         else let s2 = clear_switched_pause s1 issue a;
                  reason = IneligibleReasonForAutomation issue s2 cfg
              in if reason \<noteq> []
                 then if automationQueueableReason reason \<noteq> None
                      then queue_automation (fst d, s2) issue a reason now
                      else ((fst d, s2), False)
                 else case startAutomationRunOrHold cfg now (fst d, s2) issue a of
                        (d', Held) \<Rightarrow> queue_automation d' issue a AutomationQueueReasonBackendLimited now
                      | (d', Started) \<Rightarrow> (d', True)
                      | (d', NotStarted) \<Rightarrow> (d', False))"

section \<open>The tracker as the loop sees it\<close>

text \<open>
  The answers of the tracker during one pass: a fetch gives the issue, no issue, a failure, or
  the not-found error.
\<close>

datatype issue_fetch = Fetched issue | FetchNil | FetchFailed string | FetchNotFound string

record tracker_ops =
  tk_FetchIssueDetail :: "string \<Rightarrow> issue_fetch"
  tk_FetchIssueByIdentifier :: "string \<Rightarrow> issue_fetch"
  tk_FetchIssueStatesByIDs :: "string list \<Rightarrow> issue list option"

section \<open>Draining the automation queue\<close>

definition drainAutomationQueueFetchBudget :: int where
  "drainAutomationQueueFetchBudget = 10"

definition put_entry :: "state \<Rightarrow> automation_queue_entry \<Rightarrow> state" where
  "put_entry s e = s\<lparr>s_AutomationQueue := mput (s_AutomationQueue s) (aq_ID e) e\<rparr>"

text \<open>
  \<open>refreshQueuedAutomationIssue\<close>: the tracker's view of the entry's issue, or \<open>None\<close> when this pass
  cannot use the entry.
\<close>

definition queued_fetch :: "tracker_ops \<Rightarrow> automation_queue_entry \<Rightarrow> issue_fetch option" where
  "queued_fetch tk e =
     (if is_ID (aq_Issue e) \<noteq> [] then Some (tk_FetchIssueDetail tk (is_ID (aq_Issue e)))
      else if is_Identifier (aq_Issue e) \<noteq> []
      then Some (tk_FetchIssueByIdentifier tk (is_Identifier (aq_Issue e)))
      else None)"

definition refreshQueuedAutomationIssue ::
  "tracker_ops option \<Rightarrow> state \<Rightarrow> automation_queue_entry \<Rightarrow> time \<Rightarrow> state \<times> issue option" where
  "refreshQueuedAutomationIssue tracker s e now =
     (case tracker of
        None \<Rightarrow> (s, Some (aq_Issue e))
      | Some tk \<Rightarrow>
          (case queued_fetch tk e of
             None \<Rightarrow> (s, Some (aq_Issue e))
           | Some (FetchNotFound err) \<Rightarrow>
               (removeAutomationQueueEntry (put_entry s (e\<lparr>aq_LastAttemptAt := now, aq_LastError := err\<rparr>)) (aq_ID e), None)
           | Some (FetchFailed err) \<Rightarrow> (put_entry s (e\<lparr>aq_LastAttemptAt := now, aq_LastError := err\<rparr>), None)
           | Some FetchNil \<Rightarrow>
               (put_entry s (e\<lparr>aq_LastAttemptAt := now, aq_LastError := ''tracker returned nil issue''\<rparr>), None)
           | Some (Fetched issue) \<Rightarrow> (put_entry s (e\<lparr>aq_Issue := issue, aq_LastError := []\<rparr>), Some issue)))"

definition resolveQueuedAutomationIssue ::
  "tracker_ops option \<Rightarrow> state \<Rightarrow> automation_queue_entry \<Rightarrow> time \<Rightarrow> (string, issue) gomap \<Rightarrow> duration \<Rightarrow> int \<Rightarrow>
    state \<times> int \<times> (issue \<times> bool) option" where
  "resolveQueuedAutomationIssue tracker s e now candidates pollInterval budget =
     (case lookupCandidate candidates (aq_Issue e) of
        Some hint \<Rightarrow> (put_entry s (e\<lparr>aq_Issue := hint, aq_LastError := []\<rparr>), budget, Some (hint, False))
      | None \<Rightarrow>
          if 0 < pollInterval \<and> \<not> isZero (aq_LastAttemptAt e) \<and>
             time_sub now (aq_LastAttemptAt e) < pollInterval
          then (s, budget, Some (aq_Issue e, False))
          else if budget \<le> 0 then (s, budget, Some (aq_Issue e, False))
          else case refreshQueuedAutomationIssue tracker s e now of
                 (s', None) \<Rightarrow> (s', budget, None)
               | (s', Some issue) \<Rightarrow> (s', budget - 1, Some (issue, True)))"

text \<open>What happens to an entry whose run was attempted.\<close>

definition settle_entry ::
  "config \<Rightarrow> time \<Rightarrow> daemon \<Rightarrow> automation_queue_entry \<Rightarrow> issue \<Rightarrow> daemon \<times> bool" where
  "settle_entry cfg now d e issue =
     (let e = e\<lparr>aq_Status := AutomationQueueDispatching, aq_LastAttemptAt := now, aq_AttemptCount := aq_AttemptCount e + 1\<rparr>;
          (d', r) = startAutomationRunOrHold cfg now (fst d, put_entry (snd d) e) issue (automationDispatchFromQueueEntry e);
          retain = (\<lambda>reason. case updateAutomationQueueEntryReason e reason now of
                 None \<Rightarrow> snd d' | Some e' \<Rightarrow> put_entry (snd d') e')
      in case r of
           Started \<Rightarrow> ((fst d', removeAutomationQueueEntry (snd d') (aq_ID e)), False)
         | Held \<Rightarrow> ((fst d', retain AutomationQueueReasonBackendLimited), False)
         | NotStarted \<Rightarrow>
             if AvailableSlots (snd d') \<le> 0 then ((fst d', retain AutomationQueueReasonNoSlots), True)
             else ((fst d', removeAutomationQueueEntry (snd d') (aq_ID e)), False))"

text \<open>One entry of the pass: the daemon, the remaining fetch budget and whether the pass stops.\<close>

definition drain_entry ::
  "tracker_ops option \<Rightarrow> config \<Rightarrow> time \<Rightarrow> (string, issue) gomap \<Rightarrow> daemon \<Rightarrow> int \<Rightarrow> automation_queue_entry \<Rightarrow>
    daemon \<times> int \<times> bool" where
  "drain_entry tracker cfg now candidates d budget e =
     (if automationProfileUnavailableReason cfg (automationDispatchFromQueueEntry e) \<noteq> []
      then ((fst d, removeAutomationQueueEntry (snd d) (aq_ID e)), budget, False)
      else case resolveQueuedAutomationIssue tracker (snd d) e now candidates
                  (wrap64 (s_PollIntervalMs (snd d) * millisecond)) budget of
        (s1, budget1, None) \<Rightarrow> ((fst d, s1), budget1, False)
      | (s1, budget1, Some (issue, refreshed)) \<Rightarrow>
          let s2 = (if refreshed then fst (auditFetchedIssueDependencies now s1 issue now) else s1);
              e2 = (case mget (s_AutomationQueue s2) (aq_ID e) of Some e' \<Rightarrow> e' | None \<Rightarrow> e);
              reason = IneligibleReasonForAutomation issue s2 cfg
          in if reason \<noteq> []
             then (case updateAutomationQueueEntryReason e2 reason now of
                     None \<Rightarrow> ((fst d, removeAutomationQueueEntry s2 (aq_ID e)), budget1, False)
                   | Some e3 \<Rightarrow> ((fst d, put_entry s2 e3), budget1, aq_Reason e3 = AutomationQueueReasonNoSlots))
             else (case settle_entry cfg now (fst d, s2) e2 issue of (d', stop) \<Rightarrow> (d', budget1, stop)))"

fun drain_loop ::
  "tracker_ops option \<Rightarrow> config \<Rightarrow> time \<Rightarrow> (string, issue) gomap \<Rightarrow> daemon \<Rightarrow> int \<Rightarrow> string list \<Rightarrow> daemon" where
  "drain_loop tracker cfg now candidates d budget [] = d"
| "drain_loop tracker cfg now candidates d budget (k # ks) =
     (if AvailableSlots (snd d) \<le> 0 then d
      else case mget (s_AutomationQueue (snd d)) k of
        None \<Rightarrow> drain_loop tracker cfg now candidates d budget ks
      | Some e \<Rightarrow>
          (case drain_entry tracker cfg now candidates d budget e of
             (d', budget', stop) \<Rightarrow>
               if stop then d' else drain_loop tracker cfg now candidates d' budget' ks))"

definition drainAutomationQueueWithCandidates ::
  "tracker_ops option \<Rightarrow> config \<Rightarrow> time \<Rightarrow> (string, issue) gomap \<Rightarrow> daemon \<Rightarrow> daemon" where
  "drainAutomationQueueWithCandidates tracker cfg now candidates d =
     (let s = ensureAutomationQueueState (snd d)
      in drain_loop tracker cfg now candidates (fst d, s) drainAutomationQueueFetchBudget
           (map aq_ID (sortedAutomationQueue s)))"

definition drainAutomationQueue :: "tracker_ops option \<Rightarrow> config \<Rightarrow> time \<Rightarrow> daemon \<Rightarrow> daemon" where
  "drainAutomationQueue tracker cfg now d = drainAutomationQueueWithCandidates tracker cfg now [] d"

section \<open>Reviews postponed by a drain\<close>

definition pendingReviewObsolete :: "config \<Rightarrow> state \<Rightarrow> pending_review \<Rightarrow> string \<Rightarrow> string" where
  "pendingReviewObsolete cfg s pr current =
     (if \<not> isTerminalState current s then []
      else if pv_IssueState pr \<noteq> []
      then if equal_fold current (pv_IssueState pr) then []
           else ''issue moved to a terminal state after the review was queued''
      else if tk_CompletionState (cf_Tracker cfg) \<noteq> [] \<and>
              equal_fold current (tk_CompletionState (cf_Tracker cfg)) then []
      else ''issue is in a terminal state'')"

definition review_profile :: "config \<Rightarrow> daemon \<Rightarrow> string \<Rightarrow> pending_review \<Rightarrow> daemon \<times> string" where
  "review_profile cfg d identifier pr =
     (let chain = ReviewerProfileChain cfg
      in if 1 < length chain \<and> pv_Profile pr \<in> set chain
         then ((fst d, ResetReviewChain (snd d) identifier), chain ! 0)
         else (d, pv_Profile pr))"

definition resume_review ::
  "(time \<Rightarrow> string) \<Rightarrow> tracker_ops \<Rightarrow> config \<Rightarrow> time \<Rightarrow> daemon \<Rightarrow> string \<Rightarrow> pending_review \<Rightarrow> daemon" where
  "resume_review fmt_time tk cfg now d identifier pr =
     (case tk_FetchIssueDetail tk (pv_IssueID pr) of
        FetchNotFound err \<Rightarrow> (fst d, clearPendingReview (snd d) identifier)
      | FetchFailed err \<Rightarrow> d
      | FetchNil \<Rightarrow> (fst d, clearPendingReview (snd d) identifier)
      | Fetched issue \<Rightarrow>
          if pendingReviewObsolete cfg (snd d) pr (is_State issue) \<noteq> []
          then (fst d, clearPendingReview (snd d) identifier)
          else let (d1, profile) = review_profile cfg d identifier pr;
                   d2 = dispatchReviewerForIssue fmt_time cfg now d1 issue profile
               in if \<not> mhas (s_Running (snd d2)) (pv_IssueID pr) \<and> \<not> s_Draining (snd d2)
                  then (fst d2, clearPendingReview (snd d2) identifier) else d2)"

definition zero_review :: pending_review where
  "zero_review = \<lparr>pv_IssueID = [], pv_Identifier = [], pv_Profile = [], pv_QueuedAt = 0, pv_IssueState = []\<rparr>"

fun resume_loop :: "(time \<Rightarrow> string) \<Rightarrow> tracker_ops \<Rightarrow> config \<Rightarrow> time \<Rightarrow> daemon \<Rightarrow> string list \<Rightarrow> daemon" where
  "resume_loop fmt_time tk cfg now d [] = d"
| "resume_loop fmt_time tk cfg now d (k # ks) =
     (if AvailableSlots (snd d) \<le> 0 then d
      else let pr = mget_or (s_PendingReviews (snd d)) k zero_review
      in if mhas (s_Running (snd d)) (pv_IssueID pr) \<or> mhas (s_Claimed (snd d)) (pv_IssueID pr)
         then resume_loop fmt_time tk cfg now d ks
         else resume_loop fmt_time tk cfg now (resume_review fmt_time tk cfg now d k pr) ks)"

definition resumePendingReviews ::
  "(time \<Rightarrow> string) \<Rightarrow> tracker_ops \<Rightarrow> config \<Rightarrow> time \<Rightarrow> daemon \<Rightarrow> daemon" where
  "resumePendingReviews fmt_time tk cfg now d =
     (if s_PendingReviews (snd d) = [] then d
      else let d1 = syncDrainRequest d;
               queued = (\<lambda>k. pv_QueuedAt (mget_or (s_PendingReviews (snd d1)) k zero_review))
           in resume_loop fmt_time tk cfg now d1
                (stable_sort (\<lambda>a b. queued a < queued b) (mkeys (s_PendingReviews (snd d1)))))"

section \<open>What the gate leaves alone\<close>

text \<open>The state without the fields the backend gate owns.\<close>

definition strip :: "state \<Rightarrow> state" where
  "strip s = s\<lparr>s_BackendHealth := [], s_BackendLimitedHolds := [], s_SwitchHistory := []\<rparr>"

lemma strip_fields:
  assumes "strip t = strip s"
  shows "s_Running t = s_Running s" and "s_Claimed t = s_Claimed s" and "s_Draining t = s_Draining s"
    and "s_MaxConcurrentAgents t = s_MaxConcurrentAgents s" and "s_RetryAttempts t = s_RetryAttempts s"
    and "s_AutomationQueue t = s_AutomationQueue s" and "s_AutomationQueueOrder t = s_AutomationQueueOrder s"
    and "s_PausedSessions t = s_PausedSessions s" and "s_PausedIdentifiers t = s_PausedIdentifiers s"
    and "s_PendingReviews t = s_PendingReviews s" and "s_IssueProfiles t = s_IssueProfiles s"
    and "s_IssueBackends t = s_IssueBackends s" and "s_InputRequiredIssues t = s_InputRequiredIssues s"
proof -
  have "f t = f s" if "\<And>x. f (strip x) = f x" for f :: "state \<Rightarrow> 'z" using that assms by metis
  note field = this
  show "s_Running t = s_Running s" by (rule field) (simp add: strip_def)
  show "s_Claimed t = s_Claimed s" by (rule field) (simp add: strip_def)
  show "s_Draining t = s_Draining s" by (rule field) (simp add: strip_def)
  show "s_MaxConcurrentAgents t = s_MaxConcurrentAgents s" by (rule field) (simp add: strip_def)
  show "s_RetryAttempts t = s_RetryAttempts s" by (rule field) (simp add: strip_def)
  show "s_AutomationQueue t = s_AutomationQueue s" by (rule field) (simp add: strip_def)
  show "s_AutomationQueueOrder t = s_AutomationQueueOrder s" by (rule field) (simp add: strip_def)
  show "s_PausedSessions t = s_PausedSessions s" by (rule field) (simp add: strip_def)
  show "s_PausedIdentifiers t = s_PausedIdentifiers s" by (rule field) (simp add: strip_def)
  show "s_PendingReviews t = s_PendingReviews s" by (rule field) (simp add: strip_def)
  show "s_IssueProfiles t = s_IssueProfiles s" by (rule field) (simp add: strip_def)
  show "s_IssueBackends t = s_IssueBackends s" by (rule field) (simp add: strip_def)
  show "s_InputRequiredIssues t = s_InputRequiredIssues s" by (rule field) (simp add: strip_def)
qed

lemma strip_admit: "strip (fst (admitBackendKey s k i now)) = strip s"
  by (simp add: admitBackendKey_def strip_def split: option.split backend_status.split)

lemma strip_admit_hosts: "strip (fst (admit_hosts ident now b hs s hold)) = strip s"
proof (induction hs arbitrary: s hold)
  case (Cons h hs)
  obtain s' ok where adm: "admitBackendKey s (BackendHealthKey b h) ident now = (s', ok)"
    by (cases "admitBackendKey s (BackendHealthKey b h) ident now")
  have "strip s' = strip s" using strip_admit [of s "BackendHealthKey b h" ident now] adm by simp
  with adm Cons.IH [of s'] show ?case by (cases ok) (simp_all add: Let_def)
qed simp

lemma strip_allow: "strip (fst (allowRateLimitSwitch cfg s k now)) = strip s"
  by (simp add: allowRateLimitSwitch_def Let_def strip_def)

definition reroute_strips :: "gate_request \<Rightarrow> bool" where
  "reroute_strips req \<longleftrightarrow> (\<forall>f t. gr_rerouteAllowed req = Some f \<longrightarrow> strip (fst (f t)) = strip t)"

lemma strip_try_chain:
  assumes "reroute_strips req"
  shows "strip (fst (try_chain cfg req now from bs allowed s hold)) = strip s"
proof (induction bs arbitrary: s hold allowed)
  case (Cons b bs)
  show ?case
  proof (cases "b = from \<or> fallbackTarget cfg req b = None")
    case True
    then show ?thesis using Cons.IH by auto
  next
    case False
    then obtain alt p where fb: "b \<noteq> from" "fallbackTarget cfg req b = Some (alt, p)" by auto
    obtain s1 ok where ask: "(case allowed of Some a \<Rightarrow> (s, a)
        | None \<Rightarrow> (case gr_rerouteAllowed req of None \<Rightarrow> (s, True) | Some f \<Rightarrow> f s)) = (s1, ok)"
      by fastforce
    have s1: "strip s1 = strip s"
    proof (cases "allowed = None \<and> gr_rerouteAllowed req \<noteq> None")
      case True
      then obtain f where "gr_rerouteAllowed req = Some f" "f s = (s1, ok)" using ask by auto
      then show ?thesis using assms by (metis fst_conv reroute_strips_def)
    next
      case False
      then show ?thesis using ask by (auto split: option.splits)
    qed
    obtain s2 hold2 h where hosts: "admit_hosts (gr_identifier req) now b (req_hosts req) s1 hold = (s2, hold2, h)"
      by (cases "admit_hosts (gr_identifier req) now b (req_hosts req) s1 hold") auto
    have s2: "strip s2 = strip s"
      using strip_admit_hosts [of "gr_identifier req" now b "req_hosts req" s1 hold] hosts s1 by simp
    have "try_chain cfg req now from (b # bs) allowed s hold =
        (if \<not> ok then (s1, hold, None)
         else case h of Some h' \<Rightarrow> (s2, hold2, Some (alt, p, h'))
              | None \<Rightarrow> try_chain cfg req now from bs (Some True) s2 hold2)"
      using fb ask hosts by (simp split: option.split)
    then show ?thesis using s1 s2 Cons.IH by (simp split: option.split)
  qed
qed simp

lemma strip_holds: "strip (clearBackendHold s i) = strip s" "strip (setBackendHold s i h) = strip s"
  by (simp_all add: strip_def clearBackendHold_def setBackendHold_def)

lemma strip_gate:
  assumes "reroute_strips req"
  shows "strip (fst (gateDispatch cfg s req now)) = strip s"
proof -
  let ?t = "resolveDispatchTarget (gr_in req)" and ?nohold = "\<lparr>hd_Key = [], hd_Until = 0\<rparr>"
  let ?fb = "ag_BackendFallback (cf_Agent cfg)"
  obtain s1 hold h where hosts: "admit_hosts (gr_identifier req) now (dt_Backend ?t) (req_hosts req) s ?nohold = (s1, hold, h)"
    by (cases "admit_hosts (gr_identifier req) now (dt_Backend ?t) (req_hosts req) s ?nohold") auto
  have s1: "strip s1 = strip s"
    using strip_admit_hosts [of "gr_identifier req" now "dt_Backend ?t" "req_hosts req" s ?nohold] hosts by simp
  obtain s2 hold2 found where chain: "(if gr_allowReroute req \<and> fb_Enabled ?fb
      then try_chain cfg req now (dt_Backend ?t) (fb_Chain ?fb) None s1 hold else (s1, hold, None)) = (s2, hold2, found)"
    by (metis prod_cases3)
  have s2: "strip s2 = strip s"
    using strip_try_chain [OF assms, of cfg now "dt_Backend ?t" "fb_Chain ?fb" None s1 hold] chain s1
    by (simp split: if_splits)
  show ?thesis
  proof (cases h)
    case (Some h')
    with hosts s1 show ?thesis by (simp add: gateDispatch_def Let_def strip_holds)
  next
    case None
    have "fst (gateDispatch cfg s req now) =
        (case found of Some _ \<Rightarrow> clearBackendHold s2 (gr_identifier req) | None \<Rightarrow> setBackendHold s2 (gr_identifier req) hold2)"
      using None hosts chain by (simp add: gateDispatch_def Let_def split: option.split prod.split)
    then show ?thesis using s2 by (simp add: strip_holds split: option.split)
  qed
qed

lemma worker_request_reroute:
  "gr_rerouteAllowed (worker_request cfg d issue host now) =
    (if isReviewerInjected (fst d) (is_Identifier issue) then None
     else Some (\<lambda>t. allowRateLimitSwitch cfg t (is_ID issue) now))"
  unfolding worker_request_def Let_def by (cases "usable_profile cfg (issueProfileForDispatch d (is_Identifier issue))") simp

lemma requests_strip:
  "reroute_strips (worker_request cfg d issue host now)"
  "reroute_strips (profile_request cfg d issue n p r host a)"
proof -
  show "reroute_strips (worker_request cfg d issue host now)"
    unfolding reroute_strips_def worker_request_reroute using strip_allow by simp
  show "reroute_strips (profile_request cfg d issue n p r host a)"
    unfolding reroute_strips_def profile_request_def by simp
qed

lemmas gate_keeps = strip_fields [OF strip_gate [OF requests_strip(1)]] strip_fields [OF strip_gate [OF requests_strip(2)]]

section \<open>The contract of an admission path\<close>

text \<open>
  What every path keeps: it starts workers only by appending to the log, the running set grows by
  exactly the started issues, the configured maximum and a drain request are untouched, and once a
  drain is requested or in progress nothing starts.
\<close>

definition admission_closed :: "daemon \<Rightarrow> bool" where
  "admission_closed d \<longleftrightarrow> s_Draining (snd d) \<or> o_drainRequested (fst d)"

definition admits :: "daemon \<Rightarrow> worker_start list \<Rightarrow> daemon \<Rightarrow> bool" where
  "admits d ws d' \<longleftrightarrow>
     o_started (fst d') = o_started (fst d) @ ws \<and>
     set (mkeys (s_Running (snd d'))) = set (mkeys (s_Running (snd d))) \<union> (\<lambda>w. is_ID (ws_Issue w)) ` set ws \<and>
     (mwf (s_Running (snd d)) \<longrightarrow> mwf (s_Running (snd d'))) \<and>
     s_MaxConcurrentAgents (snd d') = s_MaxConcurrentAgents (snd d) \<and>
     o_drainRequested (fst d') = o_drainRequested (fst d) \<and>
     (s_Draining (snd d) \<longrightarrow> s_Draining (snd d')) \<and>
     (admission_closed d \<longrightarrow> ws = [])"

lemma admits_refl [intro, simp]: "admits d [] d"
  by (simp add: admits_def)

lemma admitsD:
  assumes "admits d ws d'"
  shows "o_started (fst d') = o_started (fst d) @ ws"
    and "set (mkeys (s_Running (snd d'))) = set (mkeys (s_Running (snd d))) \<union> (\<lambda>w. is_ID (ws_Issue w)) ` set ws"
    and "mwf (s_Running (snd d)) \<Longrightarrow> mwf (s_Running (snd d'))"
    and "s_MaxConcurrentAgents (snd d') = s_MaxConcurrentAgents (snd d)"
    and "o_drainRequested (fst d') = o_drainRequested (fst d)"
    and "s_Draining (snd d) \<Longrightarrow> s_Draining (snd d')"
    and "admission_closed d \<Longrightarrow> ws = []"
  using assms unfolding admits_def by blast+

lemma admits_closed: "admits d ws d' \<Longrightarrow> admission_closed d \<Longrightarrow> admission_closed d'"
  using admitsD(5,6) [of d ws d'] unfolding admission_closed_def by blast

lemma admits_trans:
  assumes "admits d ws d'" and "admits d' vs d''"
  shows "admits d (ws @ vs) d''"
  unfolding admits_def
proof (intro conjI impI)
  note a = admitsD [OF assms(1)] and b = admitsD [OF assms(2)]
  show "o_started (fst d'') = o_started (fst d) @ ws @ vs" unfolding b(1) a(1) by simp
  show "set (mkeys (s_Running (snd d''))) = set (mkeys (s_Running (snd d))) \<union> (\<lambda>w. is_ID (ws_Issue w)) ` set (ws @ vs)"
    unfolding b(2) a(2) by (simp add: image_Un Un_assoc)
  show "mwf (s_Running (snd d''))" if "mwf (s_Running (snd d))" using that by (intro b(3) a(3))
  show "s_MaxConcurrentAgents (snd d'') = s_MaxConcurrentAgents (snd d)" unfolding b(4) a(4) ..
  show "o_drainRequested (fst d'') = o_drainRequested (fst d)" unfolding b(5) a(5) ..
  show "s_Draining (snd d'')" if "s_Draining (snd d)" using that by (intro b(6) a(6))
  show "ws @ vs = []" if "admission_closed d"
    using a(7) [OF that] b(7) [OF admits_closed [OF assms(1) that]] by simp
qed

lemma admits_nothing:
  assumes "s_Running (snd d') = s_Running (snd d)" and "o_started (fst d') = o_started (fst d)"
    and "s_MaxConcurrentAgents (snd d') = s_MaxConcurrentAgents (snd d)"
    and "o_drainRequested (fst d') = o_drainRequested (fst d)"
    and "s_Draining (snd d) \<Longrightarrow> s_Draining (snd d')"
  shows "admits d [] d'"
  using assms by (simp add: admits_def)

lemma admits_one:
  assumes "s_Running (snd d') = mput (s_Running (snd d)) (is_ID (ws_Issue w)) r"
    and "o_started (fst d') = o_started (fst d) @ [w]"
    and "s_MaxConcurrentAgents (snd d') = s_MaxConcurrentAgents (snd d)"
    and "o_drainRequested (fst d') = o_drainRequested (fst d)"
    and "s_Draining (snd d') = s_Draining (snd d)" and "\<not> admission_closed d"
  shows "admits d [w] d'"
  using assms by (auto simp: admits_def)

lemma sync_fields [simp]:
  "s_Draining (snd (syncDrainRequest d)) = admission_closed d"
  "s_Running (snd (syncDrainRequest d)) = s_Running (snd d)"
  "s_Claimed (snd (syncDrainRequest d)) = s_Claimed (snd d)"
  "s_MaxConcurrentAgents (snd (syncDrainRequest d)) = s_MaxConcurrentAgents (snd d)"
  "s_PendingReviews (snd (syncDrainRequest d)) = s_PendingReviews (snd d)"
  "o_started (fst (syncDrainRequest d)) = o_started (fst d)"
  "o_drainRequested (fst (syncDrainRequest d)) = o_drainRequested (fst d)"
  "o_DryRun (fst (syncDrainRequest d)) = o_DryRun (fst d)"
  by (auto simp: syncDrainRequest_def applyDrain_def admission_closed_def split: prod.split)

lemma sync_open: "\<not> admission_closed d \<Longrightarrow> syncDrainRequest d = d"
  by (simp add: syncDrainRequest_def admission_closed_def)

lemma admits_sync [simp]: "admits d [] (syncDrainRequest d)"
  by (rule admits_nothing) (simp_all add: admission_closed_def)

lemma select_host_orch [simp]:
  "o_started (fst (selectWorkerHost cfg d)) = o_started (fst d)"
  "o_drainRequested (fst (selectWorkerHost cfg d)) = o_drainRequested (fst d)"
  "o_DryRun (fst (selectWorkerHost cfg d)) = o_DryRun (fst d)"
  by (simp_all add: selectWorkerHost_def Let_def)

lemma fallback_switch_fields [simp]:
  "s_Running (recordFallbackSwitch f s issue g now) = s_Running s"
  "s_Claimed (recordFallbackSwitch f s issue g now) = s_Claimed s"
  "s_Draining (recordFallbackSwitch f s issue g now) = s_Draining s"
  "s_MaxConcurrentAgents (recordFallbackSwitch f s issue g now) = s_MaxConcurrentAgents s"
  "s_RetryAttempts (recordFallbackSwitch f s issue g now) = s_RetryAttempts s"
  by (simp_all add: recordFallbackSwitch_def recordRateLimitSwitch_def Let_def)

lemma note_reroute_fields [simp]:
  "s_Running (snd (note_reroute f d issue g now)) = s_Running (snd d)"
  "s_Claimed (snd (note_reroute f d issue g now)) = s_Claimed (snd d)"
  "s_Draining (snd (note_reroute f d issue g now)) = s_Draining (snd d)"
  "s_MaxConcurrentAgents (snd (note_reroute f d issue g now)) = s_MaxConcurrentAgents (snd d)"
  "s_RetryAttempts (snd (note_reroute f d issue g now)) = s_RetryAttempts (snd d)"
  "o_started (fst (note_reroute f d issue g now)) = o_started (fst d)"
  "o_drainRequested (fst (note_reroute f d issue g now)) = o_drainRequested (fst d)"
  "o_DryRun (fst (note_reroute f d issue g now)) = o_DryRun (fst d)"
  by (simp_all add: note_reroute_def)

lemma ScheduleRetry_keeps [simp]:
  "s_Draining (ScheduleRetry s k a i e now d) = s_Draining s"
  "s_MaxConcurrentAgents (ScheduleRetry s k a i e now d) = s_MaxConcurrentAgents s"
  by (simp_all add: ScheduleRetry_def Let_def)

text \<open>The outcomes of a worker dispatch.\<close>

lemma dispatch_cases:
  obtains (refused) "admission_closed d" "dispatch f cfg now d issue attempt = syncDrainRequest d"
  | (held) o2 s3 host g where "\<not> admission_closed d" "dispatch f cfg now d issue attempt = (o2, s3)" "gt_held g"
      "(o2, host) = selectWorkerHost cfg (fst d, take_force (snd d) (is_Identifier issue))"
      "(s3, g) = gateDispatch cfg (take_force (snd d) (is_Identifier issue))
        (worker_request cfg (o2, take_force (snd d) (is_Identifier issue)) issue host now) now"
  | (admitted) o2 s3 host g where "\<not> admission_closed d" "\<not> gt_held g"
      "dispatch f cfg now d issue attempt =
        (if o_DryRun (fst d) then (fst (note_reroute f (o2, s3) issue g now), claim_issue (snd (note_reroute f (o2, s3) issue g now)) (is_ID issue))
         else launch_worker (note_reroute f (o2, s3) issue g now) issue attempt g (mhas (s_ForceReanalyze (snd d)) (is_Identifier issue)) now)"
      "(o2, host) = selectWorkerHost cfg (fst d, take_force (snd d) (is_Identifier issue))"
      "(s3, g) = gateDispatch cfg (take_force (snd d) (is_Identifier issue))
        (worker_request cfg (o2, take_force (snd d) (is_Identifier issue)) issue host now) now"
proof (cases "admission_closed d")
  case True
  obtain o1 s1 where sync: "syncDrainRequest d = (o1, s1)" by (cases "syncDrainRequest d")
  then have "s_Draining s1" using sync_fields(1) [of d] True by simp
  then have "dispatch f cfg now d issue attempt = syncDrainRequest d"
    unfolding dispatch_def Let_def sync prod.case by simp
  with True show ?thesis by (rule refused)
next
  case False
  then have sync: "syncDrainRequest d = (fst d, snd d)" and nd: "\<not> s_Draining (snd d)"
    by (simp_all add: sync_open admission_closed_def)
  let ?s2 = "take_force (snd d) (is_Identifier issue)"
  obtain o2 host where host: "selectWorkerHost cfg (fst d, ?s2) = (o2, host)" by (cases "selectWorkerHost cfg (fst d, ?s2)")
  obtain s3 g where g: "gateDispatch cfg ?s2 (worker_request cfg (o2, ?s2) issue host now) now = (s3, g)"
    by (cases "gateDispatch cfg ?s2 (worker_request cfg (o2, ?s2) issue host now) now")
  have dry: "o_DryRun o2 = o_DryRun (fst d)" using select_host_orch(3) [of cfg "(fst d, ?s2)"] host by simp
  obtain o4 s4 where r: "note_reroute f (o2, s3) issue g now = (o4, s4)" by (cases "note_reroute f (o2, s3) issue g now")
  have dry4: "o_DryRun o4 = o_DryRun (fst d)" using note_reroute_fields(8) [of f "(o2, s3)" issue g now] r dry by simp
  have eq: "dispatch f cfg now d issue attempt = (if gt_held g then (o2, s3)
      else if o_DryRun (fst d) then (o4, claim_issue s4 (is_ID issue))
      else launch_worker (o4, s4) issue attempt g (mhas (s_ForceReanalyze (snd d)) (is_Identifier issue)) now)"
    unfolding dispatch_def Let_def sync prod.case using nd
    by (simp only: if_False host prod.case g r dry4 simp_thms)
  show ?thesis
  proof (cases "gt_held g")
    case True
    with False eq host g show ?thesis by (intro held [of o2 s3 g host]) simp_all
  next
    case not_held: False
    with False eq host g r show ?thesis by (intro admitted [of g o2 s3 host]) simp_all
  qed
qed

lemma take_force_fields [simp]:
  "s_Running (take_force s i) = s_Running s" "s_Claimed (take_force s i) = s_Claimed s"
  "s_Draining (take_force s i) = s_Draining s"
  "s_MaxConcurrentAgents (take_force s i) = s_MaxConcurrentAgents s"
  "s_RetryAttempts (take_force s i) = s_RetryAttempts s"
  by (simp_all add: take_force_def)

lemma launch_worker_fields [simp]:
  "s_Running (snd (launch_worker d issue attempt g skip now)) = mput (s_Running (snd d)) (is_ID issue)
    (new_run issue (gt_host g) (dt_Backend (gt_target g)) (gt_profileName g) [] [] [] attempt now)"
  "s_Claimed (snd (launch_worker d issue attempt g skip now)) = mput (s_Claimed (snd d)) (is_ID issue) ()"
  "s_Draining (snd (launch_worker d issue attempt g skip now)) = s_Draining (snd d)"
  "s_MaxConcurrentAgents (snd (launch_worker d issue attempt g skip now)) = s_MaxConcurrentAgents (snd d)"
  "s_RetryAttempts (snd (launch_worker d issue attempt g skip now)) = s_RetryAttempts (snd d)"
  "o_drainRequested (fst (launch_worker d issue attempt g skip now)) = o_drainRequested (fst d)"
  "o_started (fst (launch_worker d issue attempt g skip now)) = o_started (fst d) @
     [\<lparr>ws_Issue = issue, ws_Attempt = attempt, ws_Host = gt_host g, ws_Command = dt_RunnerCommand (gt_target g),
       ws_Backend = dt_Backend (gt_target g), ws_Profile = gt_profileName g, ws_SkipPRCheck = skip,
       ws_Resume = resume_session (snd d) (is_Identifier issue) (dt_RunnerCommand (gt_target g)), ws_Automation = None\<rparr>]"
  by (simp_all add: launch_worker_def Let_def claim_and_run_def claim_issue_def)

text \<open>The fields that matter for admission, through the choice of a host and the gate.\<close>

lemma prepared_fields:
  assumes "(o2, host) = selectWorkerHost cfg d" and "(s3, g) = gateDispatch cfg s req now" and "reroute_strips req"
  shows "o_started o2 = o_started (fst d)" "o_drainRequested o2 = o_drainRequested (fst d)"
    "o_DryRun o2 = o_DryRun (fst d)"
    "s_Running s3 = s_Running s" "s_Claimed s3 = s_Claimed s" "s_Draining s3 = s_Draining s"
    "s_MaxConcurrentAgents s3 = s_MaxConcurrentAgents s" "s_RetryAttempts s3 = s_RetryAttempts s"
proof -
  have o2: "o2 = fst (selectWorkerHost cfg d)" and s3: "strip s3 = strip s"
    using assms(1,2) strip_gate [OF assms(3), of cfg s now] by (metis fst_conv)+
  show "o_started o2 = o_started (fst d)" "o_drainRequested o2 = o_drainRequested (fst d)"
    "o_DryRun o2 = o_DryRun (fst d)" unfolding o2 by simp_all
  show "s_Running s3 = s_Running s" "s_Claimed s3 = s_Claimed s" "s_Draining s3 = s_Draining s"
    "s_MaxConcurrentAgents s3 = s_MaxConcurrentAgents s" "s_RetryAttempts s3 = s_RetryAttempts s"
    using strip_fields [OF s3] by simp_all
qed

lemma dispatch_admits:
  obtains ws where "admits d ws (dispatch f cfg now d issue attempt)"
    "ws = [] \<or> (\<exists>w. ws = [w] \<and> ws_Issue w = issue \<and> ws_Attempt w = attempt)"
proof (cases rule: dispatch_cases [of d f cfg now issue attempt])
  case refused
  then show ?thesis by (intro that [of "[]"]) simp_all
next
  case (held o2 s3 host g)
  note p = prepared_fields [OF held(4,5) requests_strip(1)]
  show ?thesis
    by (rule that [of "[]"], rule admits_nothing) (simp_all add: held(2) p)
next
  case (admitted o2 s3 host g)
  note p = prepared_fields [OF admitted(4,5) requests_strip(1)]
  let ?r = "note_reroute f (o2, s3) issue g now"
  show ?thesis
  proof (cases "o_DryRun (fst d)")
    case True
    then show ?thesis
      by (intro that [of "[]"] admits_nothing) (simp_all add: admitted(3) p claim_issue_def)
  next
    case False
    let ?w = "\<lparr>ws_Issue = issue, ws_Attempt = attempt, ws_Host = gt_host g, ws_Command = dt_RunnerCommand (gt_target g),
       ws_Backend = dt_Backend (gt_target g), ws_Profile = gt_profileName g,
       ws_SkipPRCheck = mhas (s_ForceReanalyze (snd d)) (is_Identifier issue),
       ws_Resume = resume_session (snd ?r) (is_Identifier issue) (dt_RunnerCommand (gt_target g)), ws_Automation = None\<rparr>"
    show ?thesis
    proof (rule that [of "[?w]"])
      show "admits d [?w] (dispatch f cfg now d issue attempt)"
        by (rule admits_one) (use False admitted(1) in \<open>simp_all add: admitted(3) p\<close>)
    qed simp
  qed
qed

text \<open>What an admission of one issue does to the running set, the claims and the retries.\<close>

definition one_issue :: "string \<Rightarrow> state \<Rightarrow> state \<Rightarrow> bool" where
  "one_issue k s s' \<longleftrightarrow> s_RetryAttempts s' = s_RetryAttempts s \<and>
     (s_Running s' = s_Running s \<and> (s_Claimed s' = s_Claimed s \<or> s_Claimed s' = mput (s_Claimed s) k ()) \<or>
      (\<exists>r. s_Running s' = mput (s_Running s) k r \<and> is_ID (ru_Issue r) = k) \<and> s_Claimed s' = mput (s_Claimed s) k ())"

lemma new_run_issue [simp]: "ru_Issue (new_run i h b p k a t n now) = i"
  by (simp add: new_run_def)

lemma dispatch_one_issue:
  "one_issue (is_ID issue) (snd d) (snd (dispatch f cfg now d issue attempt))"
proof (cases rule: dispatch_cases [of d f cfg now issue attempt])
  case refused
  have "s_RetryAttempts (snd (syncDrainRequest d)) = s_RetryAttempts (snd d)"
    by (simp add: syncDrainRequest_def applyDrain_def split: prod.split)
  with refused show ?thesis by (simp add: one_issue_def)
next
  case (held o2 s3 host g)
  note p = prepared_fields [OF held(4,5) requests_strip(1)]
  show ?thesis by (simp add: one_issue_def held(2) p)
next
  case (admitted o2 s3 host g)
  note p = prepared_fields [OF admitted(4,5) requests_strip(1)]
  show ?thesis
  proof (cases "o_DryRun (fst d)")
    case True
    then show ?thesis by (simp add: one_issue_def admitted(3) p claim_issue_def)
  next
    case False
    then show ?thesis unfolding one_issue_def admitted(3) by (simp add: p) (metis new_run_issue)
  qed
qed

lemma one_issue_claims:
  assumes "one_issue k s s'"
  shows "mhas (s_Claimed s) j \<Longrightarrow> mhas (s_Claimed s') j"
    and "mhas (s_Running s') j \<Longrightarrow> mhas (s_Running s) j \<or> j = k \<and> mhas (s_Claimed s') k"
    and "mhas (s_Running s) j \<Longrightarrow> mhas (s_Running s') j"
    and "mwf (s_Running s) \<Longrightarrow> mwf (s_Running s')"
  using assms unfolding one_issue_def by auto

section \<open>Reviewers\<close>

lemma pending_review_fields [simp]:
  "s_Running (recordPendingReview s i p now) = s_Running s"
  "s_Claimed (recordPendingReview s i p now) = s_Claimed s"
  "s_Draining (recordPendingReview s i p now) = s_Draining s"
  "s_MaxConcurrentAgents (recordPendingReview s i p now) = s_MaxConcurrentAgents s"
  "s_Running (clearPendingReview s k) = s_Running s"
  "s_Claimed (clearPendingReview s k) = s_Claimed s"
  "s_Draining (clearPendingReview s k) = s_Draining s"
  "s_MaxConcurrentAgents (clearPendingReview s k) = s_MaxConcurrentAgents s"
  by (simp_all add: recordPendingReview_def clearPendingReview_def)

lemma inject_fields [simp]:
  "o_started (inject_reviewer o' i p) = o_started o'"
  "o_drainRequested (inject_reviewer o' i p) = o_drainRequested o'"
  by (simp_all add: inject_reviewer_def)

lemma launch_reviewer_fields [simp]:
  "s_Running (snd (launch_reviewer d issue g now)) = mput (s_Running (snd d)) (is_ID issue)
    (new_run issue (gt_host g) (dt_Backend (gt_target g)) (gt_profileName g) ''reviewer'' [] [] 0 now)"
  "s_Claimed (snd (launch_reviewer d issue g now)) = mput (s_Claimed (snd d)) (is_ID issue) ()"
  "s_Draining (snd (launch_reviewer d issue g now)) = s_Draining (snd d)"
  "s_MaxConcurrentAgents (snd (launch_reviewer d issue g now)) = s_MaxConcurrentAgents (snd d)"
  "o_drainRequested (fst (launch_reviewer d issue g now)) = o_drainRequested (fst d)"
  "o_started (fst (launch_reviewer d issue g now)) = o_started (fst d) @
     [\<lparr>ws_Issue = issue, ws_Attempt = 0, ws_Host = gt_host g, ws_Command = dt_RunnerCommand (gt_target g),
       ws_Backend = dt_Backend (gt_target g), ws_Profile = gt_profileName g, ws_SkipPRCheck = False,
       ws_Resume = None, ws_Automation = None\<rparr>]"
  by (simp_all add: launch_reviewer_def Let_def claim_and_run_def claim_issue_def)

lemma reviewer_cases:
  obtains (refused) "admission_closed d" "dispatchReviewerForIssue f cfg now d issue p =
      (fst (syncDrainRequest d), recordPendingReview (snd (syncDrainRequest d)) issue p now)"
  | (skipped) "\<not> admission_closed d" "dispatchReviewerForIssue f cfg now d issue p = d"
  | (gated) profile o2 host s2 g where "\<not> admission_closed d"
      "(o2, host) = selectWorkerHost cfg d"
      "(s2, g) = gateDispatch cfg (snd d) (profile_request cfg (o2, snd d) issue p profile [] host True) now"
      "dispatchReviewerForIssue f cfg now d issue p =
        (if gt_held g then (inject_reviewer o2 (is_Identifier issue) p,
           ScheduleRetry s2 (is_ID issue) 0 (is_Identifier issue) (''backend limited: '' @ describeHold f (gt_hold g)) now
             (holdRetryDelay s2 (gt_hold g) now))
         else if o_DryRun o2 then (o2, s2) else launch_reviewer (o2, s2) issue g now)"
proof (cases "admission_closed d")
  case True
  obtain o1 s1 where sync: "syncDrainRequest d = (o1, s1)" by (cases "syncDrainRequest d")
  then have "s_Draining s1" using sync_fields(1) [of d] True by simp
  then have "dispatchReviewerForIssue f cfg now d issue p = (o1, recordPendingReview s1 issue p now)"
    unfolding dispatchReviewerForIssue_def Let_def sync prod.case by simp
  with True sync show ?thesis by (intro refused) simp_all
next
  case False
  then have sync: "syncDrainRequest d = (fst d, snd d)" and nd: "\<not> s_Draining (snd d)"
    by (simp_all add: sync_open admission_closed_def)
  show ?thesis
  proof (cases "mget (ag_Profiles (cf_Agent cfg)) p")
    case None
    have "dispatchReviewerForIssue f cfg now d issue p = (fst d, snd d)"
      unfolding dispatchReviewerForIssue_def Let_def sync prod.case None option.case using nd by simp
    with False show ?thesis by (intro skipped) simp_all
  next
    case (Some profile)
    show ?thesis
    proof (cases "ProfileEnabled profile")
      case disabled: False
      have "dispatchReviewerForIssue f cfg now d issue p = (fst d, snd d)"
        unfolding dispatchReviewerForIssue_def Let_def sync prod.case Some option.case using nd disabled by simp
      with False show ?thesis by (intro skipped) simp_all
    next
      case True
      obtain o2 host where host: "selectWorkerHost cfg (fst d, snd d) = (o2, host)"
        by (cases "selectWorkerHost cfg (fst d, snd d)")
      obtain s2 g where g: "gateDispatch cfg (snd d) (profile_request cfg (o2, snd d) issue p profile [] host True) now = (s2, g)"
        by (cases "gateDispatch cfg (snd d) (profile_request cfg (o2, snd d) issue p profile [] host True) now")
      show ?thesis
      proof (rule gated [OF False _ g [symmetric]])
        show "(o2, host) = selectWorkerHost cfg d" using host by simp
        show "dispatchReviewerForIssue f cfg now d issue p =
          (if gt_held g then (inject_reviewer o2 (is_Identifier issue) p,
             ScheduleRetry s2 (is_ID issue) 0 (is_Identifier issue) (''backend limited: '' @ describeHold f (gt_hold g)) now
               (holdRetryDelay s2 (gt_hold g) now))
           else if o_DryRun o2 then (o2, s2) else launch_reviewer (o2, s2) issue g now)"
          unfolding dispatchReviewerForIssue_def Let_def sync prod.case Some option.case
          using nd True by (simp only: host g prod.case if_False if_True simp_thms)
      qed
    qed
  qed
qed

lemma reviewer_admits:
  obtains ws where "admits d ws (dispatchReviewerForIssue f cfg now d issue p)"
    "ws = [] \<or> (\<exists>w. ws = [w] \<and> ws_Issue w = issue)"
proof (cases rule: reviewer_cases [of d f cfg now issue p])
  case refused
  show ?thesis by (rule that [of "[]"], rule admits_nothing) (simp_all add: refused)
next
  case skipped
  then show ?thesis by (intro that [of "[]"]) simp_all
next
  case (gated profile o2 host s2 g)
  note q = prepared_fields [OF gated(2,3) requests_strip(2)]
  show ?thesis
  proof (cases "gt_held g \<or> o_DryRun o2")
    case True
    then show ?thesis by (intro that [of "[]"] admits_nothing) (auto simp: gated(4) q)
  next
    case False
    let ?w = "\<lparr>ws_Issue = issue, ws_Attempt = 0, ws_Host = gt_host g, ws_Command = dt_RunnerCommand (gt_target g),
       ws_Backend = dt_Backend (gt_target g), ws_Profile = gt_profileName g, ws_SkipPRCheck = False,
       ws_Resume = None, ws_Automation = None\<rparr>"
    show ?thesis
    proof (rule that [of "[?w]"])
      show "admits d [?w] (dispatchReviewerForIssue f cfg now d issue p)"
        by (rule admits_one) (use False gated(1) in \<open>simp_all add: gated(4) q\<close>)
    qed simp
  qed
qed

section \<open>Automation runs under the contract\<close>

lemma launch_automation_running:
  obtains r where "s_Running (snd (launch_automation d issue a g now)) = mput (s_Running (snd d)) (is_ID issue) r"
  by (simp add: launch_automation_def Let_def claim_and_run_def claim_issue_def)

lemma launch_automation_fields [simp]:
  "s_Claimed (snd (launch_automation d issue a g now)) = mput (s_Claimed (snd d)) (is_ID issue) ()"
  "s_Draining (snd (launch_automation d issue a g now)) = s_Draining (snd d)"
  "s_MaxConcurrentAgents (snd (launch_automation d issue a g now)) = s_MaxConcurrentAgents (snd d)"
  "o_drainRequested (fst (launch_automation d issue a g now)) = o_drainRequested (fst d)"
  "o_started (fst (launch_automation d issue a g now)) = o_started (fst d) @
     [\<lparr>ws_Issue = issue, ws_Attempt = 0, ws_Host = gt_host g, ws_Command = dt_RunnerCommand (gt_target g),
       ws_Backend = dt_Backend (gt_target g), ws_Profile = gt_profileName g, ws_SkipPRCheck = False,
       ws_Resume = None, ws_Automation = Some a\<rparr>]"
  by (auto simp: launch_automation_def Let_def claim_and_run_def claim_issue_def)

abbreviation recovery_backend :: "automation_dispatch \<Rightarrow> string" where
  "recovery_backend a \<equiv> (if tr_Type (ad_Trigger a) = AutomationTriggerRateLimited \<and> ad_AutoResume a
     then tr_SwitchedToBackend (ad_Trigger a) else [])"

lemma start_cases:
  obtains (nothing) d' where "startAutomationRunOrHold cfg now d issue a = (d', NotStarted)"
      "d' = d \<or> d' = syncDrainRequest d"
  | (gated) profile o2 host s2 g where "\<not> admission_closed d" "0 < AvailableSlots (snd d)"
      "\<not> mhas (s_Running (snd d)) (is_ID issue)" "\<not> mhas (s_Claimed (snd d)) (is_ID issue)"
      "(o2, host) = selectWorkerHost cfg d"
      "(s2, g) = gateDispatch cfg (snd d) (profile_request cfg (o2, snd d) issue (ad_ProfileName a) profile
          (recovery_backend a) host (\<not> ad_UseIssueLifecycle a)) now"
      "startAutomationRunOrHold cfg now d issue a =
        (if gt_held g then ((o2, s2), Held)
         else if o_DryRun o2 then ((o2, claim_issue s2 (is_ID issue)), Started)
         else (launch_automation (o2, s2) issue a g now, Started))"
proof -
  obtain o1 s1 where sync: "syncDrainRequest d = (o1, s1)" by (cases "syncDrainRequest d")
  let ?early = "ad_ProfileName a = [] \<or> mhas (s_Running (snd d)) (is_ID issue) \<or> mhas (s_Claimed (snd d)) (is_ID issue)"
  show ?thesis
  proof (cases "?early \<or> AvailableSlots s1 \<le> 0 \<or>
      (\<forall>p. mget (ag_Profiles (cf_Agent cfg)) (ad_ProfileName a) = Some p \<longrightarrow> \<not> ProfileEnabled p)")
    case True
    have "startAutomationRunOrHold cfg now d issue a = (if ?early then d else (o1, s1), NotStarted)"
      using True unfolding startAutomationRunOrHold_def Let_def sync prod.case
      by (cases "mget (ag_Profiles (cf_Agent cfg)) (ad_ProfileName a)") auto
    then show ?thesis by (rule nothing) (use sync in auto)
  next
    case False
    then obtain profile where p: "mget (ag_Profiles (cf_Agent cfg)) (ad_ProfileName a) = Some profile" "ProfileEnabled profile"
      by blast
    from False have early: "ad_ProfileName a \<noteq> []" "\<not> mhas (s_Running (snd d)) (is_ID issue)"
      "\<not> mhas (s_Claimed (snd d)) (is_ID issue)" "\<not> AvailableSlots s1 \<le> 0" by simp_all
    have op: "\<not> admission_closed d"
      using early(4) sync_fields(1) [of d] sync by (auto simp: AvailableSlots_def)
    then have eq: "d = (o1, s1)" using sync by (simp add: sync_open)
    obtain o2 host where host: "selectWorkerHost cfg (o1, s1) = (o2, host)" by (cases "selectWorkerHost cfg (o1, s1)")
    obtain s2 g where g: "gateDispatch cfg s1 (profile_request cfg (o2, s1) issue (ad_ProfileName a) profile
        (recovery_backend a) host (\<not> ad_UseIssueLifecycle a)) now = (s2, g)"
      by (cases "gateDispatch cfg s1 (profile_request cfg (o2, s1) issue (ad_ProfileName a) profile
        (recovery_backend a) host (\<not> ad_UseIssueLifecycle a)) now")
    have "startAutomationRunOrHold cfg now d issue a =
        (if gt_held g then ((o2, s2), Held)
         else if o_DryRun o2 then ((o2, claim_issue s2 (is_ID issue)), Started)
         else (launch_automation (o2, s2) issue a g now, Started))"
      unfolding startAutomationRunOrHold_def Let_def sync prod.case p(1) option.case
      using early p(2) by (simp only: host g prod.case if_False if_True simp_thms)
    with op early host g show ?thesis by (intro gated [of o2 host s2 g profile]) (simp_all add: eq)
  qed
qed

lemma start_admits:
  obtains ws where "admits d ws (fst (startAutomationRunOrHold cfg now d issue a))"
    "ws = [] \<or> (\<exists>w. ws = [w] \<and> ws_Issue w = issue \<and> ws_Automation w = Some a
       \<and> 0 < AvailableSlots (snd d) \<and> \<not> mhas (s_Running (snd d)) (is_ID issue) \<and> \<not> mhas (s_Claimed (snd d)) (is_ID issue)
       \<and> snd (startAutomationRunOrHold cfg now d issue a) = Started)"
proof (cases rule: start_cases [of cfg now d issue a])
  case (nothing d')
  then show ?thesis by (intro that [of "[]"]) auto
next
  case (gated profile o2 host s2 g)
  note q = prepared_fields [OF gated(5,6) requests_strip(2)]
  show ?thesis
  proof (cases "gt_held g \<or> o_DryRun o2")
    case True
    then show ?thesis by (intro that [of "[]"] admits_nothing) (auto simp: gated(7) q claim_issue_def)
  next
    case False
    let ?w = "\<lparr>ws_Issue = issue, ws_Attempt = 0, ws_Host = gt_host g, ws_Command = dt_RunnerCommand (gt_target g),
       ws_Backend = dt_Backend (gt_target g), ws_Profile = gt_profileName g, ws_SkipPRCheck = False,
       ws_Resume = None, ws_Automation = Some a\<rparr>"
    obtain r where r: "s_Running (snd (launch_automation (o2, s2) issue a g now)) = mput (s_Running s2) (is_ID issue) r"
      using launch_automation_running [of "(o2, s2)" issue a g now] by auto
    show ?thesis
    proof (rule that [of "[?w]"])
      show "admits d [?w] (fst (startAutomationRunOrHold cfg now d issue a))"
        by (rule admits_one [where r = r]) (use False gated(1) r in \<open>simp_all add: gated(7) q\<close>)
    qed (use False gated in simp)
  qed
qed

section \<open>Slots\<close>

text \<open>The running set exceeds the configured maximum only if it did before.\<close>

definition slot_safe :: "daemon \<Rightarrow> daemon \<Rightarrow> bool" where
  "slot_safe d d' \<longleftrightarrow> (mwf (s_Running (snd d)) \<longrightarrow>
     int (length (s_Running (snd d'))) \<le> max (int (length (s_Running (snd d)))) (s_MaxConcurrentAgents (snd d)))"

definition slot_admits :: "daemon \<Rightarrow> daemon \<Rightarrow> bool" where
  "slot_admits d d' \<longleftrightarrow> (\<exists>ws. admits d ws d') \<and> slot_safe d d'"

lemma mwf_length: "mwf m \<Longrightarrow> length m = card (set (mkeys m))"
  using distinct_card [of "mkeys m"] by (simp add: mwf_def) (simp add: mkeys_def)

lemma admits_length:
  assumes "admits d ws d'" and "mwf (s_Running (snd d))"
  shows "length (s_Running (snd d')) \<le> length (s_Running (snd d)) + length ws"
proof -
  have "card (set (mkeys (s_Running (snd d')))) \<le> card (set (mkeys (s_Running (snd d)))) + card ((\<lambda>w. is_ID (ws_Issue w)) ` set ws)"
    unfolding admitsD(2) [OF assms(1)] by (rule card_Un_le)
  also have "card ((\<lambda>w. is_ID (ws_Issue w)) ` set ws) \<le> length ws"
    using card_image_le [of "set ws"] card_length [of ws] order_trans by blast
  finally show ?thesis using assms admitsD(3) [OF assms(1)] by (simp add: mwf_length)
qed

lemma slot_admits_one:
  assumes "admits d ws d'" and "ws = [] \<or> length ws \<le> 1 \<and> 0 < AvailableSlots (snd d)"
  shows "slot_admits d d'"
proof -
  have "int (length (s_Running (snd d'))) \<le> max (int (length (s_Running (snd d)))) (s_MaxConcurrentAgents (snd d))"
    if "mwf (s_Running (snd d))"
    using admits_length [OF assms(1) that] assms(2) by (auto simp: AvailableSlots_pos_iff)
  with assms(1) show ?thesis by (auto simp: slot_admits_def slot_safe_def)
qed

lemma slot_admits_refl [intro, simp]: "slot_admits d d"
  by (rule slot_admits_one [of d "[]"]) simp_all

lemma slot_admits_trans:
  assumes "slot_admits d d'" and "slot_admits d' d''"
  shows "slot_admits d d''"
proof -
  obtain ws vs where a: "admits d ws d'" and b: "admits d' vs d''" using assms by (auto simp: slot_admits_def)
  have "int (length (s_Running (snd d''))) \<le> max (int (length (s_Running (snd d)))) (s_MaxConcurrentAgents (snd d))"
    if wf: "mwf (s_Running (snd d))"
  proof -
    have "int (length (s_Running (snd d''))) \<le> max (int (length (s_Running (snd d')))) (s_MaxConcurrentAgents (snd d'))"
      using assms(2) admitsD(3) [OF a wf] by (simp add: slot_admits_def slot_safe_def)
    moreover have "int (length (s_Running (snd d'))) \<le> max (int (length (s_Running (snd d)))) (s_MaxConcurrentAgents (snd d))"
      using assms(1) wf by (simp add: slot_admits_def slot_safe_def)
    ultimately show ?thesis using admitsD(4) [OF a] by simp
  qed
  with admits_trans [OF a b] show ?thesis by (auto simp: slot_admits_def slot_safe_def)
qed

text \<open>A change of the state that touches no field of admission.\<close>

lemma slot_admits_quiet:
  assumes "s_Running s' = s_Running (snd d)" and "s_MaxConcurrentAgents s' = s_MaxConcurrentAgents (snd d)"
    and "s_Draining s' = s_Draining (snd d)"
  shows "slot_admits d (fst d, s')"
  using assms by (intro slot_admits_one [of d "[]"] admits_nothing) simp_all

lemma start_slot_admits: "slot_admits d (fst (startAutomationRunOrHold cfg now d issue a))"
  by (rule start_admits [of d cfg now issue a]) (auto intro: slot_admits_one)

section \<open>Relations that hold along every automation path\<close>

text \<open>
  The fields of the state that admission is about, and the operations that leave them alone.
\<close>

definition adm :: "state \<Rightarrow> (string, run_entry) gomap \<times> string goset \<times> (string, retry_entry) gomap \<times> int \<times> bool" where
  "adm s = (s_Running s, s_Claimed s, s_RetryAttempts s, s_MaxConcurrentAgents s, s_Draining s)"

lemma admD:
  assumes "adm t = adm s"
  shows "s_Running t = s_Running s" "s_Claimed t = s_Claimed s" "s_RetryAttempts t = s_RetryAttempts s"
    "s_MaxConcurrentAgents t = s_MaxConcurrentAgents s" "s_Draining t = s_Draining s" "AvailableSlots t = AvailableSlots s"
  using assms by (simp_all add: adm_def AvailableSlots_def)

lemma adm_refresh [simp]: "adm (refreshAutomationQueueBackpressure s) = adm s"
  by (simp add: adm_def refreshAutomationQueueBackpressure_def Let_def)

lemma adm_rejected [simp]: "adm (recordAutomationQueueRejected s dp i r now) = adm s"
  by (simp add: adm_def recordAutomationQueueRejected_def refreshAutomationQueueBackpressure_def Let_def)

lemma adm_queue_fields [simp]:
  "adm (s\<lparr>s_AutomationQueue := q\<rparr>) = adm s" "adm (s\<lparr>s_AutomationQueue := q, s_AutomationQueueOrder := l\<rparr>) = adm s"
  by (simp_all add: adm_def)

lemma adm_ensure [simp]: "adm (ensureAutomationQueueState s) = adm s"
  by (simp add: ensureAutomationQueueState_def)

lemma adm_enqueue [simp]: "adm (fst (enqueueAutomation s i dp r now)) = adm s"
  unfolding enqueueAutomation_def Let_def
  by (cases "automationQueueReasonFromString r") (simp add: split_beta split: option.split)

lemma adm_claim_dedup [simp]: "adm (fst (claimPROpenedDedup s issue a)) = adm s"
  by (simp add: adm_def claimPROpenedDedup_def Let_def)

lemma adm_clear_pause [simp]: "adm (clear_switched_pause s issue a) = adm s"
  by (simp add: adm_def clear_switched_pause_def clearPauseReason_def Let_def)

lemma adm_put_entry [simp]: "adm (put_entry s e) = adm s"
  by (simp add: adm_def put_entry_def)

lemma adm_remove [simp]: "adm (removeAutomationQueueEntry s k) = adm s"
  by (simp add: removeAutomationQueueEntry_def ensureAutomationQueueState_def Let_def)

lemma adm_resolve:
  assumes "resolveQueuedAutomationIssue tracker s e now cands poll budget = (s', b, r)"
  shows "adm s' = adm s"
proof -
  have "adm (fst (refreshQueuedAutomationIssue tracker s e now)) = adm s"
    by (simp add: refreshQueuedAutomationIssue_def split: option.split issue_fetch.split)
  then show ?thesis
    using assms by (auto simp: resolveQueuedAutomationIssue_def split: option.splits if_splits prod.splits)
qed

lemma adm_audit [simp]: "adm (fst (auditFetchedIssueDependencies c s issue now)) = adm s"
  by (simp add: adm_def auditFetchedIssueDependencies_def auditIssueDependencies_def recordObservedIssueState_def
      appendIssueStatusChange_def updateAutomationQueueIssueFromDependencyAudit_def Let_def)

text \<open>
  A relation between daemons that is a preorder, relates states that agree on these fields, and holds
  across the start of an automation run. It then holds across every path that starts automations.
\<close>

locale admission_relation =
  fixes rel :: "daemon \<Rightarrow> daemon \<Rightarrow> bool"
  assumes rel_refl: "rel d d"
    and rel_trans: "rel d d' \<Longrightarrow> rel d' d'' \<Longrightarrow> rel d d''"
    and rel_quiet: "adm s' = adm (snd d) \<Longrightarrow> rel d (fst d, s')"
    and rel_start: "rel d (fst (startAutomationRunOrHold cfg now d issue a))"
begin

lemma rel_queue: "rel d (fst (queue_automation d issue a reason now))"
  unfolding queue_automation_def
  by (cases "enqueueAutomation (snd d) issue a reason now")
    (use adm_enqueue [of "snd d" issue a reason now] in \<open>auto intro: rel_quiet\<close>)

lemma rel_dispatchOrQueue: "rel d (fst (dispatchOrQueueAutomation cfg now d issue a))"
proof -
  obtain s1 fresh where c: "claimPROpenedDedup (snd d) issue a = (s1, fresh)" by (cases "claimPROpenedDedup (snd d) issue a")
  let ?s2 = "clear_switched_pause s1 issue a"
  obtain d' r where st: "startAutomationRunOrHold cfg now (fst d, ?s2) issue a = (d', r)"
    by (cases "startAutomationRunOrHold cfg now (fst d, ?s2) issue a")
  have s1: "rel d (fst d, s1)" and s2: "rel d (fst d, ?s2)"
    using adm_claim_dedup [of "snd d" issue a] c by (intro rel_quiet; simp)+
  have d': "rel d d'"
    using rel_trans [OF s2 rel_start [of "(fst d, ?s2)" cfg now issue a]] st by simp
  have q: "rel d (fst (queue_automation (fst d, s1) issue a x now))" "rel d (fst (queue_automation (fst d, ?s2) issue a x now))"
    "rel d (fst (queue_automation d' issue a x now))" for x
    by (rule rel_trans [OF s1 rel_queue] rel_trans [OF s2 rel_queue] rel_trans [OF d' rel_queue])+
  show ?thesis
    unfolding dispatchOrQueueAutomation_def Let_def c prod.case st
    by (cases r) (simp_all add: s1 s2 d' q)
qed

lemma rel_settle: "rel d (fst (settle_entry cfg now d e issue))"
proof -
  let ?e = "e\<lparr>aq_Status := AutomationQueueDispatching, aq_LastAttemptAt := now, aq_AttemptCount := aq_AttemptCount e + 1\<rparr>"
  let ?d = "(fst d, put_entry (snd d) ?e)"
  obtain d' r where st: "startAutomationRunOrHold cfg now ?d issue (automationDispatchFromQueueEntry ?e) = (d', r)"
    by (cases "startAutomationRunOrHold cfg now ?d issue (automationDispatchFromQueueEntry ?e)")
  have "rel d ?d" by (rule rel_quiet) simp
  from rel_trans [OF this rel_start [of ?d cfg now issue "automationDispatchFromQueueEntry ?e"]] st
  have d': "rel d d'" by simp
  have "rel d (fst d', s')" if "s' \<in> {removeAutomationQueueEntry (snd d') (aq_ID ?e), snd d'} \<union> range (put_entry (snd d'))" for s'
    using that by (intro rel_trans [OF d' rel_quiet]) auto
  then show ?thesis
    unfolding settle_entry_def Let_def st prod.case
    by (cases r) (auto split: option.split)
qed

lemma rel_drain_entry: "rel d (fst (drain_entry tracker cfg now cands d budget e))"
proof -
  let ?poll = "wrap64 (s_PollIntervalMs (snd d) * millisecond)"
  obtain s1 b r where res: "resolveQueuedAutomationIssue tracker (snd d) e now cands ?poll budget = (s1, b, r)"
    by (cases "resolveQueuedAutomationIssue tracker (snd d) e now cands ?poll budget") auto
  note q = adm_resolve [OF res]
  show ?thesis
  proof (cases r)
    case None
    then show ?thesis
      unfolding drain_entry_def res prod.case by (simp add: q rel_quiet)
  next
    case (Some x)
    obtain issue refreshed where x: "x = (issue, refreshed)" by (cases x)
    define s2 where "s2 = (if refreshed then fst (auditFetchedIssueDependencies now s1 issue now) else s1)"
    define e2 where "e2 = (case mget (s_AutomationQueue s2) (aq_ID e) of Some e' \<Rightarrow> e' | None \<Rightarrow> e)"
    have f: "adm s2 = adm (snd d)" by (simp add: s2_def q)
    have s2: "rel d (fst d, s2)" by (rule rel_quiet) (simp add: f)
    have quiet: "rel d (fst d, s')"
      if "s' \<in> {removeAutomationQueueEntry s2 (aq_ID e), removeAutomationQueueEntry (snd d) (aq_ID e)} \<union> range (put_entry s2)" for s'
      using that by (intro rel_quiet) (auto simp: f)
    have settle: "rel d (fst (settle_entry cfg now (fst d, s2) e2 issue))"
      by (rule rel_trans [OF s2 rel_settle])
    show ?thesis
      unfolding drain_entry_def res prod.case Some x option.case Let_def s2_def [symmetric] e2_def [symmetric]
      using settle quiet
      by (cases "settle_entry cfg now (fst d, s2) e2 issue"; cases "updateAutomationQueueEntryReason e2 (IneligibleReasonForAutomation issue s2 cfg) now") simp_all
  qed
qed

lemma rel_drain_loop: "rel d (drain_loop tracker cfg now cands d budget ks)"
proof (induction ks arbitrary: d budget)
  case (Cons k ks)
  show ?case
  proof (cases "mget (s_AutomationQueue (snd d)) k")
    case None
    then show ?thesis using Cons.IH rel_refl by simp
  next
    case (Some e)
    obtain d' b' stop where e: "drain_entry tracker cfg now cands d budget e = (d', b', stop)"
      by (cases "drain_entry tracker cfg now cands d budget e") auto
    have d': "rel d d'" using rel_drain_entry [of d tracker cfg now cands budget e] e by simp
    show ?thesis using Some e d' rel_trans [OF d' Cons.IH] rel_refl by simp
  qed
qed (simp add: rel_refl)

lemma rel_drain: "rel d (drainAutomationQueueWithCandidates tracker cfg now cands d)"
  unfolding drainAutomationQueueWithCandidates_def Let_def
  by (rule rel_trans [OF rel_quiet rel_drain_loop]) simp

end

interpretation slots: admission_relation slot_admits
  by unfold_locales (auto intro: slot_admits_trans start_slot_admits slot_admits_quiet dest: admD)

lemmas dispatchOrQueue_slot_admits = slots.rel_dispatchOrQueue
  and drain_slot_admits = slots.rel_drain

section \<open>The loops under the contract\<close>

lemma reviewer_slot_admits:
  "0 < AvailableSlots (snd d) \<Longrightarrow> slot_admits d (dispatchReviewerForIssue f cfg now d issue p)"
  by (rule reviewer_admits [of d f cfg now issue p]) (auto intro: slot_admits_one)

lemma reset_quiet [simp]:
  "s_Running (ResetReviewChain s i) = s_Running s" "s_MaxConcurrentAgents (ResetReviewChain s i) = s_MaxConcurrentAgents s"
  "s_Draining (ResetReviewChain s i) = s_Draining s"
  by (simp_all add: ResetReviewChain_def)

lemma resume_review_slot_admits:
  assumes "0 < AvailableSlots (snd d)"
  shows "slot_admits d (resume_review f tk cfg now d k pr)"
proof (cases "tk_FetchIssueDetail tk (pv_IssueID pr)")
  case (Fetched issue)
  obtain d1 p where rp: "review_profile cfg d k pr = (d1, p)" by (cases "review_profile cfg d k pr")
  have d1: "slot_admits d d1" "0 < AvailableSlots (snd d1)"
    using rp assms
    by (auto simp: review_profile_def Let_def AvailableSlots_pos_iff split: if_splits intro: slot_admits_quiet)
  have d2: "slot_admits d (dispatchReviewerForIssue f cfg now d1 issue p)"
    by (rule slot_admits_trans [OF d1(1) reviewer_slot_admits [OF d1(2)]])
  have "slot_admits d (fst (dispatchReviewerForIssue f cfg now d1 issue p),
      clearPendingReview (snd (dispatchReviewerForIssue f cfg now d1 issue p)) k)"
    by (rule slot_admits_trans [OF d2 slot_admits_quiet]) simp_all
  with d2 Fetched rp show ?thesis
    by (simp add: resume_review_def Let_def slot_admits_quiet)
qed (simp_all add: resume_review_def slot_admits_quiet)

lemma resume_loop_slot_admits: "slot_admits d (resume_loop f tk cfg now d ks)"
proof (induction ks arbitrary: d)
  case (Cons k ks)
  then show ?case
    using slot_admits_trans [OF resume_review_slot_admits Cons.IH]
    by (auto simp: Let_def not_le)
qed simp

lemma sync_slot_admits: "slot_admits d (syncDrainRequest d)"
  by (rule slot_admits_one [of d "[]"]) simp_all

lemma resume_slot_admits: "slot_admits d (resumePendingReviews f tk cfg now d)"
  unfolding resumePendingReviews_def Let_def
  using slot_admits_trans [OF sync_slot_admits resume_loop_slot_admits] by simp

section \<open>The contract as an interface\<close>

text \<open>
  A path of the event loop that may start workers, and one that takes a free slot for each. The
  consequences are proved once and every path of the code is an interpretation.
\<close>

locale admission_path =
  fixes path :: "daemon \<Rightarrow> daemon"
  assumes path_admits: "\<exists>ws. admits d ws (path d)"
begin

lemma closed_starts_nothing:
  assumes "admission_closed d"
  shows "o_started (fst (path d)) = o_started (fst d)
    \<and> set (mkeys (s_Running (snd (path d)))) = set (mkeys (s_Running (snd d))) \<and> admission_closed (path d)"
proof -
  obtain ws where ws: "admits d ws (path d)" using path_admits by blast
  with admitsD(7) [OF ws assms] have "admits d [] (path d)" by simp
  then show ?thesis using admitsD(1,2) [of d "[]" "path d"] admits_closed [OF ws assms] by simp
qed

lemma every_new_run_was_started:
  "k \<in> set (mkeys (s_Running (snd (path d)))) \<Longrightarrow> k \<in> set (mkeys (s_Running (snd d))) \<or>
    (\<exists>w \<in> set (drop (length (o_started (fst d))) (o_started (fst (path d)))). is_ID (ws_Issue w) = k)"
proof -
  obtain ws where ws: "admits d ws (path d)" using path_admits by blast
  then show "k \<in> set (mkeys (s_Running (snd (path d)))) \<Longrightarrow> ?thesis"
    using admitsD(1,2) [OF ws] by auto
qed

end

locale slot_gated_path = admission_path +
  assumes path_slots: "slot_safe d (path d)"
begin

lemma never_over_capacity:
  assumes "mwf (s_Running (snd d))" and "int (length (s_Running (snd d))) \<le> s_MaxConcurrentAgents (snd d)"
  shows "int (length (s_Running (snd (path d)))) \<le> s_MaxConcurrentAgents (snd (path d))"
proof -
  obtain ws where ws: "admits d ws (path d)" using path_admits by blast
  show ?thesis using path_slots [of d] assms admitsD(4) [OF ws] by (simp add: slot_safe_def)
qed

end

interpretation worker_path: admission_path "\<lambda>d. dispatch f cfg now d issue attempt" for f cfg now issue attempt
proof
  show "\<exists>ws. admits d ws (dispatch f cfg now d issue attempt)" for d
    by (rule dispatch_admits [of d f cfg now issue attempt]) blast
qed

interpretation reviewer_path: admission_path "\<lambda>d. dispatchReviewerForIssue f cfg now d issue p" for f cfg now issue p
proof
  show "\<exists>ws. admits d ws (dispatchReviewerForIssue f cfg now d issue p)" for d
    by (rule reviewer_admits [of d f cfg now issue p]) blast
qed

interpretation automation_path: slot_gated_path "\<lambda>d. fst (dispatchOrQueueAutomation cfg now d issue a)" for cfg now issue a
  using dispatchOrQueue_slot_admits by unfold_locales (simp_all add: slot_admits_def)

interpretation queue_path: slot_gated_path "drainAutomationQueueWithCandidates tracker cfg now cands" for tracker cfg now cands
  using drain_slot_admits by unfold_locales (simp_all add: slot_admits_def)

interpretation pending_review_path: slot_gated_path "resumePendingReviews f tk cfg now" for f tk cfg now
  using resume_slot_admits by unfold_locales (simp_all add: slot_admits_def)

section \<open>Properties\<close>

lemma reroute_holds [simp]:
  "s_BackendLimitedHolds (snd (note_reroute f d issue g now)) = s_BackendLimitedHolds (snd d)"
  "s_BackendHealth (snd (note_reroute f d issue g now)) = s_BackendHealth (snd d)"
  by (simp_all add: note_reroute_def recordFallbackSwitch_def recordRateLimitSwitch_def Let_def)

lemma worker_request_cap: "cap_only (worker_request cfg d issue host now)"
  unfolding cap_only_def worker_request_reroute by (auto simp: allowRateLimitSwitch_def Let_def)

lemma worker_request_ident [simp]: "gr_identifier (worker_request cfg d issue host now) = is_Identifier issue"
  unfolding worker_request_def Let_def by (cases "usable_profile cfg (issueProfileForDispatch d (is_Identifier issue))") simp

lemma gate_admitted:
  assumes "cap_only req" "(s', g) = gateDispatch cfg s req now" "\<not> gt_held g"
  shows "spec_admits (breaker_of s (BackendHealthKey (dt_Backend (gt_target g)) (gt_host g))) (gr_identifier req) now
    \<and> mget (s_BackendLimitedHolds s') (gr_identifier req) = None"
proof (rule gate_cases [OF assms(1) assms(2) [symmetric]], goal_cases)
  case (1 s1)
  then show ?case by (simp add: refuses_def)
next
  case (2 s1)
  then show ?case by (simp add: refuses_def)
next
  case (3 s1)
  with assms(3) show ?case by simp
qed

lemma gate_held:
  assumes "cap_only req" "(s', g) = gateDispatch cfg s req now" "gt_held g"
  shows "backendHoldActive s' (gr_identifier req) \<and> s_BackendHealth s' = s_BackendHealth s"
proof (rule gate_cases [OF assms(1) assms(2) [symmetric]], goal_cases)
  case (3 s1)
  have "backendHoldActive s' (gr_identifier req)"
    by (rule hold_active_if_refused [OF 3(5)]) (simp_all add: 3(3,4))
  then show ?case by (simp add: 3(3,4))
qed (use assms(3) in simp_all)

lemma dispatch_outcome:
  assumes "\<not> admission_closed d" and "\<not> o_DryRun (fst d)" and "d' = dispatch f cfg now d issue attempt"
  shows "(\<exists>w r. o_started (fst d') = o_started (fst d) @ [w] \<and> ws_Issue w = issue \<and> ws_Attempt w = attempt
      \<and> mget (s_Running (snd d')) (is_ID issue) = Some r \<and> ru_Issue r = issue
      \<and> ru_Backend r = ws_Backend w \<and> ru_WorkerHost r = ws_Host w \<and> ru_RetryAttempt r = Some attempt
      \<and> mhas (s_Claimed (snd d')) (is_ID issue)
      \<and> spec_admits (breaker_of (snd d) (BackendHealthKey (ws_Backend w) (ws_Host w))) (is_Identifier issue) now
      \<and> mget (s_BackendLimitedHolds (snd d')) (is_Identifier issue) = None)
    \<or> (o_started (fst d') = o_started (fst d) \<and> s_Running (snd d') = s_Running (snd d)
      \<and> s_Claimed (snd d') = s_Claimed (snd d) \<and> backendHoldActive (snd d') (is_Identifier issue))"
proof (cases rule: dispatch_cases [of d f cfg now issue attempt])
  case refused
  with assms show ?thesis by simp
next
  case (held o2 s3 host g)
  note p = prepared_fields [OF held(4,5) requests_strip(1)]
  show ?thesis
    using gate_held [OF worker_request_cap held(5,3)] by (simp add: assms(3) held(2) p)
next
  case (admitted o2 s3 host g)
  note p = prepared_fields [OF admitted(4,5) requests_strip(1)]
  have "breaker_of (take_force (snd d) (is_Identifier issue)) = breaker_of (snd d)"
    by (intro ext breaker_of_cong) (simp add: take_force_def)
  then have adm: "spec_admits (breaker_of (snd d) (BackendHealthKey (dt_Backend (gt_target g)) (gt_host g))) (is_Identifier issue) now"
    "mget (s_BackendLimitedHolds s3) (is_Identifier issue) = None"
    using gate_admitted [OF worker_request_cap admitted(5,2)] by simp_all
  show ?thesis
    using adm assms(2) by (simp add: assms(3) admitted(3) p new_run_def) (simp add: launch_worker_def Let_def claim_and_run_def claim_issue_def)
qed

text \<open>
  C4. An open, live dispatch either starts exactly one worker or holds the issue. A started worker
  runs the given issue at the given attempt on a host and backend whose breaker admitted it, its run
  entry names that host and backend, the issue is claimed and has no hold. A held dispatch starts
  nothing, leaves the running set and the claims alone and records a hold that is in force.
\<close>

theorem dispatch_starts_or_holds:
  assumes "\<not> admission_closed d" and "\<not> o_DryRun (fst d)" and "d' = dispatch f cfg now d issue attempt"
  shows "(\<exists>w r. o_started (fst d') = o_started (fst d) @ [w] \<and> ws_Issue w = issue \<and> ws_Attempt w = attempt
      \<and> mget (s_Running (snd d')) (is_ID issue) = Some r \<and> ru_Issue r = issue
      \<and> ru_Backend r = ws_Backend w \<and> ru_WorkerHost r = ws_Host w \<and> ru_RetryAttempt r = Some attempt
      \<and> mhas (s_Claimed (snd d')) (is_ID issue)
      \<and> spec_admits (breaker_of (snd d) (BackendHealthKey (ws_Backend w) (ws_Host w))) (is_Identifier issue) now
      \<and> mget (s_BackendLimitedHolds (snd d')) (is_Identifier issue) = None)
    \<or> (o_started (fst d') = o_started (fst d) \<and> s_Running (snd d') = s_Running (snd d)
      \<and> s_Claimed (snd d') = s_Claimed (snd d) \<and> backendHoldActive (snd d') (is_Identifier issue))"
  using assms by (rule dispatch_outcome)

definition ex_orch :: orch where
  "ex_orch = \<lparr>o_sshHostIdx = 0, o_issueProfiles = [], o_issueBackends = [], o_reviewerInjectedProfiles = [],
     o_drainRequested = False, o_draining = False, o_drained = False, o_DryRun = False, o_started = []\<rparr>"

theorem dispatch_starts_or_holds_witness:
  "\<exists>w. o_started (fst (dispatch (\<lambda>t. []) ex_config 5 (ex_orch, ex_state) (ex_issue ''A-1'') 0)) = [w]
     \<and> ws_Issue w = ex_issue ''A-1''"
proof -
  have "o_started (fst (dispatch (\<lambda>t. []) ex_config 5 (ex_orch, ex_state) (ex_issue ''A-1'') 0)) \<noteq> []"
    by code_simp
  then show ?thesis
    using dispatch_starts_or_holds [of "(ex_orch, ex_state)" _ "\<lambda>t. []" ex_config 5 "ex_issue ''A-1''" 0, OF _ _ refl]
    by (simp add: admission_closed_def ex_orch_def ex_state_def NewState_def) blast
qed

section \<open>Hosts\<close>

lemma least_loop_spec:
  "least_loop load hs (load h) h \<in> insert h (set hs) \<and>
   (\<forall>h' \<in> insert h (set hs). load (least_loop load hs (load h) h) \<le> load h')"
proof (induction hs arbitrary: h)
  case (Cons a hs)
  show ?case
  proof (cases "load a < load h")
    case True
    then show ?thesis using Cons.IH [of a] by fastforce
  next
    case False
    then show ?thesis using Cons.IH [of h] by fastforce
  qed
qed simp

lemma least_loaded:
  assumes "hosts \<noteq> []" and "int (length running) < int64_max"
  shows "selectLeastLoadedHost hosts running \<in> set hosts \<and>
    (\<forall>h \<in> set hosts. host_load running (selectLeastLoadedHost hosts running) \<le> host_load running h)"
proof (cases hosts)
  case (Cons h hs)
  have "host_load running h < int64_max"
    using assms(2) length_filter_le [of "\<lambda>(k, e). ru_WorkerHost e = h" running] unfolding host_load_def by linarith
  then show ?thesis using least_loop_spec [of "host_load running" hs h] by (simp add: Cons selectLeastLoadedHost_def)
qed (use assms in simp)

fun pick_hosts :: "config \<Rightarrow> daemon \<Rightarrow> nat \<Rightarrow> string list" where
  "pick_hosts cfg d 0 = []"
| "pick_hosts cfg d (Suc n) = snd (selectWorkerHost cfg d) # pick_hosts cfg (fst (selectWorkerHost cfg d), snd d) n"

lemma pick_round_robin:
  assumes "ag_SSHHosts (cf_Agent cfg) \<noteq> []" and "ag_DispatchStrategy (cf_Agent cfg) \<noteq> ''least-loaded''"
    and "0 \<le> o_sshHostIdx (fst d)"
  shows "pick_hosts cfg d n = map (\<lambda>i. ag_SSHHosts (cf_Agent cfg) !
    ((nat (o_sshHostIdx (fst d)) + i) mod length (ag_SSHHosts (cf_Agent cfg)))) [0..<n]"
  using assms(3)
proof (induction n arbitrary: d)
  case (Suc n)
  let ?hosts = "ag_SSHHosts (cf_Agent cfg)" and ?i = "o_sshHostIdx (fst d)"
  have sel: "selectWorkerHost cfg d = ((fst d)\<lparr>o_sshHostIdx := ?i + 1\<rparr>, ?hosts ! nat (?i mod int (length ?hosts)))"
    using assms(1,2) by (simp add: selectWorkerHost_def Let_def)
  have mod: "nat (?i mod int (length ?hosts)) = nat ?i mod length ?hosts"
    using Suc.prems by (simp add: nat_mod_distrib)
  have upt: "[0..<Suc n] = 0 # map Suc [0..<n]"
    unfolding map_Suc_upt by (simp only: upt_conv_Cons zero_less_Suc)
  have "nat (?i + 1) = Suc (nat ?i)" using Suc.prems by simp
  then show ?case
    unfolding upt using Suc.IH [of "((fst d)\<lparr>o_sshHostIdx := ?i + 1\<rparr>, snd d)"] Suc.prems
    by (simp add: sel mod)
qed simp

text \<open>
  SSH hosts are shared fairly. In the default strategy any run of as many dispatches as there are
  hosts uses every host exactly once, as a rotation of the configured list; in the least-loaded
  strategy the host chosen is a configured one that runs no more workers than any other.
\<close>

theorem hosts_shared_fairly:
  assumes "ag_SSHHosts (cf_Agent cfg) \<noteq> []" and "0 \<le> o_sshHostIdx (fst d)"
    and "int (length (s_Running (snd d))) < int64_max"
  shows "(ag_DispatchStrategy (cf_Agent cfg) \<noteq> ''least-loaded'' \<longrightarrow>
      pick_hosts cfg d (length (ag_SSHHosts (cf_Agent cfg))) =
        rotate (nat (o_sshHostIdx (fst d))) (ag_SSHHosts (cf_Agent cfg)))
    \<and> (ag_DispatchStrategy (cf_Agent cfg) = ''least-loaded'' \<longrightarrow>
      snd (selectWorkerHost cfg d) \<in> set (ag_SSHHosts (cf_Agent cfg)) \<and>
      (\<forall>h \<in> set (ag_SSHHosts (cf_Agent cfg)).
        host_load (s_Running (snd d)) (snd (selectWorkerHost cfg d)) \<le> host_load (s_Running (snd d)) h))"
proof -
  have "pick_hosts cfg d (length (ag_SSHHosts (cf_Agent cfg))) =
      rotate (nat (o_sshHostIdx (fst d))) (ag_SSHHosts (cf_Agent cfg))"
    if "ag_DispatchStrategy (cf_Agent cfg) \<noteq> ''least-loaded''"
    unfolding pick_round_robin [OF assms(1) that assms(2)]
    by (rule nth_equalityI) (simp_all add: nth_rotate add.commute)
  then show ?thesis
    using least_loaded [OF assms(1,3)] assms(1) by (simp add: selectWorkerHost_def Let_def)
qed

definition ex_ssh_config :: config where
  "ex_ssh_config = ex_config\<lparr>cf_Agent := (cf_Agent ex_config)\<lparr>ag_SSHHosts := [''a'', ''b'']\<rparr>\<rparr>"

theorem hosts_shared_fairly_witness:
  "pick_hosts ex_ssh_config (ex_orch\<lparr>o_sshHostIdx := 3\<rparr>, ex_state) 2 = [''b'', ''a'']"
  using hosts_shared_fairly [of ex_ssh_config "(ex_orch\<lparr>o_sshHostIdx := 3\<rparr>, ex_state)"]
  by (simp add: ex_ssh_config_def ex_config_def ex_state_def NewState_def int64_max_def rotate_def numeral_eq_Suc)

end
