(* ===== verification/Automations.thy ===== *)
theory Automations
  imports Admission
begin

text \<open>
  Automation rules on the event loop (\<open>internal/orchestrator/automation.go\<close>): the filter matcher and
  the dispatchers for \<open>input_required\<close>, \<open>run_failed\<close> and \<open>blockers_resolved\<close>. A compiled regular
  expression is the predicate it matches.
\<close>

section \<open>Rules\<close>

record input_required_automation =
  ira_ID :: string
  ira_ProfileName :: string
  ira_Instructions :: string
  ira_MatchMode :: string
  ira_States :: "string list"
  ira_LabelsAny :: "string list"
  ira_IdentifierRegex :: "(string \<Rightarrow> bool) option"
  ira_InputContextRegex :: "(string \<Rightarrow> bool) option"
  ira_AutoResume :: bool
  ira_MaxAge :: duration

record run_failed_automation =
  rfa_ID :: string
  rfa_ProfileName :: string
  rfa_Instructions :: string
  rfa_MatchMode :: string
  rfa_States :: "string list"
  rfa_LabelsAny :: "string list"
  rfa_IdentifierRegex :: "(string \<Rightarrow> bool) option"

record blockers_resolved_automation =
  bra_ID :: string
  bra_ProfileName :: string
  bra_Instructions :: string
  bra_MatchMode :: string
  bra_States :: "string list"
  bra_LabelsAny :: "string list"
  bra_IdentifierRegex :: "(string \<Rightarrow> bool) option"
  bra_MoveToState :: string

record automation_rules =
  ar_inputRequired :: "input_required_automation list"
  ar_runFailed :: "run_failed_automation list"
  ar_blockersResolved :: "blockers_resolved_automation list"

section \<open>The filter\<close>

definition AutomationFilterMatchAny :: string where
  "AutomationFilterMatchAny = ''any''"

definition filter_checks ::
  "issue \<Rightarrow> string list \<Rightarrow> string list \<Rightarrow> (string \<Rightarrow> bool) option \<Rightarrow> (string \<Rightarrow> bool) option \<Rightarrow> string \<Rightarrow> bool list" where
  "filter_checks issue states labelsAny identifierRegex inputContextRegex inputContext =
     (case identifierRegex of None \<Rightarrow> [] | Some p \<Rightarrow> [p (is_Identifier issue)]) @
     (if states = [] then [] else [list_ex (\<lambda>st. equal_fold st (is_State issue)) states]) @
     (if labelsAny = [] then []
      else [list_ex (\<lambda>wanted. list_ex (\<lambda>l. equal_fold l wanted) (is_Labels issue)) labelsAny]) @
     (case inputContextRegex of None \<Rightarrow> [] | Some p \<Rightarrow> [p inputContext])"

definition MatchesAutomationFilter ::
  "issue \<Rightarrow> string \<Rightarrow> string list \<Rightarrow> string list \<Rightarrow> (string \<Rightarrow> bool) option \<Rightarrow> (string \<Rightarrow> bool) option \<Rightarrow> string \<Rightarrow> bool" where
  "MatchesAutomationFilter issue matchMode states labelsAny identifierRegex inputContextRegex inputContext =
     (let checks = filter_checks issue states labelsAny identifierRegex inputContextRegex inputContext
      in if checks = [] then True
         else if matchMode = AutomationFilterMatchAny then list_ex (\<lambda>c. c) checks
         else list_all (\<lambda>c. c) checks)"

section \<open>Dispatchers\<close>

definition empty_trigger :: "string \<Rightarrow> time \<Rightarrow> string \<Rightarrow> automation_trigger_context" where
  "empty_trigger ty firedAt autoID =
     \<lparr>tr_Type = ty, tr_FiredAt = firedAt, tr_AutomationID = autoID, tr_CurrentState = [],
      tr_Cron = [], tr_Timezone = [], tr_TriggerState = [], tr_PreviousState = [], tr_InputContext = [],
      tr_BlockedProfile = [], tr_BlockedBackend = [], tr_CommentID = [], tr_CommentBody = [],
      tr_CommentAuthorID = [], tr_CommentAuthorName = [], tr_CommentCreatedAt = [], tr_ErrorMessage = [],
      tr_WillRetry = False, tr_RetryAttempt = 0, tr_RetryBackoffMs = 0, tr_PRURL = [], tr_PRBranch = [],
      tr_PRBaseBranch = [], tr_PRNumber = 0, tr_MergedSHA = [], tr_MergedAt = 0, tr_FailedProfile = [],
      tr_FailedBackend = [], tr_PromptTokensTotal = 0, tr_CompletionTokensTotal = 0,
      tr_SwitchedToProfile = [], tr_SwitchedToBackend = [], tr_ResolvedBlockers = [],
      tr_PreviouslyBlockedBy = [], tr_DependencyAuditVersion = 0, tr_DependencyUnblockedAt = 0,
      tr_MoveToState = []\<rparr>"

definition matchesInputRequiredAutomation :: "issue \<Rightarrow> input_required_automation \<Rightarrow> string \<Rightarrow> bool" where
  "matchesInputRequiredAutomation issue a inputContext =
     MatchesAutomationFilter issue (ira_MatchMode a) (ira_States a) (ira_LabelsAny a)
       (ira_IdentifierRegex a) (ira_InputContextRegex a) inputContext"

definition input_required_fires ::
  "issue \<Rightarrow> input_required_entry \<Rightarrow> time \<Rightarrow> input_required_automation \<Rightarrow> bool" where
  "input_required_fires issue entry now a =
     (matchesInputRequiredAutomation issue a (ir_Context entry) \<and>
      \<not> (0 < ira_MaxAge a \<and> \<not> isZero (ir_QueuedAt entry) \<and> ira_MaxAge a < time_sub now (ir_QueuedAt entry)))"

definition input_required_dispatch ::
  "input_required_entry \<Rightarrow> time \<Rightarrow> input_required_automation \<Rightarrow> automation_dispatch" where
  "input_required_dispatch entry now a =
     \<lparr>ad_AutomationID = ira_ID a, ad_ProfileName = ira_ProfileName a, ad_Instructions = ira_Instructions a,
      ad_Trigger = (empty_trigger AutomationTriggerInputRequired now (ira_ID a))\<lparr>
        tr_InputContext := ir_Context entry, tr_BlockedProfile := ir_ProfileName entry,
        tr_BlockedBackend := ir_Backend entry\<rparr>,
      ad_AutoResume = ira_AutoResume a, ad_MoveToState = [], ad_UseIssueLifecycle = False\<rparr>"

text \<open>A rule list is tried in order; each dispatch sees the state the previous one left.\<close>

definition dispatch_all :: "config \<Rightarrow> time \<Rightarrow> issue \<Rightarrow> daemon \<Rightarrow> automation_dispatch list \<Rightarrow> daemon" where
  "dispatch_all cfg now issue d as = foldl (\<lambda>d a. fst (dispatchOrQueueAutomation cfg now d issue a)) d as"

definition dispatchMatchingInputRequiredAutomations ::
  "automation_rules \<Rightarrow> config \<Rightarrow> daemon \<Rightarrow> issue \<Rightarrow> input_required_entry \<Rightarrow> time \<Rightarrow> run_entry option \<Rightarrow> daemon" where
  "dispatchMatchingInputRequiredAutomations rules cfg d issue entry now prevRun =
     (case prevRun of
        Some r \<Rightarrow>
          if ru_AutomationID r \<noteq> [] \<and> ru_TriggerType r = AutomationTriggerInputRequired
          then (fst d, (snd d)\<lparr>s_AutomationDropsSelfReentryTotal := s_AutomationDropsSelfReentryTotal (snd d) + 1\<rparr>)
          else dispatch_all cfg now issue d
            (map (input_required_dispatch entry now) (filter (input_required_fires issue entry now) (ar_inputRequired rules)))
      | None \<Rightarrow> dispatch_all cfg now issue d
            (map (input_required_dispatch entry now) (filter (input_required_fires issue entry now) (ar_inputRequired rules))))"

definition run_failed_dispatch :: "issue \<Rightarrow> time \<Rightarrow> string \<Rightarrow> int \<Rightarrow> run_failed_automation \<Rightarrow> automation_dispatch" where
  "run_failed_dispatch issue now errorMessage attempt a =
     \<lparr>ad_AutomationID = rfa_ID a, ad_ProfileName = rfa_ProfileName a, ad_Instructions = rfa_Instructions a,
      ad_Trigger = (empty_trigger AutomationTriggerRunFailed now (rfa_ID a))\<lparr>
        tr_CurrentState := is_State issue, tr_ErrorMessage := errorMessage, tr_WillRetry := False,
        tr_RetryAttempt := attempt\<rparr>,
      ad_AutoResume = False, ad_MoveToState = [], ad_UseIssueLifecycle = False\<rparr>"

definition dispatchMatchingRunFailedAutomations ::
  "automation_rules \<Rightarrow> config \<Rightarrow> daemon \<Rightarrow> issue \<Rightarrow> time \<Rightarrow> string \<Rightarrow> int \<Rightarrow> daemon" where
  "dispatchMatchingRunFailedAutomations rules cfg d issue now errorMessage attempt =
     dispatch_all cfg now issue d (map (run_failed_dispatch issue now errorMessage attempt)
       (filter (\<lambda>a. MatchesAutomationFilter issue (rfa_MatchMode a) (rfa_States a) (rfa_LabelsAny a)
          (rfa_IdentifierRegex a) None []) (ar_runFailed rules)))"

definition blockers_resolved_dispatch ::
  "issue \<Rightarrow> dependency_audit_entry \<Rightarrow> time \<Rightarrow> blockers_resolved_automation \<Rightarrow> automation_dispatch" where
  "blockers_resolved_dispatch issue audit now a =
     \<lparr>ad_AutomationID = bra_ID a, ad_ProfileName = bra_ProfileName a, ad_Instructions = bra_Instructions a,
      ad_Trigger = (empty_trigger AutomationTriggerBlockersResolved now (bra_ID a))\<lparr>
        tr_CurrentState := is_State issue, tr_ResolvedBlockers := da_ResolvedBlockers audit,
        tr_PreviouslyBlockedBy := da_BlockedBy audit,
        tr_DependencyAuditVersion := da_LastTransitionVersion audit,
        tr_DependencyUnblockedAt := da_UnblockedAt audit, tr_MoveToState := bra_MoveToState a\<rparr>,
      ad_AutoResume = False, ad_MoveToState = bra_MoveToState a, ad_UseIssueLifecycle = False\<rparr>"

definition dispatchMatchingBlockersResolvedAutomations ::
  "automation_rules \<Rightarrow> config \<Rightarrow> daemon \<Rightarrow> issue \<Rightarrow> dependency_audit_entry \<Rightarrow> time \<Rightarrow> daemon" where
  "dispatchMatchingBlockersResolvedAutomations rules cfg d issue audit now =
     (if da_LastTransitionVersion audit = 0 then d
      else dispatch_all cfg now issue d (map (blockers_resolved_dispatch issue audit now)
        (filter (\<lambda>a. MatchesAutomationFilter issue (bra_MatchMode a) (bra_States a) (bra_LabelsAny a)
           (bra_IdentifierRegex a) None []) (ar_blockersResolved rules))))"

section \<open>Lemmas\<close>

context admission_relation
begin

lemma rel_dispatch_all: "rel d (dispatch_all cfg now issue d as)"
  unfolding dispatch_all_def
proof (induction as arbitrary: d)
  case (Cons a as)
  show ?case using rel_trans [OF rel_dispatchOrQueue Cons.IH] by simp
qed (simp add: rel_refl)

lemma rel_input_required: "rel d (dispatchMatchingInputRequiredAutomations rules cfg d issue entry now prevRun)"
  unfolding dispatchMatchingInputRequiredAutomations_def
  by (cases prevRun) (simp_all add: rel_dispatch_all rel_quiet adm_def)

lemma rel_run_failed: "rel d (dispatchMatchingRunFailedAutomations rules cfg d issue now e n)"
  unfolding dispatchMatchingRunFailedAutomations_def by (rule rel_dispatch_all)

lemma rel_blockers_resolved: "rel d (dispatchMatchingBlockersResolvedAutomations rules cfg d issue audit now)"
  unfolding dispatchMatchingBlockersResolvedAutomations_def by (simp add: rel_dispatch_all rel_refl)

end

lemmas input_required_slot_admits = slots.rel_input_required
  and run_failed_slot_admits = slots.rel_run_failed
  and blockers_resolved_slot_admits = slots.rel_blockers_resolved

interpretation input_required_rules: slot_gated_path
  "\<lambda>d. dispatchMatchingInputRequiredAutomations rules cfg d issue entry now prevRun" for rules cfg issue entry now prevRun
  using input_required_slot_admits by unfold_locales (simp_all add: slot_admits_def)

interpretation run_failed_rules: slot_gated_path
  "\<lambda>d. dispatchMatchingRunFailedAutomations rules cfg d issue now e n" for rules cfg issue now e n
  using run_failed_slot_admits by unfold_locales (simp_all add: slot_admits_def)

interpretation blockers_resolved_rules: slot_gated_path
  "\<lambda>d. dispatchMatchingBlockersResolvedAutomations rules cfg d issue audit now" for rules cfg issue audit now
  using blockers_resolved_slot_admits by unfold_locales (simp_all add: slot_admits_def)

section \<open>Properties\<close>

text \<open>
  The automation filter is the conjunction of its configured criteria, or their disjunction in
  the any mode, and matches every issue when none is configured. State and label comparisons
  ignore case.
\<close>

theorem automation_filter_exact:
  "MatchesAutomationFilter issue mode states labels idRegex ctxRegex ctx =
     (let criteria = {c. (\<exists>p. idRegex = Some p \<and> c = p (is_Identifier issue)) \<or>
            states \<noteq> [] \<and> c = (\<exists>st \<in> set states. to_lower st = to_lower (is_State issue)) \<or>
            labels \<noteq> [] \<and> c = (\<exists>l \<in> set labels. \<exists>k \<in> set (is_Labels issue). to_lower k = to_lower l) \<or>
            (\<exists>p. ctxRegex = Some p \<and> c = p ctx)}
      in if mode = ''any'' \<and> criteria \<noteq> {} then True \<in> criteria else False \<notin> criteria)"
proof -
  let ?checks = "filter_checks issue states labels idRegex ctxRegex ctx"
  have set: "set ?checks = {c. (\<exists>p. idRegex = Some p \<and> c = p (is_Identifier issue)) \<or>
            states \<noteq> [] \<and> c = (\<exists>st \<in> set states. to_lower st = to_lower (is_State issue)) \<or>
            labels \<noteq> [] \<and> c = (\<exists>l \<in> set labels. \<exists>k \<in> set (is_Labels issue). to_lower k = to_lower l) \<or>
            (\<exists>p. ctxRegex = Some p \<and> c = p ctx)}"
    by (auto simp: filter_checks_def list_ex_iff equal_fold_def split: option.splits)
  have "MatchesAutomationFilter issue mode states labels idRegex ctxRegex ctx =
      (if mode = ''any'' \<and> set ?checks \<noteq> {} then True \<in> set ?checks else False \<notin> set ?checks)"
  proof (cases "?checks = []")
    case False
    have "list_ex (\<lambda>c. c) ?checks = (True \<in> set ?checks)" by (auto simp: list_ex_iff)
    moreover have "list_all (\<lambda>c. c) ?checks = (False \<notin> set ?checks)"
      unfolding list_all_iff by (metis (full_types))
    ultimately show ?thesis
      using False by (simp add: MatchesAutomationFilter_def AutomationFilterMatchAny_def)
  qed (simp add: MatchesAutomationFilter_def)
  then show ?thesis unfolding Let_def set .
qed

text \<open>
  An input-required automation never triggers itself. When a rule's own run, started for the
  issue, later asks for input, no rule is dispatched or queued again: nothing starts, the queue is
  unchanged and only the drop counter moves.
\<close>

theorem input_required_no_self_reentry:
  assumes "ira_ID rule \<noteq> []" and "\<not> mhas (s_Running (snd d)) (is_ID issue)"
    and "mget (s_Running (snd (fst (startAutomationRunOrHold cfg now d issue (input_required_dispatch entry now rule)))))
      (is_ID issue) = Some r"
    and "e' = dispatchMatchingInputRequiredAutomations rules cfg e issue entry' later (Some r)"
  shows "o_started (fst e') = o_started (fst e) \<and> s_Running (snd e') = s_Running (snd e)
    \<and> s_AutomationQueue (snd e') = s_AutomationQueue (snd e)
    \<and> s_AutomationDropsSelfReentryTotal (snd e') = s_AutomationDropsSelfReentryTotal (snd e) + 1"
proof -
  let ?a = "input_required_dispatch entry now rule"
  have "ru_AutomationID r = ira_ID rule \<and> ru_TriggerType r = AutomationTriggerInputRequired"
  proof (cases rule: start_cases [of cfg now d issue ?a])
    case (nothing d')
    then show ?thesis using assms(2,3) by (auto simp: mhas_def)
  next
    case (gated profile o2 host s2 g)
    note q = prepared_fields [OF gated(5,6) requests_strip(2)]
    show ?thesis
      using assms(2,3) unfolding gated(7)
      by (auto simp: q mhas_def claim_issue_def launch_automation_def claim_and_run_def new_run_def Let_def
          input_required_dispatch_def empty_trigger_def split: if_splits)
  qed
  then show ?thesis using assms(1,4) by (simp add: dispatchMatchingInputRequiredAutomations_def)
qed

definition ex_profile_config :: config where
  "ex_profile_config = ex_config\<lparr>cf_Agent := (cf_Agent ex_config)\<lparr>ag_Profiles :=
     [(''p'', \<lparr>pr_Command = [], pr_Backend = [], pr_Enabled = None\<rparr>)]\<rparr>\<rparr>"

definition ex_rule :: input_required_automation where
  "ex_rule = \<lparr>ira_ID = ''a1'', ira_ProfileName = ''p'', ira_Instructions = [], ira_MatchMode = [], ira_States = [],
     ira_LabelsAny = [], ira_IdentifierRegex = None, ira_InputContextRegex = None, ira_AutoResume = False, ira_MaxAge = 0\<rparr>"

definition ex_input :: input_required_entry where
  "ex_input = \<lparr>ir_IssueID = ''id-A-1'', ir_Identifier = ''A-1'', ir_SessionID = [], ir_Context = ''which?'',
     ir_BranchName = [], ir_Backend = [], ir_Command = [], ir_WorkerHost = [], ir_ProfileName = [],
     ir_QuestionCommentKey = [], ir_QuestionCommentID = [], ir_QuestionAuthorID = [], ir_QuestionAuthorName = [],
     ir_QueuedAt = 0, ir_LastReplyCheckAt = 0, ir_QuestionStuckWarned = False\<rparr>"

theorem input_required_no_self_reentry_witness:
  "\<exists>r. mget (s_Running (snd (fst (startAutomationRunOrHold ex_profile_config 5 (ex_orch, ex_state) (ex_issue ''A-1'')
        (input_required_dispatch ex_input 5 ex_rule))))) ''id-A-1'' = Some r
    \<and> s_AutomationDropsSelfReentryTotal (snd (dispatchMatchingInputRequiredAutomations
        \<lparr>ar_inputRequired = [ex_rule], ar_runFailed = [], ar_blockersResolved = []\<rparr> ex_profile_config
        (ex_orch, ex_state) (ex_issue ''A-1'') ex_input 9 (Some r))) = 1"
proof -
  have id: "is_ID (ex_issue ''A-1'') = ''id-A-1''" by code_simp
  have "mget (s_Running (snd (fst (startAutomationRunOrHold ex_profile_config 5 (ex_orch, ex_state) (ex_issue ''A-1'')
      (input_required_dispatch ex_input 5 ex_rule))))) ''id-A-1'' \<noteq> None" by code_simp
  then obtain r where r: "mget (s_Running (snd (fst (startAutomationRunOrHold ex_profile_config 5 (ex_orch, ex_state)
      (ex_issue ''A-1'') (input_required_dispatch ex_input 5 ex_rule))))) ''id-A-1'' = Some r" by blast
  have "s_AutomationDropsSelfReentryTotal (snd (dispatchMatchingInputRequiredAutomations
        \<lparr>ar_inputRequired = [ex_rule], ar_runFailed = [], ar_blockersResolved = []\<rparr> ex_profile_config
        (ex_orch, ex_state) (ex_issue ''A-1'') ex_input 9 (Some r))) = 1"
    using input_required_no_self_reentry [of ex_rule "(ex_orch, ex_state)" "ex_issue ''A-1''" ex_profile_config 5 ex_input r, OF _ _ _ refl]
      r unfolding id by (simp add: ex_rule_def ex_state_def NewState_def)
  with r show ?thesis by blast
qed

end
