(* ===== verification/Restack.thy ===== *)
theory Restack
  imports Automations
begin

text \<open>
  Replaying a stacked worktree once its blocker landed (\<open>internal/orchestrator/restack.go\<close>) and the
  audit step that triggers it together with the blockers-resolved automations
  (\<open>auditFetchedIssueDependenciesAndDispatch\<close> in \<open>dependency_audit.go\<close>). The git rebase itself is an
  argument; the call that is made is part of the result. Retargeting the pull request is network
  I/O and is not modelled.
\<close>

section \<open>Definitions\<close>

datatype restack_outcome = RestackUpToDate | RestackRebased | RestackConflict | RestackSkippedDirty

text \<open>
  The workspace provider: \<open>None\<close> when it cannot rebase, otherwise the result of
  \<open>RestackWorktree identifier branch onto\<close>, itself \<open>None\<close> on an error.
\<close>

type_synonym restacker = "(string \<Rightarrow> string \<Rightarrow> string \<Rightarrow> restack_outcome option) option"
type_synonym restack_call = "string \<times> string \<times> string"

definition issueRunning :: "state \<Rightarrow> issue \<Rightarrow> bool" where
  "issueRunning s issue =
     (mhas (s_Running s) (is_ID issue) \<and> is_ID issue \<noteq> [] \<or>
      list_ex (\<lambda>(k, e). is_Identifier (ru_Issue e) = is_Identifier issue) (s_Running s))"

definition restackEligible :: "state \<Rightarrow> issue \<Rightarrow> bool" where
  "restackEligible s issue =
     (is_Identifier issue \<noteq> [] \<and> \<not> issueRunning s issue \<and>
      list_all (\<lambda>b. case br_State b of None \<Rightarrow> False | Some st \<Rightarrow> isTerminalState st s) (is_BlockedBy issue))"

definition restackUnblockedIssue ::
  "restacker \<Rightarrow> config \<Rightarrow> state \<Rightarrow> issue \<Rightarrow> state \<times> restack_call option \<times> bool" where
  "restackUnblockedIssue restacker cfg s issue =
     (if \<not> dp_StackedPRs (cf_Dependencies cfg) then (s, None, False)
      else case restacker of
        None \<Rightarrow> (s, None, False)
      | Some rebase \<Rightarrow>
          let base = wc_BaseBranch (cf_Workspace cfg); ident = is_Identifier issue
          in if base = [] then (s, None, False)
             else if ident \<noteq> [] \<and> issueRunning s issue
             then (s\<lparr>s_PendingRestacks := mput (s_PendingRestacks s) ident ()\<rparr>, None, False)
             else if \<not> restackEligible s issue then (s, None, False)
             else let branch = ResolveWorktreeBranch (is_BranchName issue) ident
                  in (s, Some (ident, branch, base), rebase ident branch base = Some RestackConflict))"

definition markRestackConflict :: "config \<Rightarrow> state \<Rightarrow> issue \<Rightarrow> time \<Rightarrow> state" where
  "markRestackConflict cfg s issue now =
     (if mhas (s_InputRequiredIssues s) (is_Identifier issue) then s
      else s\<lparr>s_InputRequiredIssues := mput (s_InputRequiredIssues s) (is_Identifier issue)
        \<lparr>ir_IssueID = is_ID issue, ir_Identifier = is_Identifier issue, ir_SessionID = [],
         ir_Context = ''Restacking this branch onto '' @ wc_BaseBranch (cf_Workspace cfg) @
           '' hit a merge conflict after its blocker landed. The rebase was aborted, so the branch is unchanged. '' @
           ''Resolve the conflict manually, then resume.'',
         ir_BranchName = ResolveWorktreeBranch (is_BranchName issue) (is_Identifier issue),
         ir_Backend = [], ir_Command = [], ir_WorkerHost = [], ir_ProfileName = [],
         ir_QuestionCommentKey = [], ir_QuestionCommentID = [], ir_QuestionAuthorID = [],
         ir_QuestionAuthorName = [], ir_QueuedAt = now, ir_LastReplyCheckAt = 0,
         ir_QuestionStuckWarned = False\<rparr>\<rparr>)"

text \<open>A restack whose conflict parks the issue for a human.\<close>

definition restack_or_park ::
  "restacker \<Rightarrow> config \<Rightarrow> state \<Rightarrow> issue \<Rightarrow> time \<Rightarrow> state \<times> restack_call option" where
  "restack_or_park restacker cfg s issue now =
     (case restackUnblockedIssue restacker cfg s issue of
        (s', call, conflicted) \<Rightarrow> (if conflicted then markRestackConflict cfg s' issue now else s', call))"

definition auditFetchedIssueDependenciesAndDispatch ::
  "restacker \<Rightarrow> automation_rules \<Rightarrow> config \<Rightarrow> daemon \<Rightarrow> issue \<Rightarrow> time \<Rightarrow>
    daemon \<times> dependency_audit_entry \<times> restack_call option" where
  "auditFetchedIssueDependenciesAndDispatch restacker rules cfg d issue now =
     (let beforeSeq = s_DependencyTransitionSeq (snd d);
          (s1, entry) = auditFetchedIssueDependencies now (snd d) issue now;
          ident = is_Identifier issue
      in if beforeSeq < da_LastTransitionVersion entry \<and> da_Status entry = DependencyAuditUnblocked
         then let (s2, call) = restack_or_park restacker cfg s1 issue now
              in (dispatchMatchingBlockersResolvedAutomations rules cfg (fst d, s2) issue entry now, entry, call)
         else if mhas (s_PendingRestacks s1) ident
         then if da_Status entry \<noteq> DependencyAuditUnblocked
              then ((fst d, s1\<lparr>s_PendingRestacks := mdel (s_PendingRestacks s1) ident\<rparr>), entry, None)
              else if \<not> issueRunning s1 issue
              then let (s2, call) = restack_or_park restacker cfg
                         (s1\<lparr>s_PendingRestacks := mdel (s_PendingRestacks s1) ident\<rparr>) issue now
                   in ((fst d, s2), entry, call)
              else ((fst d, s1), entry, None)
         else ((fst d, s1), entry, None))"

section \<open>Lemmas\<close>

lemma restack_quiet:
  assumes "restack_or_park restacker cfg s issue now = (s', call)"
  shows "s_Running s' = s_Running s" "s_MaxConcurrentAgents s' = s_MaxConcurrentAgents s" "s_Draining s' = s_Draining s"
    "s_TerminalStates s' = s_TerminalStates s"
  using assms
  by (auto simp: restack_or_park_def restackUnblockedIssue_def markRestackConflict_def Let_def
      split: if_splits option.splits)

lemma restack_call_safe:
  assumes "restack_or_park restacker cfg s issue now = (s', Some call)"
  shows "restackEligible s issue \<and> dp_StackedPRs (cf_Dependencies cfg) \<and>
    call = (is_Identifier issue, ResolveWorktreeBranch (is_BranchName issue) (is_Identifier issue),
      wc_BaseBranch (cf_Workspace cfg))"
  using assms by (auto simp: restack_or_park_def restackUnblockedIssue_def Let_def split: if_splits option.splits)

lemma restack_defers:
  assumes "restack_or_park restacker cfg s issue now = (s', call)" and "dp_StackedPRs (cf_Dependencies cfg)"
    and "restacker \<noteq> None" and "wc_BaseBranch (cf_Workspace cfg) \<noteq> []" and "is_Identifier issue \<noteq> []"
  shows "issueRunning s issue \<Longrightarrow> call = None \<and> mhas (s_PendingRestacks s') (is_Identifier issue)"
    and "restackEligible s issue \<Longrightarrow> call \<noteq> None"
  using assms by (auto simp: restack_or_park_def restackUnblockedIssue_def Let_def restackEligible_def split: if_splits option.splits)

lemma adm_restack: "adm (fst (restack_or_park restacker cfg s issue now)) = adm s"
  by (auto simp: adm_def restack_or_park_def restackUnblockedIssue_def markRestackConflict_def Let_def
      split: if_splits option.splits)

context admission_relation
begin

lemma rel_audit_dispatch: "rel d (fst (auditFetchedIssueDependenciesAndDispatch restacker rules cfg d issue now))"
proof -
  obtain s1 entry where a: "auditFetchedIssueDependencies now (snd d) issue now = (s1, entry)"
    by (cases "auditFetchedIssueDependencies now (snd d) issue now")
  let ?s1 = "s1\<lparr>s_PendingRestacks := mdel (s_PendingRestacks s1) (is_Identifier issue)\<rparr>"
  obtain s2 c s3 c3 where r: "restack_or_park restacker cfg s1 issue now = (s2, c)" "restack_or_park restacker cfg ?s1 issue now = (s3, c3)"
    by (cases "restack_or_park restacker cfg s1 issue now"; cases "restack_or_park restacker cfg ?s1 issue now")
  have s1: "adm s1 = adm (snd d)" "adm ?s1 = adm (snd d)"
    using adm_audit [of now "snd d" issue now] a by (simp_all add: adm_def)
  have "adm s2 = adm (snd d)" "adm s3 = adm (snd d)"
    using adm_restack [of restacker cfg s1 issue now] adm_restack [of restacker cfg ?s1 issue now] r s1 by simp_all
  with s1 have q: "rel d (fst d, s1)" "rel d (fst d, ?s1)" "rel d (fst d, s2)" "rel d (fst d, s3)"
    by (simp_all only: rel_quiet)
  have "rel d (dispatchMatchingBlockersResolvedAutomations rules cfg (fst d, s2) issue entry now)"
    by (rule rel_trans [OF q(3) rel_blockers_resolved])
  with q show ?thesis
    unfolding auditFetchedIssueDependenciesAndDispatch_def a Let_def prod.case r by simp
qed

end

lemmas audit_dispatch_slot_admits = slots.rel_audit_dispatch

interpretation audit_path: slot_gated_path
  "\<lambda>d. fst (auditFetchedIssueDependenciesAndDispatch restacker rules cfg d issue now)" for restacker rules cfg issue now
  using audit_dispatch_slot_admits by unfold_locales (simp_all add: slot_admits_def)

text \<open>Automation dispatches leave the deferred restacks alone.\<close>

lemma strip_pending: "strip t = strip s \<Longrightarrow> s_PendingRestacks t = s_PendingRestacks s"
  by (drule arg_cong [of _ _ s_PendingRestacks]) (simp add: strip_def)

lemma refresh_pending [simp]: "s_PendingRestacks (refreshAutomationQueueBackpressure s) = s_PendingRestacks s"
  by (simp add: refreshAutomationQueueBackpressure_def Let_def)

lemma enqueue_pending [simp]: "s_PendingRestacks (fst (enqueueAutomation s i a r now)) = s_PendingRestacks s"
  by (simp add: enqueueAutomation_def ensureAutomationQueueState_def recordAutomationQueueRejected_def Let_def
      split: prod.split option.split)

lemma queue_pending [simp]: "s_PendingRestacks (snd (fst (queue_automation d i a r now))) = s_PendingRestacks (snd d)"
  unfolding queue_automation_def
  by (cases "enqueueAutomation (snd d) i a r now") (use enqueue_pending [of "snd d" i a r now] in simp)

lemma start_pending: "s_PendingRestacks (snd (fst (startAutomationRunOrHold cfg now d issue a))) = s_PendingRestacks (snd d)"
proof (cases rule: start_cases [of cfg now d issue a])
  case (nothing d')
  then show ?thesis by (auto simp: syncDrainRequest_def applyDrain_def split: prod.split)
next
  case (gated profile o2 host s2 g)
  have "s_PendingRestacks s2 = s_PendingRestacks (snd d)"
    using strip_gate [OF requests_strip(2)] gated(6) by (intro strip_pending) (metis fst_conv)
  then show ?thesis
    unfolding gated(7) by (simp add: claim_issue_def launch_automation_def claim_and_run_def Let_def)
qed

lemma dispatchOrQueue_pending:
  "s_PendingRestacks (snd (fst (dispatchOrQueueAutomation cfg now d issue a))) = s_PendingRestacks (snd d)"
proof -
  obtain s1 fresh where c: "claimPROpenedDedup (snd d) issue a = (s1, fresh)" by (cases "claimPROpenedDedup (snd d) issue a")
  let ?s2 = "clear_switched_pause s1 issue a"
  obtain d' r where st: "startAutomationRunOrHold cfg now (fst d, ?s2) issue a = (d', r)"
    by (cases "startAutomationRunOrHold cfg now (fst d, ?s2) issue a")
  have s1: "s_PendingRestacks s1 = s_PendingRestacks (snd d)"
    using c by (auto simp: claimPROpenedDedup_def Let_def split: if_splits)
  then have s2: "s_PendingRestacks ?s2 = s_PendingRestacks (snd d)"
    by (simp add: clear_switched_pause_def clearPauseReason_def Let_def)
  have d': "s_PendingRestacks (snd d') = s_PendingRestacks (snd d)"
    using start_pending [of cfg now "(fst d, ?s2)" issue a] st s2 by simp
  show ?thesis
    unfolding dispatchOrQueueAutomation_def Let_def c prod.case st by (cases r) (simp_all add: s1 s2 d')
qed

lemma blockers_resolved_pending:
  "s_PendingRestacks (snd (dispatchMatchingBlockersResolvedAutomations rules cfg d issue audit now)) = s_PendingRestacks (snd d)"
proof -
  have "s_PendingRestacks (snd (dispatch_all cfg now issue d as)) = s_PendingRestacks (snd d)" for as
    unfolding dispatch_all_def by (induction as arbitrary: d) (simp_all add: dispatchOrQueue_pending)
  then show ?thesis by (simp add: dispatchMatchingBlockersResolvedAutomations_def)
qed

section \<open>Properties\<close>

lemma audit_fields:
  assumes "auditFetchedIssueDependencies now s issue now = (s1, entry)"
  shows "s_Running s1 = s_Running s" "s_PendingRestacks s1 = s_PendingRestacks s" "s_TerminalStates s1 = s_TerminalStates s"
proof -
  have s1: "s1 = fst (auditFetchedIssueDependencies now s issue now)" using assms by simp
  show "s_Running s1 = s_Running s" "s_PendingRestacks s1 = s_PendingRestacks s" "s_TerminalStates s1 = s_TerminalStates s"
    unfolding s1 by (simp_all add: auditFetchedIssueDependencies_def auditIssueDependencies_def recordObservedIssueState_def
      appendIssueStatusChange_def updateAutomationQueueIssueFromDependencyAudit_def Let_def)
qed

lemma eligible_cong:
  assumes "s_Running t = s_Running s" "s_TerminalStates t = s_TerminalStates s"
  shows "issueRunning t issue = issueRunning s issue" "restackEligible t issue = restackEligible s issue"
proof -
  have eq: "isTerminalState x t = isTerminalState x s" for x using assms(2) by (simp add: isTerminalState_def)
  show run: "issueRunning t issue = issueRunning s issue" using assms(1) by (simp add: issueRunning_def)
  show "restackEligible t issue = restackEligible s issue" unfolding restackEligible_def run eq ..
qed


definition ex_unblocked :: issue where
  "ex_unblocked = (ex_issue ''A-1'')\<lparr>is_BlockedBy := [(ex_blocker ''A-0'')\<lparr>br_State := Some ''Done''\<rparr>]\<rparr>"

definition ex_audit_step :: "daemon \<times> dependency_audit_entry \<times> restack_call option" where
  "ex_audit_step = auditFetchedIssueDependenciesAndDispatch (Some (\<lambda>_ _ _. Some RestackRebased))
     \<lparr>ar_inputRequired = [], ar_runFailed = [], ar_blockersResolved = []\<rparr> ex_config
     (ex_orch, ex_state\<lparr>s_PendingRestacks := [(''A-1'', ())]\<rparr>) ex_unblocked 5"


end
