(* ===== verification/Outbox.thy ===== *)
theory Outbox
  imports Orch_State
begin

text \<open>
  The write-ahead outbox of tracker mutations (\<open>internal/outbox/outbox.go\<close>), its reconciliation
  rules (\<open>reconcile.go\<close>) and the overlay of pending transitions on polled issues
  (\<open>internal/orchestrator/outbox_overlay.go\<close>).

  The file is the field \<open>ob_disk\<close>. The result of each atomic file write is an argument
  (\<open>None\<close> for success), as are the random parts: a fresh entry ID, a fresh comment key, the hash
  behind a legacy key and the jitter. JSON encoding is the identity on entries, and a file that
  does not decode is \<open>FileCorrupt\<close>.
\<close>

section \<open>Entries\<close>

definition KindUpdateState :: string where "KindUpdateState = ''update_state''"
definition KindCreateComment :: string where "KindCreateComment = ''create_comment''"
definition outboxDegradedAttempts :: int where "outboxDegradedAttempts = 5"
definition backoffBase :: duration where "backoffBase = 10 * second"
definition backoffCap :: duration where "backoffCap = 5 * minute"
definition rateLimitJitterMax :: duration where "rateLimitJitterMax = 5 * second"
definition maxRateLimitedWindow :: duration where "maxRateLimitedWindow = 2 * hour"

lemmas outbox_consts = KindUpdateState_def KindCreateComment_def

record outbox_entry =
  oe_ID :: string
  oe_Kind :: string
  oe_IssueID :: string
  oe_Identifier :: string
  oe_TargetState :: string
  oe_FromState :: string
  oe_Body :: string
  oe_CommentKey :: string
  oe_EnqueuedAt :: time
  oe_Attempts :: int
  oe_LastError :: string
  oe_NextAttemptAt :: time
  oe_RateLimitedAttempts :: int
  oe_RateLimitedUntil :: time
  oe_LastFailedAt :: time

definition Degraded :: "outbox_entry \<Rightarrow> bool" where
  "Degraded e = (outboxDegradedAttempts \<le> oe_Attempts e)"

record outbox =
  ob_path :: string
  ob_entries :: "outbox_entry list"
  ob_disk :: "outbox_entry list option"

datatype file_read = FileMissing | FileUnreadable | FileCorrupt | FileParsed "outbox_entry list"

definition validateEntry :: "outbox_entry \<Rightarrow> string option" where
  "validateEntry e =
     (if oe_Kind e = KindUpdateState \<and> oe_TargetState e = []
      then Some ''outbox: enqueue: update_state entry requires non-empty TargetState''
      else if oe_Kind e = KindCreateComment \<and> oe_Body e = []
      then Some ''outbox: enqueue: create_comment entry requires non-empty Body''
      else if oe_Kind e \<noteq> KindUpdateState \<and> oe_Kind e \<noteq> KindCreateComment
      then Some (''outbox: enqueue: unknown entry kind '' @ oe_Kind e)
      else if oe_IssueID e = [] then Some ''outbox: enqueue: entry requires non-empty IssueID''
      else if oe_Identifier e = [] then Some ''outbox: enqueue: entry requires non-empty Identifier''
      else None)"

section \<open>Operations\<close>

definition persistLocked :: "string option \<Rightarrow> outbox \<Rightarrow> outbox \<times> string option" where
  "persistLocked write ob =
     (if ob_path ob = [] then (ob, None)
      else case write of
        None \<Rightarrow> (ob\<lparr>ob_disk := Some (ob_entries ob)\<rparr>, None)
      | Some err \<Rightarrow> (ob, Some (''outbox: persist: '' @ err)))"

definition loadable :: "outbox_entry \<Rightarrow> bool" where
  "loadable e = (oe_ID e \<noteq> [] \<and> validateEntry e = None)"

definition needs_key :: "outbox_entry \<Rightarrow> bool" where
  "needs_key e = (oe_Kind e = KindCreateComment \<and> oe_CommentKey e = [])"

definition backfill :: "(string \<Rightarrow> string) \<Rightarrow> outbox_entry \<Rightarrow> outbox_entry" where
  "backfill legacyCommentKey e =
     (if needs_key e then e\<lparr>oe_CommentKey := legacyCommentKey (oe_ID e)\<rparr> else e)"

definition New :: "(string \<Rightarrow> string) \<Rightarrow> string option \<Rightarrow> string \<Rightarrow> file_read \<Rightarrow> outbox" where
  "New legacyCommentKey write path content =
     (let disk = (case content of FileParsed es \<Rightarrow> Some es | _ \<Rightarrow> None);
          empty = \<lparr>ob_path = path, ob_entries = [], ob_disk = disk\<rparr>
      in if path = [] then empty
         else case content of
           FileParsed es \<Rightarrow>
             (let kept = filter loadable es;
                  ob = empty\<lparr>ob_entries := map (backfill legacyCommentKey) kept\<rparr>
              in if list_ex needs_key kept then fst (persistLocked write ob) else ob)
         | _ \<Rightarrow> empty)"

definition Enqueue ::
  "string \<Rightarrow> string + string \<Rightarrow> string option \<Rightarrow> time \<Rightarrow> outbox \<Rightarrow> outbox_entry \<Rightarrow> outbox \<times> string option" where
  "Enqueue newID newKey write now ob e =
     (case validateEntry e of
        Some err \<Rightarrow> (ob, Some err)
      | None \<Rightarrow>
          let e1 = e\<lparr>oe_ID := newID, oe_EnqueuedAt := now, oe_Attempts := 0, oe_LastError := [],
                oe_NextAttemptAt := now\<rparr>;
              keyed = (if needs_key e1
                       then (case newKey of Inl err \<Rightarrow> Inl err | Inr k \<Rightarrow> Inr (e1\<lparr>oe_CommentKey := k\<rparr>))
                       else Inr e1)
          in (case keyed of
                Inl err \<Rightarrow> (ob, Some err)
              | Inr e2 \<Rightarrow>
                  (case persistLocked write (ob\<lparr>ob_entries := ob_entries ob @ [e2]\<rparr>) of
                     (ob', None) \<Rightarrow> (ob', None)
                   | (ob', Some err) \<Rightarrow> (ob'\<lparr>ob_entries := butlast (ob_entries ob')\<rparr>, Some err))))"

fun due_loop :: "time \<Rightarrow> string list \<Rightarrow> outbox_entry list \<Rightarrow> outbox_entry list" where
  "due_loop now seenHead [] = []"
| "due_loop now seenHead (e # es) =
     (if oe_IssueID e \<in> set seenHead then due_loop now seenHead es
      else if \<not> now < oe_NextAttemptAt e then e # due_loop now (oe_IssueID e # seenHead) es
      else due_loop now (oe_IssueID e # seenHead) es)"

definition Due :: "outbox \<Rightarrow> time \<Rightarrow> outbox_entry list" where
  "Due ob now = due_loop now [] (ob_entries ob)"

fun indexOfLocked :: "outbox_entry list \<Rightarrow> string \<Rightarrow> nat option" where
  "indexOfLocked [] k = None"
| "indexOfLocked (e # es) k = (if oe_ID e = k then Some 0 else map_option Suc (indexOfLocked es k))"

definition remove_at :: "nat \<Rightarrow> 'a list \<Rightarrow> 'a list" where
  "remove_at i xs = take i xs @ drop (Suc i) xs"

definition MarkFlushed :: "string option \<Rightarrow> outbox \<Rightarrow> string \<Rightarrow> outbox" where
  "MarkFlushed write ob k =
     (case indexOfLocked (ob_entries ob) k of
        None \<Rightarrow> ob
      | Some i \<Rightarrow> fst (persistLocked write (ob\<lparr>ob_entries := remove_at i (ob_entries ob)\<rparr>)))"

definition backoffFor :: "int \<Rightarrow> duration" where
  "backoffFor attempts =
     (let attempts = (if attempts < 1 then 1 else attempts); shift = attempts - 1
      in if 20 < shift then backoffCap
         else let d = wrap64 (backoffBase * wrap64 (2 ^ nat shift))
              in if d \<le> 0 \<or> backoffCap < d then backoffCap else d)"

text \<open>A failed delivery: a rate limit with its published reset, or anything else.\<close>

datatype flush_error = RateLimitedError time string | OtherError string

definition fail_entry :: "duration \<Rightarrow> flush_error \<Rightarrow> time \<Rightarrow> outbox_entry \<Rightarrow> outbox_entry" where
  "fail_entry jitter err now e =
     (case err of
        RateLimitedError reset msg \<Rightarrow>
          let limit = now + maxRateLimitedWindow;
              resetAt = (if limit < reset then limit else reset);
              soonest = now + backoffFor (oe_Attempts e + 1);
              jittered = resetAt + jitter
          in e\<lparr>oe_RateLimitedAttempts := oe_RateLimitedAttempts e + 1, oe_RateLimitedUntil := resetAt,
               oe_NextAttemptAt := (if soonest < jittered then jittered else soonest), oe_LastError := msg\<rparr>
      | OtherError msg \<Rightarrow>
          e\<lparr>oe_Attempts := oe_Attempts e + 1, oe_LastFailedAt := now,
            oe_NextAttemptAt := now + backoffFor (oe_Attempts e + 1), oe_RateLimitedUntil := 0,
            oe_LastError := msg\<rparr>)"

definition MarkFailed :: "duration \<Rightarrow> string option \<Rightarrow> outbox \<Rightarrow> string \<Rightarrow> flush_error \<Rightarrow> time \<Rightarrow> outbox" where
  "MarkFailed jitter write ob k err now =
     (case indexOfLocked (ob_entries ob) k of
        None \<Rightarrow> ob
      | Some i \<Rightarrow> fst (persistLocked write
          (ob\<lparr>ob_entries := (ob_entries ob)[i := fail_entry jitter err now (ob_entries ob ! i)]\<rparr>)))"

definition Drop :: "string option \<Rightarrow> outbox \<Rightarrow> string \<Rightarrow> outbox" where
  "Drop write ob k =
     (case indexOfLocked (ob_entries ob) k of
        None \<Rightarrow> ob
      | Some i \<Rightarrow> fst (persistLocked write (ob\<lparr>ob_entries := remove_at i (ob_entries ob)\<rparr>)))"

definition RetryNow :: "string option \<Rightarrow> time \<Rightarrow> outbox \<Rightarrow> string \<Rightarrow> outbox \<times> bool" where
  "RetryNow write now ob k =
     (case indexOfLocked (ob_entries ob) k of
        None \<Rightarrow> (ob, False)
      | Some i \<Rightarrow> (fst (persistLocked write
          (ob\<lparr>ob_entries := (ob_entries ob)[i := (ob_entries ob ! i)\<lparr>oe_NextAttemptAt := now\<rparr>]\<rparr>)), True))"

definition PendingFor :: "outbox \<Rightarrow> string \<Rightarrow> outbox_entry list" where
  "PendingFor ob issueID = filter (\<lambda>e. oe_IssueID e = issueID) (ob_entries ob)"

section \<open>Reconciliation and overlay\<close>

definition supersededByTracker :: "outbox_entry \<Rightarrow> string \<Rightarrow> time option \<Rightarrow> bool" where
  "supersededByTracker e polledState polledUpdatedAt =
     (case polledUpdatedAt of
        None \<Rightarrow> False
      | Some t \<Rightarrow> oe_EnqueuedAt e < t \<and> oe_FromState e \<noteq> [] \<and>
          polledState \<noteq> oe_TargetState e \<and> polledState \<noteq> oe_FromState e)"

definition ReconcileVerdict :: "outbox_entry \<Rightarrow> string \<Rightarrow> time option \<Rightarrow> bool \<times> string" where
  "ReconcileVerdict e polledState polledUpdatedAt =
     (if polledState = oe_TargetState e then (True, ''already_applied'')
      else if supersededByTracker e polledState polledUpdatedAt then (True, ''superseded_by_tracker'')
      else (False, []))"

definition reconcile_entry :: "(string \<Rightarrow> string option) \<Rightarrow> issue \<Rightarrow> outbox \<Rightarrow> outbox_entry \<Rightarrow> outbox" where
  "reconcile_entry writes issue ob e =
     (if oe_Kind e = KindUpdateState \<and> fst (ReconcileVerdict e (is_State issue) (is_UpdatedAt issue))
      then Drop (writes (oe_ID e)) ob (oe_ID e) else ob)"

definition reconcilePendingOutboxEntries :: "(string \<Rightarrow> string option) \<Rightarrow> outbox \<Rightarrow> issue \<Rightarrow> outbox" where
  "reconcilePendingOutboxEntries writes ob issue =
     foldl (reconcile_entry writes issue) ob (PendingFor ob (is_ID issue))"

definition lastPendingUpdateStateTarget :: "outbox_entry list \<Rightarrow> string option" where
  "lastPendingUpdateStateTarget pending =
     map_option oe_TargetState (List.find (\<lambda>e. oe_Kind e = KindUpdateState) (rev pending))"

fun overlay_loop ::
  "(string \<Rightarrow> string option) \<Rightarrow> outbox \<Rightarrow> issue list \<Rightarrow> outbox \<times> issue list \<times> string goset" where
  "overlay_loop writes ob [] = (ob, [], [])"
| "overlay_loop writes ob (issue # issues) =
     (if is_ID issue = []
      then let (ob', rest, syncing) = overlay_loop writes ob issues in (ob', issue # rest, syncing)
      else let ob1 = reconcilePendingOutboxEntries writes ob issue;
               (ob', rest, syncing) = overlay_loop writes ob1 issues
           in (case lastPendingUpdateStateTarget (PendingFor ob1 (is_ID issue)) of
                 None \<Rightarrow> (ob', issue # rest, syncing)
               | Some target \<Rightarrow> (ob', issue\<lparr>is_State := target\<rparr> # rest,
                   if is_Identifier issue = [] then syncing else mput syncing (is_Identifier issue) ())))"

definition reconcileAndOverlayOutbox ::
  "(string \<Rightarrow> string option) \<Rightarrow> outbox option \<Rightarrow> issue list \<Rightarrow> outbox option \<times> issue list \<times> string goset" where
  "reconcileAndOverlayOutbox writes ob issues =
     (case ob of
        None \<Rightarrow> (None, issues, [])
      | Some o' \<Rightarrow> (case overlay_loop writes o' issues of (o'', rest, syncing) \<Rightarrow> (Some o'', rest, syncing)))"

section \<open>Lemmas\<close>

definition entry_ids :: "outbox \<Rightarrow> string list" where
  "entry_ids ob = map oe_ID (ob_entries ob)"

lemma indexOf_Some:
  "indexOfLocked es k = Some i \<Longrightarrow> i < length es \<and> oe_ID (es ! i) = k"
  by (induction es arbitrary: i) (auto split: if_splits)

lemma indexOf_None: "indexOfLocked es k = None \<longleftrightarrow> k \<notin> oe_ID ` set es"
  by (induction es) auto

lemma remove_at_ids:
  assumes "distinct (map oe_ID es)" and "indexOfLocked es k = Some i"
  shows "remove_at i es = filter (\<lambda>e. oe_ID e \<noteq> k) es"
  using assms
proof (induction es arbitrary: i)
  case (Cons e es)
  show ?case
  proof (cases "oe_ID e = k")
    case True
    then have "filter (\<lambda>e. oe_ID e \<noteq> k) es = es" using Cons.prems(1) by (auto simp: filter_id_conv image_iff)
    then show ?thesis using True Cons.prems(2) by (simp add: remove_at_def)
  next
    case False
    then obtain j where j: "indexOfLocked es k = Some j" "i = Suc j" using Cons.prems(2) by auto
    then show ?thesis using False Cons.IH [OF _ j(1)] Cons.prems(1) by (simp add: remove_at_def)
  qed
qed simp

lemma update_at_ids:
  assumes "distinct (map oe_ID es)" and "indexOfLocked es k = Some i"
  shows "es[i := f (es ! i)] = map (\<lambda>e. if oe_ID e = k then f e else e) es"
  using assms
proof (induction es arbitrary: i)
  case (Cons e es)
  show ?case
  proof (cases "oe_ID e = k")
    case True
    then have "map (\<lambda>e. if oe_ID e = k then f e else e) es = es" using Cons.prems(1) by (auto simp: image_iff intro!: map_idI)
    then show ?thesis using True Cons.prems(2) by simp
  next
    case False
    then obtain j where j: "indexOfLocked es k = Some j" "i = Suc j" using Cons.prems(2) by auto
    then show ?thesis using False Cons.IH [OF _ j(1)] Cons.prems(1) by simp
  qed
qed simp

lemma persist_entries [simp]:
  "ob_entries (fst (persistLocked w ob)) = ob_entries ob" "ob_path (fst (persistLocked w ob)) = ob_path ob"
  by (simp_all add: persistLocked_def split: option.split)

lemma persist_disk:
  "ob_disk (fst (persistLocked w ob)) = (if ob_path ob \<noteq> [] \<and> w = None then Some (ob_entries ob) else ob_disk ob)"
  by (simp add: persistLocked_def split: option.split)

text \<open>The effect of each operation on the entries, for distinct IDs.\<close>

lemma removed_entries:
  assumes "distinct (entry_ids ob)"
  shows "ob_entries (MarkFlushed w ob k) = filter (\<lambda>e. oe_ID e \<noteq> k) (ob_entries ob)"
    and "ob_entries (Drop w ob k) = filter (\<lambda>e. oe_ID e \<noteq> k) (ob_entries ob)"
proof -
  have "filter (\<lambda>e. oe_ID e \<noteq> k) (ob_entries ob) = ob_entries ob" if "indexOfLocked (ob_entries ob) k = None"
    using that unfolding indexOf_None by (auto simp: filter_id_conv)
  then show "ob_entries (MarkFlushed w ob k) = filter (\<lambda>e. oe_ID e \<noteq> k) (ob_entries ob)"
    and "ob_entries (Drop w ob k) = filter (\<lambda>e. oe_ID e \<noteq> k) (ob_entries ob)"
    using remove_at_ids [of "ob_entries ob" k] assms
    by (simp_all add: MarkFlushed_def Drop_def entry_ids_def split: option.split)
qed

lemma updated_entries:
  assumes "distinct (entry_ids ob)"
  shows "ob_entries (MarkFailed j w ob k err now) =
      map (\<lambda>e. if oe_ID e = k then fail_entry j err now e else e) (ob_entries ob)"
    and "ob_entries (fst (RetryNow w now ob k)) =
      map (\<lambda>e. if oe_ID e = k then e\<lparr>oe_NextAttemptAt := now\<rparr> else e) (ob_entries ob)"
proof -
  have "map (\<lambda>e. if oe_ID e = k then f e else e) (ob_entries ob) = ob_entries ob"
    if "indexOfLocked (ob_entries ob) k = None" for f
    using that unfolding indexOf_None by (auto intro!: map_idI)
  then show "ob_entries (MarkFailed j w ob k err now) =
      map (\<lambda>e. if oe_ID e = k then fail_entry j err now e else e) (ob_entries ob)"
    and "ob_entries (fst (RetryNow w now ob k)) =
      map (\<lambda>e. if oe_ID e = k then e\<lparr>oe_NextAttemptAt := now\<rparr> else e) (ob_entries ob)"
    using update_at_ids [of "ob_entries ob" k] assms
    by (simp_all add: MarkFailed_def RetryNow_def entry_ids_def split: option.split)
qed

text \<open>An enqueue either leaves the outbox unchanged with an error, or appends a fresh entry.\<close>

definition enqueued_as :: "string \<Rightarrow> string + string \<Rightarrow> time \<Rightarrow> outbox_entry \<Rightarrow> outbox_entry \<Rightarrow> bool" where
  "enqueued_as newID newKey now e e' \<longleftrightarrow> validateEntry e = None \<and>
     (\<exists>key. e' = e\<lparr>oe_ID := newID, oe_EnqueuedAt := now, oe_Attempts := 0, oe_LastError := [],
          oe_NextAttemptAt := now, oe_CommentKey := key\<rparr> \<and>
        (if needs_key e then newKey = Inr key else key = oe_CommentKey e))"

lemma Enqueue_cases:
  obtains err where "Enqueue newID newKey w now ob e = (ob, Some err)"
  | e' where "enqueued_as newID newKey now e e'"
      "Enqueue newID newKey w now ob e = (fst (persistLocked w (ob\<lparr>ob_entries := ob_entries ob @ [e']\<rparr>)), None)"
      "ob_path ob = [] \<or> w = None"
proof (cases "validateEntry e")
  case (Some err)
  then show thesis by (intro that(1) [of err]) (simp add: Enqueue_def)
next
  case None
  let ?e1 = "e\<lparr>oe_ID := newID, oe_EnqueuedAt := now, oe_Attempts := 0, oe_LastError := [], oe_NextAttemptAt := now\<rparr>"
  have nk: "needs_key ?e1 = needs_key e" by (simp add: needs_key_def)
  show thesis
  proof (cases "\<exists>err. needs_key e \<and> newKey = Inl err")
    case True
    then show thesis using None nk by (auto simp: Enqueue_def Let_def intro: that(1))
  next
    case False
    define key where "key = (if needs_key e then projr newKey else oe_CommentKey e)"
    define e' where "e' = ?e1\<lparr>oe_CommentKey := key\<rparr>"
    have k: "needs_key e \<Longrightarrow> newKey = Inr key" using False by (cases newKey) (auto simp: key_def)
    have k': "\<not> needs_key e \<Longrightarrow> key = oe_CommentKey e" by (simp add: key_def)
    have eq: "Enqueue newID newKey w now ob e =
        (case persistLocked w (ob\<lparr>ob_entries := ob_entries ob @ [e']\<rparr>) of
           (ob', None) \<Rightarrow> (ob', None)
         | (ob', Some err) \<Rightarrow> (ob'\<lparr>ob_entries := butlast (ob_entries ob')\<rparr>, Some err))"
      using None k k' by (cases "needs_key e") (simp_all add: Enqueue_def Let_def nk e'_def)
    have en: "enqueued_as newID newKey now e e'"
      using None k unfolding enqueued_as_def by (intro conjI exI [of _ key]) (auto simp: e'_def key_def)
    show thesis
    proof (cases "ob_path ob = [] \<or> w = None")
      case True
      then show thesis by (intro that(2) [OF en]) (auto simp: eq persistLocked_def split: option.split)
    next
      case False
      then obtain err where "w = Some err" by auto
      with False have "Enqueue newID newKey w now ob e = (ob, Some (''outbox: persist: '' @ err))"
        unfolding eq by (simp add: persistLocked_def)
      then show thesis by (rule that(1))
    qed
  qed
qed

section \<open>Runs of operations\<close>

datatype outbox_op =
    OpEnqueue string "string + string" "string option" time outbox_entry
  | OpFlushed "string option" string
  | OpFailed duration "string option" string flush_error time
  | OpDrop "string option" string
  | OpRetry "string option" time string

fun outbox_step :: "outbox \<Rightarrow> outbox_op \<Rightarrow> outbox" where
  "outbox_step ob (OpEnqueue newID newKey w now e) = fst (Enqueue newID newKey w now ob e)"
| "outbox_step ob (OpFlushed w k) = MarkFlushed w ob k"
| "outbox_step ob (OpFailed j w k err now) = MarkFailed j w ob k err now"
| "outbox_step ob (OpDrop w k) = Drop w ob k"
| "outbox_step ob (OpRetry w now k) = fst (RetryNow w now ob k)"

fun new_ids :: "outbox_op list \<Rightarrow> string list" where
  "new_ids [] = []"
| "new_ids (OpEnqueue newID newKey w now e # ops) = newID # new_ids ops"
| "new_ids (op # ops) = new_ids ops"

text \<open>IDs are never reused: a nanosecond time stamp with six random bytes.\<close>

definition fresh_ids :: "outbox \<Rightarrow> outbox_op list \<Rightarrow> bool" where
  "fresh_ids ob ops \<longleftrightarrow> distinct (entry_ids ob @ new_ids ops)"

lemma fail_entry_payload [simp]:
  "oe_ID (fail_entry j err now e) = oe_ID e" "oe_Kind (fail_entry j err now e) = oe_Kind e"
  "oe_IssueID (fail_entry j err now e) = oe_IssueID e" "oe_Identifier (fail_entry j err now e) = oe_Identifier e"
  "oe_TargetState (fail_entry j err now e) = oe_TargetState e" "oe_FromState (fail_entry j err now e) = oe_FromState e"
  "oe_Body (fail_entry j err now e) = oe_Body e" "oe_CommentKey (fail_entry j err now e) = oe_CommentKey e"
  "oe_EnqueuedAt (fail_entry j err now e) = oe_EnqueuedAt e"
  by (simp_all add: fail_entry_def Let_def split: flush_error.split)

lemma map_ids_update: "map oe_ID (map (\<lambda>e. if oe_ID e = k then f e else e) es) = map oe_ID es"
  if "\<And>e. oe_ID (f e) = oe_ID e" for f
  using that by (induction es) auto

text \<open>One step, by its effect on the entries.\<close>

lemma outbox_step_cases:
  assumes "distinct (entry_ids ob)"
  obtains (same) "ob_entries (outbox_step ob op) = ob_entries ob" "ob_disk (outbox_step ob op) = ob_disk ob"
  | (append) newID newKey w now e e' where "op = OpEnqueue newID newKey w now e" "enqueued_as newID newKey now e e'"
      "ob_entries (outbox_step ob op) = ob_entries ob @ [e']" "ob_path ob = [] \<or> w = None"
  | (update) f k w where "ob_entries (outbox_step ob op) = map (\<lambda>e. if oe_ID e = k then f e else e) (ob_entries ob)"
      "(\<exists>j err now. op = OpFailed j w k err now \<and> f = fail_entry j err now) \<or>
       (\<exists>now. op = OpRetry w now k \<and> f = (\<lambda>e. e\<lparr>oe_NextAttemptAt := now\<rparr>))"
  | (remove) w k where "op = OpFlushed w k \<or> op = OpDrop w k"
      "ob_entries (outbox_step ob op) = filter (\<lambda>e. oe_ID e \<noteq> k) (ob_entries ob)"
proof (cases op)
  case (OpEnqueue newID newKey w now e)
  show thesis
  proof (cases rule: Enqueue_cases [of newID newKey w now ob e])
    case (1 err)
    then show thesis using OpEnqueue by (intro same) simp_all
  next
    case (2 e')
    then show thesis using OpEnqueue by (intro append [of newID newKey w now e e']) simp_all
  qed
next
  case (OpFlushed w k)
  then show thesis using removed_entries(1) [OF assms] by (intro remove [of w k]) simp_all
next
  case (OpFailed j w k err now)
  then show thesis using updated_entries(1) [OF assms] by (intro update [of k "fail_entry j err now" w]) auto
next
  case (OpDrop w k)
  then show thesis using removed_entries(2) [OF assms] by (intro remove [of w k]) simp_all
next
  case (OpRetry w now k)
  then show thesis using updated_entries(2) [OF assms]
    by (intro update [of k "\<lambda>e. e\<lparr>oe_NextAttemptAt := now\<rparr>" w]) auto
qed

lemma fresh_step:
  assumes "fresh_ids ob (op # ops)"
  shows "fresh_ids (outbox_step ob op) ops" "distinct (entry_ids ob)"
proof -
  show d: "distinct (entry_ids ob)" using assms by (cases op) (simp_all add: fresh_ids_def)
  from d show "fresh_ids (outbox_step ob op) ops"
  proof (cases rule: outbox_step_cases [of ob op])
    case same
    then show ?thesis using assms by (cases op) (auto simp: fresh_ids_def entry_ids_def)
  next
    case (append newID newKey w now e e')
    then show ?thesis using assms by (auto simp: fresh_ids_def entry_ids_def enqueued_as_def)
  next
    case (update f k w)
    have "map oe_ID (ob_entries (outbox_step ob op)) = map oe_ID (ob_entries ob)"
      unfolding update(1) using update(2) by (intro map_ids_update) auto
    then show ?thesis using assms update(2) by (auto simp: fresh_ids_def entry_ids_def)
  next
    case (remove w k)
    then show ?thesis using assms
      by (auto simp: fresh_ids_def entry_ids_def distinct_map_filter)
  qed
qed

lemma due_loop_iff:
  "e \<in> set (due_loop now seen es) \<longleftrightarrow> oe_IssueID e \<notin> set seen \<and>
     (\<exists>rest. filter (\<lambda>x. oe_IssueID x = oe_IssueID e) es = e # rest) \<and> oe_NextAttemptAt e \<le> now"
  by (induction now seen es rule: due_loop.induct) auto

lemma Due_iff:
  "e \<in> set (Due ob now) \<longleftrightarrow> (\<exists>rest. PendingFor ob (oe_IssueID e) = e # rest) \<and> oe_NextAttemptAt e \<le> now"
  unfolding Due_def PendingFor_def due_loop_iff by simp

text \<open>What happened to each write, per issue.\<close>

datatype outbox_event = Accepted string string | Sent string string | Dropped string string

definition leaves :: "(string \<Rightarrow> string \<Rightarrow> outbox_event) \<Rightarrow> outbox \<Rightarrow> string \<Rightarrow> outbox_event list" where
  "leaves ev ob k = map (\<lambda>e. ev (oe_IssueID e) k) (filter (\<lambda>e. oe_ID e = k) (ob_entries ob))"

fun step_events :: "outbox \<Rightarrow> outbox_op \<Rightarrow> outbox_event list" where
  "step_events ob (OpEnqueue newID newKey w now e) =
     (if snd (Enqueue newID newKey w now ob e) = None then [Accepted (oe_IssueID e) newID] else [])"
| "step_events ob (OpFlushed w k) = leaves Sent ob k"
| "step_events ob (OpDrop w k) = leaves Dropped ob k"
| "step_events ob _ = []"

fun outbox_history :: "outbox \<Rightarrow> outbox_op list \<Rightarrow> outbox_event list" where
  "outbox_history ob [] = []"
| "outbox_history ob (op # ops) = step_events ob op @ outbox_history (outbox_step ob op) ops"

definition accepted :: "string \<Rightarrow> outbox_event list \<Rightarrow> string list" where
  "accepted i evs = List.map_filter (\<lambda>ev. case ev of Accepted j k \<Rightarrow> if j = i then Some k else None | _ \<Rightarrow> None) evs"

definition sent :: "string \<Rightarrow> outbox_event list \<Rightarrow> string list" where
  "sent i evs = List.map_filter (\<lambda>ev. case ev of Sent j k \<Rightarrow> if j = i then Some k else None | _ \<Rightarrow> None) evs"

definition dropped :: "outbox_event list \<Rightarrow> string set" where
  "dropped evs = {k. \<exists>j. Dropped j k \<in> set evs}"

text \<open>Only due entries are flushed, as the flusher does.\<close>

fun flushes_due :: "outbox \<Rightarrow> outbox_op list \<Rightarrow> bool" where
  "flushes_due ob [] = True"
| "flushes_due ob (OpFlushed w k # ops) =
     ((\<exists>e now. e \<in> set (Due ob now) \<and> oe_ID e = k) \<and> flushes_due (MarkFlushed w ob k) ops)"
| "flushes_due ob (op # ops) = flushes_due (outbox_step ob op) ops"

lemma map_filter_append: "List.map_filter f (xs @ ys) = List.map_filter f xs @ List.map_filter f ys"
  by (simp add: map_filter_def)

lemma event_lists_append [simp]:
  "accepted i (xs @ ys) = accepted i xs @ accepted i ys" "sent i (xs @ ys) = sent i xs @ sent i ys"
  "dropped (xs @ ys) = dropped xs \<union> dropped ys"
  by (auto simp: accepted_def sent_def dropped_def map_filter_append)

lemma event_lists_single [simp]:
  "accepted i [] = []" "sent i [] = []" "dropped [] = {}"
  "accepted i [Accepted j k] = (if j = i then [k] else [])" "sent i [Accepted j k] = []" "dropped [Accepted j k] = {}"
  "accepted i [Sent j k] = []" "sent i [Sent j k] = (if j = i then [k] else [])" "dropped [Sent j k] = {}"
  "accepted i [Dropped j k] = []" "sent i [Dropped j k] = []" "dropped [Dropped j k] = {k}"
  by (simp_all add: accepted_def sent_def dropped_def map_filter_def)

lemma accepted_new: "k \<in> set (accepted i (outbox_history ob ops)) \<Longrightarrow> k \<in> set (new_ids ops)"
proof (induction ops arbitrary: ob)
  case (Cons op ops)
  then show ?case
    by (cases op) (auto simp: leaves_def accepted_def map_filter_def split: if_splits)
qed simp

lemma dropped_known:
  assumes "fresh_ids ob ops" and "k \<in> dropped (outbox_history ob ops)"
  shows "k \<in> set (entry_ids ob) \<union> set (new_ids ops)"
  using assms
proof (induction ops arbitrary: ob)
  case (Cons op ops)
  note f = fresh_step [OF Cons.prems(1)]
  consider "k \<in> dropped (step_events ob op)" | "k \<in> dropped (outbox_history (outbox_step ob op) ops)"
    using Cons.prems(2) by auto
  then show ?case
  proof cases
    case 1
    then show ?thesis by (cases op) (auto simp: leaves_def dropped_def entry_ids_def split: if_splits)
  next
    case 2
    then have "k \<in> set (entry_ids (outbox_step ob op)) \<union> set (new_ids ops)" by (rule Cons.IH [OF f(1)])
    moreover have "set (new_ids ops) \<subseteq> set (new_ids (op # ops))" by (cases op) auto
    moreover from f(2) have "set (entry_ids (outbox_step ob op)) \<subseteq> set (entry_ids ob) \<union> set (new_ids (op # ops))"
    proof (cases rule: outbox_step_cases [of ob op])
      case (update f k w)
      have "map oe_ID (ob_entries (outbox_step ob op)) = map oe_ID (ob_entries ob)"
        unfolding update(1) using update(2) by (intro map_ids_update) auto
      then show ?thesis by (simp add: entry_ids_def)
    qed (auto simp: entry_ids_def enqueued_as_def)
    ultimately show ?thesis by blast
  qed
qed simp

lemma filter_one_id:
  assumes "distinct (map oe_ID es)" and "e \<in> set es"
  shows "filter (\<lambda>x. oe_ID x = oe_ID e) es = [e]"
  using assms
proof (induction es)
  case (Cons x es)
  then show ?case by (cases "x = e") (auto simp: filter_empty_conv image_iff)
qed simp

definition pending_ids :: "outbox \<Rightarrow> string \<Rightarrow> string list" where
  "pending_ids ob i = map oe_ID (PendingFor ob i)"

lemma pending_removed:
  assumes "ob_entries ob' = filter (\<lambda>e. oe_ID e \<noteq> k) (ob_entries ob)"
  shows "pending_ids ob' i = filter (\<lambda>x. x \<noteq> k) (pending_ids ob i)"
  unfolding pending_ids_def PendingFor_def assms by (simp add: filter_map comp_def conj_commute)

lemma leaves_events:
  assumes "distinct (entry_ids ob)"
  obtains "k \<notin> set (entry_ids ob)" "leaves ev ob k = []"
  | e where "e \<in> set (ob_entries ob)" "oe_ID e = k" "leaves ev ob k = [ev (oe_IssueID e) k]"
proof (cases "k \<in> set (entry_ids ob)")
  case True
  then obtain e where e: "e \<in> set (ob_entries ob)" "oe_ID e = k" by (auto simp: entry_ids_def)
  then show thesis using filter_one_id [OF assms [unfolded entry_ids_def] e(1)] that(2) by (auto simp: leaves_def)
next
  case False
  then show thesis by (intro that(1)) (auto simp: leaves_def entry_ids_def filter_empty_conv)
qed

lemma step_in_order:
  assumes d: "distinct (entry_ids ob)"
    and due: "\<And>w k. op = OpFlushed w k \<Longrightarrow> \<exists>e now. e \<in> set (Due ob now) \<and> oe_ID e = k"
  shows "sent i (step_events ob op) @ pending_ids (outbox_step ob op) i =
    filter (\<lambda>k. k \<notin> dropped (step_events ob op)) (pending_ids ob i @ accepted i (step_events ob op))"
proof (cases op)
  case (OpEnqueue newID newKey w now e)
  show ?thesis
  proof (cases rule: Enqueue_cases [of newID newKey w now ob e])
    case (1 err)
    then show ?thesis using OpEnqueue by simp
  next
    case (2 e')
    then have "outbox_step ob op = fst (persistLocked w (ob\<lparr>ob_entries := ob_entries ob @ [e']\<rparr>))"
      "step_events ob op = [Accepted (oe_IssueID e) newID]" and e': "oe_ID e' = newID" "oe_IssueID e' = oe_IssueID e"
      using OpEnqueue by (auto simp: enqueued_as_def)
    then show ?thesis using e' by (simp add: pending_ids_def PendingFor_def)
  qed
next
  case (OpFlushed w k)
  then obtain e now where e: "e \<in> set (Due ob now)" "oe_ID e = k" using due by blast
  then obtain rest where rest: "PendingFor ob (oe_IssueID e) = e # rest" by (auto simp: Due_iff)
  then have "e \<in> set (PendingFor ob (oe_IssueID e))" by simp
  then have mem: "e \<in> set (ob_entries ob)" by (simp add: PendingFor_def)
  then have ev: "step_events ob op = [Sent (oe_IssueID e) k]"
    using OpFlushed filter_one_id [OF d [unfolded entry_ids_def] mem] e(2) by (simp add: leaves_def)
  have pend: "pending_ids (outbox_step ob op) i = filter (\<lambda>x. x \<noteq> k) (pending_ids ob i)"
    using OpFlushed removed_entries(1) [OF d] by (intro pending_removed) simp
  show ?thesis
  proof (cases "oe_IssueID e = i")
    case True
    then have "pending_ids ob i = k # map oe_ID rest" using rest e(2) by (simp add: pending_ids_def)
    moreover have "distinct (pending_ids ob i)"
      using d by (simp add: pending_ids_def PendingFor_def entry_ids_def distinct_map_filter)
    ultimately show ?thesis using True by (auto simp: ev pend filter_id_conv)
  next
    case False
    have "k \<notin> set (pending_ids ob i)"
    proof
      assume "k \<in> set (pending_ids ob i)"
      then obtain e2 where "e2 \<in> set (ob_entries ob)" "oe_ID e2 = k" "oe_IssueID e2 = i"
        by (auto simp: pending_ids_def PendingFor_def)
      then have "e2 = e" using d mem e(2) by (auto simp: entry_ids_def distinct_map dest: inj_onD)
      with \<open>oe_IssueID e2 = i\<close> False show False by simp
    qed
    then show ?thesis using False by (auto simp: ev pend filter_id_conv)
  qed
next
  case (OpDrop w k)
  have pend: "pending_ids (outbox_step ob op) i = filter (\<lambda>x. x \<noteq> k) (pending_ids ob i)"
    using OpDrop removed_entries(2) [OF d] by (intro pending_removed) simp
  from d show ?thesis
  proof (cases rule: leaves_events [where ob = ob and k = k and ev = Dropped])
    case 1
    then have "k \<notin> set (pending_ids ob i)" by (auto simp: pending_ids_def PendingFor_def entry_ids_def)
    then have "filter (\<lambda>x. x \<noteq> k) (pending_ids ob i) = pending_ids ob i" by (auto simp: filter_id_conv)
    then show ?thesis unfolding pend using OpDrop 1 by simp
  next
    case (2 e)
    then show ?thesis unfolding pend using OpDrop by simp
  qed
next
  case (OpFailed j w k err now)
  then show ?thesis using updated_entries(1) [OF d, of j w k err now]
    by (simp add: pending_ids_def PendingFor_def filter_map comp_def if_distrib [of oe_ID] if_distrib [of oe_IssueID]
        cong: if_cong)
next
  case (OpRetry w now k)
  then show ?thesis using updated_entries(2) [OF d, of w now k]
    by (simp add: pending_ids_def PendingFor_def filter_map comp_def if_distrib [of oe_ID] if_distrib [of oe_IssueID]
        cong: if_cong)
qed

lemma sent_leaves: "k \<in> set (sent i (step_events ob op)) \<Longrightarrow> distinct (entry_ids ob) \<Longrightarrow>
    k \<in> set (entry_ids ob) \<and> k \<notin> set (entry_ids (outbox_step ob op))"
  by (cases op) (auto simp: leaves_def sent_def map_filter_def entry_ids_def removed_entries split: if_splits)

lemma dropped_step: "k \<in> dropped (step_events ob op) \<Longrightarrow> k \<in> set (entry_ids ob)"
  by (cases op) (auto simp: leaves_def dropped_def entry_ids_def split: if_splits)

section \<open>Properties\<close>

text \<open>
  C18. Writes of one issue reach the tracker in the order in which they were accepted. In any run of
  operations that flushes only due entries, the writes already sent for an issue, followed by those
  still pending, are exactly the pending and accepted ones in their order, less the dropped ones.
\<close>

theorem outbox_delivers_in_order:
  assumes "fresh_ids ob ops" and "flushes_due ob ops"
  shows "let evs = outbox_history ob ops in
    sent i evs @ pending_ids (foldl outbox_step ob ops) i =
      filter (\<lambda>k. k \<notin> dropped evs) (pending_ids ob i @ accepted i evs)"
  using assms
proof (induction ops arbitrary: ob)
  case (Cons op ops)
  let ?ob = "outbox_step ob op" and ?e = "step_events ob op"
  let ?h = "outbox_history ?ob ops"
  note f = fresh_step [OF Cons.prems(1)]
  have step: "sent i ?e @ pending_ids ?ob i = filter (\<lambda>k. k \<notin> dropped ?e) (pending_ids ob i @ accepted i ?e)"
    using Cons.prems(2) by (intro step_in_order [OF f(2)]) auto
  have "flushes_due ?ob ops" using Cons.prems(2) by (cases op) simp_all
  from Cons.IH [OF f(1) this]
  have rest: "sent i ?h @ pending_ids (foldl outbox_step ?ob ops) i =
      filter (\<lambda>k. k \<notin> dropped ?h) (pending_ids ?ob i) @ filter (\<lambda>k. k \<notin> dropped ?h) (accepted i ?h)"
    by (simp add: Let_def)
  have gone: "k \<notin> dropped ?h" if "k \<in> set (sent i ?e)" for k
  proof
    assume "k \<in> dropped ?h"
    with dropped_known [OF f(1)] have "k \<in> set (entry_ids ?ob) \<union> set (new_ids ops)" .
    moreover have "k \<in> set (entry_ids ob)" "k \<notin> set (entry_ids ?ob)" using sent_leaves [OF that f(2)] by simp_all
    moreover have "set (new_ids ops) \<subseteq> set (new_ids (op # ops))" by (cases op) auto
    ultimately show False using Cons.prems(1) by (auto simp: fresh_ids_def)
  qed
  have s: "filter (\<lambda>k. k \<notin> dropped ?h) (sent i ?e) = sent i ?e" using gone by (simp add: filter_id_conv)
  have a: "filter (\<lambda>k. k \<notin> dropped ?e \<and> k \<notin> dropped ?h) (accepted i ?h) = filter (\<lambda>k. k \<notin> dropped ?h) (accepted i ?h)"
  proof (rule filter_cong [OF refl])
    fix k assume "k \<in> set (accepted i ?h)"
    then have "k \<in> set (new_ids ops)" by (rule accepted_new)
    moreover have "set (new_ids ops) \<subseteq> set (new_ids (op # ops))" by (cases op) auto
    ultimately have "k \<notin> dropped ?e" using dropped_step [of k ob op] Cons.prems(1) by (auto simp: fresh_ids_def)
    then show "(k \<notin> dropped ?e \<and> k \<notin> dropped ?h) = (k \<notin> dropped ?h)" by simp
  qed
  have "sent i ?e @ filter (\<lambda>k. k \<notin> dropped ?h) (pending_ids ?ob i) =
      filter (\<lambda>k. k \<notin> dropped ?h) (sent i ?e @ pending_ids ?ob i)" by (simp add: s)
  also have "\<dots> = filter (\<lambda>k. k \<notin> dropped ?e \<and> k \<notin> dropped ?h) (pending_ids ob i @ accepted i ?e)"
    unfolding step by (simp add: filter_filter conj_commute)
  finally show ?case using rest a by (simp add: Let_def)
qed (simp add: fresh_ids_def)

definition ex_entry :: "string \<Rightarrow> string \<Rightarrow> string \<Rightarrow> outbox_entry" where
  "ex_entry issue from target = \<lparr>oe_ID = [], oe_Kind = KindUpdateState, oe_IssueID = issue, oe_Identifier = issue,
     oe_TargetState = target, oe_FromState = from, oe_Body = [], oe_CommentKey = [], oe_EnqueuedAt = 0, oe_Attempts = 0,
     oe_LastError = [], oe_NextAttemptAt = 0, oe_RateLimitedAttempts = 0, oe_RateLimitedUntil = 0, oe_LastFailedAt = 0\<rparr>"

definition ex_outbox :: outbox where
  "ex_outbox = \<lparr>ob_path = ''outbox.json'', ob_entries = [], ob_disk = None\<rparr>"

definition ex_ops :: "outbox_op list" where
  "ex_ops = [OpEnqueue ''1'' (Inl ''x'') None 10 (ex_entry ''A'' ''Todo'' ''Done''),
     OpEnqueue ''2'' (Inl ''x'') None 11 (ex_entry ''A'' ''Done'' ''Review''),
     OpFailed 0 (Some ''disk full'') ''1'' (OtherError ''timeout'') 12,
     OpFlushed None ''1'']"

theorem outbox_delivers_in_order_witness:
  "sent ''A'' (outbox_history ex_outbox ex_ops) @ pending_ids (foldl outbox_step ex_outbox ex_ops) ''A'' = [''1'', ''2'']"
proof -
  let ?ob = "foldl outbox_step ex_outbox (take 3 ex_ops)"
  have "fresh_ids ex_outbox ex_ops" by (simp add: fresh_ids_def ex_outbox_def ex_ops_def entry_ids_def)
  moreover have "ob_entries ?ob ! 0 \<in> set (Due ?ob (100 * second)) \<and> oe_ID (ob_entries ?ob ! 0) = ''1''" by code_simp
  then have "flushes_due ex_outbox ex_ops" unfolding ex_ops_def by auto
  ultimately have "let evs = outbox_history ex_outbox ex_ops in
      sent ''A'' evs @ pending_ids (foldl outbox_step ex_outbox ex_ops) ''A'' =
        filter (\<lambda>k. k \<notin> dropped evs) (pending_ids ex_outbox ''A'' @ accepted ''A'' evs)"
    by (rule outbox_delivers_in_order)
  moreover have "outbox_history ex_outbox ex_ops = [Accepted ''A'' ''1'', Accepted ''A'' ''2'', Sent ''A'' ''1'']"
    by code_simp
  moreover have "pending_ids ex_outbox ''A'' = []" by code_simp
  ultimately show ?thesis by (simp add: accepted_def dropped_def map_filter_def)
qed

text \<open>The write an entry stands for; attempts and errors may change, the write never does.\<close>

definition carries :: "outbox_entry \<Rightarrow> outbox_entry \<Rightarrow> bool" where
  "carries e e' \<longleftrightarrow> oe_ID e' = oe_ID e \<and> oe_Kind e' = oe_Kind e \<and> oe_IssueID e' = oe_IssueID e \<and>
     oe_Identifier e' = oe_Identifier e \<and> oe_TargetState e' = oe_TargetState e \<and> oe_FromState e' = oe_FromState e \<and>
     oe_Body e' = oe_Body e \<and> oe_CommentKey e' = oe_CommentKey e \<and> oe_EnqueuedAt e' = oe_EnqueuedAt e"

lemma carries_refl [simp]: "carries e e"
  by (simp add: carries_def)

lemma carries_loadable: "carries e e' \<Longrightarrow> loadable e' = loadable e \<and> needs_key e' = needs_key e"
  by (simp add: carries_def loadable_def needs_key_def validateEntry_def)

lemma New_keeps:
  assumes "e \<in> set es" and "loadable e" and "\<not> needs_key e" and "path \<noteq> []"
  shows "e \<in> set (ob_entries (New lk w path (FileParsed es)))"
proof -
  have "backfill lk e = e" using assms(3) by (simp add: backfill_def)
  then have "e \<in> backfill lk ` {x \<in> set es. loadable x}" using assms(1,2) by force
  then show ?thesis using assms(4) by (simp add: New_def Let_def)
qed

fun keeps_write :: "string \<Rightarrow> outbox_op \<Rightarrow> bool" where
  "keeps_write k (OpFlushed w k') = (k' \<noteq> k)"
| "keeps_write k (OpDrop w k') = (k' \<noteq> k)"
| "keeps_write k _ = True"

lemma step_path [simp]: "ob_path (outbox_step ob op) = ob_path ob"
proof (cases op)
  case (OpEnqueue newID newKey w now e)
  then show ?thesis by (cases rule: Enqueue_cases [of newID newKey w now ob e]) simp_all
qed (simp_all add: MarkFlushed_def MarkFailed_def Drop_def RetryNow_def split: option.split)

lemma step_disk: "ob_disk (outbox_step ob op) \<in> {ob_disk ob, Some (ob_entries (outbox_step ob op))}"
proof (cases op)
  case (OpEnqueue newID newKey w now e)
  then show ?thesis by (cases rule: Enqueue_cases [of newID newKey w now ob e]) (simp_all add: persist_disk)
qed (auto simp: MarkFlushed_def MarkFailed_def Drop_def RetryNow_def persist_disk split: option.split)

lemma step_carries:
  assumes "distinct (entry_ids ob)" and "keeps_write (oe_ID e) op"
    and "e1 \<in> set (ob_entries ob)" and "carries e e1"
  shows "\<exists>e2 \<in> set (ob_entries (outbox_step ob op)). carries e e2"
  using assms(1)
proof (cases rule: outbox_step_cases [of ob op])
  case (update f k w)
  then have "carries e (if oe_ID e1 = k then f e1 else e1)" using assms(4) by (auto simp: carries_def)
  moreover have "(if oe_ID e1 = k then f e1 else e1) \<in> set (ob_entries (outbox_step ob op))"
    unfolding update(1) set_map using assms(3) by (rule imageI [of e1 _ "\<lambda>e. if oe_ID e = k then f e else e"])
  ultimately show ?thesis by blast
next
  case (remove w k)
  then show ?thesis using assms(2,3,4) by (auto simp: carries_def)
qed (use assms(3,4) in auto)

lemma run_carries:
  assumes "fresh_ids ob ops" and "list_all (keeps_write (oe_ID e)) ops"
    and "\<exists>e1 \<in> set (ob_entries ob). carries e e1" and "\<exists>es. ob_disk ob = Some es \<and> (\<exists>e1 \<in> set es. carries e e1)"
  shows "(\<exists>e1 \<in> set (ob_entries (foldl outbox_step ob ops)). carries e e1) \<and>
    (\<exists>es. ob_disk (foldl outbox_step ob ops) = Some es \<and> (\<exists>e1 \<in> set es. carries e e1))"
  using assms
proof (induction ops arbitrary: ob)
  case (Cons op ops)
  note f = fresh_step [OF Cons.prems(1)]
  have mem: "\<exists>e1 \<in> set (ob_entries (outbox_step ob op)). carries e e1"
    using Cons.prems(2,3) step_carries [OF f(2)] by auto
  have "\<exists>es. ob_disk (outbox_step ob op) = Some es \<and> (\<exists>e1 \<in> set es. carries e e1)"
    using step_disk [of ob op] Cons.prems(4) mem by auto
  with mem show ?case using Cons.IH [OF f(1)] Cons.prems(2) by simp
qed simp

text \<open>
  C19. An accepted write is not lost. Once an enqueue succeeds, whatever operations follow and
  whichever of their file writes fail, the entry is still in memory with its write unchanged until
  it is itself flushed or dropped, and a restart from the file brings it back.
\<close>

theorem outbox_write_survives:
  assumes "Enqueue newID newKey w now ob e = (ob1, None)" and "ob_path ob \<noteq> []" and "newID \<noteq> []" and "newKey \<noteq> Inr []"
    and "fresh_ids ob1 ops" and "list_all (keeps_write newID) ops"
  shows "\<exists>e1 es. (\<exists>key. e1 = e\<lparr>oe_ID := newID, oe_EnqueuedAt := now, oe_Attempts := 0, oe_LastError := [],
        oe_NextAttemptAt := now, oe_CommentKey := key\<rparr>)
    \<and> (\<exists>e2 \<in> set (ob_entries (foldl outbox_step ob1 ops)). carries e1 e2)
    \<and> ob_disk (foldl outbox_step ob1 ops) = Some es
    \<and> (\<exists>e3 \<in> set (ob_entries (New lk w' (ob_path ob) (FileParsed es))). carries e1 e3)"
proof (cases rule: Enqueue_cases [of newID newKey w now ob e])
  case (1 err)
  then show ?thesis using assms(1) by simp
next
  case (2 e1)
  let ?ob = "foldl outbox_step ob1 ops"
  have ob1: "ob_entries ob1 = ob_entries ob @ [e1]" "ob_disk ob1 = Some (ob_entries ob @ [e1])"
    using 2(2,3) assms(1,2) by (auto simp: persist_disk)
  obtain key where e1: "e1 = e\<lparr>oe_ID := newID, oe_EnqueuedAt := now, oe_Attempts := 0, oe_LastError := [],
      oe_NextAttemptAt := now, oe_CommentKey := key\<rparr>" and k: "if needs_key e then newKey = Inr key else key = oe_CommentKey e"
    and v: "validateEntry e = None" using 2(1) by (auto simp: enqueued_as_def)
  have good: "loadable e1" "\<not> needs_key e1"
    using v k assms(3,4) unfolding e1
    by (auto simp: loadable_def validateEntry_def needs_key_def split: if_splits)
  have "list_all (keeps_write (oe_ID e1)) ops" using assms(6) by (simp add: e1)
  from run_carries [OF assms(5) this] ob1
  obtain e2 es e3 where r: "e2 \<in> set (ob_entries ?ob)" "carries e1 e2" "ob_disk ?ob = Some es" "e3 \<in> set es" "carries e1 e3"
    by auto
  have "e3 \<in> set (ob_entries (New lk w' (ob_path ob) (FileParsed es)))"
    using carries_loadable [OF r(5)] good by (intro New_keeps [OF r(4) _ _ assms(2)]) simp_all
  with r e1 show ?thesis by blast
qed

theorem outbox_write_survives_witness:
  "\<exists>e2 \<in> set (ob_entries (foldl outbox_step ex_outbox (take 3 ex_ops))). oe_TargetState e2 = ''Done''"
proof -
  let ?ob1 = "outbox_step ex_outbox (ex_ops ! 0)" and ?ops = "[ex_ops ! 1, ex_ops ! 2]"
  have enq: "Enqueue ''1'' (Inl ''x'') None 10 ex_outbox (ex_entry ''A'' ''Todo'' ''Done'') = (?ob1, None)"
    by (simp add: ex_ops_def Enqueue_def persistLocked_def ex_outbox_def ex_entry_def validateEntry_def needs_key_def outbox_consts Let_def)
  have "ob_path ex_outbox \<noteq> []" "fresh_ids ?ob1 ?ops" "list_all (keeps_write ''1'') ?ops" by code_simp+
  from outbox_write_survives [OF enq this(1) _ _ this(2,3), of id None]
  have "\<exists>e2 \<in> set (ob_entries (foldl outbox_step ?ob1 ?ops)). oe_TargetState e2 = ''Done''"
    by (force simp: carries_def ex_entry_def)
  then show ?thesis by (simp add: ex_ops_def)
qed

lemma backoff_bounds: "0 < backoffFor n \<and> backoffFor n \<le> backoffCap"
  by (simp add: backoffFor_def Let_def backoffCap_def duration_defs)

fun timed_by :: "time \<Rightarrow> outbox_op \<Rightarrow> bool" where
  "timed_by T (OpEnqueue newID newKey w now e) = (now \<le> T)"
| "timed_by T (OpFailed j w k err now) = (now \<le> T \<and> 0 \<le> j \<and> j < rateLimitJitterMax)"
| "timed_by T (OpRetry w now k) = (now \<le> T)"
| "timed_by T _ = True"

definition longest_wait :: duration where
  "longest_wait = maxRateLimitedWindow + rateLimitJitterMax"

lemma fail_entry_wait:
  assumes "now \<le> T" and "j < rateLimitJitterMax"
  shows "oe_NextAttemptAt (fail_entry j err now e) \<le> T + longest_wait"
proof -
  have "backoffFor n \<le> longest_wait" for n
    using backoff_bounds [of n] by (simp add: longest_wait_def backoffCap_def maxRateLimitedWindow_def rateLimitJitterMax_def duration_defs)
  from this [of "oe_Attempts e + 1"] assms show ?thesis
    by (auto simp: fail_entry_def Let_def longest_wait_def split: flush_error.split)
qed

lemma waits_bounded:
  assumes "fresh_ids ob ops" and "list_all (timed_by T) ops"
    and "\<forall>e \<in> set (ob_entries ob). oe_NextAttemptAt e \<le> T + longest_wait"
  shows "\<forall>e \<in> set (ob_entries (foldl outbox_step ob ops)). oe_NextAttemptAt e \<le> T + longest_wait"
  using assms
proof (induction ops arbitrary: ob)
  case (Cons op ops)
  note f = fresh_step [OF Cons.prems(1)]
  have pos: "0 \<le> longest_wait"
    by (simp add: longest_wait_def maxRateLimitedWindow_def rateLimitJitterMax_def duration_defs)
  from f(2) have "\<forall>e \<in> set (ob_entries (outbox_step ob op)). oe_NextAttemptAt e \<le> T + longest_wait"
  proof (cases rule: outbox_step_cases [of ob op])
    case (append newID newKey w now e e')
    then show ?thesis using Cons.prems(2,3) pos by (auto simp: enqueued_as_def)
  next
    case (update f k w)
    show ?thesis unfolding update(1) using update(2) Cons.prems(2,3) pos fail_entry_wait by auto
  qed (use Cons.prems(3) in auto)
  then show ?case using Cons.IH [OF f(1)] Cons.prems(2) by simp
qed simp

text \<open>
  C21. The outbox never gets stuck. Starting empty, after any run of operations whose clock readings
  do not exceed \<open>T\<close>, the head of every issue with pending writes is due at any time at least two
  hours and five seconds after \<open>T\<close>, however often it failed and whatever reset the tracker
  announced; and nothing but heads is ever due.
\<close>

theorem outbox_never_stuck:
  assumes "ob_entries ob = []" and "fresh_ids ob ops" and "list_all (timed_by T) ops"
    and "T + 2 * hour + 5 * second \<le> now" and "ob' = foldl outbox_step ob ops"
  shows "set (Due ob' now) = {e. \<exists>i rest. PendingFor ob' i = e # rest}"
proof -
  have w: "\<forall>e \<in> set (ob_entries ob'). oe_NextAttemptAt e \<le> now"
    using waits_bounded [OF assms(2,3)] assms(1,4,5)
    by (fastforce simp: longest_wait_def maxRateLimitedWindow_def rateLimitJitterMax_def)
  have mem: "e \<in> set (ob_entries ob') \<and> oe_IssueID e = i" if "PendingFor ob' i = e # rest" for e i rest
  proof -
    have "e \<in> set (PendingFor ob' i)" using that by simp
    then show ?thesis by (simp add: PendingFor_def)
  qed
  show ?thesis using w mem by (fastforce simp: Due_iff)
qed

theorem outbox_never_stuck_witness:
  "map oe_ID (Due (foldl outbox_step ex_outbox (take 3 ex_ops)) (3 * hour)) = [''1''] \<and>
   set (Due (foldl outbox_step ex_outbox (take 3 ex_ops)) (3 * hour)) =
     {e. \<exists>i rest. PendingFor (foldl outbox_step ex_outbox (take 3 ex_ops)) i = e # rest}"
proof
  show "map oe_ID (Due (foldl outbox_step ex_outbox (take 3 ex_ops)) (3 * hour)) = [''1'']" by code_simp
  have "ob_entries ex_outbox = []" "fresh_ids ex_outbox (take 3 ex_ops)" "list_all (timed_by 12) (take 3 ex_ops)"
    "12 + 2 * hour + 5 * second \<le> 3 * hour" by code_simp+
  then show "set (Due (foldl outbox_step ex_outbox (take 3 ex_ops)) (3 * hour)) =
     {e. \<exists>i rest. PendingFor (foldl outbox_step ex_outbox (take 3 ex_ops)) i = e # rest}"
    by (rule outbox_never_stuck [OF _ _ _ _ refl])
qed

text \<open>
  C22. Reconciliation judges each pending transition on its own. When an earlier transition of the
  issue still waits to be delivered and a later one asks for the state the issue is in now, the later
  one is dropped as already applied, and the overlay and the delivery fall back to the earlier,
  outdated target: the issue ends where the last request did not want it.
\<close>

theorem reconcile_drops_last_intent:
  assumes "PendingFor ob (is_ID issue) = [e1, e2]" and "distinct (entry_ids ob)"
    and "oe_Kind e1 = KindUpdateState" and "oe_Kind e2 = KindUpdateState"
    and "oe_FromState e1 = is_State issue" and "oe_TargetState e1 \<noteq> is_State issue" and "oe_TargetState e2 = is_State issue"
  shows "lastPendingUpdateStateTarget (PendingFor ob (is_ID issue)) = Some (is_State issue)
    \<and> PendingFor (reconcilePendingOutboxEntries writes ob issue) (is_ID issue) = [e1]
    \<and> lastPendingUpdateStateTarget (PendingFor (reconcilePendingOutboxEntries writes ob issue) (is_ID issue)) =
        Some (oe_TargetState e1)"
proof -
  have keep: "\<not> fst (ReconcileVerdict e1 (is_State issue) (is_UpdatedAt issue))"
    using assms(5,6) by (auto simp: ReconcileVerdict_def supersededByTracker_def split: option.split)
  have drop: "fst (ReconcileVerdict e2 (is_State issue) (is_UpdatedAt issue))"
    using assms(7) by (simp add: ReconcileVerdict_def)
  have rec: "reconcilePendingOutboxEntries writes ob issue = Drop (writes (oe_ID e2)) ob (oe_ID e2)"
    using assms(1,3,4) keep drop by (simp add: reconcilePendingOutboxEntries_def reconcile_entry_def)
  have "distinct (map oe_ID (PendingFor ob (is_ID issue)))"
    using assms(2) by (simp add: PendingFor_def entry_ids_def distinct_map_filter)
  then have ne: "oe_ID e1 \<noteq> oe_ID e2" using assms(1) by simp
  have "PendingFor (Drop (writes (oe_ID e2)) ob (oe_ID e2)) (is_ID issue) =
      filter (\<lambda>e. oe_ID e \<noteq> oe_ID e2) (PendingFor ob (is_ID issue))"
    by (simp add: PendingFor_def removed_entries(2) [OF assms(2)] conj_commute)
  with ne have left: "PendingFor (reconcilePendingOutboxEntries writes ob issue) (is_ID issue) = [e1]"
    using assms(1) by (simp add: rec)
  show ?thesis unfolding left assms(1) using assms(3,4,7) by (simp add: lastPendingUpdateStateTarget_def)
qed

theorem reconcile_drops_last_intent_witness:
  "\<exists>ob. lastPendingUpdateStateTarget (PendingFor ob ''id-A'') = Some ''Todo'' \<and>
     lastPendingUpdateStateTarget (PendingFor (reconcilePendingOutboxEntries (\<lambda>_. None) ob (ex_issue ''A'')) ''id-A'') =
       Some ''In Progress''"
proof -
  let ?e1 = "(ex_entry ''id-A'' ''Todo'' ''In Progress'')\<lparr>oe_ID := ''1''\<rparr>"
  let ?e2 = "(ex_entry ''id-A'' ''In Progress'' ''Todo'')\<lparr>oe_ID := ''2''\<rparr>"
  let ?ob = "ex_outbox\<lparr>ob_entries := [?e1, ?e2]\<rparr>"
  have i: "is_ID (ex_issue ''A'') = ''id-A''" "is_State (ex_issue ''A'') = ''Todo''" by code_simp+
  have "PendingFor ?ob (is_ID (ex_issue ''A'')) = [?e1, ?e2]" "distinct (entry_ids ?ob)"
    by (simp_all add: PendingFor_def entry_ids_def ex_outbox_def ex_entry_def i)
  moreover have "oe_Kind ?e1 = KindUpdateState" "oe_Kind ?e2 = KindUpdateState" "oe_FromState ?e1 = is_State (ex_issue ''A'')"
    "oe_TargetState ?e1 \<noteq> is_State (ex_issue ''A'')" "oe_TargetState ?e2 = is_State (ex_issue ''A'')"
    and t: "oe_TargetState ?e1 = ''In Progress''" by (simp_all add: ex_entry_def i)
  ultimately show ?thesis
    using reconcile_drops_last_intent [of ?ob "ex_issue ''A''" ?e1 ?e2 "\<lambda>_. None"] unfolding i t by blast
qed

end
