(* ===== verification/Managed_Comments.thy ===== *)
theory Managed_Comments
  imports Orch_State
begin

text \<open>
  Comments Itervox writes to the tracker (\<open>internal/tracker/managed_comments.go\<close>): the hidden
  marker of managed comments and the hidden idempotency key, and the in-memory tracker
  (\<open>internal/tracker/memory.go\<close>) that stores them.
\<close>

section \<open>Markers\<close>

fun contains :: "string \<Rightarrow> string \<Rightarrow> bool" where
  "contains [] sub = (sub = [])"
| "contains (c # s) sub = (has_prefix (c # s) sub \<or> contains s sub)"

definition ManagedCommentMarker :: string where
  "ManagedCommentMarker = ''<!-- itervox:managed -->''"

definition commentKeyMarkerPrefix :: string where
  "commentKeyMarkerPrefix = ''<!-- itervox:ck:''"

definition blank_line :: string where
  "blank_line = [CHR 0x0A, CHR 0x0A]"

definition MarkManagedComment :: "string \<Rightarrow> string" where
  "MarkManagedComment body =
     (let trimmed = trim_space body
      in if trimmed = [] \<or> contains trimmed ManagedCommentMarker then trimmed
         else trimmed @ blank_line @ ManagedCommentMarker)"

definition IsManagedComment :: "comment \<Rightarrow> bool" where
  "IsManagedComment c = contains (cm_Body c) ManagedCommentMarker"

definition CommentKeyMarker :: "string \<Rightarrow> string" where
  "CommentKeyMarker key = commentKeyMarkerPrefix @ key @ '' -->''"

definition MarkCommentKey :: "string \<Rightarrow> string \<Rightarrow> string" where
  "MarkCommentKey body key =
     (if key = [] then body
      else let marker = CommentKeyMarker key
           in if contains body marker then body else trim_space body @ blank_line @ marker)"

definition CommentHasKey :: "string \<Rightarrow> string \<Rightarrow> bool" where
  "CommentHasKey body key = (if key = [] then False else contains body (CommentKeyMarker key))"

section \<open>The in-memory tracker\<close>

record memory_tracker =
  mt_issues :: "issue list"
  mt_injectedError :: "string option"
  mt_nextCommentID :: int

fun update_first :: "('a \<Rightarrow> bool) \<Rightarrow> ('a \<Rightarrow> 'a) \<Rightarrow> 'a list \<Rightarrow> 'a list" where
  "update_first P f [] = []"
| "update_first P f (x # xs) = (if P x then f x # xs else x # update_first P f xs)"

definition mem_SetIssueState :: "memory_tracker \<Rightarrow> string \<Rightarrow> string \<Rightarrow> memory_tracker" where
  "mem_SetIssueState m k st =
     m\<lparr>mt_issues := update_first (\<lambda>i. is_ID i = k) (\<lambda>i. i\<lparr>is_State := st\<rparr>) (mt_issues m)\<rparr>"

definition mem_UpdateIssueState :: "memory_tracker \<Rightarrow> string \<Rightarrow> string \<Rightarrow> memory_tracker" where
  "mem_UpdateIssueState m k st = mem_SetIssueState m k st"

definition mem_FetchIssueStatesByIDs :: "memory_tracker \<Rightarrow> string list \<Rightarrow> string + issue list" where
  "mem_FetchIssueStatesByIDs m ids =
     (if ids = [] then Inr []
      else case mt_injectedError m of
        Some err \<Rightarrow> Inl err
      | None \<Rightarrow> Inr (filter (\<lambda>i. is_ID i \<in> set ids) (mt_issues m)))"

definition mem_CreateComment :: "memory_tracker \<Rightarrow> string \<Rightarrow> string \<Rightarrow> memory_tracker \<times> comment" where
  "mem_CreateComment m issueID body =
     (let n = mt_nextCommentID m + 1;
          c = \<lparr>cm_ID = ''memory-comment-'' @ itoa n, cm_Body = body, cm_CreatedAt = None,
               cm_AuthorID = ''memory-tracker'', cm_AuthorName = ''Itervox''\<rparr>
      in (m\<lparr>mt_nextCommentID := n,
            mt_issues := update_first (\<lambda>i. is_ID i = issueID) (\<lambda>i. i\<lparr>is_Comments := is_Comments i @ [c]\<rparr>) (mt_issues m)\<rparr>, c))"

definition mem_CreateCommentWithKey :: "memory_tracker \<Rightarrow> string \<Rightarrow> string \<Rightarrow> string \<Rightarrow> memory_tracker \<times> comment" where
  "mem_CreateCommentWithKey m issueID key body = mem_CreateComment m issueID (MarkCommentKey body key)"

definition mem_FindCommentByKey :: "memory_tracker \<Rightarrow> string \<Rightarrow> string \<Rightarrow> comment option" where
  "mem_FindCommentByKey m issueID key =
     List.find (\<lambda>c. CommentHasKey (cm_Body c) key)
       (concat (map is_Comments (filter (\<lambda>i. is_ID i = issueID) (mt_issues m))))"

section \<open>Lemmas\<close>

lemma contains_iff: "contains s sub \<longleftrightarrow> (\<exists>u v. s = u @ sub @ v)"
proof (induction s)
  case (Cons c s)
  have "has_prefix (c # s) sub \<longleftrightarrow> (\<exists>v. c # s = sub @ v)"
    by (auto simp: has_prefix_def) (metis append_take_drop_id)
  moreover have "(\<exists>u v. c # s = u @ sub @ v) \<longleftrightarrow> (\<exists>v. c # s = sub @ v) \<or> (\<exists>u v. s = u @ sub @ v)"
    by (metis append_Cons append_Nil list.exhaust list.inject)
  ultimately show ?case using Cons.IH by simp
qed auto

lemma contains_self: "contains (u @ s @ v) s"
  unfolding contains_iff by blast

lemma contains_trans: "contains s t \<Longrightarrow> contains t r \<Longrightarrow> contains s r"
  unfolding contains_iff by (metis append.assoc)

lemma contains_trim: "contains (trim_space s) t \<Longrightarrow> contains s t"
proof -
  let ?l = "dropWhile is_space s"
  have s: "s = takeWhile is_space s @ ?l" by simp
  have "rev ?l = takeWhile is_space (rev ?l) @ dropWhile is_space (rev ?l)" by simp
  then have "?l = trim_space s @ rev (takeWhile is_space (rev ?l))"
    unfolding trim_space_def by (metis rev_append rev_rev_ident)
  with s have "contains s (trim_space s)" unfolding contains_iff by metis
  then show "contains (trim_space s) t \<Longrightarrow> contains s t" by (rule contains_trans)
qed

text \<open>A pattern without the separator lies on one side of it.\<close>

lemma contains_split:
  assumes "x \<notin> set t"
  shows "contains (a @ x # b) t \<Longrightarrow> contains a t \<or> contains b t"
proof -
  assume "contains (a @ x # b) t"
  then obtain u v where e: "a @ x # b = u @ t @ v" by (auto simp: contains_iff)
  from e consider w where "u = a @ w" "w @ t @ v = x # b" | w where "a = u @ w" "w @ x # b = t @ v"
    by (auto simp: append_eq_append_conv2)
  then show ?thesis
  proof cases
    case 1
    then show ?thesis
    proof (cases w)
      case Nil
      then show ?thesis using 1 assms by (cases t) (auto simp: contains_iff)
    next
      case (Cons y w')
      then have "b = w' @ t @ v" using 1 by simp
      then show ?thesis by (auto simp: contains_iff)
    qed
  next
    case 2
    then obtain z where "w = t @ z \<or> t = w @ z \<and> x # b = z @ v" by (auto simp: append_eq_append_conv2)
    then show ?thesis
    proof
      assume "w = t @ z"
      then show ?thesis using 2 by (auto simp: contains_iff)
    next
      assume z: "t = w @ z \<and> x # b = z @ v"
      then have "z = []" using assms by (cases z) auto
      then have "a = u @ t @ []" using z 2 by simp
      then show ?thesis unfolding contains_iff by blast
    qed
  qed
qed

text \<open>Keys as \<open>NewCommentKey\<close> makes them, hexadecimal digits and hyphens, qualify.\<close>

definition key_ok :: "string \<Rightarrow> bool" where
  "key_ok k \<longleftrightarrow> k \<noteq> [] \<and> set k \<inter> {CHR ''<'', CHR '' '', CHR 0x0A} = {}"

lemma marker_no_newline: "key_ok k \<Longrightarrow> CHR 0x0A \<notin> set (CommentKeyMarker k)"
  by (auto simp: key_ok_def CommentKeyMarker_def commentKeyMarkerPrefix_def)

lemma marker_in_marker:
  assumes "key_ok k" and "key_ok k'" and "contains (CommentKeyMarker k) (CommentKeyMarker k')"
  shows "k' = k"
proof -
  obtain u v where e: "CommentKeyMarker k = u @ CommentKeyMarker k' @ v" using assms(3) by (auto simp: contains_iff)
  have "u = []"
  proof (rule ccontr)
    assume "u \<noteq> []"
    then have "CHR ''<'' \<in> set (tl (CommentKeyMarker k))"
      unfolding e by (cases u) (simp_all add: CommentKeyMarker_def commentKeyMarkerPrefix_def)
    then show False using assms(1) by (simp add: CommentKeyMarker_def commentKeyMarkerPrefix_def key_ok_def)
  qed
  with e have "k @ '' -->'' = k' @ '' -->'' @ v" by (simp add: CommentKeyMarker_def)
  then have "takeWhile (\<lambda>c. c \<noteq> CHR '' '') (k @ '' -->'') = takeWhile (\<lambda>c. c \<noteq> CHR '' '') (k' @ '' -->'' @ v)" by simp
  moreover have "\<forall>c \<in> set k. c \<noteq> CHR '' ''" "\<forall>c \<in> set k'. c \<noteq> CHR '' ''" using assms(1,2) by (auto simp: key_ok_def)
  ultimately show ?thesis by (simp add: takeWhile_append2)
qed

lemma marked_has_key: "key \<noteq> [] \<Longrightarrow> CommentHasKey (MarkCommentKey body key) key"
  using contains_self [of "trim_space body @ blank_line" "CommentKeyMarker key" "[]"]
  by (simp add: CommentHasKey_def MarkCommentKey_def Let_def)

lemma marked_other_key:
  assumes "key_ok key" and "key_ok k" and "k \<noteq> key" and "CommentHasKey (MarkCommentKey body key) k"
  shows "CommentHasKey body k"
proof -
  let ?nl = "CHR 0x0A"
  have k: "k \<noteq> []" "key \<noteq> []" using assms(1,2) by (auto simp: key_ok_def)
  show ?thesis
  proof (cases "contains body (CommentKeyMarker key)")
    case True
    then show ?thesis using assms(4) k by (simp add: MarkCommentKey_def)
  next
    case False
    then have "contains (trim_space body @ ?nl # ?nl # CommentKeyMarker key) (CommentKeyMarker k)"
      using assms(4) k by (simp add: MarkCommentKey_def CommentHasKey_def blank_line_def Let_def)
    then have "contains (trim_space body) (CommentKeyMarker k) \<or> contains (?nl # CommentKeyMarker key) (CommentKeyMarker k)"
      by (rule contains_split [OF marker_no_newline [OF assms(2)]])
    moreover have "\<not> contains (?nl # CommentKeyMarker key) (CommentKeyMarker k)"
    proof
      assume "contains (?nl # CommentKeyMarker key) (CommentKeyMarker k)"
      then have "contains [] (CommentKeyMarker k) \<or> contains (CommentKeyMarker key) (CommentKeyMarker k)"
        using contains_split [OF marker_no_newline [OF assms(2)], of "[]"] by simp
      then show False using marker_in_marker [OF assms(1,2)] assms(3)
        by (auto simp: CommentKeyMarker_def commentKeyMarkerPrefix_def)
    qed
    ultimately show ?thesis using contains_trim k by (simp add: CommentHasKey_def)
  qed
qed

lemma managed_is_managed: "trim_space body \<noteq> [] \<Longrightarrow> IsManagedComment (c\<lparr>cm_Body := MarkManagedComment body\<rparr>)"
  using contains_self [of "trim_space body @ blank_line" ManagedCommentMarker "[]"]
  by (simp add: IsManagedComment_def MarkManagedComment_def Let_def)

end
