(* ===== verification/Input_Resume.thy ===== *)
theory Input_Resume
  imports Restack Outbox Managed_Comments
begin

text \<open>
  The input-required conversation of \<open>internal/orchestrator/event_loop.go\<close>: finding the agent's
  question and the human reply among an issue's comments, recovering a lost question from the
  tracker, polling for replies within a per-tick budget (\<open>tracker_reply_budget.go\<close>) and resuming
  the session that asked.

  \<open>loop_env\<close> collects what the event loop reads of its surroundings: the tracker, its optional batch
  interface, the automation rules, the worktree provider, a snapshot of the outbox and the renderer
  of times in messages. A dereference of a nil issue, which Go answers with a panic, is the result
  \<open>None\<close>. All clock readings of one call are the argument \<open>now\<close>.
\<close>

section \<open>Definitions\<close>

record loop_env =
  le_fmt_time :: "time \<Rightarrow> string"
  le_tracker :: tracker_ops
  le_batch :: "(string list \<Rightarrow> issue list option) option"
  le_rules :: automation_rules
  le_restacker :: restacker
  le_outbox :: "outbox_entry list option"

subsection \<open>Question comments\<close>

definition itervoxCommentPrefix :: string where
  "itervoxCommentPrefix = [CHR 0xF0, CHR 0x9F, CHR 0xA4, CHR 0x96] @ '' **Agent needs your input**''"

definition maxInputRequiredCommentBytes :: int where
  "maxInputRequiredCommentBytes = 8192"

definition truncation_note :: string where
  "truncation_note = ''_'' @ [CHR 0xE2, CHR 0x80, CHR 0xA6] @
     '' earlier text truncated; the full text is in the Itervox dashboard._'' @ blank_line"

definition rune_start :: "char \<Rightarrow> bool" where
  "rune_start c = ((of_char c :: nat) < 128 \<or> 192 \<le> (of_char c :: nat))"

definition boundInputRequiredContext :: "string \<Rightarrow> string" where
  "boundInputRequiredContext text =
     (if int (length text) \<le> maxInputRequiredCommentBytes then text
      else let cut = int (length text) - (maxInputRequiredCommentBytes - int (length truncation_note))
           in truncation_note @ dropWhile (\<lambda>c. \<not> rune_start c) (drop (nat cut) text))"

definition buildInputRequiredComment :: "input_required_entry option \<Rightarrow> bool \<Rightarrow> string" where
  "buildInputRequiredComment entry inlineInput =
     (case entry of
        None \<Rightarrow> []
      | Some e \<Rightarrow> itervoxCommentPrefix @ blank_line @ boundInputRequiredContext (ir_Context e) @ blank_line @
          ''---'' @ [CHR 0x0A] @
          (if inlineInput then ''_Reply to this comment to continue._''
           else ''_Reply in the tracker or via the Itervox dashboard to continue._''))"

definition buildPendingInputResumeEntry :: "input_required_entry \<Rightarrow> string \<Rightarrow> time \<Rightarrow> pending_input_resume_entry" where
  "buildPendingInputResumeEntry e userMessage now =
     \<lparr>pi_IssueID = ir_IssueID e, pi_Identifier = ir_Identifier e, pi_SessionID = ir_SessionID e,
      pi_Context = ir_Context e, pi_UserMessage = userMessage, pi_BranchName = ir_BranchName e,
      pi_Backend = ir_Backend e, pi_Command = ir_Command e, pi_WorkerHost = ir_WorkerHost e,
      pi_ProfileName = ir_ProfileName e, pi_QuestionCommentKey = ir_QuestionCommentKey e,
      pi_QuestionCommentID = ir_QuestionCommentID e, pi_QuestionAuthorID = ir_QuestionAuthorID e,
      pi_QuestionAuthorName = ir_QuestionAuthorName e, pi_QueuedAt = now, pi_LastResumeAttemptAt = 0\<rparr>"

definition inputRequiredEntryFromPending :: "pending_input_resume_entry \<Rightarrow> input_required_entry" where
  "inputRequiredEntryFromPending e =
     \<lparr>ir_IssueID = pi_IssueID e, ir_Identifier = pi_Identifier e, ir_SessionID = pi_SessionID e,
      ir_Context = pi_Context e, ir_BranchName = pi_BranchName e, ir_Backend = pi_Backend e,
      ir_Command = pi_Command e, ir_WorkerHost = pi_WorkerHost e, ir_ProfileName = pi_ProfileName e,
      ir_QuestionCommentKey = pi_QuestionCommentKey e, ir_QuestionCommentID = pi_QuestionCommentID e,
      ir_QuestionAuthorID = pi_QuestionAuthorID e, ir_QuestionAuthorName = pi_QuestionAuthorName e,
      ir_QueuedAt = pi_QueuedAt e, ir_LastReplyCheckAt = 0, ir_QuestionStuckWarned = False\<rparr>"

definition zero_comment :: comment where
  "zero_comment = \<lparr>cm_ID = [], cm_Body = [], cm_CreatedAt = None, cm_AuthorID = [], cm_AuthorName = []\<rparr>"

fun find_index :: "('a \<Rightarrow> bool) \<Rightarrow> 'a list \<Rightarrow> nat option" where
  "find_index P [] = None"
| "find_index P (x # xs) = (if P x then Some 0 else map_option Suc (find_index P xs))"

definition comment_at :: "comment list \<Rightarrow> nat option \<Rightarrow> (nat \<times> comment) option" where
  "comment_at cs i = map_option (\<lambda>i. (i, cs ! i)) i"

definition findLatestItervoxQuestionComment :: "comment list \<Rightarrow> (nat \<times> comment) option" where
  "findLatestItervoxQuestionComment cs =
     comment_at cs (map_option (\<lambda>i. length cs - 1 - i)
       (find_index (\<lambda>c. has_prefix (cm_Body c) itervoxCommentPrefix) (rev cs)))"

definition findTrackedQuestionComment :: "comment list \<Rightarrow> input_required_entry \<Rightarrow> (nat \<times> comment) option" where
  "findTrackedQuestionComment cs e =
     (if ir_QuestionCommentKey e \<noteq> []
      then comment_at cs (find_index (\<lambda>c. cm_ID c = ir_QuestionCommentKey e \<or>
        CommentHasKey (cm_Body c) (ir_QuestionCommentKey e)) cs)
      else case (if ir_QuestionCommentID e \<noteq> []
                 then comment_at cs (find_index (\<lambda>c. cm_ID c = ir_QuestionCommentID e) cs) else None) of
        Some q \<Rightarrow> Some q
      | None \<Rightarrow> findLatestItervoxQuestionComment cs)"

definition sameCommentAuthor :: "comment \<Rightarrow> comment \<Rightarrow> bool" where
  "sameCommentAuthor a b =
     (if cm_AuthorID a \<noteq> [] \<and> cm_AuthorID b \<noteq> [] then cm_AuthorID a = cm_AuthorID b
      else if cm_AuthorName a \<noteq> [] \<and> cm_AuthorName b \<noteq> [] then equal_fold (cm_AuthorName a) (cm_AuthorName b)
      else False)"

definition findReplyAfterQuestion :: "comment list \<Rightarrow> nat \<Rightarrow> comment \<Rightarrow> comment option" where
  "findReplyAfterQuestion cs questionIdx question =
     List.find (\<lambda>c. \<not> has_prefix (cm_Body c) itervoxCommentPrefix \<and> \<not> IsManagedComment c \<and>
       \<not> sameCommentAuthor c question) (drop (questionIdx + 1) cs)"

definition findReplySince :: "comment list \<Rightarrow> time \<Rightarrow> comment \<Rightarrow> comment option" where
  "findReplySince cs since question =
     (if isZero since then None
      else List.find (\<lambda>c. (case cm_CreatedAt c of None \<Rightarrow> False | Some t \<Rightarrow> since < t) \<and>
        \<not> (has_prefix (cm_Body c) itervoxCommentPrefix \<or> IsManagedComment c) \<and>
        \<not> sameCommentAuthor c question) cs)"

definition branchNameValue :: "string option \<Rightarrow> string" where
  "branchNameValue b = (case b of None \<Rightarrow> [] | Some n \<Rightarrow> n)"

text \<open>The text before the last occurrence of the footer rule, if there is one.\<close>

definition footer_rule :: string where
  "footer_rule = [CHR 0x0A] @ ''---'' @ [CHR 0x0A]"

fun last_index :: "string \<Rightarrow> string \<Rightarrow> nat option" where
  "last_index [] sub = (if sub = [] then Some 0 else None)"
| "last_index (c # s) sub =
     (case last_index s sub of Some i \<Rightarrow> Some (Suc i) | None \<Rightarrow> if has_prefix (c # s) sub then Some 0 else None)"

definition question_context :: "string \<Rightarrow> string" where
  "question_context body =
     (let t = trim_space (case cut_prefix body itervoxCommentPrefix of Some rest \<Rightarrow> rest | None \<Rightarrow> body)
      in case last_index t footer_rule of Some i \<Rightarrow> trim_space (take i t) | None \<Rightarrow> t)"

text \<open>The outer \<open>None\<close> is the nil dereference, the inner one that there is nothing to recover.\<close>

definition recoverInputRequired :: "tracker_ops \<Rightarrow> issue \<Rightarrow> time \<Rightarrow> input_required_entry option option" where
  "recoverInputRequired tk issue now =
     (case tk_FetchIssueDetail tk (is_ID issue) of
        FetchNil \<Rightarrow> None
      | Fetched detailed \<Rightarrow>
          Some (if is_Comments detailed = [] then None
            else case findLatestItervoxQuestionComment (is_Comments detailed) of
              None \<Rightarrow> None
            | Some (i, q) \<Rightarrow>
                if findReplyAfterQuestion (is_Comments detailed) i q \<noteq> None then None
                else Some \<lparr>ir_IssueID = is_ID issue, ir_Identifier = is_Identifier issue, ir_SessionID = [],
                  ir_Context = question_context (cm_Body q), ir_BranchName = branchNameValue (is_BranchName issue),
                  ir_Backend = [], ir_Command = [], ir_WorkerHost = [], ir_ProfileName = [],
                  ir_QuestionCommentKey = [], ir_QuestionCommentID = cm_ID q, ir_QuestionAuthorID = cm_AuthorID q,
                  ir_QuestionAuthorName = cm_AuthorName q, ir_QueuedAt = now, ir_LastReplyCheckAt = 0,
                  ir_QuestionStuckWarned = False\<rparr>)
      | _ \<Rightarrow> Some None)"

subsection \<open>Budgeted polling\<close>

definition trackerReplyCheckPerTickBudget :: int where
  "trackerReplyCheckPerTickBudget = 5"

definition older_check :: "string \<times> int \<Rightarrow> string \<times> int \<Rightarrow> bool" where
  "older_check a b = (snd a < snd b \<or> snd a = snd b \<and> fst a < fst b)"

definition selectLeastRecentlyChecked :: "(string, 'v) gomap \<Rightarrow> int \<Rightarrow> ('v \<Rightarrow> time) \<Rightarrow> string list" where
  "selectLeastRecentlyChecked entries budget lastChecked =
     (if budget \<le> 0 \<or> entries = [] then []
      else map fst (take (nat budget)
        (stable_sort older_check (map (\<lambda>(k, e). (k, unix_nano (lastChecked e))) entries))))"

definition selectTrackerReplyCheckBatch :: "(string, input_required_entry) gomap \<Rightarrow> int \<Rightarrow> string list" where
  "selectTrackerReplyCheckBatch entries budget = selectLeastRecentlyChecked entries budget ir_LastReplyCheckAt"

definition selectPendingResumeFetchBatch :: "(string, pending_input_resume_entry) gomap \<Rightarrow> int \<Rightarrow> string list" where
  "selectPendingResumeFetchBatch entries budget = selectLeastRecentlyChecked entries budget pi_LastResumeAttemptAt"

definition PrefetchDetails :: "(string list \<Rightarrow> issue list option) option \<Rightarrow> string list \<Rightarrow> (string, issue) gomap" where
  "PrefetchDetails batcher ids =
     (if length ids < 2 then []
      else case batcher of
        None \<Rightarrow> []
      | Some fetch \<Rightarrow>
          (case fetch ids of None \<Rightarrow> [] | Some issues \<Rightarrow> foldl (\<lambda>m i. mput m (is_ID i) i) [] issues))"

definition warnIfQuestionStuck :: "outbox_entry list option \<Rightarrow> input_required_entry \<Rightarrow> input_required_entry" where
  "warnIfQuestionStuck snapshot e =
     (if ir_QuestionStuckWarned e \<or> ir_QuestionCommentKey e = [] then e
      else case snapshot of
        None \<Rightarrow> e
      | Some queued \<Rightarrow>
          (case List.find (\<lambda>q. oe_CommentKey q = ir_QuestionCommentKey e) queued of
             None \<Rightarrow> e
           | Some q \<Rightarrow> if Degraded q then e\<lparr>ir_QuestionStuckWarned := True\<rparr> else e))"

subsection \<open>Replies\<close>

text \<open>The human reply to an entry's question, by position, or by time while the question is in flight.\<close>

definition find_reply :: "comment list \<Rightarrow> input_required_entry \<Rightarrow> comment option" where
  "find_reply cs e =
     (let found = findTrackedQuestionComment cs e;
          question = (case found of Some (i, q) \<Rightarrow> q | None \<Rightarrow> zero_comment);
          after = (case found of Some (i, q) \<Rightarrow> findReplyAfterQuestion cs i q | None \<Rightarrow> None)
      in case after of
           Some r \<Rightarrow> Some r
         | None \<Rightarrow> if ir_QuestionCommentKey e \<noteq> [] then findReplySince cs (ir_QueuedAt e) question else None)"

definition put_input_required :: "daemon \<Rightarrow> string \<Rightarrow> input_required_entry \<Rightarrow> daemon" where
  "put_input_required d ident e =
     (fst d, (snd d)\<lparr>s_InputRequiredIssues := mput (s_InputRequiredIssues (snd d)) ident e\<rparr>)"

definition queue_resume :: "daemon \<Rightarrow> string \<Rightarrow> pending_input_resume_entry \<Rightarrow> daemon" where
  "queue_resume d ident p =
     (fst d, (snd d)\<lparr>s_InputRequiredIssues := mdel (s_InputRequiredIssues (snd d)) ident,
        s_PendingInputResumes := mput (s_PendingInputResumes (snd d)) ident p\<rparr>)"

definition fetch_detail :: "tracker_ops \<Rightarrow> (string, issue) gomap \<Rightarrow> string \<Rightarrow> issue_fetch" where
  "fetch_detail tk prefetched k =
     (case mget prefetched k of Some i \<Rightarrow> Fetched i | None \<Rightarrow> tk_FetchIssueDetail tk k)"

definition check_reply ::
  "loop_env \<Rightarrow> config \<Rightarrow> time \<Rightarrow> (string, issue) gomap \<Rightarrow> daemon \<Rightarrow> string \<Rightarrow> daemon option" where
  "check_reply env cfg now prefetched d ident =
     (case mget (s_InputRequiredIssues (snd d)) ident of
        None \<Rightarrow> Some d
      | Some entry \<Rightarrow>
          let e = warnIfQuestionStuck (le_outbox env) (entry\<lparr>ir_LastReplyCheckAt := now\<rparr>);
              d1 = put_input_required d ident e
          in (case fetch_detail (le_tracker env) prefetched (ir_IssueID e) of
                FetchNil \<Rightarrow> None
              | Fetched detailed \<Rightarrow>
                  let d2 = fst (auditFetchedIssueDependenciesAndDispatch (le_restacker env) (le_rules env) cfg d1 detailed now)
                  in (case find_reply (is_Comments detailed) e of
                        None \<Rightarrow> Some d2
                      | Some reply \<Rightarrow>
                          if trim_space (cm_Body reply) = [] then Some d2
                          else Some (queue_resume d2 ident (buildPendingInputResumeEntry e (cm_Body reply) now)))
              | _ \<Rightarrow> Some d1))"

fun check_replies ::
  "loop_env \<Rightarrow> config \<Rightarrow> time \<Rightarrow> (string, issue) gomap \<Rightarrow> string list \<Rightarrow> daemon \<Rightarrow> daemon option" where
  "check_replies env cfg now prefetched [] d = Some d"
| "check_replies env cfg now prefetched (ident # idents) d =
     Option.bind (check_reply env cfg now prefetched d ident) (check_replies env cfg now prefetched idents)"

definition checkTrackerReplies :: "loop_env \<Rightarrow> config \<Rightarrow> time \<Rightarrow> daemon \<Rightarrow> daemon option" where
  "checkTrackerReplies env cfg now d =
     (let entries = s_InputRequiredIssues (snd d);
          selected = selectTrackerReplyCheckBatch entries trackerReplyCheckPerTickBudget;
          replyIDs = map ir_IssueID (List.map_filter (mget entries) selected)
      in if entries = [] then Some d
         else check_replies env cfg now (PrefetchDetails (le_batch env) replyIDs) selected d)"

subsection \<open>Resumes\<close>

definition resumeRunnerCommand :: "config \<Rightarrow> input_required_entry \<Rightarrow> string" where
  "resumeRunnerCommand cfg e =
     (let profileCommand =
        (if ir_ProfileName e = [] then []
         else case mget (ag_Profiles (cf_Agent cfg)) (ir_ProfileName e) of None \<Rightarrow> [] | Some p \<Rightarrow> pr_Command p)
      in dt_RunnerCommand (resolveResumeTarget (ir_Command e) (ir_Backend e) profileCommand (ag_Command (cf_Agent cfg))))"

definition resume_issue :: "issue \<Rightarrow> pending_input_resume_entry \<Rightarrow> issue" where
  "resume_issue detailed e =
     (if is_BranchName detailed = None \<and> pi_BranchName e \<noteq> []
      then detailed\<lparr>is_BranchName := Some (pi_BranchName e)\<rparr> else detailed)"

definition resumed_run :: "issue \<Rightarrow> pending_input_resume_entry \<Rightarrow> time \<Rightarrow> run_entry" where
  "resumed_run issue e now =
     (new_run issue (pi_WorkerHost e) (pi_Backend e) (pi_ProfileName e) [] [] [] 0 now)\<lparr>
       ru_AgentSessionID := pi_SessionID e, ru_PendingInputResume := True,
       ru_BranchName := branchNameValue (is_BranchName issue), ru_RetryAttempt := None, ru_WorkerCancel := False\<rparr>"

definition launch_resume :: "config \<Rightarrow> daemon \<Rightarrow> issue \<Rightarrow> pending_input_resume_entry \<Rightarrow> time \<Rightarrow> daemon" where
  "launch_resume cfg d issue e now =
     ((fst d)\<lparr>o_started := o_started (fst d) @
        [\<lparr>ws_Issue = issue, ws_Attempt = 0, ws_Host = pi_WorkerHost e,
          ws_Command = resumeRunnerCommand cfg (inputRequiredEntryFromPending e), ws_Backend = pi_Backend e,
          ws_Profile = pi_ProfileName e, ws_SkipPRCheck = False,
          ws_Resume = Some \<lparr>rc_SessionID = pi_SessionID e, rc_UserMessage = pi_UserMessage e, rc_InputContext = pi_Context e\<rparr>,
          ws_Automation = None\<rparr>]\<rparr>,
      claim_and_run (snd d) (pi_IssueID e) (resumed_run issue e now))"

definition drop_resume :: "daemon \<Rightarrow> string \<Rightarrow> daemon" where
  "drop_resume d ident = (fst d, (snd d)\<lparr>s_PendingInputResumes := mdel (s_PendingInputResumes (snd d)) ident\<rparr>)"

text \<open>From the fetched issue on: the audit, the state checks, the breaker and the start.\<close>

definition resume_fetched ::
  "loop_env \<Rightarrow> config \<Rightarrow> time \<Rightarrow> daemon \<Rightarrow> string \<Rightarrow> pending_input_resume_entry \<Rightarrow> issue \<Rightarrow> daemon" where
  "resume_fetched env cfg now d ident e detailed =
     (let d1 = fst (auditFetchedIssueDependenciesAndDispatch (le_restacker env) (le_rules env) cfg d detailed now)
      in if isTerminalState (is_State detailed) (snd d1) then drop_resume d1 ident
         else if \<not> isActiveState (is_State detailed) (snd d1) then drop_resume d1 ident
         else case admitBackendKey (snd d1) (BackendHealthKey (pi_Backend e) (pi_WorkerHost e)) ident now of
           (s2, False) \<Rightarrow> (fst d1, s2)
         | (s2, True) \<Rightarrow> launch_resume cfg (fst d1, clearBackendHold s2 ident) (resume_issue detailed e) e now)"

definition resume_pending ::
  "loop_env \<Rightarrow> config \<Rightarrow> time \<Rightarrow> string list \<Rightarrow> (string, issue) gomap \<Rightarrow> daemon \<Rightarrow> string \<Rightarrow> daemon" where
  "resume_pending env cfg now fetchAllowed prefetched d ident =
     (case mget (s_PendingInputResumes (snd d)) ident of
        None \<Rightarrow> d
      | Some e \<Rightarrow>
          let s = snd d; resumeKey = BackendHealthKey (pi_Backend e) (pi_WorkerHost e)
          in if mhas (s_Running s) (pi_IssueID e) then d
             else if mhas (s_Claimed s) (pi_IssueID e) then d
             else if mhas (s_PausedIdentifiers s) ident then drop_resume d ident
             else if mhas (s_DiscardingIdentifiers s) ident then drop_resume d ident
             else if ident \<notin> set fetchAllowed then d
             else case backendKeyBlocked s resumeKey ident now of
               (True, until) \<Rightarrow> (fst d, setBackendHold s ident \<lparr>hd_Key = resumeKey, hd_Until = until\<rparr>)
             | (False, until) \<Rightarrow>
                 let e1 = e\<lparr>pi_LastResumeAttemptAt := now\<rparr>;
                     d1 = (fst d, s\<lparr>s_PendingInputResumes := mput (s_PendingInputResumes s) ident e1\<rparr>)
                 in (case fetch_detail (le_tracker env) prefetched (pi_IssueID e) of
                       Fetched detailed \<Rightarrow> resume_fetched env cfg now d1 ident e1 detailed
                     | _ \<Rightarrow> d1))"

fun resume_pendings ::
  "loop_env \<Rightarrow> config \<Rightarrow> time \<Rightarrow> string list \<Rightarrow> (string, issue) gomap \<Rightarrow> string list \<Rightarrow> daemon \<Rightarrow> daemon" where
  "resume_pendings env cfg now fetchAllowed prefetched [] d = d"
| "resume_pendings env cfg now fetchAllowed prefetched (ident # idents) d =
     (let d1 = syncDrainRequest d
      in if AvailableSlots (snd d1) \<le> 0 then d1
         else resume_pendings env cfg now fetchAllowed prefetched idents
           (resume_pending env cfg now fetchAllowed prefetched d1 ident))"

definition processPendingInputResumes :: "loop_env \<Rightarrow> config \<Rightarrow> time \<Rightarrow> daemon \<Rightarrow> daemon" where
  "processPendingInputResumes env cfg now d =
     (let pending = s_PendingInputResumes (snd d);
          fetchAllowed = selectPendingResumeFetchBatch pending trackerReplyCheckPerTickBudget;
          resumeIDs = map pi_IssueID (List.map_filter (mget pending) fetchAllowed)
      in if pending = [] \<or> AvailableSlots (snd d) \<le> 0 then d
         else resume_pendings env cfg now fetchAllowed (PrefetchDetails (le_batch env) resumeIDs) (sort (mkeys pending)) d)"

section \<open>Audits of busy issues\<close>

text \<open>
  The fields that decide whether something may run. An issue that is running, claimed or waiting
  for a resume is busy; auditing it starts nothing and leaves all of these fields alone.
\<close>

definition core :: "state \<Rightarrow> (string, run_entry) gomap \<times> string goset \<times> (string, retry_entry) gomap \<times>
    (string, pending_input_resume_entry) gomap \<times> int \<times> bool \<times> string list \<times> string list \<times>
    (string, backend_health_entry) gomap \<times> (string, backend_hold) gomap" where
  "core s = (s_Running s, s_Claimed s, s_RetryAttempts s, s_PendingInputResumes s, s_MaxConcurrentAgents s, s_Draining s,
     s_ActiveStates s, s_TerminalStates s, s_BackendHealth s, s_BackendLimitedHolds s)"

definition busy :: "state \<Rightarrow> issue \<Rightarrow> bool" where
  "busy s issue \<longleftrightarrow> mhas (s_Running s) (is_ID issue) \<or> mhas (s_Claimed s) (is_ID issue) \<or>
     mhas (s_PendingInputResumes s) (is_Identifier issue)"

lemma coreD:
  assumes "core t = core s"
  shows "s_Running t = s_Running s" "s_Claimed t = s_Claimed s" "s_RetryAttempts t = s_RetryAttempts s"
    "s_PendingInputResumes t = s_PendingInputResumes s" "s_MaxConcurrentAgents t = s_MaxConcurrentAgents s"
    "s_Draining t = s_Draining s" "s_ActiveStates t = s_ActiveStates s" "s_TerminalStates t = s_TerminalStates s"
    "s_BackendHealth t = s_BackendHealth s" "s_BackendLimitedHolds t = s_BackendLimitedHolds s"
    "busy t issue = busy s issue" "AvailableSlots t = AvailableSlots s"
  using assms by (simp_all add: core_def busy_def AvailableSlots_def)

lemma core_refresh [simp]: "core (refreshAutomationQueueBackpressure s) = core s"
  by (simp add: core_def refreshAutomationQueueBackpressure_def Let_def)

lemma core_rejected [simp]: "core (recordAutomationQueueRejected s a i r now) = core s"
  by (simp add: core_def recordAutomationQueueRejected_def refreshAutomationQueueBackpressure_def Let_def)

lemma core_queue_fields [simp]:
  "core (s\<lparr>s_AutomationQueue := q\<rparr>) = core s" "core (s\<lparr>s_AutomationQueue := q, s_AutomationQueueOrder := l\<rparr>) = core s"
  by (simp_all add: core_def)

lemma core_ensure [simp]: "core (ensureAutomationQueueState s) = core s"
  by (simp add: ensureAutomationQueueState_def)

lemma core_enqueue [simp]: "core (fst (enqueueAutomation s i a r now)) = core s"
  unfolding enqueueAutomation_def Let_def
  by (cases "automationQueueReasonFromString r")
    (simp add: split_beta split: option.split)

lemma core_queue [simp]:
  "core (snd (fst (queue_automation d i a r now))) = core (snd d)" "fst (fst (queue_automation d i a r now)) = fst d"
  unfolding queue_automation_def
  by (cases "enqueueAutomation (snd d) i a r now", use core_enqueue [of "snd d" i a r now] in simp)+

lemma busy_ineligible: "busy s issue \<Longrightarrow> IneligibleReasonForAutomation issue s cfg \<noteq> []"
  by (auto simp: busy_def IneligibleReasonForAutomation_def ineligibleReasonShared_def split: option.split)

lemma busy_dispatchOrQueue:
  assumes "busy (snd d) issue"
  shows "core (snd (fst (dispatchOrQueueAutomation cfg now d issue a))) = core (snd d)
    \<and> fst (fst (dispatchOrQueueAutomation cfg now d issue a)) = fst d"
proof -
  obtain s1 fresh where c: "claimPROpenedDedup (snd d) issue a = (s1, fresh)" by (cases "claimPROpenedDedup (snd d) issue a")
  let ?s2 = "clear_switched_pause s1 issue a"
  have s1: "core s1 = core (snd d)" using c by (auto simp: claimPROpenedDedup_def core_def Let_def split: if_splits)
  have s2: "core ?s2 = core (snd d)"
    using s1 by (simp add: clear_switched_pause_def clearPauseReason_def core_def Let_def)
  then have "busy ?s2 issue" using assms coreD(11) by blast
  then have "IneligibleReasonForAutomation issue ?s2 cfg \<noteq> []" by (rule busy_ineligible)
  then show ?thesis
    unfolding dispatchOrQueueAutomation_def Let_def c prod.case by (simp add: s1 s2)
qed

lemma busy_dispatch_all:
  assumes "busy (snd d) issue"
  shows "core (snd (dispatch_all cfg now issue d as)) = core (snd d) \<and> fst (dispatch_all cfg now issue d as) = fst d"
  using assms unfolding dispatch_all_def
proof (induction as arbitrary: d)
  case (Cons a as)
  let ?d = "fst (dispatchOrQueueAutomation cfg now d issue a)"
  note b = busy_dispatchOrQueue [OF Cons.prems, of cfg now a]
  then have "busy (snd ?d) issue" using Cons.prems coreD(11) by blast
  from Cons.IH [OF this] b show ?case by simp
qed simp

lemma core_audit: "core (fst (auditFetchedIssueDependencies c s issue now)) = core s"
  by (simp add: auditFetchedIssueDependencies_def auditIssueDependencies_def recordObservedIssueState_def
      appendIssueStatusChange_def updateAutomationQueueIssueFromDependencyAudit_def Let_def core_def)

lemma core_restack: "restack_or_park r cfg s issue now = (s', call) \<Longrightarrow> core s' = core s"
  by (auto simp: restack_or_park_def restackUnblockedIssue_def markRestackConflict_def core_def Let_def
      split: if_splits option.splits)

lemma busy_audit:
  assumes "busy (snd d) issue" and "d' = fst (auditFetchedIssueDependenciesAndDispatch restacker rules cfg d issue now)"
  shows "core (snd d') = core (snd d)" "fst d' = fst d"
proof -
  obtain s1 entry where a: "auditFetchedIssueDependencies now (snd d) issue now = (s1, entry)"
    by (cases "auditFetchedIssueDependencies now (snd d) issue now")
  have s1: "core s1 = core (snd d)" using core_audit [of now "snd d" issue now] a by simp
  let ?s1 = "s1\<lparr>s_PendingRestacks := mdel (s_PendingRestacks s1) (is_Identifier issue)\<rparr>"
  obtain s2 c where r: "restack_or_park restacker cfg s1 issue now = (s2, c)" by (cases "restack_or_park restacker cfg s1 issue now")
  obtain s3 c3 where r3: "restack_or_park restacker cfg ?s1 issue now = (s3, c3)" by (cases "restack_or_park restacker cfg ?s1 issue now")
  have c2: "core s2 = core (snd d)" using core_restack [OF r] s1 by simp
  have c1: "core ?s1 = core (snd d)" using s1 by (simp add: core_def)
  have c3': "core s3 = core (snd d)" using core_restack [OF r3] c1 by simp
  have "busy s2 issue" using assms(1) coreD(11) [OF c2] by simp
  then have b: "core (snd (dispatchMatchingBlockersResolvedAutomations rules cfg (fst d, s2) issue entry now)) = core (snd d)"
      "fst (dispatchMatchingBlockersResolvedAutomations rules cfg (fst d, s2) issue entry now) = fst d"
    using busy_dispatch_all [of "(fst d, s2)" issue] c2 by (simp_all add: dispatchMatchingBlockersResolvedAutomations_def)
  have "core (snd d') = core (snd d) \<and> fst d' = fst d"
    unfolding assms(2) auditFetchedIssueDependenciesAndDispatch_def a Let_def prod.case r r3 using b s1 c1 c3' by simp
  then show "core (snd d') = core (snd d)" "fst d' = fst d" by simp_all
qed

section \<open>Admission\<close>

context admission_relation
begin

lemma rel_check_reply:
  assumes "check_reply env cfg now prefetched d ident = Some d'"
  shows "rel d d'"
proof (cases "mget (s_InputRequiredIssues (snd d)) ident")
  case None
  then show ?thesis using assms rel_refl by (simp add: check_reply_def)
next
  case (Some entry)
  let ?e = "warnIfQuestionStuck (le_outbox env) (entry\<lparr>ir_LastReplyCheckAt := now\<rparr>)"
  let ?d1 = "put_input_required d ident ?e"
  have d1: "rel d ?d1" unfolding put_input_required_def by (rule rel_quiet) (simp add: adm_def)
  show ?thesis
  proof (cases "fetch_detail (le_tracker env) prefetched (ir_IssueID ?e)")
    case (Fetched detailed)
    let ?d2 = "fst (auditFetchedIssueDependenciesAndDispatch (le_restacker env) (le_rules env) cfg ?d1 detailed now)"
    have d2: "rel d ?d2" by (rule rel_trans [OF d1 rel_audit_dispatch])
    have q: "rel ?d2 (queue_resume ?d2 ident p)" for p
      unfolding queue_resume_def by (rule rel_quiet) (simp add: adm_def)
    have "d' = ?d2 \<or> (\<exists>p. d' = queue_resume ?d2 ident p)"
      using assms Some Fetched by (auto simp: check_reply_def Let_def split: option.splits if_splits)
    then show ?thesis using d2 rel_trans [OF d2 q] by blast
  qed (use assms Some d1 in \<open>simp_all add: check_reply_def Let_def\<close>)
qed

lemma rel_check_replies:
  "check_replies env cfg now prefetched idents d = Some d' \<Longrightarrow> rel d d'"
proof (induction idents arbitrary: d)
  case (Cons ident idents)
  then obtain d1 where "check_reply env cfg now prefetched d ident = Some d1" "check_replies env cfg now prefetched idents d1 = Some d'"
    by (cases "check_reply env cfg now prefetched d ident") auto
  then show ?case using Cons.IH rel_check_reply rel_trans by blast
qed (simp add: rel_refl)

lemma rel_replies: "checkTrackerReplies env cfg now d = Some d' \<Longrightarrow> rel d d'"
  using rel_check_replies rel_refl by (auto simp: checkTrackerReplies_def Let_def split: if_splits)

end

lemmas replies_slot_admits = slots.rel_replies

text \<open>The tracker answers for the issue it was asked about.\<close>

definition resolves :: "loop_env \<Rightarrow> (string, issue) gomap \<Rightarrow> (string, pending_input_resume_entry) gomap \<Rightarrow> bool" where
  "resolves env prefetched pending \<longleftrightarrow> (\<forall>ident e i. mget pending ident = Some e \<longrightarrow>
     fetch_detail (le_tracker env) prefetched (pi_IssueID e) = Fetched i \<longrightarrow> is_ID i = pi_IssueID e \<and> is_Identifier i = ident)"

definition unstamped :: "pending_input_resume_entry \<Rightarrow> pending_input_resume_entry" where
  "unstamped e = e\<lparr>pi_LastResumeAttemptAt := 0\<rparr>"

definition shrinks :: "(string, pending_input_resume_entry) gomap \<Rightarrow> (string, pending_input_resume_entry) gomap \<Rightarrow> bool" where
  "shrinks pending pending' \<longleftrightarrow> (\<forall>ident e'. mget pending' ident = Some e' \<longrightarrow>
     (\<exists>e. mget pending ident = Some e \<and> unstamped e' = unstamped e))"

lemma unstamped_fields:
  assumes "unstamped e' = unstamped e"
  shows "pi_IssueID e' = pi_IssueID e" "pi_Backend e' = pi_Backend e" "pi_WorkerHost e' = pi_WorkerHost e"
    "pi_ProfileName e' = pi_ProfileName e" "pi_SessionID e' = pi_SessionID e" "pi_UserMessage e' = pi_UserMessage e"
    "pi_Context e' = pi_Context e" "inputRequiredEntryFromPending e' = inputRequiredEntryFromPending e"
  using assms by (cases e; cases e'; simp add: unstamped_def inputRequiredEntryFromPending_def)+

lemma shrinks_refl [simp]: "shrinks p p"
  by (simp add: shrinks_def)

lemma shrinks_trans: "shrinks p q \<Longrightarrow> shrinks q r \<Longrightarrow> shrinks p r"
  unfolding shrinks_def by metis

lemma shrinks_mdel [simp]: "shrinks p (mdel p k)"
  by (simp add: shrinks_def)

lemma shrinks_stamp: "mget p k = Some e \<Longrightarrow> shrinks p (mput p k (e\<lparr>pi_LastResumeAttemptAt := t\<rparr>))"
  by (simp add: shrinks_def unstamped_def)

lemma resolves_shrinks: "resolves env m p \<Longrightarrow> shrinks p q \<Longrightarrow> resolves env m q"
  unfolding resolves_def shrinks_def using unstamped_fields(1) by metis

text \<open>What a started resume is: the pending entry's session, reply, backend and host, unchanged.\<close>

definition resumes :: "config \<Rightarrow> state \<Rightarrow> worker_start \<Rightarrow> bool" where
  "resumes cfg s w \<longleftrightarrow> (\<exists>ident e. mget (s_PendingInputResumes s) ident = Some e \<and> is_ID (ws_Issue w) = pi_IssueID e \<and>
     ws_Backend w = pi_Backend e \<and> ws_Host w = pi_WorkerHost e \<and> ws_Profile w = pi_ProfileName e \<and>
     ws_Command w = resumeRunnerCommand cfg (inputRequiredEntryFromPending e) \<and>
     ws_Resume w = Some \<lparr>rc_SessionID = pi_SessionID e, rc_UserMessage = pi_UserMessage e, rc_InputContext = pi_Context e\<rparr> \<and>
     isActiveState (is_State (ws_Issue w)) s \<and> \<not> isTerminalState (is_State (ws_Issue w)) s)"

definition same_frame :: "state \<Rightarrow> state \<Rightarrow> bool" where
  "same_frame s t \<longleftrightarrow> s_MaxConcurrentAgents t = s_MaxConcurrentAgents s \<and> s_Draining t = s_Draining s \<and>
     s_ActiveStates t = s_ActiveStates s \<and> s_TerminalStates t = s_TerminalStates s \<and>
     s_RetryAttempts t = s_RetryAttempts s \<and> shrinks (s_PendingInputResumes s) (s_PendingInputResumes t)"

lemma frame_states:
  "same_frame s t \<Longrightarrow> isActiveState x t = isActiveState x s \<and> isTerminalState x t = isTerminalState x s"
  by (simp add: same_frame_def isActiveState_def isTerminalState_def)

lemma resumes_frame:
  assumes "resumes cfg t w" and "same_frame s t"
  shows "resumes cfg s w"
proof -
  obtain ident e' where e': "mget (s_PendingInputResumes t) ident = Some e'" "is_ID (ws_Issue w) = pi_IssueID e'"
      "ws_Backend w = pi_Backend e'" "ws_Host w = pi_WorkerHost e'" "ws_Profile w = pi_ProfileName e'"
      "ws_Command w = resumeRunnerCommand cfg (inputRequiredEntryFromPending e')"
      "ws_Resume w = Some \<lparr>rc_SessionID = pi_SessionID e', rc_UserMessage = pi_UserMessage e', rc_InputContext = pi_Context e'\<rparr>"
    and st: "isActiveState (is_State (ws_Issue w)) t" "\<not> isTerminalState (is_State (ws_Issue w)) t"
    using assms(1) unfolding resumes_def by blast
  obtain e where e: "mget (s_PendingInputResumes s) ident = Some e" "unstamped e' = unstamped e"
    using assms(2) e'(1) by (auto simp: same_frame_def shrinks_def)
  show ?thesis unfolding resumes_def using e(1) e'(2-) st frame_states [OF assms(2)] unstamped_fields [OF e(2)] by auto
qed

lemma launch_resume_fields [simp]:
  "s_Running (snd (launch_resume cfg d issue e now)) = mput (s_Running (snd d)) (pi_IssueID e) (resumed_run issue e now)"
  "s_Claimed (snd (launch_resume cfg d issue e now)) = mput (s_Claimed (snd d)) (pi_IssueID e) ()"
  "s_RetryAttempts (snd (launch_resume cfg d issue e now)) = s_RetryAttempts (snd d)"
  "o_DryRun (fst (launch_resume cfg d issue e now)) = o_DryRun (fst d)"
  "s_MaxConcurrentAgents (snd (launch_resume cfg d issue e now)) = s_MaxConcurrentAgents (snd d)"
  "s_Draining (snd (launch_resume cfg d issue e now)) = s_Draining (snd d)"
  "s_ActiveStates (snd (launch_resume cfg d issue e now)) = s_ActiveStates (snd d)"
  "s_TerminalStates (snd (launch_resume cfg d issue e now)) = s_TerminalStates (snd d)"
  "s_PendingInputResumes (snd (launch_resume cfg d issue e now)) = s_PendingInputResumes (snd d)"
  "o_drainRequested (fst (launch_resume cfg d issue e now)) = o_drainRequested (fst d)"
  by (simp_all add: launch_resume_def claim_and_run_def claim_issue_def)

lemma drop_resume_fields [simp]:
  "fst (drop_resume d ident) = fst d" "s_Running (snd (drop_resume d ident)) = s_Running (snd d)"
  "s_Claimed (snd (drop_resume d ident)) = s_Claimed (snd d)" "same_frame (snd d) (snd (drop_resume d ident))"
  by (simp_all add: drop_resume_def same_frame_def)

lemma admit_keeps [simp]:
  "s_Running (fst (admitBackendKey s k i now)) = s_Running s" "s_Claimed (fst (admitBackendKey s k i now)) = s_Claimed s"
  "same_frame s (fst (admitBackendKey s k i now))"
  using strip_fields [OF strip_admit [of s k i now]] by (simp_all add: same_frame_def admitBackendKey_def split: option.split backend_status.split)

lemma hold_keeps [simp]:
  "s_Running (clearBackendHold s i) = s_Running s" "s_Claimed (clearBackendHold s i) = s_Claimed s" "same_frame s (clearBackendHold s i)"
  "s_Running (setBackendHold s i h) = s_Running s" "s_Claimed (setBackendHold s i h) = s_Claimed s" "same_frame s (setBackendHold s i h)"
  by (simp_all add: clearBackendHold_def setBackendHold_def same_frame_def)

lemma frame_refl [simp]: "same_frame s s"
  by (simp add: same_frame_def)

lemma frame_trans: "same_frame s t \<Longrightarrow> same_frame t u \<Longrightarrow> same_frame s u"
  unfolding same_frame_def using shrinks_trans by auto

text \<open>One step of the resume loop starts nothing, or one worker for an idle issue.\<close>

lemma resume_fetched_cases:
  assumes "mget (s_PendingInputResumes (snd d)) ident = Some e" and "is_ID detailed = pi_IssueID e" and "is_Identifier detailed = ident"
  obtains (quiet) d' where "resume_fetched env cfg now d ident e detailed = d'" "fst d' = fst d" "s_Running (snd d') = s_Running (snd d)"
      "s_Claimed (snd d') = s_Claimed (snd d)" "same_frame (snd d) (snd d')"
  | (start) s2 where "resume_fetched env cfg now d ident e detailed = launch_resume cfg (fst d, s2) (resume_issue detailed e) e now"
      "s_Running s2 = s_Running (snd d)" "s_Claimed s2 = s_Claimed (snd d)" "same_frame (snd d) s2"
      "isActiveState (is_State detailed) (snd d)" "\<not> isTerminalState (is_State detailed) (snd d)"
proof -
  let ?d1 = "fst (auditFetchedIssueDependenciesAndDispatch (le_restacker env) (le_rules env) cfg d detailed now)"
  have "busy (snd d) detailed" using assms by (simp add: busy_def mhas_def)
  from busy_audit [OF this refl] have a: "core (snd ?d1) = core (snd d)" "fst ?d1 = fst d" by simp_all
  note c = coreD [OF a(1)]
  have f: "same_frame (snd d) (snd ?d1)" using c by (simp add: same_frame_def)
  note st = frame_states [OF f]
  obtain s2 ok where ad: "admitBackendKey (snd ?d1) (BackendHealthKey (pi_Backend e) (pi_WorkerHost e)) ident now = (s2, ok)"
    by (cases "admitBackendKey (snd ?d1) (BackendHealthKey (pi_Backend e) (pi_WorkerHost e)) ident now")
  have s2: "s_Running s2 = s_Running (snd d)" "s_Claimed s2 = s_Claimed (snd d)" "same_frame (snd d) s2"
    using admit_keeps [of "snd ?d1" "BackendHealthKey (pi_Backend e) (pi_WorkerHost e)" ident now] ad c frame_trans [OF f] by simp_all
  show thesis
  proof (cases "isTerminalState (is_State detailed) (snd d) \<or> \<not> isActiveState (is_State detailed) (snd d) \<or> \<not> ok")
    case True
    have "resume_fetched env cfg now d ident e detailed \<in> {drop_resume ?d1 ident, (fst ?d1, s2)}"
      using True unfolding resume_fetched_def Let_def ad prod.case by (auto simp: st)
    then show thesis using s2 a(2) c frame_trans [OF f] by (intro quiet [OF refl]) auto
  next
    case False
    then have "resume_fetched env cfg now d ident e detailed =
        launch_resume cfg (fst d, clearBackendHold s2 ident) (resume_issue detailed e) e now"
      unfolding resume_fetched_def Let_def ad prod.case using a(2) by (simp add: st)
    then show thesis using False s2 frame_trans [OF s2(3)] by (intro start [of "clearBackendHold s2 ident"]) simp_all
  qed
qed

definition started_ids :: "worker_start list \<Rightarrow> string list" where
  "started_ids ws = map (\<lambda>w. is_ID (ws_Issue w)) ws"

definition resume_run :: "config \<Rightarrow> daemon \<Rightarrow> worker_start list \<Rightarrow> daemon \<Rightarrow> bool" where
  "resume_run cfg d ws d' \<longleftrightarrow> admits d ws d' \<and> slot_safe d d' \<and>
     set (mkeys (s_Claimed (snd d'))) = set (mkeys (s_Claimed (snd d))) \<union> set (started_ids ws) \<and>
     distinct (started_ids ws) \<and>
     set (started_ids ws) \<inter> (set (mkeys (s_Running (snd d))) \<union> set (mkeys (s_Claimed (snd d)))) = {} \<and>
     list_all (resumes cfg (snd d)) ws \<and>
     s_ActiveStates (snd d') = s_ActiveStates (snd d) \<and> s_TerminalStates (snd d') = s_TerminalStates (snd d) \<and>
     shrinks (s_PendingInputResumes (snd d)) (s_PendingInputResumes (snd d')) \<and>
     s_RetryAttempts (snd d') = s_RetryAttempts (snd d) \<and> o_DryRun (fst d') = o_DryRun (fst d)"

lemma resumes_mono:
  assumes "resumes cfg t w" and "s_ActiveStates t = s_ActiveStates s" and "s_TerminalStates t = s_TerminalStates s"
    and "shrinks (s_PendingInputResumes s) (s_PendingInputResumes t)"
  shows "resumes cfg s w"
proof (rule resumes_frame)
  let ?t = "t\<lparr>s_MaxConcurrentAgents := s_MaxConcurrentAgents s, s_Draining := s_Draining s, s_RetryAttempts := s_RetryAttempts s\<rparr>"
  show "resumes cfg ?t w" using assms(1) by (simp add: resumes_def isActiveState_def isTerminalState_def)
  show "same_frame s ?t" using assms(2-) by (simp add: same_frame_def)
qed

lemma resume_run_quiet:
  assumes "fst d' = fst d" and "s_Running (snd d') = s_Running (snd d)" and "s_Claimed (snd d') = s_Claimed (snd d)"
    and "same_frame (snd d) (snd d')"
  shows "resume_run cfg d [] d'"
proof -
  have "admits d [] d'" using assms by (intro admits_nothing) (simp_all add: same_frame_def)
  then show ?thesis using assms
    by (simp add: resume_run_def started_ids_def same_frame_def slot_safe_def)
qed

lemma resume_runD:
  assumes "resume_run cfg d ws d'"
  shows "admits d ws d'" "slot_admits d d'"
    "set (mkeys (s_Claimed (snd d'))) = set (mkeys (s_Claimed (snd d))) \<union> set (started_ids ws)" "distinct (started_ids ws)"
    "set (started_ids ws) \<inter> (set (mkeys (s_Running (snd d))) \<union> set (mkeys (s_Claimed (snd d)))) = {}"
    "list_all (resumes cfg (snd d)) ws" "s_ActiveStates (snd d') = s_ActiveStates (snd d)"
    "s_TerminalStates (snd d') = s_TerminalStates (snd d)" "shrinks (s_PendingInputResumes (snd d)) (s_PendingInputResumes (snd d'))"
    "set (mkeys (s_Running (snd d'))) = set (mkeys (s_Running (snd d))) \<union> set (started_ids ws)"
    "s_RetryAttempts (snd d') = s_RetryAttempts (snd d)" "o_DryRun (fst d') = o_DryRun (fst d)"
proof -
  show ad: "admits d ws d'" using assms unfolding resume_run_def by blast
  show "set (mkeys (s_Running (snd d'))) = set (mkeys (s_Running (snd d))) \<union> set (started_ids ws)"
    using admitsD(2) [OF ad] by (simp add: started_ids_def)
  show "slot_admits d d'" using assms unfolding resume_run_def slot_admits_def by blast
qed (use assms in \<open>unfold resume_run_def, blast+\<close>)

lemma resume_run_trans:
  assumes "resume_run cfg d ws d'" and "resume_run cfg d' vs d''"
  shows "resume_run cfg d (ws @ vs) d''"
  unfolding resume_run_def
proof (intro conjI)
  note a = resume_runD [OF assms(1)] and b = resume_runD [OF assms(2)]
  have ids: "started_ids (ws @ vs) = started_ids ws @ started_ids vs" by (simp add: started_ids_def)
  show "admits d (ws @ vs) d''" by (rule admits_trans [OF a(1) b(1)])
  show "slot_safe d d''" using slot_admits_trans [OF a(2) b(2)] unfolding slot_admits_def by blast
  show "set (mkeys (s_Claimed (snd d''))) = set (mkeys (s_Claimed (snd d))) \<union> set (started_ids (ws @ vs))"
    unfolding b(3) a(3) ids by (simp add: Un_assoc)
  show "distinct (started_ids (ws @ vs))" unfolding ids using a(4) b(4,5) a(10) by auto
  show "set (started_ids (ws @ vs)) \<inter> (set (mkeys (s_Running (snd d))) \<union> set (mkeys (s_Claimed (snd d)))) = {}"
    unfolding ids using a(3,5,10) b(5) by auto
  show "list_all (resumes cfg (snd d)) (ws @ vs)"
    using a(6) b(6) resumes_mono [OF _ a(7,8,9)] unfolding list_all_append by (auto simp: list_all_iff)
  show "s_ActiveStates (snd d'') = s_ActiveStates (snd d)" unfolding b(7) a(7) ..
  show "s_TerminalStates (snd d'') = s_TerminalStates (snd d)" unfolding b(8) a(8) ..
  show "shrinks (s_PendingInputResumes (snd d)) (s_PendingInputResumes (snd d''))" by (rule shrinks_trans [OF a(9) b(9)])
  show "s_RetryAttempts (snd d'') = s_RetryAttempts (snd d)" unfolding b(11) a(11) ..
  show "o_DryRun (fst d'') = o_DryRun (fst d)" unfolding b(12) a(12) ..
qed

lemma resume_run_start:
  assumes "mget (s_PendingInputResumes (snd d)) ident = Some e" and "is_ID detailed = pi_IssueID e"
    and "s_Running s2 = s_Running (snd d)" "s_Claimed s2 = s_Claimed (snd d)" "same_frame (snd d) s2"
    and "isActiveState (is_State detailed) (snd d)" "\<not> isTerminalState (is_State detailed) (snd d)"
    and "\<not> mhas (s_Running (snd d)) (pi_IssueID e)" "\<not> mhas (s_Claimed (snd d)) (pi_IssueID e)"
    and "0 < AvailableSlots (snd d)" and "\<not> admission_closed d"
  shows "\<exists>ws. resume_run cfg d ws (launch_resume cfg (fst d, s2) (resume_issue detailed e) e now)"
proof -
  let ?d' = "launch_resume cfg (fst d, s2) (resume_issue detailed e) e now"
  let ?w = "\<lparr>ws_Issue = resume_issue detailed e, ws_Attempt = 0, ws_Host = pi_WorkerHost e,
    ws_Command = resumeRunnerCommand cfg (inputRequiredEntryFromPending e), ws_Backend = pi_Backend e,
    ws_Profile = pi_ProfileName e, ws_SkipPRCheck = False,
    ws_Resume = Some \<lparr>rc_SessionID = pi_SessionID e, rc_UserMessage = pi_UserMessage e, rc_InputContext = pi_Context e\<rparr>,
    ws_Automation = None\<rparr>"
  have i: "is_ID (resume_issue detailed e) = pi_IssueID e" "is_State (resume_issue detailed e) = is_State detailed"
    using assms(2) by (simp_all add: resume_issue_def)
  have ad: "admits d [?w] ?d'"
    using assms(3,5,11) i(1) by (intro admits_one [where r = "resumed_run (resume_issue detailed e) e now"])
      (simp_all add: same_frame_def launch_resume_def claim_and_run_def claim_issue_def)
  moreover have "slot_safe d ?d'" using slot_admits_one [OF ad] assms(10) by (simp add: slot_admits_def)
  moreover have "resumes cfg (snd d) ?w" unfolding resumes_def using assms(1,6,7) i by auto
  ultimately have "resume_run cfg d [?w] ?d'" using assms(3,4,5,8,9) i(1)
    by (simp add: resume_run_def started_ids_def same_frame_def mhas_iff_keys)
  then show ?thesis by blast
qed

lemma resume_pending_run:
  assumes "resolves env prefetched (s_PendingInputResumes (snd d))" and "0 < AvailableSlots (snd d)" and "\<not> admission_closed d"
  shows "\<exists>ws. resume_run cfg d ws (resume_pending env cfg now allowed prefetched d ident)"
proof (cases "mget (s_PendingInputResumes (snd d)) ident")
  case None
  then show ?thesis using resume_run_quiet [of d d cfg] by (auto simp: resume_pending_def same_frame_def)
next
  case (Some e)
  let ?e1 = "e\<lparr>pi_LastResumeAttemptAt := now\<rparr>"
  let ?d1 = "(fst d, (snd d)\<lparr>s_PendingInputResumes := mput (s_PendingInputResumes (snd d)) ident ?e1\<rparr>)"
  let ?r = "resume_pending env cfg now allowed prefetched d ident"
  have f1: "same_frame (snd d) (snd ?d1)" using shrinks_stamp [OF Some] by (simp add: same_frame_def)
  have stamp: "resume_run cfg d [] ?d1" by (rule resume_run_quiet) (use f1 in simp_all)
  obtain blocked until where b: "backendKeyBlocked (snd d) (BackendHealthKey (pi_Backend e) (pi_WorkerHost e)) ident now = (blocked, until)"
    by (cases "backendKeyBlocked (snd d) (BackendHealthKey (pi_Backend e) (pi_WorkerHost e)) ident now")
  show ?thesis
  proof (cases "\<exists>detailed. fetch_detail (le_tracker env) prefetched (pi_IssueID e) = Fetched detailed \<and> \<not> blocked \<and>
      ?r = resume_fetched env cfg now ?d1 ident ?e1 detailed \<and> \<not> mhas (s_Running (snd d)) (pi_IssueID e) \<and>
      \<not> mhas (s_Claimed (snd d)) (pi_IssueID e)")
    case True
    then obtain detailed where f: "fetch_detail (le_tracker env) prefetched (pi_IssueID e) = Fetched detailed"
      and r: "?r = resume_fetched env cfg now ?d1 ident ?e1 detailed"
      and idle: "\<not> mhas (s_Running (snd d)) (pi_IssueID e)" "\<not> mhas (s_Claimed (snd d)) (pi_IssueID e)" by blast
    have i: "is_ID detailed = pi_IssueID ?e1" "is_Identifier detailed = ident"
      using assms(1) Some f by (auto simp: resolves_def)
    have p: "mget (s_PendingInputResumes (snd ?d1)) ident = Some ?e1" by simp
    have open1: "0 < AvailableSlots (snd ?d1)" "\<not> admission_closed ?d1"
      using assms(2,3) by (simp_all add: AvailableSlots_def admission_closed_def)
    have "\<exists>ws. resume_run cfg ?d1 ws (resume_fetched env cfg now ?d1 ident ?e1 detailed)"
    proof (cases rule: resume_fetched_cases [OF p i, of env cfg now])
      case (1 d')
      then show ?thesis using resume_run_quiet [of d' ?d1 cfg] by auto
    next
      case (2 s2)
      show ?thesis unfolding 2(1)
        by (rule resume_run_start [OF p i(1) 2(2-6) _ _ open1]) (use idle in simp_all)
    qed
    then show ?thesis unfolding r using resume_run_trans [OF stamp] by blast
  next
    case False
    then have "?r \<in> {d, drop_resume d ident, ?d1, (fst d, setBackendHold (snd d) ident \<lparr>hd_Key =
        BackendHealthKey (pi_Backend e) (pi_WorkerHost e), hd_Until = until\<rparr>)}"
      using Some b by (cases blocked; cases "fetch_detail (le_tracker env) prefetched (pi_IssueID e)")
        (auto simp: resume_pending_def Let_def)
    moreover have "\<forall>x \<in> {d, drop_resume d ident, ?d1, (fst d, setBackendHold (snd d) ident \<lparr>hd_Key =
        BackendHealthKey (pi_Backend e) (pi_WorkerHost e), hd_Until = until\<rparr>)}. resume_run cfg d [] x"
      using stamp resume_run_quiet [of d d cfg] resume_run_quiet [of "drop_resume d ident" d cfg]
        resume_run_quiet [of "(fst d, setBackendHold (snd d) ident h)" d cfg for h] by simp
    ultimately have "resume_run cfg d [] ?r" by (rule bspec [rotated])
    then show ?thesis by (rule exI)
  qed
qed

lemma resume_pendings_run:
  assumes "resolves env prefetched (s_PendingInputResumes (snd d))"
  shows "\<exists>ws. resume_run cfg d ws (resume_pendings env cfg now allowed prefetched idents d)"
  using assms
proof (induction idents arbitrary: d)
  case Nil
  then show ?case using resume_run_quiet [of d d cfg] by auto
next
  case (Cons ident idents)
  let ?d1 = "syncDrainRequest d"
  show ?case
  proof (cases "AvailableSlots (snd ?d1) \<le> 0")
    case True
    have "resume_run cfg d [] ?d1"
      using sync_slot_admits [of d] admits_sync [of d]
      by (auto simp: resume_run_def started_ids_def slot_admits_def syncDrainRequest_def applyDrain_def split: prod.split)
    then show ?thesis using True by auto
  next
    case False
    then have o: "\<not> admission_closed d" by (auto simp: AvailableSlots_pos_iff not_le)
    then have same: "?d1 = d" by (rule sync_open)
    let ?d2 = "resume_pending env cfg now allowed prefetched d ident"
    obtain ws where ws: "resume_run cfg d ws ?d2"
      using resume_pending_run [OF Cons.prems _ o, of cfg now allowed ident] False same by (auto simp: not_le)
    have "resolves env prefetched (s_PendingInputResumes (snd ?d2))"
      by (rule resolves_shrinks [OF Cons.prems resume_runD(9) [OF ws]])
    then obtain vs where "resume_run cfg ?d2 vs (resume_pendings env cfg now allowed prefetched idents ?d2)" using Cons.IH by blast
    from resume_run_trans [OF ws this] show ?thesis using False same by auto
  qed
qed

section \<open>Properties\<close>

lemma foldl_mput:
  "mget (foldl (\<lambda>m i. mput m (is_ID i) i) m issues) k = Some i \<Longrightarrow> mget m k = Some i \<or> i \<in> set issues \<and> is_ID i = k"
proof (induction issues arbitrary: m)
  case (Cons a issues)
  from Cons.IH [of "mput m (is_ID a) a"] Cons.prems show ?case by (auto split: if_splits)
qed simp

lemma prefetch_in:
  assumes "mget (PrefetchDetails batcher ids) k = Some i"
  obtains fetch issues where "batcher = Some fetch" "fetch ids = Some issues" "i \<in> set issues" "is_ID i = k"
  using assms that by (auto simp: PrefetchDetails_def split: if_splits option.splits dest: foldl_mput)

text \<open>The tracker's documented answers: a fetch by ID returns that issue, under its own identifier.\<close>

definition tracker_faithful :: "loop_env \<Rightarrow> (string \<Rightarrow> string) \<Rightarrow> bool" where
  "tracker_faithful env name \<longleftrightarrow>
     (\<forall>k i. tk_FetchIssueDetail (le_tracker env) k = Fetched i \<longrightarrow> is_ID i = k \<and> is_Identifier i = name k) \<and>
     (\<forall>fetch ids issues i. le_batch env = Some fetch \<longrightarrow> fetch ids = Some issues \<longrightarrow> i \<in> set issues \<longrightarrow>
        is_Identifier i = name (is_ID i))"

lemma fetched_faithful:
  assumes "tracker_faithful env name" and "fetch_detail (le_tracker env) (PrefetchDetails (le_batch env) ids) k = Fetched i"
  shows "is_ID i = k \<and> is_Identifier i = name k"
proof (cases "mget (PrefetchDetails (le_batch env) ids) k")
  case None
  then show ?thesis using assms by (simp add: fetch_detail_def tracker_faithful_def)
next
  case (Some j)
  then have "j = i" using assms(2) by (simp add: fetch_detail_def)
  moreover obtain fetch issues where p: "le_batch env = Some fetch" "fetch ids = Some issues" "j \<in> set issues" "is_ID j = k"
    using prefetch_in [OF Some] .
  moreover have "is_Identifier j = name (is_ID j)" using assms(1) p unfolding tracker_faithful_def by blast
  ultimately show ?thesis by simp
qed

lemma faithful_resolves:
  assumes "tracker_faithful env name" and "\<And>ident e. mget pending ident = Some e \<Longrightarrow> ident = name (pi_IssueID e)"
  shows "resolves env (PrefetchDetails (le_batch env) ids) pending"
  using assms fetched_faithful [OF assms(1)] by (auto simp: resolves_def)

lemma faithful_resume_run:
  assumes "tracker_faithful env name" and "\<forall>ident e. mget (s_PendingInputResumes (snd d)) ident = Some e \<longrightarrow> ident = name (pi_IssueID e)"
  shows "\<exists>ws. resume_run cfg d ws (processPendingInputResumes env cfg now d)"
proof (cases "s_PendingInputResumes (snd d) = [] \<or> AvailableSlots (snd d) \<le> 0")
  case True
  then have "processPendingInputResumes env cfg now d = d" by (auto simp: processPendingInputResumes_def Let_def)
  then show ?thesis using resume_run_quiet [of d d cfg] by auto
next
  case False
  have "resolves env (PrefetchDetails (le_batch env) ids) (s_PendingInputResumes (snd d))" for ids
    using assms(2) by (intro faithful_resolves [OF assms(1)]) blast
  then show ?thesis using False resume_pendings_run by (auto simp: processPendingInputResumes_def Let_def)
qed

text \<open>
  C24. Resuming after a reply is safe. Every worker the resume pass starts continues a pending entry:
  its session, the human's reply and the question go to the backend, host and profile that asked,
  and the issue is active and not terminal. No worker is started for an issue that was running or
  claimed, none twice, and the running set stays within the configured slots; nothing starts once a
  drain was requested.
\<close>

theorem input_resume_safe:
  assumes "tracker_faithful env name" and "\<forall>ident e. mget (s_PendingInputResumes (snd d)) ident = Some e \<longrightarrow> ident = name (pi_IssueID e)"
    and "mwf (s_Running (snd d))" and "d' = processPendingInputResumes env cfg now d"
  shows "\<exists>ws. o_started (fst d') = o_started (fst d) @ ws \<and> list_all (resumes cfg (snd d)) ws
    \<and> distinct (started_ids ws)
    \<and> set (started_ids ws) \<inter> (set (mkeys (s_Running (snd d))) \<union> set (mkeys (s_Claimed (snd d)))) = {}
    \<and> int (length (s_Running (snd d'))) \<le> max (int (length (s_Running (snd d)))) (s_MaxConcurrentAgents (snd d))
    \<and> (admission_closed d \<longrightarrow> ws = [])"
proof -
  obtain ws where ws: "resume_run cfg d ws d'" using faithful_resume_run [OF assms(1,2)] assms(4) by blast
  note r = resume_runD [OF ws]
  have "int (length (s_Running (snd d'))) \<le> max (int (length (s_Running (snd d)))) (s_MaxConcurrentAgents (snd d))"
    using r(2) assms(3) by (simp add: slot_admits_def slot_safe_def)
  then show ?thesis using r(4-6) admitsD(1,7) [OF r(1)] by blast
qed

definition ex_env :: loop_env where
  "ex_env = \<lparr>le_fmt_time = (\<lambda>_. []), le_tracker = \<lparr>
      tk_FetchIssueDetail = (\<lambda>k. if k = ''id-A-1'' then Fetched (ex_issue ''A-1'') else FetchNotFound k),
      tk_FetchIssueByIdentifier = (\<lambda>k. FetchNotFound k), tk_FetchIssueStatesByIDs = (\<lambda>_. Some [])\<rparr>,
     le_batch = None, le_rules = \<lparr>ar_inputRequired = [], ar_runFailed = [], ar_blockersResolved = []\<rparr>,
     le_restacker = None, le_outbox = None\<rparr>"

definition ex_pending :: pending_input_resume_entry where
  "ex_pending = \<lparr>pi_IssueID = ''id-A-1'', pi_Identifier = ''A-1'', pi_SessionID = ''s1'', pi_Context = ''which file?'',
     pi_UserMessage = ''main.go'', pi_BranchName = [], pi_Backend = ''claude'', pi_Command = [], pi_WorkerHost = [],
     pi_ProfileName = [], pi_QuestionCommentKey = [], pi_QuestionCommentID = [], pi_QuestionAuthorID = [],
     pi_QuestionAuthorName = [], pi_QueuedAt = 1, pi_LastResumeAttemptAt = 0\<rparr>"

definition ex_waiting :: daemon where
  "ex_waiting = (ex_orch\<lparr>o_DryRun := True\<rparr>, ex_state\<lparr>s_PendingInputResumes := [(''A-1'', ex_pending)]\<rparr>)"

lemma ex_env_faithful: "tracker_faithful ex_env (drop 3)"
  by (simp add: tracker_faithful_def ex_env_def ex_issue_def)

theorem input_resume_safe_witness:
  "\<exists>ws. o_started (fst (processPendingInputResumes ex_env ex_config 10 ex_waiting)) = o_started (fst ex_waiting) @ ws
    \<and> list_all (resumes ex_config (snd ex_waiting)) ws \<and> distinct (started_ids ws)"
proof -
  have "\<forall>ident e. mget (s_PendingInputResumes (snd ex_waiting)) ident = Some e \<longrightarrow> ident = drop 3 (pi_IssueID e)"
    by (simp add: ex_waiting_def ex_pending_def)
  moreover have "mwf (s_Running (snd ex_waiting))" by code_simp
  ultimately show ?thesis using input_resume_safe [OF ex_env_faithful _ _ refl, of ex_waiting ex_config 10] by blast
qed

text \<open>
  A dry run is not dry for resumes. The dry-run flag promises that no worker is started; every
  other path checks it, the resume path does not: the only pending resume of an idle, active issue
  whose breaker admits it is started, dry run or not.
\<close>

theorem dry_run_starts_resumed_worker:
  assumes "o_DryRun (fst d)" and "s_PendingInputResumes (snd d) = [(ident, e)]"
    and "tk_FetchIssueDetail (le_tracker env) (pi_IssueID e) = Fetched i" and "is_ID i = pi_IssueID e" and "is_Identifier i = ident"
    and "isActiveState (is_State i) (snd d)" and "\<not> isTerminalState (is_State i) (snd d)"
    and "\<not> mhas (s_Running (snd d)) (pi_IssueID e)" and "\<not> mhas (s_Claimed (snd d)) (pi_IssueID e)"
    and "\<not> mhas (s_PausedIdentifiers (snd d)) ident" and "\<not> mhas (s_DiscardingIdentifiers (snd d)) ident"
    and "\<not> fst (backendKeyBlocked (snd d) (BackendHealthKey (pi_Backend e) (pi_WorkerHost e)) ident now)"
    and "0 < AvailableSlots (snd d)" and "\<not> admission_closed d"
  shows "\<exists>w. o_started (fst (processPendingInputResumes env cfg now d)) = o_started (fst d) @ [w] \<and>
    is_ID (ws_Issue w) = pi_IssueID e \<and> ws_Backend w = pi_Backend e"
proof -
  let ?key = "BackendHealthKey (pi_Backend e) (pi_WorkerHost e)" and ?e1 = "e\<lparr>pi_LastResumeAttemptAt := now\<rparr>"
  let ?d1 = "(fst d, (snd d)\<lparr>s_PendingInputResumes := mput (s_PendingInputResumes (snd d)) ident ?e1\<rparr>)"
  let ?d2 = "fst (auditFetchedIssueDependenciesAndDispatch (le_restacker env) (le_rules env) cfg ?d1 i now)"
  have "busy (snd ?d1) i" using assms(5) by (simp add: busy_def)
  note a = busy_audit [OF this refl, of "le_restacker env" "le_rules env" cfg now]
  have c: "isActiveState x (snd ?d2) = isActiveState x (snd d)" "isTerminalState x (snd ?d2) = isTerminalState x (snd d)"
    "s_BackendHealth (snd ?d2) = s_BackendHealth (snd d)" for x
    using coreD(7,8,9) [OF a(1)] by (simp_all add: isActiveState_def isTerminalState_def)
  have free: "\<not> fst (backendKeyBlocked (snd ?d2) ?key ident now)"
    using assms(12) by (simp add: backendKeyBlocked_def c(3))
  then have "snd (admitBackendKey (snd ?d2) ?key ident now)"
    by (simp add: admitBackendKey_def split: option.split backend_status.split)
  then obtain s2 where ad: "admitBackendKey (snd ?d2) ?key ident now = (s2, True)" by (metis prod.collapse)
  have f: "resume_fetched env cfg now ?d1 ident ?e1 i = launch_resume cfg (fst d, clearBackendHold s2 ident) (resume_issue i ?e1) ?e1 now"
    using assms(6,7) a(2) ad by (simp add: resume_fetched_def Let_def c)
  obtain until where b: "backendKeyBlocked (snd d) ?key ident now = (False, until)"
    using assms(12) by (cases "backendKeyBlocked (snd d) ?key ident now") simp
  have allowed: "selectPendingResumeFetchBatch (s_PendingInputResumes (snd d)) trackerReplyCheckPerTickBudget = [ident]"
    by (simp add: selectPendingResumeFetchBatch_def selectLeastRecentlyChecked_def trackerReplyCheckPerTickBudget_def assms(2))
  have "resume_pending env cfg now [ident] [] d ident = resume_fetched env cfg now ?d1 ident ?e1 i"
    using assms(2,3,8-11) b by (simp add: resume_pending_def Let_def fetch_detail_def)
  then have "processPendingInputResumes env cfg now d = launch_resume cfg (fst d, clearBackendHold s2 ident) (resume_issue i ?e1) ?e1 now"
    using assms(2,13) sync_open [OF assms(14)] f allowed
    by (simp add: processPendingInputResumes_def Let_def mkeys_def PrefetchDetails_def map_filter_def not_le)
  then show ?thesis using assms(4) by (simp add: launch_resume_def resume_issue_def)
qed

theorem dry_run_starts_resumed_worker_witness:
  "o_DryRun (fst ex_waiting) \<and> (\<exists>w. o_started (fst (processPendingInputResumes ex_env ex_config 10 ex_waiting)) = o_started (fst ex_waiting) @ [w])"
proof -
  have p: "s_PendingInputResumes (snd ex_waiting) = [(''A-1'', ex_pending)]" "o_DryRun (fst ex_waiting)" by (simp_all add: ex_waiting_def)
  have t: "tk_FetchIssueDetail (le_tracker ex_env) (pi_IssueID ex_pending) = Fetched (ex_issue ''A-1'')"
    by (simp add: ex_env_def ex_pending_def)
  have "is_ID (ex_issue ''A-1'') = pi_IssueID ex_pending" "is_Identifier (ex_issue ''A-1'') = ''A-1''"
    "isActiveState (is_State (ex_issue ''A-1'')) (snd ex_waiting)" "\<not> isTerminalState (is_State (ex_issue ''A-1'')) (snd ex_waiting)"
    "\<not> mhas (s_Running (snd ex_waiting)) (pi_IssueID ex_pending)" "\<not> mhas (s_Claimed (snd ex_waiting)) (pi_IssueID ex_pending)"
    "\<not> mhas (s_PausedIdentifiers (snd ex_waiting)) ''A-1''" "\<not> mhas (s_DiscardingIdentifiers (snd ex_waiting)) ''A-1''"
    "\<not> fst (backendKeyBlocked (snd ex_waiting) (BackendHealthKey (pi_Backend ex_pending) (pi_WorkerHost ex_pending)) ''A-1'' 10)"
    "0 < AvailableSlots (snd ex_waiting)" by code_simp+
  moreover have "\<not> admission_closed ex_waiting" by code_simp
  ultimately show ?thesis using dry_run_starts_resumed_worker [OF p(2,1) t] p(2) by blast
qed

lemma find_index_Some: "find_index P xs = Some i \<Longrightarrow> i < length xs \<and> P (xs ! i)"
  by (induction xs arbitrary: i) (auto split: if_splits)

lemma tracked_position:
  assumes "findTrackedQuestionComment cs e = Some (i, q)"
  shows "i < length cs \<and> q = cs ! i"
proof -
  have at_pos: "comment_at cs (find_index P cs) = Some (i, q) \<Longrightarrow> i < length cs \<and> q = cs ! i" for P
    using find_index_Some [of P cs] by (auto simp: comment_at_def)
  have "findLatestItervoxQuestionComment cs = Some (i, q) \<Longrightarrow> i < length cs \<and> q = cs ! i"
    using find_index_Some [of _ "rev cs"] by (fastforce simp: findLatestItervoxQuestionComment_def comment_at_def)
  then show ?thesis using assms at_pos by (auto simp: findTrackedQuestionComment_def split: if_splits option.splits)
qed

text \<open>A comment by a human other than the author of the question.\<close>

definition human_answer :: "comment \<Rightarrow> comment \<Rightarrow> bool" where
  "human_answer question c \<longleftrightarrow> \<not> has_prefix (cm_Body c) itervoxCommentPrefix \<and> \<not> IsManagedComment c \<and>
     \<not> sameCommentAuthor c question"

definition question_of :: "comment list \<Rightarrow> input_required_entry \<Rightarrow> comment" where
  "question_of cs e = (case findTrackedQuestionComment cs e of Some (i, q) \<Rightarrow> q | None \<Rightarrow> zero_comment)"

lemma find_first: "List.find P xs = Some r \<Longrightarrow> r \<in> set xs \<and> P r"
  by (auto simp: find_Some_iff)

text \<open>
  C25. Only a human answer to this question resumes the agent. The reply that is found is a comment of
  a human other than the question's author, never one of Itervox's own. It stands below the tracked
  question, or, for a question posted under a key, was written after the question was queued. When a
  key is recorded the tracked question is the comment with that key, so a reply to an older question
  above it is never taken. And if such an answer stands below the question, one is found.
\<close>

theorem reply_is_human_answer:
  "(\<forall>r. find_reply cs e = Some r \<longrightarrow> r \<in> set cs \<and> human_answer (question_of cs e) r \<and>
      ((\<exists>i. findTrackedQuestionComment cs e = Some (i, cs ! i) \<and> i < length cs \<and> r \<in> set (drop (i + 1) cs)) \<or>
       ir_QuestionCommentKey e \<noteq> [] \<and> (\<exists>t. cm_CreatedAt r = Some t \<and> ir_QueuedAt e < t)))
   \<and> (\<forall>i q. findTrackedQuestionComment cs e = Some (i, q) \<and> ir_QuestionCommentKey e \<noteq> [] \<longrightarrow>
      cm_ID q = ir_QuestionCommentKey e \<or> CommentHasKey (cm_Body q) (ir_QuestionCommentKey e))
   \<and> (\<forall>i q r. findTrackedQuestionComment cs e = Some (i, q) \<and> r \<in> set (drop (i + 1) cs) \<and> human_answer q r \<longrightarrow>
      find_reply cs e \<noteq> None)"
proof (intro conjI allI impI)
  fix r
  assume r: "find_reply cs e = Some r"
  consider (after) i q where "findTrackedQuestionComment cs e = Some (i, q)" "findReplyAfterQuestion cs i q = Some r"
    | (since) "ir_QuestionCommentKey e \<noteq> []" "findReplySince cs (ir_QueuedAt e) (question_of cs e) = Some r"
    using r by (auto simp: find_reply_def question_of_def Let_def split: option.splits if_splits)
  then have "r \<in> set cs \<and> human_answer (question_of cs e) r \<and>
      ((\<exists>i. findTrackedQuestionComment cs e = Some (i, cs ! i) \<and> i < length cs \<and> r \<in> set (drop (i + 1) cs)) \<or>
       ir_QuestionCommentKey e \<noteq> [] \<and> (\<exists>t. cm_CreatedAt r = Some t \<and> ir_QueuedAt e < t))"
  proof cases
    case (after i q)
    from find_first [OF after(2) [unfolded findReplyAfterQuestion_def]] have "r \<in> set (drop (i + 1) cs)" "human_answer q r"
      by (simp_all add: human_answer_def)
    then show ?thesis using after(1) tracked_position [OF after(1)] in_set_dropD by (fastforce simp: question_of_def)
  next
    case since
    from since(2) have "List.find (\<lambda>c. (case cm_CreatedAt c of None \<Rightarrow> False | Some t \<Rightarrow> ir_QueuedAt e < t) \<and>
        \<not> (has_prefix (cm_Body c) itervoxCommentPrefix \<or> IsManagedComment c) \<and>
        \<not> sameCommentAuthor c (question_of cs e)) cs = Some r" by (simp add: findReplySince_def split: if_splits)
    from find_first [OF this] since(1) show ?thesis by (auto simp: human_answer_def split: option.splits)
  qed
  then show "r \<in> set cs" "human_answer (question_of cs e) r"
      "(\<exists>i. findTrackedQuestionComment cs e = Some (i, cs ! i) \<and> i < length cs \<and> r \<in> set (drop (i + 1) cs)) \<or>
       ir_QuestionCommentKey e \<noteq> [] \<and> (\<exists>t. cm_CreatedAt r = Some t \<and> ir_QueuedAt e < t)" by blast+
next
  fix i q
  assume "findTrackedQuestionComment cs e = Some (i, q) \<and> ir_QuestionCommentKey e \<noteq> []"
  then show "cm_ID q = ir_QuestionCommentKey e \<or> CommentHasKey (cm_Body q) (ir_QuestionCommentKey e)"
    by (auto simp: findTrackedQuestionComment_def comment_at_def dest: find_index_Some)
next
  fix i q r
  assume a: "findTrackedQuestionComment cs e = Some (i, q) \<and> r \<in> set (drop (i + 1) cs) \<and> human_answer q r"
  then have "findReplyAfterQuestion cs i q \<noteq> None"
    by (auto simp: findReplyAfterQuestion_def human_answer_def find_None_iff)
  then show "find_reply cs e \<noteq> None" using a by (auto simp: find_reply_def Let_def split: option.split)
qed

definition ex_comments :: "comment list" where
  "ex_comments =
     [\<lparr>cm_ID = ''old'', cm_Body = itervoxCommentPrefix @ ''old question'', cm_CreatedAt = None, cm_AuthorID = ''bot'', cm_AuthorName = []\<rparr>,
      \<lparr>cm_ID = ''c1'', cm_Body = ''old answer'', cm_CreatedAt = Some 5, cm_AuthorID = ''ann'', cm_AuthorName = []\<rparr>,
      \<lparr>cm_ID = ''k-1'', cm_Body = itervoxCommentPrefix @ ''new question'', cm_CreatedAt = Some 20, cm_AuthorID = ''bot'', cm_AuthorName = []\<rparr>,
      \<lparr>cm_ID = ''c2'', cm_Body = ''new answer'', cm_CreatedAt = Some 30, cm_AuthorID = ''ann'', cm_AuthorName = []\<rparr>]"

definition ex_asked :: input_required_entry where
  "ex_asked = (inputRequiredEntryFromPending ex_pending)\<lparr>ir_QuestionCommentKey := ''k-1'', ir_QueuedAt := 10\<rparr>"

theorem reply_is_human_answer_witness:
  "\<exists>r \<in> set ex_comments. find_reply ex_comments ex_asked = Some r \<and> cm_Body r = ''new answer'' \<and>
     human_answer (question_of ex_comments ex_asked) r"
proof -
  have f: "find_reply ex_comments ex_asked = Some (ex_comments ! 3)" by code_simp
  have "cm_Body (ex_comments ! 3) = ''new answer''" by (simp add: ex_comments_def)
  then show ?thesis using reply_is_human_answer [of ex_comments ex_asked] f by blast
qed

section \<open>Fairness of the polling budget\<close>

interpretation older: strict_weak_order older_check
  by unfold_locales (auto simp: older_check_def)

lemma filter_takeWhile_sorted:
  "sorted_wrt (\<lambda>x y. snd x \<le> snd y) xs \<Longrightarrow> filter (\<lambda>x. snd x < (B :: int)) xs = takeWhile (\<lambda>x. snd x < B) xs"
proof (induction xs)
  case (Cons x xs)
  show ?case
  proof (cases "snd x < B")
    case False
    then have "filter (\<lambda>x. snd x < B) xs = []" using Cons.prems by (auto simp: filter_empty_conv)
    then show ?thesis using False by simp
  qed (use Cons in simp)
qed simp

lemma map_prefix:
  assumes "zs = take (length zs) xs"
  shows "map f zs = take (length (map f zs)) (map f xs)"
  using arg_cong [OF assms, of "map f"] unfolding take_map length_map .

lemma take_swap: "us = take n xs \<Longrightarrow> take n (take b xs) = take b us"
  by (simp add: min.commute)

text \<open>
  What one tick does to the entries that wait for an answer: none appears, a selected one leaves or
  is stamped with the time, and every other one stays as it was.
\<close>

definition rechecked ::
  "time \<Rightarrow> string set \<Rightarrow> (string, input_required_entry) gomap \<Rightarrow> (string, input_required_entry) gomap \<Rightarrow> bool" where
  "rechecked t sel m m' \<longleftrightarrow> mwf m' \<and> (\<forall>k. k \<notin> sel \<longrightarrow> mget m' k = mget m k) \<and>
     (\<forall>k e'. k \<in> sel \<longrightarrow> mget m' k = Some e' \<longrightarrow>
        ir_LastReplyCheckAt e' = t \<and> (\<exists>e. mget m k = Some e \<and> ir_IssueID e' = ir_IssueID e))"

lemma parked_dispatch_all:
  assumes "mhas (s_InputRequiredIssues (snd d)) (is_Identifier issue)"
    and "list_all (\<lambda>a. tr_Type (ad_Trigger a) \<noteq> AutomationTriggerInputRequired) as"
  shows "s_InputRequiredIssues (snd (dispatch_all cfg now issue d as)) = s_InputRequiredIssues (snd d)"
  using assms unfolding dispatch_all_def
proof (induction as arbitrary: d)
  case (Cons a as)
  let ?d = "fst (dispatchOrQueueAutomation cfg now d issue a)"
  obtain s1 fresh where c: "claimPROpenedDedup (snd d) issue a = (s1, fresh)" by (cases "claimPROpenedDedup (snd d) issue a")
  have s1: "s_InputRequiredIssues s1 = s_InputRequiredIssues (snd d)"
    using c by (auto simp: claimPROpenedDedup_def Let_def split: if_splits)
  have "s_InputRequiredIssues (fst (enqueueAutomation s1 issue a r now)) = s_InputRequiredIssues s1" for r
    unfolding enqueueAutomation_def Let_def
    by (cases "automationQueueReasonFromString r")
      (simp_all add: split_beta ensureAutomationQueueState_def recordAutomationQueueRejected_def
        refreshAutomationQueueBackpressure_def Let_def split: option.split)
  then have "s_InputRequiredIssues (snd ?d) = s_InputRequiredIssues (snd d)"
    using Cons.prems s1 unfolding dispatchOrQueueAutomation_def Let_def c prod.case queue_automation_def
    by (simp add: split_beta)
  with Cons.IH [of ?d] Cons.prems show ?case by simp
qed simp

lemma audit_inputs: "s_InputRequiredIssues (fst (auditFetchedIssueDependencies c s issue now)) = s_InputRequiredIssues s"
  by (simp add: auditFetchedIssueDependencies_def auditIssueDependencies_def recordObservedIssueState_def
      appendIssueStatusChange_def updateAutomationQueueIssueFromDependencyAudit_def Let_def)

lemma parked_audit:
  assumes "mhas (s_InputRequiredIssues (snd d)) (is_Identifier issue)"
  shows "s_InputRequiredIssues (snd (fst (auditFetchedIssueDependenciesAndDispatch restacker rules cfg d issue now)))
    = s_InputRequiredIssues (snd d)"
proof -
  obtain s1 entry where a: "auditFetchedIssueDependencies now (snd d) issue now = (s1, entry)"
    by (cases "auditFetchedIssueDependencies now (snd d) issue now")
  have s1: "s_InputRequiredIssues s1 = s_InputRequiredIssues (snd d)"
    using audit_inputs [of now "snd d" issue now] a by simp
  have r: "s_InputRequiredIssues (fst (restack_or_park restacker cfg s issue now)) = s_InputRequiredIssues s"
    if "mhas (s_InputRequiredIssues s) (is_Identifier issue)" for s
    using that by (auto simp: restack_or_park_def restackUnblockedIssue_def markRestackConflict_def Let_def split: option.split)
  have br: "s_InputRequiredIssues (snd (dispatchMatchingBlockersResolvedAutomations rules cfg (o', s) issue entry now)) = s_InputRequiredIssues s"
    if "mhas (s_InputRequiredIssues s) (is_Identifier issue)" for o' s
    unfolding dispatchMatchingBlockersResolvedAutomations_def using that
    by (auto simp: list_all_iff blockers_resolved_dispatch_def empty_trigger_def AutomationTriggerInputRequired_def
        AutomationTriggerBlockersResolved_def intro!: trans [OF parked_dispatch_all])
  show ?thesis
    using assms s1 r unfolding auditFetchedIssueDependenciesAndDispatch_def a Let_def prod.case
    by (simp add: split_beta br)
qed

definition unpolled :: "int \<Rightarrow> (string, input_required_entry) gomap \<Rightarrow> string list" where
  "unpolled B m = map fst (filter (\<lambda>x. unix_nano (ir_LastReplyCheckAt (snd x)) < B) m)"

lemma select_unpolled:
  assumes "0 < budget"
  shows "\<exists>us. mset us = mset (unpolled B m) \<and> take (length us) (selectTrackerReplyCheckBatch m budget) = take (nat budget) us"
proof (cases "m = []")
  case True
  then show ?thesis by (simp add: unpolled_def selectTrackerReplyCheckBatch_def selectLeastRecentlyChecked_def)
next
  case False
  let ?ys = "map (\<lambda>(k, e). (k, unix_nano (ir_LastReplyCheckAt e))) m"
  let ?xs = "stable_sort older_check ?ys"
  let ?us = "map fst (filter (\<lambda>x. snd x < B) ?xs)"
  have "sorted_wrt (\<lambda>x y. snd x \<le> snd y) ?xs"
    using older.sorted_stable_sort by (rule sorted_wrt_mono_rel [rotated]) (auto simp: older_check_def)
  then have "filter (\<lambda>x. snd x < B) ?xs = takeWhile (\<lambda>x. snd x < B) ?xs" by (rule filter_takeWhile_sorted)
  then have "filter (\<lambda>x. snd x < B) ?xs = take (length (filter (\<lambda>x. snd x < B) ?xs)) ?xs"
    by (simp only: takeWhile_eq_take [symmetric])
  then have us: "?us = take (length ?us) (map fst ?xs)" by (rule map_prefix)
  have "unpolled B m = map fst (filter (\<lambda>x. snd x < B) ?ys)"
    by (simp add: unpolled_def filter_map comp_def split_beta)
  then have "mset ?us = mset (unpolled B m)" by simp
  moreover have sel: "selectTrackerReplyCheckBatch m budget = take (nat budget) (map fst ?xs)"
    using assms False by (simp add: selectTrackerReplyCheckBatch_def selectLeastRecentlyChecked_def take_map)
  have "take (length ?us) (selectTrackerReplyCheckBatch m budget) = take (nat budget) ?us"
    unfolding sel by (rule take_swap [OF us])
  ultimately show ?thesis by blast
qed




lemma warn_fields [simp]:
  "ir_LastReplyCheckAt (warnIfQuestionStuck q e) = ir_LastReplyCheckAt e" "ir_IssueID (warnIfQuestionStuck q e) = ir_IssueID e"
  by (simp_all add: warnIfQuestionStuck_def split: option.split)

lemma check_reply_rechecked:
  assumes "check_reply env cfg t prefetched d ident = Some d'" and "mwf (s_InputRequiredIssues (snd d))"
    and "\<And>e i. mget (s_InputRequiredIssues (snd d)) ident = Some e \<Longrightarrow>
      fetch_detail (le_tracker env) prefetched (ir_IssueID e) = Fetched i \<Longrightarrow> is_Identifier i = ident"
  shows "rechecked t {ident} (s_InputRequiredIssues (snd d)) (s_InputRequiredIssues (snd d'))"
proof (cases "mget (s_InputRequiredIssues (snd d)) ident")
  case None
  then show ?thesis using assms by (simp add: check_reply_def rechecked_def)
next
  case (Some e)
  let ?e = "warnIfQuestionStuck (le_outbox env) (e\<lparr>ir_LastReplyCheckAt := t\<rparr>)"
  let ?d1 = "put_input_required d ident ?e"
  have d1: "rechecked t {ident} (s_InputRequiredIssues (snd d)) (s_InputRequiredIssues (snd ?d1))"
    using assms(2) Some by (simp add: rechecked_def put_input_required_def)
  show ?thesis
  proof (cases "fetch_detail (le_tracker env) prefetched (ir_IssueID e)")
    case (Fetched i)
    let ?d2 = "fst (auditFetchedIssueDependenciesAndDispatch (le_restacker env) (le_rules env) cfg ?d1 i t)"
    have d2: "s_InputRequiredIssues (snd ?d2) = s_InputRequiredIssues (snd ?d1)"
      using assms(3) [OF Some Fetched] by (intro parked_audit) (simp add: put_input_required_def)
    have "d' = ?d2 \<or> (\<exists>p. d' = queue_resume ?d2 ident p)"
      using assms(1) Some Fetched by (auto simp: check_reply_def Let_def split: option.splits if_splits)
    then have "s_InputRequiredIssues (snd d') = s_InputRequiredIssues (snd ?d1) \<or>
        s_InputRequiredIssues (snd d') = mdel (s_InputRequiredIssues (snd ?d1)) ident"
      using d2 by (auto simp: queue_resume_def)
    then show ?thesis using d1 by (auto simp: rechecked_def)
  qed (use assms(1) Some d1 in \<open>simp_all add: check_reply_def Let_def\<close>)
qed

lemma rechecked_trans:
  assumes "rechecked t S m m1" and "rechecked t T m1 m2"
  shows "rechecked t (S \<union> T) m m2"
  unfolding rechecked_def
proof (intro conjI allI impI)
  show "mwf m2" using assms(2) by (simp add: rechecked_def)
  show "mget m2 k = mget m k" if "k \<notin> S \<union> T" for k using assms that by (simp add: rechecked_def)
  fix k e'
  assume k: "k \<in> S \<union> T" "mget m2 k = Some e'"
  show "ir_LastReplyCheckAt e' = t"
    using assms k by (cases "k \<in> T") (auto simp: rechecked_def)
  show "\<exists>e. mget m k = Some e \<and> ir_IssueID e' = ir_IssueID e"
    using assms k by (cases "k \<in> T"; cases "k \<in> S") (fastforce simp: rechecked_def)+
qed

text \<open>The tracker answers with the issue that was asked for, by its identifier.\<close>

definition named :: "(string \<Rightarrow> string) \<Rightarrow> (string, input_required_entry) gomap \<Rightarrow> bool" where
  "named name m \<longleftrightarrow> mwf m \<and> (\<forall>k e. mget m k = Some e \<longrightarrow> k = name (ir_IssueID e))"

lemma rechecked_named:
  assumes "named name m" and "rechecked t S m m'"
  shows "named name m'"
  unfolding named_def
proof (intro conjI allI impI)
  show "mwf m'" using assms(2) by (simp add: rechecked_def)
  show "k = name (ir_IssueID e)" if "mget m' k = Some e" for k e
    using assms that by (cases "k \<in> S") (fastforce simp: named_def rechecked_def)+
qed

lemma check_replies_rechecked:
  assumes "tracker_faithful env name"
    and "check_replies env cfg t (PrefetchDetails (le_batch env) ids) idents d = Some d'"
    and "named name (s_InputRequiredIssues (snd d))"
  shows "rechecked t (set idents) (s_InputRequiredIssues (snd d)) (s_InputRequiredIssues (snd d'))"
  using assms(2,3)
proof (induction idents arbitrary: d)
  case (Cons ident idents)
  let ?p = "PrefetchDetails (le_batch env) ids"
  obtain d1 where d1: "check_reply env cfg t ?p d ident = Some d1" "check_replies env cfg t ?p idents d1 = Some d'"
    using Cons.prems(1) by (cases "check_reply env cfg t ?p d ident") auto
  have r: "rechecked t {ident} (s_InputRequiredIssues (snd d)) (s_InputRequiredIssues (snd d1))"
    using Cons.prems(2) fetched_faithful [OF assms(1)] by (intro check_reply_rechecked [OF d1(1)]) (auto simp: named_def)
  from rechecked_trans [OF r Cons.IH [OF d1(2) rechecked_named [OF Cons.prems(2) r]]] show ?case by simp
qed (auto simp: rechecked_def named_def)

lemma tick_rechecked:
  assumes "tracker_faithful env name" and "checkTrackerReplies env cfg t d = Some d'"
    and "named name (s_InputRequiredIssues (snd d))"
  shows "rechecked t (set (selectTrackerReplyCheckBatch (s_InputRequiredIssues (snd d)) trackerReplyCheckPerTickBudget))
    (s_InputRequiredIssues (snd d)) (s_InputRequiredIssues (snd d'))"
proof (cases "s_InputRequiredIssues (snd d) = []")
  case True
  then show ?thesis using assms(2) by (simp add: checkTrackerReplies_def rechecked_def)
next
  case False
  then show ?thesis
    using assms(2) check_replies_rechecked [OF assms(1) _ assms(3)] by (simp add: checkTrackerReplies_def Let_def)
qed

text \<open>The issues that a run of ticks asks the tracker about; \<open>None\<close> when a tick panics.\<close>

fun polled :: "loop_env \<Rightarrow> config \<Rightarrow> time list \<Rightarrow> daemon \<Rightarrow> string set option" where
  "polled env cfg [] d = Some {}"
| "polled env cfg (t # ts) d =
     Option.bind (checkTrackerReplies env cfg t d) (\<lambda>d'.
       map_option (\<lambda>ks. set (selectTrackerReplyCheckBatch (s_InputRequiredIssues (snd d)) trackerReplyCheckPerTickBudget) \<union> ks)
         (polled env cfg ts d'))"

lemma unpolled_iff:
  "mwf m \<Longrightarrow> k \<in> set (unpolled B m) \<longleftrightarrow> (\<exists>e. mget m k = Some e \<and> unix_nano (ir_LastReplyCheckAt e) < B)"
  by (auto simp: unpolled_def mwf_def mkeys_def image_iff Bex_def)

lemma unpolled_tick:
  assumes "rechecked t sel m m'" and "mwf m" and "B \<le> unix_nano t"
  shows "set (unpolled B m') = set (unpolled B m) - sel"
proof -
  have "mwf m'" using assms(1) by (simp add: rechecked_def)
  then have "k \<in> set (unpolled B m') \<longleftrightarrow> k \<in> set (unpolled B m) - sel" for k
    using assms unpolled_iff [of m'] unpolled_iff [of m] by (cases "k \<in> sel") (auto simp: rechecked_def)
  then show ?thesis by blast
qed

lemma polled_all:
  assumes "tracker_faithful env name" and "\<forall>t \<in> set ts. B \<le> unix_nano t"
    and "named name (s_InputRequiredIssues (snd d))" and "polled env cfg ts d = Some ks"
    and "length (unpolled B (s_InputRequiredIssues (snd d))) \<le> 5 * length ts"
  shows "set (unpolled B (s_InputRequiredIssues (snd d))) \<subseteq> ks"
  using assms(2-)
proof (induction ts arbitrary: d ks)
  case (Cons t ts)
  let ?m = "s_InputRequiredIssues (snd d)"
  let ?s = "selectTrackerReplyCheckBatch ?m trackerReplyCheckPerTickBudget"
  obtain d' js where d': "checkTrackerReplies env cfg t d = Some d'" "polled env cfg ts d' = Some js" "ks = set ?s \<union> js"
    using Cons.prems(3) by (auto simp: bind_eq_Some_conv)
  let ?m' = "s_InputRequiredIssues (snd d')"
  have r: "rechecked t (set ?s) ?m ?m'" using tick_rechecked [OF assms(1) d'(1) Cons.prems(2)] .
  have wf: "mwf ?m" "mwf ?m'" using Cons.prems(2) r by (simp_all add: named_def rechecked_def)
  have left: "set (unpolled B ?m') = set (unpolled B ?m) - set ?s" using unpolled_tick [OF r wf(1)] Cons.prems(1) by simp
  obtain us where us: "mset us = mset (unpolled B ?m)" "take (length us) ?s = take 5 us"
    using select_unpolled [of trackerReplyCheckPerTickBudget B ?m] by (auto simp: trackerReplyCheckPerTickBudget_def)
  have dist: "distinct (unpolled B ?m)" "distinct (unpolled B ?m')"
    using wf by (simp_all add: unpolled_def mwf_def mkeys_def distinct_map_filter)
  have d: "distinct us" "set us = set (unpolled B ?m)" "length us = length (unpolled B ?m)"
    using mset_eq_setD [OF us(1)] mset_eq_length [OF us(1)] mset_eq_imp_distinct_iff [OF us(1)] dist(1) by simp_all
  have "set (take 5 us) \<subseteq> set ?s" using us(2) by (metis set_take_subset)
  then have "set (unpolled B ?m') \<subseteq> set (drop 5 us)"
    using left d(2) set_append [of "take 5 us" "drop 5 us"] by auto
  then have "length (unpolled B ?m') \<le> length (drop 5 us)"
    using dist(2) d(1) by (metis card_mono distinct_card distinct_drop finite_set)
  then have "length (unpolled B ?m') \<le> 5 * length ts" using Cons.prems(4) d(3) by simp
  then have "set (unpolled B ?m') \<subseteq> js"
    using Cons.IH [OF _ rechecked_named [OF Cons.prems(2) r] d'(2)] Cons.prems(1) by simp
  then show ?case using left d'(3) by auto
qed simp

lemma polled_total:
  assumes "\<And>k. tk_FetchIssueDetail (le_tracker env) k \<noteq> FetchNil"
  obtains ks where "polled env cfg ts d = Some ks"
proof -
  have one: "\<exists>d'. check_reply env cfg t prefetched d ident = Some d'" for t prefetched d ident
    using assms by (simp add: check_reply_def fetch_detail_def Let_def split: option.split issue_fetch.split)
  have "\<exists>d'. check_replies env cfg t prefetched idents d = Some d'" for t prefetched idents d
  proof (induction idents arbitrary: d)
    case (Cons ident idents)
    obtain d1 where "check_reply env cfg t prefetched d ident = Some d1" using one by blast
    then show ?case using Cons.IH [of d1] by simp
  qed simp
  then have tick: "\<exists>d'. checkTrackerReplies env cfg t d = Some d'" for t d
    by (simp add: checkTrackerReplies_def Let_def)
  have "\<exists>ks. polled env cfg ts d = Some ks"
  proof (induction ts arbitrary: d)
    case (Cons t ts)
    obtain d' where "checkTrackerReplies env cfg t d = Some d'" using tick by blast
    then show ?case using Cons.IH [of d'] by auto
  qed simp
  then show ?thesis using that by blast
qed

text \<open>
  The polling budget is fair. With \<open>N\<close> issues that wait for an answer, all last checked
  before the ticks begin, and a tracker that answers a fetch with the issue asked for (and never with a
  missing issue and no error), every one of them is asked about within \<open>N / 5\<close> ticks, rounded up:
  no entry starves behind others, whether or not their fetches fail.
\<close>

theorem reply_checks_fair:
  assumes "tracker_faithful env name" and "\<forall>k. tk_FetchIssueDetail (le_tracker env) k \<noteq> FetchNil"
    and "named name (s_InputRequiredIssues (snd d))"
    and "\<forall>e \<in> snd ` set (s_InputRequiredIssues (snd d)). unix_nano (ir_LastReplyCheckAt e) < B"
    and "\<forall>t \<in> set ts. B \<le> unix_nano t" and "length (s_InputRequiredIssues (snd d)) \<le> 5 * length ts"
  shows "\<exists>ks. polled env cfg ts d = Some ks \<and> set (mkeys (s_InputRequiredIssues (snd d))) \<subseteq> ks"
proof -
  let ?m = "s_InputRequiredIssues (snd d)"
  obtain ks where ks: "polled env cfg ts d = Some ks" using polled_total assms(2) by blast
  have "unpolled B ?m = mkeys ?m" using assms(4) by (simp add: unpolled_def mkeys_def)
  then show ?thesis
    using polled_all [OF assms(1,5,3) ks] assms(6) ks by (simp add: mkeys_def)
qed

definition ex_backlog :: daemon where
  "ex_backlog = (fst ex_waiting, (snd ex_waiting)\<lparr>s_InputRequiredIssues := map (\<lambda>k. (k, (inputRequiredEntryFromPending ex_pending)\<lparr>
     ir_IssueID := ''id-'' @ k, ir_Identifier := k\<rparr>)) [''A-1'', ''A-2'', ''A-3'', ''A-4'', ''A-5'', ''A-6'', ''A-7'']\<rparr>)"

theorem reply_checks_fair_witness:
  "\<exists>ks. polled ex_env ex_config [62135596801 * second, 62135596802 * second] ex_backlog = Some ks \<and>
     {''A-1'', ''A-2'', ''A-3'', ''A-4'', ''A-5'', ''A-6'', ''A-7''} \<subseteq> ks"
proof -
  have n: "named (drop 3) (s_InputRequiredIssues (snd ex_backlog))"
    by (simp add: named_def ex_backlog_def mwf_def mkeys_def)
  have e: "\<forall>e \<in> snd ` set (s_InputRequiredIssues (snd ex_backlog)). unix_nano (ir_LastReplyCheckAt e) < second" by code_simp
  have t: "\<forall>t \<in> set [62135596801 * second, 62135596802 * second]. second \<le> unix_nano t" by code_simp
  have k: "mkeys (s_InputRequiredIssues (snd ex_backlog)) = [''A-1'', ''A-2'', ''A-3'', ''A-4'', ''A-5'', ''A-6'', ''A-7'']"
    by (simp add: ex_backlog_def mkeys_def)
  show ?thesis
    using reply_checks_fair [OF ex_env_faithful _ n e t, of ex_config] k by (simp add: ex_env_def ex_backlog_def)
qed

end
