(* ===== verification/Failures.thy ===== *)
theory Failures
  imports Input_Resume
begin

text \<open>
  The failures an operator sees: the bounded ring of \<open>internal/orchestrator/recent_failures.go\<close> and the last tracker error of
  \<open>tracker_error.go\<close>. The redaction of secrets (\<open>logging.RedactString\<close>, compiled regular expressions) is an argument. An error of the tracker is
  its text together with the reset time if it is a rate limit; log lines are not modelled.
\<close>

section \<open>The ring of recent failures\<close>

definition FailureKindWorkerFailed :: string where "FailureKindWorkerFailed = ''worker_failed''"
definition FailureKindWorkerStalled :: string where "FailureKindWorkerStalled = ''worker_stalled''"
definition FailureKindTrackerPoll :: string where "FailureKindTrackerPoll = ''tracker_poll''"
definition FailureKindTrackerWrite :: string where "FailureKindTrackerWrite = ''tracker_write''"

definition RecentFailuresCap :: nat where "RecentFailuresCap = 100"
definition failureMessageMaxBytes :: nat where "failureMessageMaxBytes = 1024"

definition ellipsis :: string where
  "ellipsis = [CHR 0xE2, CHR 0x80, CHR 0xA6]"

fun cut_back :: "string \<Rightarrow> nat \<Rightarrow> nat" where
  "cut_back msg 0 = 0"
| "cut_back msg (Suc n) = (if rune_start (msg ! Suc n) then Suc n else cut_back msg n)"

definition sanitizeFailureMessage :: "(string \<Rightarrow> string) \<Rightarrow> string \<Rightarrow> string" where
  "sanitizeFailureMessage redact msg =
     (let m = trim_space (redact msg)
      in if length m \<le> failureMessageMaxBytes then m
         else take (cut_back m (failureMessageMaxBytes - length ellipsis)) m @ ellipsis)"

definition sanitizeFailureField :: "string \<Rightarrow> string" where
  "sanitizeFailureField s = (if length s \<le> 128 then s else take (cut_back s 128) s)"

definition coalescesBySource :: "string \<Rightarrow> bool" where
  "coalescesBySource kind = (kind = FailureKindTrackerPoll)"

definition same_source :: "failure_record \<Rightarrow> failure_record \<Rightarrow> bool" where
  "same_source f e = (fr_Kind e = fr_Kind f \<and> fr_Identifier e = fr_Identifier f \<and> fr_Source e = fr_Source f)"

definition same_failure :: "failure_record \<Rightarrow> failure_record \<Rightarrow> bool" where
  "same_failure f e = (same_source f e \<and> fr_Message e = fr_Message f)"

definition prepared_failure :: "(string \<Rightarrow> string) \<Rightarrow> failure_record \<Rightarrow> time \<Rightarrow> failure_record" where
  "prepared_failure redact f now =
     f\<lparr>fr_Message := sanitizeFailureMessage redact (fr_Message f), fr_Identifier := sanitizeFailureField (fr_Identifier f),
       fr_Source := sanitizeFailureField (fr_Source f), fr_OccurredAt := (if isZero (fr_OccurredAt f) then now else fr_OccurredAt f),
       fr_RecordedAt := now, fr_Count := max (fr_Count f) 1\<rparr>"

definition merge_source :: "failure_record \<Rightarrow> failure_record \<Rightarrow> failure_record" where
  "merge_source f e = f\<lparr>fr_Count := fr_Count f + fr_Count e, fr_OccurredAt := max (fr_OccurredAt f) (fr_OccurredAt e)\<rparr>"

definition repeat_last :: "failure_record \<Rightarrow> failure_record \<Rightarrow> time \<Rightarrow> failure_record" where
  "repeat_last f e now = e\<lparr>fr_Count := fr_Count e + fr_Count f, fr_RecordedAt := now,
     fr_OccurredAt := max (fr_OccurredAt e) (fr_OccurredAt f)\<rparr>"

definition push_failure :: "failure_record list \<Rightarrow> failure_record \<Rightarrow> time \<Rightarrow> failure_record list" where
  "push_failure ring f now =
     (case (if coalescesBySource (fr_Kind f) then find_index (same_source f) ring else None) of
        Some i \<Rightarrow> take i ring @ drop (Suc i) ring @ [merge_source f (ring ! i)]
      | None \<Rightarrow>
          if ring \<noteq> [] \<and> same_failure f (last ring) then butlast ring @ [repeat_last f (last ring) now]
          else drop (length ring + 1 - RecentFailuresCap) ring @ [f])"

definition appendRecentFailure :: "(string \<Rightarrow> string) \<Rightarrow> state \<Rightarrow> failure_record \<Rightarrow> time \<Rightarrow> state" where
  "appendRecentFailure redact s f now =
     s\<lparr>s_RecentFailures := push_failure (s_RecentFailures s) (prepared_failure redact f now) now\<rparr>"

definition SeedRecentFailures :: "failure_record list \<Rightarrow> failure_record list" where
  "SeedRecentFailures entries = drop (length entries - RecentFailuresCap) entries"

section \<open>Tracker errors\<close>

record tracker_failure =
  tf_text :: string
  tf_reset :: "time option"

definition TrackerErrorKindOutage :: string where "TrackerErrorKindOutage = ''outage''"
definition TrackerErrorKindRateLimited :: string where "TrackerErrorKindRateLimited = ''rate_limited''"
definition TrackerErrorOpPoll :: string where "TrackerErrorOpPoll = ''poll''"
definition TrackerErrorOpUpdateState :: string where "TrackerErrorOpUpdateState = ''update_state''"
definition PollFailureEscalationThreshold :: int where "PollFailureEscalationThreshold = 3"
definition trackerWriteErrorTTL :: duration where "trackerWriteErrorTTL = hour"

definition classifyTrackerError :: "string \<Rightarrow> tracker_failure option \<Rightarrow> time \<Rightarrow> tracker_error_info" where
  "classifyTrackerError op err now =
     (case err of
        None \<Rightarrow> \<lparr>te_At = now, te_Op = op, te_Kind = TrackerErrorKindOutage, te_Message = [], te_ResetAt = 0\<rparr>
      | Some e \<Rightarrow> (case tf_reset e of
          None \<Rightarrow> \<lparr>te_At = now, te_Op = op, te_Kind = TrackerErrorKindOutage, te_Message = tf_text e, te_ResetAt = 0\<rparr>
        | Some reset \<Rightarrow> \<lparr>te_At = now, te_Op = op, te_Kind = TrackerErrorKindRateLimited, te_Message = tf_text e, te_ResetAt = reset\<rparr>))"

text \<open>What the readiness probe reads of the last poll (\<open>readiness.go\<close>).\<close>

record poll_status =
  ps_lastPollOK :: bool
  ps_pollRateLimited :: bool
  ps_pollShedding :: bool
  ps_pollFailures :: int

definition publishPollStatus :: "state \<Rightarrow> bool \<Rightarrow> bool \<Rightarrow> poll_status" where
  "publishPollStatus s ok rateLimited = \<lparr>ps_lastPollOK = ok, ps_pollRateLimited = rateLimited, ps_pollShedding = False,
     ps_pollFailures = min (s_ConsecutivePollFailures s) (2 ^ 30)\<rparr>"

definition publishPollShedding :: "state \<Rightarrow> poll_status" where
  "publishPollShedding s = \<lparr>ps_lastPollOK = False, ps_pollRateLimited = False, ps_pollShedding = True,
     ps_pollFailures = min (s_ConsecutivePollFailures s) (2 ^ 30)\<rparr>"

definition poll_failure :: "tracker_error_info \<Rightarrow> time \<Rightarrow> failure_record" where
  "poll_failure info now = \<lparr>fr_Kind = FailureKindTrackerPoll, fr_Identifier = [], fr_Source = TrackerErrorOpPoll,
     fr_Message = te_Message info, fr_OccurredAt = now, fr_RecordedAt = 0, fr_Count = 0\<rparr>"

definition recordPollFailure :: "(string \<Rightarrow> string) \<Rightarrow> state \<Rightarrow> tracker_failure \<Rightarrow> time \<Rightarrow> state \<times> poll_status" where
  "recordPollFailure redact s err now =
     (let info = classifyTrackerError TrackerErrorOpPoll (Some err) now;
          s1 = s\<lparr>s_LastTrackerError := info\<rparr>
      in if te_Kind info = TrackerErrorKindRateLimited then (s1, publishPollStatus s1 False True)
         else let s2 = appendRecentFailure redact (s1\<lparr>s_ConsecutivePollFailures := s_ConsecutivePollFailures s1 + 1\<rparr>)
                         (poll_failure info now) now
              in (s2, publishPollStatus s2 False False))"

definition recordPollSuccess :: "state \<Rightarrow> time \<Rightarrow> state \<times> poll_status" where
  "recordPollSuccess s now =
     (let s1 = s\<lparr>s_ConsecutivePollFailures := 0\<rparr>; e = s_LastTrackerError s;
          s2 = (if isZero (te_At e) then s1
                else if te_Op e = TrackerErrorOpPoll then s1\<lparr>s_LastTrackerError := zero_tracker_error\<rparr>
                else if trackerWriteErrorTTL < time_sub now (te_At e) then s1\<lparr>s_LastTrackerError := zero_tracker_error\<rparr>
                else s1)
      in (s2, publishPollStatus s2 True False))"

definition recordTrackerWriteFailure :: "state \<Rightarrow> string \<Rightarrow> tracker_failure option \<Rightarrow> time \<Rightarrow> state" where
  "recordTrackerWriteFailure s op err now =
     (if err = None then s else s\<lparr>s_LastTrackerError := classifyTrackerError op err now\<rparr>)"

section \<open>The invariant of the ring\<close>

definition source_key :: "failure_record \<Rightarrow> string \<times> string \<times> string" where
  "source_key e = (fr_Kind e, fr_Identifier e, fr_Source e)"

definition entry_bounded :: "failure_record \<Rightarrow> bool" where
  "entry_bounded e = (length (fr_Message e) \<le> failureMessageMaxBytes \<and> length (fr_Identifier e) \<le> 128 \<and>
     length (fr_Source e) \<le> 128 \<and> 1 \<le> fr_Count e)"

definition ring_ok :: "failure_record list \<Rightarrow> bool" where
  "ring_ok ring = (length ring \<le> RecentFailuresCap \<and> list_all entry_bounded ring \<and>
     distinct (map source_key (filter (\<lambda>e. coalescesBySource (fr_Kind e)) ring)))"

definition record_failures :: "(string \<Rightarrow> string) \<Rightarrow> state \<Rightarrow> (failure_record \<times> time) list \<Rightarrow> state" where
  "record_failures redact s fs = foldl (\<lambda>s (f, now). appendRecentFailure redact s f now) s fs"

lemma same_source_key: "same_source f e \<longleftrightarrow> source_key e = source_key f"
  by (auto simp: same_source_def source_key_def)

lemma cut_back_le: "cut_back msg n \<le> n"
  by (induction n) (simp_all add: le_SucI)

lemma sanitized_message: "length (sanitizeFailureMessage redact msg) \<le> failureMessageMaxBytes"
  using cut_back_le [of "trim_space (redact msg)" "failureMessageMaxBytes - length ellipsis"]
  by (simp add: sanitizeFailureMessage_def Let_def failureMessageMaxBytes_def ellipsis_def)

lemma sanitized_field: "length (sanitizeFailureField s) \<le> 128"
  using cut_back_le [of s 128] by (simp add: sanitizeFailureField_def)

lemma prepared_bounded: "entry_bounded (prepared_failure redact f now)"
  by (simp add: entry_bounded_def prepared_failure_def sanitized_message sanitized_field)

lemma find_index_SomeD:
  assumes "find_index P xs = Some i"
  shows "i < length xs" "P (xs ! i)" "xs = take i xs @ xs ! i # drop (Suc i) xs"
proof -
  have "i < length xs \<and> P (xs ! i)" using assms
    by (induction xs arbitrary: i) (auto split: if_splits)
  then show "i < length xs" "P (xs ! i)" "xs = take i xs @ xs ! i # drop (Suc i) xs" by (simp_all add: id_take_nth_drop)
qed

lemma find_index_NoneD: "find_index P xs = None \<Longrightarrow> \<forall>x \<in> set xs. \<not> P x"
  by (induction xs) (auto split: if_splits)

text \<open>With the invariant, the entry that coalesces is the only one of its source.\<close>

lemma others_of_source:
  assumes "ring_ok ring" and "coalescesBySource (fr_Kind f)" and "find_index (same_source f) ring = Some i"
  shows "take i ring @ drop (Suc i) ring = filter (\<lambda>e. \<not> same_source f e) ring"
proof -
  note i = find_index_SomeD [OF assms(3)]
  let ?xs = "take i ring" and ?ys = "drop (Suc i) ring"
  have k: "source_key (ring ! i) = source_key f" "coalescesBySource (fr_Kind (ring ! i))"
    using i(2) assms(2) by (simp_all add: same_source_key) (simp add: source_key_def)
  have "distinct (map source_key (filter (\<lambda>e. coalescesBySource (fr_Kind e)) (?xs @ ring ! i # ?ys)))"
    using assms(1) i(3) unfolding ring_ok_def by (metis (no_types, lifting))
  then have "source_key f \<notin> source_key ` {e \<in> set ?xs. coalescesBySource (fr_Kind e)}"
    "source_key f \<notin> source_key ` {e \<in> set ?ys. coalescesBySource (fr_Kind e)}"
    using k by (auto simp: image_iff)
  then have o: "\<forall>e \<in> set ?xs \<union> set ?ys. \<not> same_source f e"
    using assms(2) unfolding same_source_key by (metis (mono_tags, lifting) UnE fst_conv image_eqI mem_Collect_eq source_key_def)
  have "filter (\<lambda>e. \<not> same_source f e) (?xs @ ring ! i # ?ys) = ?xs @ ?ys"
    using o i(2) by (simp add: filter_id_conv)
  then show ?thesis using i(3) by simp
qed

lemma push_ok:
  assumes "ring_ok ring" and "entry_bounded f"
  shows "ring_ok (push_failure ring f now)"
proof (cases "if coalescesBySource (fr_Kind f) then find_index (same_source f) ring else None")
  case (Some i)
  then have c: "coalescesBySource (fr_Kind f)" "find_index (same_source f) ring = Some i" by (auto split: if_splits)
  note i = find_index_SomeD [OF c(2)]
  have b: "entry_bounded (ring ! i)" using assms(1) i(1) by (simp add: ring_ok_def list_all_length)
  have "push_failure ring f now = filter (\<lambda>e. \<not> same_source f e) ring @ [merge_source f (ring ! i)]"
    using Some others_of_source [OF assms(1) c] by (simp add: push_failure_def)
  moreover have "length (filter (\<lambda>e. \<not> same_source f e) ring) < length ring"
    by (rule length_filter_less [of "ring ! i"]) (use i in simp_all)
  moreover have "source_key (merge_source f (ring ! i)) = source_key f" by (simp add: source_key_def merge_source_def)
  moreover have "distinct (map source_key (filter (\<lambda>e. coalescesBySource (fr_Kind e)) (filter (\<lambda>e. \<not> same_source f e) ring)))"
    using assms(1) distinct_map_filter [of source_key "filter (\<lambda>e. coalescesBySource (fr_Kind e)) ring" "\<lambda>e. \<not> same_source f e"]
    unfolding ring_ok_def by (simp add: conj_commute)
  ultimately show ?thesis
    using assms b by (auto simp: ring_ok_def list_all_iff same_source_key entry_bounded_def merge_source_def)
next
  case None
  show ?thesis
  proof (cases "ring \<noteq> [] \<and> same_failure f (last ring)")
    case True
    then obtain xs e where ring: "ring = xs @ [e]" by (metis rev_exhaust)
    have "source_key (repeat_last f e now) = source_key e" "fr_Kind (repeat_last f e now) = fr_Kind e"
      by (simp_all add: source_key_def repeat_last_def)
    then show ?thesis
      using assms None True
      by (auto simp: push_failure_def ring ring_ok_def entry_bounded_def repeat_last_def)
  next
    case False
    let ?n = "length ring + 1 - RecentFailuresCap"
    have "distinct (map source_key (filter (\<lambda>e. coalescesBySource (fr_Kind e)) (drop ?n ring)))"
      using assms(1) unfolding ring_ok_def by (metis (no_types, lifting) append_take_drop_id distinct_append filter_append map_append)
    moreover have "source_key f \<notin> source_key ` set (filter (\<lambda>e. coalescesBySource (fr_Kind e)) (drop ?n ring))"
      if "coalescesBySource (fr_Kind f)"
      using find_index_NoneD [of "same_source f" ring] that None by (auto simp: same_source_key dest: in_set_dropD)
    moreover have "list_all entry_bounded (drop ?n ring)"
      using assms(1) by (auto simp: ring_ok_def list_all_iff dest: in_set_dropD)
    ultimately show ?thesis
      using assms None False by (auto simp: push_failure_def ring_ok_def RecentFailuresCap_def)
  qed
qed

lemma record_failures_ok: "ring_ok (s_RecentFailures s) \<Longrightarrow> ring_ok (s_RecentFailures (record_failures redact s fs))"
  unfolding record_failures_def
  by (induction fs arbitrary: s) (auto simp: appendRecentFailure_def push_ok prepared_bounded)

text \<open>
  The ring of recent failures is bounded in every direction: whatever failures are recorded, it has at most a
  hundred entries, each of at most 1024 bytes of redacted text, and at most one entry per polled source.
\<close>

theorem failure_ring_bounded:
  assumes "s_RecentFailures s = []"
  shows "ring_ok (s_RecentFailures (record_failures redact s fs))"
  using assms by (intro record_failures_ok) (simp add: ring_ok_def RecentFailuresCap_def)

lemma push_poll:
  assumes "ring_ok ring" and "coalescesBySource (fr_Kind f)" and "others = filter (\<lambda>e. \<not> same_source f e) ring"
  shows "\<exists>k e. push_failure ring f now = drop k others @ [e] \<and> k \<le> (if others = ring then 1 else 0) \<and> same_source f e
    \<and> fr_Count e = fr_Count f + sum_list (map fr_Count (filter (same_source f) ring))"
proof (cases "find_index (same_source f) ring")
  case None
  have o: "others = ring" "filter (same_source f) ring = []"
    using find_index_NoneD [OF None] assms(3) by (simp_all add: filter_id_conv)
  have "\<not> (ring \<noteq> [] \<and> same_failure f (last ring))"
    using find_index_NoneD [OF None] by (auto simp: same_failure_def)
  then have "push_failure ring f now = drop (length ring + 1 - RecentFailuresCap) ring @ [f]"
    using None assms(2) by (auto simp: push_failure_def)
  moreover have "length ring + 1 - RecentFailuresCap \<le> 1" using assms(1) by (auto simp: ring_ok_def)
  moreover have "same_source f f" by (simp add: same_source_def)
  ultimately show ?thesis using o by auto
next
  case (Some i)
  note i = find_index_SomeD [OF Some] and ot = others_of_source [OF assms(1,2) Some]
  have sum: "sum_list (map fr_Count (filter (same_source f) ring)) = fr_Count (ring ! i)"
  proof -
    have "\<forall>e \<in> set (take i ring @ drop (Suc i) ring). \<not> same_source f e" unfolding ot by simp
    then have "filter (same_source f) (take i ring @ ring ! i # drop (Suc i) ring) = [ring ! i]"
      using i(2) by (simp add: filter_empty_conv)
    then show ?thesis using i(3) by simp
  qed
  have "push_failure ring f now = drop 0 others @ [merge_source f (ring ! i)]"
    using Some assms(2,3) ot by (simp add: push_failure_def)
  moreover have "same_source f (merge_source f (ring ! i))" by (simp add: same_source_def merge_source_def)
  ultimately show ?thesis using sum by (intro exI [of _ 0] exI [of _ "merge_source f (ring ! i)"]) (simp add: merge_source_def)
qed

definition poll_entry :: "failure_record \<Rightarrow> bool" where
  "poll_entry e = (fr_Kind e = FailureKindTrackerPoll \<and> fr_Identifier e = [] \<and> fr_Source e = TrackerErrorOpPoll)"

definition outage :: "(string \<Rightarrow> string) \<Rightarrow> state \<Rightarrow> (string \<times> time) list \<Rightarrow> state" where
  "outage redact s errs =
     foldl (\<lambda>s (msg, now). fst (recordPollFailure redact s \<lparr>tf_text = msg, tf_reset = None\<rparr> now)) s errs"

lemma outage_snoc:
  fixes redact s errs msg now
  defines "info \<equiv> classifyTrackerError TrackerErrorOpPoll (Some \<lparr>tf_text = msg, tf_reset = None\<rparr>) now"
    and "s1 \<equiv> outage redact s errs"
  shows "s_RecentFailures (outage redact s (errs @ [(msg, now)])) =
      push_failure (s_RecentFailures s1) (prepared_failure redact (poll_failure info now) now) now"
    and "s_ConsecutivePollFailures (outage redact s (errs @ [(msg, now)])) = s_ConsecutivePollFailures s1 + 1"
  by (simp_all add: outage_def info_def s1_def recordPollFailure_def Let_def appendRecentFailure_def classifyTrackerError_def
      TrackerErrorKindOutage_def TrackerErrorKindRateLimited_def)

lemma poll_source: "same_source (prepared_failure redact (poll_failure info now) at') = poll_entry"
  by (auto simp: fun_eq_iff same_source_def poll_entry_def prepared_failure_def poll_failure_def sanitizeFailureField_def TrackerErrorOpPoll_def)

text \<open>
  C14. A sustained outage is one entry. However long polling fails and however the error msg varies, the ring ends
  with a single entry for the poll, which counts every failure, and at most one other failure has been evicted.
\<close>

theorem sustained_outage_is_one_entry:
  assumes "ring_ok (s_RecentFailures s)" and "errs \<noteq> []"
  shows "\<exists>k e. s_RecentFailures (outage redact s errs) = drop k (filter (\<lambda>e. \<not> poll_entry e) (s_RecentFailures s)) @ [e]
    \<and> k \<le> 1 \<and> poll_entry e
    \<and> fr_Count e = int (length errs) + sum_list (map fr_Count (filter poll_entry (s_RecentFailures s)))
    \<and> s_ConsecutivePollFailures (outage redact s errs) = s_ConsecutivePollFailures s + int (length errs)"
proof -
  let ?others = "filter (\<lambda>e. \<not> poll_entry e) (s_RecentFailures s)"
  let ?P = "\<lambda>errs k e. s_RecentFailures (outage redact s errs) = drop k ?others @ [e] \<and> k \<le> 1 \<and> poll_entry e
    \<and> fr_Count e = int (length errs) + sum_list (map fr_Count (filter poll_entry (s_RecentFailures s)))
    \<and> s_ConsecutivePollFailures (outage redact s errs) = s_ConsecutivePollFailures s + int (length errs)"
  have ok: "ring_ok (s_RecentFailures (outage redact s es))" for es
    by (induction es rule: rev_induct) (use assms(1) in \<open>auto simp: outage_snoc push_ok prepared_bounded\<close>, simp add: outage_def)
  have cnt: "fr_Count (prepared_failure redact (poll_failure info now) now) = 1"
    and coal: "coalescesBySource (fr_Kind (prepared_failure redact (poll_failure info now) now))" for info now
    by (simp_all add: prepared_failure_def poll_failure_def coalescesBySource_def)
  have "\<exists>k e. ?P errs k e" using assms(2)
  proof (induction errs rule: rev_induct)
    case (snoc x errs)
    obtain msg now where x: "x = (msg, now)" by (cases x)
    let ?ring = "s_RecentFailures (outage redact s errs)"
    note snocs = outage_snoc [of redact s errs msg now]
    note p = push_poll [OF ok [of errs] coal refl, unfolded poll_source cnt]
    show ?case
    proof (cases "errs = []")
      case True
      then have r: "?ring = s_RecentFailures s" "s_ConsecutivePollFailures (outage redact s errs) = s_ConsecutivePollFailures s"
        by (simp_all add: outage_def)
      obtain k e where "push_failure ?ring (prepared_failure redact (poll_failure (classifyTrackerError TrackerErrorOpPoll
          (Some \<lparr>tf_text = msg, tf_reset = None\<rparr>) now) now) now) now = drop k (filter (\<lambda>e. \<not> poll_entry e) ?ring) @ [e]"
        "k \<le> (if filter (\<lambda>e. \<not> poll_entry e) ?ring = ?ring then 1 else 0)" "poll_entry e"
        "fr_Count e = 1 + sum_list (map fr_Count (filter poll_entry ?ring))"
        using p by blast
      then show ?thesis
        using True snocs r by (intro exI [of _ k] exI [of _ e]) (auto simp: x split: if_splits)
    next
      case False
      obtain k e where ih: "?P errs k e" using snoc.IH [OF False] by blast
      let ?o = "drop k ?others"
      have f: "filter (\<lambda>e. \<not> poll_entry e) ?ring = ?o" "filter poll_entry ?ring = [e]"
        using ih by (auto simp: filter_id_conv filter_empty_conv dest: in_set_dropD)
      have ne: "?o \<noteq> ?ring" using ih by simp
      obtain j e' where "push_failure ?ring (prepared_failure redact (poll_failure (classifyTrackerError TrackerErrorOpPoll
          (Some \<lparr>tf_text = msg, tf_reset = None\<rparr>) now) now) now) now = drop j ?o @ [e']"
        "j \<le> (if ?o = ?ring then 1 else 0)" "poll_entry e'" "fr_Count e' = 1 + sum_list (map fr_Count [e])"
        using p unfolding f by blast
      then show ?thesis
        using ih ne snocs by (intro exI [of _ k] exI [of _ e']) (simp add: x)
    qed
  qed simp
  then show ?thesis by blast
qed

theorem sustained_outage_is_one_entry_witness:
  "\<exists>e. s_RecentFailures (outage (\<lambda>m. m) ex_state [(''no route'', 5), (''502'', 6)]) = [e] \<and> fr_Count e = 2"
proof -
  have r: "s_RecentFailures ex_state = []" by (simp add: ex_defs)
  then have "ring_ok (s_RecentFailures ex_state)" by (simp add: ring_ok_def)
  from sustained_outage_is_one_entry [OF this, of "[(''no route'', 5), (''502'', 6)]" "\<lambda>m. m"] show ?thesis
    by (auto simp: r)
qed

end
