(* ===== verification/Failure_Text.thy ===== *)
theory Failure_Text
  imports Failures
begin

text \<open>
  The text of a failed turn: how the runners assemble it (\<open>internal/agent/failure_text.go\<close>), how it is split
  again, and how the event loop recognises a vendor limit or a transport failure in it
  (\<open>automation_rate_limited.go\<close>, \<open>transport_error.go\<close>). Redaction is an argument; lower casing is that of ASCII.
\<close>

section \<open>Assembling and splitting\<close>

definition maxFailureTextBytes :: nat where "maxFailureTextBytes = 65536"
definition maxAgentFailureBytes :: nat where "maxAgentFailureBytes = 16384"
definition failureTextTruncationMarker :: string where "failureTextTruncationMarker = ''[...truncated...]''"
definition failureTextSeparator :: string where "failureTextSeparator = '' | ''"
definition failureTextStderrLabel :: string where "failureTextStderrLabel = ''stderr: ''"

definition keepHead :: "string \<Rightarrow> nat \<Rightarrow> string" where
  "keepHead s n =
     (if length s \<le> n then s
      else take (cut_back s (n - length failureTextTruncationMarker)) s @ failureTextTruncationMarker)"

definition keepTail :: "string \<Rightarrow> nat \<Rightarrow> string" where
  "keepTail s n =
     (if length s \<le> n then s
      else failureTextTruncationMarker @
        dropWhile (\<lambda>c. \<not> rune_start c) (drop (length s - (n - length failureTextTruncationMarker)) s))"

definition formatFailureText :: "(string \<Rightarrow> string) \<Rightarrow> string \<Rightarrow> string \<Rightarrow> string option \<Rightarrow> string" where
  "formatFailureText redact agentFailure0 rawStderr waitErr =
     (let agentFailure = keepHead agentFailure0 maxAgentFailureBytes;
          stderr = trim_space rawStderr;
          budget = maxFailureTextBytes - length failureTextStderrLabel -
            (if agentFailure \<noteq> [] then length agentFailure + length failureTextSeparator else 0);
          parts = (if agentFailure \<noteq> [] then [agentFailure] else []) @
            (if stderr \<noteq> [] then [failureTextStderrLabel @ keepTail stderr budget] else []) @
            (case waitErr of
               Some e \<Rightarrow> if agentFailure = [] \<and> stderr = []
                 then [keepHead (''exit: '' @ redact e) maxFailureTextBytes] else []
             | None \<Rightarrow> [])
      in join_with failureTextSeparator parts)"

datatype read_error = ReadCanceled | ReadFailed string

definition resolveFailureText :: "(string \<Rightarrow> string) \<Rightarrow> string \<Rightarrow> string \<Rightarrow> string option \<Rightarrow> read_error option \<Rightarrow> string" where
  "resolveFailureText redact parsedFailure rawStderr waitErr readErr =
     (let parsed = redact parsedFailure; stderr = redact rawStderr
      in if parsed \<noteq> [] then formatFailureText redact parsed stderr waitErr
         else case readErr of
           Some ReadCanceled \<Rightarrow> []
         | Some (ReadFailed e) \<Rightarrow> formatFailureText redact (redact e) stderr waitErr
         | None \<Rightarrow> formatFailureText redact parsed stderr waitErr)"

fun index_of :: "string \<Rightarrow> string \<Rightarrow> nat option" where
  "index_of [] sub = (if sub = [] then Some 0 else None)"
| "index_of (c # s) sub = (if has_prefix (c # s) sub then Some 0 else map_option Suc (index_of s sub))"

definition has_suffix :: "string \<Rightarrow> string \<Rightarrow> bool" where
  "has_suffix s suf = (length suf \<le> length s \<and> drop (length s - length suf) s = suf)"

lemma index_of_SomeD:
  assumes "index_of s sub = Some i"
  shows "i + length sub \<le> length s" "has_prefix (drop i s) sub" "\<forall>j < i. \<not> has_prefix (drop j s) sub"
proof -
  have "i + length sub \<le> length s \<and> has_prefix (drop i s) sub \<and> (\<forall>j < i. \<not> has_prefix (drop j s) sub)" using assms
  proof (induction s arbitrary: i)
    case (Cons c s)
    show ?case
    proof (cases "has_prefix (c # s) sub")
      case True
      then have "length sub \<le> length (c # s)" by (metis has_prefix_def length_take min.cobounded1)
      then show ?thesis using True Cons.prems by simp
    next
      case False
      then obtain k where "i = Suc k" "index_of s sub = Some k" using Cons.prems by auto
      then show ?thesis using Cons.IH False by (auto simp: less_Suc_eq_0_disj)
    qed
  qed (auto simp: has_prefix_def split: if_splits)
  then show "i + length sub \<le> length s" "has_prefix (drop i s) sub" "\<forall>j < i. \<not> has_prefix (drop j s) sub" by blast+
qed

lemma index_of_NoneD: "index_of s sub = None \<Longrightarrow> \<not> has_prefix (drop j s) sub"
  by (induction s arbitrary: j) (auto simp: has_prefix_def drop_Cons split: if_splits nat.split)

lemma index_of_eqI:
  assumes "has_prefix (drop i s) sub" and "\<forall>j < i. \<not> has_prefix (drop j s) sub"
  shows "index_of s sub = Some i"
proof (cases "index_of s sub")
  case None
  then show ?thesis using assms(1) index_of_NoneD by blast
next
  case (Some k)
  then show ?thesis using index_of_SomeD(2,3) [OF Some] assms by (metis linorder_neqE_nat)
qed

function split_from :: "string \<Rightarrow> nat \<Rightarrow> string \<times> string" where
  "split_from s from =
     (case index_of (drop from s) failureTextStderrLabel of
        None \<Rightarrow> (s, [])
      | Some i \<Rightarrow>
          let k = from + i; before = take k s; rest = drop (k + length failureTextStderrLabel) s
          in if k = 0 then ([], rest)
             else if has_suffix before failureTextSeparator then (take (k - length failureTextSeparator) s, rest)
             else if has_suffix before '': '' then (before, rest)
             else split_from s (k + length failureTextStderrLabel))"
  by pat_completeness auto
termination
proof (relation "measure (\<lambda>(s, from). length s - from)", goal_cases)
  case (2 s f i k before rest)
  then show ?case using index_of_SomeD(1) [OF 2(1)] by (simp add: failureTextStderrLabel_def)
qed simp

declare split_from.simps [simp del]

definition SplitFailureText :: "string \<Rightarrow> string \<times> string" where
  "SplitFailureText s = split_from s 0"

section \<open>Recognising limits and transport failures\<close>

definition isWordByte :: "char \<Rightarrow> bool" where
  "isWordByte c = (let n = (of_char c :: nat) in 97 \<le> n \<and> n \<le> 122 \<or> 65 \<le> n \<and> n \<le> 90 \<or> 48 \<le> n \<and> n \<le> 57)"

function word_from :: "string \<Rightarrow> nat \<Rightarrow> nat \<Rightarrow> string \<Rightarrow> bool" where
  "word_from s off hi word =
     (if off < hi
      then case index_of (take (hi - off) (drop off s)) word of
             None \<Rightarrow> False
           | Some i \<Rightarrow>
               let start = off + i; e = start + length word; stop = (if e < length s \<and> s ! e = CHR ''s'' then Suc e else e)
               in if (start = 0 \<or> \<not> isWordByte (s ! (start - 1))) \<and> (stop = length s \<or> \<not> isWordByte (s ! stop)) then True
                  else word_from s (start + 1) hi word
      else False)"
  by pat_completeness auto
termination by (relation "measure (\<lambda>(s, off, hi, word). hi - off)") auto

declare word_from.simps [simp del]

definition containsWordIn :: "string \<Rightarrow> nat \<Rightarrow> nat \<Rightarrow> string \<Rightarrow> bool" where
  "containsWordIn s lo hi word = word_from s lo hi word"

definition clause_lead :: string where "clause_lead = ''you'' @ [CHR 0x27] @ ''ve hit your''"
definition clause_qualifiers :: "string list" where "clause_qualifiers = [''limit'', ''budget'', ''spend cap'']"
definition clause_gap :: nat where "clause_gap = 48"

definition ends_clause :: "char \<Rightarrow> bool" where
  "ends_clause c = (c \<in> set ''.;:!?'' \<or> c = CHR 0x0A)"

definition clause_end :: "string \<Rightarrow> nat \<Rightarrow> nat" where
  "clause_end lower lo = lo + length (takeWhile (\<lambda>c. \<not> ends_clause c) (take clause_gap (drop lo lower)))"

function clause_from :: "string \<Rightarrow> nat \<Rightarrow> bool" where
  "clause_from lower from =
     (case index_of (drop from lower) clause_lead of
        None \<Rightarrow> False
      | Some i \<Rightarrow>
          let lo = from + i + length clause_lead; hi = clause_end lower lo
          in if list_ex (containsWordIn lower lo hi) clause_qualifiers then True else clause_from lower lo)"
  by pat_completeness auto
termination
proof (relation "measure (\<lambda>(lower, from). length lower - from)", goal_cases)
  case (2 lower f i lo hi)
  then show ?case using index_of_SomeD(1) [OF 2(1)] by (simp add: clause_lead_def)
qed simp

declare clause_from.simps [simp del]

definition clause_matches :: "string \<Rightarrow> bool" where
  "clause_matches lower = clause_from lower 0"

fun fold_apostrophes :: "string \<Rightarrow> string" where
  "fold_apostrophes [] = []"
| "fold_apostrophes (c # s) =
     (if has_prefix (c # s) [CHR 0xE2, CHR 0x80, CHR 0x99] \<or> has_prefix (c # s) [CHR 0xE2, CHR 0x80, CHR 0x98]
      then CHR 0x27 # fold_apostrophes (drop 2 s) else c # fold_apostrophes s)"

definition normaliseForRateLimitMatch :: "string \<Rightarrow> string" where
  "normaliseForRateLimitMatch s = to_lower (fold_apostrophes s)"

fun http_429 :: "bool \<Rightarrow> string \<Rightarrow> bool" where
  "http_429 edge [] = False"
| "http_429 edge (c # s) =
     (edge \<and> has_prefix (c # s) ''429'' \<and> (case drop 2 s of [] \<Rightarrow> True | d # _ \<Rightarrow> \<not> is_digit d) \<or> http_429 (\<not> is_digit c) s)"

definition standaloneHTTP429 :: "string \<Rightarrow> bool" where
  "standaloneHTTP429 s = http_429 True s"

definition defaultRateLimitErrorPatterns :: "string list" where
  "defaultRateLimitErrorPatterns =
     [''rate_limit_exceeded'', ''rate limit'', ''http 429'', ''status: 429'', ''(429)'', ''429 too many requests'',
      ''insufficient_quota'', ''quota exceeded for'', ''usage quota'', ''exceeded your current quota'', ''too many requests'',
      ''out of extra usage'', ''reached the limit for your current claude'', ''out of credits'', ''resets at'',
      ''you hit your spend cap'', ''usage limit'', ''session limit'', ''weekly limit'', ''spend limit'', ''spend cap'',
      ''credit balance is too low'', ''credits required'', ''temporarily limiting requests'']"

definition IsRateLimitFailureWithPatternsMode :: "string \<Rightarrow> string list \<Rightarrow> string \<Rightarrow> bool" where
  "IsRateLimitFailureWithPatternsMode errorMessage patterns mode =
     (if errorMessage = [] then False
      else let lower = normaliseForRateLimitMatch errorMessage; custom = filter (\<lambda>p. p \<noteq> []) patterns
      in if list_ex (\<lambda>p. contains lower (normaliseForRateLimitMatch p)) custom then True
         else if custom \<noteq> [] \<and> mode \<noteq> ''extend'' then False
         else clause_matches lower \<or> list_ex (\<lambda>p. contains lower (normaliseForRateLimitMatch p)) defaultRateLimitErrorPatterns \<or>
              standaloneHTTP429 (fst (SplitFailureText lower)))"

definition IsTransportFailure :: "string \<Rightarrow> string list \<Rightarrow> bool" where
  "IsTransportFailure errMsg patterns =
     (if errMsg = [] \<or> patterns = [] then False
      else list_ex (\<lambda>p. let q = trim_space (to_lower p) in q \<noteq> [] \<and> contains (to_lower errMsg) q) patterns)"

section \<open>Properties\<close>

lemma has_prefixD: "has_prefix s p \<Longrightarrow> \<exists>t. s = p @ t"
  unfolding has_prefix_def by (metis append_take_drop_id)

lemma contains_at: "contains s sub \<longleftrightarrow> (\<exists>j. has_prefix (drop j s) sub)"
proof (induction s)
  case Nil
  show ?case by (auto simp: has_prefix_def)
next
  case (Cons c s)
  show ?case
  proof
    assume "contains (c # s) sub"
    then show "\<exists>j. has_prefix (drop j (c # s)) sub" using Cons.IH
      by (metis contains.simps(2) drop0 drop_Suc_Cons)
  next
    assume "\<exists>j. has_prefix (drop j (c # s)) sub"
    then obtain j where "has_prefix (drop j (c # s)) sub" by blast
    then show "contains (c # s) sub" using Cons.IH by (cases j) auto
  qed
qed

lemma keepHead_length: "length failureTextTruncationMarker \<le> n \<Longrightarrow> length (keepHead s n) \<le> n"
  using cut_back_le [of s "n - length failureTextTruncationMarker"] by (auto simp: keepHead_def min_def)

lemma keepTail_length: "length failureTextTruncationMarker \<le> n \<Longrightarrow> length (keepTail s n) \<le> n"
  using length_dropWhile_le [of "\<lambda>c. \<not> rune_start c" "drop (length s - (n - length failureTextTruncationMarker)) s"]
  unfolding keepTail_def length_drop by auto

lemma token_lengths [simp]: "length failureTextStderrLabel = 8" "length failureTextSeparator = 3"
  by (simp_all add: failureTextStderrLabel_def failureTextSeparator_def)

text \<open>The first label of an assembled text is the one that was written, unless the agent's message has its own.\<close>

lemma label_position:
  assumes "\<not> contains (a @ '' '') failureTextStderrLabel"
  shows "index_of (a @ failureTextSeparator @ failureTextStderrLabel @ t) failureTextStderrLabel = Some (length a + length failureTextSeparator)"
proof (rule index_of_eqI)
  let ?s = "a @ failureTextSeparator @ failureTextStderrLabel @ t"
  show "has_prefix (drop (length a + length failureTextSeparator) ?s) failureTextStderrLabel"
    by (simp add: has_prefix_def)
  show "\<forall>j < length a + length failureTextSeparator. \<not> has_prefix (drop j ?s) failureTextStderrLabel"
  proof (intro allI impI notI)
    fix j assume j: "j < length a + length failureTextSeparator" and h: "has_prefix (drop j ?s) failureTextStderrLabel"
    have c: "take 8 (drop j ?s) = failureTextStderrLabel" using h by (simp add: has_prefix_def)
    show False
    proof (cases "j + 8 \<le> Suc (length a)")
      case True
      then have "take 8 (drop j (a @ '' '')) = failureTextStderrLabel"
        using c by (cases "j + 8 = Suc (length a)") (simp_all add: failureTextSeparator_def take_Cons')
      then have "has_prefix (drop j (a @ '' '')) failureTextStderrLabel" by (simp add: has_prefix_def)
      then show False using assms contains_at by blast
    next
      case False
      let ?k = "length a - j"
      have n: "take 8 (drop j ?s) ! i = failureTextStderrLabel ! i" for i using c by simp
      show False
      proof (cases "j \<le> length a")
        case True
        then have "?k < 7" using False by simp
        then have "take 8 (drop j ?s) ! ?k = CHR '' ''" "take 8 (drop j ?s) ! Suc ?k = CHR ''|''"
          using True by (simp_all add: nth_append failureTextSeparator_def)
        moreover have "failureTextStderrLabel ! i \<noteq> CHR '' '' \<or> failureTextStderrLabel ! Suc i \<noteq> CHR ''|''" if "i < 7" for i
          using that by (auto simp: failureTextStderrLabel_def less_Suc_eq numeral_eq_Suc)
        ultimately show False using n \<open>?k < 7\<close> by metis
      next
        case past: False
        then have "j = Suc (length a) \<or> j = Suc (Suc (length a))" using j by (auto simp: failureTextSeparator_def)
        then show False using n [of 0] by (auto simp: failureTextSeparator_def failureTextStderrLabel_def nth_append)
      qed
    qed
  qed
qed

lemma split_separated:
  assumes "\<not> contains (a @ '' '') failureTextStderrLabel"
  shows "SplitFailureText (a @ failureTextSeparator @ failureTextStderrLabel @ t) = (a, t)"
  using label_position [OF assms, of t]
  by (simp add: SplitFailureText_def split_from.simps [of _ 0] has_suffix_def Let_def)

lemma split_stderr_only: "SplitFailureText (failureTextStderrLabel @ t) = ([], t)"
proof -
  have "index_of (failureTextStderrLabel @ t) failureTextStderrLabel = Some 0"
    by (rule index_of_eqI) simp_all
  then show ?thesis by (simp add: SplitFailureText_def split_from.simps [of _ 0])
qed

lemma split_no_label:
  assumes "\<not> contains a failureTextStderrLabel"
  shows "SplitFailureText a = (a, [])"
proof -
  have "index_of a failureTextStderrLabel = None"
    using assms index_of_SomeD(2) [of a failureTextStderrLabel] by (cases "index_of a failureTextStderrLabel") (auto simp: contains_at)
  then show ?thesis by (simp add: SplitFailureText_def split_from.simps [of _ 0])
qed

text \<open>
  C13. The text of a failed turn never exceeds 64 KiB, and it can be taken apart again: when both parts fit and the agent's message
  does not contain the label, splitting an assembled text gives back the agent's message and the standard error.
\<close>

theorem failure_text_splits:
  assumes "stderr = trim_space rawStderr" and "length agentFailure \<le> maxAgentFailureBytes"
    and "length agentFailure + length stderr + 11 \<le> maxFailureTextBytes"
    and "\<not> contains (agentFailure @ '' '') failureTextStderrLabel" and "agentFailure \<noteq> [] \<or> stderr \<noteq> []"
  shows "SplitFailureText (formatFailureText redact agentFailure rawStderr waitErr) = (agentFailure, stderr)
    \<and> length (formatFailureText redact a r w) \<le> maxFailureTextBytes"
proof
  have head: "keepHead agentFailure maxAgentFailureBytes = agentFailure" using assms(2) by (simp add: keepHead_def)
  have tail: "keepTail stderr budget = stderr" if "length stderr \<le> budget" for budget using that by (simp add: keepTail_def)
  have plain: "\<not> contains agentFailure failureTextStderrLabel"
  proof
    assume "contains agentFailure failureTextStderrLabel"
    then obtain j where "has_prefix (drop j agentFailure) failureTextStderrLabel" by (auto simp: contains_at)
    then have "has_prefix (drop j (agentFailure @ '' '')) failureTextStderrLabel"
      by (cases "j \<le> length agentFailure") (auto simp: failureTextStderrLabel_def dest!: has_prefixD, simp add: has_prefix_def)
    then show False using assms(4) contains_at by blast
  qed
  consider (both) "agentFailure \<noteq> []" "stderr \<noteq> []" | (agent) "agentFailure \<noteq> []" "stderr = []" | (err) "agentFailure = []" "stderr \<noteq> []"
    using assms(5) by blast
  then show "SplitFailureText (formatFailureText redact agentFailure rawStderr waitErr) = (agentFailure, stderr)"
  proof cases
    case both
    have "formatFailureText redact agentFailure rawStderr waitErr = agentFailure @ failureTextSeparator @ failureTextStderrLabel @ stderr"
      using both assms(3) unfolding formatFailureText_def Let_def head assms(1) [symmetric]
      by (simp add: tail split: option.split)
    then show ?thesis using split_separated [OF assms(4)] by simp
  next
    case agent
    have "formatFailureText redact agentFailure rawStderr waitErr = agentFailure"
      using agent unfolding formatFailureText_def Let_def head assms(1) [symmetric] by (simp split: option.split)
    then show ?thesis using split_no_label [OF plain] agent by simp
  next
    case err
    have "formatFailureText redact agentFailure rawStderr waitErr = failureTextStderrLabel @ stderr"
      using err assms(3) head unfolding formatFailureText_def Let_def assms(1) [symmetric]
      by (simp add: tail keepHead_def split: option.split)
    then show ?thesis using split_stderr_only err by simp
  qed
  let ?a = "keepHead a maxAgentFailureBytes" and ?e = "trim_space r"
  let ?b = "maxFailureTextBytes - length failureTextStderrLabel - (if ?a \<noteq> [] then length ?a + length failureTextSeparator else 0)"
  have la: "length ?a \<le> 16384" using keepHead_length [of maxAgentFailureBytes a] by (simp add: maxAgentFailureBytes_def failureTextTruncationMarker_def)
  then have "17 \<le> ?b" by (auto simp: maxFailureTextBytes_def)
  then have lt: "length (keepTail ?e ?b) \<le> ?b" using keepTail_length [of ?b ?e] by (simp add: failureTextTruncationMarker_def)
  have lh: "length (keepHead x maxFailureTextBytes) \<le> maxFailureTextBytes" for x
    using keepHead_length [of maxFailureTextBytes x] by (simp add: maxFailureTextBytes_def failureTextTruncationMarker_def)
  show "length (formatFailureText redact a r w) \<le> maxFailureTextBytes"
    using la lt lh [of "''exit: '' @ redact (the w)"] unfolding formatFailureText_def Let_def
    by (auto simp: maxFailureTextBytes_def split: option.split if_splits)
qed

theorem failure_text_splits_witness:
  "SplitFailureText (formatFailureText (\<lambda>m. m) ''boom'' '' trace '' None) = (''boom'', ''trace'')"
proof -
  have "''trace'' = trim_space '' trace ''" "\<not> contains (''boom'' @ '' '') failureTextStderrLabel" by code_simp+
  moreover have "length ''boom'' \<le> maxAgentFailureBytes" "length ''boom'' + length ''trace'' + 11 \<le> maxFailureTextBytes"
    by (simp_all add: maxAgentFailureBytes_def maxFailureTextBytes_def)
  ultimately show ?thesis using failure_text_splits [of "''trace''" "'' trace ''" "''boom''" "\<lambda>m. m" None] by simp
qed

text \<open>A whole word at a position, read in the text around it; a plural s belongs to the word.\<close>

definition whole_word :: "string \<Rightarrow> nat \<Rightarrow> string \<Rightarrow> bool" where
  "whole_word s start word =
     (has_prefix (drop start s) word \<and> (start = 0 \<or> \<not> isWordByte (s ! (start - 1))) \<and>
      (let e = start + length word; stop = (if e < length s \<and> s ! e = CHR ''s'' then Suc e else e)
       in stop = length s \<or> \<not> isWordByte (s ! stop)))"

lemma prefix_in_window:
  assumes "word \<noteq> []" and "off \<le> start" and "hi \<le> length s"
  shows "has_prefix (drop (start - off) (take (hi - off) (drop off s))) word \<longleftrightarrow>
    start + length word \<le> hi \<and> has_prefix (drop start s) word"
proof -
  have eq: "drop (start - off) (take (hi - off) (drop off s)) = take (hi - start) (drop start s)"
    using assms(2) by (simp add: drop_take)
  show ?thesis
  proof (cases "start + length word \<le> hi")
    case True
    then show ?thesis unfolding eq by (simp add: has_prefix_def min_absorb1)
  next
    case False
    have "length (take (length word) (take (hi - start) (drop start s))) < length word"
      using False assms(1) by (cases "start \<le> hi") auto
    then show ?thesis using False unfolding eq has_prefix_def by (metis nat_less_le)
  qed
qed

lemma word_from_iff:
  assumes "word \<noteq> []" and "hi \<le> length s"
  shows "word_from s off hi word \<longleftrightarrow> (\<exists>start \<ge> off. start + length word \<le> hi \<and> whole_word s start word)"
  using assms
proof (induction s off hi word rule: word_from.induct)
  case (1 s off hi word)
  show ?case
  proof (cases "off < hi")
    case False
    moreover have "0 < length word" using "1.prems"(1) by simp
    ultimately have "\<not> (\<exists>start \<ge> off. start + length word \<le> hi)" by linarith
    then show ?thesis using False by (auto simp: word_from.simps [of s off hi word])
  next
    case lt: True
    let ?w = "take (hi - off) (drop off s)"
    show ?thesis
    proof (cases "index_of ?w word")
      case None
      have "\<not> (start + length word \<le> hi \<and> has_prefix (drop start s) word)" if "off \<le> start" for start
        using index_of_NoneD [OF None] prefix_in_window [OF "1.prems"(1) that "1.prems"(2)] by blast
      then show ?thesis using lt None by (auto simp: word_from.simps [of s off hi word] whole_word_def)
    next
      case (Some i)
      let ?start = "off + i"
      have at: "?start + length word \<le> hi" "has_prefix (drop ?start s) word"
        using index_of_SomeD(2) [OF Some] prefix_in_window [OF "1.prems"(1) le_add1 "1.prems"(2), of off i] by simp_all
      have before: "\<not> (start + length word \<le> hi \<and> has_prefix (drop start s) word)" if "off \<le> start" "start < ?start" for start
        using index_of_SomeD(3) [OF Some] prefix_in_window [OF "1.prems"(1) that(1) "1.prems"(2)] that by auto
      show ?thesis
      proof (cases "whole_word s ?start word")
        case True
        then have "word_from s off hi word" using lt Some by (simp add: word_from.simps [of s off hi word] whole_word_def Let_def)
        moreover have "\<exists>start \<ge> off. start + length word \<le> hi \<and> whole_word s start word" using True at(1) le_add1 by blast
        ultimately show ?thesis by simp
      next
        case False
        have "word_from s off hi word = word_from s (?start + 1) hi word"
          using lt Some False at(2) unfolding word_from.simps [of s off hi word] whole_word_def Let_def by auto
        also have "\<dots> \<longleftrightarrow> (\<exists>start \<ge> ?start + 1. start + length word \<le> hi \<and> whole_word s start word)"
          using "1.IH" [OF lt Some refl refl refl] False at(2) "1.prems" unfolding whole_word_def Let_def by blast
        also have "\<dots> \<longleftrightarrow> (\<exists>start \<ge> off. start + length word \<le> hi \<and> whole_word s start word)"
        proof
          assume "\<exists>start \<ge> off. start + length word \<le> hi \<and> whole_word s start word"
          then obtain start where st: "off \<le> start" "start + length word \<le> hi" "whole_word s start word" by blast
          have "\<not> start < ?start" using before [OF st(1)] st(2,3) by (auto simp: whole_word_def)
          moreover have "start \<noteq> ?start" using False st(3) by blast
          ultimately have "?start + 1 \<le> start" by simp
          then show "\<exists>start \<ge> ?start + 1. start + length word \<le> hi \<and> whole_word s start word" using st(2,3) by blast
        qed (meson le_add1 order_trans)
        finally show ?thesis .
      qed
    qed
  qed
qed

text \<open>Two occurrences of the lead never overlap, so skipping a whole lead skips no occurrence.\<close>

lemma lead_no_overlap:
  assumes "has_prefix (drop p s) clause_lead" and "has_prefix (drop q s) clause_lead" and "p < q"
  shows "p + length clause_lead \<le> q"
proof (rule ccontr)
  assume "\<not> p + length clause_lead \<le> q"
  then have "q = p + (q - p)" "0 < q - p" "q - p < 15" using assms(3) by (simp_all add: clause_lead_def)
  then obtain d where d: "q = p + d" "0 < d" "d < 15" by blast
  obtain t u where t: "drop p s = clause_lead @ t" "drop q s = clause_lead @ u"
    using has_prefixD [OF assms(1)] has_prefixD [OF assms(2)] by blast
  have "drop d (clause_lead @ t) = clause_lead @ u" using t d(1) by (simp add: add.commute flip: drop_drop)
  moreover have "d = 1 \<or> d = 2 \<or> d = 3 \<or> d = 4 \<or> d = 5 \<or> d = 6 \<or> d = 7 \<or> d = 8 \<or> d = 9 \<or> d = 10 \<or> d = 11 \<or> d = 12
      \<or> d = 13 \<or> d = 14" using d(2,3) by arith
  ultimately show False by (auto simp: clause_lead_def)
qed

lemma clause_end_le: "lo \<le> length lower \<Longrightarrow> clause_end lower lo \<le> length lower"
  using length_takeWhile_le [of "\<lambda>c. \<not> ends_clause c" "take clause_gap (drop lo lower)"] by (auto simp: clause_end_def)

definition completes_clause :: "string \<Rightarrow> nat \<Rightarrow> bool" where
  "completes_clause lower p \<longleftrightarrow> has_prefix (drop p lower) clause_lead \<and>
     (\<exists>q \<in> set clause_qualifiers. \<exists>start \<ge> p + length clause_lead.
        start + length q \<le> clause_end lower (p + length clause_lead) \<and> whole_word lower start q)"

lemma clause_from_iff: "clause_from lower f \<longleftrightarrow> (\<exists>p \<ge> f. completes_clause lower p)"
proof (induction lower f rule: clause_from.induct)
  case (1 lower f)
  show ?case
  proof (cases "index_of (drop f lower) clause_lead")
    case None
    have "\<not> has_prefix (drop p lower) clause_lead" if "f \<le> p" for p
      using index_of_NoneD [OF None, of "p - f"] that by simp
    then show ?thesis using None by (auto simp: clause_from.simps [of lower f] completes_clause_def)
  next
    case (Some i)
    let ?lo = "f + i + length clause_lead"
    have at: "has_prefix (drop (f + i) lower) clause_lead" "?lo \<le> length lower"
      using index_of_SomeD(1,2) [OF Some] by (auto simp: add.commute clause_lead_def)
    have before: "\<not> has_prefix (drop p lower) clause_lead" if "f \<le> p" "p < f + i" for p
      using index_of_SomeD(3) [OF Some, rule_format, of "p - f"] that by simp
    have here: "list_ex (containsWordIn lower ?lo (clause_end lower ?lo)) clause_qualifiers \<longleftrightarrow> completes_clause lower (f + i)"
      using at by (auto simp: list_ex_iff containsWordIn_def completes_clause_def word_from_iff [OF _ clause_end_le] clause_qualifiers_def)
    show ?thesis
    proof (cases "completes_clause lower (f + i)")
      case True
      then have "clause_from lower f" using Some here by (simp add: clause_from.simps [of lower f])
      then show ?thesis using True le_add1 by blast
    next
      case False
      have "clause_from lower f = clause_from lower ?lo" using Some here False by (simp add: clause_from.simps [of lower f])
      also have "\<dots> \<longleftrightarrow> (\<exists>p \<ge> ?lo. completes_clause lower p)"
        using "1.IH" [OF Some refl refl] here False by simp
      also have "\<dots> \<longleftrightarrow> (\<exists>p \<ge> f. completes_clause lower p)"
      proof
        assume "\<exists>p \<ge> f. completes_clause lower p"
        then obtain p where p: "f \<le> p" "completes_clause lower p" by blast
        then have "f + i < p" using before False unfolding completes_clause_def by (metis linorder_neqE_nat)
        then have "?lo \<le> p" using lead_no_overlap [OF at(1)] p(2) by (simp add: completes_clause_def)
        then show "\<exists>p \<ge> ?lo. completes_clause lower p" using p(2) by blast
      qed (meson le_add1 order_trans)
      finally show ?thesis .
    qed
  qed
qed

text \<open>
  The clause rule for vendor limits is exact: scanning the text finds a limit precisely when somewhere the lead phrase is
  followed, within 48 bytes and before the clause ends, by one of the qualifiers as a whole word of the text.
\<close>

theorem rate_limit_clause_exact:
  "clause_matches lower \<longleftrightarrow> (\<exists>p. completes_clause lower p)"
  by (simp add: clause_matches_def clause_from_iff)

end
