(* ===== verification/Rate_Limited.thy ===== *)
theory Rate_Limited
  imports Automations Rate_Switch Failure_Text
begin

text \<open>
  The \<open>rate_limited\<close> rules (\<open>dispatchMatchingRateLimitedAutomationsNote\<close> and \<open>dispatchRateLimitedFallback\<close> of
  \<open>internal/orchestrator/automation_rate_limited.go\<close>). A comment that a goroutine posts is kept as the data its text is made of.
\<close>

record rate_limited_automation =
  rla_ID :: string
  rla_ProfileName :: string
  rla_Instructions :: string
  rla_MatchMode :: string
  rla_States :: "string list"
  rla_LabelsAny :: "string list"
  rla_IdentifierRegex :: "(string \<Rightarrow> bool) option"
  rla_AutoResume :: bool
  rla_SwitchToProfile :: string
  rla_SwitchToBackend :: string
  rla_Cooldown :: duration

record failed_run =
  fl_Profile :: string
  fl_Backend :: string
  fl_Error :: string
  fl_Attempt :: int
  fl_InputTokens :: int
  fl_OutputTokens :: int

datatype limit_comment =
    commentRateLimitCapExhausted issue string
  | commentRateLimitedSwitch issue failed_run rate_limited_automation string

record limit_run =
  lr_daemon :: daemon
  lr_queued :: nat
  lr_folded :: bool
  lr_comments :: "limit_comment list"

definition switches :: "rate_limited_automation \<Rightarrow> bool" where
  "switches rule = (rla_AutoResume rule \<and> rla_SwitchToProfile rule \<noteq> [])"

definition rate_limited_dispatch :: "issue \<Rightarrow> time \<Rightarrow> failed_run \<Rightarrow> rate_limited_automation \<Rightarrow> automation_dispatch" where
  "rate_limited_dispatch issue now f rule =
     \<lparr>ad_AutomationID = rla_ID rule, ad_ProfileName = (if switches rule then rla_SwitchToProfile rule else rla_ProfileName rule),
      ad_Instructions = rla_Instructions rule,
      ad_Trigger = (empty_trigger AutomationTriggerRateLimited now (rla_ID rule))\<lparr>
        tr_CurrentState := is_State issue, tr_ErrorMessage := fl_Error f, tr_RetryAttempt := fl_Attempt f,
        tr_FailedProfile := fl_Profile f, tr_FailedBackend := fl_Backend f, tr_PromptTokensTotal := fl_InputTokens f,
        tr_CompletionTokensTotal := fl_OutputTokens f, tr_SwitchedToProfile := rla_SwitchToProfile rule,
        tr_SwitchedToBackend := rla_SwitchToBackend rule\<rparr>,
      ad_AutoResume = rla_AutoResume rule, ad_MoveToState = [], ad_UseIssueLifecycle = switches rule\<rparr>"

definition switch_record :: "config \<Rightarrow> failed_run \<Rightarrow> rate_limited_automation \<Rightarrow> time \<Rightarrow> auto_switch_record" where
  "switch_record cfg f rule now =
     \<lparr>aw_Source = AutoSwitchSourceAutomation, aw_FromBackend = fl_Backend f, aw_FromProfile = fl_Profile f,
      aw_ToBackend = (if rla_SwitchToBackend rule = [] then profileKeyBackend cfg (rla_SwitchToProfile rule) (ag_Command (cf_Agent cfg))
                      else rla_SwitchToBackend rule),
      aw_ToProfile = rla_SwitchToProfile rule, aw_Reason = ''rate_limited automation '' @ go_quote (rla_ID rule),
      aw_FromKey = BackendHealthKey (fl_Backend f) [], aw_SwitchedAt = now\<rparr>"

definition apply_switch :: "config \<Rightarrow> state \<Rightarrow> string \<Rightarrow> failed_run \<Rightarrow> rate_limited_automation \<Rightarrow> time \<Rightarrow> state" where
  "apply_switch cfg s ident f rule now =
     s\<lparr>s_IssueProfiles := mput (s_IssueProfiles s) ident (rla_SwitchToProfile rule),
       s_IssueBackends := (if rla_SwitchToBackend rule \<noteq> [] then mput (s_IssueBackends s) ident (rla_SwitchToBackend rule)
                           else s_IssueBackends s),
       s_AutoSwitchedIdentifiers := mput (s_AutoSwitchedIdentifiers s) ident (),
       s_AutoSwitchedAt := mput (s_AutoSwitchedAt s) ident now,
       s_AutoSwitchInfo := mput (s_AutoSwitchInfo s) ident (switch_record cfg f rule now)\<rparr>"

text \<open>One accepted rule: the switch is counted, its cooldown starts, and the issue takes the new profile.\<close>

definition accept_rule ::
  "config \<Rightarrow> issue \<Rightarrow> time \<Rightarrow> failed_run \<Rightarrow> string option \<Rightarrow> limit_run \<Rightarrow> daemon \<Rightarrow> string \<Rightarrow> rate_limited_automation \<Rightarrow> limit_run" where
  "accept_rule cfg issue now f exhausted r d cooldownKey rule =
     (let s1 = recordRateLimitSwitch (snd d) (is_ID issue) now;
          s2 = (if 0 < rla_Cooldown rule then setRateLimitCooldown s1 cooldownKey (now + rla_Cooldown rule) else s1);
          r1 = r\<lparr>lr_queued := lr_queued r + 1\<rparr>
      in if switches rule
         then let body = (case exhausted of Some b \<Rightarrow> if lr_folded r then [] else b | None \<Rightarrow> [])
              in r1\<lparr>lr_daemon := (fst d, apply_switch cfg s2 (is_Identifier issue) f rule now),
                    lr_folded := (lr_folded r \<or> exhausted \<noteq> None),
                    lr_comments := lr_comments r @ [commentRateLimitedSwitch issue f rule body]\<rparr>
         else r1\<lparr>lr_daemon := (fst d, s2)\<rparr>)"

definition try_rule ::
  "config \<Rightarrow> issue \<Rightarrow> time \<Rightarrow> failed_run \<Rightarrow> string option \<Rightarrow> limit_run \<Rightarrow> rate_limited_automation \<Rightarrow> limit_run" where
  "try_rule cfg issue now f exhausted r rule =
     (let d = lr_daemon r; cooldownKey = is_ID issue @ ''|'' @ fl_Profile f
      in if \<not> MatchesAutomationFilter issue (rla_MatchMode rule) (rla_States rule) (rla_LabelsAny rule) (rla_IdentifierRegex rule) None [] then r
         else if switches rule \<and> fl_Profile f = rla_SwitchToProfile rule then r
         else case allowRateLimitSwitch cfg (snd d) (is_ID issue) now of
           (s1, False) \<Rightarrow>
             (case claimRateLimitCapComment cfg s1 (is_ID issue) now of
                (s2, claimed) \<Rightarrow> r\<lparr>lr_daemon := (fst d, s2),
                  lr_comments := lr_comments r @ (if claimed then [commentRateLimitCapExhausted issue (fl_Profile f)] else [])\<rparr>)
         | (s1, True) \<Rightarrow>
             if (case rateLimitCooldownUntil s1 cooldownKey of Some until \<Rightarrow> now < until | None \<Rightarrow> False)
             then r\<lparr>lr_daemon := (fst d, s1)\<rparr>
             else case dispatchOrQueueAutomation cfg now (fst d, s1) issue (rate_limited_dispatch issue now f rule) of
               (d1, False) \<Rightarrow> r\<lparr>lr_daemon := d1\<rparr>
             | (d1, True) \<Rightarrow> accept_rule cfg issue now f exhausted r d1 cooldownKey rule)"

definition dispatchMatchingRateLimitedAutomationsNote ::
  "rate_limited_automation list \<Rightarrow> config \<Rightarrow> daemon \<Rightarrow> issue \<Rightarrow> time \<Rightarrow> failed_run \<Rightarrow> string option \<Rightarrow> limit_run" where
  "dispatchMatchingRateLimitedAutomationsNote rules cfg d issue now f exhausted =
     foldl (try_rule cfg issue now f exhausted) \<lparr>lr_daemon = d, lr_queued = 0, lr_folded = False, lr_comments = []\<rparr> rules"

definition dispatchRateLimitedFallback ::
  "rate_limited_automation list \<Rightarrow> config \<Rightarrow> daemon \<Rightarrow> issue \<Rightarrow> run_entry option \<Rightarrow> time \<Rightarrow> string \<Rightarrow> int \<Rightarrow> string option \<Rightarrow> limit_run" where
  "dispatchRateLimitedFallback rules cfg d issue liveEntry now errMsg attempt exhausted =
     (let live = (case liveEntry of Some e \<Rightarrow> ru_ProfileName e | None \<Rightarrow> []);
          f = \<lparr>fl_Profile = (if live = [] then issueProfileForDispatch d (is_Identifier issue) else live),
               fl_Backend = (case liveEntry of Some e \<Rightarrow> ru_Backend e | None \<Rightarrow> []), fl_Error = errMsg, fl_Attempt = attempt,
               fl_InputTokens = (case liveEntry of Some e \<Rightarrow> ru_InputTokens e | None \<Rightarrow> 0),
               fl_OutputTokens = (case liveEntry of Some e \<Rightarrow> ru_OutputTokens e | None \<Rightarrow> 0)\<rparr>
      in dispatchMatchingRateLimitedAutomationsNote rules cfg d issue now f exhausted)"

section \<open>Lemmas\<close>

lemma adm_allow [simp]: "adm (fst (allowRateLimitSwitch cfg s k now)) = adm s"
  by (simp add: adm_def allowRateLimitSwitch_def Let_def)

lemma adm_claim_comment [simp]: "adm (fst (claimRateLimitCapComment cfg s k now)) = adm s"
  by (simp add: adm_def claimRateLimitCapComment_def Let_def split: option.split)

lemma adm_switch_bookkeeping [simp]: "adm (recordRateLimitSwitch s k now) = adm s" "adm (setRateLimitCooldown s c t) = adm s"
  "adm (apply_switch cfg s i f rule now) = adm s"
  by (simp_all add: adm_def recordRateLimitSwitch_def setRateLimitCooldown_def apply_switch_def)

context admission_relation
begin

lemma rel_try_rule: "rel (lr_daemon r) (lr_daemon (try_rule cfg issue now f exhausted r rule))"
proof -
  let ?d = "lr_daemon r" and ?key = "is_ID issue @ ''|'' @ fl_Profile f"
  obtain s1 ok where a: "allowRateLimitSwitch cfg (snd ?d) (is_ID issue) now = (s1, ok)"
    by (cases "allowRateLimitSwitch cfg (snd ?d) (is_ID issue) now")
  have s1: "adm s1 = adm (snd ?d)" using adm_allow [of cfg "snd ?d" "is_ID issue" now] a by simp
  obtain s2 cl where c: "claimRateLimitCapComment cfg s1 (is_ID issue) now = (s2, cl)"
    by (cases "claimRateLimitCapComment cfg s1 (is_ID issue) now")
  have s2: "adm s2 = adm (snd ?d)" using adm_claim_comment [of cfg s1 "is_ID issue" now] c s1 by simp
  obtain d1 q where dq: "dispatchOrQueueAutomation cfg now (fst ?d, s1) issue (rate_limited_dispatch issue now f rule) = (d1, q)"
    by (cases "dispatchOrQueueAutomation cfg now (fst ?d, s1) issue (rate_limited_dispatch issue now f rule)")
  have r1: "rel ?d (fst ?d, s1)" "rel ?d (fst ?d, s2)" by (rule rel_quiet, simp add: s1 s2)+
  have d1: "rel ?d d1"
    using rel_trans [OF r1(1) rel_dispatchOrQueue [of "(fst ?d, s1)" cfg now issue "rate_limited_dispatch issue now f rule"]] dq by simp
  have "rel d1 (lr_daemon (accept_rule cfg issue now f exhausted r d1 ?key rule))"
    by (simp add: accept_rule_def Let_def rel_quiet)
  from rel_trans [OF d1 this] show ?thesis
    unfolding try_rule_def Let_def a prod.case c dq
    using r1 d1 rel_refl by (cases ok; cases q) simp_all
qed

lemma rel_rate_limited: "rel d (lr_daemon (dispatchMatchingRateLimitedAutomationsNote rules cfg d issue now f exhausted))"
proof -
  have "rel (lr_daemon r) (lr_daemon (foldl (try_rule cfg issue now f exhausted) r rules))" for r
  proof (induction rules arbitrary: r)
    case (Cons rule rules)
    show ?case using rel_trans [OF rel_try_rule Cons.IH] by simp
  qed (simp add: rel_refl)
  from this [of "\<lparr>lr_daemon = d, lr_queued = 0, lr_folded = False, lr_comments = []\<rparr>"] show ?thesis
    by (simp add: dispatchMatchingRateLimitedAutomationsNote_def)
qed

lemma rel_limit_fallback: "rel d (lr_daemon (dispatchRateLimitedFallback rules cfg d issue liveEntry now errMsg attempt exhausted))"
  by (simp add: dispatchRateLimitedFallback_def Let_def rel_rate_limited)

end

interpretation rate_limited_rules: slot_gated_path
  "\<lambda>d. lr_daemon (dispatchRateLimitedFallback rules cfg d issue liveEntry now errMsg attempt exhausted)"
  for rules cfg issue liveEntry now errMsg attempt exhausted
  using slots.rel_limit_fallback by unfold_locales (simp_all add: slot_admits_def)

section \<open>The comments of an evaluation\<close>

fun carries_note :: "limit_comment \<Rightarrow> bool" where
  "carries_note (commentRateLimitedSwitch i f rule body) = (body \<noteq> [])"
| "carries_note (commentRateLimitCapExhausted i p) = False"

fun sound_comment :: "rate_limited_automation list \<Rightarrow> issue \<Rightarrow> failed_run \<Rightarrow> limit_comment \<Rightarrow> bool" where
  "sound_comment rules issue f (commentRateLimitedSwitch i g rule body) =
     (i = issue \<and> g = f \<and> rule \<in> set rules \<and> switches rule \<and> rla_SwitchToProfile rule \<noteq> fl_Profile f \<and>
      MatchesAutomationFilter issue (rla_MatchMode rule) (rla_States rule) (rla_LabelsAny rule) (rla_IdentifierRegex rule) None [])"
| "sound_comment rules issue f (commentRateLimitCapExhausted i p) = (i = issue \<and> p = fl_Profile f)"

definition limit_run_ok :: "rate_limited_automation list \<Rightarrow> issue \<Rightarrow> failed_run \<Rightarrow> limit_run \<Rightarrow> bool" where
  "limit_run_ok rules issue f r \<longleftrightarrow> list_all (sound_comment rules issue f) (lr_comments r) \<and>
     length (filter carries_note (lr_comments r)) = (if lr_folded r then 1 else 0)"

lemma try_rule_ok:
  assumes "limit_run_ok rules issue f r" and "rule \<in> set rules" and "body \<noteq> []"
  shows "limit_run_ok rules issue f (try_rule cfg issue now f (Some body) r rule)"
proof -
  let ?d = "lr_daemon r" and ?key = "is_ID issue @ ''|'' @ fl_Profile f"
  obtain s1 ok where a: "allowRateLimitSwitch cfg (snd ?d) (is_ID issue) now = (s1, ok)"
    by (cases "allowRateLimitSwitch cfg (snd ?d) (is_ID issue) now")
  obtain s2 cl where c: "claimRateLimitCapComment cfg s1 (is_ID issue) now = (s2, cl)"
    by (cases "claimRateLimitCapComment cfg s1 (is_ID issue) now")
  obtain d1 q where dq: "dispatchOrQueueAutomation cfg now (fst ?d, s1) issue (rate_limited_dispatch issue now f rule) = (d1, q)"
    by (cases "dispatchOrQueueAutomation cfg now (fst ?d, s1) issue (rate_limited_dispatch issue now f rule)")
  have acc: "limit_run_ok rules issue f (accept_rule cfg issue now f (Some body) r d1 ?key rule)"
    if "MatchesAutomationFilter issue (rla_MatchMode rule) (rla_States rule) (rla_LabelsAny rule) (rla_IdentifierRegex rule) None []"
      "\<not> (switches rule \<and> fl_Profile f = rla_SwitchToProfile rule)"
    using that assms by (auto simp: limit_run_ok_def accept_rule_def Let_def)
  have quiet: "limit_run_ok rules issue f (r\<lparr>lr_daemon := x\<rparr>)" for x using assms(1) by (simp add: limit_run_ok_def)
  have cap: "limit_run_ok rules issue f (r\<lparr>lr_daemon := x, lr_comments := lr_comments r @ (if cl then [commentRateLimitCapExhausted issue (fl_Profile f)] else [])\<rparr>)" for x
    using assms(1) by (simp add: limit_run_ok_def)
  show ?thesis
    unfolding try_rule_def Let_def a prod.case c dq
    using assms(1) quiet cap acc by (cases ok; cases q) simp_all
qed

text \<open>
  A failure is announced once, and the fallback never switches to the profile that failed. Evaluating the rules posts
  only comments about this issue and this failure; a switch is announced for a rule that matches and whose target differs from the failed
  profile, and the note that retries are exhausted is folded into exactly one comment, or reported as not folded.
\<close>

theorem limit_fallback_announced_once:
  assumes "body \<noteq> []" and "r = dispatchMatchingRateLimitedAutomationsNote rules cfg d issue now f (Some body)"
  shows "list_all (sound_comment rules issue f) (lr_comments r)
    \<and> length (filter carries_note (lr_comments r)) = (if lr_folded r then 1 else 0)"
proof -
  have "limit_run_ok rules issue f (foldl (try_rule cfg issue now f (Some body)) r0 rs)"
    if "limit_run_ok rules issue f r0" "set rs \<subseteq> set rules" for r0 rs
    using that by (induction rs arbitrary: r0) (simp_all add: try_rule_ok [OF _ _ assms(1)])
  from this [of "\<lparr>lr_daemon = d, lr_queued = 0, lr_folded = False, lr_comments = []\<rparr>" rules] show ?thesis
    by (simp add: assms(2) dispatchMatchingRateLimitedAutomationsNote_def limit_run_ok_def)
qed

end
