(* ===== verification/Watcher.thy ===== *)
theory Watcher
  imports Cron Rate_Limited Input_Resume
begin

text \<open>
  The automation scheduler (\<open>cmd/itervox/automations.go\<close>, \<open>automations_input_required.go\<close>, \<open>automation_body_filter.go\<close>): compilation of the configured rules, cron rules on
  the wall clock, the polling of the tracker for state changes and comments, and the replay of input-required rules. Compiled
  regular expressions, time zones, the rendering of times and the tracker are arguments; whether the event loop accepts a dispatch
  before the deadline of the pass is the argument \<open>we_accept\<close>. The scheduler's output is the list of dispatches that were accepted.
\<close>

section \<open>Configuration\<close>

record automation_trigger_config =
  atc_Type :: string
  atc_Cron :: string
  atc_Timezone :: string
  atc_State :: string

record automation_filter_config =
  afc_MatchMode :: string
  afc_States :: "string list"
  afc_LabelsAny :: "string list"
  afc_IdentifierRegex :: string
  afc_Limit :: int
  afc_InputContextRegex :: string
  afc_MaxAgeMinutes :: int
  afc_BodyContains :: "string list"
  afc_BodyRegex :: string

record automation_policy_config =
  apc_AutoResume :: bool
  apc_SwitchToProfile :: string
  apc_SwitchToBackend :: string
  apc_CooldownMinutes :: int
  apc_MoveToState :: string

record automation_config =
  acf_ID :: string
  acf_Enabled :: bool
  acf_Profile :: string
  acf_Instructions :: string
  acf_Trigger :: automation_trigger_config
  acf_Filter :: automation_filter_config
  acf_Policy :: automation_policy_config

record watch_env =
  we_regex :: "string \<Rightarrow> (string \<Rightarrow> bool) option"
  we_zone :: "string \<Rightarrow> bool"
  we_civil :: "string \<Rightarrow> time \<Rightarrow> civil_time"
  we_minuteKey :: "string \<Rightarrow> time \<Rightarrow> string"
  we_rfc3339 :: "time \<Rightarrow> string"
  we_rfc3339nano :: "time \<Rightarrow> string"
  we_fetchByStates :: "string list \<Rightarrow> issue list option"
  we_tracker :: tracker_ops
  we_batch :: "(string list \<Rightarrow> issue list option) option"
  we_accept :: "issue \<Rightarrow> automation_dispatch \<Rightarrow> bool"

definition AutomationTriggerCron :: string where "AutomationTriggerCron = ''cron''"
definition AutomationTriggerPRMerged :: string where "AutomationTriggerPRMerged = ''pr_merged''"

section \<open>Compilation\<close>

record compiled_automation =
  ca_cfg :: automation_config
  ca_expr :: "cron_expression option"
  ca_location :: string
  ca_identifierRe :: "(string \<Rightarrow> bool) option"
  ca_inputContextRe :: "(string \<Rightarrow> bool) option"

record pr_automation =
  pra_ID :: string
  pra_ProfileName :: string
  pra_Instructions :: string
  pra_MatchMode :: string
  pra_States :: "string list"
  pra_LabelsAny :: "string list"
  pra_IdentifierRegex :: "(string \<Rightarrow> bool) option"

record tracker_comment_automation =
  tca_ID :: string
  tca_ProfileName :: string
  tca_Instructions :: string
  tca_MatchMode :: string
  tca_States :: "string list"
  tca_LabelsAny :: "string list"
  tca_IdentifierRegex :: "(string \<Rightarrow> bool) option"
  tca_BodyContainsAny :: "string list"
  tca_BodyRegex :: "(string \<Rightarrow> bool) option"

record compiled_automation_set =
  cs_cron :: "compiled_automation list"
  cs_polledEvents :: "compiled_automation list"
  cs_inputRequired :: "input_required_automation list"
  cs_runFailed :: "run_failed_automation list"
  cs_prOpened :: "pr_automation list"
  cs_prMerged :: "pr_automation list"
  cs_trackerComments :: "tracker_comment_automation list"
  cs_rateLimited :: "rate_limited_automation list"
  cs_blockersResolved :: "blockers_resolved_automation list"

definition no_automations :: compiled_automation_set where
  "no_automations = \<lparr>cs_cron = [], cs_polledEvents = [], cs_inputRequired = [], cs_runFailed = [], cs_prOpened = [], cs_prMerged = [],
     cs_trackerComments = [], cs_rateLimited = [], cs_blockersResolved = []\<rparr>"

definition compile_regex :: "watch_env \<Rightarrow> string \<Rightarrow> (string \<Rightarrow> bool) option option" where
  "compile_regex env text = (if text = [] then Some None else map_option Some (we_regex env text))"

definition inputContextReFor :: "watch_env \<Rightarrow> automation_config \<Rightarrow> (string \<Rightarrow> bool) option" where
  "inputContextReFor env entry =
     (case compile_regex env (afc_InputContextRegex (acf_Filter entry)) of Some re \<Rightarrow> re | None \<Rightarrow> None)"

definition pr_rule :: "automation_config \<Rightarrow> (string \<Rightarrow> bool) option \<Rightarrow> pr_automation" where
  "pr_rule entry re = \<lparr>pra_ID = acf_ID entry, pra_ProfileName = acf_Profile entry, pra_Instructions = acf_Instructions entry,
     pra_MatchMode = afc_MatchMode (acf_Filter entry), pra_States = afc_States (acf_Filter entry),
     pra_LabelsAny = afc_LabelsAny (acf_Filter entry), pra_IdentifierRegex = re\<rparr>"

definition tracker_comment_rule :: "watch_env \<Rightarrow> automation_config \<Rightarrow> (string \<Rightarrow> bool) option \<Rightarrow> tracker_comment_automation" where
  "tracker_comment_rule env entry re =
     (let f = acf_Filter entry in
      \<lparr>tca_ID = acf_ID entry, tca_ProfileName = acf_Profile entry, tca_Instructions = acf_Instructions entry,
       tca_MatchMode = afc_MatchMode f, tca_States = afc_States f, tca_LabelsAny = afc_LabelsAny f, tca_IdentifierRegex = re,
       tca_BodyContainsAny = afc_BodyContains f,
       tca_BodyRegex = (case compile_regex env (afc_BodyRegex f) of Some b \<Rightarrow> b | None \<Rightarrow> None)\<rparr>)"

definition add_cron :: "watch_env \<Rightarrow> compiled_automation_set \<Rightarrow> automation_config \<Rightarrow> (string \<Rightarrow> bool) option \<Rightarrow> compiled_automation_set" where
  "add_cron env c entry re =
     (case Parse (atc_Cron (acf_Trigger entry)) of
        Some (Inr expr) \<Rightarrow>
          if atc_Timezone (acf_Trigger entry) \<noteq> [] \<and> \<not> we_zone env (atc_Timezone (acf_Trigger entry)) then c
          else c\<lparr>cs_cron := cs_cron c @ [\<lparr>ca_cfg = entry, ca_expr = Some expr, ca_location = atc_Timezone (acf_Trigger entry),
                 ca_identifierRe = re, ca_inputContextRe = None\<rparr>]\<rparr>
      | _ \<Rightarrow> c)"

definition add_input_required :: "watch_env \<Rightarrow> compiled_automation_set \<Rightarrow> automation_config \<Rightarrow> (string \<Rightarrow> bool) option \<Rightarrow> compiled_automation_set" where
  "add_input_required env c entry re =
     (let f = acf_Filter entry in
      case compile_regex env (afc_InputContextRegex f) of
        None \<Rightarrow> c
      | Some ctx \<Rightarrow> c\<lparr>cs_inputRequired := cs_inputRequired c @ [\<lparr>ira_ID = acf_ID entry, ira_ProfileName = acf_Profile entry,
          ira_Instructions = acf_Instructions entry, ira_MatchMode = afc_MatchMode f, ira_States = afc_States f, ira_LabelsAny = afc_LabelsAny f,
          ira_IdentifierRegex = re, ira_InputContextRegex = ctx, ira_AutoResume = apc_AutoResume (acf_Policy entry),
          ira_MaxAge = wrap64 (afc_MaxAgeMinutes f * minute)\<rparr>]\<rparr>)"

definition add_polled :: "watch_env \<Rightarrow> compiled_automation_set \<Rightarrow> automation_config \<Rightarrow> (string \<Rightarrow> bool) option \<Rightarrow> compiled_automation_set" where
  "add_polled env c entry re =
     c\<lparr>cs_polledEvents := cs_polledEvents c @ [\<lparr>ca_cfg = entry, ca_expr = None, ca_location = [], ca_identifierRe = re,
         ca_inputContextRe = inputContextReFor env entry\<rparr>],
       cs_trackerComments := (if atc_Type (acf_Trigger entry) = AutomationTriggerTrackerComment
         then cs_trackerComments c @ [tracker_comment_rule env entry re] else cs_trackerComments c)\<rparr>"

definition add_rate_limited :: "config \<Rightarrow> compiled_automation_set \<Rightarrow> automation_config \<Rightarrow> (string \<Rightarrow> bool) option \<Rightarrow> compiled_automation_set" where
  "add_rate_limited cfg c entry re =
     (let f = acf_Filter entry; p = acf_Policy entry; cooldown = wrap64 (apc_CooldownMinutes p * minute) in
      case mget (ag_Profiles (cf_Agent cfg)) (apc_SwitchToProfile p) of
        None \<Rightarrow> c
      | Some target \<Rightarrow>
          if \<not> ProfileEnabled target then c
          else c\<lparr>cs_rateLimited := cs_rateLimited c @ [\<lparr>rla_ID = acf_ID entry, rla_ProfileName = acf_Profile entry, rla_Instructions = acf_Instructions entry,
             rla_MatchMode = afc_MatchMode f, rla_States = afc_States f, rla_LabelsAny = afc_LabelsAny f, rla_IdentifierRegex = re,
             rla_AutoResume = apc_AutoResume p, rla_SwitchToProfile = apc_SwitchToProfile p, rla_SwitchToBackend = apc_SwitchToBackend p,
             rla_Cooldown = (if cooldown = 0 then 30 * minute else cooldown)\<rparr>]\<rparr>)"

definition add_rule :: "watch_env \<Rightarrow> config \<Rightarrow> compiled_automation_set \<Rightarrow> automation_config \<Rightarrow> (string \<Rightarrow> bool) option \<Rightarrow> compiled_automation_set" where
  "add_rule env cfg c entry re =
     (let f = acf_Filter entry; ty = atc_Type (acf_Trigger entry) in
      if ty = AutomationTriggerCron then add_cron env c entry re
      else if ty = AutomationTriggerInputRequired then add_input_required env c entry re
      else if ty = AutomationTriggerTrackerComment \<or> ty = AutomationTriggerIssueEnteredState \<or> ty = AutomationTriggerIssueMovedBacklog
      then add_polled env c entry re
      else if ty = AutomationTriggerRunFailed
      then c\<lparr>cs_runFailed := cs_runFailed c @ [\<lparr>rfa_ID = acf_ID entry, rfa_ProfileName = acf_Profile entry, rfa_Instructions = acf_Instructions entry,
             rfa_MatchMode = afc_MatchMode f, rfa_States = afc_States f, rfa_LabelsAny = afc_LabelsAny f, rfa_IdentifierRegex = re\<rparr>]\<rparr>
      else if ty = AutomationTriggerPROpened then c\<lparr>cs_prOpened := cs_prOpened c @ [pr_rule entry re]\<rparr>
      else if ty = AutomationTriggerPRMerged then c\<lparr>cs_prMerged := cs_prMerged c @ [pr_rule entry re]\<rparr>
      else if ty = AutomationTriggerRateLimited then add_rate_limited cfg c entry re
      else if ty = AutomationTriggerBlockersResolved
      then c\<lparr>cs_blockersResolved := cs_blockersResolved c @ [\<lparr>bra_ID = acf_ID entry, bra_ProfileName = acf_Profile entry,
             bra_Instructions = acf_Instructions entry, bra_MatchMode = afc_MatchMode f, bra_States = afc_States f, bra_LabelsAny = afc_LabelsAny f,
             bra_IdentifierRegex = re, bra_MoveToState = apc_MoveToState (acf_Policy entry)\<rparr>]\<rparr>
      else c)"

definition compile_rule :: "watch_env \<Rightarrow> config \<Rightarrow> compiled_automation_set \<Rightarrow> automation_config \<Rightarrow> compiled_automation_set" where
  "compile_rule env cfg c entry =
     (if \<not> acf_Enabled entry then c
      else case mget (ag_Profiles (cf_Agent cfg)) (acf_Profile entry) of
        None \<Rightarrow> c
      | Some profile \<Rightarrow>
          if \<not> ProfileEnabled profile then c
          else case compile_regex env (afc_IdentifierRegex (acf_Filter entry)) of
            None \<Rightarrow> c
          | Some re \<Rightarrow> add_rule env cfg c entry re)"

definition compileAutomations :: "watch_env \<Rightarrow> config \<Rightarrow> automation_config list \<Rightarrow> compiled_automation_set" where
  "compileAutomations env cfg automations = foldl (compile_rule env cfg) no_automations automations"

definition registered_count :: "compiled_automation_set \<Rightarrow> nat" where
  "registered_count c = length (cs_cron c) + length (cs_polledEvents c) + length (cs_inputRequired c) + length (cs_runFailed c) +
     length (cs_prOpened c) + length (cs_rateLimited c) + length (cs_blockersResolved c)"

section \<open>Cron rules\<close>

definition automationEntryMatches :: "issue \<Rightarrow> compiled_automation \<Rightarrow> string \<Rightarrow> bool" where
  "automationEntryMatches issue entry inputContext =
     (let f = acf_Filter (ca_cfg entry)
      in MatchesAutomationFilter issue (afc_MatchMode f) (afc_States f) (afc_LabelsAny f) (ca_identifierRe entry) (ca_inputContextRe entry) inputContext)"

definition shouldSkipAutomatedIssue :: "state \<Rightarrow> config \<Rightarrow> issue \<Rightarrow> bool" where
  "shouldSkipAutomatedIssue snap cfg issue =
     (let reason = IneligibleReasonForAutomation issue snap cfg in reason \<noteq> [] \<and> automationQueueableReason reason = None)"

definition deduplicateStates :: "string list \<Rightarrow> string list \<Rightarrow> string list \<Rightarrow> string \<Rightarrow> string list" where
  "deduplicateStates backlog active terminal completion =
     rev (remdups (rev (backlog @ active @ terminal @ (if completion \<noteq> [] then [completion] else []))))"

definition cronAutomationFetchStates :: "config \<Rightarrow> compiled_automation \<Rightarrow> string list \<Rightarrow> string list" where
  "cronAutomationFetchStates cfg entry activeStates =
     (let f = acf_Filter (ca_cfg entry)
      in if afc_MatchMode f \<noteq> AutomationFilterMatchAny \<and> afc_States f \<noteq> [] then afc_States f
         else deduplicateStates (tk_BacklogStates (cf_Tracker cfg)) activeStates (afc_States f) [])"

definition limited :: "int \<Rightarrow> 'a list \<Rightarrow> 'a list" where
  "limited limit matches = (if limit > 0 \<and> int (length matches) > limit then take (nat limit) matches else matches)"

definition rule_dispatch :: "compiled_automation \<Rightarrow> automation_trigger_context \<Rightarrow> automation_dispatch" where
  "rule_dispatch entry trigger =
     \<lparr>ad_AutomationID = acf_ID (ca_cfg entry), ad_ProfileName = acf_Profile (ca_cfg entry), ad_Instructions = acf_Instructions (ca_cfg entry),
      ad_Trigger = trigger, ad_AutoResume = apc_AutoResume (acf_Policy (ca_cfg entry)), ad_MoveToState = [], ad_UseIssueLifecycle = False\<rparr>"

type_synonym sent = "(issue \<times> automation_dispatch) list"

definition runCronAutomation :: "watch_env \<Rightarrow> config \<Rightarrow> state \<Rightarrow> compiled_automation \<Rightarrow> string list \<Rightarrow> time \<Rightarrow> sent" where
  "runCronAutomation env cfg snap entry activeStates now =
     (if bp_PausedProducers (s_AutomationQueueBackpressure snap) then []
      else case we_fetchByStates env (cronAutomationFetchStates cfg entry activeStates) of
        None \<Rightarrow> []
      | Some issues \<Rightarrow>
          let matches = limited (afc_Limit (acf_Filter (ca_cfg entry))) (sort_key is_Identifier
                (filter (\<lambda>issue. \<not> shouldSkipAutomatedIssue snap cfg issue \<and> automationEntryMatches issue entry []) issues));
              t = acf_Trigger (ca_cfg entry)
          in filter (\<lambda>(i, a). we_accept env i a) (map (\<lambda>issue. (issue, rule_dispatch entry
               ((empty_trigger AutomationTriggerCron now (acf_ID (ca_cfg entry)))
                 \<lparr>tr_Cron := atc_Cron t, tr_Timezone := atc_Timezone t, tr_CurrentState := is_State issue\<rparr>))) matches))"

definition prune_fired :: "compiled_automation list \<Rightarrow> (string, string) gomap \<Rightarrow> (string, string) gomap" where
  "prune_fired cron lastFired = mkeep (\<lambda>k _. k \<in> (\<lambda>e. acf_ID (ca_cfg e)) ` set cron) lastFired"

definition cron_due :: "watch_env \<Rightarrow> time \<Rightarrow> compiled_automation \<Rightarrow> bool" where
  "cron_due env now entry = (case ca_expr entry of Some e \<Rightarrow> Matches e (we_civil env (ca_location entry) now) | None \<Rightarrow> False)"

fun cron_pass :: "watch_env \<Rightarrow> time \<Rightarrow> compiled_automation list \<Rightarrow> (string, string) gomap \<Rightarrow> (string, string) gomap \<times> compiled_automation list" where
  "cron_pass env now [] lastFired = (lastFired, [])"
| "cron_pass env now (entry # rest) lastFired =
     (let ident = acf_ID (ca_cfg entry); minuteKey = we_minuteKey env (ca_location entry) now
      in if \<not> acf_Enabled (ca_cfg entry) \<or> mget_or lastFired ident [] = minuteKey \<or> \<not> cron_due env now entry then cron_pass env now rest lastFired
         else case cron_pass env now rest (mput lastFired ident minuteKey) of (fired', es) \<Rightarrow> (fired', entry # es))"

section \<open>Polled events\<close>

record observed_issue =
  oi_State :: string
  oi_InBacklog :: bool

record observed_comment =
  oc_LatestCommentID :: string
  oc_CommentCreatedAt :: string

record poll_state =
  po_issues :: "(string, observed_issue) gomap"
  po_trackerComments :: "(string, (string, observed_comment) gomap) gomap"

definition in_backlog :: "config \<Rightarrow> issue \<Rightarrow> bool" where
  "in_backlog cfg issue = list_ex (\<lambda>st. equal_fold st (is_State issue)) (tk_BacklogStates (cf_Tracker cfg))"

fun dedup_folded :: "string list \<Rightarrow> string list \<Rightarrow> string list" where
  "dedup_folded seen [] = []"
| "dedup_folded seen (st # sts) =
     (if st = [] \<or> to_lower st \<in> set seen then dedup_folded seen sts else st # dedup_folded (to_lower st # seen) sts)"

definition automationPollStates :: "config \<Rightarrow> compiled_automation list \<Rightarrow> string list \<Rightarrow> string list \<Rightarrow> string \<Rightarrow> string list" where
  "automationPollStates cfg entries activeStates terminalStates completionState =
     dedup_folded [] (deduplicateStates (tk_BacklogStates (cf_Tracker cfg)) activeStates terminalStates completionState @
       concat (map (\<lambda>e. afc_States (acf_Filter (ca_cfg e)) @
         (if atc_State (acf_Trigger (ca_cfg e)) \<noteq> [] then [atc_State (acf_Trigger (ca_cfg e))] else [])) entries))"

definition latestAutomationComment :: "comment list \<Rightarrow> comment option" where
  "latestAutomationComment comments = (if comments = [] then None else Some (last comments))"

definition comment_time :: "watch_env \<Rightarrow> comment \<Rightarrow> string" where
  "comment_time env c = (case cm_CreatedAt c of None \<Rightarrow> [] | Some t \<Rightarrow> we_rfc3339 env t)"

definition observedAutomationCommentFromComment :: "watch_env \<Rightarrow> comment \<Rightarrow> observed_comment" where
  "observedAutomationCommentFromComment env c = \<lparr>oc_LatestCommentID = cm_ID c, oc_CommentCreatedAt = comment_time env c\<rparr>"

definition hasNewAutomationComment :: "observed_comment \<Rightarrow> observed_comment \<Rightarrow> bool" where
  "hasNewAutomationComment prev current =
     (if oc_LatestCommentID current = [] \<and> oc_CommentCreatedAt current = [] then False
      else if oc_LatestCommentID prev = [] \<and> oc_CommentCreatedAt prev = [] then True
      else if oc_LatestCommentID current \<noteq> [] then \<not> equal_fold (oc_LatestCommentID prev) (oc_LatestCommentID current)
      else oc_CommentCreatedAt current \<noteq> oc_CommentCreatedAt prev)"

definition isAutomationManagedComment :: "comment \<Rightarrow> bool" where
  "isAutomationManagedComment c =
     (IsManagedComment c \<or> has_prefix (cm_Body c) itervoxCommentPrefix \<or> equal_fold (trim_space (cm_AuthorName c)) ''Itervox'')"

definition commentBodyMatchesFilter :: "string \<Rightarrow> string list \<Rightarrow> (string \<Rightarrow> bool) option \<Rightarrow> bool" where
  "commentBodyMatchesFilter body containsAny bodyRegex =
     ((containsAny = [] \<or> list_ex (\<lambda>needle. contains (to_lower body) (to_lower needle)) containsAny) \<and>
      (case bodyRegex of None \<Rightarrow> True | Some re \<Rightarrow> re body))"

definition FilterTrackerCommentAutomationsByBody :: "tracker_comment_automation list \<Rightarrow> string \<Rightarrow> tracker_comment_automation list" where
  "FilterTrackerCommentAutomationsByBody rules body =
     filter (\<lambda>r. commentBodyMatchesFilter body (tca_BodyContainsAny r) (tca_BodyRegex r)) rules"

definition body_admits :: "tracker_comment_automation list \<Rightarrow> compiled_automation \<Rightarrow> comment \<Rightarrow> bool" where
  "body_admits rules entry c =
     (let f = acf_Filter (ca_cfg entry)
      in (afc_BodyContains f = [] \<and> afc_BodyRegex f = []) \<or>
         list_ex (\<lambda>r. tca_ID r = acf_ID (ca_cfg entry)) (FilterTrackerCommentAutomationsByBody rules (cm_Body c)))"

definition comment_trigger :: "watch_env \<Rightarrow> time \<Rightarrow> compiled_automation \<Rightarrow> issue \<Rightarrow> comment \<Rightarrow> automation_trigger_context" where
  "comment_trigger env now entry issue c =
     (empty_trigger AutomationTriggerTrackerComment now (acf_ID (ca_cfg entry)))
       \<lparr>tr_CurrentState := is_State issue, tr_CommentID := cm_ID c, tr_CommentBody := cm_Body c, tr_CommentAuthorID := cm_AuthorID c,
        tr_CommentAuthorName := cm_AuthorName c, tr_CommentCreatedAt := comment_time env c\<rparr>"

text \<open>One rule on one issue that was seen before: the comment to remember, and the trigger, if it fires.\<close>

definition poll_entered :: "time \<Rightarrow> compiled_automation \<Rightarrow> observed_issue \<Rightarrow> issue \<Rightarrow> automation_trigger_context option" where
  "poll_entered now entry prevIssue issue =
     (if equal_fold (oi_State prevIssue) (is_State issue) \<or> \<not> equal_fold (is_State issue) (atc_State (acf_Trigger (ca_cfg entry))) then None
      else if \<not> automationEntryMatches issue entry [] then None
      else Some ((empty_trigger AutomationTriggerIssueEnteredState now (acf_ID (ca_cfg entry)))
        \<lparr>tr_TriggerState := atc_State (acf_Trigger (ca_cfg entry)), tr_PreviousState := oi_State prevIssue, tr_CurrentState := is_State issue\<rparr>))"

definition poll_moved :: "config \<Rightarrow> time \<Rightarrow> compiled_automation \<Rightarrow> observed_issue \<Rightarrow> issue \<Rightarrow> automation_trigger_context option" where
  "poll_moved cfg now entry prevIssue issue =
     (if oi_InBacklog prevIssue \<or> \<not> in_backlog cfg issue then None
      else if \<not> automationEntryMatches issue entry [] then None
      else Some ((empty_trigger AutomationTriggerIssueMovedBacklog now (acf_ID (ca_cfg entry)))
        \<lparr>tr_PreviousState := oi_State prevIssue, tr_CurrentState := is_State issue\<rparr>))"

definition poll_comment ::
  "watch_env \<Rightarrow> tracker_comment_automation list \<Rightarrow> time \<Rightarrow> compiled_automation \<Rightarrow> (string, observed_comment) gomap \<Rightarrow> issue
   \<Rightarrow> observed_comment option \<times> automation_trigger_context option" where
  "poll_comment env rules now entry prevComments issue =
     (if \<not> automationEntryMatches issue entry [] then (None, None)
      else case tk_FetchIssueDetail (we_tracker env) (is_ID issue) of
        Fetched detailed \<Rightarrow>
          let latest = latestAutomationComment (is_Comments detailed);
              snapshot = (case latest of Some c \<Rightarrow> observedAutomationCommentFromComment env c
                | None \<Rightarrow> \<lparr>oc_LatestCommentID = [], oc_CommentCreatedAt = []\<rparr>)
          in (Some snapshot,
              case (mget prevComments (is_ID issue), latest) of
                (Some prevComment, Some c) \<Rightarrow>
                  if \<not> hasNewAutomationComment prevComment snapshot \<or> isAutomationManagedComment c \<or> \<not> body_admits rules entry c then None
                  else Some (comment_trigger env now entry issue c)
              | _ \<Rightarrow> None)
      | _ \<Rightarrow> (None, None))"

definition poll_issue ::
  "watch_env \<Rightarrow> config \<Rightarrow> state \<Rightarrow> tracker_comment_automation list \<Rightarrow> time \<Rightarrow> poll_state \<Rightarrow> compiled_automation \<Rightarrow> issue
   \<Rightarrow> observed_comment option \<times> automation_trigger_context option" where
  "poll_issue env cfg snap rules now prev entry issue =
     (if shouldSkipAutomatedIssue snap cfg issue then (None, None)
      else case mget (po_issues prev) (is_ID issue) of
        None \<Rightarrow> (None, None)
      | Some prevIssue \<Rightarrow>
          let ty = atc_Type (acf_Trigger (ca_cfg entry))
          in if ty = AutomationTriggerIssueEnteredState then (None, poll_entered now entry prevIssue issue)
             else if ty = AutomationTriggerIssueMovedBacklog then (None, poll_moved cfg now entry prevIssue issue)
             else if ty = AutomationTriggerTrackerComment
             then poll_comment env rules now entry (mget_or (po_trackerComments prev) (acf_ID (ca_cfg entry)) []) issue
             else (None, None))"

definition poll_entry_matches ::
  "watch_env \<Rightarrow> config \<Rightarrow> state \<Rightarrow> tracker_comment_automation list \<Rightarrow> time \<Rightarrow> poll_state \<Rightarrow> issue list \<Rightarrow> compiled_automation \<Rightarrow> sent" where
  "poll_entry_matches env cfg snap rules now prev issues entry =
     filter (\<lambda>(i, a). we_accept env i a)
       (limited (afc_Limit (acf_Filter (ca_cfg entry)))
         (List.map_filter (\<lambda>issue. map_option (\<lambda>t. (issue, rule_dispatch entry t)) (snd (poll_issue env cfg snap rules now prev entry issue))) issues))"

definition poll_entry_comments ::
  "watch_env \<Rightarrow> config \<Rightarrow> state \<Rightarrow> tracker_comment_automation list \<Rightarrow> time \<Rightarrow> poll_state \<Rightarrow> issue list \<Rightarrow> compiled_automation \<Rightarrow> (string, observed_comment) gomap" where
  "poll_entry_comments env cfg snap rules now prev issues entry =
     foldl (\<lambda>m issue. case fst (poll_issue env cfg snap rules now prev entry issue) of
        None \<Rightarrow> m | Some c \<Rightarrow> mput m (is_ID issue) c) [] issues"

definition observed_issues :: "config \<Rightarrow> issue list \<Rightarrow> (string, observed_issue) gomap" where
  "observed_issues cfg issues =
     foldl (\<lambda>m issue. mput m (is_ID issue) \<lparr>oi_State = is_State issue, oi_InBacklog = in_backlog cfg issue\<rparr>) [] issues"

definition pollAutomationEvents ::
  "watch_env \<Rightarrow> config \<Rightarrow> state \<Rightarrow> tracker_comment_automation list \<Rightarrow> compiled_automation list \<Rightarrow> poll_state \<Rightarrow> string list \<Rightarrow> string list \<Rightarrow> string \<Rightarrow> time
   \<Rightarrow> poll_state \<times> sent" where
  "pollAutomationEvents env cfg snap rules entries prev activeStates terminalStates completionState now =
     (let states = automationPollStates cfg entries activeStates terminalStates completionState
      in if bp_PausedProducers (s_AutomationQueueBackpressure snap) \<or> states = [] then (prev, [])
         else case we_fetchByStates env states of
           None \<Rightarrow> (prev, [])
         | Some fetched \<Rightarrow>
             let issues = sort_key is_Identifier fetched
             in (\<lparr>po_issues = observed_issues cfg issues,
                  po_trackerComments = foldl (\<lambda>m entry. mput m (acf_ID (ca_cfg entry)) (poll_entry_comments env cfg snap rules now prev issues entry)) []
                    (filter (\<lambda>e. atc_Type (acf_Trigger (ca_cfg e)) = AutomationTriggerTrackerComment) entries)\<rparr>,
                 concat (map (poll_entry_matches env cfg snap rules now prev issues) entries)))"

section \<open>Replay of input-required rules\<close>

definition inputRequiredDetailTTL :: duration where "inputRequiredDetailTTL = 60 * second"

record replay_detail =
  rd_issue :: "issue option"
  rd_blockedKey :: string
  rd_fetchedAt :: time

record replay_issue =
  ri_blockedKey :: string
  ri_fired :: "string goset"

record replay_state =
  rs_initialized :: bool
  rs_issues :: "(string, replay_issue) gomap"
  rs_details :: "(string, replay_detail) gomap"

definition inputRequiredReplayKey :: "watch_env \<Rightarrow> input_required_entry \<Rightarrow> string" where
  "inputRequiredReplayKey env e =
     (if ir_QuestionCommentKey e \<noteq> [] then ''comment-key:'' @ ir_QuestionCommentKey e
      else if ir_QuestionCommentID e \<noteq> [] then ''comment:'' @ ir_QuestionCommentID e
      else if \<not> isZero (ir_QueuedAt e) then ''queued:'' @ we_rfc3339nano env (ir_QueuedAt e)
      else ''context:'' @ ir_IssueID e @ '':'' @ ir_Context e)"

definition hasPendingReplayAutomation :: "input_required_automation list \<Rightarrow> string goset \<Rightarrow> bool" where
  "hasPendingReplayAutomation automations fired = list_ex (\<lambda>a. \<not> mhas fired (ira_ID a)) automations"

definition replayDetailCached ::
  "(string, replay_detail) gomap \<Rightarrow> (string, replay_detail) gomap \<Rightarrow> string \<Rightarrow> string \<Rightarrow> time \<Rightarrow> issue option option" where
  "replayDetailCached prev nxt issueID blockedKey now =
     (case mget nxt issueID of
        Some c \<Rightarrow> Some (rd_issue c)
      | None \<Rightarrow>
          (case mget prev issueID of
             Some c \<Rightarrow> if rd_issue c \<noteq> None \<and> rd_blockedKey c = blockedKey \<and> time_sub now (rd_fetchedAt c) < inputRequiredDetailTTL
               then Some (rd_issue c) else None
           | None \<Rightarrow> None))"

definition fetched :: "issue_fetch \<Rightarrow> issue option" where
  "fetched r = (case r of Fetched i \<Rightarrow> Some i | _ \<Rightarrow> None)"

definition replayInputRequiredIssueDetail ::
  "watch_env \<Rightarrow> (string, replay_detail) gomap \<Rightarrow> (string, replay_detail) gomap \<Rightarrow> input_required_entry \<Rightarrow> string \<Rightarrow> time
   \<Rightarrow> (string, replay_detail) gomap \<times> issue option" where
  "replayInputRequiredIssueDetail env prev nxt e blockedKey now =
     (let k = ir_IssueID e in
      if k \<noteq> []
      then case replayDetailCached prev nxt k blockedKey now of
             Some cached \<Rightarrow> (if mhas nxt k then nxt else (case mget prev k of Some c \<Rightarrow> mput nxt k c | None \<Rightarrow> nxt), cached)
           | None \<Rightarrow> let issue = fetched (tk_FetchIssueDetail (we_tracker env) k)
                     in (mput nxt k \<lparr>rd_issue = issue, rd_blockedKey = blockedKey, rd_fetchedAt = now\<rparr>, issue)
      else if ir_Identifier e = [] then (nxt, None)
      else (nxt, fetched (tk_FetchIssueByIdentifier (we_tracker env) (ir_Identifier e))))"

definition replayInputRequiredDispatch :: "input_required_entry \<Rightarrow> input_required_automation \<Rightarrow> time \<Rightarrow> automation_dispatch" where
  "replayInputRequiredDispatch e a now = input_required_dispatch e now a"

fun replay_rules ::
  "watch_env \<Rightarrow> time \<Rightarrow> issue \<Rightarrow> input_required_entry \<Rightarrow> input_required_automation list \<Rightarrow> string goset \<Rightarrow> string goset \<times> sent" where
  "replay_rules env now issue e [] fired = (fired, [])"
| "replay_rules env now issue e (a # as) fired =
     (let d = replayInputRequiredDispatch e a now
      in if mhas fired (ira_ID a) \<or> \<not> matchesInputRequiredAutomation issue a (ir_Context e) \<or> \<not> we_accept env issue d
         then replay_rules env now issue e as fired
         else case replay_rules env now issue e as (mput fired (ira_ID a) ()) of (fired', out) \<Rightarrow> (fired', (issue, d) # out))"

definition all_fired :: "input_required_automation list \<Rightarrow> string goset" where
  "all_fired automations = foldl (\<lambda>m a. mput m (ira_ID a) ()) [] automations"

definition replay_issue_step ::
  "watch_env \<Rightarrow> time \<Rightarrow> input_required_automation list \<Rightarrow> replay_state \<Rightarrow> (string, input_required_entry) gomap \<Rightarrow> replay_state \<times> sent \<Rightarrow> string \<Rightarrow> replay_state \<times> sent" where
  "replay_issue_step env now automations prev waiting acc ident =
     (case mget waiting ident of
        None \<Rightarrow> acc
      | Some e \<Rightarrow>
          let (nxt, out) = acc; key = inputRequiredReplayKey env e;
              same = (case mget (rs_issues prev) ident of Some p \<Rightarrow> if ri_blockedKey p = key then Some p else None | None \<Rightarrow> None);
              fired0 = (case same of Some p \<Rightarrow> mkeep (\<lambda>k _. mhas (all_fired automations) k) (ri_fired p) | None \<Rightarrow> [])
          in if same = None \<and> rs_initialized prev
             then (nxt\<lparr>rs_issues := mput (rs_issues nxt) ident \<lparr>ri_blockedKey = key, ri_fired = all_fired automations\<rparr>\<rparr>, out)
             else if automations = [] \<or> \<not> hasPendingReplayAutomation automations fired0
             then (nxt\<lparr>rs_issues := mput (rs_issues nxt) ident \<lparr>ri_blockedKey = key, ri_fired = fired0\<rparr>\<rparr>, out)
             else case replayInputRequiredIssueDetail env (rs_details prev) (rs_details nxt) e key now of
               (details, None) \<Rightarrow>
                 (nxt\<lparr>rs_details := details, rs_issues := mput (rs_issues nxt) ident \<lparr>ri_blockedKey = key, ri_fired = fired0\<rparr>\<rparr>, out)
             | (details, Some issue) \<Rightarrow>
                 (case replay_rules env now issue e automations fired0 of
                    (fired', sent') \<Rightarrow>
                      (nxt\<lparr>rs_details := details, rs_issues := mput (rs_issues nxt) ident \<lparr>ri_blockedKey = key, ri_fired = fired'\<rparr>\<rparr>, out @ sent')))"

definition replay_prefetch ::
  "watch_env \<Rightarrow> time \<Rightarrow> input_required_automation list \<Rightarrow> replay_state \<Rightarrow> (string, input_required_entry) gomap \<Rightarrow> string list \<Rightarrow> (string, replay_detail) gomap" where
  "replay_prefetch env now automations prev waiting identifiers =
     (if automations = [] then []
      else let es = List.map_filter (\<lambda>i. case mget waiting i of Some e \<Rightarrow> if ir_IssueID e = [] then None else Some e | None \<Rightarrow> None) identifiers;
               ids = map ir_IssueID (filter (\<lambda>e. replayDetailCached (rs_details prev) [] (ir_IssueID e) (inputRequiredReplayKey env e) now = None) es);
               prefetched = PrefetchDetails (we_batch env) (rev (remdups (rev ids)))
           in foldl (\<lambda>m e. case mget prefetched (ir_IssueID e) of
                None \<Rightarrow> m
              | Some issue \<Rightarrow> mput m (ir_IssueID e) \<lparr>rd_issue = Some issue, rd_blockedKey = inputRequiredReplayKey env e, rd_fetchedAt = now\<rparr>) [] es)"

definition replayInputRequiredAutomations ::
  "watch_env \<Rightarrow> state \<Rightarrow> input_required_automation list \<Rightarrow> replay_state \<Rightarrow> time \<Rightarrow> replay_state \<times> sent" where
  "replayInputRequiredAutomations env snap automations prev now =
     (if bp_PausedProducers (s_AutomationQueueBackpressure snap) then (prev, [])
      else let waiting = s_InputRequiredIssues snap; identifiers = sort (mkeys waiting)
           in foldl (replay_issue_step env now automations prev waiting)
                (\<lparr>rs_initialized = True, rs_issues = [], rs_details = replay_prefetch env now automations prev waiting identifiers\<rparr>, []) identifiers)"

section \<open>A pass of the scheduler\<close>

record pass_view =
  vw_cfg :: config
  vw_automations :: "automation_config list"
  vw_replay :: state
  vw_cron :: "string \<Rightarrow> state"
  vw_poll :: state
  vw_active :: "string list"
  vw_terminal :: "string list"
  vw_completion :: string

record watch_state =
  wa_lastFired :: "(string, string) gomap"
  wa_poll :: poll_state
  wa_replay :: replay_state

definition runOnce :: "watch_env \<Rightarrow> pass_view \<Rightarrow> time \<Rightarrow> watch_state \<Rightarrow> watch_state \<times> sent" where
  "runOnce env v now w =
     (let cfg = vw_cfg v; compiled = compileAutomations env cfg (vw_automations v);
          (replay', out1) = replayInputRequiredAutomations env (vw_replay v) (cs_inputRequired compiled) (wa_replay w) now;
          (lastFired', due) = cron_pass env now (cs_cron compiled) (prune_fired (cs_cron compiled) (wa_lastFired w));
          out2 = concat (map (\<lambda>e. runCronAutomation env cfg (vw_cron v (acf_ID (ca_cfg e))) e (vw_active v) now) due);
          (poll', out3) = (if cs_polledEvents compiled = [] then (wa_poll w, [])
             else pollAutomationEvents env cfg (vw_poll v) (cs_trackerComments compiled) (cs_polledEvents compiled) (wa_poll w)
                    (vw_active v) (vw_terminal v) (vw_completion v) now)
      in (\<lparr>wa_lastFired = lastFired', wa_poll = poll', wa_replay = replay'\<rparr>, out1 @ out2 @ out3))"

section \<open>Cron rules fire once per minute\<close>

abbreviation rule_id :: "compiled_automation \<Rightarrow> string" where
  "rule_id e \<equiv> acf_ID (ca_cfg e)"

definition fires :: "watch_env \<Rightarrow> time \<Rightarrow> (string, string) gomap \<Rightarrow> compiled_automation \<Rightarrow> bool" where
  "fires env now lf e \<longleftrightarrow> acf_Enabled (ca_cfg e) \<and> cron_due env now e \<and> mget_or lf (rule_id e) [] \<noteq> we_minuteKey env (ca_location e) now"

definition stamped :: "watch_env \<Rightarrow> time \<Rightarrow> (string, string) gomap \<Rightarrow> compiled_automation \<Rightarrow> (string, string) gomap" where
  "stamped env now lf e = (if fires env now lf e then mput lf (rule_id e) (we_minuteKey env (ca_location e) now) else lf)"

lemma cron_pass_Cons:
  "fst (cron_pass env now (e # es) lf) = fst (cron_pass env now es (stamped env now lf e))"
  "snd (cron_pass env now (e # es) lf) = 
     (if fires env now lf e then e # snd (cron_pass env now es (stamped env now lf e)) else snd (cron_pass env now es (stamped env now lf e)))"
  by (simp_all add: Let_def fires_def stamped_def case_prod_beta)

lemma stamped_get:
  "mget_or (stamped env now lf f) r [] = (if fires env now lf f \<and> r = rule_id f then we_minuteKey env (ca_location f) now else mget_or lf r [])"
  by (simp add: stamped_def mget_or_def)

declare cron_pass.simps(2) [simp del]

lemma cron_pass_other:
  assumes "r \<notin> rule_id ` set es"
  shows "mget_or (fst (cron_pass env now es lf)) r [] = mget_or lf r [] \<and> r \<notin> rule_id ` set (snd (cron_pass env now es lf))"
  using assms
proof (induction es arbitrary: lf)
  case (Cons e es)
  then show ?case using Cons.IH [of "stamped env now lf e"] by (simp add: cron_pass_Cons stamped_get)
qed simp

lemma cron_pass_due:
  assumes "distinct (map rule_id es)" and "e \<in> set es"
  shows "(rule_id e \<in> rule_id ` set (snd (cron_pass env now es lf)) \<longleftrightarrow> fires env now lf e)
    \<and> mget_or (fst (cron_pass env now es lf)) (rule_id e) [] =
       (if fires env now lf e then we_minuteKey env (ca_location e) now else mget_or lf (rule_id e) [])"
  using assms
proof (induction es arbitrary: lf)
  case (Cons f es)
  show ?case
  proof (cases "f = e")
    case True
    then have "rule_id e \<notin> rule_id ` set es" using Cons.prems(1) by simp
    from cron_pass_other [OF this, of env now "stamped env now lf e"] show ?thesis by (simp add: True cron_pass_Cons stamped_get)
  next
    case False
    then have e: "e \<in> set es" "rule_id f \<noteq> rule_id e" using Cons.prems by (auto simp: image_iff)
    have lf: "mget_or (stamped env now lf f) (rule_id e) [] = mget_or lf (rule_id e) []" using e(2) by (simp add: stamped_get)
    have fe: "fires env now (stamped env now lf f) e = fires env now lf e" by (simp add: fires_def lf)
    show ?thesis using Cons.IH [of "stamped env now lf f"] Cons.prems(1) e by (simp add: cron_pass_Cons lf fe)
  qed
qed simp

lemma mget_mkeep_key: "mget (mkeep (\<lambda>k _. P k) m) k = (if P k then mget m k else None)"
  by (induction m) (auto simp: mkeep_def)

lemma prune_kept: "e \<in> set es \<Longrightarrow> mget_or (prune_fired es lf) (rule_id e) [] = mget_or lf (rule_id e) []"
  by (simp add: prune_fired_def mget_or_def mget_mkeep_key)

text \<open>The passes of a run: what each sees, and the rules that fire in it.\<close>

type_synonym cron_view = "watch_env \<times> compiled_automation list \<times> time"

fun cron_run :: "(string, string) gomap \<Rightarrow> cron_view list \<Rightarrow> string set list" where
  "cron_run lf [] = []"
| "cron_run lf ((env, es, now) # vs) =
     (case cron_pass env now es (prune_fired es lf) of (lf', fired) \<Rightarrow> (rule_id ` set fired) # cron_run lf' vs)"

definition configured :: "string \<Rightarrow> string \<Rightarrow> cron_view \<Rightarrow> bool" where
  "configured r minuteKey v \<longleftrightarrow> (case v of (env, es, now) \<Rightarrow> distinct (map rule_id es) \<and>
     (\<exists>e\<in>set es. rule_id e = r \<and> acf_Enabled (ca_cfg e) \<and> we_minuteKey env (ca_location e) now = minuteKey))"

definition due_in :: "string \<Rightarrow> cron_view \<Rightarrow> bool" where
  "due_in r v \<longleftrightarrow> (case v of (env, es, now) \<Rightarrow> \<exists>e\<in>set es. rule_id e = r \<and> cron_due env now e)"

lemma cron_run_step:
  assumes "configured r k (env, es, now)"
  shows "r \<in> rule_id ` set (snd (cron_pass env now es (prune_fired es lf))) \<longleftrightarrow> due_in r (env, es, now) \<and> mget_or lf r [] \<noteq> k"
    and "mget_or (fst (cron_pass env now es (prune_fired es lf))) r [] = (if due_in r (env, es, now) then k else mget_or lf r [])"
proof -
  obtain e where e: "distinct (map rule_id es)" "e \<in> set es" "rule_id e = r" "acf_Enabled (ca_cfg e)" "we_minuteKey env (ca_location e) now = k"
    using assms by (auto simp: configured_def)
  have only: "f = e" if "f \<in> set es" "rule_id f = r" for f
    using e(1-3) that inj_onD [of rule_id "set es" f e] by (simp add: distinct_map)
  then have d: "due_in r (env, es, now) = cron_due env now e" using e(2,3) unfolding due_in_def prod.case by blast
  have g: "mget_or (prune_fired es lf) r [] = mget_or lf r []" using prune_kept [OF e(2), of lf] e(3) by simp
  have f: "fires env now (prune_fired es lf) e \<longleftrightarrow> cron_due env now e \<and> mget_or lf r [] \<noteq> k" using e g by (simp add: fires_def)
  note p = cron_pass_due [OF e(1,2), of env now "prune_fired es lf", unfolded e(3)]
  show "r \<in> rule_id ` set (snd (cron_pass env now es (prune_fired es lf))) \<longleftrightarrow> due_in r (env, es, now) \<and> mget_or lf r [] \<noteq> k"
    using p f d by simp
  show "mget_or (fst (cron_pass env now es (prune_fired es lf))) r [] = (if due_in r (env, es, now) then k else mget_or lf r [])"
    using p f d e(5) g by auto
qed


section \<open>Comment events\<close>

lemma fold_put:
  assumes "mget (foldl (\<lambda>m i. case f i of None \<Rightarrow> m | Some c \<Rightarrow> mput m (key i) c) m xs) k = Some c"
  shows "mget m k = Some c \<or> (\<exists>i. key i = k \<and> f i = Some c)"
  using assms
proof (induction xs arbitrary: m)
  case (Cons i xs)
  show ?case
  proof (cases "f i")
    case None
    then show ?thesis using Cons.IH [of m] Cons.prems by simp
  next
    case (Some c')
    then show ?thesis using Cons.IH [of "mput m (key i) c'"] Cons.prems by (cases "k = key i") auto
  qed
qed simp

lemma remembered_comment:
  assumes "mget (poll_entry_comments env cfg snap rules now prev issues entry) k = Some c"
  shows "\<exists>issue. is_ID issue = k \<and> fst (poll_issue env cfg snap rules now prev entry issue) = Some c"
  using fold_put [OF assms [unfolded poll_entry_comments_def]] by simp

text \<open>What a poll remembers about an issue's comments is what its detail showed then.\<close>

definition comment_snapshot :: "watch_env \<Rightarrow> string \<Rightarrow> observed_comment option" where
  "comment_snapshot env k = map_option (\<lambda>d. case latestAutomationComment (is_Comments d) of
       Some c \<Rightarrow> observedAutomationCommentFromComment env c | None \<Rightarrow> \<lparr>oc_LatestCommentID = [], oc_CommentCreatedAt = []\<rparr>)
     (fetched (tk_FetchIssueDetail (we_tracker env) k))"

lemma poll_issue_comment:
  assumes "fst (poll_issue env cfg snap rules now prev entry issue) = Some c"
  shows "comment_snapshot env (is_ID issue) = Some c"
  using assms
  by (auto simp: poll_issue_def poll_comment_def comment_snapshot_def fetched_def Let_def split: if_splits option.splits issue_fetch.splits)

definition baseline :: "poll_state \<Rightarrow> string \<Rightarrow> string \<Rightarrow> observed_comment option" where
  "baseline st rule k = mget (mget_or (po_trackerComments st) rule []) k"

definition polled :: "watch_env \<Rightarrow> config \<Rightarrow> state \<Rightarrow> compiled_automation list \<Rightarrow> string list \<Rightarrow> string list \<Rightarrow> string \<Rightarrow> bool" where
  "polled env cfg snap entries act terminal compl \<longleftrightarrow> \<not> bp_PausedProducers (s_AutomationQueueBackpressure snap) \<and>
     automationPollStates cfg entries act terminal compl \<noteq> [] \<and>
     we_fetchByStates env (automationPollStates cfg entries act terminal compl) \<noteq> None"

lemma baseline_after_poll:
  assumes "pollAutomationEvents env cfg snap rules entries prev act terminal compl now = (st, out)"
    and "baseline st rule k = Some c"
  shows "if polled env cfg snap entries act terminal compl then comment_snapshot env k = Some c else st = prev"
proof (cases "polled env cfg snap entries act terminal compl")
  case True
  then obtain issues where st: "po_trackerComments st = foldl (\<lambda>m entry. mput m (rule_id entry) (poll_entry_comments env cfg snap rules now prev issues entry)) []
      (filter (\<lambda>e. atc_Type (acf_Trigger (ca_cfg e)) = AutomationTriggerTrackerComment) entries)"
    using assms(1) by (auto simp: pollAutomationEvents_def polled_def Let_def split: option.splits)
  have "mget (foldl (\<lambda>m entry. mput m (rule_id entry) (f entry)) m es) rule = Some x \<Longrightarrow> mget m rule = Some x \<or> (\<exists>entry. x = f entry)" for f m es x
    by (induction es arbitrary: m) (fastforce split: if_splits)+
  then obtain entry where "mget (poll_entry_comments env cfg snap rules now prev issues entry) k = Some c"
    using assms(2) unfolding baseline_def st by (fastforce simp: mget_or_def split: option.splits)
  then show ?thesis using True remembered_comment poll_issue_comment by fastforce
next
  case False
  then show ?thesis using assms(1) by (auto simp: pollAutomationEvents_def polled_def Let_def split: if_splits option.splits)
qed

lemma comment_dispatch_needs_baseline:
  assumes "pollAutomationEvents env cfg snap rules entries prev act terminal compl now = (st, out)"
    and "(i, a) \<in> set out" and "tr_Type (ad_Trigger a) = AutomationTriggerTrackerComment"
  shows "\<exists>rule p c. baseline prev rule (is_ID i) = Some p \<and> comment_snapshot env (is_ID i) = Some c \<and> hasNewAutomationComment p c"
proof -
  obtain entry issues where e: "(i, a) \<in> set (poll_entry_matches env cfg snap rules now prev issues entry)"
    using assms(1,2) by (auto simp: pollAutomationEvents_def Let_def split: if_splits option.splits)
  have "set (limited n xs) \<subseteq> set xs" for n and xs :: "(issue \<times> automation_dispatch) list" by (auto simp: limited_def dest: in_set_takeD)
  then obtain t where t: "snd (poll_issue env cfg snap rules now prev entry i) = Some t" "a = rule_dispatch entry t"
    using e by (fastforce simp: poll_entry_matches_def List.map_filter_def)
  then have ty: "tr_Type t = AutomationTriggerTrackerComment" using assms(3) by (simp add: rule_dispatch_def)
  have "tr_Type t \<noteq> AutomationTriggerTrackerComment" if "poll_entered now entry p i = Some t \<or> poll_moved cfg now entry p i = Some t" for p
    using that by (auto simp: poll_entered_def poll_moved_def empty_trigger_def trigger_types split: if_splits)
  then have "snd (poll_comment env rules now entry (mget_or (po_trackerComments prev) (rule_id entry) []) i) = Some t"
    using t(1) ty by (auto simp: poll_issue_def Let_def split: if_splits option.splits)
  then show ?thesis
    by (fastforce simp: poll_comment_def comment_snapshot_def fetched_def Let_def baseline_def split: if_splits option.splits issue_fetch.splits)
qed

lemma same_comment_not_new: "\<not> hasNewAutomationComment c c"
  by (simp add: hasNewAutomationComment_def)

text \<open>
  C36. A comment is lost when the issue's detail could not be read once. After a poll in which the detail of an issue was not available, the next poll reports no
  comment of that issue, whatever was posted meanwhile, and neither does the poll after it while the issue has no further comment:
  the comment became the baseline without ever being reported.
\<close>

theorem comment_lost_after_failed_detail:
  assumes "pollAutomationEvents env2 cfg2 snap2 rules2 entries2 st1 act2 terminal2 compl2 now2 = (st2, out2)" and "polled env2 cfg2 snap2 entries2 act2 terminal2 compl2"
    and "fetched (tk_FetchIssueDetail (we_tracker env2) k) = None"
    and "pollAutomationEvents env3 cfg3 snap3 rules3 entries3 st2 act3 terminal3 compl3 now3 = (st3, out3)"
    and "pollAutomationEvents env4 cfg4 snap4 rules4 entries4 st3 act4 terminal4 compl4 now4 = (st4, out4)"
    and "tk_FetchIssueDetail (we_tracker env4) k = tk_FetchIssueDetail (we_tracker env3) k" and "we_rfc3339 env4 = we_rfc3339 env3"
  shows "list_all (\<lambda>(i, a). is_ID i = k \<longrightarrow> tr_Type (ad_Trigger a) \<noteq> AutomationTriggerTrackerComment) (out3 @ out4)"
proof -
  have s2: "baseline st2 rule k = None" for rule
    using baseline_after_poll [OF assms(1), of rule k] assms(2,3) by (cases "baseline st2 rule k") (auto simp: comment_snapshot_def)
  have s3: "baseline st3 rule k = Some p \<Longrightarrow> comment_snapshot env3 k = Some p" for rule p
    using baseline_after_poll [OF assms(4), of rule k p] s2 [of rule] by (auto split: if_splits)
  have same: "comment_snapshot env4 k = comment_snapshot env3 k"
    unfolding comment_snapshot_def observedAutomationCommentFromComment_def comment_time_def assms(6,7) ..
  have "tr_Type (ad_Trigger a) \<noteq> AutomationTriggerTrackerComment" if "(i, a) \<in> set out3" "is_ID i = k" for i a
    using comment_dispatch_needs_baseline [OF assms(4) that(1)] s2 that(2) by auto
  moreover have "tr_Type (ad_Trigger a) \<noteq> AutomationTriggerTrackerComment" if "(i, a) \<in> set out4" "is_ID i = k" for i a
    using comment_dispatch_needs_baseline [OF assms(5) that(1)] s3 same same_comment_not_new that(2) by fastforce
  ultimately show ?thesis by (auto simp: list_all_iff)
qed

section \<open>Replayed rules\<close>

text \<open>
  Replay does not respect the age limit of a rule. A rule added while a question is already waiting is dispatched by the next replay pass when its filter
  matches, also when the question is older than the rule's \<open>max_age_minutes\<close>, although the event loop would not fire it.
\<close>

theorem replay_ignores_max_age:
  assumes "s_InputRequiredIssues snap = [(ident, e)]" and "\<not> bp_PausedProducers (s_AutomationQueueBackpressure snap)"
    and "mget (rs_issues prev) ident = Some \<lparr>ri_blockedKey = inputRequiredReplayKey env e, ri_fired = fired\<rparr>" and "\<not> mhas fired (ira_ID a)"
    and "ir_IssueID e \<noteq> []" and "we_batch env = None" and "mget (rs_details prev) (ir_IssueID e) = None"
    and "tk_FetchIssueDetail (we_tracker env) (ir_IssueID e) = Fetched issue"
    and "matchesInputRequiredAutomation issue a (ir_Context e)" and "0 < ira_MaxAge a" and "\<not> isZero (ir_QueuedAt e)"
    and "ira_MaxAge a < time_sub now (ir_QueuedAt e)" and "we_accept env issue (input_required_dispatch e now a)"
  shows "snd (replayInputRequiredAutomations env snap [a] prev now) = [(issue, input_required_dispatch e now a)]
    \<and> \<not> input_required_fires issue e now a"
proof -
  have "\<not> mhas (mkeep (\<lambda>k _. mhas (all_fired [a]) k) fired) (ira_ID a)" using assms(4) by (simp add: mhas_def mget_mkeep_key)
  moreover have "replay_prefetch env now [a] prev [(ident, e)] [ident] = []"
    using assms(6) by (simp add: replay_prefetch_def PrefetchDetails_def Let_def List.map_filter_def)
  ultimately show ?thesis
    using assms
    by (simp add: replayInputRequiredAutomations_def Let_def mkeys_def replay_issue_step_def hasPendingReplayAutomation_def replayDetailCached_def
        replayInputRequiredIssueDetail_def fetched_def replayInputRequiredDispatch_def input_required_fires_def)
qed

section \<open>Concrete passes\<close>

definition ex_rule_config :: "string \<Rightarrow> automation_config" where
  "ex_rule_config ty = \<lparr>acf_ID = ''r1'', acf_Enabled = True, acf_Profile = ''bot'', acf_Instructions = [],
     acf_Trigger = \<lparr>atc_Type = ty, atc_Cron = [], atc_Timezone = [], atc_State = []\<rparr>,
     acf_Filter = \<lparr>afc_MatchMode = ''all'', afc_States = [], afc_LabelsAny = [], afc_IdentifierRegex = [], afc_Limit = 0, afc_InputContextRegex = [],
       afc_MaxAgeMinutes = 0, afc_BodyContains = [], afc_BodyRegex = []\<rparr>,
     acf_Policy = \<lparr>apc_AutoResume = False, apc_SwitchToProfile = [], apc_SwitchToBackend = [], apc_CooldownMinutes = 0, apc_MoveToState = []\<rparr>\<rparr>"

definition ex_any_time :: cron_expression where
  "ex_any_time = (let f = \<lparr>fs_any = True, fs_values = []\<rparr> in \<lparr>ce_minute = f, ce_hour = f, ce_day = f, ce_month = f, ce_week = f\<rparr>)"

definition ex_compiled :: "string \<Rightarrow> compiled_automation" where
  "ex_compiled ty = \<lparr>ca_cfg = ex_rule_config ty, ca_expr = Some ex_any_time, ca_location = [], ca_identifierRe = None, ca_inputContextRe = None\<rparr>"

definition ex_detail :: "string \<Rightarrow> issue_fetch" where
  "ex_detail body = Fetched ((ex_issue ''A-1'')\<lparr>is_Comments :=
     [\<lparr>cm_ID = ''c2'', cm_Body = body, cm_CreatedAt = None, cm_AuthorID = ''u1'', cm_AuthorName = ''ada''\<rparr>]\<rparr>)"

definition ex_watch :: "issue_fetch \<Rightarrow> watch_env" where
  "ex_watch detail = \<lparr>we_regex = (\<lambda>_. None), we_zone = (\<lambda>_. True), we_civil = (\<lambda>_ _. ex_clock), we_minuteKey = (\<lambda>_ t. itoa (t div minute)),
     we_rfc3339 = itoa, we_rfc3339nano = itoa, we_fetchByStates = (\<lambda>_. Some [ex_issue ''A-1'']),
     we_tracker = \<lparr>tk_FetchIssueDetail = (\<lambda>_. detail), tk_FetchIssueByIdentifier = (\<lambda>_. Fetched (ex_issue ''A-1'')), tk_FetchIssueStatesByIDs = (\<lambda>_. Some [])\<rparr>,
     we_batch = None, we_accept = (\<lambda>_ _. True)\<rparr>"

definition ex_seen :: poll_state where
  "ex_seen = \<lparr>po_issues = [(''id-A-1'', \<lparr>oi_State = ''Todo'', oi_InBacklog = False\<rparr>)],
     po_trackerComments = [(''r1'', [(''id-A-1'', \<lparr>oc_LatestCommentID = ''c1'', oc_CommentCreatedAt = []\<rparr>)])]\<rparr>"

definition ex_poll :: "issue_fetch \<Rightarrow> poll_state \<Rightarrow> poll_state \<times> sent" where
  "ex_poll detail prev = pollAutomationEvents (ex_watch detail) ex_config ex_state [] [ex_compiled AutomationTriggerTrackerComment] prev [''Todo''] [''Done''] [] 5"


theorem comment_lost_after_failed_detail_witness:
  "let st2 = fst (ex_poll (FetchFailed ''timeout'') ex_seen); (st3, out3) = ex_poll (ex_detail ''please fix'') st2;
       (st4, out4) = ex_poll (ex_detail ''please fix'') st3
   in list_all (\<lambda>(i, a). is_ID i = ''id-A-1'' \<longrightarrow> tr_Type (ad_Trigger a) \<noteq> AutomationTriggerTrackerComment) (out3 @ out4)
     \<and> length (snd (ex_poll (ex_detail ''please fix'') ex_seen)) = 1"
proof -
  let ?es = "[ex_compiled AutomationTriggerTrackerComment]" and ?new = "ex_detail ''please fix''"
  let ?st2 = "fst (ex_poll (FetchFailed ''timeout'') ex_seen)" and ?st3 = "fst (ex_poll ?new (fst (ex_poll (FetchFailed ''timeout'') ex_seen)))"
  have "polled (ex_watch (FetchFailed ''timeout'')) ex_config ex_state ?es [''Todo''] [''Done''] []"
    "fetched (tk_FetchIssueDetail (we_tracker (ex_watch (FetchFailed ''timeout''))) ''id-A-1'') = None" by code_simp+
  note lost = comment_lost_after_failed_detail [OF _ this(1) this(2), of "[]" ex_seen 5 ?st2 "snd (ex_poll (FetchFailed ''timeout'') ex_seen)"
      "ex_watch ?new" ex_config ex_state "[]" ?es "[''Todo'']" "[''Done'']" "[]" 5 ?st3 "snd (ex_poll ?new ?st2)"
      "ex_watch ?new" ex_config ex_state "[]" ?es "[''Todo'']" "[''Done'']" "[]" 5 "fst (ex_poll ?new ?st3)" "snd (ex_poll ?new ?st3)"]
  have "length (snd (ex_poll ?new ex_seen)) = 1" by code_simp
  with lost show ?thesis by (simp add: ex_poll_def case_prod_beta)
qed

definition ex_question :: input_required_entry where
  "ex_question = \<lparr>ir_IssueID = ''id-A-1'', ir_Identifier = ''A-1'', ir_SessionID = [], ir_Context = ''which file?'', ir_BranchName = [], ir_Backend = ''claude'',
     ir_Command = [], ir_WorkerHost = [], ir_ProfileName = [], ir_QuestionCommentKey = ''q1'', ir_QuestionCommentID = [], ir_QuestionAuthorID = [],
     ir_QuestionAuthorName = [], ir_QueuedAt = second, ir_LastReplyCheckAt = 0, ir_QuestionStuckWarned = False\<rparr>"

definition ex_helper :: input_required_automation where
  "ex_helper = \<lparr>ira_ID = ''h1'', ira_ProfileName = ''bot'', ira_Instructions = [], ira_MatchMode = ''all'', ira_States = [], ira_LabelsAny = [],
     ira_IdentifierRegex = None, ira_InputContextRegex = None, ira_AutoResume = True, ira_MaxAge = 10 * minute\<rparr>"

theorem replay_ignores_max_age_witness:
  "length (snd (replayInputRequiredAutomations (ex_watch (ex_detail ''x'')) (ex_state\<lparr>s_InputRequiredIssues := [(''A-1'', ex_question)]\<rparr>) [ex_helper]
      \<lparr>rs_initialized = True, rs_issues = [(''A-1'', \<lparr>ri_blockedKey = ''comment-key:q1'', ri_fired = []\<rparr>)], rs_details = []\<rparr> (60 * minute))) = 1"
proof -
  let ?env = "ex_watch (ex_detail ''x'')" and ?snap = "ex_state\<lparr>s_InputRequiredIssues := [(''A-1'', ex_question)]\<rparr>"
  let ?prev = "\<lparr>rs_initialized = True, rs_issues = [(''A-1'', \<lparr>ri_blockedKey = ''comment-key:q1'', ri_fired = []\<rparr>)], rs_details = []\<rparr>"
  obtain issue where i: "ex_detail ''x'' = Fetched issue" by (simp add: ex_detail_def)
  have m: "matchesInputRequiredAutomation j ex_helper ctx" for j ctx
    by (simp add: matchesInputRequiredAutomation_def MatchesAutomationFilter_def filter_checks_def ex_helper_def)
  have "\<not> bp_PausedProducers (s_AutomationQueueBackpressure ?snap)" "\<not> isZero (ir_QueuedAt ex_question)" "0 < ira_MaxAge ex_helper"
    "ira_MaxAge ex_helper < time_sub (60 * minute) (ir_QueuedAt ex_question)" "inputRequiredReplayKey ?env ex_question = ''comment-key:q1''" by code_simp+
  then show ?thesis
    using replay_ignores_max_age [of ?snap "''A-1''" ex_question ?prev ?env "[]" ex_helper issue "60 * minute"] i m
    by (simp add: mhas_def ex_question_def ex_watch_def)
qed

end
