(* ===== verification/Agent_Tokens.thy ===== *)
theory Agent_Tokens
  imports Prelude
begin

text \<open>
  The grants that let an agent call back into the daemon (\<open>internal/agentactions/store.go\<close>): issuing, revoking, sweeping and
  validating tokens. The random token (or the failure to draw one) and the clock are arguments; the mutex makes every operation a step.
\<close>

section \<open>The store\<close>

record grant =
  gr_IssueIdentifier :: string
  gr_RunSessionID :: string
  gr_AllowedActions :: "string list"
  gr_CreateIssueState :: string
  gr_MoveIssueState :: string
  gr_ExpiresAt :: time

type_synonym token_store = "(string, grant) gomap"

definition NewStore :: token_store where "NewStore = []"

definition new_grant :: "string \<Rightarrow> string \<Rightarrow> string list \<Rightarrow> string \<Rightarrow> string \<Rightarrow> duration \<Rightarrow> time \<Rightarrow> grant" where
  "new_grant issueIdentifier runSessionID allowedActions createIssueState moveIssueState ttl now =
     \<lparr>gr_IssueIdentifier = issueIdentifier, gr_RunSessionID = runSessionID, gr_AllowedActions = sort allowedActions,
      gr_CreateIssueState = createIssueState, gr_MoveIssueState = moveIssueState,
      gr_ExpiresAt = (if ttl \<le> 0 then now + hour else now + ttl)\<rparr>"

definition IssueScoped ::
  "string + string \<Rightarrow> time \<Rightarrow> token_store \<Rightarrow> string \<Rightarrow> string \<Rightarrow> string list \<Rightarrow> string \<Rightarrow> string \<Rightarrow> duration \<Rightarrow> token_store \<times> (string + string)" where
  "IssueScoped drawn now s issueIdentifier runSessionID allowedActions createIssueState moveIssueState ttl =
     (case drawn of
        Inl err \<Rightarrow> (s, Inl err)
      | Inr token \<Rightarrow> (mput s token (new_grant issueIdentifier runSessionID allowedActions createIssueState moveIssueState ttl now), Inr token))"

definition issue_token :: "string + string \<Rightarrow> time \<Rightarrow> token_store \<Rightarrow> string \<Rightarrow> string \<Rightarrow> string list \<Rightarrow> string \<Rightarrow> duration \<Rightarrow> token_store \<times> (string + string)" where
  "issue_token drawn now s issueIdentifier runSessionID allowedActions createIssueState ttl =
     IssueScoped drawn now s issueIdentifier runSessionID allowedActions createIssueState [] ttl"

definition Revoke :: "token_store \<Rightarrow> string \<Rightarrow> token_store" where
  "Revoke s token = (if token = [] then s else mdel s token)"

definition Cleanup :: "token_store \<Rightarrow> time \<Rightarrow> token_store \<times> nat" where
  "Cleanup s now =
     (let kept = mkeep (\<lambda>_ g. now < gr_ExpiresAt g) s in (kept, length s - length kept))"

definition Validate :: "token_store \<Rightarrow> string \<Rightarrow> string \<Rightarrow> string \<Rightarrow> time \<Rightarrow> token_store \<times> (string + grant)" where
  "Validate s token issueIdentifier action now =
     (if token = [] then (s, Inl ''missing_token'')
      else case mget s token of
        None \<Rightarrow> (s, Inl ''unknown_token'')
      | Some g \<Rightarrow>
          if gr_ExpiresAt g < now then (mdel s token, Inl ''expired_token'')
          else if gr_IssueIdentifier g \<noteq> issueIdentifier then (s, Inl ''issue_mismatch'')
          else if action \<notin> set (gr_AllowedActions g) then (s, Inl ''action_not_allowed'')
          else (s, Inr g))"

section \<open>Histories\<close>

text \<open>What can happen to a store, and what a history of it leaves alive.\<close>

datatype store_event =
    Issued "string + string" time string string "string list" string string duration
  | Revoked string
  | Cleaned time
  | Validated string string string time

fun store_step :: "token_store \<Rightarrow> store_event \<Rightarrow> token_store" where
  "store_step s (Issued drawn now issue run actions create move ttl) = fst (IssueScoped drawn now s issue run actions create move ttl)"
| "store_step s (Revoked token) = Revoke s token"
| "store_step s (Cleaned now) = fst (Cleanup s now)"
| "store_step s (Validated token issue action now) = fst (Validate s token issue action now)"

fun grants_token :: "string \<Rightarrow> grant \<Rightarrow> store_event \<Rightarrow> bool" where
  "grants_token token g (Issued drawn now issue run actions create move ttl) =
     (drawn = Inr token \<and> g = new_grant issue run actions create move ttl now)"
| "grants_token token g _ = False"

fun keeps_grant :: "string \<Rightarrow> grant \<Rightarrow> store_event \<Rightarrow> bool" where
  "keeps_grant token g (Issued drawn _ _ _ _ _ _ _) = (drawn \<noteq> Inr token)"
| "keeps_grant token g (Revoked token') = (token' \<noteq> token)"
| "keeps_grant token g (Cleaned now) = (now < gr_ExpiresAt g)"
| "keeps_grant token g (Validated token' _ _ now) = (token' = token \<longrightarrow> now \<le> gr_ExpiresAt g)"

definition alive :: "store_event list \<Rightarrow> string \<Rightarrow> grant \<Rightarrow> bool" where
  "alive evs token g \<longleftrightarrow>
     (\<exists>before ev after. evs = before @ ev # after \<and> grants_token token g ev \<and> list_all (keeps_grant token g) after)"

lemma alive_snoc:
  "alive (evs @ [ev]) token g \<longleftrightarrow> grants_token token g ev \<or> alive evs token g \<and> keeps_grant token g ev"
proof
  assume "alive (evs @ [ev]) token g"
  then obtain before e after where s: "evs @ [ev] = before @ e # after" "grants_token token g e"
      "list_all (keeps_grant token g) after" by (auto simp: alive_def)
  show "grants_token token g ev \<or> alive evs token g \<and> keeps_grant token g ev"
  proof (cases after rule: rev_cases)
    case Nil
    with s(1,2) show ?thesis by simp
  next
    case (snoc after' x)
    with s(1) have "evs @ [ev] = (before @ e # after') @ [x]" by simp
    then have "evs = before @ e # after'" "x = ev" by (simp_all only: append1_eq_conv)
    with s(2,3) snoc show ?thesis by (auto simp: alive_def)
  qed
next
  assume "grants_token token g ev \<or> alive evs token g \<and> keeps_grant token g ev"
  then show "alive (evs @ [ev]) token g"
  proof
    assume "grants_token token g ev"
    then show ?thesis unfolding alive_def by (intro exI [of _ evs] exI [of _ ev] exI [of _ "[]"]) simp
  next
    assume "alive evs token g \<and> keeps_grant token g ev"
    then obtain before e after where "evs @ [ev] = before @ e # (after @ [ev])" "grants_token token g e"
        "list_all (keeps_grant token g) (after @ [ev])" by (auto simp: alive_def)
    then show ?thesis unfolding alive_def by blast
  qed
qed

lemma step_keeps:
  assumes "mwf s" and "token \<noteq> []"
  shows "mget (store_step s ev) token = Some g \<longleftrightarrow> grants_token token g ev \<or> mget s token = Some g \<and> keeps_grant token g ev"
proof (cases ev)
  case (Validated t i a now)
  then show ?thesis using assms by (auto simp: Validate_def split: option.split)
next
  case (Issued drawn now i r acts c m ttl)
  then show ?thesis using assms by (cases drawn) (auto simp: IssueScoped_def)
qed (use assms in \<open>auto simp: Revoke_def Cleanup_def mget_mkeep Let_def split: option.splits if_splits\<close>)

lemma step_mwf: "mwf s \<Longrightarrow> mwf (store_step s ev)"
  by (cases ev) (auto simp: IssueScoped_def Revoke_def Cleanup_def Validate_def Let_def split: option.split sum.split)

lemma store_after:
  assumes "token \<noteq> []"
  shows "mget (foldl store_step NewStore evs) token = Some g \<longleftrightarrow> alive evs token g"
proof -
  have wf: "mwf (foldl store_step NewStore evs)" for evs
    by (induction evs rule: rev_induct) (simp_all add: step_mwf, simp add: NewStore_def mwf_def mkeys_def)
  show ?thesis
  proof (induction evs rule: rev_induct)
    case Nil
    then show ?case by (simp add: NewStore_def alive_def)
  next
    case (snoc ev evs)
    then show ?case using step_keeps [OF wf assms] by (simp add: alive_snoc)
  qed
qed

text \<open>
  C34. A token authorises exactly what it was issued for. After any history of the store, validation succeeds with a grant exactly when the token is not empty,
  was issued with that grant and neither reissued, revoked, swept at or after its expiry nor presented after its expiry
  since, is not expired, and the grant names the issue and allows the action.
\<close>

theorem token_authorises_exactly:
  "snd (Validate (foldl store_step NewStore evs) token issue action now) = Inr g \<longleftrightarrow>
     token \<noteq> [] \<and> alive evs token g \<and> now \<le> gr_ExpiresAt g \<and> gr_IssueIdentifier g = issue \<and> action \<in> set (gr_AllowedActions g)"
proof (cases "token = []")
  case False
  note st = store_after [OF False, of evs]
  show ?thesis
  proof (cases "mget (foldl store_step NewStore evs) token")
    case None
    then show ?thesis using st [of g] by (simp add: Validate_def False)
  next
    case (Some h)
    then show ?thesis using st [of g] by (auto simp: Validate_def False)
  qed
qed (simp add: Validate_def)

end
