(* ===== verification/Dispatch_Order.thy ===== *)
theory Dispatch_Order
  imports Orch_State "HOL-Library.Product_Lexorder"
begin

text \<open>
  The dispatch order (\<open>SortForDispatch\<close> in \<open>internal/orchestrator/dispatch.go\<close> and the
  graph-aware modes of \<open>sort_critical_path.go\<close>). \<open>cmp.Compare\<close> is \<open>compare\<close>; identifiers are
  compared byte by byte.
\<close>

section \<open>Operations\<close>

definition compare :: "'a::linorder \<Rightarrow> 'a \<Rightarrow> int" where
  "compare a b = (if a < b then - 1 else if b < a then 1 else 0)"

record graph_metrics =
  gm_TransitiveDependents :: "(string, int) gomap"
  gm_LongestChain :: "(string, int) gomap"
  gm_CycleMembers :: "(string, int) gomap"

text \<open>The comparison closure of \<open>SortForDispatch\<close>.\<close>

definition dispatch_less :: "issue \<Rightarrow> issue \<Rightarrow> bool" where
  "dispatch_less a b =
     (let rest =
        (let byName = is_Identifier a < is_Identifier b
         in case (is_CreatedAt a, is_CreatedAt b) of
              (None, None) \<Rightarrow> byName
            | (None, Some _) \<Rightarrow> False
            | (Some _, None) \<Rightarrow> True
            | (Some ca, Some cb) \<Rightarrow> if ca \<noteq> cb then ca < cb else byName)
      in case (is_Priority a, is_Priority b) of
           (None, None) \<Rightarrow> rest
         | (None, Some _) \<Rightarrow> False
         | (Some _, None) \<Rightarrow> True
         | (Some pa, Some pb) \<Rightarrow> if pa \<noteq> pb then pa < pb else rest)"

definition SortForDispatch :: "issue list \<Rightarrow> issue list" where
  "SortForDispatch issues = stable_sort dispatch_less issues"

definition cmpPriority :: "issue \<Rightarrow> issue \<Rightarrow> int" where
  "cmpPriority a b =
     (case (is_Priority a, is_Priority b) of
        (None, None) \<Rightarrow> 0
      | (None, Some _) \<Rightarrow> 1
      | (Some _, None) \<Rightarrow> - 1
      | (Some pa, Some pb) \<Rightarrow> compare pa pb)"

definition dependents_of :: "graph_metrics \<Rightarrow> issue \<Rightarrow> int" where
  "dependents_of m i = mget_or (gm_TransitiveDependents m) (is_Identifier i) 0"

definition chain_of :: "graph_metrics \<Rightarrow> issue \<Rightarrow> int" where
  "chain_of m i = mget_or (gm_LongestChain m) (is_Identifier i) 0"

definition cmpGraph :: "issue \<Rightarrow> issue \<Rightarrow> graph_metrics \<Rightarrow> int" where
  "cmpGraph a b m =
     (if dependents_of m a \<noteq> dependents_of m b then compare (dependents_of m b) (dependents_of m a)
      else compare (chain_of m b) (chain_of m a))"

definition cmpCreatedAt :: "issue \<Rightarrow> issue \<Rightarrow> int" where
  "cmpCreatedAt a b =
     (case (is_CreatedAt a, is_CreatedAt b) of
        (None, None) \<Rightarrow> 0
      | (None, Some _) \<Rightarrow> 1
      | (Some _, None) \<Rightarrow> - 1
      | (Some ca, Some cb) \<Rightarrow> if ca = cb then 0 else if ca < cb then - 1 else 1)"

definition sortForDispatchBy :: "issue list \<Rightarrow> (issue \<Rightarrow> issue \<Rightarrow> int) \<Rightarrow> issue list" where
  "sortForDispatchBy issues cmpFn = stable_sort (\<lambda>a b. cmpFn a b < 0) issues"

definition SortForDispatchCriticalPath :: "issue list \<Rightarrow> graph_metrics \<Rightarrow> issue list" where
  "SortForDispatchCriticalPath issues m =
     sortForDispatchBy issues (\<lambda>a b.
       let c = cmpPriority a b in if c \<noteq> 0 then c else
       let c = cmpGraph a b m in if c \<noteq> 0 then c else
       let c = cmpCreatedAt a b in if c \<noteq> 0 then c else
       compare (is_Identifier a) (is_Identifier b))"

definition SortForDispatchCriticalPathStrict :: "issue list \<Rightarrow> graph_metrics \<Rightarrow> issue list" where
  "SortForDispatchCriticalPathStrict issues m =
     sortForDispatchBy issues (\<lambda>a b.
       let c = cmpGraph a b m in if c \<noteq> 0 then c else
       let c = cmpPriority a b in if c \<noteq> 0 then c else
       let c = cmpCreatedAt a b in if c \<noteq> 0 then c else
       compare (is_Identifier a) (is_Identifier b))"

text \<open>The switch on \<open>dependencies.ordering\<close> in \<open>onTick\<close>.\<close>

definition sorted_candidates :: "string \<Rightarrow> issue list \<Rightarrow> graph_metrics \<Rightarrow> issue list" where
  "sorted_candidates mode issues m =
     (if mode = ''simple'' then SortForDispatch issues
      else if mode = ''critical_path_strict'' then SortForDispatchCriticalPathStrict issues m
      else SortForDispatchCriticalPath issues m)"

section \<open>Sort keys\<close>

text \<open>An option sorts by its value with \<open>None\<close> last.\<close>

definition none_last :: "int option \<Rightarrow> bool \<times> int" where
  "none_last x = (case x of None \<Rightarrow> (True, 0) | Some v \<Rightarrow> (False, v))"

type_synonym graph_key = "int \<times> int"
type_synonym age_key = "(bool \<times> int) \<times> string"
type_synonym dispatch_key = "(bool \<times> int) \<times> graph_key \<times> (bool \<times> int) \<times> age_key"

definition graph_key :: "graph_metrics \<Rightarrow> issue \<Rightarrow> graph_key" where
  "graph_key m i = (- dependents_of m i, - chain_of m i)"

definition age_key :: "issue \<Rightarrow> age_key" where
  "age_key i = (none_last (is_CreatedAt i), is_Identifier i)"

text \<open>
  The key of a mode. The unused position of each mode is filled with a constant, so the three
  modes share one key type.
\<close>

definition dispatch_key :: "string \<Rightarrow> graph_metrics \<Rightarrow> issue \<Rightarrow> dispatch_key" where
  "dispatch_key mode m i =
     (if mode = ''simple'' then (none_last (is_Priority i), (0, 0), (False, 0), age_key i)
      else if mode = ''critical_path_strict''
      then ((False, 0), graph_key m i, none_last (is_Priority i), age_key i)
      else (none_last (is_Priority i), graph_key m i, (False, 0), age_key i))"

section \<open>Lemmas\<close>

lemma compare_neg_iff [simp]: "compare a b < 0 \<longleftrightarrow> a < b"
  by (simp add: compare_def)

lemma compare_zero_iff [simp]: "compare a b = 0 \<longleftrightarrow> a = b"
  by (auto simp: compare_def)

lemma none_last_eq [simp]: "none_last x = none_last y \<longleftrightarrow> x = y"
  by (auto simp: none_last_def split: option.splits)

lemma cmpPriority_key:
  "cmpPriority a b < 0 \<longleftrightarrow> none_last (is_Priority a) < none_last (is_Priority b)"
  "cmpPriority a b = 0 \<longleftrightarrow> none_last (is_Priority a) = none_last (is_Priority b)"
  by (auto simp: cmpPriority_def none_last_def split: option.splits)

lemma cmpCreatedAt_key:
  "cmpCreatedAt a b < 0 \<longleftrightarrow> none_last (is_CreatedAt a) < none_last (is_CreatedAt b)"
  "cmpCreatedAt a b = 0 \<longleftrightarrow> none_last (is_CreatedAt a) = none_last (is_CreatedAt b)"
  by (auto simp: cmpCreatedAt_def none_last_def split: option.splits)

lemma cmpGraph_key:
  "cmpGraph a b m < 0 \<longleftrightarrow> graph_key m a < graph_key m b"
  "cmpGraph a b m = 0 \<longleftrightarrow> graph_key m a = graph_key m b"
  by (auto simp: cmpGraph_def graph_key_def)

lemma dispatch_less_key:
  "dispatch_less a b \<longleftrightarrow> dispatch_key ''simple'' m a < dispatch_key ''simple'' m b"
  by (auto simp: dispatch_less_def dispatch_key_def age_key_def none_last_def Let_def split: option.splits)

lemma cond_neg: "((if c \<noteq> 0 then c else d) < (0 :: int)) \<longleftrightarrow> c < 0 \<or> (c = 0 \<and> d < 0)"
  by auto

lemma lex_less: "(a, b) < (c, d) \<longleftrightarrow> a < c \<or> (a = c \<and> b < d)"
  for a c :: "'a::linorder" and b d :: "'b::linorder"
  by auto

text \<open>Sorting by a key is sorting by a strict weak order.\<close>

interpretation by_key: strict_weak_order "\<lambda>a b. dispatch_key mode m a < dispatch_key mode m b" for mode m
  by unfold_locales (auto intro: less_trans)

lemma sorted_candidates_key:
  "sorted_candidates mode issues m =
    stable_sort (\<lambda>a b. dispatch_key mode m a < dispatch_key mode m b) issues"
proof -
  consider "mode = ''simple''" | "mode = ''critical_path_strict''"
    | "mode \<noteq> ''simple''" "mode \<noteq> ''critical_path_strict''" by blast
  then show ?thesis
  proof cases
    case 1
    then show ?thesis
      by (simp add: sorted_candidates_def SortForDispatch_def flip: dispatch_less_key)
  next
    case 2
    then show ?thesis
      unfolding sorted_candidates_def SortForDispatchCriticalPathStrict_def sortForDispatchBy_def Let_def cond_neg
      by (simp add: cmpGraph_key cmpPriority_key cmpCreatedAt_key dispatch_key_def age_key_def lex_less
          del: less_prod_simp none_last_eq)
  next
    case 3
    then show ?thesis
      unfolding sorted_candidates_def SortForDispatchCriticalPath_def sortForDispatchBy_def Let_def cond_neg
      by (simp add: cmpGraph_key cmpPriority_key cmpCreatedAt_key dispatch_key_def age_key_def lex_less
          del: less_prod_simp none_last_eq)
  qed
qed

lemma sorted_candidates_sorted:
  "sorted_wrt (\<lambda>a b. dispatch_key mode m a \<le> dispatch_key mode m b) (sorted_candidates mode issues m)"
  using by_key.sorted_stable_sort [of mode m issues]
  by (simp add: sorted_candidates_key not_less)

lemma sorted_candidates_mset: "mset (sorted_candidates mode issues m) = mset issues"
  by (simp add: sorted_candidates_key)

lemma sorted_candidates_stable:
  "filter (\<lambda>i. dispatch_key mode m i = k) (sorted_candidates mode issues m) =
    filter (\<lambda>i. dispatch_key mode m i = k) issues"
proof (cases "\<exists>a \<in> set issues. dispatch_key mode m a = k")
  case True
  then obtain a where "dispatch_key mode m a = k" by blast
  then have "(\<lambda>i. dispatch_key mode m i = k) =
      (\<lambda>i. \<not> dispatch_key mode m a < dispatch_key mode m i \<and>
        \<not> dispatch_key mode m i < dispatch_key mode m a)"
    by (auto simp: fun_eq_iff not_less)
  then show ?thesis
    using by_key.stable_stable_sort [of mode m a issues]
    by (simp add: sorted_candidates_key)
next
  case False
  moreover have "set (sorted_candidates mode issues m) = set issues"
    by (metis sorted_candidates_mset set_mset_mset)
  ultimately show ?thesis by (metis (mono_tags, lifting) filter_False)
qed

section \<open>Properties\<close>

text \<open>
  C8. Dispatch order, in every mode: the candidates are a permutation of the fetched issues,
  sorted by the mode's key (priority with unset last, then leverage of the dependency graph,
  then age with unset last, then identifier; the strict mode puts leverage first), and issues
  with equal keys keep the order in which they were fetched. No other list has these properties.
\<close>

theorem dispatch_order_correct:
  "ys = sorted_candidates mode issues m \<longleftrightarrow>
    mset ys = mset issues \<and>
    sorted_wrt (\<lambda>a b. dispatch_key mode m a \<le> dispatch_key mode m b) ys \<and>
    (\<forall>k. filter (\<lambda>i. dispatch_key mode m i = k) ys = filter (\<lambda>i. dispatch_key mode m i = k) issues)"
  (is "?L \<longleftrightarrow> ?R")
proof
  assume ?L
  then show ?R by (simp add: sorted_candidates_mset sorted_candidates_sorted sorted_candidates_stable)
next
  assume R: ?R
  have "(\<lambda>i. \<not> dispatch_key mode m a < dispatch_key mode m i \<and>
      \<not> dispatch_key mode m i < dispatch_key mode m a) =
    (\<lambda>i. dispatch_key mode m i = dispatch_key mode m a)" for a
    by (auto simp: fun_eq_iff not_less)
  then show ?L
    unfolding sorted_candidates_key
    using by_key.stable_sort_unique [of ys issues mode m] R by (simp add: not_less)
qed

text \<open>
  Graph awareness only refines: when the metrics say nothing about the candidates, both
  graph-aware modes give exactly the order of the simple mode; and in the default mode the
  priority field is authoritative whatever the metrics say, while in the strict mode the number
  of transitive dependents is.
\<close>

theorem graph_modes_degrade_and_respect_priority:
  assumes "\<forall>i \<in> set issues. dependents_of m i = 0 \<and> chain_of m i = 0"
  shows "SortForDispatchCriticalPath issues m = SortForDispatch issues \<and>
    SortForDispatchCriticalPathStrict issues m = SortForDispatch issues \<and>
    sorted_wrt (\<lambda>a b. none_last (is_Priority a) \<le> none_last (is_Priority b)) (SortForDispatchCriticalPath issues m') \<and>
    sorted_wrt (\<lambda>a b. dependents_of m' b \<le> dependents_of m' a) (SortForDispatchCriticalPathStrict issues m')"
proof -
  have same: "sorted_candidates mode issues m = sorted_candidates ''simple'' issues m" for mode
    unfolding sorted_candidates_key
    by (rule stable_sort_cong) (use assms in \<open>auto simp: dispatch_key_def graph_key_def\<close>)
  have "sorted_wrt (\<lambda>a b. none_last (is_Priority a) \<le> none_last (is_Priority b))
      (sorted_candidates ''critical_path'' issues m')"
    by (rule sorted_wrt_mono_rel [OF _ sorted_candidates_sorted])
      (auto simp: dispatch_key_def)
  moreover have "sorted_wrt (\<lambda>a b. dependents_of m' b \<le> dependents_of m' a)
      (sorted_candidates ''critical_path_strict'' issues m')"
    by (rule sorted_wrt_mono_rel [OF _ sorted_candidates_sorted])
      (auto simp: dispatch_key_def graph_key_def)
  ultimately show ?thesis
    using same [of "''critical_path''"] same [of "''critical_path_strict''"]
    by (simp add: sorted_candidates_def)
qed

definition ex_metrics :: graph_metrics where
  "ex_metrics = \<lparr>gm_TransitiveDependents = [(''ENG-9'', 3)], gm_LongestChain = [], gm_CycleMembers = []\<rparr>"

theorem graph_modes_degrade_witness:
  "SortForDispatchCriticalPath [ex_issue ''ENG-2'', ex_issue ''ENG-1''] ex_metrics =
    [ex_issue ''ENG-1'', ex_issue ''ENG-2'']"
proof -
  have "\<forall>i \<in> set [ex_issue ''ENG-2'', ex_issue ''ENG-1'']. dependents_of ex_metrics i = 0 \<and> chain_of ex_metrics i = 0"
    by code_simp
  from graph_modes_degrade_and_respect_priority [OF this, of ex_metrics] show ?thesis
    by (simp add: SortForDispatch_def dispatch_less_def ex_issue_def Let_def)
qed

end
