(* ===== verification/Janitor.thy ===== *)
theory Janitor
  imports Admission
begin

text \<open>
  The janitors of \<open>internal/orchestrator/janitor.go\<close>, \<open>failure_ack.go\<close> and the tail of
  \<open>onTick\<close>: pruning of the status history and of the dependency rows, the sweep of the runtime ledgers
  for terminal and for absent issues, the review ledgers, the log buffers and the discard markers.
  A \<open>range\<close> loop that deletes is \<open>mkeep\<close>; the counts the code logs are returned.
  \<open>clock\<close> is \<open>time.Now()\<close>. The cost baselines (\<open>pruneSessionCost\<close>) are not part of the modelled state.
\<close>

section \<open>Status history and dependency rows\<close>

definition issueStatusHistoryRetention :: duration where
  "issueStatusHistoryRetention = 7 * 24 * hour"

definition mostRecentChangeAt :: "issue_status_change list \<Rightarrow> time" where
  "mostRecentChangeAt history = foldl (\<lambda>latest c. if latest < sc_At c then sc_At c else latest) 0 history"

definition history_expired ::
  "string goset \<Rightarrow> time \<Rightarrow> duration \<Rightarrow> string \<Rightarrow> issue_status_change list \<Rightarrow> bool" where
  "history_expired candidates now retention ident history =
     (\<not> mhas candidates ident \<and>
      \<not> (\<not> isZero (mostRecentChangeAt history) \<and> time_sub now (mostRecentChangeAt history) < retention))"

definition pruneIssueStatusHistory ::
  "state \<Rightarrow> string goset \<Rightarrow> time \<Rightarrow> duration \<Rightarrow> state \<times> nat \<times> nat" where
  "pruneIssueStatusHistory s candidates now retention =
     (let retention = (if retention \<le> 0 then issueStatusHistoryRetention else retention);
          history = mkeep (\<lambda>ident h. \<not> history_expired candidates now retention ident h) (s_IssueStatusHistory s);
          lockstep = mkeep (\<lambda>ident _. case mget (s_IssueStatusHistory s) ident of
              None \<Rightarrow> True | Some h \<Rightarrow> \<not> history_expired candidates now retention ident h) (s_PrevIssueStates s);
          prev = mkeep (\<lambda>ident _. mhas candidates ident \<or> mhas history ident) lockstep
      in (s\<lparr>s_IssueStatusHistory := history, s_PrevIssueStates := prev\<rparr>,
          length (s_IssueStatusHistory s) - length history, length (s_PrevIssueStates s) - length prev))"

definition automationQueueIdentifiers :: "state \<Rightarrow> string list" where
  "automationQueueIdentifiers s =
     concat (map (\<lambda>(_, e). (if is_Identifier (aq_Issue e) \<noteq> [] then [is_Identifier (aq_Issue e)] else []) @
       (if is_ID (aq_Issue e) \<noteq> [] then [is_ID (aq_Issue e)] else [])) (s_AutomationQueue s))"

definition keep_audit_row :: "state \<Rightarrow> dependency_audit_entry \<Rightarrow> bool" where
  "keep_audit_row s e =
     (\<not> isTerminalState (da_IssueState e) s \<or>
      da_Identifier e \<in> set (automationQueueIdentifiers s) \<or>
      (da_IssueID e \<noteq> [] \<and> da_IssueID e \<in> set (automationQueueIdentifiers s)) \<or>
      mhas (s_Running s) (da_Identifier e))"

definition pruneTerminalDependencyAudit :: "state \<Rightarrow> state \<times> nat" where
  "pruneTerminalDependencyAudit s =
     (let rows = mkeep (\<lambda>_ e. keep_audit_row s e) (s_DependencyAudit s)
      in (s\<lparr>s_DependencyAudit := rows\<rparr>, length (s_DependencyAudit s) - length rows))"

section \<open>Ledgers\<close>

record LedgerJanitorCounts =
  lj_InputRequired :: nat
  lj_Retry :: nat
  lj_Queue :: nat
  lj_Paused :: nat
  lj_Profile :: nat
  lj_Backend :: nat

definition zero_counts :: LedgerJanitorCounts where
  "zero_counts = \<lparr>lj_InputRequired = 0, lj_Retry = 0, lj_Queue = 0, lj_Paused = 0, lj_Profile = 0, lj_Backend = 0\<rparr>"

definition pruneMap ::
  "(string, 'v) gomap \<Rightarrow> (string \<Rightarrow> 'v \<Rightarrow> string) \<Rightarrow> (string \<Rightarrow> bool) \<Rightarrow> (string, 'v) gomap \<times> nat" where
  "pruneMap m identOf keep =
     (let kept = mkeep (\<lambda>k v. keep (identOf k v)) m in (kept, length m - length kept))"

definition identOfKey :: "string \<Rightarrow> 'v \<Rightarrow> string" where
  "identOfKey k v = k"

definition identOfRetry :: "string \<Rightarrow> retry_entry \<Rightarrow> string" where
  "identOfRetry issueID e = (if rt_Identifier e \<noteq> [] then rt_Identifier e else issueID)"

definition identOfPROpened :: "string \<Rightarrow> unit \<Rightarrow> string" where
  "identOfPROpened key u =
     (case cut_char CHR ''|'' key of (before, _, found) \<Rightarrow> if found \<and> before \<noteq> [] then before else key)"

definition unpause :: "state \<Rightarrow> string \<Rightarrow> string \<Rightarrow> state" where
  "unpause s ident issueID =
     (let s1 = clearPauseReason (s\<lparr>s_PausedIdentifiers := mdel (s_PausedIdentifiers s) ident\<rparr>) ident
      in s1\<lparr>s_PausedSessions := mdel (mdel (s_PausedSessions s1) ident) issueID\<rparr>)"

definition pausedCleanup :: "state \<Rightarrow> (string \<Rightarrow> bool) \<Rightarrow> state \<times> nat" where
  "pausedCleanup s keep =
     (let gone = filter (\<lambda>(ident, _). \<not> keep ident) (s_PausedIdentifiers s)
      in (foldl (\<lambda>s (ident, issueID). unpause s ident issueID) s gone, length gone))"

definition keep_entry :: "(string \<Rightarrow> bool) \<Rightarrow> automation_queue_entry \<Rightarrow> bool" where
  "keep_entry keep e = keep (is_Identifier (aq_Issue e))"

definition pruneAutomationQueue :: "state \<Rightarrow> (string \<Rightarrow> bool) \<Rightarrow> state \<times> nat" where
  "pruneAutomationQueue s keep =
     (if s_AutomationQueue s = [] then (s, 0)
      else let queue = mkeep (\<lambda>_ e. keep_entry keep e) (s_AutomationQueue s);
               newOrder = filter (\<lambda>key. case mget (s_AutomationQueue s) key of
                   None \<Rightarrow> False | Some e \<Rightarrow> keep_entry keep e) (s_AutomationQueueOrder s)
           in (refreshAutomationQueueBackpressure
                 (s\<lparr>s_AutomationQueue := queue, s_AutomationQueueOrder := newOrder\<rparr>),
               length (s_AutomationQueue s) - length queue))"

definition JanitorReasonIssueTerminal :: string where
  "JanitorReasonIssueTerminal = ''issue_terminal''"

definition JanitorReasonAbsentFromTracker :: string where
  "JanitorReasonAbsentFromTracker = ''absent_from_tracker''"

definition janitor_change :: "state \<Rightarrow> string \<Rightarrow> string \<Rightarrow> time \<Rightarrow> issue_status_change" where
  "janitor_change s ident reason now =
     \<lparr>sc_Identifier = ident, sc_FromState = [], sc_ToState = mget_or (s_PrevIssueStates s) ident [],
      sc_Source = StatusSourceJanitor, sc_AutomationID = [], sc_TriggerType = [], sc_ProfileName = [],
      sc_Backend = [], sc_WorkerHost = [], sc_Reason = reason, sc_At = now\<rparr>"

definition record_janitor :: "string \<Rightarrow> time \<Rightarrow> state \<Rightarrow> string \<Rightarrow> state" where
  "record_janitor reason clock s ident = appendIssueStatusChange clock s (janitor_change s ident reason clock)"

definition buildTerminalIdentifierSet :: "state \<Rightarrow> string list" where
  "buildTerminalIdentifierSet s =
     map fst (filter (\<lambda>(_, lastState). lastState \<noteq> [] \<and> isTerminalState lastState s) (s_PrevIssueStates s))"

definition pruneTerminalRuntimeLedgers :: "time \<Rightarrow> state \<Rightarrow> string list \<Rightarrow> state \<times> LedgerJanitorCounts" where
  "pruneTerminalRuntimeLedgers clock s terminalIdentifiers =
     (if terminalIdentifiers = [] then (s, zero_counts)
      else let keep = (\<lambda>ident. ident \<notin> set terminalIdentifiers);
               (opened, _) = pruneMap (s_PROpenedDispatched s) identOfPROpened keep;
               (merged, _) = pruneMap (s_PRMergedDispatched s) identOfPROpened keep;
               (holds, _) = pruneMap (s_BackendLimitedHolds s) identOfKey keep;
               (inputs, nInput) = pruneMap (s_InputRequiredIssues s) identOfKey keep;
               (retries, nRetry) = pruneMap (s_RetryAttempts s) identOfRetry keep;
               (s2, nQueue) = pruneAutomationQueue
                 (s\<lparr>s_PROpenedDispatched := opened, s_PRMergedDispatched := merged, s_BackendLimitedHolds := holds,
                    s_InputRequiredIssues := inputs, s_RetryAttempts := retries\<rparr>) keep;
               (s3, nPaused) = pausedCleanup s2 keep
           in (if 0 < nInput + nRetry + nQueue + nPaused
               then foldl (record_janitor JanitorReasonIssueTerminal clock) s3 terminalIdentifiers else s3,
               zero_counts\<lparr>lj_InputRequired := nInput, lj_Retry := nRetry, lj_Queue := nQueue, lj_Paused := nPaused\<rparr>))"

definition dependencyAuditIdentifiers :: "state \<Rightarrow> string list" where
  "dependencyAuditIdentifiers s =
     filter (\<lambda>ident. ident \<noteq> []) (map (\<lambda>(_, e). da_Identifier e) (s_DependencyAudit s))"

definition buildPresentPredicate :: "state \<Rightarrow> string goset \<Rightarrow> string goset \<Rightarrow> string \<Rightarrow> bool" where
  "buildPresentPredicate s currentActive prevActive ident =
     (mhas currentActive ident \<or> mhas prevActive ident \<or> mhas (s_Running s) ident \<or>
      ident \<in> set (dependencyAuditIdentifiers s))"

text \<open>The identifiers for which the recording predicate answered no while the six ledgers were swept.\<close>

definition absent_identifiers :: "state \<Rightarrow> (string \<Rightarrow> bool) \<Rightarrow> string list" where
  "absent_identifiers s keep =
     filter (\<lambda>ident. \<not> keep ident)
       (remdups (mkeys (s_InputRequiredIssues s) @
         map (\<lambda>(k, e). identOfRetry k e) (s_RetryAttempts s) @
         map (\<lambda>(_, e). is_Identifier (aq_Issue e)) (s_AutomationQueue s) @
         mkeys (s_PausedIdentifiers s) @ mkeys (s_IssueProfiles s) @ mkeys (s_IssueBackends s)))"

definition pruneAbsentTrackerIssues ::
  "time \<Rightarrow> state \<Rightarrow> string goset \<Rightarrow> string goset \<Rightarrow> state \<times> LedgerJanitorCounts" where
  "pruneAbsentTrackerIssues clock s currentActive prevActive =
     (if prevActive = [] then (s, zero_counts)
      else let keep = buildPresentPredicate s currentActive prevActive;
               removedIdents = absent_identifiers s keep;
               (inputs, nInput) = pruneMap (s_InputRequiredIssues s) identOfKey keep;
               (retries, nRetry) = pruneMap (s_RetryAttempts s) identOfRetry keep;
               (s2, nQueue) = pruneAutomationQueue
                 (s\<lparr>s_InputRequiredIssues := inputs, s_RetryAttempts := retries\<rparr>) keep;
               (s3, nPaused) = pausedCleanup s2 keep;
               (profiles, nProfile) = pruneMap (s_IssueProfiles s) identOfKey keep;
               (backends, nBackend) = pruneMap (s_IssueBackends s) identOfKey keep;
               s4 = s3\<lparr>s_IssueProfiles := profiles, s_IssueBackends := backends,
                 s_AutoSwitchedIdentifiers := fst (pruneMap (s_AutoSwitchedIdentifiers s) identOfKey keep),
                 s_AutoSwitchedAt := fst (pruneMap (s_AutoSwitchedAt s) identOfKey keep),
                 s_AutoSwitchInfo := fst (pruneMap (s_AutoSwitchInfo s) identOfKey keep),
                 s_BackendLimitedHolds := fst (pruneMap (s_BackendLimitedHolds s) identOfKey keep)\<rparr>
           in (foldl (record_janitor JanitorReasonAbsentFromTracker clock) s4 removedIdents,
               \<lparr>lj_InputRequired = nInput, lj_Retry = nRetry, lj_Queue = nQueue, lj_Paused = nPaused,
                lj_Profile = nProfile, lj_Backend = nBackend\<rparr>))"

section \<open>Reviews, logs, discards and acknowledgements\<close>

definition untrackedIdentifierPredicate :: "string list \<Rightarrow> string goset \<Rightarrow> string goset \<Rightarrow> string \<Rightarrow> bool" where
  "untrackedIdentifierPredicate terminal currentActive prevActive ident =
     (if ident \<in> set terminal then True
      else if prevActive = [] then False
      else \<not> mhas currentActive ident \<and> \<not> mhas prevActive ident)"

definition running_identifiers :: "state \<Rightarrow> string list" where
  "running_identifiers s = map (\<lambda>(_, r). is_Identifier (ru_Issue r)) (s_Running s) @ map (\<lambda>(_, e). rt_Identifier e) (s_RetryAttempts s)"

definition reviewMidChainPredicate :: "daemon \<Rightarrow> string \<Rightarrow> bool" where
  "reviewMidChainPredicate d ident =
     (ident \<in> set (running_identifiers (snd d)) \<or> mhas (o_reviewerInjectedProfiles (fst d)) ident)"

definition pruneReviewLedgers :: "state \<Rightarrow> (string \<Rightarrow> bool) \<Rightarrow> (string \<Rightarrow> bool) \<Rightarrow> state \<times> nat" where
  "pruneReviewLedgers s untracked midChain =
     (let keep = (\<lambda>ident. \<not> untracked ident \<or> midChain ident);
          (verdicts, n1) = pruneMap (s_ReviewVerdicts s) identOfKey keep;
          (outcomes, n2) = pruneMap (s_ReviewOutcomes s) identOfKey keep;
          (chain, n3) = pruneMap (s_ReviewChainIndex s) identOfKey keep
      in (s\<lparr>s_ReviewVerdicts := verdicts, s_ReviewOutcomes := outcomes, s_ReviewChainIndex := chain\<rparr>, n1 + n2 + n3))"

text \<open>The resident log buffers that are freed.\<close>

definition evictIdleLogBuffers :: "state \<Rightarrow> (string \<Rightarrow> bool) \<Rightarrow> string list \<Rightarrow> string list" where
  "evictIdleLogBuffers s untracked resident =
     filter (\<lambda>ident. untracked ident \<and> ident \<notin> set (running_identifiers s) \<and>
       \<not> mhas (s_PausedIdentifiers s) ident \<and> \<not> mhas (s_InputRequiredIssues s) ident \<and>
       \<not> mhas (s_PendingInputResumes s) ident) resident"

definition postRunTimeout :: duration where
  "postRunTimeout = 60 * second"

definition discardMarkerTTL :: duration where
  "discardMarkerTTL = postRunTimeout + 30 * second + 30 * second"

definition markDiscarding :: "state \<Rightarrow> string \<Rightarrow> time \<Rightarrow> state \<times> nat" where
  "markDiscarding s ident now =
     (let gen = (s_DiscardGeneration s + 1) mod 2 ^ 64
      in (s\<lparr>s_DiscardGeneration := gen,
            s_DiscardingIdentifiers := mput (s_DiscardingIdentifiers s) ident \<lparr>dm_Gen = gen, dm_At = now\<rparr>\<rparr>, gen))"

definition expireDiscardMarkers :: "state \<Rightarrow> time \<Rightarrow> state \<times> nat" where
  "expireDiscardMarkers s now =
     (let kept = mkeep (\<lambda>_ m. isZero (dm_At m) \<or> time_sub now (dm_At m) \<le> discardMarkerTTL) (s_DiscardingIdentifiers s)
      in (s\<lparr>s_DiscardingIdentifiers := kept\<rparr>, length (s_DiscardingIdentifiers s) - length kept))"

definition isAckableFailure :: "failure_record \<Rightarrow> bool" where
  "isAckableFailure f = (fr_Identifier f \<noteq> [] \<and> (fr_Kind f = ''worker_failed'' \<or> fr_Kind f = ''worker_stalled''))"

definition pruneFailureAcks :: "state \<Rightarrow> state" where
  "pruneFailureAcks s =
     s\<lparr>s_FailureAcks := mkeep (\<lambda>ident _. ident \<in> fr_Identifier ` set (filter isAckableFailure (s_RecentFailures s)))
         (s_FailureAcks s)\<rparr>"

definition applyFailureAck :: "state \<Rightarrow> string \<Rightarrow> time \<Rightarrow> state" where
  "applyFailureAck s ident upTo =
     (if ident = [] \<or> isZero upTo then s
      else pruneFailureAcks (case mget (s_FailureAcks s) ident of
          Some prev \<Rightarrow> if prev < upTo then s\<lparr>s_FailureAcks := mput (s_FailureAcks s) ident upTo\<rparr> else s
        | None \<Rightarrow> s\<lparr>s_FailureAcks := mput (s_FailureAcks s) ident upTo\<rparr>))"

text \<open>The janitors in the order a tick runs them.\<close>

definition janitor_pass ::
  "time \<Rightarrow> time \<Rightarrow> orch \<Rightarrow> string goset \<Rightarrow> string goset \<Rightarrow> state \<Rightarrow> state" where
  "janitor_pass clock now orc currentActive prevActive s =
     (let (s1, _) = pruneIssueStatusHistory s currentActive now issueStatusHistoryRetention;
          (s2, _) = pruneTerminalDependencyAudit s1;
          terminalIdents = buildTerminalIdentifierSet s2;
          (s3, _) = pruneTerminalRuntimeLedgers clock s2 terminalIdents;
          (s4, _) = pruneAbsentTrackerIssues clock s3 currentActive prevActive;
          (s5, _) = expireDiscardMarkers s4 now;
          s6 = pruneFailureAcks s5
      in fst (pruneReviewLedgers s6 (untrackedIdentifierPredicate terminalIdents currentActive prevActive)
           (reviewMidChainPredicate (orc, s6))))"

section \<open>Lemmas\<close>

text \<open>The part of the state that a status change leaves alone.\<close>

definition ledgers :: "state \<Rightarrow> state" where
  "ledgers s = s\<lparr>s_PrevIssueStates := [], s_IssueStatusHistory := []\<rparr>"

lemma ledgersD:
  assumes "ledgers t = ledgers s"
  shows "s_Running t = s_Running s" "s_Claimed t = s_Claimed s" "s_RetryAttempts t = s_RetryAttempts s"
    "s_InputRequiredIssues t = s_InputRequiredIssues s" "s_PausedIdentifiers t = s_PausedIdentifiers s"
    "s_IssueProfiles t = s_IssueProfiles s" "s_IssueBackends t = s_IssueBackends s"
    "s_AutomationQueue t = s_AutomationQueue s" "s_AutomationQueueOrder t = s_AutomationQueueOrder s"
    "s_DependencyAudit t = s_DependencyAudit s"
proof -
  have field: "f t = f s" if "\<And>x. f (ledgers x) = f x" for f :: "state \<Rightarrow> 'z" using that assms by metis
  show "s_Running t = s_Running s" by (rule field) (simp add: ledgers_def)
  show "s_Claimed t = s_Claimed s" by (rule field) (simp add: ledgers_def)
  show "s_RetryAttempts t = s_RetryAttempts s" by (rule field) (simp add: ledgers_def)
  show "s_InputRequiredIssues t = s_InputRequiredIssues s" by (rule field) (simp add: ledgers_def)
  show "s_PausedIdentifiers t = s_PausedIdentifiers s" by (rule field) (simp add: ledgers_def)
  show "s_IssueProfiles t = s_IssueProfiles s" by (rule field) (simp add: ledgers_def)
  show "s_IssueBackends t = s_IssueBackends s" by (rule field) (simp add: ledgers_def)
  show "s_AutomationQueue t = s_AutomationQueue s" by (rule field) (simp add: ledgers_def)
  show "s_AutomationQueueOrder t = s_AutomationQueueOrder s" by (rule field) (simp add: ledgers_def)
  show "s_DependencyAudit t = s_DependencyAudit s" by (rule field) (simp add: ledgers_def)
qed

lemma ledgers_append: "ledgers (appendIssueStatusChange clock s c) = ledgers s"
  by (simp add: ledgers_def appendIssueStatusChange_def Let_def)

lemma ledgers_record: "ledgers (foldl (record_janitor reason clock) s is) = ledgers s"
  by (induction "is" arbitrary: s) (simp_all add: record_janitor_def ledgers_append)

lemma foldl_unpause:
  "ledgers ((foldl (\<lambda>s (i, k). unpause s i k) s gone)\<lparr>s_PausedIdentifiers := [], s_PauseReasons := [], s_PausedSessions := []\<rparr>)
     = ledgers (s\<lparr>s_PausedIdentifiers := [], s_PauseReasons := [], s_PausedSessions := []\<rparr>)"
  "mget (s_PausedIdentifiers (foldl (\<lambda>s (i, k). unpause s i k) s gone)) j =
     (if j \<in> fst ` set gone then None else mget (s_PausedIdentifiers s) j)"
  by (induction gone arbitrary: s) (auto simp: unpause_def clearPauseReason_def Let_def ledgers_def)

lemma paused_fields:
  "s_Running (fst (pausedCleanup s keep)) = s_Running s" "s_Claimed (fst (pausedCleanup s keep)) = s_Claimed s"
  "s_RetryAttempts (fst (pausedCleanup s keep)) = s_RetryAttempts s"
  "s_InputRequiredIssues (fst (pausedCleanup s keep)) = s_InputRequiredIssues s"
  "s_IssueProfiles (fst (pausedCleanup s keep)) = s_IssueProfiles s"
  "s_IssueBackends (fst (pausedCleanup s keep)) = s_IssueBackends s"
  "s_AutomationQueue (fst (pausedCleanup s keep)) = s_AutomationQueue s"
  "s_AutomationQueueOrder (fst (pausedCleanup s keep)) = s_AutomationQueueOrder s"
  "s_DependencyAudit (fst (pausedCleanup s keep)) = s_DependencyAudit s"
  using ledgersD [OF foldl_unpause(1)] by (simp_all add: pausedCleanup_def Let_def)

lemma paused_get:
  "mget (s_PausedIdentifiers (fst (pausedCleanup s keep))) j = (if keep j then mget (s_PausedIdentifiers s) j else None)"
proof -
  have "j \<in> fst ` set (filter (\<lambda>(i, k). \<not> keep i) (s_PausedIdentifiers s)) \<longleftrightarrow> \<not> keep j \<and> mhas (s_PausedIdentifiers s) j"
    by (auto simp: mhas_iff_keys mkeys_def image_iff split: prod.splits) force
  then show ?thesis by (auto simp: pausedCleanup_def Let_def foldl_unpause(2) mhas_def)
qed

lemma queue_fields:
  "s_Running (fst (pruneAutomationQueue s keep)) = s_Running s" "s_Claimed (fst (pruneAutomationQueue s keep)) = s_Claimed s"
  "s_RetryAttempts (fst (pruneAutomationQueue s keep)) = s_RetryAttempts s"
  "s_InputRequiredIssues (fst (pruneAutomationQueue s keep)) = s_InputRequiredIssues s"
  "s_PausedIdentifiers (fst (pruneAutomationQueue s keep)) = s_PausedIdentifiers s"
  "s_IssueProfiles (fst (pruneAutomationQueue s keep)) = s_IssueProfiles s"
  "s_IssueBackends (fst (pruneAutomationQueue s keep)) = s_IssueBackends s"
  "s_DependencyAudit (fst (pruneAutomationQueue s keep)) = s_DependencyAudit s"
  by (simp_all add: pruneAutomationQueue_def Let_def refreshAutomationQueueBackpressure_def)

lemma queue_kept:
  assumes "queue_ok s"
  shows "s_AutomationQueueOrder (fst (pruneAutomationQueue s keep)) =
      filter (\<lambda>k. \<exists>e. mget (s_AutomationQueue s) k = Some e \<and> keep (is_Identifier (aq_Issue e))) (s_AutomationQueueOrder s)"
    and "queue_ok (fst (pruneAutomationQueue s keep))"
proof -
  let ?Q = "s_AutomationQueue s" and ?t = "fst (pruneAutomationQueue s keep)"
  have wf: "mwf ?Q" using assms by (simp add: queue_ok_def)
  have q: "s_AutomationQueue ?t = mkeep (\<lambda>_ e. keep_entry keep e) ?Q"
    by (simp add: pruneAutomationQueue_def refreshAutomationQueueBackpressure_def Let_def mkeep_def)
  show order: "s_AutomationQueueOrder ?t =
      filter (\<lambda>k. \<exists>e. mget ?Q k = Some e \<and> keep (is_Identifier (aq_Issue e))) (s_AutomationQueueOrder s)"
  proof (cases "?Q = []")
    case True
    then have "s_AutomationQueueOrder s = []" using assms by (simp add: queue_ok_def mkeys_def)
    then show ?thesis using True by (simp add: pruneAutomationQueue_def)
  next
    case False
    then show ?thesis
      by (auto simp: pruneAutomationQueue_def refreshAutomationQueueBackpressure_def Let_def keep_entry_def
          intro!: filter_cong split: option.split)
  qed
  show "queue_ok ?t"
    unfolding queue_ok_def q order using assms wf
    by (auto simp: queue_ok_def mget_mkeep mhas_iff_keys [symmetric] mhas_def keep_entry_def split: option.splits if_splits)
qed

lemma terminal_fields:
  fixes s clock T
  defines "t \<equiv> fst (pruneTerminalRuntimeLedgers clock s T)"
  shows "s_Running t = s_Running s" "s_Claimed t = s_Claimed s" "s_DependencyAudit t = s_DependencyAudit s"
    "s_IssueProfiles t = s_IssueProfiles s" "s_IssueBackends t = s_IssueBackends s"
    "s_InputRequiredIssues t = mkeep (\<lambda>k _. k \<notin> set T) (s_InputRequiredIssues s)"
    "s_RetryAttempts t = mkeep (\<lambda>k e. identOfRetry k e \<notin> set T) (s_RetryAttempts s)"
    "mget (s_PausedIdentifiers t) j = (if j \<notin> set T then mget (s_PausedIdentifiers s) j else None)"
proof -
  have noop: "T = [] \<Longrightarrow> t = s" by (simp add: t_def pruneTerminalRuntimeLedgers_def)
  have swept: "ledgers t = ledgers (fst (pausedCleanup (fst (pruneAutomationQueue
      (s\<lparr>s_PROpenedDispatched := fst (pruneMap (s_PROpenedDispatched s) identOfPROpened (\<lambda>i. i \<notin> set T)),
         s_PRMergedDispatched := fst (pruneMap (s_PRMergedDispatched s) identOfPROpened (\<lambda>i. i \<notin> set T)),
         s_BackendLimitedHolds := fst (pruneMap (s_BackendLimitedHolds s) identOfKey (\<lambda>i. i \<notin> set T)),
         s_InputRequiredIssues := fst (pruneMap (s_InputRequiredIssues s) identOfKey (\<lambda>i. i \<notin> set T)),
         s_RetryAttempts := fst (pruneMap (s_RetryAttempts s) identOfRetry (\<lambda>i. i \<notin> set T))\<rparr>)
      (\<lambda>i. i \<notin> set T))) (\<lambda>i. i \<notin> set T)))" if "T \<noteq> []"
    using that by (simp add: t_def pruneTerminalRuntimeLedgers_def Let_def split_beta ledgers_record)
  note f = ledgersD [OF swept] and m = pruneMap_def Let_def identOfKey_def
  show "s_Running t = s_Running s" "s_Claimed t = s_Claimed s" "s_DependencyAudit t = s_DependencyAudit s"
    "s_IssueProfiles t = s_IssueProfiles s" "s_IssueBackends t = s_IssueBackends s"
    using noop f by (cases "T = []"; simp add: paused_fields queue_fields)+
  show "s_InputRequiredIssues t = mkeep (\<lambda>k _. k \<notin> set T) (s_InputRequiredIssues s)"
    "s_RetryAttempts t = mkeep (\<lambda>k e. identOfRetry k e \<notin> set T) (s_RetryAttempts s)"
    using noop f by (cases "T = []"; simp add: paused_fields queue_fields m; simp add: mkeep_def)+
  show "mget (s_PausedIdentifiers t) j = (if j \<notin> set T then mget (s_PausedIdentifiers s) j else None)"
    using noop f(5) by (cases "T = []") (simp_all add: paused_get queue_fields)
qed

lemma absent_fields:
  fixes s clock cur prev
  defines "t \<equiv> fst (pruneAbsentTrackerIssues clock s cur prev)"
    and "keep \<equiv> (\<lambda>i. prev = [] \<or> buildPresentPredicate s cur prev i)"
  shows "s_Running t = s_Running s" "s_Claimed t = s_Claimed s" "s_DependencyAudit t = s_DependencyAudit s"
    "s_IssueProfiles t = mkeep (\<lambda>k _. keep k) (s_IssueProfiles s)"
    "s_IssueBackends t = mkeep (\<lambda>k _. keep k) (s_IssueBackends s)"
    "s_InputRequiredIssues t = mkeep (\<lambda>k _. keep k) (s_InputRequiredIssues s)"
    "s_RetryAttempts t = mkeep (\<lambda>k e. keep (identOfRetry k e)) (s_RetryAttempts s)"
    "mget (s_PausedIdentifiers t) j = (if keep j then mget (s_PausedIdentifiers s) j else None)"
proof -
  let ?p = "buildPresentPredicate s cur prev"
  have noop: "prev = [] \<Longrightarrow> t = s" by (simp add: t_def pruneAbsentTrackerIssues_def)
  have swept: "ledgers t = ledgers ((fst (pausedCleanup (fst (pruneAutomationQueue
      (s\<lparr>s_InputRequiredIssues := fst (pruneMap (s_InputRequiredIssues s) identOfKey ?p),
         s_RetryAttempts := fst (pruneMap (s_RetryAttempts s) identOfRetry ?p)\<rparr>) ?p)) ?p))\<lparr>
         s_IssueProfiles := fst (pruneMap (s_IssueProfiles s) identOfKey ?p),
         s_IssueBackends := fst (pruneMap (s_IssueBackends s) identOfKey ?p),
         s_AutoSwitchedIdentifiers := fst (pruneMap (s_AutoSwitchedIdentifiers s) identOfKey ?p),
         s_AutoSwitchedAt := fst (pruneMap (s_AutoSwitchedAt s) identOfKey ?p),
         s_AutoSwitchInfo := fst (pruneMap (s_AutoSwitchInfo s) identOfKey ?p),
         s_BackendLimitedHolds := fst (pruneMap (s_BackendLimitedHolds s) identOfKey ?p)\<rparr>)" if "prev \<noteq> []"
    using that by (simp add: t_def pruneAbsentTrackerIssues_def Let_def split_beta ledgers_record)
  note f = ledgersD [OF swept] and m = pruneMap_def Let_def identOfKey_def
  show "s_Running t = s_Running s" "s_Claimed t = s_Claimed s" "s_DependencyAudit t = s_DependencyAudit s"
    using noop f by (cases "prev = []"; simp add: paused_fields queue_fields)+
  show "s_IssueProfiles t = mkeep (\<lambda>k _. keep k) (s_IssueProfiles s)"
    "s_IssueBackends t = mkeep (\<lambda>k _. keep k) (s_IssueBackends s)"
    "s_InputRequiredIssues t = mkeep (\<lambda>k _. keep k) (s_InputRequiredIssues s)"
    "s_RetryAttempts t = mkeep (\<lambda>k e. keep (identOfRetry k e)) (s_RetryAttempts s)"
    using noop f by (cases "prev = []"; simp add: paused_fields queue_fields m keep_def; simp add: mkeep_def)+
  show "mget (s_PausedIdentifiers t) j = (if keep j then mget (s_PausedIdentifiers s) j else None)"
    using noop f(5) by (cases "prev = []") (simp_all add: paused_get queue_fields keep_def)
qed

text \<open>The state after the history and the dependency rows are pruned, as the ledger sweeps find it.\<close>

definition rows_pruned :: "string goset \<Rightarrow> time \<Rightarrow> state \<Rightarrow> state" where
  "rows_pruned cur now s =
     fst (pruneTerminalDependencyAudit (fst (pruneIssueStatusHistory s cur now issueStatusHistoryRetention)))"

definition terminal_ident :: "string goset \<Rightarrow> time \<Rightarrow> state \<Rightarrow> string \<Rightarrow> bool" where
  "terminal_ident cur now s i \<longleftrightarrow> i \<in> set (buildTerminalIdentifierSet (rows_pruned cur now s))"

definition absent_ident :: "string goset \<Rightarrow> string goset \<Rightarrow> time \<Rightarrow> state \<Rightarrow> string \<Rightarrow> bool" where
  "absent_ident cur prev now s i \<longleftrightarrow> prev \<noteq> [] \<and> \<not> buildPresentPredicate (rows_pruned cur now s) cur prev i"

lemma rows_pruned_fields [simp]:
  "s_Running (rows_pruned cur now s) = s_Running s" "s_Claimed (rows_pruned cur now s) = s_Claimed s"
  "s_RetryAttempts (rows_pruned cur now s) = s_RetryAttempts s"
  "s_InputRequiredIssues (rows_pruned cur now s) = s_InputRequiredIssues s"
  "s_PausedIdentifiers (rows_pruned cur now s) = s_PausedIdentifiers s"
  "s_IssueProfiles (rows_pruned cur now s) = s_IssueProfiles s" "s_IssueBackends (rows_pruned cur now s) = s_IssueBackends s"
  by (simp_all add: rows_pruned_def pruneTerminalDependencyAudit_def pruneIssueStatusHistory_def Let_def)

lemma janitor_fields:
  fixes s clock now orc cur prev
  defines "t \<equiv> janitor_pass clock now orc cur prev s" and "T \<equiv> terminal_ident cur now s" and "A \<equiv> absent_ident cur prev now s"
  shows "s_Running t = s_Running s" "s_Claimed t = s_Claimed s"
    "s_InputRequiredIssues t = mkeep (\<lambda>i _. \<not> A i) (mkeep (\<lambda>i _. \<not> T i) (s_InputRequiredIssues s))"
    "s_RetryAttempts t = mkeep (\<lambda>k e. \<not> A (identOfRetry k e)) (mkeep (\<lambda>k e. \<not> T (identOfRetry k e)) (s_RetryAttempts s))"
    "s_IssueProfiles t = mkeep (\<lambda>i _. \<not> A i) (s_IssueProfiles s)"
    "s_IssueBackends t = mkeep (\<lambda>i _. \<not> A i) (s_IssueBackends s)"
    "mget (s_PausedIdentifiers t) j = (if T j \<or> A j then None else mget (s_PausedIdentifiers s) j)"
proof -
  let ?r = "rows_pruned cur now s"
  let ?u = "fst (pruneTerminalRuntimeLedgers clock ?r (buildTerminalIdentifierSet ?r))"
  let ?v = "fst (pruneAbsentTrackerIssues clock ?u cur prev)"
  note u = terminal_fields [of clock ?r "buildTerminalIdentifierSet ?r"]
  note v = absent_fields [of clock ?u cur prev]
  have A: "(prev = [] \<or> buildPresentPredicate ?u cur prev i) \<longleftrightarrow> \<not> A i" for i
    using u(1,3) by (simp add: A_def absent_ident_def buildPresentPredicate_def dependencyAuditIdentifiers_def)
  have T: "i \<in> set (buildTerminalIdentifierSet ?r) \<longleftrightarrow> T i" for i by (simp add: T_def terminal_ident_def)
  have t: "s_Running t = s_Running ?v" "s_Claimed t = s_Claimed ?v" "s_InputRequiredIssues t = s_InputRequiredIssues ?v"
    "s_RetryAttempts t = s_RetryAttempts ?v" "s_IssueProfiles t = s_IssueProfiles ?v" "s_IssueBackends t = s_IssueBackends ?v"
    "s_PausedIdentifiers t = s_PausedIdentifiers ?v"
    by (simp_all add: t_def janitor_pass_def rows_pruned_def Let_def split_beta pruneReviewLedgers_def pruneFailureAcks_def
        expireDiscardMarkers_def)
  show "s_Running t = s_Running s" "s_Claimed t = s_Claimed s" by (simp_all add: t u v)
  show "s_InputRequiredIssues t = mkeep (\<lambda>i _. \<not> A i) (mkeep (\<lambda>i _. \<not> T i) (s_InputRequiredIssues s))"
    "s_RetryAttempts t = mkeep (\<lambda>k e. \<not> A (identOfRetry k e)) (mkeep (\<lambda>k e. \<not> T (identOfRetry k e)) (s_RetryAttempts s))"
    "s_IssueProfiles t = mkeep (\<lambda>i _. \<not> A i) (s_IssueProfiles s)"
    "s_IssueBackends t = mkeep (\<lambda>i _. \<not> A i) (s_IssueBackends s)"
    "mget (s_PausedIdentifiers t) j = (if T j \<or> A j then None else mget (s_PausedIdentifiers s) j)"
    by (simp_all add: t u v A T)
qed

text \<open>The two history maps are pruned together, and an issue of this poll loses nothing.\<close>

lemma history_lockstep:
  assumes "mwf (s_IssueStatusHistory s)" and "mwf (s_PrevIssueStates s)"
    and "t = fst (pruneIssueStatusHistory s cur now retention)"
  shows "mhas (s_PrevIssueStates t) i \<Longrightarrow> mhas cur i \<or> mhas (s_IssueStatusHistory t) i"
    and "mhas cur i \<Longrightarrow> mget (s_PrevIssueStates t) i = mget (s_PrevIssueStates s) i
      \<and> mget (s_IssueStatusHistory t) i = mget (s_IssueStatusHistory s) i"
    and "mhas (s_IssueStatusHistory s) i \<Longrightarrow> \<not> mhas (s_IssueStatusHistory t) i \<Longrightarrow> \<not> mhas (s_PrevIssueStates t) i"
  using assms(1,2) unfolding assms(3)
  by (auto simp: pruneIssueStatusHistory_def Let_def mhas_def mget_mkeep history_expired_def split: option.splits if_splits)

text \<open>A discard whose completion event is lost blocks its issue for at most the time to live of the marker.\<close>

lemma discard_marker_expires:
  assumes "mwf (s_DiscardingIdentifiers s)" and "0 < now" and "now + discardMarkerTTL < later"
  shows "\<not> mhas (s_DiscardingIdentifiers (fst (expireDiscardMarkers (fst (markDiscarding s i now)) later))) i"
proof -
  have "\<not> time_sub later now \<le> discardMarkerTTL"
    using assms(3) time_sub_le_iff [of discardMarkerTTL later now]
    by (simp add: discardMarkerTTL_def postRunTimeout_def second_def millisecond_def int64_min_def int64_max_def)
  then show ?thesis
    using assms(1,2) by (simp add: mhas_def expireDiscardMarkers_def markDiscarding_def Let_def mget_mkeep isZero_def)
qed

lemma failure_ack_keeps_latest:
  assumes "mwf (s_FailureAcks s)" and "mget (s_FailureAcks s) i = Some prev" and "\<not> isZero upTo" and "i \<noteq> []"
    and "f \<in> set (s_RecentFailures s)" and "isAckableFailure f" and "fr_Identifier f = i"
  shows "mget (s_FailureAcks (applyFailureAck s i upTo)) i = Some (max prev upTo)"
  using assms by (auto simp: applyFailureAck_def pruneFailureAcks_def mget_mkeep max_def)



text \<open>
  The absent sweep does not see a running worker whose issue ID differs from its identifier (as with every Linear issue):
  it looks the identifier up in the running map, which is keyed by issue ID. While the worker runs, the issue's
  waiting question, its pause, its profile and its backend pin are all dropped.
\<close>

theorem absent_sweep_misses_running_worker:
  assumes "mget (s_Running s) k = Some r" and "is_Identifier (ru_Issue r) = i" and "\<not> mhas (s_Running s) i"
    and "prev \<noteq> []" and "\<not> mhas cur i" and "\<not> mhas prev i" and "i \<notin> set (dependencyAuditIdentifiers (rows_pruned cur now s))"
    and "mwf (s_InputRequiredIssues s)" and "mwf (s_IssueProfiles s)" and "mwf (s_IssueBackends s)"
    and "t = janitor_pass clock now orc cur prev s"
  shows "mget (s_Running t) k = Some r \<and> \<not> mhas (s_InputRequiredIssues t) i \<and> \<not> mhas (s_PausedIdentifiers t) i
    \<and> \<not> mhas (s_IssueProfiles t) i \<and> \<not> mhas (s_IssueBackends t) i"
proof -
  have "absent_ident cur prev now s i"
    using assms(3-7) by (simp add: absent_ident_def buildPresentPredicate_def)
  then show ?thesis
    using assms(1,8-10) unfolding assms(11) mhas_def by (simp add: janitor_fields mget_mkeep split: option.split)
qed

text \<open>A daemon with a failed run of \<open>A-1\<close> that awaits its retry while the issue was moved to \<open>Done\<close>.\<close>

definition ex_retrying :: state where
  "ex_retrying = (ScheduleRetry ex_state ''id-A-1'' 1 ''A-1'' ''worker failed'' (100 * second) 300000)\<lparr>
     s_PrevIssueStates := [(''A-1'', ''Done'')], s_IssueProfiles := [(''A-1'', ''fast''), (''A-2'', ''fast'')],
     s_Running := [(''id-A-2'', ex_run (ex_issue ''A-2''))]\<rparr>"

definition ex_tick_pass :: state where
  "ex_tick_pass = janitor_pass (101 * second) (101 * second) ex_orch [(''A-1'', ())] [(''A-1'', ())] ex_retrying"



theorem absent_sweep_misses_running_worker_witness:
  "mget (s_Running ex_tick_pass) ''id-A-2'' = Some (ex_run (ex_issue ''A-2'')) \<and> \<not> mhas (s_IssueProfiles ex_tick_pass) ''A-2''"
proof -
  have r: "mget (s_Running ex_retrying) ''id-A-2'' = Some (ex_run (ex_issue ''A-2''))" "\<not> mhas (s_Running ex_retrying) ''A-2''"
    by (simp_all add: ex_retrying_def mhas_def)
  have i: "is_Identifier (ru_Issue (ex_run (ex_issue ''A-2''))) = ''A-2''" by (simp add: ex_run_def ex_issue_def)
  have c: "[(''A-1'', ())] \<noteq> []" "\<not> mhas [(''A-1'', ())] ''A-2''" by (simp_all add: mhas_def)
  have a: "''A-2'' \<notin> set (dependencyAuditIdentifiers (rows_pruned [(''A-1'', ())] (101 * second) ex_retrying))" by code_simp
  have wf: "mwf (s_InputRequiredIssues ex_retrying)" "mwf (s_IssueProfiles ex_retrying)" "mwf (s_IssueBackends ex_retrying)"
    by code_simp+
  show ?thesis
    using absent_sweep_misses_running_worker [OF r(1) i r(2) c(1) c(2) c(2) a wf ex_tick_pass_def] by blast
qed

end
