(* ===== verification/Reconcile.thy ===== *)
theory Reconcile
  imports Dispatch Retry
begin

text \<open>
  Reconciliation of the running workers (\<open>internal/orchestrator/reconcile.go\<close>): workers without output
  for longer than the stall timeout are stopped and retried, and workers whose issue left the states they
  may run in are stopped. The result of a pass is the new state, the identifiers whose workers were
  cancelled and the exit events that were offered to the event channel, in the order of the running map.
\<close>

section \<open>Passes\<close>

record reconcile_result =
  rr_state :: state
  rr_cancelled :: "string list"
  rr_events :: "(string \<times> run_entry option) list"

definition zero_run :: "issue \<Rightarrow> run_entry" where
  "zero_run i = \<lparr>ru_Issue = i, ru_SessionID = [], ru_AgentSessionID = [], ru_WorkerHost = [],
     ru_Backend = [], ru_ProfileName = [], ru_Kind = [], ru_AutomationID = [],
     ru_TriggerType = [], ru_CommentCount = 0, ru_PendingInputResume = False, ru_BranchName = [],
     ru_PRURL = [], ru_TerminalReason = TerminalNone, ru_LastEventAt = None, ru_LastMessage = [],
     ru_InputTokens = 0, ru_OutputTokens = 0, ru_TotalTokens = 0, ru_TurnCount = 0,
     ru_RetryAttempt = None, ru_StartedAt = 0, ru_WorkerCancel = False\<rparr>"

definition stop_worker :: "reconcile_result \<Rightarrow> string \<Rightarrow> run_entry \<Rightarrow> run_entry option \<Rightarrow> reconcile_result" where
  "stop_worker r k e ev =
     \<lparr>rr_state = (rr_state r)\<lparr>s_Running := mdel (s_Running (rr_state r)) k, s_Claimed := mdel (s_Claimed (rr_state r)) k\<rparr>,
      rr_cancelled = rr_cancelled r @ [is_Identifier (ru_Issue e)],
      rr_events = rr_events r @ [(k, ev)]\<rparr>"

definition idle_for :: "time \<Rightarrow> run_entry \<Rightarrow> duration" where
  "idle_for now e = time_sub now (case ru_LastEventAt e of Some t \<Rightarrow> t | None \<Rightarrow> ru_StartedAt e)"

definition stalled_entry :: "run_entry \<Rightarrow> run_entry" where
  "stalled_entry e = (zero_run (ru_Issue e))\<lparr>ru_StartedAt := ru_StartedAt e, ru_TurnCount := ru_TurnCount e,
     ru_TotalTokens := ru_TotalTokens e, ru_InputTokens := ru_InputTokens e, ru_OutputTokens := ru_OutputTokens e,
     ru_SessionID := ru_SessionID e, ru_WorkerHost := ru_WorkerHost e, ru_Backend := ru_Backend e,
     ru_ProfileName := ru_ProfileName e, ru_TerminalReason := TerminalStalled\<rparr>"

definition stall_one :: "config \<Rightarrow> time \<Rightarrow> reconcile_result \<Rightarrow> string \<times> run_entry \<Rightarrow> reconcile_result" where
  "stall_one cfg now r ke =
     (case ke of (k, e) \<Rightarrow>
       if wrap64 (ag_StallTimeoutMs (cf_Agent cfg) * millisecond) < idle_for now e
       then let r1 = stop_worker r k e (Some (stalled_entry e));
                prevAttempt = (case mget (s_RetryAttempts (rr_state r1)) k of Some re \<Rightarrow> rt_Attempt re | None \<Rightarrow> 0)
            in r1\<lparr>rr_state := ScheduleRetry (rr_state r1) k (prevAttempt + 1) (is_Identifier (ru_Issue e)) ''stall_timeout'' now
                 (BackoffMs (prevAttempt + 1) (ag_MaxRetryBackoffMs (cf_Agent cfg)))\<rparr>
       else r)"

definition ReconcileStalls :: "state \<Rightarrow> config \<Rightarrow> time \<Rightarrow> reconcile_result" where
  "ReconcileStalls s cfg now =
     (let r0 = \<lparr>rr_state = s, rr_cancelled = [], rr_events = []\<rparr>
      in if ag_StallTimeoutMs (cf_Agent cfg) \<le> 0 then r0 else foldl (stall_one cfg now) r0 (s_Running s))"

definition isReviewState :: "string \<Rightarrow> state \<Rightarrow> bool" where
  "isReviewState st s = (s_CompletionState s \<noteq> [] \<and> equal_fold st (s_CompletionState s))"

text \<open>\<open>exitsSent\<close> holds, per issue, when its worker announced its exit.\<close>

definition pendingExits :: "(string, time) gomap \<Rightarrow> state \<Rightarrow> string goset" where
  "pendingExits exitsSent s =
     map (\<lambda>(k, _). (k, ())) (filter (\<lambda>(k, e). case mget exitsSent k of None \<Rightarrow> False | Some t \<Rightarrow> \<not> t < ru_StartedAt e)
       (s_Running s))"

definition reconciled_entry :: "run_entry \<Rightarrow> run_entry" where
  "reconciled_entry e = (zero_run (ru_Issue e))\<lparr>ru_Kind := ru_Kind e, ru_ProfileName := ru_ProfileName e,
     ru_BranchName := ru_BranchName e, ru_TerminalReason := TerminalCanceledByReconciliation\<rparr>"

definition keep_worker :: "time \<Rightarrow> reconcile_result \<Rightarrow> string \<Rightarrow> run_entry \<Rightarrow> string \<Rightarrow> reconcile_result" where
  "keep_worker clock r k e st =
     r\<lparr>rr_state := (rr_state r)\<lparr>s_Running := mput (s_Running (rr_state r)) k
        (e\<lparr>ru_Issue := (ru_Issue e)\<lparr>is_State := st\<rparr>, ru_LastEventAt := Some clock\<rparr>)\<rparr>\<rparr>"

definition reconcile_one :: "(string, string) gomap \<Rightarrow> time \<Rightarrow> reconcile_result \<Rightarrow> string \<times> run_entry \<Rightarrow> reconcile_result" where
  "reconcile_one byID clock r ke =
     (case ke of (k, e) \<Rightarrow>
       let s = rr_state r
       in if mhas (s_ExitPending s) k then r
          else case mget byID k of
            None \<Rightarrow> stop_worker r k e None
          | Some st \<Rightarrow>
              if ru_Kind e = ''automation'' then keep_worker clock r k e st
              else if ru_Kind e = ''reviewer'' \<and> isReviewState st s then keep_worker clock r k e st
              else if isTerminalState st s then stop_worker r k e (Some (reconciled_entry e))
              else if isActiveState st s then keep_worker clock r k e st
              else stop_worker r k e None)"

definition reconcileTrackerStates ::
  "(string list \<Rightarrow> issue list option) \<Rightarrow> (state \<Rightarrow> string goset) option \<Rightarrow> time \<Rightarrow> state \<Rightarrow> reconcile_result" where
  "reconcileTrackerStates fetch pendingAfterFetch clock s =
     (let keep = \<lparr>rr_state = s, rr_cancelled = [], rr_events = []\<rparr>
      in if s_Running s = [] then keep
         else case fetch (mkeys (s_Running s)) of
           None \<Rightarrow> keep
         | Some refreshed \<Rightarrow>
             let s1 = (case pendingAfterFetch of None \<Rightarrow> s | Some f \<Rightarrow> s\<lparr>s_ExitPending := f s\<rparr>);
                 byID = foldl (\<lambda>m i. mput m (is_ID i) (is_State i)) [] refreshed
             in foldl (reconcile_one byID clock) (keep\<lparr>rr_state := s1\<rparr>) (s_Running s))"

section \<open>Lemmas\<close>

definition stalled :: "config \<Rightarrow> time \<Rightarrow> run_entry \<Rightarrow> bool" where
  "stalled cfg now e \<longleftrightarrow> wrap64 (ag_StallTimeoutMs (cf_Agent cfg) * millisecond) < idle_for now e"

definition attempt_of :: "state \<Rightarrow> string \<Rightarrow> int" where
  "attempt_of s k = (case mget (s_RetryAttempts s) k of Some re \<Rightarrow> rt_Attempt re | None \<Rightarrow> 0)"

definition stall_retry :: "config \<Rightarrow> time \<Rightarrow> state \<Rightarrow> string \<Rightarrow> run_entry \<Rightarrow> retry_entry" where
  "stall_retry cfg now s k e = \<lparr>rt_IssueID = k, rt_Identifier = is_Identifier (ru_Issue e), rt_Attempt = attempt_of s k + 1,
     rt_DueAt = now + wrap64 (BackoffMs (attempt_of s k + 1) (ag_MaxRetryBackoffMs (cf_Agent cfg)) * millisecond),
     rt_Error = Some ''stall_timeout''\<rparr>"

lemma stop_worker_fields [simp]:
  "s_Running (rr_state (stop_worker r k e ev)) = mdel (s_Running (rr_state r)) k"
  "s_Claimed (rr_state (stop_worker r k e ev)) = mdel (s_Claimed (rr_state r)) k"
  "s_RetryAttempts (rr_state (stop_worker r k e ev)) = s_RetryAttempts (rr_state r)"
  "rr_events (stop_worker r k e ev) = rr_events r @ [(k, ev)]"
  "rr_cancelled (stop_worker r k e ev) = rr_cancelled r @ [is_Identifier (ru_Issue e)]"
  by (simp_all add: stop_worker_def)

lemma stall_one_fields:
  fixes r defines "s \<equiv> rr_state r"
  shows "s_Running (rr_state (stall_one cfg now r (k, e))) = (if stalled cfg now e then mdel (s_Running s) k else s_Running s)"
    and "mhas (s_Claimed (rr_state (stall_one cfg now r (k, e)))) j \<longleftrightarrow> mhas (s_Claimed s) j \<or> j = k \<and> stalled cfg now e"
    and "mget (s_RetryAttempts (rr_state (stall_one cfg now r (k, e)))) j =
      (if j = k \<and> stalled cfg now e then Some (stall_retry cfg now s k e) else mget (s_RetryAttempts s) j)"
    and "rr_events (stall_one cfg now r (k, e)) = rr_events r @ (if stalled cfg now e then [(k, Some (stalled_entry e))] else [])"
  by (auto simp: stall_one_def stalled_def s_def Let_def stall_retry_def attempt_of_def)

lemma stall_fold:
  assumes "distinct (map fst xs)"
  shows "mget (s_Running (rr_state (foldl (stall_one cfg now) r xs))) j =
      (case map_of xs j of Some e \<Rightarrow> if stalled cfg now e then None else mget (s_Running (rr_state r)) j
       | None \<Rightarrow> mget (s_Running (rr_state r)) j)
    \<and> (mhas (s_Claimed (rr_state (foldl (stall_one cfg now) r xs))) j \<longleftrightarrow>
      mhas (s_Claimed (rr_state r)) j \<or> (\<exists>e. map_of xs j = Some e \<and> stalled cfg now e))
    \<and> mget (s_RetryAttempts (rr_state (foldl (stall_one cfg now) r xs))) j =
      (case map_of xs j of Some e \<Rightarrow> if stalled cfg now e then Some (stall_retry cfg now (rr_state r) j e)
         else mget (s_RetryAttempts (rr_state r)) j | None \<Rightarrow> mget (s_RetryAttempts (rr_state r)) j)
    \<and> rr_events (foldl (stall_one cfg now) r xs) =
      rr_events r @ map (\<lambda>(k, e). (k, Some (stalled_entry e))) (filter (\<lambda>(k, e). stalled cfg now e) xs)"
  using assms
proof (induction xs arbitrary: r)
  case (Cons x xs)
  obtain k e where x: "x = (k, e)" by (cases x)
  have none: "map_of xs k = None" using Cons.prems by (simp add: x map_of_eq_None_iff)
  have d: "distinct (map fst xs)" using Cons.prems by simp
  note f = stall_one_fields [of cfg now r k e]
  have retry: "stall_retry cfg now (rr_state (stall_one cfg now r (k, e))) j e' = stall_retry cfg now (rr_state r) j e'"
    if "j \<noteq> k" for e'
    using f(3) [of j] that by (simp add: stall_retry_def attempt_of_def)
  show ?case
    using Cons.IH [OF d, of "stall_one cfg now r (k, e)"] f(1) f(2) [of j] f(3) [of j] f(4) none retry
    by (cases "j = k") (simp_all add: x split: option.split)
qed simp

lemma stalls_exact:
  fixes s cfg now defines "r \<equiv> ReconcileStalls s cfg now"
  assumes "mwf (s_Running s)" and "0 < ag_StallTimeoutMs (cf_Agent cfg)"
  shows "mget (s_Running (rr_state r)) k = (case mget (s_Running s) k of None \<Rightarrow> None | Some e \<Rightarrow> if stalled cfg now e then None else Some e)"
    and "mhas (s_Claimed (rr_state r)) k \<longleftrightarrow> mhas (s_Claimed s) k \<or> (\<exists>e. mget (s_Running s) k = Some e \<and> stalled cfg now e)"
    and "mget (s_RetryAttempts (rr_state r)) k =
      (case mget (s_Running s) k of Some e \<Rightarrow> if stalled cfg now e then Some (stall_retry cfg now s k e)
         else mget (s_RetryAttempts s) k | None \<Rightarrow> mget (s_RetryAttempts s) k)"
    and "rr_events r = map (\<lambda>(k, e). (k, Some (stalled_entry e))) (filter (\<lambda>(k, e). stalled cfg now e) (s_Running s))"
  using stall_fold [of "s_Running s" cfg now "\<lparr>rr_state = s, rr_cancelled = [], rr_events = []\<rparr>"] assms(2,3)
  by (simp_all add: r_def ReconcileStalls_def Let_def mwf_def mkeys_def split: option.split)

section \<open>Ownership of claims\<close>

text \<open>
  Every claim is owned by a running worker or by a pending retry, by exactly one of them, and both own one.
\<close>

definition claims_owned :: "state \<Rightarrow> bool" where
  "claims_owned s \<longleftrightarrow> (\<forall>k. mhas (s_Claimed s) k \<longleftrightarrow> mhas (s_Running s) k \<or> mhas (s_RetryAttempts s) k) \<and>
     (\<forall>k. \<not> (mhas (s_Running s) k \<and> mhas (s_RetryAttempts s) k))"

lemma stalls_keep_claims_owned:
  assumes "claims_owned s" and "mwf (s_Running s)"
  shows "claims_owned (rr_state (ReconcileStalls s cfg now))"
proof (cases "0 < ag_StallTimeoutMs (cf_Agent cfg)")
  case True
  let ?t = "rr_state (ReconcileStalls s cfg now)"
  have "(mhas (s_Claimed ?t) k \<longleftrightarrow> mhas (s_Running ?t) k \<or> mhas (s_RetryAttempts ?t) k) \<and>
      \<not> (mhas (s_Running ?t) k \<and> mhas (s_RetryAttempts ?t) k)" for k
  proof -
    have "(mhas (s_Claimed s) k \<longleftrightarrow> mhas (s_Running s) k \<or> mhas (s_RetryAttempts s) k) \<and>
      \<not> (mhas (s_Running s) k \<and> mhas (s_RetryAttempts s) k)" using assms(1) unfolding claims_owned_def by blast
    then show ?thesis
      using stalls_exact(1-3) [OF assms(2) True, where k = k and now = now]
      by (cases "mget (s_Running s) k") (simp_all add: mhas_def split: if_splits)
  qed
  then show ?thesis unfolding claims_owned_def by blast
next
  case False
  then show ?thesis using assms(1) by (simp add: ReconcileStalls_def)
qed

section \<open>Fates of running workers\<close>

datatype fate = Leave | Keep string | Stop "run_entry option"

text \<open>What a pass does to one worker: nothing, let it run with the refreshed state, or stop it.\<close>

definition worker_fate :: "(string, string) gomap \<Rightarrow> state \<Rightarrow> string \<Rightarrow> run_entry \<Rightarrow> fate" where
  "worker_fate byID s k e =
     (if mhas (s_ExitPending s) k then Leave
      else case mget byID k of
        None \<Rightarrow> Stop None
      | Some st \<Rightarrow>
          if ru_Kind e = ''automation'' \<or> ru_Kind e = ''reviewer'' \<and> isReviewState st s then Keep st
          else if isTerminalState st s then Stop (Some (reconciled_entry e))
          else if isActiveState st s then Keep st else Stop None)"

definition after_fate :: "time \<Rightarrow> run_entry \<Rightarrow> fate \<Rightarrow> run_entry option" where
  "after_fate clock e f = (case f of Leave \<Rightarrow> Some e | Stop _ \<Rightarrow> None
     | Keep st \<Rightarrow> Some (e\<lparr>ru_Issue := (ru_Issue e)\<lparr>is_State := st\<rparr>, ru_LastEventAt := Some clock\<rparr>))"

lemma reconcile_one_fate:
  "reconcile_one byID clock r (k, e) = (case worker_fate byID (rr_state r) k e of
     Leave \<Rightarrow> r | Keep st \<Rightarrow> keep_worker clock r k e st | Stop ev \<Rightarrow> stop_worker r k e ev)"
  by (simp add: reconcile_one_def worker_fate_def Let_def split: option.split)

lemma fate_cong:
  assumes "s_ExitPending t = s_ExitPending s" and "s_CompletionState t = s_CompletionState s"
    and "s_TerminalStates t = s_TerminalStates s" and "s_ActiveStates t = s_ActiveStates s"
  shows "worker_fate byID t k e = worker_fate byID s k e"
  using assms by (simp add: worker_fate_def isReviewState_def isTerminalState_def isActiveState_def split: option.split)

lemma reconcile_one_fields:
  fixes r k e byID clock
  defines "t \<equiv> reconcile_one byID clock r (k, e)" and "f \<equiv> worker_fate byID (rr_state r) k e"
  shows "mget (s_Running (rr_state t)) j = (if j = k \<and> f \<noteq> Leave then after_fate clock e f else mget (s_Running (rr_state r)) j)"
    and "mhas (s_Claimed (rr_state t)) j \<longleftrightarrow> mhas (s_Claimed (rr_state r)) j \<and> \<not> (j = k \<and> (\<exists>ev. f = Stop ev))"
    and "s_RetryAttempts (rr_state t) = s_RetryAttempts (rr_state r)"
    and "rr_events t = rr_events r @ (case f of Stop ev \<Rightarrow> [(k, ev)] | _ \<Rightarrow> [])"
    and "worker_fate byID (rr_state t) j e' = worker_fate byID (rr_state r) j e'"
proof -
  show "mget (s_Running (rr_state t)) j = (if j = k \<and> f \<noteq> Leave then after_fate clock e f else mget (s_Running (rr_state r)) j)"
    "mhas (s_Claimed (rr_state t)) j \<longleftrightarrow> mhas (s_Claimed (rr_state r)) j \<and> \<not> (j = k \<and> (\<exists>ev. f = Stop ev))"
    "s_RetryAttempts (rr_state t) = s_RetryAttempts (rr_state r)"
    "rr_events t = rr_events r @ (case f of Stop ev \<Rightarrow> [(k, ev)] | _ \<Rightarrow> [])"
    unfolding t_def reconcile_one_fate f_def [symmetric] by (cases f; auto simp: after_fate_def keep_worker_def)+
  show "worker_fate byID (rr_state t) j e' = worker_fate byID (rr_state r) j e'"
    unfolding t_def reconcile_one_fate f_def [symmetric]
    by (cases f; rule fate_cong; simp add: keep_worker_def stop_worker_def)
qed

lemma reconcile_fold:
  assumes "distinct (map fst xs)" and "\<And>k e. map_of xs k = Some e \<Longrightarrow> mget (s_Running (rr_state r)) k = Some e"
  shows "mget (s_Running (rr_state (foldl (reconcile_one byID clock) r xs))) j =
      (case map_of xs j of Some e \<Rightarrow> after_fate clock e (worker_fate byID (rr_state r) j e) | None \<Rightarrow> mget (s_Running (rr_state r)) j)
    \<and> (mhas (s_Claimed (rr_state (foldl (reconcile_one byID clock) r xs))) j \<longleftrightarrow>
      mhas (s_Claimed (rr_state r)) j \<and> \<not> (\<exists>e ev. map_of xs j = Some e \<and> worker_fate byID (rr_state r) j e = Stop ev))
    \<and> s_RetryAttempts (rr_state (foldl (reconcile_one byID clock) r xs)) = s_RetryAttempts (rr_state r)
    \<and> rr_events (foldl (reconcile_one byID clock) r xs) = rr_events r @
      concat (map (\<lambda>(k, e). case worker_fate byID (rr_state r) k e of Stop ev \<Rightarrow> [(k, ev)] | _ \<Rightarrow> []) xs)"
  using assms
proof (induction xs arbitrary: r)
  case (Cons x xs)
  obtain k e where x: "x = (k, e)" by (cases x)
  let ?r = "reconcile_one byID clock r (k, e)"
  have none: "map_of xs k = None" using Cons.prems by (simp add: x map_of_eq_None_iff)
  have d: "distinct (map fst xs)" using Cons.prems by simp
  note f = reconcile_one_fields [of byID clock r k e]
  have e: "mget (s_Running (rr_state r)) k = Some e" using Cons.prems(2) [of k e] by (simp add: x)
  have run: "mget (s_Running (rr_state ?r)) i = Some e'" if "map_of xs i = Some e'" for i e'
    using Cons.prems(2) [of i e'] that none f(1) [of i] by (cases "i = k") (simp_all add: x)
  have leave: "worker_fate byID (rr_state r) k e = Leave \<Longrightarrow> after_fate clock e (worker_fate byID (rr_state r) k e) = Some e"
    by (simp add: after_fate_def)
  show ?case
    using Cons.IH [OF d run] f(1) [of j] f(2) [of j] f(3,4) none e leave
    by (cases "j = k") (auto simp: x f(5) split: option.split)
qed simp

lemma tracker_pass:
  fixes fetch pending clock s
  defines "r \<equiv> reconcileTrackerStates fetch (Some pending) clock s"
  assumes "mwf (s_Running s)" and "fetch (mkeys (s_Running s)) = Some refreshed"
    and "byID = foldl (\<lambda>m i. mput m (is_ID i) (is_State i)) [] refreshed" and "s1 = s\<lparr>s_ExitPending := pending s\<rparr>"
  shows "mget (s_Running (rr_state r)) j = Option.bind (mget (s_Running s) j) (\<lambda>e. after_fate clock e (worker_fate byID s1 j e))"
    and "mhas (s_Claimed (rr_state r)) j \<longleftrightarrow> mhas (s_Claimed s) j \<and> \<not> (\<exists>e ev. mget (s_Running s) j = Some e \<and> worker_fate byID s1 j e = Stop ev)"
    and "s_RetryAttempts (rr_state r) = s_RetryAttempts s"
    and "rr_events r = concat (map (\<lambda>(k, e). case worker_fate byID s1 k e of Stop ev \<Rightarrow> [(k, ev)] | _ \<Rightarrow> []) (s_Running s))"
proof -
  let ?r0 = "\<lparr>rr_state = s1, rr_cancelled = [], rr_events = []\<rparr>"
  have eq: "r = (if s_Running s = [] then \<lparr>rr_state = s, rr_cancelled = [], rr_events = []\<rparr>
      else foldl (reconcile_one byID clock) ?r0 (s_Running s))"
    using assms(3) by (simp add: r_def reconcileTrackerStates_def Let_def assms(4,5))
  note f = reconcile_fold [of "s_Running s" ?r0 byID clock j]
  have p: "distinct (map fst (s_Running s))" "\<And>k e. map_of (s_Running s) k = Some e \<Longrightarrow> mget (s_Running (rr_state ?r0)) k = Some e"
    using assms(2) by (simp_all add: mwf_def mkeys_def assms(5))
  show "mget (s_Running (rr_state r)) j = Option.bind (mget (s_Running s) j) (\<lambda>e. after_fate clock e (worker_fate byID s1 j e))"
    "mhas (s_Claimed (rr_state r)) j \<longleftrightarrow> mhas (s_Claimed s) j \<and> \<not> (\<exists>e ev. mget (s_Running s) j = Some e \<and> worker_fate byID s1 j e = Stop ev)"
    "s_RetryAttempts (rr_state r) = s_RetryAttempts s"
    "rr_events r = concat (map (\<lambda>(k, e). case worker_fate byID s1 k e of Stop ev \<Rightarrow> [(k, ev)] | _ \<Rightarrow> []) (s_Running s))"
    using f [OF p] unfolding eq by (simp_all add: assms(5) split: option.split)
qed

lemma failed_fetch_keeps_workers:
  "fetch (mkeys (s_Running s)) = None \<Longrightarrow> reconcileTrackerStates fetch pending clock s = \<lparr>rr_state = s, rr_cancelled = [], rr_events = []\<rparr>"
  by (simp add: reconcileTrackerStates_def Let_def)

lemma tracker_keeps_claims_owned:
  assumes "claims_owned s" and "mwf (s_Running s)"
  shows "claims_owned (rr_state (reconcileTrackerStates fetch (Some pending) clock s))"
proof (cases "fetch (mkeys (s_Running s))")
  case None
  then show ?thesis using assms(1) by (simp add: failed_fetch_keeps_workers)
next
  case (Some refreshed)
  let ?t = "rr_state (reconcileTrackerStates fetch (Some pending) clock s)"
  have "(mhas (s_Claimed ?t) k \<longleftrightarrow> mhas (s_Running ?t) k \<or> mhas (s_RetryAttempts ?t) k) \<and>
      \<not> (mhas (s_Running ?t) k \<and> mhas (s_RetryAttempts ?t) k)" for k
  proof -
    let ?byID = "foldl (\<lambda>m i. mput m (is_ID i) (is_State i)) [] refreshed" and ?s1 = "s\<lparr>s_ExitPending := pending s\<rparr>"
    have p: "mget (s_Running ?t) k = Option.bind (mget (s_Running s) k) (\<lambda>e. after_fate clock e (worker_fate ?byID ?s1 k e))"
      "mhas (s_Claimed ?t) k \<longleftrightarrow> mhas (s_Claimed s) k \<and> \<not> (\<exists>e ev. mget (s_Running s) k = Some e \<and> worker_fate ?byID ?s1 k e = Stop ev)"
      "s_RetryAttempts ?t = s_RetryAttempts s"
      by (rule tracker_pass [where fetch = fetch, OF assms(2) Some refl refl])+
    have own: "(mhas (s_Claimed s) k \<longleftrightarrow> mhas (s_Running s) k \<or> mhas (s_RetryAttempts s) k) \<and>
      \<not> (mhas (s_Running s) k \<and> mhas (s_RetryAttempts s) k)" using assms(1) unfolding claims_owned_def by blast
    show ?thesis
    proof (cases "mget (s_Running s) k")
      case None
      then show ?thesis using own p by (simp add: mhas_def)
    next
      case (Some e)
      then show ?thesis
        using own p by (cases "worker_fate ?byID ?s1 k e") (simp_all add: mhas_def after_fate_def)
    qed
  qed
  then show ?thesis unfolding claims_owned_def by blast
qed

section \<open>Properties\<close>


text \<open>
  A stalled worker's retry never escalates. The stall pass takes the attempt from the pending retries, and a worker
  that runs has none, its own attempt being in its run entry; so however often an issue has been
  retried, its stall is scheduled as attempt one with the shortest backoff, and a worker that always
  stalls is restarted for ever.
\<close>

theorem stall_retry_never_escalates:
  assumes "claims_owned s" and "mwf (s_Running s)" and "0 < ag_StallTimeoutMs (cf_Agent cfg)"
    and "mget (s_Running s) k = Some e" and "stalled cfg now e" and "ru_RetryAttempt e = Some attempt"
    and "t = rr_state (ReconcileStalls s cfg now)"
  shows "\<not> mhas (s_Running t) k \<and> mget (s_RetryAttempts t) k = Some \<lparr>rt_IssueID = k, rt_Identifier = is_Identifier (ru_Issue e),
      rt_Attempt = 1, rt_DueAt = now + wrap64 (min 10000 (ag_MaxRetryBackoffMs (cf_Agent cfg)) * millisecond),
      rt_Error = Some ''stall_timeout''\<rparr> \<and> claims_owned t"
proof -
  have "mget (s_RetryAttempts s) k = None"
    using assms(1,4) unfolding claims_owned_def mhas_def by (metis option.distinct(1))
  then have a: "attempt_of s k = 0" by (simp add: attempt_of_def)
  have b: "BackoffMs 1 m = min 10000 m" for m by (simp add: BackoffMs_closed backoff_exponent_def)
  show ?thesis
    using stalls_exact(1,3) [OF assms(2,3), of now k] assms(4,5) stalls_keep_claims_owned [OF assms(1,2), of cfg now]
    by (simp add: assms(7) mhas_def stall_retry_def a b)
qed

text \<open>A worker at its third attempt, silent for an hour, and one whose issue was closed.\<close>

definition ex_workers :: state where
  "ex_workers = ex_state\<lparr>s_Running := [(''id-A-1'', (ex_run (ex_issue ''A-1''))\<lparr>ru_RetryAttempt := Some 3\<rparr>),
     (''id-A-2'', ex_run (ex_issue ''A-2''))], s_Claimed := [(''id-A-1'', ()), (''id-A-2'', ())]\<rparr>"


theorem stall_retry_never_escalates_witness:
  "\<exists>re. mget (s_RetryAttempts (rr_state (ReconcileStalls ex_workers ex_config (3600 * second)))) ''id-A-1'' = Some re \<and> rt_Attempt re = 1"
proof -
  have wf: "mwf (s_Running ex_workers)" by code_simp
  have c: "claims_owned ex_workers" by (auto simp: claims_owned_def ex_workers_def mhas_def ex_defs)
  have t: "0 < ag_StallTimeoutMs (cf_Agent ex_config)" by (simp add: ex_config_def)
  have e: "mget (s_Running ex_workers) ''id-A-1'' = Some ((ex_run (ex_issue ''A-1''))\<lparr>ru_RetryAttempt := Some 3\<rparr>)"
    by (simp add: ex_workers_def)
  have st: "stalled ex_config (3600 * second) ((ex_run (ex_issue ''A-1''))\<lparr>ru_RetryAttempt := Some 3\<rparr>)" by code_simp
  show ?thesis using stall_retry_never_escalates [OF c wf t e st _ refl, of 3] by simp
qed

end
