(* ===== verification/Event_Loop.thy ===== *)
theory Event_Loop
  imports Input_Resume Dispatch_Order Janitor Reconcile
begin

text \<open>
  The event loop's tick (\<open>onTick\<close> and \<open>fireRetries\<close> of \<open>internal/orchestrator/event_loop.go\<close>): due retries, the
  reactivation of paused issues, and the pass over the polled candidates that checks replies, resumes
  workers, runs postponed reviews, drains the automation queue, dispatches in order, and sweeps the ledgers.
  \<open>None\<close> is a run-time panic of the code. The order in which \<open>fireRetries\<close> visits the retry map is an argument. The
  tick's reads of the tracker are those of \<open>loop_env\<close>; the graph metrics of the ordering are an argument.
\<close>

section \<open>Retries\<close>

definition fire_due ::
  "loop_env \<Rightarrow> config \<Rightarrow> time \<Rightarrow> daemon \<Rightarrow> string \<Rightarrow> retry_entry \<Rightarrow> issue \<Rightarrow> daemon" where
  "fire_due env cfg now d k e issue =
     (let d1 = fst (auditFetchedIssueDependenciesAndDispatch (le_restacker env) (le_rules env) cfg d issue now)
      in if AvailableSlots (snd d1) \<le> 0
         then (fst d1, ScheduleRetry (snd d1) k (rt_Attempt e) (rt_Identifier e) ''no available orchestrator slots'' now 1000)
         else let d2 = (fst d1, (snd d1)\<lparr>s_RetryAttempts := mdel (s_RetryAttempts (snd d1)) k\<rparr>);
                  d3 = dispatch (le_fmt_time env) cfg now d2 issue (rt_Attempt e)
              in case mget (s_BackendLimitedHolds (snd d3)) (rt_Identifier e) of
                   None \<Rightarrow> d3
                 | Some hold \<Rightarrow>
                     if mhas (s_Running (snd d3)) k then d3
                     else (fst d3, ScheduleRetry (snd d3) k (rt_Attempt e) (rt_Identifier e)
                       (''backend limited: '' @ describeHold (le_fmt_time env) hold) now (holdRetryDelay (snd d3) hold now)))"

definition fire_retry :: "loop_env \<Rightarrow> config \<Rightarrow> time \<Rightarrow> daemon \<Rightarrow> string \<Rightarrow> daemon" where
  "fire_retry env cfg now d k =
     (case mget (s_RetryAttempts (snd d)) k of
        None \<Rightarrow> d
      | Some e \<Rightarrow>
          if mhas (s_PausedIdentifiers (snd d)) (rt_Identifier e) then (fst d, CancelRetry (snd d) k)
          else if mhas (s_Running (snd d)) k then d
          else if now < rt_DueAt e then d
          else case tk_FetchIssueStatesByIDs (le_tracker env) [k] of
            None \<Rightarrow> (fst d, ScheduleRetry (snd d) k (rt_Attempt e + 1) (rt_Identifier e) ''retry poll failed'' now
              (BackoffMs (rt_Attempt e + 1) (ag_MaxRetryBackoffMs (cf_Agent cfg))))
          | Some [] \<Rightarrow> (fst d, CancelRetry (snd d) k)
          | Some (issue # _) \<Rightarrow>
              if \<not> isActiveState (is_State issue) (snd d) then (fst d, CancelRetry (snd d) k)
              else fire_due env cfg now d k e issue)"

definition fireRetries :: "loop_env \<Rightarrow> config \<Rightarrow> time \<Rightarrow> string list \<Rightarrow> daemon \<Rightarrow> daemon" where
  "fireRetries env cfg now ids d = foldl (fire_retry env cfg now) d ids"

section \<open>The pass over the candidates\<close>

definition auto_resume :: "state \<Rightarrow> issue \<Rightarrow> state" where
  "auto_resume s issue =
     (if mhas (s_PausedIdentifiers s) (is_Identifier issue)
      then if mhas (s_PrevActiveIdentifiers s) (is_Identifier issue) then s
           else clearPauseReason (s\<lparr>s_PausedIdentifiers := mdel (s_PausedIdentifiers s) (is_Identifier issue)\<rparr>) (is_Identifier issue)
      else s)"

definition candidate_index :: "issue list \<Rightarrow> (string, issue) gomap" where
  "candidate_index issues =
     foldl (\<lambda>m i. let m1 = (if is_ID i \<noteq> [] then mput m (is_ID i) i else m)
                  in if is_Identifier i \<noteq> [] then mput m1 (is_Identifier i) i else m1) [] issues"

definition active_identifiers :: "issue list \<Rightarrow> string goset" where
  "active_identifiers issues = foldl (\<lambda>m i. mput m (is_Identifier i) ()) [] issues"

definition dispatch_candidate :: "loop_env \<Rightarrow> config \<Rightarrow> time \<Rightarrow> daemon \<Rightarrow> issue \<Rightarrow> daemon option" where
  "dispatch_candidate env cfg now d issue =
     (let d1 = (fst d, clearBackendHold (snd d) (is_Identifier issue))
      in if \<not> IsEligible issue (snd d1) cfg then Some d1
         else case recoverInputRequired (le_tracker env) issue now of
           None \<Rightarrow> None
         | Some (Some entry) \<Rightarrow>
             Some (dispatchMatchingInputRequiredAutomations (le_rules env) cfg
               (fst d1, (snd d1)\<lparr>s_InputRequiredIssues := mput (s_InputRequiredIssues (snd d1)) (is_Identifier issue) entry\<rparr>)
               issue entry now None)
         | Some None \<Rightarrow> Some (dispatch (le_fmt_time env) cfg now d1 issue 0))"

fun dispatch_candidates :: "loop_env \<Rightarrow> config \<Rightarrow> time \<Rightarrow> issue list \<Rightarrow> daemon \<Rightarrow> daemon option" where
  "dispatch_candidates env cfg now [] d = Some d"
| "dispatch_candidates env cfg now (issue # issues) d =
     (if AvailableSlots (snd d) \<le> 0 then Some d
      else Option.bind (dispatch_candidate env cfg now d issue) (dispatch_candidates env cfg now issues))"

definition audit_candidates :: "loop_env \<Rightarrow> config \<Rightarrow> time \<Rightarrow> issue list \<Rightarrow> daemon \<Rightarrow> daemon" where
  "audit_candidates env cfg now issues d =
     foldl (\<lambda>d i. fst (auditFetchedIssueDependenciesAndDispatch (le_restacker env) (le_rules env) cfg d i now)) d issues"

text \<open>
  From the lookup table of the candidates to the janitors. \<open>clock\<close> is the later reading of the clock the
  janitors stamp their history rows with.
\<close>

definition tick_dispatch ::
  "loop_env \<Rightarrow> config \<Rightarrow> time \<Rightarrow> time \<Rightarrow> graph_metrics \<Rightarrow> issue list \<Rightarrow> daemon \<Rightarrow> daemon option" where
  "tick_dispatch env cfg now clock metrics issues d =
     (let currentActive = active_identifiers issues;
          s1 = foldl auto_resume (snd d) issues;
          prevActive = s_PrevActiveIdentifiers s1
      in Option.bind (checkTrackerReplies env cfg now (fst d, s1\<lparr>s_PrevActiveIdentifiers := currentActive\<rparr>)) (\<lambda>d2.
         let d3 = processPendingInputResumes env cfg now d2;
             d4 = resumePendingReviews (le_fmt_time env) (le_tracker env) cfg now d3;
             d5 = drainAutomationQueueWithCandidates (Some (le_tracker env)) cfg now (candidate_index issues) d4
         in map_option (\<lambda>d6.
              let s = snd d6;
                  s7 = (if s_Draining s then s else s\<lparr>s_DispatchPressure := observeDispatchPressure (s_DispatchPressure s) s issues cfg\<rparr>);
                  s8 = fst (pruneRateLimitedMaps cfg s7 now)
              in (fst d6, janitor_pass clock now (fst d6) currentActive prevActive s8))
            (dispatch_candidates env cfg now (sorted_candidates (dp_Ordering (cf_Dependencies cfg)) issues metrics) d5)))"

section \<open>Claims along the paths\<close>

text \<open>
  A path that keeps the books: outside dry runs the status of every claimed issue stays as it is, and if every
  claim had an owner, every claim still has one.
\<close>

definition claim_status :: "state \<Rightarrow> string \<Rightarrow> bool \<times> bool \<times> bool" where
  "claim_status s k = (mhas (s_Running s) k, mhas (s_Claimed s) k, mhas (s_RetryAttempts s) k)"

definition books_kept :: "daemon \<Rightarrow> daemon \<Rightarrow> bool" where
  "books_kept d d' \<longleftrightarrow> o_DryRun (fst d') = o_DryRun (fst d) \<and>
     (\<not> o_DryRun (fst d) \<longrightarrow>
       (\<forall>k. mhas (s_Claimed (snd d)) k \<longrightarrow> claim_status (snd d') k = claim_status (snd d) k) \<and>
       (claims_owned (snd d) \<longrightarrow> claims_owned (snd d')))"

lemma books_refl: "books_kept d d"
  by (simp add: books_kept_def)

lemma books_trans:
  assumes "books_kept d d'" and "books_kept d' d''"
  shows "books_kept d d''"
  using assms unfolding books_kept_def by (auto simp: claim_status_def)

lemma books_same:
  assumes "o_DryRun (fst d') = o_DryRun (fst d)" and "s_Running (snd d') = s_Running (snd d)"
    and "s_Claimed (snd d') = s_Claimed (snd d)" and "s_RetryAttempts (snd d') = s_RetryAttempts (snd d)"
  shows "books_kept d d'"
  using assms by (simp add: books_kept_def claim_status_def claims_owned_def)

lemma books_sync: "books_kept d (syncDrainRequest d)"
  by (rule books_same) (simp_all add: syncDrainRequest_def applyDrain_def split: prod.split)

text \<open>An unclaimed issue that is started, or scheduled, becomes the only owner of its new claim.\<close>

lemma books_started:
  assumes "o_DryRun (fst d') = o_DryRun (fst d)" and "\<not> mhas (s_Claimed (snd d)) k"
    and "s_Running (snd d') = mput (s_Running (snd d)) k r" and "s_Claimed (snd d') = mput (s_Claimed (snd d)) k ()"
    and "s_RetryAttempts (snd d') = s_RetryAttempts (snd d)"
  shows "books_kept d d'"
  using assms(1,2) unfolding books_kept_def claim_status_def claims_owned_def assms(3-5) by auto

lemma books_scheduled:
  assumes "o_DryRun (fst d') = o_DryRun (fst d)" and "\<not> mhas (s_Claimed (snd d)) k"
    and "s_Running (snd d') = s_Running (snd d)" and "s_Claimed (snd d') = mput (s_Claimed (snd d)) k ()"
    and "s_RetryAttempts (snd d') = mput (s_RetryAttempts (snd d)) k e"
  shows "books_kept d d'"
  using assms(1,2) unfolding books_kept_def claim_status_def claims_owned_def assms(3-5) by auto

lemma books_dry: "o_DryRun (fst d) \<Longrightarrow> o_DryRun (fst d') \<Longrightarrow> books_kept d d'"
  by (simp add: books_kept_def)

lemma books_start: "books_kept d (fst (startAutomationRunOrHold cfg now d issue a))"
proof (cases rule: start_cases [of cfg now d issue a])
  case (nothing d')
  then show ?thesis using books_refl [of d] books_sync [of d] by auto
next
  case (gated profile o2 host s2 g)
  note q = prepared_fields [OF gated(5,6) requests_strip(2)]
  consider "gt_held g" | "\<not> gt_held g" "o_DryRun o2" | "\<not> gt_held g" "\<not> o_DryRun o2" by blast
  then show ?thesis
  proof cases
    case 1
    then show ?thesis by (intro books_same) (simp_all add: gated(7) q)
  next
    case 2
    then show ?thesis by (intro books_dry) (simp_all add: gated(7) q)
  next
    case 3
    then show ?thesis
      by (intro books_started [OF _ gated(4)])
        (simp_all add: gated(7) q launch_automation_def Let_def claim_and_run_def claim_issue_def)
  qed
qed

interpretation books: admission_relation books_kept
proof
  show "books_kept d (fst d, s')" if "adm s' = adm (snd d)" for s' d
    by (rule books_same) (simp_all add: admD [OF that])
qed (auto intro: books_refl books_start books_trans)

lemma books_dispatch:
  assumes "\<not> mhas (s_Claimed (snd d)) (is_ID issue)"
  shows "books_kept d (dispatch f cfg now d issue attempt)"
proof (cases rule: dispatch_cases [of d f cfg now issue attempt])
  case refused
  then show ?thesis using books_sync by simp
next
  case (held o2 s3 host g)
  note p = prepared_fields [OF held(4,5) requests_strip(1)]
  show ?thesis by (rule books_same) (simp_all add: held(2) p)
next
  case (admitted o2 s3 host g)
  note p = prepared_fields [OF admitted(4,5) requests_strip(1)]
  show ?thesis
  proof (cases "o_DryRun (fst d)")
    case True
    then show ?thesis by (intro books_dry) (simp_all add: admitted(3) p)
  next
    case False
    moreover have "o_DryRun (fst (launch_worker d1 issue attempt g b now)) = o_DryRun (fst d1)" for d1 b
      by (simp add: launch_worker_def Let_def)
    ultimately show ?thesis by (intro books_started [OF _ assms]) (simp_all add: admitted(3) p)
  qed
qed

lemma books_reviewer:
  assumes "\<not> mhas (s_Claimed (snd d)) (is_ID issue)"
  shows "books_kept d (dispatchReviewerForIssue f cfg now d issue p)"
proof (cases rule: reviewer_cases [of d f cfg now issue p])
  case refused
  then show ?thesis
    by (intro books_same) (simp_all add: recordPendingReview_def syncDrainRequest_def applyDrain_def split: prod.split)
next
  case skipped
  then show ?thesis by (simp add: books_refl)
next
  case (gated profile o2 host s2 g)
  note q = prepared_fields [OF gated(2,3) requests_strip(2)]
  consider "gt_held g" | "\<not> gt_held g" "o_DryRun o2" | "\<not> gt_held g" "\<not> o_DryRun o2" by blast
  then show ?thesis
  proof cases
    case 1
    then show ?thesis
      by (intro books_scheduled [OF _ assms]) (simp_all add: gated(4) q inject_reviewer_def ScheduleRetry_def Let_def)
  next
    case 2
    then show ?thesis by (intro books_dry) (simp_all add: gated(4) q)
  next
    case 3
    then show ?thesis
      by (intro books_started [OF _ assms])
        (simp_all add: gated(4) q launch_reviewer_def Let_def claim_and_run_def claim_issue_def clearPendingReview_def inject_reviewer_def)
  qed
qed

lemma books_resume_run:
  assumes "resume_run cfg d ws d'"
  shows "books_kept d d'"
proof -
  note r = resume_runD(3,5,10) [OF assms] and same = resume_runD(11,12) [OF assms]
  have run: "mhas (s_Running (snd d')) k \<longleftrightarrow> mhas (s_Running (snd d)) k \<or> k \<in> set (started_ids ws)"
    and claim: "mhas (s_Claimed (snd d')) k \<longleftrightarrow> mhas (s_Claimed (snd d)) k \<or> k \<in> set (started_ids ws)"
    and new: "k \<in> set (started_ids ws) \<Longrightarrow> \<not> mhas (s_Claimed (snd d)) k" for k
    using r by (auto simp: mhas_iff_keys)
  show ?thesis
    unfolding books_kept_def claim_status_def claims_owned_def same run claim using new by blast
qed

lemma books_resume_review:
  assumes "\<And>i. tk_FetchIssueDetail tk (pv_IssueID pr) = Fetched i \<Longrightarrow> is_ID i = pv_IssueID pr"
    and "\<not> mhas (s_Claimed (snd d)) (pv_IssueID pr)"
  shows "books_kept d (resume_review f tk cfg now d k pr)"
proof -
  have clear: "books_kept x (fst x, clearPendingReview (snd x) k)" for x
    by (rule books_same) (simp_all add: clearPendingReview_def)
  show ?thesis
  proof (cases "tk_FetchIssueDetail tk (pv_IssueID pr)")
    case (Fetched issue)
    obtain d1 p where rp: "review_profile cfg d k pr = (d1, p)" by (cases "review_profile cfg d k pr")
    have d1: "fst d1 = fst d" "s_Running (snd d1) = s_Running (snd d)" "s_Claimed (snd d1) = s_Claimed (snd d)"
      "s_RetryAttempts (snd d1) = s_RetryAttempts (snd d)"
      using rp by (auto simp: review_profile_def Let_def ResetReviewChain_def split: if_splits)
    have "books_kept d1 (dispatchReviewerForIssue f cfg now d1 issue p)"
      by (rule books_reviewer) (use assms Fetched d1(3) in simp)
    moreover have "books_kept d d1" by (rule books_same) (simp_all add: d1)
    ultimately have d2: "books_kept d (dispatchReviewerForIssue f cfg now d1 issue p)" by (rule books_trans [rotated])
    show ?thesis
      using Fetched rp clear d2 books_trans [OF d2 clear] by (simp add: resume_review_def Let_def)
  qed (use clear books_refl in \<open>simp_all add: resume_review_def\<close>)
qed

lemma books_reviews:
  assumes "\<And>k i. tk_FetchIssueDetail tk k = Fetched i \<Longrightarrow> is_ID i = k"
  shows "books_kept d (resumePendingReviews f tk cfg now d)"
proof -
  have "books_kept x (resume_loop f tk cfg now x ks)" for x ks
  proof (induction ks arbitrary: x)
    case (Cons k ks)
    let ?pr = "mget_or (s_PendingReviews (snd x)) k zero_review"
    have "books_kept x (resume_review f tk cfg now x k ?pr)" if "\<not> mhas (s_Claimed (snd x)) (pv_IssueID ?pr)"
      using assms that by (rule books_resume_review)
    then show ?case
      using Cons.IH [of x] Cons.IH [of "resume_review f tk cfg now x k ?pr"] books_refl [of x]
        books_trans [of x "resume_review f tk cfg now x k ?pr"] by (simp add: Let_def)
  qed (simp add: books_refl)
  then show ?thesis
    unfolding resumePendingReviews_def Let_def using books_refl books_trans [OF books_sync] by simp
qed

lemma eligible_unclaimed: "IsEligible issue s cfg \<Longrightarrow> \<not> mhas (s_Claimed s) (is_ID issue)"
  by (auto simp: IsEligible_def IneligibleReason_def ineligibleReasonShared_def split: if_splits)

lemma books_candidate:
  assumes "dispatch_candidate env cfg now d issue = Some d'"
  shows "books_kept d d'"
proof -
  let ?d1 = "(fst d, clearBackendHold (snd d) (is_Identifier issue))"
  have d1: "books_kept d ?d1" by (rule books_same) (simp_all add: clearBackendHold_def)
  show ?thesis
  proof (cases "IsEligible issue (snd ?d1) cfg")
    case False
    then show ?thesis using assms d1 by (simp add: dispatch_candidate_def Let_def)
  next
    case True
    have "books_kept ?d1 (dispatch (le_fmt_time env) cfg now ?d1 issue 0)"
      by (rule books_dispatch) (use eligible_unclaimed [OF True] in simp)
    moreover have "books_kept ?d1 (dispatchMatchingInputRequiredAutomations (le_rules env) cfg
        (fst ?d1, (snd ?d1)\<lparr>s_InputRequiredIssues := m\<rparr>) issue entry now None)" for m entry
      by (rule books_trans [OF books_same books.rel_input_required]) simp_all
    moreover have "d' = dispatch (le_fmt_time env) cfg now ?d1 issue 0 \<or> (\<exists>m entry. d' = dispatchMatchingInputRequiredAutomations
        (le_rules env) cfg (fst ?d1, (snd ?d1)\<lparr>s_InputRequiredIssues := m\<rparr>) issue entry now None)"
      using assms True by (auto simp: dispatch_candidate_def Let_def split: option.splits)
    ultimately have "books_kept ?d1 d'" by blast
    with d1 show ?thesis by (rule books_trans)
  qed
qed

lemma books_candidates: "dispatch_candidates env cfg now issues d = Some d' \<Longrightarrow> books_kept d d'"
proof (induction issues arbitrary: d)
  case (Cons issue issues)
  show ?case
  proof (cases "AvailableSlots (snd d) \<le> 0")
    case False
    then obtain d1 where "dispatch_candidate env cfg now d issue = Some d1" "dispatch_candidates env cfg now issues d1 = Some d'"
      using Cons.prems by (auto simp: bind_eq_Some_conv)
    then show ?thesis using Cons.IH books_candidate books_trans by blast
  qed (use Cons.prems books_refl in simp)
qed (simp add: books_refl)

lemma books_audits: "books_kept d (audit_candidates env cfg now issues d)"
  unfolding audit_candidates_def
proof (induction issues arbitrary: d)
  case (Cons i issues)
  show ?case using books_trans [OF books.rel_audit_dispatch Cons.IH] by simp
qed (simp add: books_refl)

section \<open>Firing a retry\<close>

text \<open>The tracker's documented answers: an issue fetched by its ID is that issue, under its own identifier.\<close>

definition tracker_honest :: "loop_env \<Rightarrow> (string \<Rightarrow> string) \<Rightarrow> bool" where
  "tracker_honest env name \<longleftrightarrow> tracker_faithful env name \<and>
     (\<forall>k i is. tk_FetchIssueStatesByIDs (le_tracker env) [k] = Some (i # is) \<longrightarrow> is_ID i = k \<and> is_Identifier i = name k)"

text \<open>The shape of a due retry's firing: rescheduled for want of a slot, dispatched, or held and rescheduled.\<close>

lemma fire_due_shape:
  fixes env cfg now d k e issue
  defines "d1 \<equiv> fst (auditFetchedIssueDependenciesAndDispatch (le_restacker env) (le_rules env) cfg d issue now)"
  defines "d3 \<equiv> dispatch (le_fmt_time env) cfg now (fst d1, (snd d1)\<lparr>s_RetryAttempts := mdel (s_RetryAttempts (snd d1)) k\<rparr>) issue (rt_Attempt e)"
  obtains (full) msg where "AvailableSlots (snd d1) \<le> 0"
      "fire_due env cfg now d k e issue = (fst d1, ScheduleRetry (snd d1) k (rt_Attempt e) (rt_Identifier e) msg now 1000)"
  | (sent) "\<not> AvailableSlots (snd d1) \<le> 0" "fire_due env cfg now d k e issue = d3"
      "mhas (s_BackendLimitedHolds (snd d3)) (rt_Identifier e) \<Longrightarrow> mhas (s_Running (snd d3)) k"
  | (held) hold msg delay where "\<not> AvailableSlots (snd d1) \<le> 0" "mget (s_BackendLimitedHolds (snd d3)) (rt_Identifier e) = Some hold"
      "\<not> mhas (s_Running (snd d3)) k"
      "fire_due env cfg now d k e issue = (fst d3, ScheduleRetry (snd d3) k (rt_Attempt e) (rt_Identifier e) msg now delay)"
proof -
  have due: "fire_due env cfg now d k e issue = (if AvailableSlots (snd d1) \<le> 0
      then (fst d1, ScheduleRetry (snd d1) k (rt_Attempt e) (rt_Identifier e) ''no available orchestrator slots'' now 1000)
      else case mget (s_BackendLimitedHolds (snd d3)) (rt_Identifier e) of None \<Rightarrow> d3
        | Some hold \<Rightarrow> if mhas (s_Running (snd d3)) k then d3
            else (fst d3, ScheduleRetry (snd d3) k (rt_Attempt e) (rt_Identifier e)
              (''backend limited: '' @ describeHold (le_fmt_time env) hold) now (holdRetryDelay (snd d3) hold now)))"
    unfolding fire_due_def d1_def d3_def Let_def by (rule refl)
  show thesis
  proof (cases "AvailableSlots (snd d1) \<le> 0")
    case True
    then show thesis using due by (intro full) simp_all
  next
    case False
    show thesis
    proof (cases "mget (s_BackendLimitedHolds (snd d3)) (rt_Identifier e)")
      case None
      then show thesis using due False by (intro sent) (simp_all add: mhas_def)
    next
      case (Some hold)
      show thesis
      proof (cases "mhas (s_Running (snd d3)) k")
        case True
        then show thesis using due False Some by (intro sent) simp_all
      next
        case idle: False
        then show thesis using due False Some by (intro held [of hold]) simp_all
      qed
    qed
  qed
qed

text \<open>Outside dry runs and drains, an issue that is dispatched takes its claim, or is held and keeps it.\<close>

lemma fire_due_cases:
  fixes env cfg now d k e issue
  defines "d1 \<equiv> fst (auditFetchedIssueDependenciesAndDispatch (le_restacker env) (le_rules env) cfg d issue now)"
  assumes "is_ID issue = k" and "is_Identifier issue = rt_Identifier e" and "\<not> o_DryRun (fst d)"
    and "mget (s_RetryAttempts (snd d)) k = Some e" and "\<not> mhas (s_Running (snd d)) k" and "mhas (s_Claimed (snd d)) k"
  obtains (closed) "admission_closed d1" "admission_closed (fire_due env cfg now d k e issue)"
  | (rescheduled) o' s1 msg delay where "fire_due env cfg now d k e issue = (o', ScheduleRetry s1 k (rt_Attempt e) (rt_Identifier e) msg now delay)"
      "s_Running s1 = s_Running (snd d1)" "s_Claimed s1 = s_Claimed (snd d1)"
      "\<And>j. j \<noteq> k \<Longrightarrow> mget (s_RetryAttempts s1) j = mget (s_RetryAttempts (snd d1)) j" "o_started o' = o_started (fst d1)"
  | (started) d' w r where "fire_due env cfg now d k e issue = d'" "o_started (fst d') = o_started (fst d1) @ [w]"
      "ws_Issue w = issue" "ws_Attempt w = rt_Attempt e" "s_Running (snd d') = mput (s_Running (snd d1)) k r"
      "s_Claimed (snd d') = mput (s_Claimed (snd d1)) k ()" "s_RetryAttempts (snd d') = mdel (s_RetryAttempts (snd d1)) k"
proof -
  have b: "books_kept d d1" unfolding d1_def by (rule books.rel_audit_dispatch)
  have dry: "\<not> o_DryRun (fst d1)" and st: "claim_status (snd d1) k = claim_status (snd d) k"
    using b assms(4,7) unfolding books_kept_def by auto
  then have idle: "\<not> mhas (s_Running (snd d1)) k" using assms(6) by (simp add: claim_status_def)
  let ?d2 = "(fst d1, (snd d1)\<lparr>s_RetryAttempts := mdel (s_RetryAttempts (snd d1)) k\<rparr>)"
  let ?d3 = "dispatch (le_fmt_time env) cfg now ?d2 issue (rt_Attempt e)"
  note one = dispatch_one_issue [of issue ?d2 "le_fmt_time env" cfg now "rt_Attempt e"]
  have retries: "s_RetryAttempts (snd ?d3) = mdel (s_RetryAttempts (snd d1)) k" using one by (simp add: one_issue_def)
  have opened: thesis if op: "\<not> admission_closed ?d2"
    and sent: "\<not> mhas (s_Running (snd ?d3)) k \<Longrightarrow> mhas (s_BackendLimitedHolds (snd ?d3)) (rt_Identifier e) \<Longrightarrow>
      \<exists>msg delay. fire_due env cfg now d k e issue = (fst ?d3, ScheduleRetry (snd ?d3) k (rt_Attempt e) (rt_Identifier e) msg now delay)"
    and run: "mhas (s_Running (snd ?d3)) k \<Longrightarrow> fire_due env cfg now d k e issue = ?d3"
  proof -
    have dry2: "\<not> o_DryRun (fst ?d2)" using dry by simp
    consider (start) w r where "o_started (fst ?d3) = o_started (fst d1) @ [w]" "ws_Issue w = issue" "ws_Attempt w = rt_Attempt e"
        "mget (s_Running (snd ?d3)) (is_ID issue) = Some r"
      | (hold) "o_started (fst ?d3) = o_started (fst d1)" "s_Running (snd ?d3) = s_Running (snd d1)"
        "s_Claimed (snd ?d3) = s_Claimed (snd d1)" "backendHoldActive (snd ?d3) (is_Identifier issue)"
      using dispatch_outcome [OF op dry2 refl, of "le_fmt_time env" cfg now issue "rt_Attempt e"] by auto
    then show thesis
    proof cases
      case (start w r)
      then have k: "mhas (s_Running (snd ?d3)) k" using assms(2) by (simp add: mhas_def)
      obtain r' where r': "s_Running (snd ?d3) = mput (s_Running (snd d1)) k r'" "s_Claimed (snd ?d3) = mput (s_Claimed (snd d1)) k ()"
        using one k idle assms(2) by (auto simp: one_issue_def)
      show thesis by (rule started [OF run [OF k] start(1-3) r' retries])
    next
      case hold
      then have "mhas (s_BackendLimitedHolds (snd ?d3)) (rt_Identifier e)"
        using assms(3) by (auto simp: backendHoldActive_def mhas_def split: option.splits)
      then obtain msg delay where f: "fire_due env cfg now d k e issue =
          (fst ?d3, ScheduleRetry (snd ?d3) k (rt_Attempt e) (rt_Identifier e) msg now delay)"
        using sent hold(2) idle by auto
      show thesis by (rule rescheduled [OF f hold(2,3)]) (simp_all add: retries hold(1))
    qed
  qed
  have shut: "admission_closed ?d3" if "admission_closed ?d2" using worker_path.closed_starts_nothing [OF that] by blast
  show thesis
  proof (cases rule: fire_due_shape [where env = env and cfg = cfg and now = now and d = d and k = k and e = e and issue = issue, folded d1_def])
    case (1 msg)
    then show thesis by (intro rescheduled) simp_all
  next
    case 2
    show thesis
    proof (cases "admission_closed ?d2")
      case True
      then show thesis using shut [OF True] 2(2) by (intro closed) (simp_all add: admission_closed_def)
    next
      case False
      then show thesis by (rule opened) (use 2(2,3) in auto)
    qed
  next
    case (3 hold msg delay)
    show thesis
    proof (cases "admission_closed ?d2")
      case True
      then show thesis
        using shut [OF True] 3(4) by (intro closed) (simp_all add: admission_closed_def ScheduleRetry_def Let_def)
    next
      case False
      then show thesis by (rule opened) (use 3(3,4) in auto)
    qed
  qed
qed

lemma dispatch_dry [simp]: "o_DryRun (fst (dispatch f cfg now d issue attempt)) = o_DryRun (fst d)"
proof (cases rule: dispatch_cases [of d f cfg now issue attempt])
  case (held o2 s3 host g)
  then show ?thesis using prepared_fields [OF held(4,5) requests_strip(1)] by simp
next
  case (admitted o2 s3 host g)
  have "o_DryRun (fst (launch_worker d1 issue attempt g b now)) = o_DryRun (fst d1)" for d1 b
    by (simp add: launch_worker_def Let_def)
  then show ?thesis using prepared_fields [OF admitted(4,5) requests_strip(1)] by (simp add: admitted(3))
qed simp

lemma fire_due_others:
  assumes "is_ID issue = k" and "\<not> o_DryRun (fst d)" and "j \<noteq> k" and "mhas (s_Claimed (snd d)) j"
  shows "claim_status (snd (fire_due env cfg now d k e issue)) j = claim_status (snd d) j
    \<and> o_DryRun (fst (fire_due env cfg now d k e issue)) = o_DryRun (fst d)"
proof -
  let ?d1 = "fst (auditFetchedIssueDependenciesAndDispatch (le_restacker env) (le_rules env) cfg d issue now)"
  let ?d2 = "(fst ?d1, (snd ?d1)\<lparr>s_RetryAttempts := mdel (s_RetryAttempts (snd ?d1)) k\<rparr>)"
  let ?d3 = "dispatch (le_fmt_time env) cfg now ?d2 issue (rt_Attempt e)"
  have "books_kept d ?d1" by (rule books.rel_audit_dispatch)
  then have d1: "claim_status (snd ?d1) j = claim_status (snd d) j" "o_DryRun (fst ?d1) = o_DryRun (fst d)"
    using assms(2,4) unfolding books_kept_def by auto
  have d3: "claim_status (snd ?d3) j = claim_status (snd ?d1) j"
    using dispatch_one_issue [of issue ?d2 "le_fmt_time env" cfg now "rt_Attempt e"] assms(1,3)
    by (auto simp: one_issue_def claim_status_def mhas_def)
  have sched: "claim_status (ScheduleRetry s k a i m now dl) j = claim_status s j" for s a i m dl
    using assms(3) by (simp add: claim_status_def ScheduleRetry_def Let_def)
  show ?thesis
  proof (cases rule: fire_due_shape [where env = env and cfg = cfg and now = now and d = d and k = k and e = e and issue = issue])
    case (full msg)
    then show ?thesis using d1 sched by simp
  next
    case sent
    then show ?thesis using d1 d3 by simp
  next
    case (held hold msg delay)
    then show ?thesis using d1 d3 sched by simp
  qed
qed

lemma schedule_owned:
  assumes "claims_owned s" and "\<not> mhas (s_Running s) k" and "s_Running t = s_Running s" and "s_Claimed t = s_Claimed s"
    and "\<And>j. j \<noteq> k \<Longrightarrow> mget (s_RetryAttempts t) j = mget (s_RetryAttempts s) j"
  shows "claims_owned (ScheduleRetry t k a i m now dl)"
proof -
  let ?u = "ScheduleRetry t k a i m now dl"
  have "(mhas (s_Claimed ?u) j \<longleftrightarrow> mhas (s_Running ?u) j \<or> mhas (s_RetryAttempts ?u) j) \<and>
      \<not> (mhas (s_Running ?u) j \<and> mhas (s_RetryAttempts ?u) j)" for j
  proof -
    have "(mhas (s_Claimed s) j \<longleftrightarrow> mhas (s_Running s) j \<or> mhas (s_RetryAttempts s) j) \<and>
      \<not> (mhas (s_Running s) j \<and> mhas (s_RetryAttempts s) j)" using assms(1) unfolding claims_owned_def by blast
    then show ?thesis
      using assms(2) assms(5) [of j] by (cases "j = k") (simp_all add: ScheduleRetry_def Let_def assms(3,4) mhas_def)
  qed
  then show ?thesis unfolding claims_owned_def by blast
qed

lemma fire_due_owned:
  assumes "claims_owned (snd d)" and "\<not> o_DryRun (fst d)" and "is_ID issue = k" and "is_Identifier issue = rt_Identifier e"
    and "mget (s_RetryAttempts (snd d)) k = Some e" and "\<not> mhas (s_Running (snd d)) k"
  shows "admission_closed (fire_due env cfg now d k e issue) \<or> claims_owned (snd (fire_due env cfg now d k e issue))"
proof -
  let ?d1 = "fst (auditFetchedIssueDependenciesAndDispatch (le_restacker env) (le_rules env) cfg d issue now)"
  have c: "mhas (s_Claimed (snd d)) k" using assms(1,5) by (auto simp: claims_owned_def mhas_def)
  have "books_kept d ?d1" by (rule books.rel_audit_dispatch)
  then have d1: "claims_owned (snd ?d1)" "claim_status (snd ?d1) k = claim_status (snd d) k"
    using assms(1,2) c unfolding books_kept_def by auto
  show ?thesis
  proof (cases rule: fire_due_cases [OF assms(3,4,2,5,6) c, of env cfg now])
    case 1
    then show ?thesis by simp
  next
    case (2 o' s1 msg delay)
    have "\<not> mhas (s_Running (snd ?d1)) k" using d1(2) assms(6) by (simp add: claim_status_def)
    from schedule_owned [OF d1(1) this 2(2-4)] show ?thesis by (simp add: 2(1))
  next
    case (3 d' w r)
    then show ?thesis
      using d1 unfolding claims_owned_def claim_status_def by auto
  qed
qed

lemma cancel_owned:
  assumes "claims_owned s" and "\<not> mhas (s_Running s) k"
  shows "claims_owned (CancelRetry s k)"
  using assms unfolding claims_owned_def CancelRetry_def by auto

lemma honest_states:
  assumes "tracker_honest env name" and "tk_FetchIssueStatesByIDs (le_tracker env) [k] = Some (i # is)"
  shows "is_ID i = k" "is_Identifier i = name k"
  using assms unfolding tracker_honest_def by blast+

lemma fire_retry_owned:
  assumes "tracker_honest env name" and "\<forall>e. mget (s_RetryAttempts (snd d)) k = Some e \<longrightarrow> rt_Identifier e = name k"
    and "\<not> o_DryRun (fst d)" and "claims_owned (snd d)"
  shows "admission_closed (fire_retry env cfg now d k) \<or> claims_owned (snd (fire_retry env cfg now d k))"
proof (cases "mget (s_RetryAttempts (snd d)) k")
  case None
  then show ?thesis using assms(4) by (simp add: fire_retry_def)
next
  case (Some e)
  have idle: "\<not> mhas (s_Running (snd d)) k" using assms(4) Some unfolding claims_owned_def mhas_def by (metis option.distinct(1))
  note c = cancel_owned [OF assms(4) idle] and s = schedule_owned [OF assms(4) idle refl refl refl]
  show ?thesis
  proof (cases "tk_FetchIssueStatesByIDs (le_tracker env) [k]")
    case None
    then show ?thesis using Some c s assms(4) by (simp add: fire_retry_def)
  next
    case (Some issues)
    show ?thesis
    proof (cases issues)
      case Nil
      then show ?thesis using Some \<open>mget (s_RetryAttempts (snd d)) k = Some e\<close> c s assms(4) by (simp add: fire_retry_def)
    next
      case (Cons i rest)
      note h = honest_states [OF assms(1) Some [unfolded Cons]]
      have "admission_closed (fire_due env cfg now d k e i) \<or> claims_owned (snd (fire_due env cfg now d k e i))"
        using assms(2) \<open>mget (s_RetryAttempts (snd d)) k = Some e\<close> h
        by (intro fire_due_owned [OF assms(4,3) _ _ _ idle]) simp_all
      then show ?thesis
        using Cons Some \<open>mget (s_RetryAttempts (snd d)) k = Some e\<close> c s assms(4) by (simp add: fire_retry_def)
    qed
  qed
qed

lemma fire_retry_others:
  assumes "tracker_honest env name" and "\<not> o_DryRun (fst d)" and "mhas (s_Claimed (snd d)) j"
    and "j \<noteq> k \<or> \<not> mhas (s_RetryAttempts (snd d)) k"
  shows "claim_status (snd (fire_retry env cfg now d k)) j = claim_status (snd d) j"
proof (cases "j = k")
  case True
  then show ?thesis using assms(4) by (simp add: fire_retry_def mhas_def)
next
  case False
  have q: "claim_status (CancelRetry s k) j = claim_status s j" "claim_status (ScheduleRetry s k a i m now dl) j = claim_status s j" for s a i m dl
    using False by (simp_all add: claim_status_def CancelRetry_def ScheduleRetry_def Let_def)
  have "claim_status (snd (fire_due env cfg now d k e i)) j = claim_status (snd d) j"
    if "tk_FetchIssueStatesByIDs (le_tracker env) [k] = Some (i # is)" for e i "is"
    using fire_due_others [OF honest_states(1) [OF assms(1) that] assms(2) False assms(3)] by blast
  with q show ?thesis by (auto simp: fire_retry_def split: option.split list.split)
qed

lemma fire_retry_slot_admits: "slot_admits d (fire_retry env cfg now d k)"
proof -
  have quiet: "slot_admits x (fst x, ScheduleRetry (snd x) k a i m now dl)" "slot_admits x (fst x, CancelRetry (snd x) k)" for x a i m dl
    by (rule slot_admits_quiet; simp add: ScheduleRetry_def CancelRetry_def Let_def)+
  have "slot_admits d (fire_due env cfg now d k e i)" for e i
  proof -
    let ?d1 = "fst (auditFetchedIssueDependenciesAndDispatch (le_restacker env) (le_rules env) cfg d i now)"
    let ?d2 = "(fst ?d1, (snd ?d1)\<lparr>s_RetryAttempts := mdel (s_RetryAttempts (snd ?d1)) k\<rparr>)"
    let ?d3 = "dispatch (le_fmt_time env) cfg now ?d2 i (rt_Attempt e)"
    have d1: "slot_admits d ?d1" by (rule slots.rel_audit_dispatch)
    have d2: "slot_admits ?d1 ?d2" by (rule slot_admits_quiet) simp_all
    have d3: "slot_admits d ?d3" if "\<not> AvailableSlots (snd ?d1) \<le> 0"
    proof -
      obtain ws where ws: "admits ?d2 ws ?d3" "ws = [] \<or> (\<exists>w. ws = [w] \<and> ws_Issue w = i \<and> ws_Attempt w = rt_Attempt e)"
        by (rule dispatch_admits)
      have "AvailableSlots (snd ?d2) = AvailableSlots (snd ?d1)" by (simp add: AvailableSlots_def)
      then have "slot_admits ?d2 ?d3"
        using ws(2) that by (intro slot_admits_one [OF ws(1)]) auto
      from slot_admits_trans [OF d1 slot_admits_trans [OF d2 this]] show ?thesis .
    qed
    show ?thesis
    proof (cases rule: fire_due_shape [where env = env and cfg = cfg and now = now and d = d and k = k and e = e and issue = i])
      case (full msg)
      then show ?thesis using slot_admits_trans [OF d1 quiet(1)] by simp
    next
      case sent
      then show ?thesis using d3 by simp
    next
      case (held hold msg delay)
      then show ?thesis using slot_admits_trans [OF d3 [OF held(1)] quiet(1)] by simp
    qed
  qed
  then show ?thesis
    using quiet [of d] by (simp add: fire_retry_def split: option.split list.split)
qed

section \<open>Runs of the loop\<close>

text \<open>
  The steps by which the ticks change who runs and who is claimed, with any
  configuration, time and tracker answers at each step; a drain may be requested at any moment. The last
  step, the janitors, is a step only of runs that sweep.
\<close>

inductive loop_step :: "bool \<Rightarrow> daemon \<Rightarrow> daemon \<Rightarrow> bool" for sweeping where
  step_retry: "tracker_honest env name \<Longrightarrow> \<forall>e. mget (s_RetryAttempts (snd d)) k = Some e \<longrightarrow> rt_Identifier e = name k \<Longrightarrow>
    loop_step sweeping d (fire_retry env cfg now d k)"
| step_stalls: "loop_step sweeping d (fst d, rr_state (ReconcileStalls (snd d) cfg now))"
| step_tracker: "loop_step sweeping d (fst d, rr_state (reconcileTrackerStates fetch (Some pending) now (snd d)))"
| step_audit: "loop_step sweeping d (fst (auditFetchedIssueDependenciesAndDispatch restacker rules cfg d issue now))"
| step_replies: "checkTrackerReplies env cfg now d = Some d' \<Longrightarrow> loop_step sweeping d d'"
| step_resumes: "tracker_honest env name \<Longrightarrow>
    \<forall>ident e. mget (s_PendingInputResumes (snd d)) ident = Some e \<longrightarrow> ident = name (pi_IssueID e) \<Longrightarrow>
    loop_step sweeping d (processPendingInputResumes env cfg now d)"
| step_reviews: "tracker_honest env name \<Longrightarrow> loop_step sweeping d (resumePendingReviews f (le_tracker env) cfg now d)"
| step_queue: "loop_step sweeping d (drainAutomationQueueWithCandidates tracker cfg now candidates d)"
| step_automation: "loop_step sweeping d (fst (dispatchOrQueueAutomation cfg now d issue a))"
| step_candidate: "0 < AvailableSlots (snd d) \<Longrightarrow> dispatch_candidate env cfg now d issue = Some d' \<Longrightarrow> loop_step sweeping d d'"
| step_quiet: "adm s' = adm (snd d) \<Longrightarrow> loop_step sweeping d (fst d, s')"
| step_request: "loop_step sweeping d (RequestDrain (fst d), snd d)"
| step_sync: "loop_step sweeping d (syncDrainRequest d)"
| step_sweep: "sweeping \<Longrightarrow> loop_step sweeping d (fst d, janitor_pass clock now (fst d) cur prev (snd d))"

abbreviation loop_run :: "bool \<Rightarrow> daemon \<Rightarrow> daemon \<Rightarrow> bool" where
  "loop_run sweeping \<equiv> (loop_step sweeping)\<^sup>*\<^sup>*"

text \<open>Neither reconciliation pass starts a worker or changes what admission depends on.\<close>

lemma stalls_frame:
  assumes "mwf (s_Running s)" and "t = rr_state (ReconcileStalls s cfg now)"
  shows "mwf (s_Running t)" "set (mkeys (s_Running t)) \<subseteq> set (mkeys (s_Running s))"
    "s_MaxConcurrentAgents t = s_MaxConcurrentAgents s" "s_Draining t = s_Draining s"
proof -
  have "mwf (s_Running (rr_state (foldl (stall_one cfg now) r xs))) \<and>
      set (mkeys (s_Running (rr_state (foldl (stall_one cfg now) r xs)))) \<subseteq> set (mkeys (s_Running (rr_state r))) \<and>
      s_MaxConcurrentAgents (rr_state (foldl (stall_one cfg now) r xs)) = s_MaxConcurrentAgents (rr_state r) \<and>
      s_Draining (rr_state (foldl (stall_one cfg now) r xs)) = s_Draining (rr_state r)"
    if "mwf (s_Running (rr_state r))" for r xs
    using that
  proof (induction xs arbitrary: r)
    case (Cons x xs)
    obtain k e where x: "x = (k, e)" by (cases x)
    have q: "s_MaxConcurrentAgents (rr_state (stall_one cfg now r (k, e))) = s_MaxConcurrentAgents (rr_state r)"
      "s_Draining (rr_state (stall_one cfg now r (k, e))) = s_Draining (rr_state r)"
      by (simp_all add: stall_one_def stop_worker_def ScheduleRetry_def Let_def)
    have r: "mwf (s_Running (rr_state (stall_one cfg now r (k, e))))"
      "set (mkeys (s_Running (rr_state (stall_one cfg now r (k, e))))) \<subseteq> set (mkeys (s_Running (rr_state r)))"
      using Cons.prems by (auto simp: stall_one_fields(1))
    show ?case using Cons.IH [OF r(1)] r(2) q by (auto simp: x)
  qed simp
  from this [of "\<lparr>rr_state = s, rr_cancelled = [], rr_events = []\<rparr>" "s_Running s"] assms
  show "mwf (s_Running t)" "set (mkeys (s_Running t)) \<subseteq> set (mkeys (s_Running s))"
    "s_MaxConcurrentAgents t = s_MaxConcurrentAgents s" "s_Draining t = s_Draining s"
    by (simp_all add: ReconcileStalls_def Let_def)
qed

lemma tracker_frame:
  assumes "mwf (s_Running s)" and "t = rr_state (reconcileTrackerStates fetch (Some pending) clock s)"
  shows "mwf (s_Running t)" "set (mkeys (s_Running t)) \<subseteq> set (mkeys (s_Running s))"
    "s_MaxConcurrentAgents t = s_MaxConcurrentAgents s" "s_Draining t = s_Draining s"
proof -
  have fold: "mwf (s_Running (rr_state (foldl (reconcile_one byID clock) r xs))) \<and>
      s_MaxConcurrentAgents (rr_state (foldl (reconcile_one byID clock) r xs)) = s_MaxConcurrentAgents (rr_state r) \<and>
      s_Draining (rr_state (foldl (reconcile_one byID clock) r xs)) = s_Draining (rr_state r)"
    if "mwf (s_Running (rr_state r))" for byID r xs
    using that
  proof (induction xs arbitrary: r)
    case (Cons x xs)
    obtain k e where x: "x = (k, e)" by (cases x)
    have "mwf (s_Running (rr_state (reconcile_one byID clock r (k, e)))) \<and>
        s_MaxConcurrentAgents (rr_state (reconcile_one byID clock r (k, e))) = s_MaxConcurrentAgents (rr_state r) \<and>
        s_Draining (rr_state (reconcile_one byID clock r (k, e))) = s_Draining (rr_state r)"
      unfolding reconcile_one_fate using Cons.prems by (simp add: keep_worker_def stop_worker_def split: fate.split)
    then show ?case using Cons.IH [of "reconcile_one byID clock r (k, e)"] by (simp add: x)
  qed simp
  show "mwf (s_Running t)" "s_MaxConcurrentAgents t = s_MaxConcurrentAgents s" "s_Draining t = s_Draining s"
    using fold assms by (simp_all add: reconcileTrackerStates_def Let_def split: option.split)
  have "mhas (s_Running s) k" if "mhas (s_Running t) k" for k
  proof (cases "fetch (mkeys (s_Running s))")
    case None
    then show ?thesis using that by (simp add: assms(2) failed_fetch_keeps_workers)
  next
    case (Some refreshed)
    then show ?thesis
      using that tracker_pass(1) [where fetch = fetch and pending = pending and clock = clock and j = k, OF assms(1) Some refl refl]
      by (cases "mget (s_Running s) k") (simp_all add: assms(2) mhas_def)
  qed
  then show "set (mkeys (s_Running t)) \<subseteq> set (mkeys (s_Running s))" by (auto simp: mhas_iff_keys)
qed

lemma janitor_frame:
  "s_MaxConcurrentAgents (janitor_pass clock now orc cur prev s) = s_MaxConcurrentAgents s"
  "s_Draining (janitor_pass clock now orc cur prev s) = s_Draining s"
proof -
  have r: "s_MaxConcurrentAgents (foldl (record_janitor reason clock) t is) = s_MaxConcurrentAgents t"
    "s_Draining (foldl (record_janitor reason clock) t is) = s_Draining t" for reason t "is"
    using arg_cong [OF ledgers_record [of reason clock t "is"], of s_MaxConcurrentAgents]
      arg_cong [OF ledgers_record [of reason clock t "is"], of s_Draining] by (simp_all add: ledgers_def)
  have u: "s_MaxConcurrentAgents (fst (pausedCleanup t keep)) = s_MaxConcurrentAgents t \<and>
      s_Draining (fst (pausedCleanup t keep)) = s_Draining t" for t keep
  proof -
    have "s_MaxConcurrentAgents (foldl (\<lambda>s (i, k). unpause s i k) t gone) = s_MaxConcurrentAgents t \<and>
        s_Draining (foldl (\<lambda>s (i, k). unpause s i k) t gone) = s_Draining t" for gone
      by (induction gone arbitrary: t) (simp_all add: unpause_def clearPauseReason_def Let_def split_beta)
    then show ?thesis by (simp add: pausedCleanup_def Let_def)
  qed
  have t: "s_MaxConcurrentAgents (fst (pruneTerminalRuntimeLedgers clock t is)) = s_MaxConcurrentAgents t"
    "s_Draining (fst (pruneTerminalRuntimeLedgers clock t is)) = s_Draining t" for t "is"
    by (simp_all add: pruneTerminalRuntimeLedgers_def Let_def split_beta u r pruneAutomationQueue_def refreshAutomationQueueBackpressure_def)
  have a: "s_MaxConcurrentAgents (fst (pruneAbsentTrackerIssues clock t cur prev)) = s_MaxConcurrentAgents t"
    "s_Draining (fst (pruneAbsentTrackerIssues clock t cur prev)) = s_Draining t" for t
    by (simp_all add: pruneAbsentTrackerIssues_def Let_def split_beta u r pruneAutomationQueue_def refreshAutomationQueueBackpressure_def)
  show "s_MaxConcurrentAgents (janitor_pass clock now orc cur prev s) = s_MaxConcurrentAgents s"
    "s_Draining (janitor_pass clock now orc cur prev s) = s_Draining s"
    by (simp_all add: janitor_pass_def Let_def split_beta pruneReviewLedgers_def pruneFailureAcks_def expireDiscardMarkers_def
        pruneIssueStatusHistory_def pruneTerminalDependencyAudit_def t a)
qed

text \<open>A step keeps the capacity bound and starts nothing once a drain is requested.\<close>

definition safe_step :: "daemon \<Rightarrow> daemon \<Rightarrow> bool" where
  "safe_step d d' \<longleftrightarrow> s_MaxConcurrentAgents (snd d') = s_MaxConcurrentAgents (snd d) \<and> mwf (s_Running (snd d')) \<and>
     int (length (s_Running (snd d'))) \<le> max (int (length (s_Running (snd d)))) (s_MaxConcurrentAgents (snd d)) \<and>
     (admission_closed d \<longrightarrow> admission_closed d' \<and> o_started (fst d') = o_started (fst d))"

lemma safe_slot_admits:
  assumes "slot_admits d d'" and "mwf (s_Running (snd d))"
  shows "safe_step d d'"
proof -
  obtain ws where ws: "admits d ws d'" "slot_safe d d'" using assms(1) by (auto simp: slot_admits_def)
  show ?thesis
    using ws(2) admitsD [OF ws(1)] admits_closed [OF ws(1)] assms(2) unfolding safe_step_def slot_safe_def by auto
qed

lemma safe_shrink:
  assumes "mwf (s_Running (snd d))" and "mwf (s_Running t)" and "set (mkeys (s_Running t)) \<subseteq> set (mkeys (s_Running (snd d)))"
    and "s_MaxConcurrentAgents t = s_MaxConcurrentAgents (snd d)" and "s_Draining t = s_Draining (snd d)"
  shows "safe_step d (fst d, t)"
proof -
  have "length (s_Running t) \<le> length (s_Running (snd d))"
    using card_mono [OF _ assms(3)] assms(1,2) by (simp add: mwf_length)
  then show ?thesis using assms by (simp add: safe_step_def admission_closed_def)
qed

lemma safe_trans:
  assumes "safe_step d d'" and "safe_step d' d''"
  shows "safe_step d d''"
  using assms unfolding safe_step_def by auto

lemma candidate_slot_admits:
  assumes "0 < AvailableSlots (snd d)" and "dispatch_candidate env cfg now d issue = Some d'"
  shows "slot_admits d d'"
proof -
  let ?d1 = "(fst d, clearBackendHold (snd d) (is_Identifier issue))"
  have d1: "slot_admits d ?d1" by (rule slot_admits_quiet) (simp_all add: clearBackendHold_def)
  have free: "0 < AvailableSlots (snd ?d1)" using assms(1) by (simp add: AvailableSlots_pos_iff clearBackendHold_def)
  obtain ws where ws: "admits ?d1 ws (dispatch (le_fmt_time env) cfg now ?d1 issue 0)"
      "ws = [] \<or> (\<exists>w. ws = [w] \<and> ws_Issue w = issue \<and> ws_Attempt w = 0)" by (rule dispatch_admits)
  have "slot_admits ?d1 (dispatch (le_fmt_time env) cfg now ?d1 issue 0)"
    using ws(2) free by (intro slot_admits_one [OF ws(1)]) auto
  moreover have "slot_admits ?d1 (dispatchMatchingInputRequiredAutomations (le_rules env) cfg
      (fst ?d1, (snd ?d1)\<lparr>s_InputRequiredIssues := m\<rparr>) issue entry now None)" for m entry
    by (rule slot_admits_trans [OF slot_admits_quiet slots.rel_input_required]) simp_all
  moreover have "d' = ?d1 \<or> d' = dispatch (le_fmt_time env) cfg now ?d1 issue 0 \<or> (\<exists>m entry. d' = dispatchMatchingInputRequiredAutomations
      (le_rules env) cfg (fst ?d1, (snd ?d1)\<lparr>s_InputRequiredIssues := m\<rparr>) issue entry now None)"
    using assms(2) by (auto simp: dispatch_candidate_def Let_def split: option.splits if_splits)
  ultimately show ?thesis using d1 slot_admits_trans [OF d1] by blast
qed

lemma step_safe:
  assumes "loop_step sweeping d d'" and "mwf (s_Running (snd d))"
  shows "safe_step d d'"
  using assms(1)
proof cases
  case (step_retry env name k cfg now)
  then show ?thesis using safe_slot_admits [OF fire_retry_slot_admits assms(2)] by simp
next
  case (step_stalls cfg now)
  then show ?thesis using safe_shrink [OF assms(2) stalls_frame [OF assms(2) refl]] by simp
next
  case (step_tracker fetch pending now)
  then show ?thesis using safe_shrink [OF assms(2) tracker_frame [OF assms(2) refl]] by simp
next
  case (step_audit restacker rules cfg issue now)
  then show ?thesis using safe_slot_admits [OF slots.rel_audit_dispatch assms(2)] by simp
next
  case (step_replies env cfg now)
  then show ?thesis using safe_slot_admits [OF slots.rel_replies assms(2)] by simp
next
  case (step_resumes env name cfg now)
  then obtain ws where "resume_run cfg d ws d'" using faithful_resume_run [of env name d cfg now] by (auto simp: tracker_honest_def)
  then show ?thesis using safe_slot_admits [OF resume_runD(2) assms(2)] by blast
next
  case (step_reviews env name f cfg now)
  then show ?thesis using safe_slot_admits [OF resume_slot_admits assms(2)] by simp
next
  case (step_queue tracker cfg now candidates)
  then show ?thesis using safe_slot_admits [OF slots.rel_drain assms(2)] by simp
next
  case (step_automation cfg now issue a)
  then show ?thesis using safe_slot_admits [OF slots.rel_dispatchOrQueue assms(2)] by simp
next
  case (step_candidate env cfg now issue)
  then show ?thesis using safe_slot_admits [OF candidate_slot_admits assms(2)] by blast
next
  case (step_quiet s')
  then show ?thesis using safe_slot_admits [OF slots.rel_quiet assms(2)] by simp
next
  case step_request
  then show ?thesis using assms(2) by (simp add: safe_step_def RequestDrain_def admission_closed_def)
next
  case step_sync
  then show ?thesis using safe_slot_admits [OF sync_slot_admits assms(2)] by simp
next
  case (step_sweep clock now cur prev)
  then show ?thesis using assms(2) by (simp add: safe_step_def janitor_frame janitor_fields(1) admission_closed_def)
qed

lemma fire_retry_dry: "o_DryRun (fst (fire_retry env cfg now d k)) = o_DryRun (fst d)"
proof -
  have "o_DryRun (fst (fire_due env cfg now d k e i)) = o_DryRun (fst d)" for e i
  proof -
    have "books_kept d (fst (auditFetchedIssueDependenciesAndDispatch (le_restacker env) (le_rules env) cfg d i now))"
      by (rule books.rel_audit_dispatch)
    then have d1: "o_DryRun (fst (fst (auditFetchedIssueDependenciesAndDispatch (le_restacker env) (le_rules env) cfg d i now))) = o_DryRun (fst d)"
      unfolding books_kept_def by blast
    show ?thesis
      by (cases rule: fire_due_shape [where env = env and cfg = cfg and now = now and d = d and k = k and e = e and issue = i])
        (simp_all add: d1)
  qed
  then show ?thesis by (simp add: fire_retry_def split: option.split list.split)
qed

text \<open>The steps by what they do to the claims: all but the retries, the two reconciliation passes and the sweep keep the books.\<close>

lemma step_kinds:
  assumes "loop_step sweeping d d'"
  obtains (kept) "books_kept d d'"
  | (retry) env name k cfg now where "tracker_honest env name" "d' = fire_retry env cfg now d k"
      "\<forall>e. mget (s_RetryAttempts (snd d)) k = Some e \<longrightarrow> rt_Identifier e = name k"
  | (stalls) cfg now where "d' = (fst d, rr_state (ReconcileStalls (snd d) cfg now))"
  | (tracker) fetch pending now where "d' = (fst d, rr_state (reconcileTrackerStates fetch (Some pending) now (snd d)))"
  | (sweep) clock now cur prev where "sweeping" "d' = (fst d, janitor_pass clock now (fst d) cur prev (snd d))"
  using assms
proof cases
  case (step_audit restacker rules cfg issue now)
  then show thesis using kept books.rel_audit_dispatch by blast
next
  case (step_replies env cfg now)
  then show thesis using kept books.rel_replies by blast
next
  case (step_resumes env name cfg now)
  then obtain ws where "resume_run cfg d ws d'" using faithful_resume_run [of env name d cfg now] by (auto simp: tracker_honest_def)
  then show thesis using kept [OF books_resume_run] by blast
next
  case (step_reviews env name f cfg now)
  then have "books_kept d d'" by (auto simp: tracker_honest_def tracker_faithful_def intro: books_reviews)
  then show thesis by (rule kept)
next
  case (step_queue tracker cfg now candidates)
  then show thesis using kept books.rel_drain by blast
next
  case (step_automation cfg now issue a)
  then show thesis using kept books.rel_dispatchOrQueue by blast
next
  case (step_candidate env cfg now issue)
  then show thesis using kept books_candidate by blast
next
  case (step_quiet s')
  then show thesis using kept books.rel_quiet by blast
next
  case step_request
  then have "books_kept d d'" by (intro books_same) (simp_all add: RequestDrain_def)
  then show thesis by (rule kept)
next
  case step_sync
  then show thesis using kept books_sync by blast
qed (auto intro: retry stalls tracker sweep)

lemma step_dry:
  assumes "loop_step sweeping d d'"
  shows "o_DryRun (fst d') = o_DryRun (fst d)"
  using assms by (cases rule: step_kinds) (simp_all add: books_kept_def fire_retry_dry)

lemma step_books:
  assumes "loop_step False d d'" and "\<not> o_DryRun (fst d)" and "mwf (s_Running (snd d))" and "claims_owned (snd d)"
  shows "admission_closed d' \<or> claims_owned (snd d')"
  using assms(1)
proof (cases rule: step_kinds)
  case kept
  then show ?thesis using assms(2,4) unfolding books_kept_def by blast
next
  case (retry env name k cfg now)
  then show ?thesis using fire_retry_owned [OF _ _ assms(2,4)] by blast
next
  case (stalls cfg now)
  then show ?thesis using stalls_keep_claims_owned [OF assms(4,3)] by simp
next
  case (tracker fetch pending now)
  then show ?thesis using tracker_keeps_claims_owned [OF assms(4,3)] by simp
qed simp

text \<open>Outside dry runs, an issue that is claimed but has neither a worker nor a retry stays so.\<close>

lemma step_orphan:
  assumes "loop_step sweeping d d'" and "\<not> o_DryRun (fst d)" and "mwf (s_Running (snd d))"
    and "claim_status (snd d) k = (False, True, False)"
  shows "claim_status (snd d') k = (False, True, False)"
proof -
  have k: "\<not> mhas (s_Running (snd d)) k" "mhas (s_Claimed (snd d)) k" "\<not> mhas (s_RetryAttempts (snd d)) k"
    using assms(4) by (simp_all add: claim_status_def)
  then have none: "mget (s_Running (snd d)) k = None" by (simp add: mhas_def)
  from assms(1) show ?thesis
  proof (cases rule: step_kinds)
    case kept
    then show ?thesis using assms(2,4) k(2) unfolding books_kept_def by auto
  next
    case (retry env name j cfg now)
    then show ?thesis using fire_retry_others [OF retry(1) assms(2) k(2), of j cfg now] k(3) assms(4) by auto
  next
    case (stalls cfg now)
    show ?thesis
    proof (cases "0 < ag_StallTimeoutMs (cf_Agent cfg)")
      case True
      then show ?thesis
        using stalls_exact(1-3) [OF assms(3) True, where k = k and now = now] k stalls none by (simp add: claim_status_def mhas_def)
    qed (use stalls assms(4) in \<open>simp add: ReconcileStalls_def\<close>)
  next
    case (tracker fetch pending now)
    show ?thesis
    proof (cases "fetch (mkeys (s_Running (snd d)))")
      case None
      then show ?thesis using tracker assms(4) by (simp add: failed_fetch_keeps_workers)
    next
      case (Some refreshed)
      let ?t = "rr_state (reconcileTrackerStates fetch (Some pending) now (snd d))"
      have "mget (s_Running ?t) k = None" "mhas (s_Claimed ?t) k"
        using tracker_pass(1,2) [where fetch = fetch and pending = pending and clock = now and j = k, OF assms(3) Some refl refl]
          none k(2) by simp_all
      moreover have "s_RetryAttempts ?t = s_RetryAttempts (snd d)" 
        by (rule tracker_pass(3) [where fetch = fetch, OF assms(3) Some refl refl])
      ultimately show ?thesis using tracker k(3) by (simp add: claim_status_def mhas_def)
    qed
  next
    case (sweep clock now cur prev)
    then show ?thesis using k by (auto simp: claim_status_def janitor_fields mhas_iff_keys mkeep_def mkeys_def)
  qed
qed

section \<open>Properties\<close>

lemma safe_refl: "mwf (s_Running (snd d)) \<Longrightarrow> safe_step d d"
  by (simp add: safe_step_def)

lemma run_safe:
  assumes "loop_run sweeping d d'" and "mwf (s_Running (snd d))"
  shows "safe_step d d'"
  using assms(1)
proof induction
  case (step d1 d2)
  then have "mwf (s_Running (snd d1))" by (simp add: safe_step_def)
  from safe_trans [OF step.IH step_safe [OF step.hyps(2) this]] show ?case .
qed (rule safe_refl [OF assms(2)])

lemma run_dry: "loop_run sweeping d d' \<Longrightarrow> o_DryRun (fst d') = o_DryRun (fst d)"
  by (induction rule: rtranclp_induct) (simp_all add: step_dry)





text \<open>
  A review held by the backend gate is lost. The hold schedules a retry to run the reviewer once the backend is free
  again; but the issue under review is in the completion state, and when the retry comes due it is cancelled if that state
  is not an active one. No reviewer is ever started, and the reviewer's profile stays installed on the
  issue for its next dispatch.
\<close>

theorem held_review_dropped:
  assumes "d1 = dispatchReviewerForIssue f cfg now d issue p"
    and "\<not> mhas (s_RetryAttempts (snd d)) (is_ID issue)" and "mget (s_RetryAttempts (snd d1)) (is_ID issue) = Some e"
    and "\<not> mhas (s_Running (snd d1)) (is_ID issue)" and "\<not> mhas (s_PausedIdentifiers (snd d1)) (is_Identifier issue)"
    and "rt_DueAt e \<le> due"
    and "tk_FetchIssueStatesByIDs (le_tracker env) [is_ID issue] = Some (found # rest)" and "\<not> isActiveState (is_State found) (snd d1)"
    and "d2 = fire_retry env cfg' due d1 (is_ID issue)"
  shows "o_started (fst d2) = o_started (fst d) \<and> \<not> mhas (s_RetryAttempts (snd d2)) (is_ID issue)
    \<and> \<not> mhas (s_Claimed (snd d2)) (is_ID issue) \<and> \<not> mhas (s_Running (snd d2)) (is_ID issue)
    \<and> mget (o_issueProfiles (fst d2)) (is_Identifier issue) = Some p
    \<and> mhas (o_reviewerInjectedProfiles (fst d2)) (is_Identifier issue)"
proof -
  have held: "o_started (fst d1) = o_started (fst d) \<and> rt_Identifier e = is_Identifier issue
    \<and> mget (o_issueProfiles (fst d1)) (is_Identifier issue) = Some p
    \<and> mhas (o_reviewerInjectedProfiles (fst d1)) (is_Identifier issue)"
  proof (cases rule: reviewer_cases [of d f cfg now issue p])
    case refused
    then have "s_RetryAttempts (snd d1) = s_RetryAttempts (snd d)"
      by (simp add: assms(1) recordPendingReview_def syncDrainRequest_def applyDrain_def split: prod.split)
    then show ?thesis using assms(2,3) by (simp add: mhas_def)
  next
    case skipped
    then show ?thesis using assms(1-3) by (simp add: mhas_def)
  next
    case (gated profile o2 host s2 g)
    note q = prepared_fields [OF gated(2,3) requests_strip(2)]
    have "gt_held g"
      using assms(2,3) q by (auto simp: assms(1) gated(4) mhas_def launch_reviewer_def Let_def claim_and_run_def claim_issue_def
          clearPendingReview_def inject_reviewer_def split: if_splits)
    then show ?thesis
      using assms(3) q by (auto simp: assms(1) gated(4) inject_reviewer_def ScheduleRetry_def Let_def mhas_def)
  qed
  have "d2 = (fst d1, CancelRetry (snd d1) (is_ID issue))"
    using assms(3-8) held unfolding assms(9) by (simp add: fire_retry_def)
  then show ?thesis using held assms(4) by (simp add: CancelRetry_def)
qed

text \<open>A limited backend, a reviewer profile and an issue in review, which is not an active state.\<close>

definition ex_review_config :: config where
  "ex_review_config = ex_config\<lparr>cf_Agent := (cf_Agent ex_config)\<lparr>ag_Profiles :=
     [(''rev'', \<lparr>pr_Command = ''claude'', pr_Backend = [], pr_Enabled = None\<rparr>)]\<rparr>\<rparr>"

definition ex_in_review :: issue where
  "ex_in_review = (ex_issue ''A-1'')\<lparr>is_State := ''In Review''\<rparr>"

definition ex_review_env :: loop_env where
  "ex_review_env = ex_env\<lparr>le_tracker := (le_tracker ex_env)\<lparr>tk_FetchIssueStatesByIDs := (\<lambda>_. Some [ex_in_review])\<rparr>\<rparr>"

definition ex_held_review :: daemon where
  "ex_held_review = dispatchReviewerForIssue (\<lambda>_. []) ex_review_config 150 (ex_orch, ex_limited) ex_in_review ''rev''"

theorem held_review_dropped_witness:
  "o_started (fst (fire_retry ex_review_env ex_review_config (3600 * second) ex_held_review ''id-A-1'')) = []
    \<and> mget (o_issueProfiles (fst (fire_retry ex_review_env ex_review_config (3600 * second) ex_held_review ''id-A-1''))) ''A-1'' = Some ''rev''"
proof -
  have i: "is_ID ex_in_review = ''id-A-1''" "is_Identifier ex_in_review = ''A-1''" by (simp_all add: ex_in_review_def ex_issue_def)
  have "case mget (s_RetryAttempts (snd ex_held_review)) (is_ID ex_in_review) of None \<Rightarrow> False | Some e \<Rightarrow> rt_DueAt e \<le> 3600 * second"
    by code_simp
  then obtain e where e: "mget (s_RetryAttempts (snd ex_held_review)) (is_ID ex_in_review) = Some e" "rt_DueAt e \<le> 3600 * second"
    by (auto split: option.splits)
  have c: "\<not> mhas (s_RetryAttempts (snd (ex_orch, ex_limited))) (is_ID ex_in_review)"
    "\<not> mhas (s_Running (snd ex_held_review)) (is_ID ex_in_review)"
    "\<not> mhas (s_PausedIdentifiers (snd ex_held_review)) (is_Identifier ex_in_review)"
    "\<not> isActiveState (is_State ex_in_review) (snd ex_held_review)" by code_simp+
  have f: "tk_FetchIssueStatesByIDs (le_tracker ex_review_env) [is_ID ex_in_review] = Some [ex_in_review]"
    by (simp add: ex_review_env_def)
  have "o_started ex_orch = []" by (simp add: ex_orch_def)
  with held_review_dropped [OF ex_held_review_def c(1) e(1) c(2,3) e(2) f c(4) refl, of ex_review_config]
  show ?thesis by (simp add: i)
qed

end
