(* ===== verification/Worker_Exit.thy ===== *)
theory Worker_Exit
  imports Event_Loop Rate_Limited Review_Quorum
begin

text \<open>
  The end of a run (the \<open>EventWorkerExited\<close> branch of \<open>handleEvent\<close> and \<open>handleFailedExit\<close> in
  \<open>internal/orchestrator/event_loop.go\<close>): pauses and terminations by the user, success with its reviews, questions,
  stalls, and failures with their retries, fallbacks and exhaustion. What the loop keeps outside of \<open>State\<close> for these
  paths is \<open>exit_side\<close>; a goroutine or a local write that the code starts is an element of \<open>xs_tasks\<close>. The cost totals, which are floating point, are
  left out. Files that the code reads on these paths (a reviewer's verdict) and the comment keys it draws are given by \<open>exit_env\<close>.
\<close>

section \<open>Data\<close>

record run_error =
  er_text :: string
  er_canceled :: bool
  er_panic :: bool

record completed_run =
  cr_Identifier :: string
  cr_Title :: string
  cr_StartedAt :: time
  cr_FinishedAt :: time
  cr_ElapsedMs :: int
  cr_TurnCount :: int
  cr_TotalTokens :: int
  cr_InputTokens :: int
  cr_OutputTokens :: int
  cr_Status :: string
  cr_WorkerHost :: string
  cr_Backend :: string
  cr_ProfileName :: string
  cr_SessionID :: string
  cr_Kind :: string
  cr_ProjectKey :: string
  cr_AppSessionID :: string
  cr_AutomationID :: string
  cr_TriggerType :: string
  cr_CommentCount :: int

datatype loop_task =
    TrackerMove string string string nat
  | SinkMove string string string string nat
  | RetriesExhaustedComment issue string
  | LimitComment limit_comment
  | ClearWorkspace string string
  | InputRequiredComment string string string string string
  | KeylessQuestion string string string string
  | PartialHandoff string string time
  | ReviewOutcomeComment string string review_outcome "review_verdict list"
  | CancelWorker string

record exit_side =
  xs_exitsSent :: "string goset"
  xs_userCancelledIDs :: "string goset"
  xs_userTerminatedIDs :: "string goset"
  xs_transitionFailed :: "string goset"
  xs_stoppingAfterCancel :: bool
  xs_completedRuns :: "completed_run list"
  xs_commentCounts :: "(string, int) gomap"
  xs_TransportFailureCount :: int
  xs_tasks :: "loop_task list"

type_synonym loop_state = "daemon \<times> exit_side"

record exit_env =
  xe_loop :: loop_env
  xe_limitRules :: "rate_limited_automation list"
  xe_redact :: "string \<Rightarrow> string"
  xe_RateLimitErrorPatterns :: "string list"
  xe_RateLimitErrorPatternsMode :: string
  xe_TransportErrorPatterns :: "string list"
  xe_InlineInput :: bool
  xe_historyKey :: string
  xe_appSessionID :: string
  xe_hasWorkspace :: bool
  xe_readVerdict :: "string \<Rightarrow> string \<Rightarrow> review_verdict \<times> string option"
  xe_questionKey :: "string \<Rightarrow> string"
  xe_enqueueError :: "string \<Rightarrow> string option"

definition PauseReasonUserCancelled :: string where "PauseReasonUserCancelled = ''user_cancelled''"
definition PauseReasonTransitionFailed :: string where "PauseReasonTransitionFailed = ''transition_failed''"
definition PauseReasonRetriesExhausted :: string where "PauseReasonRetriesExhausted = ''retries_exhausted''"
definition maxHistory :: nat where "maxHistory = 200"

abbreviation add_task :: "exit_side \<Rightarrow> loop_task \<Rightarrow> exit_side" where
  "add_task x t \<equiv> x\<lparr>xs_tasks := xs_tasks x @ [t]\<rparr>"

definition unclaim :: "state \<Rightarrow> string \<Rightarrow> state" where
  "unclaim s k = s\<lparr>s_Claimed := mdel (s_Claimed s) k\<rparr>"

section \<open>Helpers of the exit paths\<close>

definition exitedRunIsReviewer :: "orch \<Rightarrow> run_entry option \<Rightarrow> string \<Rightarrow> bool" where
  "exitedRunIsReviewer o' liveEntry identifier =
     ((case liveEntry of Some e \<Rightarrow> ru_Kind e = ''reviewer'' | None \<Rightarrow> False) \<or> mhas (o_reviewerInjectedProfiles o') identifier)"

definition clear_injected :: "orch \<Rightarrow> string \<Rightarrow> orch" where
  "clear_injected o' identifier =
     (if mhas (o_reviewerInjectedProfiles o') identifier
      then o'\<lparr>o_issueProfiles := mdel (o_issueProfiles o') identifier,
              o_reviewerInjectedProfiles := mdel (o_reviewerInjectedProfiles o') identifier\<rparr>
      else o')"

definition abandonReviewerRun :: "daemon \<Rightarrow> run_entry option \<Rightarrow> string \<Rightarrow> daemon" where
  "abandonReviewerRun d liveEntry identifier =
     (if \<not> exitedRunIsReviewer (fst d) liveEntry identifier then d
      else (clear_injected (fst d) identifier,
            (snd d)\<lparr>s_ReviewChainIndex := mdel (s_ReviewChainIndex (snd d)) identifier\<rparr>))"

definition addCompletedRun :: "exit_side \<Rightarrow> completed_run \<Rightarrow> exit_side" where
  "addCompletedRun x run =
     (let runs = xs_completedRuns x @ [run]
      in x\<lparr>xs_completedRuns := (if length runs > maxHistory then drop (length runs - maxHistory) runs else runs)\<rparr>)"

definition history_row :: "exit_env \<Rightarrow> exit_side \<Rightarrow> run_entry option \<Rightarrow> issue \<Rightarrow> time \<Rightarrow> string \<Rightarrow> completed_run" where
  "history_row env x liveEntry issue finishedAt status =
     (let run = \<lparr>cr_Identifier = is_Identifier issue, cr_Title = is_Title issue, cr_StartedAt = finishedAt, cr_FinishedAt = finishedAt,
            cr_ElapsedMs = 0, cr_TurnCount = 0, cr_TotalTokens = 0, cr_InputTokens = 0, cr_OutputTokens = 0, cr_Status = status,
            cr_WorkerHost = [], cr_Backend = [], cr_ProfileName = [], cr_SessionID = [], cr_Kind = [], cr_ProjectKey = xe_historyKey env,
            cr_AppSessionID = xe_appSessionID env, cr_AutomationID = [], cr_TriggerType = [], cr_CommentCount = 0\<rparr>
      in case liveEntry of
           None \<Rightarrow> run
         | Some e \<Rightarrow> run\<lparr>cr_StartedAt := ru_StartedAt e,
             cr_ElapsedMs := go_div (time_sub finishedAt (ru_StartedAt e)) millisecond,
             cr_TurnCount := ru_TurnCount e, cr_TotalTokens := ru_TotalTokens e, cr_InputTokens := ru_InputTokens e,
             cr_OutputTokens := ru_OutputTokens e, cr_WorkerHost := ru_WorkerHost e, cr_Backend := ru_Backend e,
             cr_ProfileName := ru_ProfileName e, cr_Kind := ru_Kind e, cr_SessionID := ru_SessionID e,
             cr_AutomationID := ru_AutomationID e, cr_TriggerType := ru_TriggerType e,
             cr_CommentCount := max (mget_or (xs_commentCounts x) (is_Identifier issue) 0) (ru_CommentCount e)\<rparr>)"

definition recordHistory :: "exit_env \<Rightarrow> exit_side \<Rightarrow> run_entry option \<Rightarrow> issue \<Rightarrow> time \<Rightarrow> string \<Rightarrow> exit_side" where
  "recordHistory env x liveEntry issue finishedAt status =
     (addCompletedRun x (history_row env x liveEntry issue finishedAt status))
       \<lparr>xs_commentCounts := mdel (xs_commentCounts x) (is_Identifier issue)\<rparr>"

definition mark_and_start :: "time \<Rightarrow> loop_state \<Rightarrow> string \<Rightarrow> (nat \<Rightarrow> loop_task) \<Rightarrow> loop_state" where
  "mark_and_start clock ls identifier move =
     (case ls of (d, x) \<Rightarrow> case markDiscarding (snd d) identifier clock of (s, gen) \<Rightarrow> ((fst d, s), add_task x (move gen)))"

definition asyncDiscardAndTransitionTo :: "time \<Rightarrow> loop_state \<Rightarrow> string \<Rightarrow> string \<Rightarrow> string \<Rightarrow> string \<Rightarrow> loop_state" where
  "asyncDiscardAndTransitionTo clock ls issueID identifier targetState fromState =
     (if issueID = [] \<or> targetState = [] then ls
      else mark_and_start clock ls identifier (SinkMove issueID identifier targetState fromState))"

definition asyncDiscardAndTransition :: "config \<Rightarrow> time \<Rightarrow> loop_state \<Rightarrow> string \<Rightarrow> string \<Rightarrow> loop_state" where
  "asyncDiscardAndTransition cfg clock ls issueID identifier =
     (let targetState = (case tk_BacklogStates (cf_Tracker cfg) of
            b # _ \<Rightarrow> b
          | [] \<Rightarrow> (case tk_ActiveStates (cf_Tracker cfg) of a # _ \<Rightarrow> a | [] \<Rightarrow> []))
      in if issueID = [] \<or> targetState = [] then ls
         else mark_and_start clock ls identifier (TrackerMove issueID identifier targetState))"

definition scheduleWorkspaceClear :: "exit_env \<Rightarrow> exit_side \<Rightarrow> run_entry \<Rightarrow> exit_side" where
  "scheduleWorkspaceClear env x run =
     (if \<not> xe_hasWorkspace env then x
      else add_task x (ClearWorkspace (is_Identifier (ru_Issue run))
        (if ru_BranchName run \<noteq> [] then ru_BranchName run
         else ResolveWorktreeBranch (is_BranchName (ru_Issue run)) (is_Identifier (ru_Issue run)))))"

definition isRateLimitFailureCfg :: "exit_env \<Rightarrow> string \<Rightarrow> bool" where
  "isRateLimitFailureCfg env msg =
     IsRateLimitFailureWithPatternsMode msg (xe_RateLimitErrorPatterns env) (xe_RateLimitErrorPatternsMode env)"

definition classifyWorkerFailure :: "exit_env \<Rightarrow> run_error option \<Rightarrow> string" where
  "classifyWorkerFailure env err =
     (case err of
        None \<Rightarrow> ''agent error''
      | Some e \<Rightarrow>
          if er_panic e then ''worker panicked''
          else if isRateLimitFailureCfg env (er_text e) then ''rate limited''
          else if IsTransportFailure (er_text e) (xe_TransportErrorPatterns env) then ''transport error''
          else ''agent error'')"

definition worker_failure_record :: "string \<Rightarrow> string \<Rightarrow> string \<Rightarrow> time \<Rightarrow> failure_record" where
  "worker_failure_record kind identifier message now =
     \<lparr>fr_Kind = kind, fr_Identifier = identifier, fr_Source = [], fr_Message = message, fr_OccurredAt = now, fr_RecordedAt = 0, fr_Count = 0\<rparr>"

definition recordWorkerFailure :: "exit_env \<Rightarrow> state \<Rightarrow> run_entry \<Rightarrow> run_error option \<Rightarrow> int \<Rightarrow> time \<Rightarrow> state" where
  "recordWorkerFailure env s run err attempt now =
     (let ident = is_Identifier (ru_Issue run); n = itoa (attempt + 1);
          put = (\<lambda>kind msg. appendRecentFailure (xe_redact env) s (worker_failure_record kind ident msg now) now)
      in case ru_TerminalReason run of
           TerminalStalled \<Rightarrow> put FailureKindWorkerStalled
             (''worker stalled on attempt '' @ n @ '' (no agent output within the stall timeout)'')
         | TerminalRateLimited \<Rightarrow> put FailureKindWorkerFailed
             (''worker run hit a vendor usage limit on attempt '' @ n @ ''; see the issue log for details'')
         | TerminalFailed \<Rightarrow>
             if (case err of Some e \<Rightarrow> er_canceled e | None \<Rightarrow> False) then s
             else put FailureKindWorkerFailed (''worker run failed on attempt '' @ n @ '' ('' @ classifyWorkerFailure env err @
               ''); see the issue log for details'')
         | _ \<Rightarrow> s)"

definition maxRetriesExhaustedBody :: "exit_env \<Rightarrow> int \<Rightarrow> string \<Rightarrow> string" where
  "maxRetriesExhaustedBody env attempts lastErr =
     ''Itervox: maximum retries exhausted ('' @ itoa attempts @ '' attempts). Last error:'' @ blank_line @ xe_redact env lastErr @ blank_line @
     ''Retries have stopped for this run. Itervox may move the issue to failed state, pause it, or let a matching automation recover it.''"

definition markFailedHandoffPartial :: "exit_env \<Rightarrow> exit_side \<Rightarrow> run_entry \<Rightarrow> run_entry option \<Rightarrow> exit_side" where
  "markFailedHandoffPartial env x run liveEntry =
     (if \<not> xe_hasWorkspace env then x
      else let profile = (case liveEntry of Some e \<Rightarrow> if ru_ProfileName e \<noteq> [] then ru_ProfileName e else ru_ProfileName run | None \<Rightarrow> ru_ProfileName run);
               started = (case liveEntry of Some e \<Rightarrow> if \<not> isZero (ru_StartedAt e) then ru_StartedAt e else ru_StartedAt run | None \<Rightarrow> ru_StartedAt run)
           in add_task x (PartialHandoff (is_Identifier (ru_Issue run)) profile started))"

definition markStalledHandoffPartial :: "exit_env \<Rightarrow> exit_side \<Rightarrow> run_entry \<Rightarrow> exit_side" where
  "markStalledHandoffPartial env x run =
     (if \<not> xe_hasWorkspace env then x
      else add_task x (PartialHandoff (is_Identifier (ru_Issue run)) (ru_ProfileName run) (ru_StartedAt run)))"

definition runEligibleForAutoReview :: "run_entry option \<Rightarrow> bool" where
  "runEligibleForAutoReview liveEntry =
     (case liveEntry of None \<Rightarrow> False | Some e \<Rightarrow> ru_Kind e = [] \<or> ru_Kind e = ''worker'')"

definition advanceReviewChainForIssue :: "exit_env \<Rightarrow> config \<Rightarrow> time \<Rightarrow> loop_state \<Rightarrow> issue \<Rightarrow> string \<Rightarrow> loop_state" where
  "advanceReviewChainForIssue env cfg now ls issue finishedProfile =
     (let (d, x) = ls; chain = ReviewerProfileChain cfg; ident = is_Identifier issue
      in if length chain \<le> 1 \<or> \<not> mhas (s_ReviewChainIndex (snd d)) ident then ls
         else let (verdict, verdictErr) = xe_readVerdict env ident finishedProfile;
                  (s1, nxt, done) = AdvanceReviewChain (snd d) ident finishedProfile verdict verdictErr chain (ag_ReviewQuorum (cf_Agent cfg)) now
              in if \<not> done then (dispatchReviewerForIssue (le_fmt_time (xe_loop env)) cfg now (fst d, s1) issue nxt, x)
                 else ((fst d, s1), case mget (s_ReviewOutcomes s1) ident of
                     None \<Rightarrow> x
                   | Some outcome \<Rightarrow> add_task x (ReviewOutcomeComment (is_ID issue) ident outcome (mget_or (s_ReviewVerdicts s1) ident []))))"

section \<open>The branches of an exit\<close>

definition clear_resume :: "state \<Rightarrow> run_entry option \<Rightarrow> string \<Rightarrow> state" where
  "clear_resume s liveEntry identifier =
     (if (case liveEntry of Some e \<Rightarrow> ru_PendingInputResume e | None \<Rightarrow> False)
      then s\<lparr>s_PendingInputResumes := mdel (s_PendingInputResumes s) identifier\<rparr> else s)"

definition paused_session :: "config \<Rightarrow> state \<Rightarrow> issue \<Rightarrow> run_entry \<Rightarrow> paused_session_info" where
  "paused_session cfg s issue e =
     (let profileName = (if ru_ProfileName e = [] then mget_or (s_IssueProfiles s) (is_Identifier issue) [] else ru_ProfileName e);
          agent = cf_Agent cfg;
          command = (if profileName \<noteq> [] then
              (case mget (ag_Profiles agent) profileName of
                 Some p \<Rightarrow> if pr_Command p \<noteq> [] then pr_Command p else ag_Command agent
               | None \<Rightarrow> ag_Command agent)
            else ag_Command agent)
      in \<lparr>ps_IssueID = is_ID issue, ps_SessionID = ru_AgentSessionID e, ps_WorkerHost = ru_WorkerHost e, ps_Backend = ru_Backend e,
          ps_Command = command, ps_ProfileName = profileName\<rparr>)"

definition user_cancelled_exit :: "exit_env \<Rightarrow> config \<Rightarrow> time \<Rightarrow> loop_state \<Rightarrow> string \<Rightarrow> issue \<Rightarrow> run_entry option \<Rightarrow> loop_state" where
  "user_cancelled_exit env cfg now ls issueID issue liveEntry =
     (case ls of ((o', s), x) \<Rightarrow>
        let ident = is_Identifier issue;
            s1 = s\<lparr>s_PausedIdentifiers := mput (s_PausedIdentifiers s) ident (is_ID issue)\<rparr>;
            s2 = setPauseReason s1 ident (if mhas (xs_transitionFailed x) ident then PauseReasonTransitionFailed else PauseReasonUserCancelled);
            s3 = (case liveEntry of
                Some e \<Rightarrow> if ru_AgentSessionID e \<noteq> []
                  then s2\<lparr>s_PausedSessions := mput (s_PausedSessions s2) ident (paused_session cfg s2 issue e)\<rparr> else s2
              | None \<Rightarrow> s2)
        in ((o', unclaim s3 issueID),
            recordHistory env (x\<lparr>xs_transitionFailed := mdel (xs_transitionFailed x) ident\<rparr>) liveEntry issue now ''cancelled''))"

definition user_terminated_exit :: "exit_env \<Rightarrow> config \<Rightarrow> time \<Rightarrow> time \<Rightarrow> loop_state \<Rightarrow> string \<Rightarrow> issue \<Rightarrow> run_entry option \<Rightarrow> loop_state" where
  "user_terminated_exit env cfg now clock ls issueID issue liveEntry =
     (case ls of ((o', s), x) \<Rightarrow>
        asyncDiscardAndTransition cfg clock
          (abandonReviewerRun (o', unclaim (clear_resume s liveEntry (is_Identifier issue)) issueID) liveEntry (is_Identifier issue),
           recordHistory env x liveEntry issue now ''cancelled'') issueID (is_Identifier issue))"

definition finish_review :: "exit_env \<Rightarrow> config \<Rightarrow> time \<Rightarrow> loop_state \<Rightarrow> issue \<Rightarrow> run_entry option \<Rightarrow> loop_state" where
  "finish_review env cfg now ls issue liveEntry =
     (case ls of ((o', s), x) \<Rightarrow>
        let ident = is_Identifier issue;
            injected = mhas (o_reviewerInjectedProfiles o') ident;
            kind = (case liveEntry of Some e \<Rightarrow> ru_Kind e | None \<Rightarrow> []);
            profile = (case liveEntry of Some e \<Rightarrow> ru_ProfileName e | None \<Rightarrow> []);
            finishedKind = (if injected \<and> kind = [] then ''reviewer'' else kind);
            finishedProfile = (if injected \<and> profile = [] then mget_or (o_issueProfiles o') ident [] else profile)
        in if finishedKind = ''reviewer''
           then advanceReviewChainForIssue env cfg now ((clear_injected o' ident, s), x) issue finishedProfile
           else ls)"

definition succeeded_exit :: "exit_env \<Rightarrow> config \<Rightarrow> time \<Rightarrow> loop_state \<Rightarrow> string \<Rightarrow> run_entry \<Rightarrow> run_entry option \<Rightarrow> loop_state" where
  "succeeded_exit env cfg now ls issueID run liveEntry =
     (let issue = ru_Issue run; ident = is_Identifier issue; agent = cf_Agent cfg
      in case finish_review env cfg now
             ((fst (fst ls), unclaim (clear_resume (snd (fst ls)) liveEntry ident) issueID), snd ls) issue liveEntry of
           ((o1, s1), x1) \<Rightarrow>
             let o2 = o1\<lparr>o_issueBackends := mdel (o_issueBackends o1) ident\<rparr>;
                 s2 = (if mhas (s_AutoSwitchedIdentifiers s1) ident \<and> clearAutoSwitchOnSuccess cfg s1 ident now
                       then clearAutoSwitch s1 ident else s1);
                 x2 = recordHistory env x1 liveEntry issue now ''succeeded'';
                 reviewerWillRun = (ag_AutoReview agent \<and> ag_ReviewerProfile agent \<noteq> [] \<and> runEligibleForAutoReview liveEntry);
                 x3 = (if wc_AutoClearWorkspace (cf_Workspace cfg) \<and> \<not> reviewerWillRun \<and> \<not> reviewChainInFlight s2 ident
                       then scheduleWorkspaceClear env x2 run else x2);
                 chain = ReviewerProfileChain cfg
             in if \<not> reviewerWillRun then ((o2, s2), x3)
                else if length chain > 1
                then (dispatchReviewerForIssue (le_fmt_time (xe_loop env)) cfg now (o2, ResetReviewChain s2 ident) issue (chain ! 0), x3)
                else (dispatchReviewerForIssue (le_fmt_time (xe_loop env)) cfg now (o2, s2) issue (ag_ReviewerProfile agent), x3))"

definition stalled_exit :: "exit_env \<Rightarrow> time \<Rightarrow> loop_state \<Rightarrow> string \<Rightarrow> run_entry \<Rightarrow> run_error option \<Rightarrow> int \<Rightarrow> run_entry option \<Rightarrow> loop_state" where
  "stalled_exit env now ls issueID run err attempt liveEntry =
     (case ls of ((o', s), x) \<Rightarrow>
        let issue = ru_Issue run;
            d1 = (o', recordWorkerFailure env s run err attempt now);
            d2 = (if mhas (s_RetryAttempts (snd d1)) issueID then d1 else abandonReviewerRun d1 liveEntry (is_Identifier issue))
        in (d2, markStalledHandoffPartial env (recordHistory env x (Some run) issue now ''stalled'') run))"

definition live_counts :: "run_entry \<Rightarrow> run_entry \<Rightarrow> run_entry" where
  "live_counts run e =
     (let e1 = (if ru_TurnCount run > 0 then e\<lparr>ru_TurnCount := ru_TurnCount run\<rparr> else e);
          e2 = (if ru_TotalTokens run > 0 then e1\<lparr>ru_TotalTokens := ru_TotalTokens run, ru_InputTokens := ru_InputTokens run,
                  ru_OutputTokens := ru_OutputTokens run\<rparr> else e1)
      in if ru_SessionID run \<noteq> [] then e2\<lparr>ru_SessionID := ru_SessionID run\<rparr> else e2)"

definition input_required_exit ::
  "exit_env \<Rightarrow> config \<Rightarrow> time \<Rightarrow> loop_state \<Rightarrow> string \<Rightarrow> run_entry \<Rightarrow> input_required_entry option \<Rightarrow> run_entry option \<Rightarrow> loop_state" where
  "input_required_exit env cfg now ls issueID run entry liveEntry =
     (case ls of ((o', s), x) \<Rightarrow>
        let issue = ru_Issue run; ident = is_Identifier issue;
            s1 = clear_resume (unclaim s issueID) liveEntry ident
        in case entry of
             None \<Rightarrow> ((o', s1), x)
           | Some e0 \<Rightarrow>
               let key = xe_questionKey env ident;
                   e = e0\<lparr>ir_QuestionCommentKey := key\<rparr>;
                   live = map_option ((live_counts run)\<circ>(\<lambda>l. l\<lparr>ru_PendingInputResume := False\<rparr>)) liveEntry;
                   body = MarkManagedComment (buildInputRequiredComment (Some e) (xe_InlineInput env));
                   x1 = (case xe_enqueueError env ident of
                       None \<Rightarrow> add_task x (InputRequiredComment (ir_IssueID e) ident key body ''question'')
                     | Some _ \<Rightarrow> add_task x (KeylessQuestion (ir_IssueID e) ident key body));
                   d2 = (o', s1\<lparr>s_InputRequiredIssues := mput (s_InputRequiredIssues s1) ident e\<rparr>)
               in (dispatchMatchingInputRequiredAutomations (le_rules (xe_loop env)) cfg d2 issue e now live,
                   recordHistory env x1 live issue now ''input_required''))"

definition stack_unavailable_exit :: "loop_state \<Rightarrow> string \<Rightarrow> run_entry \<Rightarrow> loop_state" where
  "stack_unavailable_exit ls issueID run =
     (case ls of ((o', s), x) \<Rightarrow>
        let s1 = unclaim s issueID; key = reviewStackKey (ru_Issue run) s1
        in ((o', if key \<noteq> [] then s1\<lparr>s_StackUnavailable := mput (s_StackUnavailable s1) (is_Identifier (ru_Issue run)) key\<rparr> else s1), x))"

section \<open>Failures\<close>

definition canceled_exit ::
  "exit_env \<Rightarrow> time \<Rightarrow> loop_state \<Rightarrow> string \<Rightarrow> run_entry \<Rightarrow> run_entry option \<Rightarrow> loop_state" where
  "canceled_exit env now ls issueID run liveEntry =
     (case ls of (d, x) \<Rightarrow>
        let d1 = (if mhas (s_RetryAttempts (snd d)) issueID then d
                  else abandonReviewerRun (fst d, unclaim (snd d) issueID) liveEntry (is_Identifier (ru_Issue run)))
        in (d1, if xs_stoppingAfterCancel x
                then recordHistory env (markFailedHandoffPartial env x run liveEntry) liveEntry (ru_Issue run) now ''cancelled'' else x))"

text \<open>The first-failure fallback of a vendor limit; the flag says whether the exit is settled.\<close>

definition limited_exit ::
  "exit_env \<Rightarrow> config \<Rightarrow> time \<Rightarrow> loop_state \<Rightarrow> string \<Rightarrow> run_entry \<Rightarrow> limit_signal option \<Rightarrow> string \<Rightarrow> int \<Rightarrow> run_entry option \<Rightarrow> loop_state \<times> bool" where
  "limited_exit env cfg now ls issueID run limit errMsg attempt liveEntry =
     (case ls of ((o', s), x) \<Rightarrow>
        let issue = ru_Issue run; ident = is_Identifier issue;
            s1 = (case liveEntry of
                Some e \<Rightarrow> fst (recordBackendLimit cfg s (ru_Backend e) (ru_WorkerHost e) ident limit now)
              | None \<Rightarrow> s);
            covered = (case liveEntry of
                Some e \<Rightarrow> backendFallbackCovers cfg (operatorPinnedBackend o' ident) (ru_ProfileName e) (ru_Backend e)
              | None \<Rightarrow> False)
        in if covered
           then ((dispatch (le_fmt_time (xe_loop env)) cfg now (o', unclaim s1 issueID) issue attempt,
                  recordHistory env x liveEntry issue now ''failed''), True)
           else if exitedRunIsReviewer o' liveEntry ident then (((o', s1), x), False)
           else let r = dispatchRateLimitedFallback (xe_limitRules env) cfg (o', unclaim s1 issueID) issue liveEntry now errMsg (attempt + 1) None;
                    x1 = x\<lparr>xs_tasks := xs_tasks x @ map LimitComment (lr_comments r)\<rparr>
                in if lr_queued r > 0 then ((lr_daemon r, recordHistory env x1 liveEntry issue now ''failed''), True)
                   else ((lr_daemon r, x1), False))"

text \<open>Retries are exhausted: recover through a rate-limit rule, move to the failed state, or pause.\<close>

definition park_exhausted :: "exit_env \<Rightarrow> config \<Rightarrow> time \<Rightarrow> loop_state \<Rightarrow> string \<Rightarrow> run_entry \<Rightarrow> nat \<Rightarrow> loop_state" where
  "park_exhausted env cfg clock ls issueID run rateLimitedQueued =
     (let issue = ru_Issue run; ident = is_Identifier issue; failedState = tk_FailedState (cf_Tracker cfg)
      in if rateLimitedQueued > 0 then ls
         else if failedState \<noteq> []
         then case asyncDiscardAndTransitionTo clock ls issueID ident failedState (is_State issue) of (d, x) \<Rightarrow>
                (d, if wc_AutoClearWorkspace (cf_Workspace cfg) then scheduleWorkspaceClear env x run else x)
         else case ls of ((o', s), x) \<Rightarrow>
                ((o', setPauseReason (s\<lparr>s_PausedIdentifiers := mput (s_PausedIdentifiers s) ident (is_ID issue)\<rparr>) ident PauseReasonRetriesExhausted), x))"

definition exhausted_exit ::
  "exit_env \<Rightarrow> config \<Rightarrow> time \<Rightarrow> time \<Rightarrow> loop_state \<Rightarrow> string \<Rightarrow> run_entry \<Rightarrow> limit_signal option \<Rightarrow> string \<Rightarrow> int \<Rightarrow> bool \<Rightarrow> run_entry option \<Rightarrow> loop_state" where
  "exhausted_exit env cfg now clock ls issueID run limit errMsg attempt limitSwitchTried liveEntry =
     (case ls of ((o', s), x) \<Rightarrow>
        let issue = ru_Issue run; ident = is_Identifier issue;
            body = maxRetriesExhaustedBody env attempt errMsg;
            x1 = (if IsTransportFailure errMsg (xe_TransportErrorPatterns env)
                  then x\<lparr>xs_TransportFailureCount := xs_TransportFailureCount x + 1\<rparr> else x);
            rateLimited = ((isRateLimitFailureCfg env errMsg \<or> Terminal limit) \<and> \<not> limitSwitchTried \<and> \<not> exitedRunIsReviewer o' liveEntry ident);
            r = (if rateLimited
                 then dispatchRateLimitedFallback (xe_limitRules env) cfg (o', unclaim s issueID) issue liveEntry now errMsg (attempt + 1) (Some body)
                 else \<lparr>lr_daemon = (o', unclaim s issueID), lr_queued = 0, lr_folded = False, lr_comments = []\<rparr>);
            x2 = x1\<lparr>xs_tasks := xs_tasks x1 @ map LimitComment (lr_comments r) @
                   (if lr_folded r then [] else [RetriesExhaustedComment issue body])\<rparr>;
            d2 = dispatchMatchingRunFailedAutomations (le_rules (xe_loop env)) cfg (lr_daemon r) issue now errMsg (attempt + 1)
        in case park_exhausted env cfg clock (d2, x2) issueID run (lr_queued r) of (d3, x3) \<Rightarrow>
             (abandonReviewerRun d3 liveEntry ident, recordHistory env x3 liveEntry issue now ''failed''))"

definition retry_exit ::
  "exit_env \<Rightarrow> config \<Rightarrow> time \<Rightarrow> loop_state \<Rightarrow> string \<Rightarrow> run_entry \<Rightarrow> limit_signal option \<Rightarrow> string \<Rightarrow> int \<Rightarrow> run_entry option \<Rightarrow> loop_state" where
  "retry_exit env cfg now ls issueID run limit errMsg attempt liveEntry =
     (case ls of ((o', s), x) \<Rightarrow>
        let backoff = max (BackoffMs (attempt + 1) (ag_MaxRetryBackoffMs (cf_Agent cfg))) (vendorRetryDelayMs limit now)
        in ((o', ScheduleRetry s issueID (attempt + 1) (is_Identifier (ru_Issue run)) errMsg now backoff),
            recordHistory env x liveEntry (ru_Issue run) now ''failed''))"

definition handleFailedExit ::
  "exit_env \<Rightarrow> config \<Rightarrow> time \<Rightarrow> time \<Rightarrow> loop_state \<Rightarrow> string \<Rightarrow> run_entry \<Rightarrow> run_error option \<Rightarrow> limit_signal option \<Rightarrow> run_entry option \<Rightarrow> loop_state" where
  "handleFailedExit env cfg now clock ls issueID run err limit liveEntry =
     (let attempt = (case ru_RetryAttempt run of Some n \<Rightarrow> n | None \<Rightarrow> 0)
      in if (case err of Some e \<Rightarrow> er_canceled e | None \<Rightarrow> False) then canceled_exit env now ls issueID run liveEntry
         else case ls of ((o', s), x) \<Rightarrow>
           let ls1 = ((o', recordWorkerFailure env s run err attempt now), markFailedHandoffPartial env x run liveEntry);
               errMsg = (case err of Some e \<Rightarrow> er_text e | None \<Rightarrow> []);
               tried = (ru_TerminalReason run = TerminalRateLimited);
               (ls2, settled) = (if tried then limited_exit env cfg now ls1 issueID run limit errMsg attempt liveEntry else (ls1, False));
               maxRetries = ag_MaxRetries (cf_Agent cfg)
           in if settled then ls2
              else if maxRetries > 0 \<and> attempt + 1 > maxRetries
              then exhausted_exit env cfg now clock ls2 issueID run limit errMsg attempt tried liveEntry
              else retry_exit env cfg now ls2 issueID run limit errMsg attempt liveEntry)"

section \<open>The exit of a worker\<close>

record exit_event =
  xv_IssueID :: string
  xv_RunEntry :: "run_entry option"
  xv_Error :: "run_error option"
  xv_InputRequiredEntry :: "input_required_entry option"
  xv_Limit :: "limit_signal option"

definition take_marks :: "exit_side \<Rightarrow> string \<Rightarrow> string \<Rightarrow> exit_side" where
  "take_marks x issueID ident =
     x\<lparr>xs_exitsSent := mdel (xs_exitsSent x) issueID, xs_tasks := xs_tasks x @ [CancelWorker ident],
       xs_userCancelledIDs := mdel (xs_userCancelledIDs x) ident, xs_userTerminatedIDs := mdel (xs_userTerminatedIDs x) ident\<rparr>"

definition settle_exit ::
  "exit_env \<Rightarrow> config \<Rightarrow> time \<Rightarrow> time \<Rightarrow> loop_state \<Rightarrow> exit_event \<Rightarrow> run_entry \<Rightarrow> bool \<Rightarrow> bool \<Rightarrow> run_entry option \<Rightarrow> loop_state" where
  "settle_exit env cfg now clock ls ev run wasCancelledByUser wasTerminatedByUser liveEntry =
     (let issueID = xv_IssueID ev; issue = ru_Issue run; attempt = (case ru_RetryAttempt run of Some n \<Rightarrow> n | None \<Rightarrow> 0)
      in if wasCancelledByUser then user_cancelled_exit env cfg now ls issueID issue liveEntry
         else if wasTerminatedByUser then user_terminated_exit env cfg now clock ls issueID issue liveEntry
         else case ru_TerminalReason run of
             TerminalCanceledByReconciliation \<Rightarrow> ((fst (fst ls), unclaim (snd (fst ls)) issueID), snd ls)
           | TerminalSucceeded \<Rightarrow> succeeded_exit env cfg now ls issueID run liveEntry
           | TerminalStalled \<Rightarrow> stalled_exit env now ls issueID run (xv_Error ev) attempt liveEntry
           | TerminalInputRequired \<Rightarrow> input_required_exit env cfg now ls issueID run (xv_InputRequiredEntry ev) liveEntry
           | TerminalStackUnavailable \<Rightarrow> stack_unavailable_exit ls issueID run
           | _ \<Rightarrow> handleFailedExit env cfg now clock ls issueID run (xv_Error ev) (xv_Limit ev) liveEntry)"

definition worker_exited :: "exit_env \<Rightarrow> config \<Rightarrow> time \<Rightarrow> time \<Rightarrow> loop_state \<Rightarrow> exit_event \<Rightarrow> loop_state" where
  "worker_exited env cfg now clock ls ev =
     (case ls of ((o', s), x) \<Rightarrow>
        let issueID = xv_IssueID ev;
            liveEntry = mget (s_Running s) issueID;
            s1 = s\<lparr>s_Running := mdel (s_Running s) issueID\<rparr>
        in case xv_RunEntry ev of
             None \<Rightarrow> ((o', s1), x\<lparr>xs_exitsSent := mdel (xs_exitsSent x) issueID\<rparr>)
           | Some run \<Rightarrow>
               let ident = is_Identifier (ru_Issue run);
                   s2 = fst (settleBackendProbe s1 liveEntry ident (ru_TerminalReason run))
               in settle_exit env cfg now clock ((o', s2), take_marks x issueID ident) ev run
                    (mhas (xs_userCancelledIDs x) ident) (mhas (xs_userTerminatedIDs x) ident) liveEntry)"

section \<open>What the bookkeeping leaves alone\<close>

lemma mdel_absent: "\<not> mhas m k \<Longrightarrow> mdel m k = m"
  by (simp add: mdel_def mhas_iff_keys mkeys_def AList.delete_id)

lemma adm_exit_books [simp]:
  "adm (setPauseReason s i r) = adm s" "adm (clear_resume s live i) = adm s" "adm (fst (markDiscarding s i t)) = adm s"
  "adm (recordWorkerFailure env s run err a now) = adm s" "adm (clearAutoSwitch s i) = adm s" "adm (ResetReviewChain s i) = adm s"
  "adm (s\<lparr>s_ReviewChainIndex := m\<rparr>) = adm s" "adm (s\<lparr>s_PausedIdentifiers := pm\<rparr>) = adm s" "adm (s\<lparr>s_PausedSessions := pss\<rparr>) = adm s"
  "adm (s\<lparr>s_InputRequiredIssues := im\<rparr>) = adm s" "adm (s\<lparr>s_StackUnavailable := sm\<rparr>) = adm s"
  by (simp_all add: adm_def setPauseReason_def clear_resume_def markDiscarding_def recordWorkerFailure_def clearAutoSwitch_def
      ResetReviewChain_def appendRecentFailure_def Let_def split: terminal_reason.split)

lemma adm_limit_books [simp]:
  "adm (fst (recordBackendLimit cfg s b h i sig now)) = adm s" "adm (fst (settleBackendProbe s live i reason)) = adm s"
  by (simp_all add: adm_def recordBackendLimit_def settleBackendProbe_def Let_def split: option.split)

lemma adm_advance [simp]: "adm (fst (AdvanceReviewChain s i p v e chain q now)) = adm s"
  by (simp add: adm_def AdvanceReviewChain_def Let_def)

lemma adm_unclaim: "adm t = adm s \<Longrightarrow> adm (unclaim t k) = adm (unclaim s k)"
  by (simp add: adm_def unclaim_def)

lemma owned_adm:
  assumes "adm t = adm s"
  shows "claims_owned t = claims_owned s"
  unfolding claims_owned_def admD [OF assms] ..

lemma adm_abandon [simp]: "adm (snd (abandonReviewerRun d live i)) = adm (snd d)"
  by (simp add: abandonReviewerRun_def)

lemma dry_abandon [simp]: "o_DryRun (fst (abandonReviewerRun d live i)) = o_DryRun (fst d)"
  by (simp add: abandonReviewerRun_def clear_injected_def)

lemma adm_moves [simp]:
  "adm (snd (fst (asyncDiscardAndTransitionTo clock ls k i target source))) = adm (snd (fst ls))"
  "adm (snd (fst (asyncDiscardAndTransition cfg clock ls k i))) = adm (snd (fst ls))"
  by (simp_all add: asyncDiscardAndTransitionTo_def asyncDiscardAndTransition_def mark_and_start_def markDiscarding_def adm_def Let_def
      split: prod.split)

section \<open>Claims across an exit\<close>

text \<open>An issue that has lost its run: every other claim has its owner, and nothing owns this one.\<close>

definition owed :: "string \<Rightarrow> state \<Rightarrow> bool" where
  "owed k s \<longleftrightarrow> \<not> mhas (s_Running s) k \<and> \<not> mhas (s_RetryAttempts s) k \<and>
     (\<forall>j. j \<noteq> k \<longrightarrow> (mhas (s_Claimed s) j \<longleftrightarrow> mhas (s_Running s) j \<or> mhas (s_RetryAttempts s) j) \<and>
       \<not> (mhas (s_Running s) j \<and> mhas (s_RetryAttempts s) j))"

lemma owed_adm:
  assumes "adm t = adm s"
  shows "owed k t = owed k s"
  unfolding owed_def admD [OF assms] ..

lemma owed_unclaim [simp]: "owed k (unclaim s k) = owed k s"
  by (simp add: owed_def unclaim_def)

lemma owed_released: "owed k s \<Longrightarrow> claims_owned (unclaim s k)"
  by (auto simp: owed_def claims_owned_def unclaim_def)

lemma owed_scheduled: "owed k s \<Longrightarrow> claims_owned (ScheduleRetry s k a i m now dl)"
  by (auto simp: owed_def claims_owned_def ScheduleRetry_def Let_def)

lemma exit_owes:
  assumes "claims_owned s" and "\<not> mhas (s_RetryAttempts s) k"
  shows "owed k (s\<lparr>s_Running := mdel (s_Running s) k\<rparr>)"
  using assms by (auto simp: owed_def claims_owned_def)

lemma released_books:
  assumes "owed k s" and "\<not> o_DryRun o'" and "books_kept (o', unclaim s k) d"
  shows "claims_owned (snd d)"
  using assms owed_released [OF assms(1)] by (simp add: books_kept_def)

lemma unclaimed [simp]: "\<not> mhas (s_Claimed (unclaim s k)) k"
  by (simp add: unclaim_def)

text \<open>The ledger of claims; a rule that is not accepted leaves it alone.\<close>

definition ledger :: "state \<Rightarrow> (string, run_entry) gomap \<times> string goset \<times> (string, retry_entry) gomap" where
  "ledger s = (s_Running s, s_Claimed s, s_RetryAttempts s)"

lemma ledger_adm: "adm t = adm s \<Longrightarrow> ledger t = ledger s"
  by (simp add: adm_def ledger_def)

lemma owed_ledger: "ledger t = ledger s \<Longrightarrow> owed k t = owed k s"
  by (simp add: owed_def ledger_def)

lemma ledger_sync: "ledger (snd (syncDrainRequest d)) = ledger (snd d)"
  by (simp add: ledger_def syncDrainRequest_def applyDrain_def split: prod.split)

lemma ledger_queue: "ledger (snd (fst (queue_automation d issue a reason now))) = ledger (snd d)"
  using ledger_adm [OF adm_enqueue, of "snd d" issue a reason now]
  by (cases "enqueueAutomation (snd d) issue a reason now") (simp add: queue_automation_def)

lemma ledger_not_started:
  assumes "startAutomationRunOrHold cfg now d issue a = (d', r)" and "r \<noteq> Started"
  shows "ledger (snd d') = ledger (snd d)"
proof (cases rule: start_cases [of cfg now d issue a])
  case (nothing d1)
  then show ?thesis using assms(1) ledger_sync [of d] by auto
next
  case (gated profile o2 host s2 g)
  note q = prepared_fields [OF gated(5,6) requests_strip(2)]
  show ?thesis using gated(7) assms q by (auto simp: ledger_def split: if_splits)
qed

lemma ledger_refused:
  assumes "dispatchOrQueueAutomation cfg now d issue a = (d', False)"
  shows "ledger (snd d') = ledger (snd d)"
proof -
  obtain s1 fresh where c: "claimPROpenedDedup (snd d) issue a = (s1, fresh)" by (cases "claimPROpenedDedup (snd d) issue a")
  let ?s2 = "clear_switched_pause s1 issue a"
  obtain d1 r where st: "startAutomationRunOrHold cfg now (fst d, ?s2) issue a = (d1, r)"
    by (cases "startAutomationRunOrHold cfg now (fst d, ?s2) issue a")
  have s1: "ledger s1 = ledger (snd d)" "ledger ?s2 = ledger (snd d)"
    using adm_claim_dedup [of "snd d" issue a] c by (intro ledger_adm; simp)+
  have d1: "r \<noteq> Started \<Longrightarrow> ledger (snd d1) = ledger (snd d)" using ledger_not_started [OF st] s1 by simp
  have q: "queue_automation e issue a x now = (d', False) \<Longrightarrow> ledger (snd d') = ledger (snd e)" for e x
    using ledger_queue [of e issue a x now] by simp
  show ?thesis
    using assms unfolding dispatchOrQueueAutomation_def Let_def c prod.case st
    by (cases r) (use d1 in \<open>auto simp: s1 dest!: q split: if_splits\<close>)
qed

lemma ledger_try_rule:
  assumes "lr_queued (try_rule cfg issue now f ex r rule) = 0"
  shows "lr_queued r = 0 \<and> ledger (snd (lr_daemon (try_rule cfg issue now f ex r rule))) = ledger (snd (lr_daemon r))"
proof -
  let ?d = "lr_daemon r"
  obtain s1 ok where a: "allowRateLimitSwitch cfg (snd ?d) (is_ID issue) now = (s1, ok)"
    by (cases "allowRateLimitSwitch cfg (snd ?d) (is_ID issue) now")
  obtain s2 cl where c: "claimRateLimitCapComment cfg s1 (is_ID issue) now = (s2, cl)"
    by (cases "claimRateLimitCapComment cfg s1 (is_ID issue) now")
  obtain d1 q where dq: "dispatchOrQueueAutomation cfg now (fst ?d, s1) issue (rate_limited_dispatch issue now f rule) = (d1, q)"
    by (cases "dispatchOrQueueAutomation cfg now (fst ?d, s1) issue (rate_limited_dispatch issue now f rule)")
  have s1: "ledger s1 = ledger (snd ?d)" and s2: "ledger s2 = ledger (snd ?d)"
    using adm_allow [of cfg "snd ?d" "is_ID issue" now] adm_claim_comment [of cfg s1 "is_ID issue" now] a c
    by (auto intro!: ledger_adm)
  have d1: "\<not> q \<Longrightarrow> ledger (snd d1) = ledger (snd ?d)" using ledger_refused [of cfg now "(fst ?d, s1)"] dq s1 by simp
  show ?thesis
    using assms unfolding try_rule_def Let_def a prod.case c dq
    by (cases ok; cases q) (simp_all add: s1 s2 d1 accept_rule_def Let_def split: if_splits)
qed

lemma ledger_fallback:
  assumes "lr_queued (dispatchRateLimitedFallback rules cfg d issue live now msg a ex) = 0"
  shows "ledger (snd (lr_daemon (dispatchRateLimitedFallback rules cfg d issue live now msg a ex))) = ledger (snd d)"
proof -
  have fold: "lr_queued r = 0 \<and> ledger (snd (lr_daemon (foldl (try_rule cfg issue now f ex) r rules))) = ledger (snd (lr_daemon r))"
    if "lr_queued (foldl (try_rule cfg issue now f ex) r rules) = 0" for f r
    using that
  proof (induction rules arbitrary: r)
    case (Cons rule rules)
    let ?r = "try_rule cfg issue now f ex r rule"
    have "lr_queued ?r = 0 \<and> ledger (snd (lr_daemon (foldl (try_rule cfg issue now f ex) ?r rules))) = ledger (snd (lr_daemon ?r))"
      using Cons.IH [of ?r] Cons.prems by simp
    with ledger_try_rule [of cfg issue now f ex r rule] show ?case by simp
  qed simp
  from conjunct2 [OF fold] show ?thesis using assms
    by (simp add: dispatchRateLimitedFallback_def Let_def dispatchMatchingRateLimitedAutomationsNote_def)
qed

lemma released_adm:
  assumes "owed k s" and "adm t = adm (unclaim s k)"
  shows "claims_owned t"
  using owed_released [OF assms(1)] owned_adm [OF assms(2)] by simp

lemma books_abandon: "books_kept d (abandonReviewerRun d live i)"
  by (rule books_same) (use admD [OF adm_abandon [of d live i]] in simp_all)

lemma books_advance:
  assumes "\<not> mhas (s_Claimed (snd d)) (is_ID issue)"
  shows "books_kept d (fst (advanceReviewChainForIssue env cfg now (d, x) issue p))"
proof -
  let ?i = "is_Identifier issue"
  obtain v ve where v: "xe_readVerdict env ?i p = (v, ve)" by (cases "xe_readVerdict env ?i p")
  obtain s1 nxt fin where a: "AdvanceReviewChain (snd d) ?i p v ve (ReviewerProfileChain cfg) (ag_ReviewQuorum (cf_Agent cfg)) now = (s1, nxt, fin)"
    by (cases "AdvanceReviewChain (snd d) ?i p v ve (ReviewerProfileChain cfg) (ag_ReviewQuorum (cf_Agent cfg)) now") auto
  have s1: "adm s1 = adm (snd d)"
    using adm_advance [of "snd d" ?i p v ve "ReviewerProfileChain cfg" "ag_ReviewQuorum (cf_Agent cfg)" now] by (simp add: a)
  then have "books_kept d (fst d, s1)" by (rule books.rel_quiet)
  moreover have "books_kept (fst d, s1) (dispatchReviewerForIssue (le_fmt_time (xe_loop env)) cfg now (fst d, s1) issue nxt)"
    by (rule books_reviewer) (simp add: assms admD(2) [OF s1])
  ultimately have "books_kept d (dispatchReviewerForIssue (le_fmt_time (xe_loop env)) cfg now (fst d, s1) issue nxt)"
    by (rule books_trans)
  with \<open>books_kept d (fst d, s1)\<close> show ?thesis
    unfolding advanceReviewChainForIssue_def Let_def v prod.case a using books_refl by (simp split: if_split)
qed

lemma books_finish_review:
  assumes "\<not> mhas (s_Claimed (snd d)) (is_ID issue)"
  shows "books_kept d (fst (finish_review env cfg now (d, x) issue live))"
proof -
  let ?i = "is_Identifier issue"
  have inj: "books_kept d (clear_injected (fst d) ?i, snd d)" by (rule books_same) (simp_all add: clear_injected_def)
  from books_trans [OF inj books_advance] assms
  have "books_kept d (fst (advanceReviewChainForIssue env cfg now ((clear_injected (fst d) ?i, snd d), x) issue p))" for p
    by simp
  then show ?thesis using books_refl by (cases d) (simp add: finish_review_def Let_def)
qed

lemma user_cancelled_owned:
  assumes "owed k s"
  shows "claims_owned (snd (fst (user_cancelled_exit env cfg now ((o', s), x) k issue live)))"
  by (rule released_adm [OF assms]) (auto simp: user_cancelled_exit_def Let_def intro!: adm_unclaim split: option.split)

lemma user_terminated_owned:
  assumes "owed k s"
  shows "claims_owned (snd (fst (user_terminated_exit env cfg now clock ((o', s), x) k issue live)))"
  by (rule released_adm [OF assms]) (auto simp: user_terminated_exit_def intro!: adm_unclaim)

lemma stack_unavailable_owned:
  assumes "owed k s"
  shows "claims_owned (snd (fst (stack_unavailable_exit ((o', s), x) k run)))"
  by (rule released_adm [OF assms]) (simp add: stack_unavailable_exit_def Let_def)

lemma input_required_owned:
  assumes "owed k s" and "\<not> o_DryRun o'"
  shows "claims_owned (snd (fst (input_required_exit env cfg now ((o', s), x) k run entry live)))"
proof (cases entry)
  case None
  show ?thesis by (rule released_adm [OF assms(1)]) (simp add: input_required_exit_def None Let_def)
next
  case (Some e)
  show ?thesis
    by (rule released_books [OF assms], simp add: input_required_exit_def Some Let_def)
      (rule books_trans [OF books_same books.rel_input_required], simp_all add: clear_resume_def)
qed

lemma succeeded_owned:
  assumes "owed k s" and "\<not> o_DryRun o'" and "is_ID (ru_Issue run) = k"
    and "\<And>e. live = Some e \<Longrightarrow> ru_Kind e = [] \<Longrightarrow> \<not> mhas (o_reviewerInjectedProfiles o') (is_Identifier (ru_Issue run))"
  shows "claims_owned (snd (fst (succeeded_exit env cfg now ((o', s), x) k run live)))"
proof -
  let ?issue = "ru_Issue run" and ?i = "is_Identifier (ru_Issue run)" and ?agent = "cf_Agent cfg"
  define d0 where "d0 = (o', unclaim (clear_resume s live ?i) k)"
  obtain o1 s1 x1 where fr: "finish_review env cfg now (d0, x) ?issue live = ((o1, s1), x1)"
    by (cases "finish_review env cfg now (d0, x) ?issue live") auto
  define o2 where "o2 = o1\<lparr>o_issueBackends := mdel (o_issueBackends o1) ?i\<rparr>"
  define s2 where "s2 = (if mhas (s_AutoSwitchedIdentifiers s1) ?i \<and> clearAutoSwitchOnSuccess cfg s1 ?i now then clearAutoSwitch s1 ?i else s1)"
  have s2: "adm s2 = adm s1" by (simp add: s2_def)
  have free: "\<not> mhas (s_Claimed (snd d0)) (is_ID ?issue)" by (simp add: d0_def assms(3))
  have base: "books_kept (o', unclaim s k) d0" by (rule books_same) (simp_all add: d0_def unclaim_def clear_resume_def)
  have "books_kept d0 (o1, s1)" using books_finish_review [OF free, of env cfg now x live] by (simp add: fr)
  moreover have "books_kept (o1, s1) (o2, s2)" by (rule books_same) (simp_all add: o2_def admD [OF s2])
  ultimately have d2: "books_kept (o', unclaim s k) (o2, s2)" using base books_trans by blast
  show ?thesis
  proof (cases "ag_AutoReview ?agent \<and> ag_ReviewerProfile ?agent \<noteq> [] \<and> runEligibleForAutoReview live")
    case False
    then have "fst (succeeded_exit env cfg now ((o', s), x) k run live) = (o2, s2)"
      unfolding succeeded_exit_def Let_def fst_conv snd_conv d0_def [symmetric] fr prod.case s2_def [symmetric] o2_def [symmetric]
      by (simp only: if_not_P not_False_eq_True if_True fst_conv)
    with released_books [OF assms(1,2) d2] show ?thesis by simp
  next
    case True
    then obtain e where e: "live = Some e" "ru_Kind e = [] \<or> ru_Kind e = ''worker''" by (auto simp: runEligibleForAutoReview_def split: option.splits)
    have "(o1, s1) = d0" using fr e(2) assms(4) [OF e(1)] by (auto simp: finish_review_def Let_def d0_def e(1))
    then have f2: "\<not> mhas (s_Claimed s2) (is_ID ?issue)" using free admD(2) [OF s2] by auto
    have rev: "books_kept (o', unclaim s k) (dispatchReviewerForIssue (le_fmt_time (xe_loop env)) cfg now (o2, t) ?issue p)"
      if t: "adm t = adm s2" for t p
    proof -
      have "books_kept (o2, s2) (o2, t)" using books.rel_quiet [of t "(o2, s2)"] t by simp
      moreover have "books_kept (o2, t) (dispatchReviewerForIssue (le_fmt_time (xe_loop env)) cfg now (o2, t) ?issue p)"
        by (rule books_reviewer) (simp add: f2 admD(2) [OF t])
      ultimately show ?thesis using d2 books_trans by blast
    qed
    let ?chain = "ReviewerProfileChain cfg"
    have "fst (succeeded_exit env cfg now ((o', s), x) k run live) =
        (if length ?chain > 1 then dispatchReviewerForIssue (le_fmt_time (xe_loop env)) cfg now (o2, ResetReviewChain s2 ?i) ?issue (?chain ! 0)
         else dispatchReviewerForIssue (le_fmt_time (xe_loop env)) cfg now (o2, s2) ?issue (ag_ReviewerProfile ?agent))"
      unfolding succeeded_exit_def Let_def fst_conv snd_conv d0_def [symmetric] fr prod.case s2_def [symmetric] o2_def [symmetric]
      using True by (simp split: if_split)
    then show ?thesis using rev released_books [OF assms(1,2)] by (simp split: if_split)
  qed
qed

lemmas books_limit_fallback = admission_relation.rel_limit_fallback [OF books.admission_relation_axioms]

lemma limited_owned:
  assumes "owed k s" and "\<not> o_DryRun o'" and "is_ID (ru_Issue run) = k"
    and "limited_exit env cfg now ((o', s), x) k run limit msg a live = (((o1, s1), x1), settled)"
  shows "o_DryRun o1 = o_DryRun o' \<and> (if settled then claims_owned s1 else owed k s1)"
proof -
  let ?issue = "ru_Issue run" and ?i = "is_Identifier (ru_Issue run)"
  define s0 where "s0 = (case live of Some e \<Rightarrow> fst (recordBackendLimit cfg s (ru_Backend e) (ru_WorkerHost e) ?i limit now) | None \<Rightarrow> s)"
  have adm0: "adm s0 = adm s" by (simp add: s0_def split: option.split)
  have s0: "owed k s0" using owed_adm [OF adm0, of k] assms(1) by simp
  let ?d0 = "(o', unclaim s0 k)"
  let ?disp = "dispatch (le_fmt_time (xe_loop env)) cfg now ?d0 ?issue a"
  let ?r = "dispatchRateLimitedFallback (xe_limitRules env) cfg ?d0 ?issue live now msg (a + 1) None"
  have disp: "books_kept ?d0 ?disp" by (rule books_dispatch) (simp add: assms(3))
  have fb: "books_kept ?d0 (lr_daemon ?r)" by (rule books_limit_fallback)
  have dry: "o_DryRun (fst d) = o_DryRun o'" if "books_kept ?d0 d" for d using that by (simp add: books_kept_def)
  have idle: "owed k (snd (lr_daemon ?r))" if "lr_queued ?r = 0"
    using owed_ledger [OF ledger_fallback [OF that], of k] s0 by simp
  consider "(o1, s1) = ?disp" settled | "(o1, s1) = (o', s0)" "\<not> settled" | "(o1, s1) = lr_daemon ?r" "settled" |
      "(o1, s1) = lr_daemon ?r" "\<not> settled" "lr_queued ?r = 0"
    using assms(4) unfolding limited_exit_def Let_def prod.case s0_def [symmetric] by (simp split: if_splits)
  then show ?thesis
  proof cases
    case 1
    then show ?thesis using released_books [OF s0 assms(2) disp] dry [OF disp] by (metis fst_conv snd_conv)
  next
    case 2
    then show ?thesis using s0 by simp
  next
    case 3
    then show ?thesis using released_books [OF s0 assms(2) fb] dry [OF fb] by (metis fst_conv snd_conv)
  next
    case 4
    then show ?thesis using idle dry [OF fb] by (metis fst_conv snd_conv)
  qed
qed

lemma park_fields:
  "o_DryRun (fst (fst (park_exhausted env cfg clock ls k run q))) = o_DryRun (fst (fst ls))
    \<and> adm (snd (fst (park_exhausted env cfg clock ls k run q))) = adm (snd (fst ls))"
  using adm_moves(1) [of clock ls k "is_Identifier (ru_Issue run)" "tk_FailedState (cf_Tracker cfg)" "is_State (ru_Issue run)"]
  by (auto simp: park_exhausted_def Let_def asyncDiscardAndTransitionTo_def mark_and_start_def split: prod.splits)

lemma exhausted_owned:
  assumes "owed k s" and "\<not> o_DryRun o'"
  shows "claims_owned (snd (fst (exhausted_exit env cfg now clock ((o', s), x) k run limit msg a tried live)))"
proof -
  let ?issue = "ru_Issue run" and ?i = "is_Identifier (ru_Issue run)" and ?d0 = "(o', unclaim s k)"
  let ?fb = "dispatchRateLimitedFallback (xe_limitRules env) cfg ?d0 ?issue live now msg (a + 1) (Some (maxRetriesExhaustedBody env a msg))"
  let ?run_failed = "\<lambda>d. dispatchMatchingRunFailedAutomations (le_rules (xe_loop env)) cfg d ?issue now msg (a + 1)"
  have kept: "books_kept ?d0 (?run_failed ?d0)" "books_kept ?d0 (?run_failed (lr_daemon ?fb))"
    by (rule books.rel_run_failed books_trans [OF books_limit_fallback books.rel_run_failed])+
  have park: "books_kept d (abandonReviewerRun (fst (park_exhausted env cfg clock (d, x') k run q)) live ?i)" for d x' q
    using park_fields [of env cfg clock "(d, x')" k run q]
    by (intro books_trans [OF books_same books_abandon]) (simp_all add: adm_def)
  have "books_kept ?d0 (fst (exhausted_exit env cfg now clock ((o', s), x) k run limit msg a tried live))"
    unfolding exhausted_exit_def Let_def prod.case
    using books_trans [OF kept(1) park] books_trans [OF kept(2) park] by (simp add: case_prod_beta split: if_split)
  then show ?thesis by (rule released_books [OF assms])
qed

lemma retry_owned:
  assumes "owed k s"
  shows "claims_owned (snd (fst (retry_exit env cfg now ((o', s), x) k run limit msg a live)))"
  using owed_scheduled [OF assms] by (simp add: retry_exit_def)

lemma failed_owned:
  assumes "owed k s" and "\<not> o_DryRun o'" and "is_ID (ru_Issue run) = k"
  shows "claims_owned (snd (fst (handleFailedExit env cfg now clock ((o', s), x) k run err limit live)))"
proof (cases "case err of Some e \<Rightarrow> er_canceled e | None \<Rightarrow> False")
  case True
  have "\<not> mhas (s_RetryAttempts s) k" using assms(1) by (simp add: owed_def)
  then show ?thesis using True
    by (intro released_adm [OF assms(1)]) (simp add: handleFailedExit_def canceled_exit_def Let_def)
next
  case False
  let ?a = "case ru_RetryAttempt run of Some n \<Rightarrow> n | None \<Rightarrow> 0" and ?msg = "case err of Some e \<Rightarrow> er_text e | None \<Rightarrow> []"
  let ?tried = "ru_TerminalReason run = TerminalRateLimited"
  define s0 where "s0 = recordWorkerFailure env s run err ?a now"
  have s0: "owed k s0" using owed_adm [of s0 s] assms(1) by (simp add: s0_def)
  define x0 where "x0 = markFailedHandoffPartial env x run live"
  obtain o1 s1 x1 settled where r: "(if ?tried then limited_exit env cfg now ((o', s0), x0) k run limit ?msg ?a live
      else (((o', s0), x0), False)) = (((o1, s1), x1), settled)" by (metis surj_pair)
  have l: "o_DryRun o1 = o_DryRun o' \<and> (if settled then claims_owned s1 else owed k s1)"
    using r limited_owned [OF s0 assms(2,3)] s0 by (cases ?tried) auto
  show ?thesis
    unfolding handleFailedExit_def Let_def prod.case if_not_P [OF False] s0_def [symmetric] x0_def [symmetric] r
    using l assms(2) by (simp add: exhausted_owned retry_owned split: if_split)
qed

section \<open>Exits keep the claims\<close>

text \<open>
  An exit that arrives in its turn: no retry is pending and the run is not the retry of a review (a stall that reconciliation reported has
  already left \<open>Running\<close>), or a retry is pending and the exit is the stall that scheduled it or the late cancellation of the run that stalled.
\<close>

definition user_flagged :: "exit_side \<Rightarrow> string \<Rightarrow> bool" where
  "user_flagged x ident \<longleftrightarrow> mhas (xs_userCancelledIDs x) ident \<or> mhas (xs_userTerminatedIDs x) ident"

definition exit_in_order :: "daemon \<Rightarrow> exit_side \<Rightarrow> exit_event \<Rightarrow> run_entry \<Rightarrow> bool" where
  "exit_in_order d x ev run \<longleftrightarrow>
     (let s = snd d in
      if mhas (s_RetryAttempts s) (xv_IssueID ev)
      then \<not> user_flagged x (is_Identifier (ru_Issue run)) \<and>
           (ru_TerminalReason run = TerminalStalled \<or>
            ru_TerminalReason run = TerminalFailed \<and> (case xv_Error ev of Some e \<Rightarrow> er_canceled e | None \<Rightarrow> False))
      else (ru_TerminalReason run = TerminalStalled \<longrightarrow> \<not> mhas (s_Running s) (xv_IssueID ev)) \<and>
           (case mget (s_Running s) (xv_IssueID ev) of Some e \<Rightarrow> ru_Kind e = [] \<longrightarrow> \<not> mhas (o_reviewerInjectedProfiles (fst d)) (is_Identifier (ru_Issue run))
            | None \<Rightarrow> True))"

lemma stalled_owned:
  assumes "claims_owned s"
  shows "claims_owned (snd (fst (stalled_exit env now ((o', s), x) k run err a live)))"
proof -
  have "adm (snd (fst (stalled_exit env now ((o', s), x) k run err a live))) = adm s"
    by (simp add: stalled_exit_def Let_def)
  from owned_adm [OF this] assms show ?thesis by simp
qed

lemma retained_owned:
  assumes "claims_owned s" and "mhas (s_RetryAttempts s) k"
  shows "claims_owned (snd (fst (canceled_exit env now ((o', s), x) k run live)))"
  using assms by (simp add: canceled_exit_def Let_def)

lemma settled_fields:
  assumes "t = fst (settleBackendProbe s live i reason)"
  shows "claims_owned t = claims_owned s" "owed k t = owed k s" "s_RetryAttempts t = s_RetryAttempts s"
  using owned_adm [of t s] owed_adm [of t s k] admD(3) [of t s] by (simp_all add: assms)

text \<open>
  Outside of dry runs, when every claim is owned by exactly one of a run and a pending retry and
  an exit arrives in its turn, then after the whole exit handler - pause, termination, success with its reviews, question, stall,
  failure with its fallbacks, retry or exhaustion - every claim is again owned by exactly one of a run and a pending retry, and nothing owned is unclaimed.
\<close>

lemma exit_owned:
  assumes "claims_owned s" and "\<not> o_DryRun o'" and "xv_RunEntry ev = Some run" and "is_ID (ru_Issue run) = xv_IssueID ev"
    and "exit_in_order (o', s) x ev run"
  shows "claims_owned (snd (fst (worker_exited env cfg now clock ((o', s), x) ev)))"
proof -
  let ?k = "xv_IssueID ev" and ?i = "is_Identifier (ru_Issue run)" and ?live = "mget (s_Running s) (xv_IssueID ev)"
  define s1 where "s1 = s\<lparr>s_Running := mdel (s_Running s) ?k\<rparr>"
  define s2 where "s2 = fst (settleBackendProbe s1 ?live ?i (ru_TerminalReason run))"
  note t = settled_fields [OF s2_def]
  have unfold: "worker_exited env cfg now clock ((o', s), x) ev = settle_exit env cfg now clock ((o', s2), take_marks x ?k ?i) ev run
      (mhas (xs_userCancelledIDs x) ?i) (mhas (xs_userTerminatedIDs x) ?i) ?live"
    unfolding worker_exited_def Let_def prod.case assms(3) option.case s1_def [symmetric] s2_def [symmetric] ..
  show ?thesis
  proof (cases "mhas (s_RetryAttempts s) ?k")
    case True
    then have idle: "\<not> mhas (s_Running s) ?k" using assms(1) by (auto simp: claims_owned_def)
    then have "s1 = s" by (simp add: s1_def mdel_absent)
    then have own: "claims_owned s2" "mhas (s_RetryAttempts s2) ?k" using t(1,3) assms(1) True by simp_all
    from True assms(5) show ?thesis
      by (auto simp: unfold settle_exit_def exit_in_order_def user_flagged_def stalled_owned [OF own(1)] handleFailedExit_def Let_def retained_owned [OF own])
  next
    case False
    then have ow: "owed ?k s2" using exit_owes [OF assms(1) False] t(2) by (simp add: s1_def)
    have st: "claims_owned s2" if "ru_TerminalReason run = TerminalStalled"
      using that False assms(1,5) t(1) by (simp add: exit_in_order_def Let_def s1_def mdel_absent)
    have kind: "\<And>e. ?live = Some e \<Longrightarrow> ru_Kind e = [] \<Longrightarrow> \<not> mhas (o_reviewerInjectedProfiles o') ?i"
      using False assms(5) by (simp add: exit_in_order_def Let_def)
    show ?thesis
      using assms(2,4) ow kind
      by (simp add: unfold settle_exit_def Let_def user_cancelled_owned user_terminated_owned succeeded_owned input_required_owned stack_unavailable_owned
          failed_owned owed_released stalled_owned [OF st] split: terminal_reason.split)
  qed
qed

section \<open>Failed runs are accounted for\<close>

lemma history_fields [simp]:
  "cr_Status (history_row env x live issue now st) = st" "cr_Identifier (history_row env x live issue now st) = is_Identifier issue"
  by (simp_all add: history_row_def Let_def split: option.split)

lemma recorded [simp]:
  "xs_completedRuns (recordHistory env x live issue now st) \<noteq> []"
  "last (xs_completedRuns (recordHistory env x live issue now st)) = history_row env x live issue now st"
  "xs_tasks (recordHistory env x live issue now st) = xs_tasks x"
  by (simp_all add: recordHistory_def addCompletedRun_def Let_def maxHistory_def last_drop)

text \<open>What is done with an issue whose retries are used up.\<close>

definition parked :: "config \<Rightarrow> time \<Rightarrow> string \<Rightarrow> issue \<Rightarrow> loop_state \<Rightarrow> bool" where
  "parked cfg clock k issue ls \<longleftrightarrow>
     (let ident = is_Identifier issue; s = snd (fst ls); failedState = tk_FailedState (cf_Tracker cfg)
      in if failedState \<noteq> []
         then \<exists>gen. SinkMove k ident failedState (is_State issue) gen \<in> set (xs_tasks (snd ls)) \<and>
                mget (s_DiscardingIdentifiers s) ident = Some \<lparr>dm_Gen = gen, dm_At = clock\<rparr>
         else mget (s_PausedIdentifiers s) ident = Some (is_ID issue) \<and> mget (s_PauseReasons s) ident = Some PauseReasonRetriesExhausted)"

lemma park_parks:
  assumes "k \<noteq> []" and "is_Identifier (ru_Issue run) \<noteq> []"
  shows "parked cfg clock k (ru_Issue run) (park_exhausted env cfg clock ls k run 0)"
    and "set (xs_tasks (snd ls)) \<subseteq> set (xs_tasks (snd (park_exhausted env cfg clock ls k run 0)))"
  using assms by (auto simp: park_exhausted_def parked_def Let_def asyncDiscardAndTransitionTo_def mark_and_start_def markDiscarding_def
      scheduleWorkspaceClear_def setPauseReason_def PauseReasonRetriesExhausted_def split: prod.splits)

lemma parked_frame:
  assumes "parked cfg clock k issue (d, x)"
  shows "parked cfg clock k issue (abandonReviewerRun d live i, recordHistory env x live' issue' now st)"
  using assms by (auto simp: parked_def Let_def abandonReviewerRun_def)

lemma exhausted_parks:
  assumes "k \<noteq> []" and "is_Identifier (ru_Issue run) \<noteq> []" and "\<not> isRateLimitFailureCfg env msg" and "\<not> Terminal limit"
    and r_def: "r = exhausted_exit env cfg now clock ls k run limit msg a tried live"
  shows "RetriesExhaustedComment (ru_Issue run) (maxRetriesExhaustedBody env a msg) \<in> set (xs_tasks (snd r))"
    and "parked cfg clock k (ru_Issue run) r"
    and "cr_Identifier (last (xs_completedRuns (snd r))) = is_Identifier (ru_Issue run) \<and> cr_Status (last (xs_completedRuns (snd r))) = ''failed''"
proof -
  obtain o' s x where ls: "ls = ((o', s), x)" by (metis surj_pair)
  let ?body = "maxRetriesExhaustedBody env a msg"
  obtain d2 x2 where sub: "r = (case park_exhausted env cfg clock (d2, x2) k run 0 of (d3, x3) \<Rightarrow>
        (abandonReviewerRun d3 live (is_Identifier (ru_Issue run)), recordHistory env x3 live (ru_Issue run) now ''failed''))"
      and posted: "RetriesExhaustedComment (ru_Issue run) ?body \<in> set (xs_tasks x2)"
    unfolding r_def exhausted_exit_def Let_def ls prod.case using assms(3,4) by auto
  obtain d3 x3 where p: "park_exhausted env cfg clock (d2, x2) k run 0 = (d3, x3)" by (cases "park_exhausted env cfg clock (d2, x2) k run 0")
  note parks = park_parks(1) [OF assms(1,2), of cfg clock env "(d2, x2)", unfolded p]
    park_parks(2) [OF assms(1,2), where cfg = cfg and clock = clock and env = env and ls = "(d2, x2)", unfolded p]
  show "RetriesExhaustedComment (ru_Issue run) ?body \<in> set (xs_tasks (snd r))" using posted parks(2) by (auto simp: sub p)
  show "parked cfg clock k (ru_Issue run) r" using parked_frame [OF parks(1)] by (simp add: sub p)
  show "cr_Identifier (last (xs_completedRuns (snd r))) = is_Identifier (ru_Issue run) \<and> cr_Status (last (xs_completedRuns (snd r))) = ''failed''"
    by (simp add: sub p)
qed

text \<open>
  C3. A failed run is never lost. When a run ends in an ordinary failure (no cancellation, no user request, no vendor limit) then it is recorded as the latest
  failed run of the history, and: while retries remain, the issue stays claimed with a retry of the next attempt, due after the
  backoff or the vendor's delay, whichever is longer; once they are used up, the exhaustion is commented on and the issue is moved to the failed state,
  with its discard marker set, or, without a failed state, paused with the reason that its retries are exhausted.
\<close>

theorem failed_run_accounted:
  assumes "xv_RunEntry ev = Some run" and "ru_TerminalReason run = TerminalFailed" and "\<not> user_flagged x (is_Identifier (ru_Issue run))"
    and "case xv_Error ev of Some e \<Rightarrow> \<not> er_canceled e \<and> er_text e = msg | None \<Rightarrow> msg = []"
    and "\<not> isRateLimitFailureCfg env msg" and "\<not> Terminal (xv_Limit ev)" and "xv_IssueID ev \<noteq> []" and "is_Identifier (ru_Issue run) \<noteq> []"
    and "a = (case ru_RetryAttempt run of Some n \<Rightarrow> n | None \<Rightarrow> 0)" and "m = ag_MaxRetries (cf_Agent cfg)"
    and "r = worker_exited env cfg now clock ((o', s), x) ev"
  shows "cr_Identifier (last (xs_completedRuns (snd r))) = is_Identifier (ru_Issue run)
    \<and> cr_Status (last (xs_completedRuns (snd r))) = ''failed''
    \<and> (if m \<le> 0 \<or> a < m
       then mget (s_RetryAttempts (snd (fst r))) (xv_IssueID ev) = Some \<lparr>rt_IssueID = xv_IssueID ev, rt_Identifier = is_Identifier (ru_Issue run),
              rt_Attempt = a + 1,
              rt_DueAt = now + wrap64 (max (BackoffMs (a + 1) (ag_MaxRetryBackoffMs (cf_Agent cfg))) (vendorRetryDelayMs (xv_Limit ev) now) * millisecond),
              rt_Error = (if msg = [] then None else Some msg)\<rparr>
            \<and> mhas (s_Claimed (snd (fst r))) (xv_IssueID ev)
       else RetriesExhaustedComment (ru_Issue run) (maxRetriesExhaustedBody env a msg) \<in> set (xs_tasks (snd r))
            \<and> parked cfg clock (xv_IssueID ev) (ru_Issue run) r)"
proof -
  have nc: "\<not> (case xv_Error ev of Some e \<Rightarrow> er_canceled e | None \<Rightarrow> False)" and msg: "(case xv_Error ev of Some e \<Rightarrow> er_text e | None \<Rightarrow> []) = msg"
    using assms(4) by (simp_all split: option.splits)
  obtain ls live where r: "r = (if m > 0 \<and> a + 1 > m
      then exhausted_exit env cfg now clock ls (xv_IssueID ev) run (xv_Limit ev) msg a False live
      else retry_exit env cfg now ls (xv_IssueID ev) run (xv_Limit ev) msg a live)"
    using assms(3) nc unfolding assms(11) worker_exited_def Let_def prod.case assms(1) option.case settle_exit_def
    by (simp add: user_flagged_def assms(2) handleFailedExit_def Let_def msg assms(9) [symmetric] assms(10) [symmetric])
  show ?thesis
  proof (cases "m > 0 \<and> a + 1 > m")
    case True
    with exhausted_parks [OF assms(7,8,5,6)] r show ?thesis by simp
  next
    case False
    then show ?thesis by (auto simp: r retry_exit_def ScheduleRetry_def Let_def split: prod.splits)
  qed
qed

text \<open>
  C37. A late exit ends the wrong run. The handler finds the run by the issue alone: when the cancelled exit of an earlier
  attempt arrives while a newer attempt of the same issue is running and no retry is pending, the newer run is dropped from the
  running set, its claim is released and its worker is cancelled.
\<close>

theorem late_exit_drops_newer_run:
  assumes "mget (s_Running s) (xv_IssueID ev) = Some newer" and "ru_RetryAttempt newer \<noteq> ru_RetryAttempt run"
    and "xv_RunEntry ev = Some run" and "ru_TerminalReason run = TerminalFailed" and "xv_Error ev = Some e" and "er_canceled e"
    and "\<not> mhas (s_RetryAttempts s) (xv_IssueID ev)" and "\<not> user_flagged x (is_Identifier (ru_Issue run))"
    and "r = worker_exited env cfg now clock ((o', s), x) ev"
  shows "\<not> mhas (s_Running (snd (fst r))) (xv_IssueID ev) \<and> \<not> mhas (s_Claimed (snd (fst r))) (xv_IssueID ev)
    \<and> CancelWorker (is_Identifier (ru_Issue run)) \<in> set (xs_tasks (snd r))"
proof -
  let ?k = "xv_IssueID ev" and ?i = "is_Identifier (ru_Issue run)"
  define s1 where "s1 = s\<lparr>s_Running := mdel (s_Running s) ?k\<rparr>"
  have probe: "fst (settleBackendProbe s1 live ?i TerminalFailed) = s1" for live by (simp add: settleBackendProbe_def split: option.split)
  have r: "r = canceled_exit env now ((o', s1), take_marks x ?k ?i) ?k run (mget (s_Running s) ?k)"
    using assms(8) unfolding assms(9) worker_exited_def Let_def prod.case assms(3) option.case settle_exit_def
    by (simp add: user_flagged_def assms(4-6) handleFailedExit_def Let_def s1_def [symmetric] probe)
  have "fst r = abandonReviewerRun (o', unclaim s1 ?k) (mget (s_Running s) ?k) ?i"
    using assms(7) by (simp add: r canceled_exit_def Let_def s1_def)
  then have "adm (snd (fst r)) = adm (unclaim s1 ?k)" by simp
  note f = admD [OF this]
  have "xs_tasks (take_marks x ?k ?i) = xs_tasks x @ [CancelWorker ?i]" by (simp add: take_marks_def)
  then have "CancelWorker ?i \<in> set (xs_tasks (snd r))"
    by (simp add: r canceled_exit_def Let_def markFailedHandoffPartial_def)
  then show ?thesis by (simp add: f s1_def unclaim_def)
qed

text \<open>
  C38. A retried review is reviewed again. The retry of a review runs without its kind: when it succeeds, the handler recognises it as a reviewer by
  the injected profile and drops that profile, but then takes it for a plain worker and asks for another review of the issue.
\<close>

theorem retried_review_reviewed_again:
  assumes "mget (s_Running s) (xv_IssueID ev) = Some live" and "ru_Kind live = []" and "xv_RunEntry ev = Some run"
    and "ru_TerminalReason run = TerminalSucceeded" and "mhas (o_reviewerInjectedProfiles o') (is_Identifier (ru_Issue run))"
    and "\<not> user_flagged x (is_Identifier (ru_Issue run))" and "ag_AutoReview (cf_Agent cfg)" and "ag_ReviewerProfile (cf_Agent cfg) \<noteq> []"
    and "length (ReviewerProfileChain cfg) \<le> 1"
  shows "\<exists>d. \<not> mhas (o_reviewerInjectedProfiles (fst d)) (is_Identifier (ru_Issue run)) \<and> \<not> mhas (s_Claimed (snd d)) (xv_IssueID ev)
    \<and> fst (worker_exited env cfg now clock ((o', s), x) ev) =
        dispatchReviewerForIssue (le_fmt_time (xe_loop env)) cfg now d (ru_Issue run) (ag_ReviewerProfile (cf_Agent cfg))"
proof -
  let ?k = "xv_IssueID ev" and ?i = "is_Identifier (ru_Issue run)"
  define s2 where "s2 = fst (settleBackendProbe (s\<lparr>s_Running := mdel (s_Running s) ?k\<rparr>) (mget (s_Running s) ?k) ?i (ru_TerminalReason run))"
  define s3 where "s3 = unclaim (clear_resume s2 (Some live) ?i) ?k"
  define o3 where "o3 = (clear_injected o' ?i)\<lparr>o_issueBackends := mdel (o_issueBackends (clear_injected o' ?i)) ?i\<rparr>"
  define s4 where "s4 = (if mhas (s_AutoSwitchedIdentifiers s3) ?i \<and> clearAutoSwitchOnSuccess cfg s3 ?i now then clearAutoSwitch s3 ?i else s3)"
  have exit: "worker_exited env cfg now clock ((o', s), x) ev = succeeded_exit env cfg now ((o', s2), take_marks x ?k ?i) ?k run (Some live)"
    using assms(6) unfolding worker_exited_def Let_def prod.case assms(3) option.case settle_exit_def
    by (simp add: user_flagged_def assms(1,4) s2_def)
  have review: "finish_review env cfg now ((o', s3), take_marks x ?k ?i) (ru_Issue run) (Some live) = ((clear_injected o' ?i, s3), take_marks x ?k ?i)"
    using assms(2,5,9) by (simp add: finish_review_def advanceReviewChainForIssue_def Let_def)
  have "fst (worker_exited env cfg now clock ((o', s), x) ev) =
      dispatchReviewerForIssue (le_fmt_time (xe_loop env)) cfg now (o3, s4) (ru_Issue run) (ag_ReviewerProfile (cf_Agent cfg))"
    unfolding exit succeeded_exit_def Let_def fst_conv snd_conv s3_def [symmetric] review prod.case s4_def [symmetric] o3_def [symmetric]
    using assms(2,7-9) by (simp add: runEligibleForAutoReview_def)
  moreover have "\<not> mhas (o_reviewerInjectedProfiles o3) ?i" using assms(5) by (simp add: o3_def clear_injected_def)
  moreover have "adm s4 = adm s3" by (simp add: s4_def)
  from admD(2) [OF this] have "\<not> mhas (s_Claimed s4) ?k" by (simp add: s3_def)
  ultimately show ?thesis by (intro exI [of _ "(o3, s4)"]) simp
qed

section \<open>Relations that every exit respects\<close>

text \<open>What an exit changes only by dropping its run and by the paths that start workers.\<close>

definition gear :: "daemon \<Rightarrow> (bool \<times> bool \<times> worker_start list) \<times> (string, run_entry) gomap \<times> int \<times> bool" where
  "gear d = ((o_DryRun (fst d), o_drainRequested (fst d), o_started (fst d)),
     s_Running (snd d), s_MaxConcurrentAgents (snd d), s_Draining (snd d))"

lemma gear_adm: "adm t = adm s \<Longrightarrow> gear (o', t) = gear (o', s)"
  by (simp add: gear_def adm_def)

lemma gear_claims [simp]:
  "gear (o', unclaim s k) = gear (o', s)" "gear (o', ScheduleRetry s k a i m now dl) = gear (o', s)" "gear (clear_injected o' i, s) = gear (o', s)"
  "gear (o'\<lparr>o_issueBackends := m'\<rparr>, s) = gear (o', s)"
  by (simp_all add: gear_def unclaim_def ScheduleRetry_def clear_injected_def Let_def)

lemmas gear_quiet [simp] = gear_adm [OF adm_exit_books(1)] gear_adm [OF adm_exit_books(2)] gear_adm [OF adm_exit_books(3)]
  gear_adm [OF adm_exit_books(4)] gear_adm [OF adm_exit_books(5)] gear_adm [OF adm_exit_books(6)] gear_adm [OF adm_exit_books(7)]
  gear_adm [OF adm_exit_books(8)] gear_adm [OF adm_exit_books(9)] gear_adm [OF adm_exit_books(10)] gear_adm [OF adm_exit_books(11)]
  gear_adm [OF adm_limit_books(1)] gear_adm [OF adm_limit_books(2)]

lemma gear_abandon [simp]: "gear (abandonReviewerRun d live i) = gear d"
  by (cases d) (simp add: abandonReviewerRun_def)

lemma gear_moves [simp]:
  "gear (fst (asyncDiscardAndTransitionTo clock ls k i target source)) = gear (fst ls)"
  "gear (fst (asyncDiscardAndTransition cfg clock ls k i)) = gear (fst ls)"
  by (simp_all add: asyncDiscardAndTransitionTo_def asyncDiscardAndTransition_def mark_and_start_def markDiscarding_def gear_def Let_def
      split: prod.split)

lemma gear_park [simp]: "gear (fst (park_exhausted env cfg clock ls k run q)) = gear (fst ls)"
proof (cases "asyncDiscardAndTransitionTo clock ls k (is_Identifier (ru_Issue run)) (tk_FailedState (cf_Tracker cfg)) (is_State (ru_Issue run))")
  case (Pair d x)
  then have "gear d = gear (fst ls)" by (metis fst_conv gear_moves(1))
  then show ?thesis by (simp add: park_exhausted_def Let_def Pair split: prod.split)
qed

text \<open>
  A relation between the daemon before and after that depends on the gear only, and that holds when a run is dropped and
  along every path that starts a worker, holds across the whole exit handler.
\<close>

locale exit_relation = admission_relation rel for rel +
  assumes rel_gear: "gear d' = gear d \<Longrightarrow> rel d d'"
    and rel_gone: "rel d (fst d, (snd d)\<lparr>s_Running := mdel (s_Running (snd d)) k\<rparr>)"
    and rel_dispatch: "rel d (dispatch f cfg now d issue attempt)"
    and rel_reviewer: "rel d (dispatchReviewerForIssue f cfg now d issue p)"
begin

lemma rel_from: "gear d1 = gear d \<Longrightarrow> rel d1 d' \<Longrightarrow> rel d d'"
  by (rule rel_trans [OF rel_gear])

lemma rel_to: "rel d d1 \<Longrightarrow> gear d' = gear d1 \<Longrightarrow> rel d d'"
  by (rule rel_trans [OF _ rel_gear])

lemma rel_advance: "rel d (fst (advanceReviewChainForIssue env cfg now (d, x) issue p))"
proof -
  obtain v e where v: "xe_readVerdict env (is_Identifier issue) p = (v, e)" by (cases "xe_readVerdict env (is_Identifier issue) p")
  obtain s1 nxt fin where a: "AdvanceReviewChain (snd d) (is_Identifier issue) p v e (ReviewerProfileChain cfg) (ag_ReviewQuorum (cf_Agent cfg)) now
      = (s1, nxt, fin)" by (metis surj_pair)
  have g: "gear (fst d, s1) = gear d"
    using adm_advance [of "snd d" "is_Identifier issue" p v e "ReviewerProfileChain cfg" "ag_ReviewQuorum (cf_Agent cfg)" now]
    by (simp add: a gear_def adm_def)
  show ?thesis
    unfolding advanceReviewChainForIssue_def Let_def prod.case v a
    using rel_from [OF g rel_reviewer] rel_gear [OF g] rel_refl by simp
qed

lemma rel_finish: "rel d (fst (finish_review env cfg now (d, x) issue live))"
  using rel_from [OF _ rel_advance] rel_refl by (cases d) (simp add: finish_review_def Let_def)

lemma rel_succeeded: "rel d (fst (succeeded_exit env cfg now (d, x) k run live))"
proof -
  let ?i = "is_Identifier (ru_Issue run)"
  let ?d = "(fst d, unclaim (clear_resume (snd d) live ?i) k)"
  obtain o1 s1 x1 where f: "finish_review env cfg now (?d, x) (ru_Issue run) live = ((o1, s1), x1)" by (metis surj_pair)
  have "gear ?d = gear d" by (cases d) simp
  from rel_from [OF this rel_finish] have d1: "rel d (o1, s1)" using f by (metis fst_conv)
  define s2 where "s2 = (if mhas (s_AutoSwitchedIdentifiers s1) ?i \<and> clearAutoSwitchOnSuccess cfg s1 ?i now then clearAutoSwitch s1 ?i else s1)"
  have d2: "rel d (o1\<lparr>o_issueBackends := mdel (o_issueBackends o1) ?i\<rparr>, s2)" "rel d (o1\<lparr>o_issueBackends := mdel (o_issueBackends o1) ?i\<rparr>, ResetReviewChain s2 ?i)"
    by (rule rel_to [OF d1], simp add: s2_def)+
  show ?thesis
    unfolding succeeded_exit_def Let_def fst_conv snd_conv f prod.case s2_def [symmetric]
    using d2 rel_trans [OF d2(1) rel_reviewer] rel_trans [OF d2(2) rel_reviewer] by simp
qed

lemma rel_limited: "rel d (fst (fst (limited_exit env cfg now (d, x) k run limit msg a live)))"
proof (cases d)
  case (Pair o' s)
  define s1 where "s1 = (case live of
      Some e \<Rightarrow> fst (recordBackendLimit cfg s (ru_Backend e) (ru_WorkerHost e) (is_Identifier (ru_Issue run)) limit now) | None \<Rightarrow> s)"
  have g: "gear (o', s1) = gear d" "gear (o', unclaim s1 k) = gear d" by (simp_all add: s1_def Pair split: option.split)
  show ?thesis
    unfolding limited_exit_def Let_def Pair prod.case s1_def [symmetric]
    using rel_gear [OF g(1)] rel_from [OF g(2) rel_dispatch] rel_from [OF g(2) rel_limit_fallback] by (simp add: Pair)
qed

lemma rel_exhausted: "rel d (fst (exhausted_exit env cfg now clock (d, x) k run limit msg a tried live))"
proof -
  have g: "gear (fst d, unclaim (snd d) k) = gear d" by (cases d) simp
  note r = rel_trans [OF rel_from [OF g rel_limit_fallback] rel_run_failed] rel_from [OF g rel_run_failed]
  have "rel d (abandonReviewerRun (fst (park_exhausted env cfg clock (d1, y) k run q)) live i)" if "rel d d1" for d1 y q i
    by (rule rel_to [OF that]) simp
  then show ?thesis
    using r by (cases d) (simp add: exhausted_exit_def Let_def split_beta)
qed

lemma rel_failed: "rel d (fst (handleFailedExit env cfg now clock (d, x) k run err limit live))"
proof (cases d)
  case (Pair o' s)
  let ?a = "case ru_RetryAttempt run of Some n \<Rightarrow> n | None \<Rightarrow> 0" and ?msg = "case err of Some e \<Rightarrow> er_text e | None \<Rightarrow> []"
  let ?ls1 = "((o', recordWorkerFailure env s run err ?a now), markFailedHandoffPartial env x run live)"
  obtain d2 x2 settled where l: "(if ru_TerminalReason run = TerminalRateLimited then limited_exit env cfg now ?ls1 k run limit ?msg ?a live
      else (?ls1, False)) = ((d2, x2), settled)" by (metis surj_pair)
  have g: "gear (fst ?ls1) = gear d" by (simp add: Pair)
  have d2: "rel d d2"
    using l rel_from [OF g rel_limited] rel_gear [OF g] by (cases "ru_TerminalReason run = TerminalRateLimited") (auto, metis fst_conv)
  have cancel: "rel d (fst (canceled_exit env now (d, x) k run live))" by (rule rel_gear) (cases d; simp add: canceled_exit_def Let_def)
  have retry: "rel d (fst (retry_exit env cfg now (d2, x2) k run limit ?msg ?a live))" by (rule rel_to [OF d2]) (cases d2; simp add: retry_exit_def)
  show ?thesis
    using cancel retry d2 rel_trans [OF d2 rel_exhausted] unfolding handleFailedExit_def Let_def Pair prod.case l by simp
qed

lemma rel_asked: "rel d (fst (input_required_exit env cfg now (d, x) k run entry live))"
proof -
  have "rel d (dispatchMatchingInputRequiredAutomations rules cfg d1 issue e now l)" if "gear d1 = gear d" for d1 rules issue e l
    by (rule rel_from [OF that rel_input_required])
  then show ?thesis using rel_gear by (cases d) (simp add: input_required_exit_def Let_def split: option.split)
qed

lemma rel_exit: "rel (fst ls) (fst (worker_exited env cfg now clock ls ev))"
proof -
  obtain o' s x where ls: "ls = ((o', s), x)" by (metis surj_pair)
  let ?s1 = "s\<lparr>s_Running := mdel (s_Running s) (xv_IssueID ev)\<rparr>" and ?live = "mget (s_Running s) (xv_IssueID ev)"
  have gone: "rel (o', s) (o', ?s1)" using rel_gone [of "(o', s)"] by simp
  have "rel d (fst (settle_exit env cfg now clock (d, y) ev run c t live))" for d y run c t live
    using rel_succeeded rel_failed rel_asked
      rel_gear [of "fst (user_cancelled_exit env cfg now (d, y) (xv_IssueID ev) (ru_Issue run) live)" d]
      rel_gear [of "fst (user_terminated_exit env cfg now clock (d, y) (xv_IssueID ev) (ru_Issue run) live)" d]
      rel_gear [of "fst (stack_unavailable_exit (d, y) (xv_IssueID ev) run)" d]
      rel_gear [of "fst (stalled_exit env now (d, y) (xv_IssueID ev) run (xv_Error ev) (case ru_RetryAttempt run of Some n \<Rightarrow> n | None \<Rightarrow> 0) live)" d]
      rel_gear [of "(fst d, unclaim (snd d) (xv_IssueID ev))" d]
    by (cases d) (simp add: settle_exit_def Let_def user_cancelled_exit_def user_terminated_exit_def stack_unavailable_exit_def stalled_exit_def
        split: terminal_reason.split option.split)
  then have "rel (o', s) (fst (settle_exit env cfg now clock ((o', t), y) ev run c u ?live))" if "gear (o', t) = gear (o', ?s1)" for t y run c u
    using rel_trans [OF rel_to [OF gone that]] by blast
  then show ?thesis using gone by (simp add: worker_exited_def ls Let_def split: option.split)
qed

end

text \<open>
  The relation that runs of the loop need besides the claims: dry runs stay dry runs, \<open>Running\<close> keeps one entry for each issue, and a closed admission stays closed.
\<close>

definition keeps_shape :: "daemon \<Rightarrow> daemon \<Rightarrow> bool" where
  "keeps_shape d d' \<longleftrightarrow> o_DryRun (fst d') = o_DryRun (fst d) \<and> (mwf (s_Running (snd d)) \<longrightarrow> mwf (s_Running (snd d'))) \<and>
     (admission_closed d \<longrightarrow> admission_closed d')"

lemma admits_shape: "admits d ws d' \<Longrightarrow> o_DryRun (fst d') = o_DryRun (fst d) \<Longrightarrow> keeps_shape d d'"
  using admitsD(3) [of d ws d'] admits_closed [of d ws d'] by (auto simp: keeps_shape_def)

lemma slot_shape: "slot_admits d d' \<Longrightarrow> books_kept d d' \<Longrightarrow> keeps_shape d d'"
  by (auto simp: slot_admits_def books_kept_def intro: admits_shape)

lemma dry_reviewer [simp]: "o_DryRun (fst (dispatchReviewerForIssue f cfg now d issue p)) = o_DryRun (fst d)"
proof (cases rule: reviewer_cases [of d f cfg now issue p])
  case refused
  then show ?thesis by (simp add: syncDrainRequest_def applyDrain_def split: prod.split)
next
  case (gated profile o2 host s2 g)
  note q = prepared_fields [OF gated(2,3) requests_strip(2)]
  show ?thesis by (auto simp: gated(4) q inject_reviewer_def launch_reviewer_def Let_def)
qed simp

interpretation shapes: exit_relation keeps_shape
proof
  show "keeps_shape d (fst (startAutomationRunOrHold cfg now d issue a))" for d cfg now issue a
    by (rule slot_shape [OF slots.rel_start books.rel_start])
  show "keeps_shape d (dispatch f cfg now d issue attempt)" for d f cfg now issue attempt
    by (rule dispatch_admits [of d f cfg now issue attempt]) (auto intro: admits_shape)
  show "keeps_shape d (dispatchReviewerForIssue f cfg now d issue p)" for d f cfg now issue p
    by (rule reviewer_admits [of d f cfg now issue p]) (auto intro: admits_shape)
  show "keeps_shape d (fst d, s')" if "adm s' = adm (snd d)" for s' d
    by (simp add: keeps_shape_def admission_closed_def admD [OF that])
qed (auto simp: keeps_shape_def admission_closed_def gear_def)

section \<open>The handler on concrete exits\<close>

definition ex_exit_env :: exit_env where
  "ex_exit_env = \<lparr>xe_loop = ex_env, xe_limitRules = [], xe_redact = (\<lambda>t. t), xe_RateLimitErrorPatterns = [], xe_RateLimitErrorPatternsMode = [],
     xe_TransportErrorPatterns = [], xe_InlineInput = False, xe_historyKey = ''p'', xe_appSessionID = ''app'', xe_hasWorkspace = False,
     xe_readVerdict = (\<lambda>_ _. (\<lparr>rv_Profile = [], rv_Verdict = [], rv_Reasons = [], rv_Comments = [], rv_RecordedAt = 0\<rparr>, None)),
     xe_questionKey = (\<lambda>i. i), xe_enqueueError = (\<lambda>_. None)\<rparr>"

definition ex_side :: exit_side where
  "ex_side = \<lparr>xs_exitsSent = [], xs_userCancelledIDs = [], xs_userTerminatedIDs = [], xs_transitionFailed = [], xs_stoppingAfterCancel = False,
     xs_completedRuns = [], xs_commentCounts = [], xs_TransportFailureCount = 0, xs_tasks = []\<rparr>"

definition ex_exit :: "int option \<Rightarrow> bool \<Rightarrow> exit_event" where
  "ex_exit n canceled = \<lparr>xv_IssueID = ''id-A-1'', xv_RunEntry = Some ((ex_run (ex_issue ''A-1''))\<lparr>ru_RetryAttempt := n, ru_TerminalReason := TerminalFailed\<rparr>),
     xv_Error = Some \<lparr>er_text = ''boom'', er_canceled = canceled, er_panic = False\<rparr>, xv_InputRequiredEntry = None, xv_Limit = None\<rparr>"

theorem failed_run_accounted_witness:
  "parked ex_config 9 ''id-A-1'' (ex_issue ''A-1'') (worker_exited ex_exit_env ex_config 9 9 ((ex_orch, ex_workers), ex_side) (ex_exit (Some 3) False))"
proof -
  let ?ev = "ex_exit (Some 3) False" and ?run = "the (xv_RunEntry (ex_exit (Some 3) False))"
  let ?r = "worker_exited ex_exit_env ex_config 9 9 ((ex_orch, ex_workers), ex_side) ?ev"
  have e: "\<not> isRateLimitFailureCfg ex_exit_env ''boom''" "\<not> user_flagged ex_side (is_Identifier (ru_Issue ?run))" by code_simp+
  have f: "xv_IssueID ?ev = ''id-A-1''" "xv_RunEntry ?ev = Some ?run" "ru_Issue ?run = ex_issue ''A-1''" "ru_TerminalReason ?run = TerminalFailed"
    "case xv_Error ?ev of Some e \<Rightarrow> \<not> er_canceled e \<and> er_text e = ''boom'' | None \<Rightarrow> ''boom'' = []" "\<not> Terminal (xv_Limit ?ev)"
    "xv_IssueID ?ev \<noteq> []" "is_Identifier (ru_Issue ?run) \<noteq> []" "(3::int) = (case ru_RetryAttempt ?run of Some n \<Rightarrow> n | None \<Rightarrow> 0)"
    "3 = ag_MaxRetries (cf_Agent ex_config)"
    by (simp_all add: ex_exit_def ex_run_def ex_issue_def ex_config_def Terminal_def)
  have "\<not> ((3::int) \<le> 0 \<or> (3::int) < 3)" by simp
  with failed_run_accounted [OF f(2,4) e(2) f(5) e(1) f(6-10) refl, of 9 9 ex_orch ex_workers]
  have "parked ex_config 9 (xv_IssueID ?ev) (ru_Issue ?run) ?r" by (simp only: if_False)
  then show ?thesis by (simp only: f(1,3))
qed

theorem late_exit_drops_newer_run_witness:
  "\<not> mhas (s_Running (snd (fst (worker_exited ex_exit_env ex_config 9 9 ((ex_orch, ex_workers), ex_side) (ex_exit (Some 2) True))))) ''id-A-1''"
proof -
  let ?ev = "ex_exit (Some 2) True" and ?run = "the (xv_RunEntry (ex_exit (Some 2) True))"
  have f: "mget (s_Running ex_workers) (xv_IssueID ?ev) = Some ((ex_run (ex_issue ''A-1''))\<lparr>ru_RetryAttempt := Some 3\<rparr>)"
    "ru_RetryAttempt ((ex_run (ex_issue ''A-1''))\<lparr>ru_RetryAttempt := Some 3\<rparr>) \<noteq> ru_RetryAttempt ?run"
    "xv_RunEntry ?ev = Some ?run" "ru_TerminalReason ?run = TerminalFailed" "xv_Error ?ev = Some (the (xv_Error ?ev))" "er_canceled (the (xv_Error ?ev))"
    by (simp_all add: ex_exit_def ex_workers_def)
  have e: "\<not> mhas (s_RetryAttempts ex_workers) (xv_IssueID ?ev)" "\<not> user_flagged ex_side (is_Identifier (ru_Issue ?run))" by code_simp+
  have "xv_IssueID ?ev = ''id-A-1''" by (simp add: ex_exit_def)
  with late_exit_drops_newer_run [OF f e refl, of ex_exit_env ex_config 9 9 ex_orch] show ?thesis by metis
qed

definition ex_auto_review :: config where
  "ex_auto_review = ex_review_config\<lparr>cf_Agent := (cf_Agent ex_review_config)\<lparr>ag_AutoReview := True, ag_ReviewerProfile := ''rev''\<rparr>\<rparr>"

definition ex_retried :: daemon where
  "ex_retried = (inject_reviewer ex_orch ''A-1'' ''rev'',
     ex_state\<lparr>s_Running := [(''id-A-1'', (ex_run (ex_issue ''A-1''))\<lparr>ru_Kind := [], ru_RetryAttempt := Some 1\<rparr>)], s_Claimed := [(''id-A-1'', ())]\<rparr>)"

definition ex_reviewed :: exit_event where
  "ex_reviewed = \<lparr>xv_IssueID = ''id-A-1'', xv_RunEntry = Some ((ex_run (ex_issue ''A-1''))\<lparr>ru_TerminalReason := TerminalSucceeded\<rparr>),
     xv_Error = None, xv_InputRequiredEntry = None, xv_Limit = None\<rparr>"

theorem retried_review_reviewed_again_witness:
  "\<exists>d. \<not> mhas (o_reviewerInjectedProfiles (fst d)) ''A-1'' \<and> fst (worker_exited ex_exit_env ex_auto_review 9 9 (ex_retried, ex_side) ex_reviewed) =
     dispatchReviewerForIssue (le_fmt_time (xe_loop ex_exit_env)) ex_auto_review 9 d (ex_issue ''A-1'') ''rev''"
proof -
  let ?live = "(ex_run (ex_issue ''A-1''))\<lparr>ru_Kind := [], ru_RetryAttempt := Some 1\<rparr>"
  have f: "mget (s_Running (snd ex_retried)) (xv_IssueID ex_reviewed) = Some ?live" "ru_Kind ?live = []"
    "xv_RunEntry ex_reviewed = Some (the (xv_RunEntry ex_reviewed))" "ru_TerminalReason (the (xv_RunEntry ex_reviewed)) = TerminalSucceeded"
    "ag_AutoReview (cf_Agent ex_auto_review)" "ag_ReviewerProfile (cf_Agent ex_auto_review) \<noteq> []"
    by (simp_all add: ex_retried_def ex_reviewed_def ex_auto_review_def)
  have g: "mhas (o_reviewerInjectedProfiles (fst ex_retried)) (is_Identifier (ru_Issue (the (xv_RunEntry ex_reviewed))))"
    "\<not> user_flagged ex_side (is_Identifier (ru_Issue (the (xv_RunEntry ex_reviewed))))" "length (ReviewerProfileChain ex_auto_review) \<le> 1"
    by code_simp+
  note retried_review_reviewed_again [OF f(1-4) g(1,2) f(5,6) g(3), of ex_exit_env 9 9]
  moreover have "ru_Issue (the (xv_RunEntry ex_reviewed)) = ex_issue ''A-1''" "is_Identifier (ex_issue ''A-1'') = ''A-1''"
      "ag_ReviewerProfile (cf_Agent ex_auto_review) = ''rev''"
    by (simp_all add: ex_reviewed_def ex_run_def ex_issue_def ex_auto_review_def)
  ultimately show ?thesis by (metis prod.collapse)
qed

end
