(* ===== verification/Inferred_Deps.thy ===== *)
theory Inferred_Deps
  imports Dispatch
begin

text \<open>
  Inferred dependencies (\<open>internal/orchestrator/inferred_deps.go\<close>, \<open>deps_override.go\<close>): the edges that the analyzer wrote are
  reconciled with the candidates of a tick and the gating policy, and an operator may dismiss the edges that gate an issue.
  A confidence is a rational number, as every finite float is; the sidecar file is JSON and holds no other.
\<close>

section \<open>Reconciliation\<close>

record inferred_edge =
  ie_Source :: string
  ie_Target :: string
  ie_Evidence :: string
  ie_InferredAt :: time
  ie_Confidence :: rat

definition DefaultDependenciesConfidenceThreshold :: rat where "DefaultDependenciesConfidenceThreshold = 7 / 10"
definition DefaultDependenciesStalenessHours :: int where "DefaultDependenciesStalenessHours = 168"

definition resolveDependenciesConfig :: "config \<Rightarrow> dependencies_config" where
  "resolveDependenciesConfig cfg =
     (let deps = cf_Dependencies cfg;
          deps1 = (if dp_ConfidenceThreshold deps < 0 \<or> 1 < dp_ConfidenceThreshold deps
                   then deps\<lparr>dp_ConfidenceThreshold := DefaultDependenciesConfidenceThreshold\<rparr> else deps)
      in if dp_StalenessHours deps1 \<le> 0 then deps1\<lparr>dp_StalenessHours := DefaultDependenciesStalenessHours\<rparr> else deps1)"

definition inferredGatingFor :: "inferred_dep_entry \<Rightarrow> bool \<Rightarrow> bool" where
  "inferredGatingFor e inferredGatingEnabled =
     (inferredGatingEnabled \<and> \<not> id_BelowThreshold e \<and> \<not> id_Stale e \<and> \<not> id_Overridden e \<and> id_SourceKnown e \<and> \<not> id_SourceTerminal e)"

definition candidate_states :: "issue list \<Rightarrow> (string, string) gomap" where
  "candidate_states candidates =
     foldl (\<lambda>m c. if is_Identifier c \<noteq> [] then mput m (is_Identifier c) (is_State c) else m) [] candidates"

definition inferred_entry ::
  "dependencies_config \<Rightarrow> (string, string) gomap \<Rightarrow> (string, time) gomap \<Rightarrow> state \<Rightarrow> time \<Rightarrow> inferred_edge \<Rightarrow> inferred_dep_entry" where
  "inferred_entry deps states overrides s now edge =
     (let known = mget states (ie_Source edge);
          e = \<lparr>id_Source = ie_Source edge, id_Evidence = ie_Evidence edge, id_Confidence = ie_Confidence edge, id_InferredAt = ie_InferredAt edge,
               id_Stale = (wrap64 (dp_StalenessHours deps * hour) < time_sub now (ie_InferredAt edge)),
               id_BelowThreshold = (ie_Confidence edge < dp_ConfidenceThreshold deps),
               id_SourceKnown = (known \<noteq> None),
               id_SourceTerminal = (case known of Some st \<Rightarrow> isTerminalState st s | None \<Rightarrow> False),
               id_Overridden = mhas overrides (ie_Target edge), id_Gating = False\<rparr>
      in e\<lparr>id_Gating := inferredGatingFor e (dp_InferredGating deps)\<rparr>)"

definition add_inferred ::
  "(inferred_edge \<Rightarrow> inferred_dep_entry) \<Rightarrow> (string, inferred_dep_entry list) gomap \<Rightarrow> inferred_edge \<Rightarrow> (string, inferred_dep_entry list) gomap" where
  "add_inferred entry m edge =
     (if ie_Target edge = [] then m else mput m (ie_Target edge) (mget_or m (ie_Target edge) [] @ [entry edge]))"

definition ReconcileInferredDeps ::
  "inferred_edge list \<Rightarrow> issue list \<Rightarrow> (string, time) gomap \<Rightarrow> config \<Rightarrow> state \<Rightarrow> time \<Rightarrow> (string, inferred_dep_entry list) gomap" where
  "ReconcileInferredDeps edges candidates overrides cfg s now =
     foldl (add_inferred (inferred_entry (resolveDependenciesConfig cfg) (candidate_states candidates) overrides s now)) [] edges"

section \<open>Overrides\<close>

definition override_entry :: "config \<Rightarrow> bool \<Rightarrow> inferred_dep_entry \<Rightarrow> inferred_dep_entry" where
  "override_entry cfg enabled e =
     (let e1 = e\<lparr>id_Overridden := enabled\<rparr>
      in e1\<lparr>id_Gating := inferredGatingFor e1 (dp_InferredGating (resolveDependenciesConfig cfg))\<rparr>)"

definition applyDepsOverrideEvent :: "config \<Rightarrow> time \<Rightarrow> state \<Rightarrow> string \<Rightarrow> bool \<Rightarrow> state" where
  "applyDepsOverrideEvent cfg clock s identifier enabled =
     (let s1 = s\<lparr>s_DepsOverrides := (if enabled then mput (s_DepsOverrides s) identifier clock else mdel (s_DepsOverrides s) identifier)\<rparr>
      in case mget (s_InferredDeps s) identifier of
           None \<Rightarrow> s1
         | Some entries \<Rightarrow> s1\<lparr>s_InferredDeps := mput (s_InferredDeps s) identifier (map (override_entry cfg enabled) entries)\<rparr>)"

section \<open>The two computations of gating agree\<close>

lemma mget_add_inferred:
  "mget (add_inferred f m edge) k =
     (if ie_Target edge = k \<and> k \<noteq> [] then Some (mget_or m k [] @ [f edge]) else mget m k)"
  by (auto simp: add_inferred_def)

lemma reconciled:
  "mget (foldl (add_inferred f) [] edges) k =
     (let mine = filter (\<lambda>e. ie_Target e = k \<and> k \<noteq> []) edges in if mine = [] then None else Some (map f mine))"
proof (induction edges rule: rev_induct)
  case (snoc e edges)
  then show ?case by (auto simp: mget_add_inferred mget_or_def Let_def)
qed simp

lemma override_entry_eq:
  assumes "ie_Target edge = k" and "mhas overrides' k = enabled"
  shows "override_entry cfg enabled (inferred_entry (resolveDependenciesConfig cfg) states overrides s now edge)
    = inferred_entry (resolveDependenciesConfig cfg) states overrides' s now edge"
  using assms by (simp add: override_entry_def inferred_entry_def Let_def inferredGatingFor_def)

lemma inferred_entry_other:
  assumes "mhas overrides' (ie_Target edge) = mhas overrides (ie_Target edge)"
  shows "inferred_entry deps states overrides' s now edge = inferred_entry deps states overrides s now edge"
  using assms by (simp add: inferred_entry_def)

text \<open>
  Dismissing the inferred edges of an issue, or restoring them, takes effect at once and as a full pass would: on a state whose
  inferred dependencies were reconciled, the event leaves for every issue the entries that reconciliation with the new overrides gives.
\<close>

theorem override_agrees_with_reconcile:
  assumes "s_InferredDeps s = ReconcileInferredDeps edges candidates (s_DepsOverrides s) cfg s now"
    and "s' = applyDepsOverrideEvent cfg clock s target enabled"
  shows "mget (s_InferredDeps s') k = mget (ReconcileInferredDeps edges candidates (s_DepsOverrides s') cfg s' now) k"
proof -
  have o: "s_DepsOverrides s' = (if enabled then mput (s_DepsOverrides s) target clock else mdel (s_DepsOverrides s) target)"
    and t: "s_TerminalStates s' = s_TerminalStates s"
    by (simp_all add: assms(2) applyDepsOverrideEvent_def Let_def split: option.split)
  have same: "inferred_entry deps states ov s' now = inferred_entry deps states ov s now" for deps states ov
    by (simp add: fun_eq_iff inferred_entry_def isTerminalState_def t cong: option.case_cong)
  let ?new = "inferred_entry (resolveDependenciesConfig cfg) (candidate_states candidates) (s_DepsOverrides s') s now"
  let ?old = "inferred_entry (resolveDependenciesConfig cfg) (candidate_states candidates) (s_DepsOverrides s) s now"
  note rec = assms(1) [unfolded ReconcileInferredDeps_def]
  have hit: "override_entry cfg enabled (?old e) = ?new e" if "ie_Target e = target" for e
    by (rule override_entry_eq [OF that]) (simp add: o)
  have miss: "?new e = ?old e" if "ie_Target e \<noteq> target" for e
    by (rule inferred_entry_other) (use that in \<open>simp add: o\<close>)
  show ?thesis
  proof (cases "k = target")
    case True
    have "mget (s_InferredDeps s') target = map_option (map (override_entry cfg enabled)) (mget (s_InferredDeps s) target)"
      by (simp add: assms(2) applyDepsOverrideEvent_def Let_def split: option.split)
    then show ?thesis unfolding ReconcileInferredDeps_def same reconciled True rec by (auto simp: Let_def hit)
  next
    case False
    have "mget (s_InferredDeps s') k = mget (s_InferredDeps s) k"
      using False by (simp add: assms(2) applyDepsOverrideEvent_def Let_def split: option.split)
    then show ?thesis unfolding ReconcileInferredDeps_def same reconciled rec using False by (auto simp: Let_def miss)
  qed
qed

definition ex_edges :: "inferred_edge list" where
  "ex_edges = [\<lparr>ie_Source = ''A-1'', ie_Target = ''B-1'', ie_Evidence = [], ie_InferredAt = 5, ie_Confidence = 1\<rparr>]"

definition ex_gated :: state where
  "ex_gated = ex_state\<lparr>s_InferredDeps := ReconcileInferredDeps ex_edges [ex_issue ''A-1''] [] ex_config ex_state 9\<rparr>"

theorem override_agrees_with_reconcile_witness:
  "map_option (map id_Gating) (mget (s_InferredDeps ex_gated) ''B-1'') = Some [True] \<and>
   map_option (map id_Gating) (mget (s_InferredDeps (applyDepsOverrideEvent ex_config 9 ex_gated ''B-1'' True)) ''B-1'') = Some [False]"
proof -
  let ?s = "applyDepsOverrideEvent ex_config 9 ex_gated ''B-1'' True"
  have "s_InferredDeps ex_gated = ReconcileInferredDeps ex_edges [ex_issue ''A-1''] (s_DepsOverrides ex_gated) ex_config ex_gated 9"
    by code_simp
  from override_agrees_with_reconcile [OF this refl, of 9 "''B-1''" True "''B-1''"]
  have "mget (s_InferredDeps ?s) ''B-1'' = mget (ReconcileInferredDeps ex_edges [ex_issue ''A-1''] (s_DepsOverrides ?s) ex_config ?s 9) ''B-1''" .
  moreover have "map_option (map id_Gating) (mget (ReconcileInferredDeps ex_edges [ex_issue ''A-1''] (s_DepsOverrides ?s) ex_config ?s 9) ''B-1'') = Some [False]"
    by code_simp
  moreover have "map_option (map id_Gating) (mget (s_InferredDeps ex_gated) ''B-1'') = Some [True]" by code_simp
  ultimately show ?thesis by simp
qed

end
