(* ===== verification/Dependency_Refresh.thy ===== *)
theory Dependency_Refresh
  imports Restack
begin

text \<open>
  The refresh of dependency rows (\<open>internal/orchestrator/dependency_refresh.go\<close>): a batch of audit rows is latched, fetched off
  the event loop and folded back. The tracker is an argument of the worker; its deadline is the argument \<open>expired\<close>, asked at every point where
  the code looks at the context, so that the theorems cover a deadline that strikes anywhere. The three settings of the refresh are \<open>refresh_settings\<close>.
\<close>

section \<open>Selection\<close>

record refresh_settings =
  rf_TimeoutMs :: int
  rf_IntervalMs :: int
  rf_BatchSize :: int

record refresh_target =
  tg_Key :: string
  tg_IssueID :: string
  tg_Identifier :: string

record refresh_candidate =
  cd_target :: refresh_target
  cd_priority :: bool
  cd_auditedAt :: time

definition dependencyRefreshTimeout :: "refresh_settings \<Rightarrow> duration" where
  "dependencyRefreshTimeout c = (if rf_TimeoutMs c \<le> 0 then 30000 * millisecond else wrap64 (rf_TimeoutMs c * millisecond))"

definition dependencyRefreshInterval :: "refresh_settings \<Rightarrow> duration" where
  "dependencyRefreshInterval c = (if rf_IntervalMs c \<le> 0 then 600000 * millisecond else wrap64 (rf_IntervalMs c * millisecond))"

definition dependencyRefreshBatchSize :: "refresh_settings \<Rightarrow> int" where
  "dependencyRefreshBatchSize c = (if rf_BatchSize c \<le> 0 then 100 else rf_BatchSize c)"

definition blockersResolvedQueueIdentifiers :: "state \<Rightarrow> string goset" where
  "blockersResolvedQueueIdentifiers s =
     foldl (\<lambda>m (_, q).
       if aq_TriggerType q \<noteq> AutomationTriggerBlockersResolved \<and> tr_Type (aq_Trigger q) \<noteq> AutomationTriggerBlockersResolved then m
       else let i = aq_Issue q;
                m1 = (if is_Identifier i \<noteq> [] then mput m (is_Identifier i) () else m)
            in if is_ID i \<noteq> [] then mput m1 (is_ID i) () else m1) [] (s_AutomationQueue s)"

definition fetchable :: "dependency_audit_entry \<Rightarrow> bool" where
  "fetchable e = (da_IssueID e \<noteq> [] \<or> da_Identifier e \<noteq> [])"

definition refresh_due :: "time \<Rightarrow> duration \<Rightarrow> dependency_audit_entry \<Rightarrow> bool" where
  "refresh_due now interval e =
     (\<not> da_InFlight e \<and> da_LastAuditedAt e \<noteq> now \<and>
      (isZero (da_LastRefreshAttemptAt e) \<or> \<not> time_sub now (da_LastRefreshAttemptAt e) < interval))"

definition refresh_less :: "refresh_candidate \<Rightarrow> refresh_candidate \<Rightarrow> bool" where
  "refresh_less a b =
     (if cd_priority a \<noteq> cd_priority b then cd_priority a
      else if cd_auditedAt a \<noteq> cd_auditedAt b then cd_auditedAt a < cd_auditedAt b
      else tg_Key (cd_target a) < tg_Key (cd_target b))"

definition refresh_candidates :: "string goset \<Rightarrow> time \<Rightarrow> duration \<Rightarrow> (string, dependency_audit_entry) gomap \<Rightarrow> refresh_candidate list" where
  "refresh_candidates queued now interval rows =
     map (\<lambda>(k, e). \<lparr>cd_target = \<lparr>tg_Key = k, tg_IssueID = da_IssueID e, tg_Identifier = da_Identifier e\<rparr>,
         cd_priority = (mhas queued (da_Identifier e) \<or> da_IssueID e \<noteq> [] \<and> mhas queued (da_IssueID e)),
         cd_auditedAt = da_LastAuditedAt e\<rparr>)
       (filter (\<lambda>(k, e). refresh_due now interval e) rows)"

definition arm_row :: "time \<Rightarrow> (string, dependency_audit_entry) gomap \<Rightarrow> refresh_target \<Rightarrow> (string, dependency_audit_entry) gomap" where
  "arm_row now rows t =
     (case mget rows (tg_Key t) of
        None \<Rightarrow> rows
      | Some e \<Rightarrow> mput rows (tg_Key t) (e\<lparr>da_InFlight := True, da_LastRefreshAttemptAt := now\<rparr>))"

definition selectDependencyRefreshBatch :: "state \<Rightarrow> time \<Rightarrow> duration \<Rightarrow> int \<Rightarrow> state \<times> refresh_target list" where
  "selectDependencyRefreshBatch s now interval batchSize =
     (if s_DependencyAudit s = [] \<or> batchSize \<le> 0 then (s, [])
      else let rows = mkeep (\<lambda>_ e. fetchable e) (s_DependencyAudit s);
               sorted_rows = stable_sort refresh_less (refresh_candidates (blockersResolvedQueueIdentifiers s) now interval rows);
               out = map cd_target (take (nat batchSize) sorted_rows)
           in (s\<lparr>s_DependencyAudit := foldl (arm_row now) rows out\<rparr>, out))"

fun dedup_trimmed :: "string list \<Rightarrow> string list \<Rightarrow> string list" where
  "dedup_trimmed seen [] = []"
| "dedup_trimmed seen (v # vs) =
     (let key = to_lower (trim_space v)
      in if key = [] \<or> key \<in> set seen then dedup_trimmed seen vs else v # dedup_trimmed (key # seen) vs)"

definition deduplicateStringsFold :: "string list \<Rightarrow> string list" where
  "deduplicateStringsFold vs = dedup_trimmed [] vs"

definition pendingBlockersResolvedStates :: "blockers_resolved_automation list \<Rightarrow> state \<Rightarrow> string list" where
  "pendingBlockersResolvedStates automations s =
     (if automations = [] \<or> s_DependencyTransitionSeq s = s_LastBlockersResolvedAuditSeq s then []
      else deduplicateStringsFold (concat (map bra_States automations)))"

section \<open>The worker\<close>

record refresh_order =
  od_Targets :: "refresh_target list"
  od_States :: "string list"
  od_Timeout :: duration
  od_StartedAt :: time
  od_Generation :: int
  od_SeqAtLaunch :: int

record refresh_result =
  dr_BatchKeys :: "string list"
  dr_Issues :: "(string \<times> issue) list"
  dr_MissingKeys :: "string list"
  dr_FailedKeys :: "string list"
  dr_BlockersResolvedIssues :: "issue list"
  dr_BlockersResolvedRan :: bool
  dr_BlockersResolvedOK :: bool
  dr_StartedAt :: time
  dr_FinishedAt :: time
  dr_Generation :: int
  dr_SeqAtLaunch :: int

datatype refresh_point = BeforeStates | BeforeBatch | BeforeTarget string

record refresh_io =
  io_tracker :: tracker_ops
  io_byStates :: "string list \<Rightarrow> issue list option"
  io_expired :: "refresh_point \<Rightarrow> bool"

definition dependencyRefreshDegradeBudget :: nat where "dependencyRefreshDegradeBudget = 10"

definition partitionRefreshTargets :: "refresh_target list \<Rightarrow> refresh_target list \<times> refresh_target list" where
  "partitionRefreshTargets ts = (filter (\<lambda>t. tg_IssueID t \<noteq> []) ts, filter (\<lambda>t. tg_IssueID t = []) ts)"

definition boundRefreshDegradation :: "refresh_target list \<Rightarrow> refresh_target list \<times> refresh_target list" where
  "boundRefreshDegradation ts = (take dependencyRefreshDegradeBudget ts, drop dependencyRefreshDegradeBudget ts)"

definition fetchDependencyRefreshIssue :: "tracker_ops \<Rightarrow> refresh_target \<Rightarrow> issue_fetch" where
  "fetchDependencyRefreshIssue tk t =
     (let r = (if tg_IssueID t \<noteq> [] then tk_FetchIssueDetail tk (tg_IssueID t)
               else if tg_Identifier t \<noteq> [] then tk_FetchIssueByIdentifier tk (tg_Identifier t)
               else FetchNotFound [])
      in case r of FetchNil \<Rightarrow> FetchNotFound [] | _ \<Rightarrow> r)"

definition file_fetch :: "refresh_result \<Rightarrow> refresh_target \<Rightarrow> issue_fetch \<Rightarrow> refresh_result" where
  "file_fetch r t outcome =
     (case outcome of
        Fetched issue \<Rightarrow> r\<lparr>dr_Issues := dr_Issues r @ [(tg_Key t, issue)]\<rparr>
      | FetchFailed _ \<Rightarrow> r\<lparr>dr_FailedKeys := dr_FailedKeys r @ [tg_Key t]\<rparr>
      | _ \<Rightarrow> r\<lparr>dr_MissingKeys := dr_MissingKeys r @ [tg_Key t]\<rparr>)"

definition confirm_target :: "refresh_io \<Rightarrow> (string, issue) gomap \<Rightarrow> refresh_result \<Rightarrow> refresh_target \<Rightarrow> refresh_result" where
  "confirm_target io byID r t =
     (case mget byID (tg_IssueID t) of
        Some issue \<Rightarrow> r\<lparr>dr_Issues := dr_Issues r @ [(tg_Key t, issue)]\<rparr>
      | None \<Rightarrow>
          if io_expired io (BeforeTarget (tg_Key t)) then r\<lparr>dr_FailedKeys := dr_FailedKeys r @ [tg_Key t]\<rparr>
          else file_fetch r t (fetchDependencyRefreshIssue (io_tracker io) t))"

definition confirmDependencyRefreshTargets :: "refresh_io \<Rightarrow> refresh_target list \<Rightarrow> (string, issue) gomap \<Rightarrow> refresh_result \<Rightarrow> refresh_result" where
  "confirmDependencyRefreshTargets io ts byID r = foldl (confirm_target io byID) r ts"

definition fetchDependencyRefreshBatched :: "refresh_io \<Rightarrow> refresh_target list \<Rightarrow> refresh_result \<Rightarrow> refresh_result" where
  "fetchDependencyRefreshBatched io ts r =
     (if ts = [] \<or> io_expired io BeforeBatch then r
      else case tk_FetchIssueStatesByIDs (io_tracker io) (map tg_IssueID ts) of
        None \<Rightarrow>
          (let (confirm, deferred) = boundRefreshDegradation ts;
               r1 = confirmDependencyRefreshTargets io confirm [] r
           in r1\<lparr>dr_FailedKeys := dr_FailedKeys r1 @ map tg_Key deferred\<rparr>)
      | Some issues \<Rightarrow>
          confirmDependencyRefreshTargets io ts (foldl (\<lambda>m i. mput m (is_ID i) i) [] issues) r)"

fun fetch_each :: "refresh_io \<Rightarrow> refresh_target list \<Rightarrow> refresh_result \<Rightarrow> refresh_result" where
  "fetch_each io [] r = r"
| "fetch_each io (t # ts) r =
     (if io_expired io (BeforeTarget (tg_Key t)) then r
      else fetch_each io ts (file_fetch r t (fetchDependencyRefreshIssue (io_tracker io) t)))"

definition scan_states :: "refresh_io \<Rightarrow> string list \<Rightarrow> refresh_result \<Rightarrow> refresh_result" where
  "scan_states io states r =
     (if states = [] \<or> io_expired io BeforeStates then r
      else case io_byStates io states of
        None \<Rightarrow> r\<lparr>dr_BlockersResolvedRan := True\<rparr>
      | Some issues \<Rightarrow> r\<lparr>dr_BlockersResolvedRan := True, dr_BlockersResolvedOK := True, dr_BlockersResolvedIssues := issues\<rparr>)"

definition runDependencyRefresh :: "refresh_io \<Rightarrow> refresh_order \<Rightarrow> time \<Rightarrow> refresh_result" where
  "runDependencyRefresh io order finished =
     (let r0 = \<lparr>dr_BatchKeys = map tg_Key (od_Targets order), dr_Issues = [], dr_MissingKeys = [], dr_FailedKeys = [],
            dr_BlockersResolvedIssues = [], dr_BlockersResolvedRan = False, dr_BlockersResolvedOK = False,
            dr_StartedAt = od_StartedAt order, dr_FinishedAt = 0, dr_Generation = od_Generation order, dr_SeqAtLaunch = od_SeqAtLaunch order\<rparr>;
          r1 = scan_states io (od_States order) r0;
          (batched, perIssue) = partitionRefreshTargets (od_Targets order)
      in (fetch_each io perIssue (fetchDependencyRefreshBatched io batched r1))\<lparr>dr_FinishedAt := finished\<rparr>)"

section \<open>On the event loop\<close>

definition set_row :: "(dependency_audit_entry \<Rightarrow> dependency_audit_entry) \<Rightarrow> state \<Rightarrow> string \<Rightarrow> state" where
  "set_row f s k =
     (case mget (s_DependencyAudit s) k of
        None \<Rightarrow> s
      | Some e \<Rightarrow> s\<lparr>s_DependencyAudit := mput (s_DependencyAudit s) k (f e)\<rparr>)"

definition drop_row :: "state \<Rightarrow> string \<Rightarrow> state" where
  "drop_row s k = s\<lparr>s_DependencyAudit := mdel (s_DependencyAudit s) k\<rparr>"

definition superseded :: "state \<Rightarrow> string \<Rightarrow> time \<Rightarrow> bool" where
  "superseded s k startedAt = (case mget (s_DependencyAudit s) k of Some e \<Rightarrow> \<not> da_LastAuditedAt e < startedAt | None \<Rightarrow> False)"

definition apply_refreshed ::
  "restacker \<Rightarrow> automation_rules \<Rightarrow> config \<Rightarrow> time \<Rightarrow> time \<Rightarrow> daemon \<Rightarrow> string \<times> issue \<Rightarrow> daemon" where
  "apply_refreshed restacker rules cfg now startedAt d refreshed =
     (case refreshed of (requestKey, issue) \<Rightarrow>
        let newKey = dependencyAuditKey issue
        in if \<not> mhas (s_DependencyAudit (snd d)) requestKey \<or> superseded (snd d) requestKey startedAt then d
           else if newKey \<noteq> [] \<and> superseded (snd d) newKey startedAt then d
           else let (o1, s1) = fst (auditFetchedIssueDependenciesAndDispatch restacker rules cfg d issue now);
                    s2 = (if newKey \<noteq> [] \<and> newKey \<noteq> requestKey then drop_row s1 requestKey else s1)
                in (o1, set_row (\<lambda>e. e\<lparr>da_ConsecutiveFailures := 0, da_InFlight := False, da_LastRefreshAttemptAt := now\<rparr>) s2 newKey))"

definition apply_scanned :: "restacker \<Rightarrow> automation_rules \<Rightarrow> config \<Rightarrow> time \<Rightarrow> time \<Rightarrow> daemon \<Rightarrow> issue \<Rightarrow> daemon" where
  "apply_scanned restacker rules cfg now startedAt d issue =
     (if superseded (snd d) (dependencyAuditKey issue) startedAt then d
      else fst (auditFetchedIssueDependenciesAndDispatch restacker rules cfg d issue now))"

definition release_batch :: "refresh_result \<Rightarrow> state \<Rightarrow> state" where
  "release_batch r s =
     (let s1 = s\<lparr>s_DepsRefreshInFlight := False, s_DepsRefreshBatchSize := 0, s_DepsRefreshStartedAt := 0,
            s_DepsRefreshLastDurationMs := (if \<not> isZero (dr_FinishedAt r) \<and> \<not> isZero (dr_StartedAt r)
              then go_div (time_sub (dr_FinishedAt r) (dr_StartedAt r)) millisecond else s_DepsRefreshLastDurationMs s)\<rparr>;
          s2 = foldl (set_row (\<lambda>e. e\<lparr>da_InFlight := False\<rparr>)) s1 (dr_BatchKeys r);
          s3 = foldl drop_row s2 (dr_MissingKeys r)
      in foldl (set_row (\<lambda>e. e\<lparr>da_ConsecutiveFailures := da_ConsecutiveFailures e + 1\<rparr>)) s3 (dr_FailedKeys r))"

definition applyDependencyRefreshResult ::
  "restacker \<Rightarrow> automation_rules \<Rightarrow> config \<Rightarrow> time \<Rightarrow> daemon \<Rightarrow> refresh_result option \<Rightarrow> daemon" where
  "applyDependencyRefreshResult restacker rules cfg now d result =
     (case result of
        None \<Rightarrow> d
      | Some r \<Rightarrow>
          if dr_Generation r \<noteq> s_DepsRefreshGeneration (snd d) then d
          else let d1 = (fst d, release_batch r (snd d));
                   d2 = foldl (apply_refreshed restacker rules cfg now (dr_StartedAt r)) d1 (dr_Issues r)
               in if dr_BlockersResolvedRan r \<and> dr_BlockersResolvedOK r
                  then let d3 = foldl (apply_scanned restacker rules cfg now (dr_StartedAt r)) d2 (dr_BlockersResolvedIssues r)
                       in (fst d3, (snd d3)\<lparr>s_LastBlockersResolvedAuditSeq := dr_SeqAtLaunch r\<rparr>)
                  else d2)"

definition dependencyRefreshWatchdogGrace :: duration where "dependencyRefreshWatchdogGrace = 5 * second"

definition reclaimStuckDependencyRefresh :: "refresh_settings \<Rightarrow> time \<Rightarrow> state \<Rightarrow> state" where
  "reclaimStuckDependencyRefresh c now s =
     (if \<not> s_DepsRefreshInFlight s then s
      else if time_sub now (s_DepsRefreshStartedAt s) \<le> dependencyRefreshTimeout c + dependencyRefreshWatchdogGrace then s
      else s\<lparr>s_DependencyAudit := map (\<lambda>(k, e). (k, e\<lparr>da_InFlight := False\<rparr>)) (s_DependencyAudit s),
             s_DepsRefreshInFlight := False, s_DepsRefreshBatchSize := 0, s_DepsRefreshStartedAt := 0,
             s_DepsRefreshGeneration := s_DepsRefreshGeneration s + 1\<rparr>)"

definition reconcileDependencyRefresh ::
  "refresh_settings \<Rightarrow> blockers_resolved_automation list \<Rightarrow> time \<Rightarrow> state \<Rightarrow> state \<times> refresh_order option" where
  "reconcileDependencyRefresh c automations now s =
     (let s1 = reclaimStuckDependencyRefresh c now s
      in if s_DepsRefreshInFlight s1 then (s1, None)
         else let (s2, targets) = selectDependencyRefreshBatch s1 now (dependencyRefreshInterval c) (dependencyRefreshBatchSize c);
                  states = pendingBlockersResolvedStates automations s2
              in if targets = [] \<and> states = [] then (s2, None)
                 else let s3 = s2\<lparr>s_DepsRefreshInFlight := True, s_DepsRefreshStartedAt := now,
                            s_DepsRefreshBatchSize := int (length targets), s_DepsRefreshGeneration := s_DepsRefreshGeneration s2 + 1\<rparr>
                      in (s3, Some \<lparr>od_Targets = targets, od_States = states, od_Timeout = dependencyRefreshTimeout c, od_StartedAt = now,
                             od_Generation = s_DepsRefreshGeneration s3, od_SeqAtLaunch = s_DependencyTransitionSeq s3\<rparr>))"

section \<open>What an audit does to the rows\<close>

text \<open>
  A part of the state that the paths to automation runs leave alone: gates, claims and queueing do not change it, so
  that dispatching automations does not. When restacking does not change it either, an audit changes it only by its own row.
\<close>

locale quiet_view =
  fixes view :: "state \<Rightarrow> 'v"
  assumes view_strip: "strip t = strip s \<Longrightarrow> view t = view s"
    and view_draining: "view (s\<lparr>s_Draining := True\<rparr>) = view s"
    and view_claim_issue: "view (claim_issue s k) = view s"
    and view_claim_run: "view (claim_and_run s k r) = view s"
    and view_enqueue: "view (fst (enqueueAutomation s issue a reason now)) = view s"
    and view_claim: "view (fst (claimPROpenedDedup s issue a)) = view s"
    and view_pause: "view (clear_switched_pause s issue a) = view s"
begin

lemma view_queue: "view (snd (fst (queue_automation d issue a r now))) = view (snd d)"
  using view_enqueue [of "snd d" issue a r now] by (simp add: queue_automation_def split_beta)

lemma view_sync: "view (snd (syncDrainRequest d)) = view (snd d)"
  by (simp add: syncDrainRequest_def applyDrain_def view_draining split: prod.split)

lemma view_start: "view (snd (fst (startAutomationRunOrHold cfg now d issue a))) = view (snd d)"
proof (cases rule: start_cases [of cfg now d issue a])
  case (nothing d1)
  then show ?thesis using view_sync [of d] by auto
next
  case (gated profile o2 host s2 g)
  have "view s2 = view (snd d)"
    using strip_gate [OF requests_strip(2)] gated(6) by (metis fst_conv view_strip)
  then show ?thesis
    by (simp add: gated(7) launch_automation_def view_claim_issue view_claim_run Let_def)
qed

lemma view_dispatchOrQueue: "view (snd (fst (dispatchOrQueueAutomation cfg now d issue a))) = view (snd d)"
proof -
  obtain s1 fresh where c: "claimPROpenedDedup (snd d) issue a = (s1, fresh)" by (cases "claimPROpenedDedup (snd d) issue a")
  obtain d1 r where st: "startAutomationRunOrHold cfg now (fst d, clear_switched_pause s1 issue a) issue a = (d1, r)"
    by (cases "startAutomationRunOrHold cfg now (fst d, clear_switched_pause s1 issue a) issue a")
  have s1: "view s1 = view (snd d)" using view_claim [of "snd d" issue a] by (simp add: c)
  have d1: "view (snd d1) = view (snd d)"
    using view_start [of cfg now "(fst d, clear_switched_pause s1 issue a)" issue a] by (simp add: st s1 view_pause)
  show ?thesis unfolding dispatchOrQueueAutomation_def Let_def c prod.case st by (cases r) (simp_all add: s1 d1 view_pause view_queue)
qed

lemma view_dispatch_all: "view (snd (dispatch_all cfg now issue d as)) = view (snd d)"
  unfolding dispatch_all_def by (induction as arbitrary: d) (simp_all add: view_dispatchOrQueue)

end

locale restack_view = quiet_view +
  assumes view_restack: "view (fst (restack_or_park restacker cfg s issue now)) = view s"
    and view_parked: "view (s\<lparr>s_PendingRestacks := m\<rparr>) = view s"
begin

lemma view_audit_dispatch:
  "view (snd (fst (auditFetchedIssueDependenciesAndDispatch restacker rules cfg d issue now)))
   = view (fst (auditFetchedIssueDependencies now (snd d) issue now))"
proof -
  obtain s1 entry where a: "auditFetchedIssueDependencies now (snd d) issue now = (s1, entry)"
    by (cases "auditFetchedIssueDependencies now (snd d) issue now")
  show ?thesis
    unfolding auditFetchedIssueDependenciesAndDispatch_def Let_def a prod.case
    by (simp add: split_beta view_restack view_parked view_dispatch_all dispatchMatchingBlockersResolvedAutomations_def)
qed

end

text \<open>The part of the state that the refresh owns.\<close>

definition refresh_view :: "state \<Rightarrow> (string, dependency_audit_entry) gomap \<times> bool \<times> int" where
  "refresh_view s = (s_DependencyAudit s, s_DepsRefreshInFlight s, s_DepsRefreshGeneration s)"

lemma view_fields:
  assumes "refresh_view t = refresh_view s"
  shows "s_DependencyAudit t = s_DependencyAudit s" "s_DepsRefreshInFlight t = s_DepsRefreshInFlight s"
    "s_DepsRefreshGeneration t = s_DepsRefreshGeneration s"
  using assms by (simp_all add: refresh_view_def)

interpretation refresh: restack_view refresh_view
proof
  have "refresh_view (strip x) = refresh_view x" for x by (simp add: refresh_view_def strip_def)
  then show "refresh_view t = refresh_view s" if "strip t = strip s" for s t by (metis that)
  show "refresh_view (fst (enqueueAutomation s issue a r now)) = refresh_view s" for s issue a r now
    unfolding enqueueAutomation_def Let_def refresh_view_def
    by (cases "automationQueueReasonFromString r")
      (simp_all add: split_beta ensureAutomationQueueState_def recordAutomationQueueRejected_def
        refreshAutomationQueueBackpressure_def Let_def split: option.split)
  show "refresh_view (fst (restack_or_park restacker cfg s issue now)) = refresh_view s" for restacker cfg s issue now
    by (auto simp: restack_or_park_def restackUnblockedIssue_def markRestackConflict_def refresh_view_def Let_def split: option.splits)
qed (simp_all add: refresh_view_def claim_and_run_def claim_issue_def claimPROpenedDedup_def clear_switched_pause_def clearPauseReason_def Let_def)

lemma view_audit:
  "refresh_view (fst (auditFetchedIssueDependencies c s issue now)) = refresh_view (fst (auditIssueDependencies (recordObservedIssueState c s issue now) issue now))"
  by (simp add: auditFetchedIssueDependencies_def updateAutomationQueueIssueFromDependencyAudit_def refresh_view_def Let_def split_beta)

lemma observed_rows [simp]:
  "s_DependencyAudit (recordObservedIssueState c s issue now) = s_DependencyAudit s"
  "s_DepsRefreshInFlight (recordObservedIssueState c s issue now) = s_DepsRefreshInFlight s"
  "s_DepsRefreshGeneration (recordObservedIssueState c s issue now) = s_DepsRefreshGeneration s"
  by (simp_all add: recordObservedIssueState_def appendIssueStatusChange_def Let_def)

text \<open>One audit writes one row, stamps it with the time and keeps its latch of the refresh.\<close>

lemma audited_rows:
  assumes t_def: "t = snd (fst (auditFetchedIssueDependenciesAndDispatch restacker rules cfg d issue now))"
  shows "k \<noteq> dependencyAuditKey issue \<Longrightarrow> mget (s_DependencyAudit t) k = mget (s_DependencyAudit (snd d)) k"
    and "\<exists>e. mget (s_DependencyAudit t) (dependencyAuditKey issue) = Some e \<and> da_LastAuditedAt e = now \<and>
      (da_InFlight e \<longrightarrow> (\<exists>p. mget (s_DependencyAudit (snd d)) (dependencyAuditKey issue) = Some p \<and> da_InFlight p))"
    and "s_DepsRefreshInFlight t = s_DepsRefreshInFlight (snd d)" "s_DepsRefreshGeneration t = s_DepsRefreshGeneration (snd d)"
proof -
  let ?u = "fst (auditIssueDependencies (recordObservedIssueState now (snd d) issue now) issue now)"
  have v: "refresh_view t = refresh_view ?u" by (simp add: t_def refresh.view_audit_dispatch view_audit)
  show "k \<noteq> dependencyAuditKey issue \<Longrightarrow> mget (s_DependencyAudit t) k = mget (s_DependencyAudit (snd d)) k"
    by (simp add: view_fields [OF v] audit_other_rows)
  show "\<exists>e. mget (s_DependencyAudit t) (dependencyAuditKey issue) = Some e \<and> da_LastAuditedAt e = now \<and>
      (da_InFlight e \<longrightarrow> (\<exists>p. mget (s_DependencyAudit (snd d)) (dependencyAuditKey issue) = Some p \<and> da_InFlight p))"
    by (simp add: view_fields [OF v] auditIssueDependencies_def audit_carry_def audit_arm_def audit_row_def Let_def split: option.split)
  show "s_DepsRefreshInFlight t = s_DepsRefreshInFlight (snd d)" "s_DepsRefreshGeneration t = s_DepsRefreshGeneration (snd d)"
    by (simp_all add: view_fields [OF v] auditIssueDependencies_def Let_def)
qed

section \<open>The latches of the rows\<close>

definition latched :: "state \<Rightarrow> string \<Rightarrow> bool" where
  "latched s k = (case mget (s_DependencyAudit s) k of Some e \<Rightarrow> da_InFlight e | None \<Rightarrow> False)"

lemma audit_latched:
  assumes "latched (snd (fst (auditFetchedIssueDependenciesAndDispatch restacker rules cfg d issue now))) k"
  shows "latched (snd d) k"
  using assms audited_rows(1) [OF refl, of k issue restacker rules cfg d now] audited_rows(2) [OF refl, of restacker rules cfg d issue now]
  by (cases "k = dependencyAuditKey issue") (auto simp: latched_def split: option.splits)

lemma audit_rows_wf:
  assumes "mwf (s_DependencyAudit (snd d))"
  shows "mwf (s_DependencyAudit (snd (fst (auditFetchedIssueDependenciesAndDispatch restacker rules cfg d issue now))))"
proof -
  have "refresh_view (snd (fst (auditFetchedIssueDependenciesAndDispatch restacker rules cfg d issue now)))
    = refresh_view (fst (auditIssueDependencies (recordObservedIssueState now (snd d) issue now) issue now))"
    by (simp add: refresh.view_audit_dispatch view_audit)
  from view_fields(1) [OF this] show ?thesis using assms by (simp add: auditIssueDependencies_def Let_def)
qed

lemma set_row_rows:
  "mget (s_DependencyAudit (set_row f s k)) j = (if j = k then map_option f (mget (s_DependencyAudit s) k) else mget (s_DependencyAudit s) j)"
  "mwf (s_DependencyAudit s) \<Longrightarrow> mwf (s_DependencyAudit (set_row f s k))"
  "s_DepsRefreshInFlight (set_row f s k) = s_DepsRefreshInFlight s" "s_DepsRefreshGeneration (set_row f s k) = s_DepsRefreshGeneration s"
  by (auto simp: set_row_def split: option.split)

lemma drop_row_rows:
  "mget (s_DependencyAudit (drop_row s k)) j = (if j = k then None else mget (s_DependencyAudit s) j)"
  "mwf (s_DependencyAudit s) \<Longrightarrow> mwf (s_DependencyAudit (drop_row s k))"
  "s_DepsRefreshInFlight (drop_row s k) = s_DepsRefreshInFlight s" "s_DepsRefreshGeneration (drop_row s k) = s_DepsRefreshGeneration s"
  by (simp_all add: drop_row_def)

lemmas row_simps = set_row_rows drop_row_rows

lemma foldl_preserves: "(\<And>s x. P s \<Longrightarrow> P (f s x)) \<Longrightarrow> P s \<Longrightarrow> P (foldl f s xs)"
  by (rule foldl_invariant)

lemma cleared_rows: "latched (foldl (set_row (\<lambda>e. e\<lparr>da_InFlight := False\<rparr>)) s ks) k \<Longrightarrow> latched s k \<and> k \<notin> set ks"
  by (induction ks arbitrary: s) (fastforce simp: latched_def row_simps split: option.splits if_splits)+

lemma armed_rows: "latched (s\<lparr>s_DependencyAudit := foldl (arm_row now) rows ts\<rparr>) k \<Longrightarrow>
    latched (s\<lparr>s_DependencyAudit := rows\<rparr>) k \<or> k \<in> tg_Key ` set ts"
proof (induction ts arbitrary: rows)
  case (Cons t ts)
  then have "latched (s\<lparr>s_DependencyAudit := arm_row now rows t\<rparr>) k \<or> k \<in> tg_Key ` set ts" by simp
  then show ?case by (auto simp: latched_def arm_row_def split: option.splits if_splits)
qed simp

lemma armed_wf: "mwf rows \<Longrightarrow> mwf (foldl (arm_row now) rows ts)"
  by (induction ts arbitrary: rows) (auto simp: arm_row_def split: option.split)

lemma select_latches:
  assumes "selectDependencyRefreshBatch s now i b = (s', ts)" and "mwf (s_DependencyAudit s)"
  shows "latched s' k \<Longrightarrow> latched s k \<or> k \<in> tg_Key ` set ts" and "mwf (s_DependencyAudit s')"
    and "s_DepsRefreshInFlight s' = s_DepsRefreshInFlight s" "s_DepsRefreshGeneration s' = s_DepsRefreshGeneration s"
proof -
  let ?rows = "mkeep (\<lambda>_ e. fetchable e) (s_DependencyAudit s)"
  have kept: "latched (s\<lparr>s_DependencyAudit := ?rows\<rparr>) k \<Longrightarrow> latched s k"
    using assms(2) by (auto simp: latched_def mget_mkeep split: option.splits if_splits)
  show "latched s' k \<Longrightarrow> latched s k \<or> k \<in> tg_Key ` set ts"
    using assms(1) armed_rows [where s = s and now = now and rows = ?rows and ts = ts and k = k] kept
    by (auto simp: selectDependencyRefreshBatch_def Let_def split: if_splits)
  show "mwf (s_DependencyAudit s')" using assms by (auto simp: selectDependencyRefreshBatch_def Let_def armed_wf split: if_splits)
  show "s_DepsRefreshInFlight s' = s_DepsRefreshInFlight s" "s_DepsRefreshGeneration s' = s_DepsRefreshGeneration s"
    using assms(1) by (auto simp: selectDependencyRefreshBatch_def Let_def split: if_splits)
qed

lemma release_latches:
  "latched (release_batch r s) k \<Longrightarrow> latched s k \<and> k \<notin> set (dr_BatchKeys r)"
  "mwf (s_DependencyAudit s) \<Longrightarrow> mwf (s_DependencyAudit (release_batch r s))"
  "\<not> s_DepsRefreshInFlight (release_batch r s)" "s_DepsRefreshGeneration (release_batch r s) = s_DepsRefreshGeneration s"
proof -
  let ?s1 = "s\<lparr>s_DepsRefreshInFlight := False, s_DepsRefreshBatchSize := 0, s_DepsRefreshStartedAt := 0,
            s_DepsRefreshLastDurationMs := (if \<not> isZero (dr_FinishedAt r) \<and> \<not> isZero (dr_StartedAt r)
              then go_div (time_sub (dr_FinishedAt r) (dr_StartedAt r)) millisecond else s_DepsRefreshLastDurationMs s)\<rparr>"
  let ?clear = "set_row (\<lambda>e. e\<lparr>da_InFlight := False\<rparr>)" and ?failed = "set_row (\<lambda>e. e\<lparr>da_ConsecutiveFailures := da_ConsecutiveFailures e + 1\<rparr>)"
  have keep: "\<not> latched t k \<Longrightarrow> \<not> latched (?failed t j) k" "\<not> latched t k \<Longrightarrow> \<not> latched (drop_row t j) k" for t j
    by (auto simp: latched_def row_simps split: option.splits if_splits)
  have same: "latched ?s1 k = latched s k" by (simp add: latched_def)
  have "\<not> latched (release_batch r s) k" if "\<not> latched (foldl ?clear ?s1 (dr_BatchKeys r)) k"
    unfolding release_batch_def Let_def
    by (intro foldl_preserves [where P = "\<lambda>t. \<not> latched t k", OF keep(1)] foldl_preserves [where P = "\<lambda>t. \<not> latched t k", OF keep(2)] that)
  then show "latched (release_batch r s) k \<Longrightarrow> latched s k \<and> k \<notin> set (dr_BatchKeys r)"
    using cleared_rows [of ?s1 "dr_BatchKeys r" k] same by blast
  note fold = foldl_preserves [where P = "\<lambda>t. mwf (s_DependencyAudit t)", OF row_simps(2)]
    foldl_preserves [where P = "\<lambda>t. mwf (s_DependencyAudit t)", OF row_simps(6)]
  show "mwf (s_DependencyAudit s) \<Longrightarrow> mwf (s_DependencyAudit (release_batch r s))"
    unfolding release_batch_def Let_def by (intro fold) simp_all
  let ?P = "\<lambda>t. \<not> s_DepsRefreshInFlight t \<and> s_DepsRefreshGeneration t = s_DepsRefreshGeneration s"
  have "?P (release_batch r s)"
    unfolding release_batch_def Let_def by (intro foldl_preserves [where P = ?P]) (simp_all add: row_simps)
  then show "\<not> s_DepsRefreshInFlight (release_batch r s)" "s_DepsRefreshGeneration (release_batch r s) = s_DepsRefreshGeneration s"
    by simp_all
qed

text \<open>Folding the fetched issues in adds no latch.\<close>

definition calm :: "state \<Rightarrow> int \<Rightarrow> bool" where
  "calm s gen \<longleftrightarrow> mwf (s_DependencyAudit s) \<and> (\<forall>k. \<not> latched s k) \<and> \<not> s_DepsRefreshInFlight s \<and> s_DepsRefreshGeneration s = gen"

lemma calm_audit:
  assumes "calm (snd d) gen"
  shows "calm (snd (fst (auditFetchedIssueDependenciesAndDispatch restacker rules cfg d issue now))) gen"
  using assms audit_latched audit_rows_wf audited_rows(3,4) [OF refl, of restacker rules cfg d issue now] unfolding calm_def by blast

lemma calm_rows:
  "calm s gen \<Longrightarrow> calm (drop_row s k) gen"
  "calm s gen \<Longrightarrow> calm (set_row (\<lambda>e. e\<lparr>da_ConsecutiveFailures := n, da_InFlight := False, da_LastRefreshAttemptAt := t\<rparr>) s k) gen"
  by (auto simp: calm_def latched_def row_simps split: option.splits if_splits)

lemma calm_refreshed:
  assumes "calm (snd d) gen"
  shows "calm (snd (apply_refreshed restacker rules cfg now st d refreshed)) gen"
  using assms calm_audit [OF assms, of restacker rules cfg _ now]
  by (auto simp: apply_refreshed_def Let_def split_beta intro!: calm_rows)

lemma calm_scanned: "calm (snd d) gen \<Longrightarrow> calm (snd (apply_scanned restacker rules cfg now st d issue)) gen"
  using calm_audit by (simp add: apply_scanned_def)

lemma apply_calms:
  assumes "dr_Generation r = s_DepsRefreshGeneration (snd d)" and "mwf (s_DependencyAudit (snd d))"
    and "\<forall>k. latched (snd d) k \<longrightarrow> k \<in> set (dr_BatchKeys r)"
  shows "calm (snd (applyDependencyRefreshResult restacker rules cfg now d (Some r))) (s_DepsRefreshGeneration (snd d))"
proof -
  let ?gen = "s_DepsRefreshGeneration (snd d)" and ?d1 = "(fst d, release_batch r (snd d))"
  have d1: "calm (snd ?d1) ?gen" using release_latches [where r = r and s = "snd d"] assms(2,3) unfolding calm_def by auto
  let ?d2 = "foldl (apply_refreshed restacker rules cfg now (dr_StartedAt r)) ?d1 (dr_Issues r)"
  let ?d3 = "foldl (apply_scanned restacker rules cfg now (dr_StartedAt r)) ?d2 (dr_BlockersResolvedIssues r)"
  have d2: "calm (snd ?d2) ?gen" by (rule foldl_preserves [where P = "\<lambda>d. calm (snd d) ?gen", OF calm_refreshed d1])
  have d3: "calm (snd ?d3) ?gen" by (rule foldl_preserves [where P = "\<lambda>d. calm (snd d) ?gen", OF calm_scanned d2])
  then have "calm ((snd ?d3)\<lparr>s_LastBlockersResolvedAuditSeq := dr_SeqAtLaunch r\<rparr>) ?gen" by (simp add: calm_def latched_def)
  with d2 show ?thesis using assms(1) by (simp add: applyDependencyRefreshResult_def Let_def)
qed

section \<open>No row stays latched\<close>

text \<open>
  What the loop does to the refresh, together with the orders that were launched: a reconciliation that may launch one, the watchdog, the
  result of a launched order, whenever it arrives and whatever the tracker answered, an audit, and anything else that sets no latch.
\<close>

inductive refresh_step :: "state \<times> refresh_order list \<Rightarrow> state \<times> refresh_order list \<Rightarrow> bool" where
  reconcile: "reconcileDependencyRefresh c automations now s = (s', order) \<Longrightarrow>
    refresh_step (s, os) (s', (case order of None \<Rightarrow> os | Some od \<Rightarrow> od # os))"
| watchdog: "refresh_step (s, os) (reclaimStuckDependencyRefresh c now s, os)"
| result: "od \<in> set os \<Longrightarrow>
    refresh_step (s, os) (snd (applyDependencyRefreshResult restacker rules cfg now (orc, s) (Some (runDependencyRefresh io od finished))), os)"
| audit: "refresh_step (s, os) (snd (fst (auditFetchedIssueDependenciesAndDispatch restacker rules cfg (orc, s) issue now)), os)"
| other: "\<forall>k. latched s' k \<longrightarrow> latched s k \<Longrightarrow> mwf (s_DependencyAudit s') \<Longrightarrow> s_DepsRefreshInFlight s' = s_DepsRefreshInFlight s \<Longrightarrow>
    s_DepsRefreshGeneration s' = s_DepsRefreshGeneration s \<Longrightarrow> refresh_step (s, os) (s', os)"

definition held_by :: "state \<Rightarrow> refresh_order \<Rightarrow> bool" where
  "held_by s od \<longleftrightarrow> od_Generation od \<le> s_DepsRefreshGeneration s \<and>
     (od_Generation od = s_DepsRefreshGeneration s \<longrightarrow> (\<forall>k. latched s k \<longrightarrow> k \<in> tg_Key ` set (od_Targets od)))"

definition refresh_ok :: "state \<times> refresh_order list \<Rightarrow> bool" where
  "refresh_ok so \<longleftrightarrow> mwf (s_DependencyAudit (fst so)) \<and> (\<forall>k. latched (fst so) k \<longrightarrow> s_DepsRefreshInFlight (fst so)) \<and>
     list_all (held_by (fst so)) (snd so)"

lemma worker_keeps_keys: "dr_BatchKeys (runDependencyRefresh io od f) = map tg_Key (od_Targets od)"
  and worker_keeps_gen: "dr_Generation (runDependencyRefresh io od f) = od_Generation od"
  and worker_keeps_start: "dr_StartedAt (runDependencyRefresh io od f) = od_StartedAt od"
proof -
  let ?same = "\<lambda>r r'. dr_BatchKeys r' = dr_BatchKeys r \<and> dr_Generation r' = dr_Generation r \<and> dr_StartedAt r' = dr_StartedAt r"
  have filed: "?same r (file_fetch r t x)" for r t x by (simp add: file_fetch_def split: issue_fetch.split)
  have target: "?same r (confirm_target io m r t)" for r m t
    using filed [of r t "fetchDependencyRefreshIssue (io_tracker io) t"] by (simp add: confirm_target_def split: option.split)
  have confirm: "?same r (confirmDependencyRefreshTargets io ts m r)" for r m ts
    unfolding confirmDependencyRefreshTargets_def by (induction ts arbitrary: r) (simp_all add: target)
  have batched: "?same r (fetchDependencyRefreshBatched io ts r)" for r ts
    by (simp add: fetchDependencyRefreshBatched_def boundRefreshDegradation_def confirm Let_def split: option.split)
  have each: "?same r (fetch_each io ts r)" for r ts by (induction ts arbitrary: r) (simp_all add: filed)
  have scan: "?same r (scan_states io ss r)" for r ss by (simp add: scan_states_def split: option.split)
  show "dr_BatchKeys (runDependencyRefresh io od f) = map tg_Key (od_Targets od)"
    "dr_Generation (runDependencyRefresh io od f) = od_Generation od" "dr_StartedAt (runDependencyRefresh io od f) = od_StartedAt od"
    by (simp_all add: runDependencyRefresh_def partitionRefreshTargets_def Let_def each batched scan)
qed

lemma reclaimed_rows:
  assumes "s_DepsRefreshInFlight s" and "dependencyRefreshTimeout c + dependencyRefreshWatchdogGrace < time_sub now (s_DepsRefreshStartedAt s)"
  shows "\<not> latched (reclaimStuckDependencyRefresh c now s) k" "\<not> s_DepsRefreshInFlight (reclaimStuckDependencyRefresh c now s)"
    "s_DepsRefreshGeneration (reclaimStuckDependencyRefresh c now s) = s_DepsRefreshGeneration s + 1"
proof -
  have get: "map_of (map (\<lambda>(k, e). (k, e\<lparr>da_InFlight := False\<rparr>)) m) k = map_option (\<lambda>e. e\<lparr>da_InFlight := False\<rparr>) (map_of m k)" for m
    by (induction m) auto
  show "\<not> latched (reclaimStuckDependencyRefresh c now s) k" "\<not> s_DepsRefreshInFlight (reclaimStuckDependencyRefresh c now s)"
    "s_DepsRefreshGeneration (reclaimStuckDependencyRefresh c now s) = s_DepsRefreshGeneration s + 1"
    using assms by (auto simp: reclaimStuckDependencyRefresh_def latched_def get split: option.split)
qed

lemma ok_reclaim:
  assumes "refresh_ok (s, os)"
  shows "refresh_ok (reclaimStuckDependencyRefresh c now s, os)"
proof (cases "s_DepsRefreshInFlight s \<and> dependencyRefreshTimeout c + dependencyRefreshWatchdogGrace < time_sub now (s_DepsRefreshStartedAt s)")
  case True
  note r = reclaimed_rows [OF conjunct1 [OF True] conjunct2 [OF True]]
  have "mwf (s_DependencyAudit (reclaimStuckDependencyRefresh c now s))"
    using assms True by (auto simp: refresh_ok_def reclaimStuckDependencyRefresh_def mwf_def mkeys_def case_prod_beta comp_def)
  then show ?thesis using assms r by (auto simp: refresh_ok_def held_by_def list_all_iff)
next
  case False
  then have "reclaimStuckDependencyRefresh c now s = s" by (auto simp: reclaimStuckDependencyRefresh_def)
  then show ?thesis using assms by simp
qed

lemma ok_launch:
  assumes "refresh_ok (s, os)" and "reconcileDependencyRefresh c automations now s = (s', order)"
  shows "refresh_ok (s', (case order of None \<Rightarrow> os | Some od \<Rightarrow> od # os))"
proof -
  let ?s1 = "reclaimStuckDependencyRefresh c now s"
  have s1: "refresh_ok (?s1, os)" by (rule ok_reclaim [OF assms(1)])
  show ?thesis
  proof (cases "s_DepsRefreshInFlight ?s1")
    case True
    then show ?thesis using assms(2) s1 by (auto simp: reconcileDependencyRefresh_def Let_def)
  next
    case False
    obtain s2 ts where sel: "selectDependencyRefreshBatch ?s1 now (dependencyRefreshInterval c) (dependencyRefreshBatchSize c) = (s2, ts)"
      by (cases "selectDependencyRefreshBatch ?s1 now (dependencyRefreshInterval c) (dependencyRefreshBatchSize c)")
    have wf: "mwf (s_DependencyAudit ?s1)" and none: "\<not> latched ?s1 k" for k using s1 False by (auto simp: refresh_ok_def)
    note l = select_latches [OF sel wf]
    have lat: "latched s2 k \<Longrightarrow> k \<in> tg_Key ` set ts" for k using l(1) none by blast
    have gens: "od \<in> set os \<Longrightarrow> od_Generation od \<le> s_DepsRefreshGeneration ?s1" for od
      using s1 by (auto simp: refresh_ok_def list_all_iff held_by_def)
    show ?thesis
    proof (cases "ts = [] \<and> pendingBlockersResolvedStates automations s2 = []")
      case True
      then show ?thesis using assms(2) False l lat gens
        by (auto simp: reconcileDependencyRefresh_def sel Let_def refresh_ok_def list_all_iff held_by_def)
    next
      case more: False
      let ?s3 = "s2\<lparr>s_DepsRefreshInFlight := True, s_DepsRefreshStartedAt := now, s_DepsRefreshBatchSize := int (length ts),
        s_DepsRefreshGeneration := s_DepsRefreshGeneration s2 + 1\<rparr>"
      let ?od = "\<lparr>od_Targets = ts, od_States = pendingBlockersResolvedStates automations s2, od_Timeout = dependencyRefreshTimeout c,
        od_StartedAt = now, od_Generation = s_DepsRefreshGeneration ?s3, od_SeqAtLaunch = s_DependencyTransitionSeq ?s3\<rparr>"
      have eq: "s' = ?s3" "order = Some ?od"
        using assms(2) False more by (auto simp: reconcileDependencyRefresh_def sel Let_def)
      have "latched ?s3 k = latched s2 k" for k by (simp add: latched_def)
      moreover have "od_Generation od < s_DepsRefreshGeneration s2 + 1" if "od \<in> set os" for od using gens [OF that] l(4) by simp
      ultimately show ?thesis using l(2) lat unfolding eq by (fastforce simp: refresh_ok_def list_all_iff held_by_def)
    qed
  qed
qed

lemma ok_result:
  assumes "refresh_ok (s, os)" and "od \<in> set os"
  shows "refresh_ok (snd (applyDependencyRefreshResult restacker rules cfg now (orc, s) (Some (runDependencyRefresh io od f))), os)"
proof (cases "od_Generation od = s_DepsRefreshGeneration s")
  case True
  have "\<forall>k. latched s k \<longrightarrow> k \<in> tg_Key ` set (od_Targets od)" "mwf (s_DependencyAudit s)"
    using assms True by (auto simp: refresh_ok_def held_by_def list_all_iff)
  then have "calm (snd (applyDependencyRefreshResult restacker rules cfg now (orc, s) (Some (runDependencyRefresh io od f)))) (s_DepsRefreshGeneration s)"
    using apply_calms [of "runDependencyRefresh io od f" "(orc, s)" restacker rules cfg now] True
    by (simp add: worker_keeps_gen worker_keeps_keys)
  then show ?thesis using assms(1) by (auto simp: calm_def refresh_ok_def held_by_def list_all_iff)
next
  case False
  then have "applyDependencyRefreshResult restacker rules cfg now (orc, s) (Some (runDependencyRefresh io od f)) = (orc, s)"
    by (simp add: applyDependencyRefreshResult_def worker_keeps_gen)
  then show ?thesis using assms(1) by simp
qed

lemma ok_frame:
  assumes "refresh_ok (s, os)" and "\<forall>k. latched s' k \<longrightarrow> latched s k" and "mwf (s_DependencyAudit s')"
    and "s_DepsRefreshInFlight s' = s_DepsRefreshInFlight s" and "s_DepsRefreshGeneration s' = s_DepsRefreshGeneration s"
  shows "refresh_ok (s', os)"
  using assms by (auto simp: refresh_ok_def held_by_def list_all_iff)

lemma ok_step:
  assumes "refresh_step so so'" and "refresh_ok so"
  shows "refresh_ok so'"
  using assms
proof cases
  case (audit s os restacker rules cfg orc issue now)
  let ?d = "(orc, s)"
  have "mwf (s_DependencyAudit (snd ?d))" using assms(2) audit by (simp add: refresh_ok_def)
  from ok_frame [of s os, OF _ _ audit_rows_wf [OF this]] show ?thesis
    using assms(2) audit audit_latched [of restacker rules cfg ?d issue now] audited_rows(3,4) [OF refl, of restacker rules cfg ?d issue now]
    by (metis snd_conv)
qed (use assms(2) in \<open>auto intro: ok_launch ok_reclaim ok_result ok_frame\<close>)

lemma ok_run:
  assumes "refresh_step\<^sup>*\<^sup>* so so'" and "refresh_ok so"
  shows "refresh_ok so'"
  using assms by (induction rule: rtranclp_induct) (auto intro: ok_step)

text \<open>
  C30. The refresh never wedges a row. Whatever the order of launches, results, audits and watchdog runs, and whatever the tracker answers: a row
  is latched only while a batch is in flight; once the batch has outlived its timeout and grace the watchdog leaves no row latched
  and no batch in flight; and the result of any batch launched before the watchdog fired is then dropped without effect.
\<close>

theorem refresh_never_wedges:
  assumes "refresh_step\<^sup>*\<^sup>* (s0, []) (s, os)" and "mwf (s_DependencyAudit s0)" and "\<forall>k. \<not> latched s0 k"
    and "s' = reclaimStuckDependencyRefresh c now s"
  shows "(\<forall>k. latched s k \<longrightarrow> s_DepsRefreshInFlight s)
    \<and> (dependencyRefreshTimeout c + dependencyRefreshWatchdogGrace < time_sub now (s_DepsRefreshStartedAt s) \<longrightarrow>
        \<not> s_DepsRefreshInFlight s' \<and> (\<forall>k. \<not> latched s' k)
        \<and> (s_DepsRefreshInFlight s \<longrightarrow> (\<forall>od\<in>set os. applyDependencyRefreshResult restacker rules cfg now' (orc, s')
              (Some (runDependencyRefresh io od finished)) = (orc, s'))))"
proof -
  have ok: "refresh_ok (s, os)" by (rule ok_run [OF assms(1)]) (use assms(2,3) in \<open>simp add: refresh_ok_def\<close>)
  have idle: "s' = s" "\<forall>k. \<not> latched s' k" if "\<not> s_DepsRefreshInFlight s"
    using ok that assms(4) by (auto simp: refresh_ok_def reclaimStuckDependencyRefresh_def)
  have stale: "od_Generation od \<noteq> s_DepsRefreshGeneration s'"
    if "od \<in> set os" "s_DepsRefreshInFlight s" "dependencyRefreshTimeout c + dependencyRefreshWatchdogGrace < time_sub now (s_DepsRefreshStartedAt s)" for od
    using ok that reclaimed_rows(3) [OF that(2,3)] assms(4) by (auto simp: refresh_ok_def list_all_iff held_by_def)
  show ?thesis
    using ok idle reclaimed_rows(1,2) [of s c now] assms(4) stale
    by (cases "s_DepsRefreshInFlight s") (auto simp: refresh_ok_def applyDependencyRefreshResult_def worker_keeps_gen)
qed

section \<open>Late results\<close>

lemma late_row_kept:
  assumes "k \<noteq> []" and "mget (s_DependencyAudit (snd d)) k = Some e" and "st \<le> da_LastAuditedAt e"
  shows "mget (s_DependencyAudit (snd (apply_refreshed restacker rules cfg now st d x))) k = Some e"
    and "mget (s_DependencyAudit (snd (apply_scanned restacker rules cfg now st d issue))) k = Some e"
proof -
  have sup: "superseded (snd d) k st" using assms(2,3) by (simp add: superseded_def)
  show "mget (s_DependencyAudit (snd (apply_scanned restacker rules cfg now st d issue))) k = Some e"
    using sup assms(2) audited_rows(1) [OF refl, of k issue restacker rules cfg d now] by (auto simp: apply_scanned_def)
  obtain rk i where x: "x = (rk, i)" by (cases x)
  show "mget (s_DependencyAudit (snd (apply_refreshed restacker rules cfg now st d x))) k = Some e"
    using sup assms(1,2) audited_rows(1) [OF refl, of k i restacker rules cfg d now]
    by (auto simp: apply_refreshed_def x Let_def split_beta row_simps)
qed

lemma released_row:
  assumes "mget (s_DependencyAudit s) k = Some e" and "k \<notin> set (dr_MissingKeys r)"
  shows "\<exists>b n. mget (s_DependencyAudit (release_batch r s)) k = Some (e\<lparr>da_InFlight := b, da_ConsecutiveFailures := n\<rparr>)"
proof -
  let ?P = "\<lambda>t. \<exists>b n. mget (s_DependencyAudit t) k = Some (e\<lparr>da_InFlight := b, da_ConsecutiveFailures := n\<rparr>)"
  have init: "?P (s\<lparr>s_DepsRefreshInFlight := a, s_DepsRefreshBatchSize := b, s_DepsRefreshStartedAt := c, s_DepsRefreshLastDurationMs := m\<rparr>)" for a b c m
    using assms(1) by (intro exI [of _ "da_InFlight e"] exI [of _ "da_ConsecutiveFailures e"]) simp
  show ?thesis unfolding release_batch_def Let_def
    by (intro foldl_invariant [where I = ?P] init; cases e) (use assms(2) in \<open>auto simp: row_simps\<close>)
qed

text \<open>
  C31. A late snapshot never overrides a fresher audit. When a row was audited at or after the launch of a batch, the result of the batch leaves its verdict, its
  armed latch and its transition version as they are - also when the issue changed its key - unless the tracker said that the issue does not exist; only
  the in-flight mark and the count of failures may change. So a stale snapshot cannot make \<open>blockers_resolved\<close> fire twice.
\<close>

theorem late_snapshot_never_rearms:
  assumes "k \<noteq> []" and "mget (s_DependencyAudit (snd d)) k = Some e" and "dr_StartedAt r \<le> da_LastAuditedAt e" and "k \<notin> set (dr_MissingKeys r)"
  shows "\<exists>b n. mget (s_DependencyAudit (snd (applyDependencyRefreshResult restacker rules cfg now d (Some r)))) k
    = Some (e\<lparr>da_InFlight := b, da_ConsecutiveFailures := n\<rparr>)"
proof (cases "dr_Generation r = s_DepsRefreshGeneration (snd d)")
  case True
  obtain b n where rel: "mget (s_DependencyAudit (release_batch r (snd d))) k = Some (e\<lparr>da_InFlight := b, da_ConsecutiveFailures := n\<rparr>)"
    using released_row [OF assms(2,4)] by blast
  let ?e = "e\<lparr>da_InFlight := b, da_ConsecutiveFailures := n\<rparr>"
  let ?P = "\<lambda>d. mget (s_DependencyAudit (snd d)) k = Some ?e"
  have fresh: "dr_StartedAt r \<le> da_LastAuditedAt ?e" using assms(3) by simp
  let ?d2 = "foldl (apply_refreshed restacker rules cfg now (dr_StartedAt r)) (fst d, release_batch r (snd d)) (dr_Issues r)"
  let ?d3 = "foldl (apply_scanned restacker rules cfg now (dr_StartedAt r)) ?d2 (dr_BlockersResolvedIssues r)"
  have d2: "?P ?d2" by (rule foldl_preserves [where P = ?P, OF late_row_kept(1) [OF assms(1) _ fresh]]) (simp_all add: rel)
  have d3: "?P ?d3" by (rule foldl_preserves [where P = ?P, OF late_row_kept(2) [OF assms(1) _ fresh]]) (simp_all add: d2)
  show ?thesis using True d2 d3 by (auto simp: applyDependencyRefreshResult_def Let_def)
next
  case False
  then show ?thesis using assms(2)
    by (intro exI [of _ "da_InFlight e"] exI [of _ "da_ConsecutiveFailures e"]) (simp add: applyDependencyRefreshResult_def)
qed

section \<open>The worker accounts for its batch\<close>

definition reported :: "refresh_result \<Rightarrow> string multiset" where
  "reported r = mset (map fst (dr_Issues r)) + mset (dr_MissingKeys r) + mset (dr_FailedKeys r)"

lemma reported_file [simp]: "reported (file_fetch r t x) = add_mset (tg_Key t) (reported r)"
  by (simp add: reported_def file_fetch_def split: issue_fetch.split)

lemma reported_confirm: "reported (confirmDependencyRefreshTargets io ts m r) = reported r + mset (map tg_Key ts)"
proof -
  have "reported (confirm_target io m r t) = add_mset (tg_Key t) (reported r)" for r t
    by (simp add: confirm_target_def split: option.split) (simp add: reported_def)
  then show ?thesis unfolding confirmDependencyRefreshTargets_def by (induction ts arbitrary: r) simp_all
qed

lemma reported_batched:
  assumes "\<not> io_expired io BeforeBatch"
  shows "reported (fetchDependencyRefreshBatched io ts r) = reported r + mset (map tg_Key ts)"
proof -
  have "reported (r1\<lparr>dr_FailedKeys := dr_FailedKeys r1 @ ks\<rparr>) = reported r1 + mset ks" for r1 ks by (simp add: reported_def)
  moreover have "mset (map tg_Key (take n ts)) + mset (map tg_Key (drop n ts)) = mset (map tg_Key ts)" for n
    by (metis append_take_drop_id map_append mset_append)
  ultimately show ?thesis using assms
    by (auto simp: fetchDependencyRefreshBatched_def boundRefreshDegradation_def reported_confirm Let_def add.assoc split: option.split)
qed

lemma reported_each:
  assumes "\<forall>p. \<not> io_expired io p"
  shows "reported (fetch_each io ts r) = reported r + mset (map tg_Key ts)"
  using assms by (induction ts arbitrary: r) simp_all

lemma scan_reports [simp]: "reported (scan_states io ss r) = reported r" "dr_MissingKeys (scan_states io ss r) = dr_MissingKeys r"
  by (simp_all add: scan_states_def reported_def split: option.split)

text \<open>A row is reported missing only by a fetch of its own.\<close>

definition denied :: "tracker_ops \<Rightarrow> refresh_target list \<Rightarrow> string \<Rightarrow> bool" where
  "denied tk ts k \<longleftrightarrow> (\<exists>t m. t \<in> set ts \<and> tg_Key t = k \<and> fetchDependencyRefreshIssue tk t = FetchNotFound m)"

lemma missing_file:
  "k \<in> set (dr_MissingKeys (file_fetch r t (fetchDependencyRefreshIssue tk t))) \<Longrightarrow> k \<in> set (dr_MissingKeys r) \<or> denied tk [t] k"
  by (auto simp: file_fetch_def denied_def fetchDependencyRefreshIssue_def Let_def split: issue_fetch.splits)

lemma denied_mono: "denied tk ts k \<Longrightarrow> set ts \<subseteq> set us \<Longrightarrow> denied tk us k"
  by (auto simp: denied_def)

lemma missing_confirm:
  "k \<in> set (dr_MissingKeys (confirmDependencyRefreshTargets io ts m r)) \<Longrightarrow> k \<in> set (dr_MissingKeys r) \<or> denied (io_tracker io) ts k"
  unfolding confirmDependencyRefreshTargets_def
proof (induction ts arbitrary: r)
  case (Cons t ts)
  have "k \<in> set (dr_MissingKeys (confirm_target io m r t)) \<Longrightarrow> k \<in> set (dr_MissingKeys r) \<or> denied (io_tracker io) [t] k"
    using missing_file [of k r t "io_tracker io"] by (auto simp: confirm_target_def split: option.splits if_splits)
  with Cons show ?case using denied_mono [of "io_tracker io" ts k "t # ts"] denied_mono [of "io_tracker io" "[t]" k "t # ts"] by auto
qed simp

lemma missing_batched:
  assumes "k \<in> set (dr_MissingKeys (fetchDependencyRefreshBatched io ts r))"
  shows "k \<in> set (dr_MissingKeys r) \<or> denied (io_tracker io) ts k"
  using assms missing_confirm [of k io ts _ r]
    missing_confirm [of k io "take dependencyRefreshDegradeBudget ts" "[]" r] denied_mono [OF _ set_take_subset, of "io_tracker io" _ ts k]
  by (auto simp: fetchDependencyRefreshBatched_def boundRefreshDegradation_def Let_def split: option.splits if_splits)

lemma missing_each:
  "k \<in> set (dr_MissingKeys (fetch_each io ts r)) \<Longrightarrow> k \<in> set (dr_MissingKeys r) \<or> denied (io_tracker io) ts k"
proof (induction ts arbitrary: r)
  case (Cons t ts)
  then show ?case using missing_file [of k r t "io_tracker io"]
      denied_mono [of "io_tracker io" ts k "t # ts"] denied_mono [of "io_tracker io" "[t]" k "t # ts"] by (fastforce split: if_splits)
qed simp

text \<open>
  A batch is reported completely, and no row is retired on a hint. When the deadline does not strike, every target of the order is reported exactly
  once, as fetched, missing or failed, also when the batched request fails and only a few of its targets are retried;
  and a target is reported missing, which deletes its row, only when the tracker denied that very issue, never because a batched answer left it out.
\<close>

theorem refresh_accounts_for_batch:
  assumes "\<forall>p. \<not> io_expired io p" and "r = runDependencyRefresh io od finished"
  shows "mset (map fst (dr_Issues r) @ dr_MissingKeys r @ dr_FailedKeys r) = mset (map tg_Key (od_Targets od))
    \<and> (\<forall>k\<in>set (dr_MissingKeys r). \<exists>t\<in>set (od_Targets od). tg_Key t = k \<and> (\<exists>m. fetchDependencyRefreshIssue (io_tracker io) t = FetchNotFound m))"
proof -
  let ?b = "filter (\<lambda>t. tg_IssueID t \<noteq> []) (od_Targets od)" and ?p = "filter (\<lambda>t. tg_IssueID t = []) (od_Targets od)"
  define r0 where "r0 = \<lparr>dr_BatchKeys = map tg_Key (od_Targets od), dr_Issues = [], dr_MissingKeys = [], dr_FailedKeys = [],
    dr_BlockersResolvedIssues = [], dr_BlockersResolvedRan = False, dr_BlockersResolvedOK = False,
    dr_StartedAt = od_StartedAt od, dr_FinishedAt = 0, dr_Generation = od_Generation od, dr_SeqAtLaunch = od_SeqAtLaunch od\<rparr>"
  define r1 where "r1 = scan_states io (od_States od) r0"
  have r1: "r = (fetch_each io ?p (fetchDependencyRefreshBatched io ?b r1))\<lparr>dr_FinishedAt := finished\<rparr>"
      "reported r1 = {#}" "dr_MissingKeys r1 = []"
    unfolding assms(2) runDependencyRefresh_def partitionRefreshTargets_def Let_def prod.case r0_def [symmetric] r1_def [symmetric]
    by (simp_all add: r1_def) (simp_all add: r0_def reported_def)
  have "mset (map tg_Key (filter (\<lambda>t. tg_IssueID t \<noteq> []) ts)) + mset (map tg_Key (filter (\<lambda>t. tg_IssueID t = []) ts)) = mset (map tg_Key ts)" for ts
    by (induction ts) auto
  then have "reported r = mset (map tg_Key (od_Targets od))"
    using reported_each [OF assms(1)] reported_batched [of io] assms(1) r1(2) by (simp add: r1(1) reported_def)
  moreover have "denied (io_tracker io) (od_Targets od) k" if "k \<in> set (dr_MissingKeys r)" for k
    using missing_each [of k io ?p "fetchDependencyRefreshBatched io ?b r1"] missing_batched [of k io ?b r1] that r1
      denied_mono [of "io_tracker io" ?b k "od_Targets od"] denied_mono [of "io_tracker io" ?p k "od_Targets od"] by auto
  ultimately show ?thesis unfolding denied_def by (simp add: reported_def add.assoc) metis
qed

section \<open>A batch on a concrete state\<close>

definition ex_settings :: refresh_settings where
  "ex_settings = \<lparr>rf_TimeoutMs = 0, rf_IntervalMs = 0, rf_BatchSize = 0\<rparr>"

definition ex_row_state :: state where
  "ex_row_state = ex_state\<lparr>s_DependencyAudit := [(''id-A-1'', audit_row ex_state (ex_issue ''A-1'') 5)]\<rparr>"

definition ex_launch :: "state \<times> refresh_order option" where
  "ex_launch = reconcileDependencyRefresh ex_settings [] (700 * second) ex_row_state"

definition ex_refresh_io :: refresh_io where
  "ex_refresh_io = \<lparr>io_tracker = \<lparr>tk_FetchIssueDetail = (\<lambda>k. FetchNotFound k), tk_FetchIssueByIdentifier = (\<lambda>k. FetchNotFound k),
     tk_FetchIssueStatesByIDs = (\<lambda>_. Some [])\<rparr>, io_byStates = (\<lambda>_. None), io_expired = (\<lambda>_. False)\<rparr>"

theorem refresh_never_wedges_witness:
  "latched (fst ex_launch) ''id-A-1'' \<and> \<not> latched (reclaimStuckDependencyRefresh ex_settings (800 * second) (fst ex_launch)) ''id-A-1''"
proof -
  obtain s order where l: "ex_launch = (s, order)" by (cases ex_launch)
  have "refresh_step (ex_row_state, []) (s, (case order of None \<Rightarrow> [] | Some od \<Rightarrow> od # []))"
    by (rule refresh_step.reconcile [of ex_settings "[]" "700 * second"]) (use l in \<open>simp add: ex_launch_def\<close>)
  then have "refresh_step\<^sup>*\<^sup>* (ex_row_state, []) (fst ex_launch, (case order of None \<Rightarrow> [] | Some od \<Rightarrow> od # []))" by (simp add: l)
  moreover have "mwf (s_DependencyAudit ex_row_state)" by code_simp
  moreover have "\<forall>k. \<not> latched ex_row_state k" by (simp add: latched_def ex_row_state_def audit_row_def Let_def)
  moreover have "dependencyRefreshTimeout ex_settings + dependencyRefreshWatchdogGrace < time_sub (800 * second) (s_DepsRefreshStartedAt (fst ex_launch))"
    by code_simp
  ultimately have "\<not> latched (reclaimStuckDependencyRefresh ex_settings (800 * second) (fst ex_launch)) ''id-A-1''"
    using refresh_never_wedges [of ex_row_state "fst ex_launch" _ _ ex_settings "800 * second"] by blast
  moreover have "latched (fst ex_launch) ''id-A-1''" by code_simp
  ultimately show ?thesis by simp
qed

definition ex_late :: refresh_result where
  "ex_late = \<lparr>dr_BatchKeys = [''id-A-1''], dr_Issues = [(''id-A-1'', ex_issue ''A-1'')], dr_MissingKeys = [], dr_FailedKeys = [],
     dr_BlockersResolvedIssues = [], dr_BlockersResolvedRan = False, dr_BlockersResolvedOK = False, dr_StartedAt = 3, dr_FinishedAt = 9,
     dr_Generation = s_DepsRefreshGeneration ex_row_state, dr_SeqAtLaunch = 0\<rparr>"

definition no_rules :: automation_rules where
  "no_rules = \<lparr>ar_inputRequired = [], ar_runFailed = [], ar_blockersResolved = []\<rparr>"

theorem late_snapshot_never_rearms_witness:
  "map_option da_LastAuditedAt (mget (s_DependencyAudit (snd (applyDependencyRefreshResult None no_rules ex_config 9
     (ex_orch, ex_row_state) (Some ex_late)))) ''id-A-1'') = Some 5"
proof -
  let ?e = "audit_row ex_state (ex_issue ''A-1'') 5"
  have "mget (s_DependencyAudit (snd (ex_orch, ex_row_state))) ''id-A-1'' = Some ?e" by (simp add: ex_row_state_def)
  moreover have "dr_StartedAt ex_late \<le> da_LastAuditedAt ?e" "''id-A-1'' \<notin> set (dr_MissingKeys ex_late)"
    by (simp_all add: ex_late_def audit_row_def Let_def)
  moreover have "da_LastAuditedAt ?e = 5" by (simp add: audit_row_def Let_def)
  ultimately show ?thesis
    using late_snapshot_never_rearms [of "''id-A-1''" "(ex_orch, ex_row_state)" ?e ex_late None no_rules ex_config 9] by auto
qed

theorem refresh_accounts_for_batch_witness:
  "dr_MissingKeys (runDependencyRefresh ex_refresh_io (the (snd ex_launch)) 9) = [''id-A-1'']
   \<and> (\<exists>t\<in>set (od_Targets (the (snd ex_launch))). tg_Key t = ''id-A-1'' \<and> (\<exists>m. fetchDependencyRefreshIssue (io_tracker ex_refresh_io) t = FetchNotFound m))"
proof -
  have m: "dr_MissingKeys (runDependencyRefresh ex_refresh_io (the (snd ex_launch)) 9) = [''id-A-1'']" by code_simp
  have "\<forall>p. \<not> io_expired ex_refresh_io p" by (simp add: ex_refresh_io_def)
  from conjunct2 [OF refresh_accounts_for_batch [OF this refl, of "the (snd ex_launch)" 9]] m show ?thesis by simp
qed

end
