(* ===== verification/Operator_Events.thy ===== *)
theory Operator_Events
  imports Worker_Exit Inferred_Deps Dependency_Refresh
begin

text \<open>
  The events of the loop (\<open>handleEvent\<close> in \<open>internal/orchestrator/event_loop.go\<close>): progress of workers, what operators and the HTTP
  API ask for, completions of background work, and the exits of workers, with the drain of the automation queue that some
  of them are followed by. The token and cost totals of \<open>EventWorkerUpdate\<close> are left out, as for the exits.
\<close>

section \<open>Events\<close>

datatype orchestrator_event =
    EventWorkerUpdate string "run_entry option" "limit_signal option"
  | EventForceReanalyze string
  | EventResumeIssue string
  | EventTerminatePaused string string
  | EventTerminateRunning string
  | EventCancelRetry string string
  | EventProvideInput string string
  | EventDismissInput string
  | EventInputQuestionFallback string "input_required_entry option" "string option"
  | EventAckFailures string time
  | EventDiscardComplete string nat "tracker_failure option"
  | EventDispatchReviewer string string
  | EventDispatchAutomation "issue option" "automation_dispatch option"
  | EventIssueStatusChanged "issue_status_change option"
  | EventDependencyAuditRefreshed "refresh_result option"
  | EventSetDepsOverride string bool
  | EventDrain
  | EventFailureRecorded "failure_record option"
  | EventClearBackendBreaker string
  | EventWorkerExited exit_event

fun shouldDrainAutomationQueueAfterEvent :: "orchestrator_event \<Rightarrow> bool" where
  "shouldDrainAutomationQueueAfterEvent (EventWorkerExited _) = True"
| "shouldDrainAutomationQueueAfterEvent (EventResumeIssue _) = True"
| "shouldDrainAutomationQueueAfterEvent (EventProvideInput _ _) = True"
| "shouldDrainAutomationQueueAfterEvent (EventDismissInput _) = True"
| "shouldDrainAutomationQueueAfterEvent (EventDiscardComplete _ _ _) = True"
| "shouldDrainAutomationQueueAfterEvent (EventClearBackendBreaker _) = True"
| "shouldDrainAutomationQueueAfterEvent _ = False"

definition PauseReasonUserDismissedInput :: string where "PauseReasonUserDismissedInput = ''user_dismissed_input''"

section \<open>Workers\<close>

definition updated_run :: "run_entry \<Rightarrow> run_entry \<Rightarrow> time \<Rightarrow> run_entry" where
  "updated_run e u now =
     (let e1 = e\<lparr>ru_LastEventAt := Some now\<rparr>;
          e2 = (if ru_TurnCount u > 0 then e1\<lparr>ru_TurnCount := ru_TurnCount u\<rparr> else e1);
          e3 = (if ru_TotalTokens u > 0 then e2\<lparr>ru_TotalTokens := ru_TotalTokens u, ru_InputTokens := ru_InputTokens u,
                  ru_OutputTokens := ru_OutputTokens u\<rparr> else e2);
          e4 = (if ru_LastMessage u \<noteq> [] then e3\<lparr>ru_LastMessage := ru_LastMessage u\<rparr> else e3);
          e5 = (if ru_SessionID u \<noteq> [] then e4\<lparr>ru_SessionID := ru_SessionID u\<rparr> else e4)
      in if ru_AgentSessionID u \<noteq> [] then e5\<lparr>ru_AgentSessionID := ru_AgentSessionID u\<rparr> else e5)"

definition worker_update :: "time \<Rightarrow> state \<Rightarrow> string \<Rightarrow> run_entry option \<Rightarrow> limit_signal option \<Rightarrow> state" where
  "worker_update now s issueID upd limit =
     (case (mget (s_Running s) issueID, upd) of
        (Some e, Some u) \<Rightarrow>
          let e1 = updated_run e u now;
              alive = (ru_PendingInputResume e1 \<and> (ru_TurnCount u > 0 \<or> ru_TotalTokens u > 0 \<or> ru_LastMessage u \<noteq> []));
              e2 = (if alive then e1\<lparr>ru_PendingInputResume := False\<rparr> else e1);
              s1 = (if alive then s\<lparr>s_PendingInputResumes := mdel (s_PendingInputResumes s) (is_Identifier (ru_Issue e))\<rparr> else s);
              s2 = s1\<lparr>s_Running := mput (s_Running s1) issueID e2\<rparr>
          in fst (recordBackendThrottle s2 (ru_Backend e) (ru_WorkerHost e) (is_Identifier (ru_Issue e)) limit now)
      | _ \<Rightarrow> s)"

definition terminate_running :: "loop_state \<Rightarrow> string \<Rightarrow> loop_state" where
  "terminate_running ls identifier =
     (case ls of (d, x) \<Rightarrow>
        if list_ex (\<lambda>(_, e). is_Identifier (ru_Issue e) = identifier \<and> ru_WorkerCancel e) (s_Running (snd d))
        then (d, add_task (x\<lparr>xs_userTerminatedIDs := mput (xs_userTerminatedIDs x) identifier ()\<rparr>) (CancelWorker identifier))
        else ls)"

section \<open>Paused issues\<close>

definition release_pause :: "state \<Rightarrow> string \<Rightarrow> state" where
  "release_pause s identifier = clearPauseReason (s\<lparr>s_PausedIdentifiers := mdel (s_PausedIdentifiers s) identifier\<rparr>) identifier"

definition drop_session :: "state \<Rightarrow> string \<Rightarrow> state" where
  "drop_session s identifier = s\<lparr>s_PausedSessions := mdel (s_PausedSessions s) identifier\<rparr>"

definition force_reanalyze :: "state \<Rightarrow> string \<Rightarrow> state" where
  "force_reanalyze s identifier =
     (if \<not> mhas (s_PausedIdentifiers s) identifier then s
      else let s1 = drop_session (release_pause s identifier) identifier
           in s1\<lparr>s_ForceReanalyze := mput (s_ForceReanalyze s1) identifier ()\<rparr>)"

definition resume_issue_event :: "state \<Rightarrow> string \<Rightarrow> state" where
  "resume_issue_event s identifier = (if mhas (s_PausedIdentifiers s) identifier then release_pause s identifier else s)"

definition terminate_paused :: "config \<Rightarrow> time \<Rightarrow> loop_state \<Rightarrow> string \<Rightarrow> string \<Rightarrow> loop_state" where
  "terminate_paused cfg clock ls issueID identifier =
     (case ls of ((o', s), x) \<Rightarrow>
        if \<not> mhas (s_PausedIdentifiers s) identifier then ls
        else let ls1 = ((o', drop_session (release_pause s identifier) identifier), x)
             in if issueID \<noteq> [] then asyncDiscardAndTransition cfg clock ls1 issueID identifier else ls1)"

definition cancel_retry :: "state \<Rightarrow> string \<Rightarrow> string \<Rightarrow> state" where
  "cancel_retry s issueID identifier =
     (let s1 = CancelRetry s issueID
      in setPauseReason (s1\<lparr>s_PausedIdentifiers := mput (s_PausedIdentifiers s1) identifier issueID\<rparr>) identifier PauseReasonUserCancelled)"

section \<open>Questions\<close>

definition provide_input :: "exit_env \<Rightarrow> config \<Rightarrow> time \<Rightarrow> loop_state \<Rightarrow> string \<Rightarrow> string \<Rightarrow> loop_state" where
  "provide_input env cfg now ls identifier message =
     (case ls of ((o', s), x) \<Rightarrow>
        case mget (s_InputRequiredIssues s) identifier of
          None \<Rightarrow> ls
        | Some e \<Rightarrow>
            let s1 = s\<lparr>s_InputRequiredIssues := mdel (s_InputRequiredIssues s) identifier,
                       s_PendingInputResumes := mput (s_PendingInputResumes s) identifier (buildPendingInputResumeEntry e message now)\<rparr>;
                x1 = (case xe_enqueueError env identifier of
                    None \<Rightarrow> add_task x (InputRequiredComment (ir_IssueID e) identifier (xe_questionKey env identifier) (MarkManagedComment message) ''reply'')
                  | Some _ \<Rightarrow> x)
            in (processPendingInputResumes (xe_loop env) cfg now (o', s1), x1))"

definition dismiss_input :: "state \<Rightarrow> string \<Rightarrow> state" where
  "dismiss_input s identifier =
     (case mget (s_InputRequiredIssues s) identifier of
        None \<Rightarrow> s
      | Some e \<Rightarrow>
          setPauseReason (s\<lparr>s_InputRequiredIssues := mdel (s_InputRequiredIssues s) identifier,
            s_PausedIdentifiers := mput (s_PausedIdentifiers s) identifier (ir_IssueID e)\<rparr>) identifier PauseReasonUserDismissedInput)"

definition handleInputQuestionFallback :: "state \<Rightarrow> string \<Rightarrow> input_required_entry option \<Rightarrow> string option \<Rightarrow> state" where
  "handleInputQuestionFallback s identifier res err =
     (case (res, mget (s_InputRequiredIssues s) identifier) of
        (Some r, Some e) \<Rightarrow>
          if ir_QuestionCommentKey e = [] \<or> ir_QuestionCommentKey e \<noteq> ir_QuestionCommentKey r \<or> err \<noteq> None then s
          else s\<lparr>s_InputRequiredIssues := mput (s_InputRequiredIssues s) identifier
            (e\<lparr>ir_QuestionCommentKey := [], ir_QuestionCommentID := ir_QuestionCommentID r, ir_QuestionAuthorID := ir_QuestionAuthorID r,
               ir_QuestionAuthorName := ir_QuestionAuthorName r\<rparr>)\<rparr>
      | _ \<Rightarrow> s)"

section \<open>Background work\<close>

definition discard_complete :: "(string \<Rightarrow> string) \<Rightarrow> time \<Rightarrow> state \<Rightarrow> string \<Rightarrow> nat \<Rightarrow> tracker_failure option \<Rightarrow> state" where
  "discard_complete redact now s identifier gen err =
     (let s1 = (case mget (s_DiscardingIdentifiers s) identifier of
            Some m \<Rightarrow> if dm_Gen m = gen then s\<lparr>s_DiscardingIdentifiers := mdel (s_DiscardingIdentifiers s) identifier\<rparr> else s
          | None \<Rightarrow> s);
          s2 = recordTrackerWriteFailure s1 TrackerErrorOpUpdateState err now
      in case err of
           None \<Rightarrow> s2
         | Some f \<Rightarrow> appendRecentFailure redact s2 \<lparr>fr_Kind = FailureKindTrackerWrite, fr_Identifier = identifier, fr_Source = TrackerErrorOpUpdateState,
             fr_Message = tf_text f, fr_OccurredAt = 0, fr_RecordedAt = 0, fr_Count = 0\<rparr> now)"

definition reviewer_states :: "config \<Rightarrow> string list" where
  "reviewer_states cfg =
     tk_ActiveStates (cf_Tracker cfg) @ tk_TerminalStates (cf_Tracker cfg) @
     (if tk_CompletionState (cf_Tracker cfg) \<noteq> [] then [tk_CompletionState (cf_Tracker cfg)] else [])"

definition dispatch_reviewer :: "exit_env \<Rightarrow> (string list \<Rightarrow> issue list option) \<Rightarrow> config \<Rightarrow> time \<Rightarrow> daemon \<Rightarrow> string \<Rightarrow> string \<Rightarrow> daemon" where
  "dispatch_reviewer env fetch cfg now d identifier profile =
     (if profile = [] \<or> list_ex (\<lambda>(_, e). is_Identifier (ru_Issue e) = identifier) (s_Running (snd d)) then d
      else case fetch (reviewer_states cfg) of
        None \<Rightarrow> d
      | Some issues \<Rightarrow>
          let d1 = audit_candidates (xe_loop env) cfg now issues d
          in case find (\<lambda>i. is_Identifier i = identifier) issues of
               None \<Rightarrow> d1
             | Some issue \<Rightarrow> dispatchReviewerForIssue (le_fmt_time (xe_loop env)) cfg now d1 issue profile)"

section \<open>The handler\<close>

definition on_state :: "loop_state \<Rightarrow> (state \<Rightarrow> state) \<Rightarrow> loop_state" where
  "on_state ls f = ((fst (fst ls), f (snd (fst ls))), snd ls)"

definition on_daemon :: "loop_state \<Rightarrow> (daemon \<Rightarrow> daemon) \<Rightarrow> loop_state" where
  "on_daemon ls f = (f (fst ls), snd ls)"

fun apply_event ::
  "exit_env \<Rightarrow> (string list \<Rightarrow> issue list option) \<Rightarrow> config \<Rightarrow> time \<Rightarrow> time \<Rightarrow> loop_state \<Rightarrow> orchestrator_event \<Rightarrow> loop_state" where
  "apply_event env fetch cfg now clock ls (EventWorkerUpdate k upd limit) = on_state ls (\<lambda>s. worker_update now s k upd limit)"
| "apply_event env fetch cfg now clock ls (EventForceReanalyze i) = on_state ls (\<lambda>s. force_reanalyze s i)"
| "apply_event env fetch cfg now clock ls (EventResumeIssue i) = on_state ls (\<lambda>s. resume_issue_event s i)"
| "apply_event env fetch cfg now clock ls (EventTerminatePaused k i) = terminate_paused cfg clock ls k i"
| "apply_event env fetch cfg now clock ls (EventTerminateRunning i) = terminate_running ls i"
| "apply_event env fetch cfg now clock ls (EventCancelRetry k i) = on_state ls (\<lambda>s. cancel_retry s k i)"
| "apply_event env fetch cfg now clock ls (EventProvideInput i msg) = provide_input env cfg now ls i msg"
| "apply_event env fetch cfg now clock ls (EventDismissInput i) = on_state ls (\<lambda>s. dismiss_input s i)"
| "apply_event env fetch cfg now clock ls (EventInputQuestionFallback i r err) = on_state ls (\<lambda>s. handleInputQuestionFallback s i r err)"
| "apply_event env fetch cfg now clock ls (EventAckFailures i upTo) = on_state ls (\<lambda>s. applyFailureAck s i upTo)"
| "apply_event env fetch cfg now clock ls (EventDiscardComplete i gen err) = on_state ls (\<lambda>s. discard_complete (xe_redact env) now s i gen err)"
| "apply_event env fetch cfg now clock ls (EventDispatchReviewer i p) = on_daemon ls (\<lambda>d. dispatch_reviewer env fetch cfg now d i p)"
| "apply_event env fetch cfg now clock ls (EventDispatchAutomation (Some issue) (Some a)) =
     on_daemon ls (\<lambda>d. fst (dispatchOrQueueAutomation cfg now d issue a))"
| "apply_event env fetch cfg now clock ls (EventDispatchAutomation _ _) = ls"
| "apply_event env fetch cfg now clock ls (EventIssueStatusChanged c) =
     (case c of None \<Rightarrow> ls | Some change \<Rightarrow> on_state ls (\<lambda>s. appendIssueStatusChange clock s change))"
| "apply_event env fetch cfg now clock ls (EventDependencyAuditRefreshed r) =
     on_daemon ls (\<lambda>d. applyDependencyRefreshResult (le_restacker (xe_loop env)) (le_rules (xe_loop env)) cfg now d r)"
| "apply_event env fetch cfg now clock ls (EventSetDepsOverride i enabled) = on_state ls (\<lambda>s. applyDepsOverrideEvent cfg clock s i enabled)"
| "apply_event env fetch cfg now clock ls EventDrain = on_daemon ls applyDrain"
| "apply_event env fetch cfg now clock ls (EventFailureRecorded f) =
     (case f of None \<Rightarrow> ls | Some r \<Rightarrow> on_state ls (\<lambda>s. appendRecentFailure (xe_redact env) s r now))"
| "apply_event env fetch cfg now clock ls (EventClearBackendBreaker k) = on_state ls (\<lambda>s. applyClearBackendBreaker s k)"
| "apply_event env fetch cfg now clock ls (EventWorkerExited ev) = worker_exited env cfg now clock ls ev"

definition handleEvent ::
  "exit_env \<Rightarrow> (string list \<Rightarrow> issue list option) \<Rightarrow> config \<Rightarrow> time \<Rightarrow> time \<Rightarrow> loop_state \<Rightarrow> orchestrator_event \<Rightarrow> loop_state" where
  "handleEvent env fetch cfg now clock ls ev =
     (let ls1 = apply_event env fetch cfg now clock ls ev
      in if shouldDrainAutomationQueueAfterEvent ev
         then on_daemon ls1 (drainAutomationQueue (Some (le_tracker (xe_loop env))) cfg clock) else ls1)"

section \<open>What the events leave alone\<close>

lemma adm_operator [simp]:
  "adm (release_pause s i) = adm s" "adm (drop_session s i) = adm s" "adm (force_reanalyze s i) = adm s" "adm (resume_issue_event s i) = adm s"
  "adm (dismiss_input s i) = adm s" "adm (handleInputQuestionFallback s i r err) = adm s"
  by (simp_all add: adm_def release_pause_def clearPauseReason_def drop_session_def force_reanalyze_def resume_issue_event_def dismiss_input_def
      setPauseReason_def handleInputQuestionFallback_def Let_def split: option.split)

lemma adm_background [simp]:
  "adm (discard_complete f now s i g err) = adm s" "adm (applyFailureAck s i t) = adm s" "adm (appendIssueStatusChange clock s c) = adm s"
  "adm (applyDepsOverrideEvent cfg clock s i b) = adm s" "adm (appendRecentFailure f s r now) = adm s" "adm (applyClearBackendBreaker s k) = adm s"
  by (simp_all add: adm_def discard_complete_def recordTrackerWriteFailure_def appendRecentFailure_def applyFailureAck_def pruneFailureAcks_def
      appendIssueStatusChange_def applyDepsOverrideEvent_def applyClearBackendBreaker_def Let_def split: option.split)

lemma adm_rows [simp]: "adm (set_row f s k) = adm s" "adm (drop_row s k) = adm s"
  by (simp_all add: adm_def set_row_def drop_row_def split: option.split)

lemma adm_fold: "(\<And>s k. adm (f s k) = adm s) \<Longrightarrow> adm (foldl f s ks) = adm s"
  by (induction ks arbitrary: s) simp_all

lemma adm_release [simp]: "adm (release_batch r s) = adm s"
proof -
  have "adm (foldl (set_row f) t ks) = adm t" "adm (foldl drop_row t ks) = adm t" for f t ks by (rule adm_fold, simp)+
  then show ?thesis by (simp add: release_batch_def Let_def) (simp add: adm_def)
qed

text \<open>The events that start workers only by the automations' path, under any relation which that path respects.\<close>

fun plain_event :: "orchestrator_event \<Rightarrow> bool" where
  "plain_event (EventWorkerUpdate _ _ _) = False"
| "plain_event (EventCancelRetry _ _) = False"
| "plain_event (EventProvideInput _ _) = False"
| "plain_event (EventDispatchReviewer _ _) = False"
| "plain_event EventDrain = False"
| "plain_event (EventWorkerExited _) = False"
| "plain_event _ = True"

context admission_relation
begin

lemma rel_quiet_step: "rel d d' \<Longrightarrow> adm s' = adm (snd d') \<Longrightarrow> rel d (fst d', s')"
  by (rule rel_trans [OF _ rel_quiet])

lemma rel_fold: "(\<And>d x. rel d (f d x)) \<Longrightarrow> rel d (foldl f d xs)"
proof (induction xs arbitrary: d)
  case (Cons x xs)
  then show ?case using rel_trans [OF Cons.prems Cons.IH] by simp
qed (simp add: rel_refl)

lemma rel_refreshed: "rel d (apply_refreshed restacker rules cfg now st d r)"
proof -
  obtain k issue where r: "r = (k, issue)" by (cases r)
  obtain d1 c where a: "auditFetchedIssueDependenciesAndDispatch restacker rules cfg d issue now = (d1, c)"
    by (cases "auditFetchedIssueDependenciesAndDispatch restacker rules cfg d issue now")
  have d1: "rel d d1" using rel_audit_dispatch [of d restacker rules cfg issue now] by (simp add: a)
  have q: "rel d (fst d1, s')" if "adm s' = adm (snd d1)" for s' using rel_quiet_step [OF d1 that] .
  show ?thesis
    unfolding apply_refreshed_def r prod.case Let_def a fst_conv by (simp add: rel_refl split_beta q)
qed

lemma rel_scanned: "rel d (apply_scanned restacker rules cfg now st d issue)"
  by (simp add: apply_scanned_def rel_refl rel_audit_dispatch)

lemma rel_refresh_result: "rel d (applyDependencyRefreshResult restacker rules cfg now d result)"
proof (cases result)
  case (Some r)
  let ?d1 = "(fst d, release_batch r (snd d))"
  let ?d2 = "foldl (apply_refreshed restacker rules cfg now (dr_StartedAt r)) ?d1 (dr_Issues r)"
  let ?d3 = "foldl (apply_scanned restacker rules cfg now (dr_StartedAt r)) ?d2 (dr_BlockersResolvedIssues r)"
  have "rel d ?d1" by (rule rel_quiet) simp
  then have d2: "rel d ?d2" by (rule rel_trans [OF _ rel_fold [OF rel_refreshed]])
  then have "rel d ?d3" by (rule rel_trans [OF _ rel_fold [OF rel_scanned]])
  then have "rel d (fst ?d3, (snd ?d3)\<lparr>s_LastBlockersResolvedAuditSeq := dr_SeqAtLaunch r\<rparr>)"
    by (rule rel_quiet_step) (simp add: adm_def)
  with d2 show ?thesis by (simp add: applyDependencyRefreshResult_def Some Let_def rel_refl)
qed (simp add: applyDependencyRefreshResult_def rel_refl)

lemma rel_audits: "rel d (audit_candidates env cfg now issues d)"
  unfolding audit_candidates_def by (rule rel_fold) (rule rel_audit_dispatch)

lemma rel_drain_queue: "rel d (drainAutomationQueue tracker cfg now d)"
  unfolding drainAutomationQueue_def by (rule rel_drain)

lemma rel_plain_event:
  assumes "plain_event ev"
  shows "rel d (fst (apply_event env fetch cfg now clock (d, x) ev))"
proof (cases ev)
  case (EventTerminatePaused k i)
  have "fst (terminate_paused cfg clock (d, x) k i) = (fst d, snd (fst (terminate_paused cfg clock (d, x) k i)))"
    "adm (snd (fst (terminate_paused cfg clock (d, x) k i))) = adm (snd d)"
    by (simp_all add: terminate_paused_def asyncDiscardAndTransition_def mark_and_start_def Let_def split: prod.split)
      (auto simp: markDiscarding_def adm_def release_pause_def clearPauseReason_def drop_session_def Let_def)
  then show ?thesis using rel_quiet [of "snd (fst (terminate_paused cfg clock (d, x) k i))" d] by (simp add: EventTerminatePaused)
next
  case (EventTerminateRunning i)
  show ?thesis using rel_refl by (simp add: EventTerminateRunning terminate_running_def)
next
  case (EventDispatchAutomation i a)
  show ?thesis using rel_dispatchOrQueue rel_refl by (cases i; cases a) (simp_all add: EventDispatchAutomation on_daemon_def)
next
  case (EventDependencyAuditRefreshed r)
  show ?thesis using rel_refresh_result by (simp add: EventDependencyAuditRefreshed on_daemon_def)
next
  case (EventIssueStatusChanged c)
  show ?thesis using rel_quiet rel_refl by (cases c) (simp_all add: EventIssueStatusChanged on_state_def)
next
  case (EventFailureRecorded f)
  show ?thesis using rel_quiet rel_refl by (cases f) (simp_all add: EventFailureRecorded on_state_def)
qed (use assms rel_quiet in \<open>simp_all add: on_state_def\<close>)

end

lemma books_worker_update: "books_kept (o', s) (o', worker_update now s k upd limit)"
proof (cases "mget (s_Running s) k")
  case (Some e)
  then have k: "mhas (s_Running s) k" by (simp add: mhas_def)
  show ?thesis
  proof (cases upd)
    case (Some u)
    define t where "t = worker_update now s k upd limit"
    have "\<exists>e'. s_Running t = mput (s_Running s) k e'" "s_Claimed t = s_Claimed s" "s_RetryAttempts t = s_RetryAttempts s"
      by (auto simp: t_def worker_update_def Some \<open>mget (s_Running s) k = Some e\<close> Let_def recordBackendThrottle_def split: option.split)
    then show ?thesis
      using k unfolding t_def [symmetric] books_kept_def claim_status_def claims_owned_def by auto
  qed (simp add: worker_update_def Some books_refl)
qed (simp add: worker_update_def books_refl)

section \<open>Every event keeps the claims owned\<close>

text \<open>
  An event that does not race with another: a retry is cancelled before it fires, a reviewer is asked for an issue that nobody owns once the
  fetched issues have been audited, the tracker and the books agree on the identifiers of the issues whose answers are waiting, and exits arrive in their turn.
\<close>

fun event_in_order :: "(string \<Rightarrow> string) \<Rightarrow> exit_env \<Rightarrow> (string list \<Rightarrow> issue list option) \<Rightarrow> config \<Rightarrow> time \<Rightarrow> loop_state \<Rightarrow> orchestrator_event \<Rightarrow> bool" where
  "event_in_order name env fetch cfg now (d, x) (EventCancelRetry k i) = (\<not> mhas (s_Running (snd d)) k)"
| "event_in_order name env fetch cfg now (d, x) (EventDispatchReviewer i p) =
     (\<forall>issues issue. fetch (reviewer_states cfg) = Some issues \<longrightarrow> find (\<lambda>j. is_Identifier j = i) issues = Some issue \<longrightarrow>
        \<not> mhas (s_Claimed (snd (audit_candidates (xe_loop env) cfg now issues d))) (is_ID issue))"
| "event_in_order name env fetch cfg now (d, x) (EventProvideInput i msg) =
     (tracker_faithful (xe_loop env) name \<and>
      (\<forall>ident e. mget (s_PendingInputResumes (snd d)) ident = Some e \<longrightarrow> ident = name (pi_IssueID e)) \<and>
      (\<forall>e. mget (s_InputRequiredIssues (snd d)) i = Some e \<longrightarrow> i = name (ir_IssueID e)))"
| "event_in_order name env fetch cfg now (d, x) (EventWorkerExited ev) =
     (\<exists>run. xv_RunEntry ev = Some run \<and> is_ID (ru_Issue run) = xv_IssueID ev \<and> exit_in_order d x ev run)"
| "event_in_order name env fetch cfg now (d, x) _ = True"

lemma books_reviewer_event:
  assumes "event_in_order name env fetch cfg now (d, x) (EventDispatchReviewer i p)"
  shows "books_kept d (dispatch_reviewer env fetch cfg now d i p)"
proof (cases "fetch (reviewer_states cfg)")
  case (Some issues)
  let ?d1 = "audit_candidates (xe_loop env) cfg now issues d"
  have d1: "books_kept d ?d1" by (rule books.rel_audits)
  have "books_kept d (dispatchReviewerForIssue f cfg now ?d1 issue p)" if "find (\<lambda>j. is_Identifier j = i) issues = Some issue" for f issue
    by (rule books_trans [OF d1 books_reviewer]) (use assms Some that in simp)
  then show ?thesis
    unfolding dispatch_reviewer_def Some option.case Let_def by (auto intro: d1 books_refl split: option.split)
qed (simp add: dispatch_reviewer_def books_refl)

lemma provided_resumes:
  assumes "event_in_order name env fetch cfg now ((o', s), x) (EventProvideInput i msg)"
  shows "\<exists>t. adm t = adm s \<and> (fst (provide_input env cfg now ((o', s), x) i msg) = (o', t) \<or>
    (\<exists>ws. resume_run cfg (o', t) ws (fst (provide_input env cfg now ((o', s), x) i msg))))"
proof (cases "mget (s_InputRequiredIssues s) i")
  case (Some e)
  let ?s = "s\<lparr>s_InputRequiredIssues := mdel (s_InputRequiredIssues s) i,
    s_PendingInputResumes := mput (s_PendingInputResumes s) i (buildPendingInputResumeEntry e msg now)\<rparr>"
  have "\<exists>ws. resume_run cfg (o', ?s) ws (processPendingInputResumes (xe_loop env) cfg now (o', ?s))"
    using assms Some by (intro faithful_resume_run [where name = name]) (auto simp: buildPendingInputResumeEntry_def Let_def split: if_splits)
  then show ?thesis by (intro exI [of _ ?s]) (simp add: provide_input_def Some Let_def adm_def)
qed (auto simp: provide_input_def)

lemma books_provide_input:
  assumes "event_in_order name env fetch cfg now ((o', s), x) (EventProvideInput i msg)"
  shows "books_kept (o', s) (fst (provide_input env cfg now ((o', s), x) i msg))"
proof -
  obtain t ws where t: "adm t = adm s" "fst (provide_input env cfg now ((o', s), x) i msg) = (o', t) \<or>
      resume_run cfg (o', t) ws (fst (provide_input env cfg now ((o', s), x) i msg))"
    using provided_resumes [OF assms] by blast
  have "books_kept (o', s) (o', t)" using books.rel_quiet [of t "(o', s)"] t(1) by simp
  moreover have "books_kept (o', t) (fst (provide_input env cfg now ((o', s), x) i msg))" using t(2) books_refl books_resume_run by metis
  ultimately show ?thesis by (rule books_trans)
qed

lemma event_kinds:
  assumes "event_in_order name env fetch cfg now ((o', s), x) ev"
  obtains (kept) "books_kept (o', s) (fst (apply_event env fetch cfg now clock ((o', s), x) ev))"
  | (cancel) k i where "ev = EventCancelRetry k i" "\<not> mhas (s_Running s) k"
  | (exited) xv run where "ev = EventWorkerExited xv" "xv_RunEntry xv = Some run" "is_ID (ru_Issue run) = xv_IssueID xv" "exit_in_order (o', s) x xv run"
proof (cases ev)
  case (EventProvideInput i msg)
  show thesis using kept books_provide_input assms by (simp add: EventProvideInput)
next
  case (EventDispatchReviewer i p)
  show thesis using kept books_reviewer_event assms by (simp add: EventDispatchReviewer on_daemon_def)
next
  case EventDrain
  have "books_kept (o', s) (applyDrain (o', s))" by (rule books_same) (simp_all add: applyDrain_def)
  then show thesis using kept by (simp add: EventDrain on_daemon_def)
next
  case (EventCancelRetry k i)
  then show thesis using cancel assms by simp
next
  case (EventWorkerExited xv)
  then show thesis using exited assms by auto
next
  case (EventWorkerUpdate k u l)
  show thesis using kept books_worker_update by (simp add: EventWorkerUpdate on_state_def)
qed (use kept books.rel_plain_event [of ev "(o', s)"] in simp_all)

lemma apply_event_owned:
  assumes "claims_owned s" and "\<not> o_DryRun o'" and "event_in_order name env fetch cfg now ((o', s), x) ev"
  shows "claims_owned (snd (fst (apply_event env fetch cfg now clock ((o', s), x) ev))) \<and>
    \<not> o_DryRun (fst (fst (apply_event env fetch cfg now clock ((o', s), x) ev)))"
  using assms(3)
proof (cases rule: event_kinds [where clock = clock])
  case kept
  then show ?thesis using assms(1,2) unfolding books_kept_def by simp
next
  case (cancel k i)
  have "adm (cancel_retry s k i) = adm (CancelRetry s k)" by (simp add: cancel_retry_def Let_def)
  then have "claims_owned (cancel_retry s k i)" using owned_adm cancel_owned [OF assms(1) cancel(2)] by blast
  then show ?thesis using assms(2) by (simp add: cancel on_state_def)
next
  case (exited xv run)
  then show ?thesis using exit_owned [OF assms(1,2) exited(2-4)] shapes.rel_exit [of "((o', s), x)" env cfg now clock xv] assms(2) by (simp add: keeps_shape_def)
qed

lemma handled_owned:
  assumes "claims_owned (snd (fst ls))" and "\<not> o_DryRun (fst (fst ls))" and "event_in_order name env fetch cfg now ls ev"
  shows "claims_owned (snd (fst (handleEvent env fetch cfg now clock ls ev)))"
proof -
  obtain o' s x where ls: "ls = ((o', s), x)" by (metis prod.collapse)
  let ?ls = "apply_event env fetch cfg now clock ls ev"
  have a: "claims_owned (snd (fst ?ls))" "\<not> o_DryRun (fst (fst ?ls))" using apply_event_owned [of s o' name env fetch cfg now x ev clock] assms ls by auto
  have "books_kept (fst ?ls) (drainAutomationQueue (Some (le_tracker (xe_loop env))) cfg clock (fst ?ls))" by (rule books.rel_drain_queue)
  then show ?thesis using a unfolding handleEvent_def Let_def on_daemon_def books_kept_def by simp
qed

text \<open>The events keep the shape that runs of the loop rely on.\<close>

lemma mwf_worker_update: "mwf (s_Running s) \<Longrightarrow> mwf (s_Running (worker_update now s k upd limit))"
  by (auto simp: worker_update_def Let_def recordBackendThrottle_def split: option.split)

lemma shape_worker_update: "keeps_shape (o', s) (o', worker_update now s k upd limit)"
  using mwf_worker_update [of s now k upd limit]
  by (auto simp: keeps_shape_def admission_closed_def) (auto simp: worker_update_def Let_def recordBackendThrottle_def split: option.split)

lemma shape_provide_input:
  assumes "event_in_order name env fetch cfg now ((o', s), x) (EventProvideInput i msg)"
  shows "keeps_shape (o', s) (fst (provide_input env cfg now ((o', s), x) i msg))"
proof -
  obtain t ws where t: "adm t = adm s" "fst (provide_input env cfg now ((o', s), x) i msg) = (o', t) \<or>
      resume_run cfg (o', t) ws (fst (provide_input env cfg now ((o', s), x) i msg))"
    using provided_resumes [OF assms] by blast
  have "keeps_shape (o', s) (o', t)" using shapes.rel_quiet [of t "(o', s)"] t(1) by simp
  moreover have "keeps_shape (o', t) (fst (provide_input env cfg now ((o', s), x) i msg))"
    using t(2) shapes.rel_refl slot_shape [OF resume_runD(2) books_resume_run] by metis
  ultimately show ?thesis by (rule shapes.rel_trans)
qed

lemma event_shape:
  assumes "event_in_order name env fetch cfg now ((o', s), x) ev"
  shows "keeps_shape (o', s) (fst (apply_event env fetch cfg now clock ((o', s), x) ev))"
proof (cases ev)
  case (EventProvideInput i msg)
  show ?thesis using shape_provide_input assms by (simp add: EventProvideInput)
next
  case (EventDispatchReviewer i p)
  have "keeps_shape d (dispatchReviewerForIssue f cfg now (audit_candidates (xe_loop env) cfg now issues d) issue p)" for f d issues issue
    by (rule shapes.rel_trans [OF shapes.rel_audits shapes.rel_reviewer])
  then show ?thesis using shapes.rel_audits shapes.rel_refl
    by (simp add: EventDispatchReviewer on_daemon_def dispatch_reviewer_def Let_def split: option.split)
next
  case EventDrain
  show ?thesis by (simp add: EventDrain on_daemon_def applyDrain_def keeps_shape_def admission_closed_def)
next
  case (EventCancelRetry k i)
  show ?thesis by (rule shapes.rel_gear) (simp add: EventCancelRetry on_state_def cancel_retry_def setPauseReason_def CancelRetry_def gear_def Let_def)
next
  case (EventWorkerExited xv)
  show ?thesis using shapes.rel_exit [of "((o', s), x)" env cfg now clock xv] by (simp add: EventWorkerExited)
next
  case (EventWorkerUpdate k u l)
  show ?thesis using shape_worker_update by (simp add: EventWorkerUpdate on_state_def)
qed (use shapes.rel_plain_event [of ev "(o', s)"] in simp_all)

section \<open>Events that race\<close>

text \<open>
  A retry cancelled after it fired. \<open>CancelRetry\<close> of the issue API sees the pending retry in a snapshot and queues the event; when
  the retry has fired by the time the loop handles it, the handler still drops the claim and pauses the issue, and leaves the new worker running and not
  cancelled, so that the worker runs without a claim.
\<close>

theorem cancel_retry_after_firing:
  fixes env fetch cfg now clock d x k i r
  assumes "mget (s_Running (snd d)) k = Some r"
  defines "ls \<equiv> handleEvent env fetch cfg now clock (d, x) (EventCancelRetry k i)"
  shows "mget (s_Running (snd (fst ls))) k = Some r \<and> \<not> mhas (s_Claimed (snd (fst ls))) k \<and> mhas (s_PausedIdentifiers (snd (fst ls))) i \<and>
    snd ls = x \<and> \<not> claims_owned (snd (fst ls))"
proof -
  have "mhas (s_Running (snd d)) k" using assms(1) by (simp add: mhas_def)
  then show ?thesis
    using assms(1) unfolding ls_def claims_owned_def
    by (auto simp: handleEvent_def on_state_def cancel_retry_def setPauseReason_def CancelRetry_def Let_def)
qed

text \<open>
  A manual review of an issue that waits for a retry. The handler of \<open>EventDispatchReviewer\<close> refuses an issue with a worker, and nothing
  else: when the reviewer is launched for an issue whose retry is pending, the issue has both a worker and a pending retry.
\<close>

theorem manual_review_doubles_owner:
  fixes env fetch cfg now clock d x i p issues issue
  defines "d1 \<equiv> audit_candidates (xe_loop env) cfg now issues d"
  defines "d2 \<equiv> fst (handleEvent env fetch cfg now clock (d, x) (EventDispatchReviewer i p))"
  assumes "p \<noteq> []" and "\<not> list_ex (\<lambda>(_, e). is_Identifier (ru_Issue e) = i) (s_Running (snd d))"
    and "fetch (reviewer_states cfg) = Some issues" and "find (\<lambda>j. is_Identifier j = i) issues = Some issue"
    and "mhas (s_RetryAttempts (snd d1)) (is_ID issue)"
    and "mhas (s_Running (snd (dispatchReviewerForIssue (le_fmt_time (xe_loop env)) cfg now d1 issue p))) (is_ID issue)"
  shows "mhas (s_Running (snd d2)) (is_ID issue) \<and> mhas (s_RetryAttempts (snd d2)) (is_ID issue) \<and> \<not> claims_owned (snd d2)"
proof -
  have d2: "d2 = dispatchReviewerForIssue (le_fmt_time (xe_loop env)) cfg now d1 issue p"
    using assms(3-6) by (simp add: d2_def d1_def handleEvent_def on_daemon_def dispatch_reviewer_def)
  have "mhas (s_RetryAttempts (snd d2)) (is_ID issue)"
  proof (cases rule: reviewer_cases [of d1 "le_fmt_time (xe_loop env)" cfg now issue p])
    case refused
    then show ?thesis using assms(7) by (cases d1) (auto simp: d2 recordPendingReview_def syncDrainRequest_def applyDrain_def)
  next
    case skipped
    then show ?thesis using assms(7) by (simp add: d2)
  next
    case (gated profile o2 host s2 g)
    note q = prepared_fields [OF gated(2,3) requests_strip(2)]
    show ?thesis using assms(7)
      by (simp add: d2 gated(4) q ScheduleRetry_def launch_reviewer_def claim_and_run_def claim_issue_def clearPendingReview_def Let_def)
  qed
  then show ?thesis using assms(8) unfolding d2 [symmetric] claims_owned_def by blast
qed

lemma set_update_or: "p \<in> set (AList.update k v m) \<Longrightarrow> p \<in> set m \<or> p = (k, v)"
  by (induction m) (auto split: if_splits)

text \<open>
  A run that resumed from an answered question cannot be terminated. It is registered without the function that cancels its worker, so
  the request to terminate it changes nothing: no mark, no cancellation, no change of the state.
\<close>

theorem resumed_run_not_terminable:
  fixes env fetch cfg now clock d x issue e
  assumes "\<not> list_ex (\<lambda>(_, r). is_Identifier (ru_Issue r) = is_Identifier issue) (s_Running (snd d))"
  defines "d1 \<equiv> launch_resume cfg d issue e now"
  shows "mhas (s_Running (snd d1)) (pi_IssueID e) \<and>
    handleEvent env fetch cfg now clock (d1, x) (EventTerminateRunning (is_Identifier issue)) = (d1, x)"
proof -
  have "\<not> list_ex (\<lambda>(_, r). is_Identifier (ru_Issue r) = is_Identifier issue \<and> ru_WorkerCancel r) (s_Running (snd d1))"
    using assms(1) by (auto simp: d1_def list_ex_iff mput_def resumed_run_def dest: set_update_or)
  then show ?thesis by (simp add: d1_def handleEvent_def terminate_running_def split: prod.split)
qed

section \<open>The handler on concrete events\<close>

theorem cancel_retry_after_firing_witness:
  "\<not> claims_owned (snd (fst (handleEvent ex_exit_env (\<lambda>_. None) ex_config 9 9 ((ex_orch, ex_workers), ex_side) (EventCancelRetry ''id-A-1'' ''A-1''))))"
proof -
  have "mget (s_Running (snd (ex_orch, ex_workers))) ''id-A-1'' = Some ((ex_run (ex_issue ''A-1''))\<lparr>ru_RetryAttempt := Some 3\<rparr>)"
    by (simp add: ex_workers_def)
  from cancel_retry_after_firing [OF this] show ?thesis by blast
qed

text \<open>An issue whose retry is pending, in a state that the reviewers may take.\<close>

definition ex_awaiting :: daemon where
  "ex_awaiting = (ex_orch, ScheduleRetry ex_state ''id-A-1'' 1 ''A-1'' ''worker failed'' 9 300000)"

theorem manual_review_doubles_owner_witness:
  "\<not> claims_owned (snd (fst (handleEvent ex_exit_env (\<lambda>_. Some [ex_issue ''A-1'']) ex_review_config 9 9 (ex_awaiting, ex_side) (EventDispatchReviewer ''A-1'' ''rev''))))"
proof -
  have i: "is_ID (ex_issue ''A-1'') = ''id-A-1''" by (simp add: ex_issue_def)
  have f: "find (\<lambda>j. is_Identifier j = ''A-1'') [ex_issue ''A-1''] = Some (ex_issue ''A-1'')" by (simp add: ex_issue_def)
  have c: "\<not> list_ex (\<lambda>(_, e). is_Identifier (ru_Issue e) = ''A-1'') (s_Running (snd ex_awaiting))"
    "mhas (s_RetryAttempts (snd (audit_candidates (xe_loop ex_exit_env) ex_review_config 9 [ex_issue ''A-1''] ex_awaiting))) (is_ID (ex_issue ''A-1''))"
    by code_simp+
  have r: "mhas (s_Running (snd (dispatchReviewerForIssue (le_fmt_time (xe_loop ex_exit_env)) ex_review_config 9
      (audit_candidates (xe_loop ex_exit_env) ex_review_config 9 [ex_issue ''A-1''] ex_awaiting) (ex_issue ''A-1'') ''rev''))) (is_ID (ex_issue ''A-1''))"
    by code_simp
  show ?thesis using manual_review_doubles_owner [OF _ c(1) refl f c(2) r] by blast
qed

theorem resumed_run_not_terminable_witness:
  "handleEvent ex_exit_env (\<lambda>_. None) ex_config 9 9 (launch_resume ex_config (ex_orch, ex_state) (ex_issue ''A-1'') ex_pending 9, ex_side) (EventTerminateRunning ''A-1'') =
     (launch_resume ex_config (ex_orch, ex_state) (ex_issue ''A-1'') ex_pending 9, ex_side)"
proof -
  have "\<not> list_ex (\<lambda>(_, r). is_Identifier (ru_Issue r) = is_Identifier (ex_issue ''A-1'')) (s_Running (snd (ex_orch, ex_state)))" by code_simp
  moreover have "is_Identifier (ex_issue ''A-1'') = ''A-1''" by (simp add: ex_issue_def)
  ultimately show ?thesis using resumed_run_not_terminable [of "ex_issue ''A-1''" "(ex_orch, ex_state)"] by metis
qed

end
