(* ===== verification/Daemon_Run.thy ===== *)
theory Daemon_Run
  imports Operator_Events
begin

text \<open>
  Runs of the daemon: the steps of ticks and the events, interleaved in any order, with any configuration, time and tracker
  answers at each of them, while other goroutines set marks and queue tasks.
\<close>

section \<open>Steps\<close>

inductive daemon_step :: "loop_state \<Rightarrow> loop_state \<Rightarrow> bool" where
  tick_step: "loop_step False d d' \<Longrightarrow> daemon_step (d, x) (d', x)"
| event_step: "event_in_order name env fetch cfg now ls ev \<Longrightarrow> daemon_step ls (handleEvent env fetch cfg now clock ls ev)"
| mark_step: "daemon_step (d, x) (d, x')"

abbreviation daemon_run :: "loop_state \<Rightarrow> loop_state \<Rightarrow> bool" where
  "daemon_run \<equiv> daemon_step\<^sup>*\<^sup>*"

lemma handled_shape:
  assumes "event_in_order name env fetch cfg now ls ev"
  shows "keeps_shape (fst ls) (fst (handleEvent env fetch cfg now clock ls ev))"
proof -
  obtain o' s x where ls: "ls = ((o', s), x)" by (metis prod.collapse)
  have a: "keeps_shape (fst ls) (fst (apply_event env fetch cfg now clock ls ev))" using event_shape assms by (simp add: ls)
  show ?thesis
    using a shapes.rel_trans [OF a shapes.rel_drain_queue] by (simp add: handleEvent_def Let_def on_daemon_def)
qed

lemma step_shape:
  assumes "daemon_step ls ls'" and "mwf (s_Running (snd (fst ls)))"
  shows "keeps_shape (fst ls) (fst ls')"
  using assms(1)
proof cases
  case (tick_step d d' x)
  then show ?thesis using step_safe [OF tick_step(3)] step_dry [OF tick_step(3)] assms(2) by (simp add: keeps_shape_def safe_step_def)
next
  case (event_step name env fetch cfg now ev clock)
  then show ?thesis using handled_shape by simp
next
  case (mark_step d x x')
  then show ?thesis by (simp add: shapes.rel_refl)
qed

lemma run_shape:
  assumes "daemon_run ls ls'" and "mwf (s_Running (snd (fst ls)))"
  shows "keeps_shape (fst ls) (fst ls')"
  using assms(1)
proof induction
  case (step l1 l2)
  then have "mwf (s_Running (snd (fst l1)))" using assms(2) by (simp add: keeps_shape_def)
  from shapes.rel_trans [OF step.IH step_shape [OF step.hyps(2) this]] show ?case .
qed (rule shapes.rel_refl)

lemma step_owned:
  assumes "daemon_step ls ls'" and "\<not> o_DryRun (fst (fst ls))" and "mwf (s_Running (snd (fst ls)))" and "claims_owned (snd (fst ls))"
  shows "admission_closed (fst ls') \<or> claims_owned (snd (fst ls'))"
  using assms(1)
proof cases
  case (tick_step d d' x)
  then show ?thesis using step_books assms(2-4) by simp
next
  case (event_step name env fetch cfg now ev clock)
  then show ?thesis using handled_owned [OF assms(4,2)] by simp
next
  case (mark_step d x x')
  then show ?thesis using assms(4) by simp
qed



end
