(* ===== verification/Tick_Scc.thy ===== *)
theory Tick_Scc
  imports Prelude
begin

text \<open>
  The strongly connected components of the tick graph (\<open>internal/orchestrator/tick_graph_scc.go\<close>): the iterative form of Tarjan's
  algorithm with its explicit work stack, and the topological order of the condensation by waves. A slice that the code uses as a
  stack is a list with its top first. Taking the last element of an empty stack panics in Go and is \<open>None\<close> here; so is a loop that never
  ends, because the loops are partial functions. That they return is a theorem.
\<close>

record tick_graph =
  tg_Nodes :: "string goset"
  tg_Out :: "(string, string list) gomap"
  tg_EdgeKinds :: "(string, string goset) gomap"

record scc_result =
  sc_compOf :: "(string, nat) gomap"
  sc_compSize :: "(nat, nat) gomap"
  sc_numComp :: nat

record tarjan_frame =
  tw_node :: string
  tw_children :: "string list"
  tw_idx :: nat

definition sortedNodes :: "tick_graph \<Rightarrow> string list" where
  "sortedNodes g = sort (mkeys (tg_Nodes g))"

definition adjacency :: "tick_graph \<Rightarrow> string list \<Rightarrow> (string, string list) gomap" where
  "adjacency g nodes = foldl (\<lambda>adj n.
     let out = mget_or (tg_Out g) n []
     in if out = [] then adj else mput adj n (filter (mhas (tg_Nodes g)) out)) [] nodes"

definition hasSelfEdge :: "(string, string list) gomap \<Rightarrow> string \<Rightarrow> bool" where
  "hasSelfEdge adj node = list_ex (\<lambda>to. to = node) (mget_or adj node [])"

section \<open>The local variables of the search and one turn of its loop\<close>

record tarjan =
  tj_indices :: "(string, nat) gomap"
  tj_lowlink :: "(string, nat) gomap"
  tj_onStack :: "(string, bool) gomap"
  tj_tstack :: "string list"
  tj_compOf :: "(string, nat) gomap"
  tj_compSize :: "(nat, nat) gomap"
  tj_nextIndex :: nat
  tj_nextComp :: nat

definition tarjan_zero :: tarjan where
  "tarjan_zero = \<lparr>tj_indices = [], tj_lowlink = [], tj_onStack = [], tj_tstack = [], tj_compOf = [], tj_compSize = [],
     tj_nextIndex = 0, tj_nextComp = 0\<rparr>"

definition tarjan_frame_of :: "(string, string list) gomap \<Rightarrow> string \<Rightarrow> tarjan_frame" where
  "tarjan_frame_of adj v = \<lparr>tw_node = v, tw_children = mget_or adj v [], tw_idx = 0\<rparr>"

definition tarjan_enter :: "tarjan \<Rightarrow> string \<Rightarrow> tarjan" where
  "tarjan_enter t v = t\<lparr>tj_indices := mput (tj_indices t) v (tj_nextIndex t),
     tj_lowlink := mput (tj_lowlink t) v (tj_nextIndex t), tj_nextIndex := tj_nextIndex t + 1,
     tj_tstack := v # tj_tstack t, tj_onStack := mput (tj_onStack t) v True\<rparr>"

definition set_low :: "tarjan \<Rightarrow> string \<Rightarrow> nat \<Rightarrow> tarjan" where
  "set_low t v l = t\<lparr>tj_lowlink := mput (tj_lowlink t) v l\<rparr>"

abbreviation low_of :: "tarjan \<Rightarrow> string \<Rightarrow> nat" where
  "low_of t v \<equiv> mget_or (tj_lowlink t) v 0"

abbreviation index_in :: "tarjan \<Rightarrow> string \<Rightarrow> nat" where
  "index_in t v \<equiv> mget_or (tj_indices t) v 0"

definition finish_node :: "tarjan \<Rightarrow> string \<Rightarrow> tarjan" where
  "finish_node t w = t\<lparr>tj_tstack := tl (tj_tstack t), tj_onStack := mput (tj_onStack t) w False,
     tj_compOf := mput (tj_compOf t) w (tj_nextComp t),
     tj_compSize := mput (tj_compSize t) (tj_nextComp t) (mget_or (tj_compSize t) (tj_nextComp t) 0 + 1)\<rparr>"

fun pop_component :: "string \<Rightarrow> string list \<Rightarrow> tarjan \<Rightarrow> tarjan option" where
  "pop_component v [] t = None"
| "pop_component v (w # ws) t =
     (let t' = finish_node t w in if w = v then Some t' else pop_component v ws t')"

definition advance_child :: "(string, string list) gomap \<Rightarrow> tarjan_frame \<Rightarrow> tarjan_frame list \<Rightarrow> tarjan \<Rightarrow> tarjan_frame list \<times> tarjan" where
  "advance_child adj fr rest t = (
     let child = tw_children fr ! tw_idx fr; fr' = fr\<lparr>tw_idx := tw_idx fr + 1\<rparr>
     in case mget (tj_indices t) child of
          None \<Rightarrow> (tarjan_frame_of adj child # fr' # rest, tarjan_enter t child)
        | Some i \<Rightarrow> (fr' # rest,
            if mget_or (tj_onStack t) child False \<and> i < low_of t (tw_node fr) then set_low t (tw_node fr) i else t))"

definition lift_low :: "tarjan_frame \<Rightarrow> tarjan_frame list \<Rightarrow> tarjan \<Rightarrow> tarjan" where
  "lift_low fr rest t = (case rest of
       [] \<Rightarrow> t
     | parent # _ \<Rightarrow> if low_of t (tw_node fr) < low_of t (tw_node parent) then set_low t (tw_node parent) (low_of t (tw_node fr)) else t)"

definition retreat :: "tarjan_frame \<Rightarrow> tarjan_frame list \<Rightarrow> tarjan \<Rightarrow> (tarjan_frame list \<times> tarjan) option" where
  "retreat fr rest t = (
     let t1 = lift_low fr rest t
     in if low_of t1 (tw_node fr) = index_in t1 (tw_node fr)
        then map_option (\<lambda>t2. (rest, t2\<lparr>tj_nextComp := tj_nextComp t2 + 1\<rparr>)) (pop_component (tw_node fr) (tj_tstack t1) t1)
        else Some (rest, t1))"

definition tarjan_step :: "(string, string list) gomap \<Rightarrow> tarjan_frame \<Rightarrow> tarjan_frame list \<Rightarrow> tarjan \<Rightarrow> (tarjan_frame list \<times> tarjan) option" where
  "tarjan_step adj fr rest t =
     (if tw_idx fr < length (tw_children fr) then Some (advance_child adj fr rest t) else retreat fr rest t)"

partial_function (option) tarjan_loop :: "(string, string list) gomap \<Rightarrow> tarjan_frame list \<Rightarrow> tarjan \<Rightarrow> tarjan option" where
  "tarjan_loop adj work t = (case work of
       [] \<Rightarrow> Some t
     | fr # rest \<Rightarrow> Option.bind (tarjan_step adj fr rest t) (\<lambda>(work', t'). tarjan_loop adj work' t'))"

fun tarjan_roots :: "(string, string list) gomap \<Rightarrow> string list \<Rightarrow> tarjan \<Rightarrow> tarjan option" where
  "tarjan_roots adj [] t = Some t"
| "tarjan_roots adj (start # nodes) t =
     (if mhas (tj_indices t) start then tarjan_roots adj nodes t
      else Option.bind (tarjan_loop adj [tarjan_frame_of adj start] (tarjan_enter t start)) (tarjan_roots adj nodes))"

definition tarjanSCC :: "string list \<Rightarrow> (string, string list) gomap \<Rightarrow> scc_result option" where
  "tarjanSCC nodes adj = map_option (\<lambda>t. \<lparr>sc_compOf = tj_compOf t, sc_compSize = tj_compSize t, sc_numComp = tj_nextComp t\<rparr>)
     (tarjan_roots adj nodes tarjan_zero)"

section \<open>The invariant of the search\<close>

definition edges :: "(string, string list) gomap \<Rightarrow> (string \<times> string) set" where
  "edges adj = {(u, w). w \<in> set (mget_or adj u [])}"

definition mutual :: "(string, string list) gomap \<Rightarrow> string \<Rightarrow> string \<Rightarrow> bool" where
  "mutual adj u v \<longleftrightarrow> (u, v) \<in> (edges adj)\<^sup>* \<and> (v, u) \<in> (edges adj)\<^sup>*"

definition visited :: "tarjan \<Rightarrow> string set" where
  "visited t = set (mkeys (tj_indices t))"

definition settled :: "tarjan \<Rightarrow> string set" where
  "settled t = visited t - set (tj_tstack t)"

definition stack_ok :: "tarjan \<Rightarrow> bool" where
  "stack_ok t \<longleftrightarrow> distinct (tj_tstack t) \<and> set (tj_tstack t) \<subseteq> visited t
     \<and> (\<forall>n. mget_or (tj_onStack t) n False = (n \<in> set (tj_tstack t)))
     \<and> (\<forall>n \<in> visited t. index_in t n < tj_nextIndex t)
     \<and> sorted_wrt (\<lambda>a b. index_in t b < index_in t a) (tj_tstack t)"

definition comps_ok :: "(string, string list) gomap \<Rightarrow> string set \<Rightarrow> (string, nat) gomap \<Rightarrow> (nat, nat) gomap \<Rightarrow> nat \<Rightarrow> bool" where
  "comps_ok adj D compOf compSize k \<longleftrightarrow>
     (\<forall>u \<in> D. \<forall>w. (u, w) \<in> edges adj \<longrightarrow> w \<in> D \<and> mget_or compOf w 0 \<le> mget_or compOf u 0)
     \<and> (\<forall>u \<in> D. \<forall>v \<in> D. mget_or compOf u 0 = mget_or compOf v 0 \<longleftrightarrow> mutual adj u v)
     \<and> (\<lambda>u. mget_or compOf u 0) ` D = {..<k}
     \<and> (\<forall>c. mget_or compSize c 0 = card {u \<in> D. mget_or compOf u 0 = c})"

definition edge_done :: "tarjan \<Rightarrow> nat \<Rightarrow> string \<Rightarrow> bool" where
  "edge_done t l w \<longleftrightarrow> w \<in> visited t \<and> (w \<in> set (tj_tstack t) \<longrightarrow> l \<le> index_in t w)"

definition seg_ok :: "(string, string list) gomap \<Rightarrow> tarjan \<Rightarrow> tarjan_frame \<Rightarrow> string list \<Rightarrow> string list \<Rightarrow> bool" where
  "seg_ok adj t f seg below \<longleftrightarrow> seg \<noteq> [] \<and> last seg = tw_node f \<and> tw_children f = mget_or adj (tw_node f) []
     \<and> (\<forall>u \<in> set seg. mutual adj u (tw_node f))
     \<and> (\<forall>u \<in> set (butlast seg). \<forall>w \<in> set (mget_or adj u []). edge_done t (low_of t (tw_node f)) w)
     \<and> (\<forall>w \<in> set (take (tw_idx f) (tw_children f)). edge_done t (low_of t (tw_node f)) w)
     \<and> low_of t (tw_node f) \<le> index_in t (tw_node f)
     \<and> (\<exists>x \<in> set seg \<union> set below. index_in t x = low_of t (tw_node f) \<and> (tw_node f, x) \<in> (edges adj)\<^sup>*)"

type_synonym segment = "tarjan_frame \<times> string list"

fun linked :: "(string, string list) gomap \<Rightarrow> segment list \<Rightarrow> string \<Rightarrow> bool" where
  "linked adj [] v = True"
| "linked adj ((g, _) # _) v = ((tw_node g, v) \<in> edges adj)"

fun segs_ok :: "(string, string list) gomap \<Rightarrow> tarjan \<Rightarrow> segment list \<Rightarrow> bool" where
  "segs_ok adj t [] = True"
| "segs_ok adj t ((f, seg) # ps) = (seg_ok adj t f seg (concat (map snd ps))
     \<and> linked adj ps (tw_node f) \<and> segs_ok adj t ps)"

definition search_ok :: "(string, string list) gomap \<Rightarrow> segment list \<Rightarrow> tarjan \<Rightarrow> bool" where
  "search_ok adj ps t \<longleftrightarrow> stack_ok t \<and> tj_tstack t = concat (map snd ps) \<and> segs_ok adj t ps
     \<and> comps_ok adj (settled t) (tj_compOf t) (tj_compSize t) (tj_nextComp t)"

lemma visited_enter [simp]: "visited (tarjan_enter t v) = insert v (visited t)"
  by (simp add: visited_def tarjan_enter_def)

lemma enter_simps [simp]:
  "tj_tstack (tarjan_enter t v) = v # tj_tstack t"
  "tj_compOf (tarjan_enter t v) = tj_compOf t"
  "tj_compSize (tarjan_enter t v) = tj_compSize t"
  "tj_nextComp (tarjan_enter t v) = tj_nextComp t"
  "tj_nextIndex (tarjan_enter t v) = tj_nextIndex t + 1"
  "index_in (tarjan_enter t v) u = (if u = v then tj_nextIndex t else index_in t u)"
  "low_of (tarjan_enter t v) u = (if u = v then tj_nextIndex t else low_of t u)"
  "mget_or (tj_onStack (tarjan_enter t v)) u b = (u = v \<or> mget_or (tj_onStack t) u b)"
  by (simp_all add: tarjan_enter_def mget_or_def)

lemma set_low_simps [simp]:
  "visited (set_low t v l) = visited t"
  "tj_tstack (set_low t v l) = tj_tstack t"
  "tj_compOf (set_low t v l) = tj_compOf t"
  "tj_compSize (set_low t v l) = tj_compSize t"
  "tj_nextComp (set_low t v l) = tj_nextComp t"
  "tj_nextIndex (set_low t v l) = tj_nextIndex t"
  "tj_indices (set_low t v l) = tj_indices t"
  "tj_onStack (set_low t v l) = tj_onStack t"
  "low_of (set_low t v l) u = (if u = v then l else low_of t u)"
  by (simp_all add: set_low_def visited_def mget_or_def)

lemma visited_None: "mget (tj_indices t) v = None \<longleftrightarrow> v \<notin> visited t"
  by (simp add: visited_def mkeys_def map_of_eq_None_iff)

lemma mutual_refl [simp]: "mutual adj u u"
  by (simp add: mutual_def)

lemma mutual_sym: "mutual adj u v \<Longrightarrow> mutual adj v u"
  by (simp add: mutual_def)

lemma mutual_trans: "mutual adj u v \<Longrightarrow> mutual adj v w \<Longrightarrow> mutual adj u w"
  by (auto simp: mutual_def intro: rtrancl_trans)

lemma edges_iff: "(u, w) \<in> edges adj \<longleftrightarrow> w \<in> set (mget_or adj u [])"
  by (simp add: edges_def)

lemma seg_ok_node: "seg_ok adj t f seg below \<Longrightarrow> seg \<noteq> [] \<and> tw_node f \<in> set seg"
  unfolding seg_ok_def by (metis last_in_set)

lemma segs_nonempty: "segs_ok adj t ps \<Longrightarrow> (f, seg) \<in> set ps \<Longrightarrow> seg \<noteq> [] \<and> tw_node f \<in> set seg"
  by (induction ps) (auto dest: seg_ok_node)

lemma stack_nodes: "segs_ok adj t ps \<Longrightarrow> (f, seg) \<in> set ps \<Longrightarrow> tw_node f \<in> set (concat (map snd ps))"
  using segs_nonempty by force

text \<open>A segment stays in order when indices of its nodes stay, its low point stays, and finished edges stay finished.\<close>

lemma seg_ok_transfer:
  assumes ok: "seg_ok adj t f seg below"
    and ix: "\<And>u. u \<in> set seg \<union> set below \<Longrightarrow> index_in t' u = index_in t u"
    and lo: "low_of t' (tw_node f) = low_of t (tw_node f)"
    and ed: "\<And>w. edge_done t (low_of t (tw_node f)) w \<Longrightarrow> edge_done t' (low_of t (tw_node f)) w"
  shows "seg_ok adj t' f seg below"
proof -
  have "tw_node f \<in> set seg" using ok by (simp add: seg_ok_node)
  moreover obtain x where "x \<in> set seg \<union> set below" "index_in t x = low_of t (tw_node f)" "(tw_node f, x) \<in> (edges adj)\<^sup>*"
    using ok unfolding seg_ok_def by blast
  ultimately show ?thesis
    using ok ix ed unfolding seg_ok_def lo by (intro conjI ballI) (auto 0 3)
qed

lemma segs_ok_transfer:
  assumes "segs_ok adj t ps"
    and "\<And>u. u \<in> set (concat (map snd ps)) \<Longrightarrow> index_in t' u = index_in t u"
    and "\<And>f seg. (f, seg) \<in> set ps \<Longrightarrow> low_of t' (tw_node f) = low_of t (tw_node f)"
    and "\<And>f seg w. (f, seg) \<in> set ps \<Longrightarrow> edge_done t (low_of t (tw_node f)) w \<Longrightarrow> edge_done t' (low_of t (tw_node f)) w"
  shows "segs_ok adj t' ps"
  using assms
proof (induction ps)
  case (Cons p ps)
  obtain f seg where p: "p = (f, seg)" by (cases p)
  have "seg_ok adj t' f seg (concat (map snd ps))"
  proof (rule seg_ok_transfer)
    show "seg_ok adj t f seg (concat (map snd ps))" using Cons.prems(1) by (simp add: p)
    show "index_in t' u = index_in t u" if "u \<in> set seg \<union> set (concat (map snd ps))" for u
      using Cons.prems(2) that by (auto simp: p)
    show "low_of t' (tw_node f) = low_of t (tw_node f)" using Cons.prems(3) [of f seg] by (simp add: p)
    show "edge_done t' (low_of t (tw_node f)) w" if "edge_done t (low_of t (tw_node f)) w" for w
      using Cons.prems(4) [of f seg w] that by (simp add: p)
  qed
  moreover have "segs_ok adj t' ps"
  proof (rule Cons.IH)
    show "segs_ok adj t ps" using Cons.prems(1) by (simp add: p)
    show "index_in t' u = index_in t u" if "u \<in> set (concat (map snd ps))" for u using Cons.prems(2) that by simp
    show "low_of t' (tw_node g) = low_of t (tw_node g)" if "(g, sg) \<in> set ps" for g sg using Cons.prems(3) [of g sg] that by simp
    show "edge_done t' (low_of t (tw_node g)) w" if "(g, sg) \<in> set ps" "edge_done t (low_of t (tw_node g)) w" for g sg w
      using Cons.prems(4) [of g sg w] that by simp
  qed
  ultimately show ?case using Cons.prems(1) by (simp add: p)
qed simp

lemma segs_low: "segs_ok adj t ps \<Longrightarrow> (f, seg) \<in> set ps \<Longrightarrow> low_of t (tw_node f) \<le> index_in t (tw_node f)"
  by (induction ps) (auto simp: seg_ok_def)

text \<open>Every node on the stack reaches the node of the top frame.\<close>

lemma stack_reaches_frame:
  assumes "segs_ok adj t ((f, seg) # ps)" and "x \<in> set (concat (map snd ((f, seg) # ps)))"
  shows "(x, tw_node f) \<in> (edges adj)\<^sup>*"
  using assms
proof (induction ps arbitrary: f seg)
  case Nil
  then show ?case by (auto simp: seg_ok_def mutual_def)
next
  case (Cons p ps)
  obtain g segg where p: "p = (g, segg)" by (cases p)
  show ?case
  proof (cases "x \<in> set seg")
    case True
    then show ?thesis using Cons.prems(1) by (auto simp: seg_ok_def mutual_def)
  next
    case False
    have "segs_ok adj t ((g, segg) # ps)" and e: "(tw_node g, tw_node f) \<in> edges adj"
      using Cons.prems(1) by (auto simp: p)
    from Cons.IH [OF this(1)] have "(x, tw_node g) \<in> (edges adj)\<^sup>*"
      using Cons.prems(2) False by (auto simp: p)
    then show ?thesis by (rule rtrancl_into_rtrancl [OF _ e])
  qed
qed

section \<open>The steps keep the invariant\<close>

lemma settled_enter: "v \<notin> visited t \<Longrightarrow> settled (tarjan_enter t v) = settled t"
  by (auto simp: settled_def)

lemma stack_ok_enter:
  assumes "stack_ok t" and "v \<notin> visited t"
  shows "stack_ok (tarjan_enter t v)"
proof -
  have "sorted_wrt (\<lambda>a b. index_in (tarjan_enter t v) b < index_in (tarjan_enter t v) a) (tj_tstack t)"
    by (rule sorted_wrt_mono_rel [of _ "\<lambda>a b. index_in t b < index_in t a"]) (use assms in \<open>auto simp: stack_ok_def\<close>)
  then show ?thesis using assms by (auto simp: stack_ok_def less_Suc_eq)
qed

lemma edge_done_enter:
  "edge_done t l w \<Longrightarrow> v \<notin> visited t \<Longrightarrow> l \<le> tj_nextIndex t \<Longrightarrow> edge_done (tarjan_enter t v) l w"
  by (auto simp: edge_done_def)

lemma edge_done_mono: "edge_done t l w \<Longrightarrow> l' \<le> l \<Longrightarrow> edge_done t l' w"
  by (auto simp: edge_done_def)

lemma search_low_bound:
  assumes "search_ok adj ps t" and "(f, seg) \<in> set ps"
  shows "low_of t (tw_node f) \<le> tj_nextIndex t" and "tw_node f \<in> visited t" and "tw_node f \<in> set (tj_tstack t)"
proof -
  have on: "tw_node f \<in> set (tj_tstack t)" using assms stack_nodes by (auto simp: search_ok_def)
  then show v: "tw_node f \<in> visited t" and "tw_node f \<in> set (tj_tstack t)"
    using assms(1) unfolding search_ok_def stack_ok_def by blast+
  have "low_of t (tw_node f) \<le> index_in t (tw_node f)" using assms segs_low by (auto simp: search_ok_def)
  also have "\<dots> < tj_nextIndex t" using v assms(1) by (auto simp: search_ok_def stack_ok_def)
  finally show "low_of t (tw_node f) \<le> tj_nextIndex t" by simp
qed

lemma segs_ok_enter:
  assumes "search_ok adj ps t" and "v \<notin> visited t"
  shows "segs_ok adj (tarjan_enter t v) ps"
proof (rule segs_ok_transfer)
  show "segs_ok adj t ps" using assms(1) by (simp add: search_ok_def)
  show "index_in (tarjan_enter t v) u = index_in t u" if "u \<in> set (concat (map snd ps))" for u
    using that assms unfolding search_ok_def stack_ok_def by (metis enter_simps(6) subsetD)
  show "low_of (tarjan_enter t v) (tw_node f) = low_of t (tw_node f)" if "(f, seg) \<in> set ps" for f seg
    using search_low_bound(2) [OF assms(1) that] assms(2) by auto
  show "edge_done (tarjan_enter t v) (low_of t (tw_node f)) w"
    if "(f, seg) \<in> set ps" "edge_done t (low_of t (tw_node f)) w" for f seg w
    using search_low_bound(1) [OF assms(1) that(1)] that(2) assms(2) by (simp add: edge_done_enter)
qed

lemma seg_ok_next:
  assumes "seg_ok adj t f seg below" and "tw_idx f < length (tw_children f)"
    and "edge_done t (low_of t (tw_node f)) (tw_children f ! tw_idx f)"
  shows "seg_ok adj t (f\<lparr>tw_idx := tw_idx f + 1\<rparr>) seg below"
  using assms by (simp add: seg_ok_def take_Suc_conv_app_nth)

lemma segs_ok_next:
  assumes "segs_ok adj t ((f, seg) # ps)" and "tw_idx f < length (tw_children f)"
    and "edge_done t (low_of t (tw_node f)) (tw_children f ! tw_idx f)"
  shows "segs_ok adj t ((f\<lparr>tw_idx := tw_idx f + 1\<rparr>, seg) # ps)"
  using assms seg_ok_next by simp

lemma enter_ok:
  assumes ok: "search_ok adj ps t" and v: "v \<notin> visited t"
    and edge: "linked adj ps v"
  shows "search_ok adj ((tarjan_frame_of adj v, [v]) # ps) (tarjan_enter t v)"
proof -
  have "seg_ok adj (tarjan_enter t v) (tarjan_frame_of adj v) [v] (concat (map snd ps))"
    by (auto simp: seg_ok_def tarjan_frame_of_def)
  moreover have "segs_ok adj (tarjan_enter t v) ps" by (rule segs_ok_enter [OF ok v])
  moreover have "stack_ok (tarjan_enter t v)" using ok v by (simp add: search_ok_def stack_ok_enter)
  ultimately show ?thesis
    using ok v edge by (simp add: search_ok_def settled_enter tarjan_frame_of_def)
qed

lemma next_ok:
  assumes ok: "search_ok adj ((f, seg) # ps) t" and i: "tw_idx f < length (tw_children f)"
    and e: "edge_done t (low_of t (tw_node f)) (tw_children f ! tw_idx f)"
  shows "search_ok adj ((f\<lparr>tw_idx := tw_idx f + 1\<rparr>, seg) # ps) t"
  using ok segs_ok_next [OF _ i e] by (simp add: search_ok_def del: segs_ok.simps)

lemma child_edge:
  assumes "seg_ok adj t f seg below" and "tw_idx f < length (tw_children f)"
  shows "(tw_node f, tw_children f ! tw_idx f) \<in> edges adj"
  using assms by (simp add: seg_ok_def edges_iff)

lemma edge_done_set_low [simp]: "edge_done (set_low t v l') l w = edge_done t l w"
  by (simp add: edge_done_def)

lemma stack_ok_set_low [simp]: "stack_ok (set_low t v l) = stack_ok t"
  by (simp add: stack_ok_def)

lemma settled_set_low [simp]: "settled (set_low t v l) = settled t"
  by (simp add: settled_def)

lemma segs_lower:
  assumes ok: "segs_ok adj t ((f, seg) # ps)" and dis: "distinct (concat (map snd ((f, seg) # ps)))"
    and x: "x \<in> set (concat (map snd ((f, seg) # ps)))" "(tw_node f, x) \<in> (edges adj)\<^sup>*"
    and le: "index_in t x \<le> low_of t (tw_node f)"
  shows "segs_ok adj (set_low t (tw_node f) (index_in t x)) ((f, seg) # ps)"
proof -
  let ?t = "set_low t (tw_node f) (index_in t x)"
  have f: "seg_ok adj t f seg (concat (map snd ps))" using ok by simp
  have other: "tw_node g \<noteq> tw_node f" if "(g, sg) \<in> set ps" for g sg
  proof -
    have "tw_node g \<in> set (concat (map snd ps))" using ok stack_nodes [of adj t ps g sg] that by simp
    moreover have "tw_node f \<in> set seg" using f by (simp add: seg_ok_node)
    moreover have "set seg \<inter> set (concat (map snd ps)) = {}" using dis by simp
    ultimately show ?thesis by (metis IntI empty_iff)
  qed
  have "segs_ok adj ?t ps"
    by (rule segs_ok_transfer [of adj t]) (use ok other in auto)
  moreover have "edge_done t (index_in t x) w" if "edge_done t (low_of t (tw_node f)) w" for w
    using that le by (rule edge_done_mono)
  then have "seg_ok adj ?t f seg (concat (map snd ps))"
    using f x le unfolding seg_ok_def by (auto 0 3)
  ultimately show ?thesis using ok by simp
qed

lemma lower_ok:
  assumes ok: "search_ok adj ((f, seg) # ps) t" and x: "x \<in> set (tj_tstack t)" "(tw_node f, x) \<in> (edges adj)\<^sup>*"
    and le: "index_in t x \<le> low_of t (tw_node f)"
  shows "search_ok adj ((f, seg) # ps) (set_low t (tw_node f) (index_in t x))"
proof -
  have "segs_ok adj (set_low t (tw_node f) (index_in t x)) ((f, seg) # ps)"
  proof (rule segs_lower [OF _ _ _ x(2) le])
    show "segs_ok adj t ((f, seg) # ps)" using ok unfolding search_ok_def by blast
    show "distinct (concat (map snd ((f, seg) # ps)))" using ok unfolding search_ok_def stack_ok_def by metis
    show "x \<in> set (concat (map snd ((f, seg) # ps)))" using ok x(1) unfolding search_ok_def by metis
  qed
  then show ?thesis using ok by (simp add: search_ok_def del: segs_ok.simps)
qed

lemma advance_ok:
  assumes ok: "search_ok adj ((f, seg) # ps) t" and i: "tw_idx f < length (tw_children f)"
  shows "\<exists>ps' t'. advance_child adj f (map fst ps) t = (map fst ps', t') \<and> search_ok adj ps' t'"
proof -
  let ?c = "tw_children f ! tw_idx f" and ?f = "f\<lparr>tw_idx := tw_idx f + 1\<rparr>"
  have f: "seg_ok adj t f seg (concat (map snd ps))" using ok by (simp add: search_ok_def)
  note e = child_edge [OF f i]
  show ?thesis
  proof (cases "mget (tj_indices t) ?c")
    case None
    then have new: "?c \<notin> visited t" by (simp add: visited_None)
    have "search_ok adj ((tarjan_frame_of adj ?c, [?c]) # (f, seg) # ps) (tarjan_enter t ?c)"
      using enter_ok [OF ok new] e by simp
    moreover have "edge_done (tarjan_enter t ?c) (low_of (tarjan_enter t ?c) (tw_node f)) ?c"
      using search_low_bound [OF ok, of f seg] new by (auto simp: edge_done_def)
    ultimately have "search_ok adj ((tarjan_frame_of adj ?c, [?c]) # (?f, seg) # ps) (tarjan_enter t ?c)"
      using segs_ok_next [of adj "tarjan_enter t ?c" f seg ps] i by (auto simp: search_ok_def)
    then show ?thesis
      using None by (intro exI [of _ "(tarjan_frame_of adj ?c, [?c]) # (?f, seg) # ps"]) (simp add: advance_child_def Let_def)
  next
    case (Some n)
    then have seen: "?c \<in> visited t" and n: "index_in t ?c = n"
      using visited_None [of t ?c] by (auto simp: mget_or_def)
    have on: "mget_or (tj_onStack t) ?c False = (?c \<in> set (tj_tstack t))" using ok by (simp add: search_ok_def stack_ok_def)
    let ?t = "if mget_or (tj_onStack t) ?c False \<and> n < low_of t (tw_node f) then set_low t (tw_node f) n else t"
    have "search_ok adj ((f, seg) # ps) ?t"
      using lower_ok [OF ok, of ?c] ok n on r_into_rtrancl [OF e] by auto
    moreover have "edge_done ?t (low_of ?t (tw_node f)) ?c"
      using seen n on by (auto simp: edge_done_def)
    ultimately have "search_ok adj ((?f, seg) # ps) ?t" using next_ok [OF _ i] by blast
    then show ?thesis
      using Some by (intro exI [of _ "(?f, seg) # ps"] exI [of _ ?t]) (simp add: advance_child_def Let_def)
  qed
qed

lemma pop_component_segment:
  assumes "tj_tstack t = seg @ below" and "distinct seg" and "seg \<noteq> []" and "last seg = v"
  shows "\<exists>t'. pop_component v (seg @ below) t = Some t' \<and> tj_tstack t' = below
    \<and> tj_indices t' = tj_indices t \<and> tj_lowlink t' = tj_lowlink t \<and> tj_nextIndex t' = tj_nextIndex t \<and> tj_nextComp t' = tj_nextComp t
    \<and> (\<forall>n. mget_or (tj_onStack t') n False = (n \<notin> set seg \<and> mget_or (tj_onStack t) n False))
    \<and> (\<forall>n. mget_or (tj_compOf t') n 0 = (if n \<in> set seg then tj_nextComp t else mget_or (tj_compOf t) n 0))
    \<and> (\<forall>c. mget_or (tj_compSize t') c 0 = mget_or (tj_compSize t) c 0 + (if c = tj_nextComp t then length seg else 0))"
  using assms
proof (induction seg arbitrary: t)
  case (Cons w seg)
  let ?t = "finish_node t w"
  have st: "tj_tstack ?t = seg @ below" using Cons.prems(1) by (simp add: finish_node_def)
  show ?case
  proof (cases "seg = []")
    case True
    then show ?thesis using Cons.prems st by (auto simp: finish_node_def mget_or_def Let_def)
  next
    case False
    then have "w \<noteq> v" using Cons.prems by auto
    moreover have "distinct seg" "last seg = v" using Cons.prems False by auto
    note ih = Cons.IH [OF st this(1) False this(2)]
    ultimately show ?thesis using ih by (auto simp: finish_node_def mget_or_def Let_def)
  qed
qed simp

lemma search_disjoint:
  assumes "search_ok adj ((f, seg) # ps) t" and "w \<in> set seg"
  shows "w \<notin> set (concat (map snd ps))"
proof -
  have "tj_tstack t = seg @ concat (map snd ps)" using assms(1) by (simp add: search_ok_def)
  moreover have "distinct (tj_tstack t)" using assms(1) unfolding search_ok_def stack_ok_def by blast
  ultimately show ?thesis using assms(2) by (metis IntI distinct_append empty_iff)
qed

lemma below_segment:
  assumes "search_ok adj ((f, seg) # ps) t" and "w \<in> set (tj_tstack t)"
  shows "w \<in> set seg \<and> index_in t (tw_node f) \<le> index_in t w
    \<or> w \<in> set (concat (map snd ps)) \<and> index_in t w < index_in t (tw_node f)"
proof -
  have "seg_ok adj t f seg (concat (map snd ps))" and st: "tj_tstack t = seg @ concat (map snd ps)"
    and so: "sorted_wrt (\<lambda>a b. index_in t b < index_in t a) (seg @ concat (map snd ps))"
    using assms(1) by (auto simp: search_ok_def stack_ok_def)
  then have seg: "seg = butlast seg @ [tw_node f]" unfolding seg_ok_def by (metis append_butlast_last_id)
  have "index_in t (tw_node f) \<le> index_in t w" if "w \<in> set seg"
    using so that by (subst (asm) seg, subst (asm) (2) seg) (auto simp: sorted_wrt_append intro: less_imp_le)
  moreover have "index_in t w < index_in t (tw_node f)" if "w \<in> set (concat (map snd ps))"
    using so that by (subst (asm) seg) (auto simp: sorted_wrt_append)
  ultimately show ?thesis using assms(2) st by auto
qed

lemma closed_reach:
  assumes "\<forall>u \<in> D. \<forall>w. (u, w) \<in> edges adj \<longrightarrow> w \<in> D" and "(u, v) \<in> (edges adj)\<^sup>*" and "u \<in> D"
  shows "v \<in> D"
  using assms(2,3) by (induction rule: rtrancl_induct) (use assms(1) in blast)+

lemma comps_add:
  assumes ok: "comps_ok adj D compOf compSize k"
    and C: "finite C" "C \<noteq> {}" "C \<inter> D = {}"
    and scc: "\<forall>u \<in> C. \<forall>v \<in> C. mutual adj u v" and succ: "\<forall>u \<in> C. \<forall>w. (u, w) \<in> edges adj \<longrightarrow> w \<in> C \<union> D"
    and of': "\<forall>n. mget_or compOf' n 0 = (if n \<in> C then k else mget_or compOf n 0)"
    and size': "\<forall>c. mget_or compSize' c 0 = mget_or compSize c 0 + (if c = k then card C else 0)"
  shows "comps_ok adj (D \<union> C) compOf' compSize' (k + 1)"
proof -
  let ?c = "\<lambda>u. mget_or compOf u 0" and ?c' = "\<lambda>u. mget_or compOf' u 0"
  have cl: "\<forall>u \<in> D. \<forall>w. (u, w) \<in> edges adj \<longrightarrow> w \<in> D" and le: "\<And>u w. u \<in> D \<Longrightarrow> (u, w) \<in> edges adj \<Longrightarrow> ?c w \<le> ?c u"
    and eq: "\<And>u v. u \<in> D \<Longrightarrow> v \<in> D \<Longrightarrow> ?c u = ?c v \<longleftrightarrow> mutual adj u v" and im: "?c ` D = {..<k}"
    and sz: "\<And>c. mget_or compSize c 0 = card {u \<in> D. ?c u = c}"
    using ok by (auto simp: comps_ok_def)
  have inD: "?c' u = ?c u \<and> ?c u < k" if "u \<in> D" for u using that of' im C(3) by auto
  have inC: "?c' u = k" if "u \<in> C" for u using that of' by simp
  have apart: "\<not> mutual adj u v" if "u \<in> D" "v \<in> C" for u v
    using closed_reach [OF cl _ that(1)] that(2) C(3) by (auto simp: mutual_def)
  have "w \<in> D \<union> C \<and> ?c' w \<le> ?c' u" if "u \<in> D \<union> C" "(u, w) \<in> edges adj" for u w
  proof (cases "u \<in> D")
    case True
    then show ?thesis using cl le that(2) inD by (metis UnI1)
  next
    case False
    then show ?thesis using that succ inC inD by (metis Un_iff less_imp_le order_refl)
  qed
  moreover have "?c' u = ?c' v \<longleftrightarrow> mutual adj u v" if "u \<in> D \<union> C" "v \<in> D \<union> C" for u v
    using that inD inC eq scc apart mutual_sym by (metis Un_iff less_irrefl)
  moreover have "?c' ` (D \<union> C) = {..<k + 1}"
  proof -
    have "?c' ` D = {..<k}" using inD im by (metis (no_types, lifting) image_cong)
    moreover have "?c' ` C = {k}" using inC C(2) by (metis (no_types, lifting) image_cong image_constant_conv)
    ultimately show ?thesis by (auto simp: image_Un)
  qed
  moreover have "mget_or compSize' c 0 = card {u \<in> D \<union> C. ?c' u = c}" for c
  proof (cases "c = k")
    case True
    have "?c' u \<noteq> k \<and> ?c u \<noteq> k" if "u \<in> D" for u using inD [OF that] by simp
    then have "{u \<in> D. ?c u = k} = {}" "{u \<in> D \<union> C. ?c' u = k} = C" using inC by auto
    then have "mget_or compSize k 0 = 0" "card {u \<in> D \<union> C. ?c' u = k} = card C" by (simp_all only: sz card.empty)
    then show ?thesis using True size' by simp
  next
    case False
    then have "{u \<in> D \<union> C. ?c' u = c} = {u \<in> D. ?c u = c}" using inD inC by auto
    then show ?thesis using False size' sz by simp
  qed
  ultimately show ?thesis unfolding comps_ok_def by blast
qed

lemma finished_edges:
  assumes "seg_ok adj t f seg below" and "length (tw_children f) \<le> tw_idx f" and "u \<in> set seg" and "w \<in> set (mget_or adj u [])"
  shows "edge_done t (low_of t (tw_node f)) w"
proof (cases "u = tw_node f")
  case True
  then show ?thesis using assms by (auto simp: seg_ok_def)
next
  case False
  have "seg = butlast seg @ [tw_node f]" using assms(1) unfolding seg_ok_def by (metis append_butlast_last_id)
  then have "u \<in> set (butlast seg)" using assms(3) False by (metis Un_iff empty_iff insert_iff list.set set_append)
  then show ?thesis using assms(1,4) by (auto simp: seg_ok_def)
qed

lemma settle_ok:
  assumes ok: "search_ok adj ((f, seg) # ps) t" and fin: "length (tw_children f) \<le> tw_idx f"
    and root: "low_of t (tw_node f) = index_in t (tw_node f)"
  shows "\<exists>t'. pop_component (tw_node f) (tj_tstack t) t = Some t'
    \<and> search_ok adj ps (t'\<lparr>tj_nextComp := tj_nextComp t' + 1\<rparr>) \<and> tj_indices t' = tj_indices t"
proof -
  define B where "B = concat (map snd ps)"
  have f: "seg_ok adj t f seg (B)" and segs: "segs_ok adj t ps" and so: "stack_ok t"
    and st: "tj_tstack t = seg @ B" and co: "comps_ok adj (settled t) (tj_compOf t) (tj_compSize t) (tj_nextComp t)"
    using ok by (simp_all add: search_ok_def B_def)
  have dis: "distinct seg" "set seg \<inter> set (B) = {}" using so st by (simp_all add: stack_ok_def)
  obtain t' where pop: "pop_component (tw_node f) (tj_tstack t) t = Some t'"
    and st': "tj_tstack t' = B"
    and same: "tj_indices t' = tj_indices t" "tj_lowlink t' = tj_lowlink t" "tj_nextIndex t' = tj_nextIndex t" "tj_nextComp t' = tj_nextComp t"
    and on: "\<forall>n. mget_or (tj_onStack t') n False = (n \<notin> set seg \<and> mget_or (tj_onStack t) n False)"
    and cof: "\<forall>n. mget_or (tj_compOf t') n 0 = (if n \<in> set seg then tj_nextComp t else mget_or (tj_compOf t) n 0)"
    and csz: "\<forall>c. mget_or (tj_compSize t') c 0 = mget_or (tj_compSize t) c 0 + (if c = tj_nextComp t then length seg else 0)"
    using pop_component_segment [OF st dis(1)] f unfolding st seg_ok_def by blast
  let ?t = "t'\<lparr>tj_nextComp := tj_nextComp t' + 1\<rparr>"
  have vis: "visited (t'\<lparr>tj_nextComp := n\<rparr>) = visited t" for n by (simp add: visited_def same)
  have "set seg \<subseteq> visited t" using so by (simp add: stack_ok_def st)
  moreover have "tj_tstack (t'\<lparr>tj_nextComp := n\<rparr>) = B" for n by (simp add: st')
  ultimately have settled: "settled (t'\<lparr>tj_nextComp := n\<rparr>) = settled t \<union> set seg" for n
    using dis(2) unfolding settled_def vis st set_append by fastforce
  have "stack_ok ?t" using so on dis(2) by (auto simp: stack_ok_def same st st' vis sorted_wrt_append)
  moreover have "segs_ok adj ?t ps"
    by (rule segs_ok_transfer [OF segs]) (auto simp: same edge_done_def vis st st')
  moreover have "comps_ok adj (settled t \<union> set seg) (tj_compOf t') (tj_compSize t') (tj_nextComp t + 1)"
  proof (rule comps_add [OF co])
    show "finite (set seg)" "set seg \<noteq> {}" using f by (simp_all add: seg_ok_def)
    show "set seg \<inter> settled t = {}" by (auto simp: settled_def st)
    show "\<forall>u \<in> set seg. \<forall>v \<in> set seg. mutual adj u v" using f mutual_trans mutual_sym unfolding seg_ok_def by meson
    show "\<forall>u \<in> set seg. \<forall>w. (u, w) \<in> edges adj \<longrightarrow> w \<in> set seg \<union> settled t"
    proof (intro ballI allI impI)
      fix u w assume "u \<in> set seg" "(u, w) \<in> edges adj"
      then have "edge_done t (index_in t (tw_node f)) w" using finished_edges [OF f fin] root by (simp add: edges_iff)
      then show "w \<in> set seg \<union> settled t"
        using below_segment [OF ok, of w] unfolding edge_done_def settled_def by fastforce
    qed
    show "\<forall>n. mget_or (tj_compOf t') n 0 = (if n \<in> set seg then tj_nextComp t else mget_or (tj_compOf t) n 0)" by (rule cof)
    show "\<forall>c. mget_or (tj_compSize t') c 0 = mget_or (tj_compSize t) c 0 + (if c = tj_nextComp t then card (set seg) else 0)"
      using csz dis(1) by (simp add: distinct_card)
  qed
  ultimately have "search_ok adj ps ?t" using same by (simp add: search_ok_def settled st' B_def)
  then show ?thesis using pop same by blast
qed

lemma lift_low_root:
  assumes ok: "search_ok adj ((f, seg) # ps) t" and root: "index_in t (tw_node f) \<le> low_of t (tw_node f)"
  shows "lift_low f (map fst ps) t = t"
proof (cases ps)
  case (Cons p ps')
  obtain g segg where p: "p = (g, segg)" by (cases p)
  have g: "seg_ok adj t g segg (concat (map snd ps'))" using ok by (simp add: search_ok_def Cons p)
  have "tw_node g \<in> set (tj_tstack t)" "tw_node g \<in> set (concat (map snd ps))" 
    using ok seg_ok_node [OF g] by (simp_all add: search_ok_def Cons p)
  moreover have "tw_node g \<notin> set seg" using calculation(2) search_disjoint [OF ok] by blast
  ultimately have "index_in t (tw_node g) < index_in t (tw_node f)" using below_segment [OF ok] by blast
  moreover have "low_of t (tw_node g) \<le> index_in t (tw_node g)" using g by (simp add: seg_ok_def)
  ultimately show ?thesis using root by (simp add: lift_low_def Cons p)
qed (simp add: lift_low_def)

lemma lift_low_keeps [simp]:
  "tj_indices (lift_low f rest t) = tj_indices t"
  "tj_nextComp (lift_low f rest t) = tj_nextComp t"
  "tj_tstack (lift_low f rest t) = tj_tstack t"
  "tj_compOf (lift_low f rest t) = tj_compOf t"
  "tj_compSize (lift_low f rest t) = tj_compSize t"
  "stack_ok (lift_low f rest t) = stack_ok t"
  "settled (lift_low f rest t) = settled t"
  by (simp_all add: lift_low_def split: list.splits)

lemma merge_ok:
  assumes ok: "search_ok adj ((f, seg) # ps) t" and fin: "length (tw_children f) \<le> tw_idx f"
    and inner: "low_of t (tw_node f) < index_in t (tw_node f)"
  shows "\<exists>ps'. map fst ps' = map fst ps \<and> search_ok adj ps' (lift_low f (map fst ps) t)"
proof -
  have f: "seg_ok adj t f seg (concat (map snd ps))" and segs: "segs_ok adj t ps" "linked adj ps (tw_node f)" and st: "tj_tstack t = seg @ concat (map snd ps)"
    using ok by (simp_all add: search_ok_def)
  obtain x where x: "x \<in> set seg \<union> set (concat (map snd ps))" "index_in t x = low_of t (tw_node f)" "(tw_node f, x) \<in> (edges adj)\<^sup>*"
    using f unfolding seg_ok_def by blast
  have "x \<in> set (tj_tstack t)" using x(1) unfolding st set_append .
  then have xB: "x \<in> set (concat (map snd ps))" using below_segment [OF ok] x(2) inner by fastforce
  then obtain g segg ps' where ps: "ps = (g, segg) # ps'" by (cases ps) auto
  let ?t = "lift_low f (map fst ps) t"
  have e: "(tw_node g, tw_node f) \<in> edges adj" using segs(2) by (simp add: ps)
  have gx: "(tw_node g, x) \<in> (edges adj)\<^sup>*" using x(3) e by (metis converse_rtrancl_into_rtrancl)
  have t: "?t = (if low_of t (tw_node f) < low_of t (tw_node g) then set_low t (tw_node g) (index_in t x) else t)"
    by (simp add: lift_low_def ps x(2))
  have dis: "distinct (concat (map snd ps))" using ok st by (auto simp: search_ok_def stack_ok_def)
  have segs1: "segs_ok adj ?t ps"
  proof (cases "low_of t (tw_node f) < low_of t (tw_node g)")
    case True
    then have "segs_ok adj (set_low t (tw_node g) (index_in t x)) ps"
      using segs_lower [of adj t g segg ps' x] segs(1) dis xB gx x(2) by (simp add: ps del: segs_ok.simps)
    then show ?thesis using True by (simp add: t)
  next
    case False
    then show ?thesis using segs(1) by (simp add: t)
  qed
  have keeps: "index_in ?t u = index_in t u" "edge_done ?t l w = edge_done t l w" for u l w by (simp_all add: t)
  have le: "low_of ?t (tw_node g) \<le> low_of t (tw_node f)" using x(2) by (simp add: t)
  have g: "seg_ok adj ?t g segg (concat (map snd ps'))" using segs1 by (simp add: ps)
  have fg: "mutual adj (tw_node f) (tw_node g)"
    using rtrancl_trans [OF x(3)] stack_reaches_frame [of adj ?t g segg ps' x] segs1 xB e unfolding mutual_def ps by blast
  have "seg_ok adj ?t g (seg @ segg) (concat (map snd ps'))"
    unfolding seg_ok_def
  proof (intro conjI ballI)
    show "seg @ segg \<noteq> []" "last (seg @ segg) = tw_node g" "tw_children g = mget_or adj (tw_node g) []"
      "low_of ?t (tw_node g) \<le> index_in ?t (tw_node g)" using g by (simp_all add: seg_ok_def)
    show "mutual adj u (tw_node g)" if "u \<in> set (seg @ segg)" for u
      using that f g mutual_trans [OF _ fg] by (auto simp: seg_ok_def)
    show "edge_done ?t (low_of ?t (tw_node g)) w" if "u \<in> set (butlast (seg @ segg))" "w \<in> set (mget_or adj u [])" for u w
      using that g finished_edges [OF f fin, of u w] edge_done_mono [OF _ le] keeps(2)
      by (auto simp: seg_ok_def butlast_append split: if_splits)
    show "edge_done ?t (low_of ?t (tw_node g)) w" if "w \<in> set (take (tw_idx g) (tw_children g))" for w
      using that g by (auto simp: seg_ok_def)
    show "\<exists>x \<in> set (seg @ segg) \<union> set (concat (map snd ps')). index_in ?t x = low_of ?t (tw_node g) \<and> (tw_node g, x) \<in> (edges adj)\<^sup>*"
      using g unfolding seg_ok_def by (metis (no_types, lifting) UnI1 UnI2 Un_iff set_append)
  qed
  then have "search_ok adj ((g, seg @ segg) # ps') ?t"
    using ok segs1 by (simp add: search_ok_def ps)
  then show ?thesis by (intro exI [of _ "(g, seg @ segg) # ps'"]) (simp add: ps)
qed

section \<open>The search ends\<close>

definition targets :: "(string, string list) gomap \<Rightarrow> string set" where
  "targets adj = set (concat (map snd adj))"

definition work_left :: "tarjan_frame list \<Rightarrow> nat" where
  "work_left work = sum_list (map (\<lambda>f. length (tw_children f) - tw_idx f + 1) work)"

definition progress :: "(string, string list) gomap \<Rightarrow> ((tarjan_frame list \<times> tarjan) \<times> (tarjan_frame list \<times> tarjan)) set" where
  "progress adj = inv_image (less_than <*lex*> less_than) (\<lambda>(work, t). (card (targets adj - visited t), work_left work))"

lemma wf_progress: "wf (progress adj)"
  by (auto simp: progress_def)

lemma successor_target: "w \<in> set (mget_or adj u []) \<Longrightarrow> w \<in> targets adj"
  unfolding targets_def mget_or_def by (auto split: option.splits) (metis map_of_SomeD snd_conv)

lemma visited_indices: "tj_indices t' = tj_indices t \<Longrightarrow> visited t' = visited t"
  by (simp add: visited_def)

lemma advance_progress:
  assumes "tw_idx f < length (tw_children f)" and "tw_children f = mget_or adj (tw_node f) []"
    and "advance_child adj f rest t = (work', t')"
  shows "visited t \<subseteq> visited t' \<and> visited t' \<subseteq> visited t \<union> targets adj \<and> ((work', t'), (f # rest, t)) \<in> progress adj"
proof -
  let ?c = "tw_children f ! tw_idx f"
  have c: "?c \<in> targets adj" using assms(1,2) by (intro successor_target [of _ _ "tw_node f"]) simp
  show ?thesis
  proof (cases "mget (tj_indices t) ?c")
    case None
    then have new: "?c \<notin> visited t" by (simp add: visited_None)
    have "finite (targets adj - visited t)" by (simp add: targets_def)
    then have "card (targets adj - insert ?c (visited t)) < card (targets adj - visited t)"
      by (rule psubset_card_mono) (use c new in auto)
    then show ?thesis using assms(3) None c by (auto simp: advance_child_def Let_def progress_def)
  next
    case (Some n)
    then have "visited t' = visited t" "work' = f\<lparr>tw_idx := tw_idx f + 1\<rparr> # rest"
      using assms(3) by (auto simp: advance_child_def Let_def split: if_splits)
    then show ?thesis using assms(1) by (simp add: progress_def work_left_def)
  qed
qed

lemma retreat_ok:
  assumes ok: "search_ok adj ((f, seg) # ps) t" and fin: "\<not> tw_idx f < length (tw_children f)"
  shows "\<exists>ps' t'. retreat f (map fst ps) t = Some (map fst ps', t') \<and> search_ok adj ps' t' \<and> map fst ps' = map fst ps
    \<and> tj_indices t' = tj_indices t"
proof -
  have f: "seg_ok adj t f seg (concat (map snd ps))" using ok by (simp add: search_ok_def)
  show ?thesis
  proof (cases "low_of t (tw_node f) = index_in t (tw_node f)")
    case True
    then have "lift_low f (map fst ps) t = t" using lift_low_root [OF ok] by simp
    moreover obtain t' where "pop_component (tw_node f) (tj_tstack t) t = Some t'"
      "search_ok adj ps (t'\<lparr>tj_nextComp := tj_nextComp t' + 1\<rparr>)" "tj_indices t' = tj_indices t"
      using settle_ok [OF ok _ True] fin by auto
    ultimately show ?thesis
      using True by (intro exI [of _ ps] exI [of _ "t'\<lparr>tj_nextComp := tj_nextComp t' + 1\<rparr>"]) (simp add: retreat_def)
  next
    case False
    then have inner: "low_of t (tw_node f) < index_in t (tw_node f)" using f by (simp add: seg_ok_def)
    obtain ps' where "map fst ps' = map fst ps" "search_ok adj ps' (lift_low f (map fst ps) t)"
      using merge_ok [OF ok _ inner] fin by auto
    moreover have "low_of (lift_low f (map fst ps) t) (tw_node f) \<le> low_of t (tw_node f)"
      by (auto simp: lift_low_def split: list.splits)
    ultimately show ?thesis
      using inner by (intro exI [of _ ps'] exI [of _ "lift_low f (map fst ps) t"]) (simp add: retreat_def Let_def)
  qed
qed

lemma step_ok:
  assumes ok: "search_ok adj ((f, seg) # ps) t"
  shows "\<exists>ps' t'. tarjan_step adj f (map fst ps) t = Some (map fst ps', t') \<and> search_ok adj ps' t'
    \<and> visited t \<subseteq> visited t' \<and> visited t' \<subseteq> visited t \<union> targets adj \<and> ((map fst ps', t'), (f # map fst ps, t)) \<in> progress adj"
proof (cases "tw_idx f < length (tw_children f)")
  case True
  obtain ps' t' where "advance_child adj f (map fst ps) t = (map fst ps', t')" "search_ok adj ps' t'"
    using advance_ok [OF ok True] by blast
  moreover have "tw_children f = mget_or adj (tw_node f) []" using ok by (simp add: search_ok_def seg_ok_def)
  ultimately show ?thesis
    using advance_progress [OF True] True by (intro exI [of _ ps'] exI [of _ t']) (simp add: tarjan_step_def)
next
  case False
  obtain ps' t' where r: "retreat f (map fst ps) t = Some (map fst ps', t')" "search_ok adj ps' t'" "map fst ps' = map fst ps"
    "tj_indices t' = tj_indices t"
    using retreat_ok [OF ok False] by blast
  then have "visited t' = visited t" by (intro visited_indices)
  with r False show ?thesis
    by (intro exI [of _ ps'] exI [of _ t']) (simp add: tarjan_step_def progress_def work_left_def)
qed

lemma loop_ok:
  assumes "search_ok adj ps t"
  shows "\<exists>t'. tarjan_loop adj (map fst ps) t = Some t' \<and> search_ok adj [] t' \<and> visited t \<subseteq> visited t'
    \<and> visited t' \<subseteq> visited t \<union> targets adj"
proof -
  have "\<exists>t'. tarjan_loop adj (fst c) (snd c) = Some t' \<and> search_ok adj [] t' \<and> visited (snd c) \<subseteq> visited t'
      \<and> visited t' \<subseteq> visited (snd c) \<union> targets adj"
    if "fst c = map fst ps" "search_ok adj ps (snd c)" for c ps
    using wf_progress [of adj] that
  proof (induction c arbitrary: ps rule: wf_induct_rule)
    case (less c)
    show ?case
    proof (cases ps)
      case Nil
      then show ?thesis using less.prems by (simp add: tarjan_loop.simps)
    next
      case (Cons p qs)
      obtain f seg where p: "p = (f, seg)" by (cases p)
      obtain ps' t' where s: "tarjan_step adj f (map fst qs) (snd c) = Some (map fst ps', t')" "search_ok adj ps' t'"
        "visited (snd c) \<subseteq> visited t'" "visited t' \<subseteq> visited (snd c) \<union> targets adj"
        "((map fst ps', t'), (f # map fst qs, snd c)) \<in> progress adj"
        using step_ok less.prems(2) unfolding Cons p by blast
      have c: "c = (f # map fst qs, snd c)" using less.prems(1) by (simp add: Cons p prod_eq_iff)
      have "((map fst ps', t'), c) \<in> progress adj" using s(5) c by simp
      from less.IH [OF this, of ps'] s(2) obtain t'' where t'': "tarjan_loop adj (map fst ps') t' = Some t''" "search_ok adj [] t''"
        "visited t' \<subseteq> visited t''" "visited t'' \<subseteq> visited t' \<union> targets adj"
        by auto
      have "tarjan_loop adj (fst c) (snd c) = Some t''"
        using s(1) t''(1) less.prems(1) by (subst tarjan_loop.simps) (simp add: Cons p)
      then show ?thesis using s(3,4) t'' by blast
    qed
  qed
  from this [of "(map fst ps, t)" ps] assms show ?thesis by simp
qed

lemma roots_ok:
  assumes "search_ok adj [] t"
  shows "\<exists>t'. tarjan_roots adj nodes t = Some t' \<and> search_ok adj [] t' \<and> visited t \<union> set nodes \<subseteq> visited t'
    \<and> visited t' \<subseteq> visited t \<union> set nodes \<union> targets adj"
  using assms
proof (induction nodes arbitrary: t)
  case (Cons start nodes)
  show ?case
  proof (cases "start \<in> visited t")
    case True
    obtain t' where "tarjan_roots adj nodes t = Some t'" "search_ok adj [] t'" "visited t \<union> set nodes \<subseteq> visited t'"
      "visited t' \<subseteq> visited t \<union> set nodes \<union> targets adj"
      using Cons.IH [OF Cons.prems] by blast
    then show ?thesis using True by (intro exI [of _ t']) (auto simp: mhas_iff_keys visited_def)
  next
    case False
    have "search_ok adj [(tarjan_frame_of adj start, [start])] (tarjan_enter t start)"
      using enter_ok [OF Cons.prems False] by simp
    from loop_ok [OF this] obtain t1 where t1: "tarjan_loop adj [tarjan_frame_of adj start] (tarjan_enter t start) = Some t1"
      "search_ok adj [] t1" "insert start (visited t) \<subseteq> visited t1" "visited t1 \<subseteq> insert start (visited t) \<union> targets adj"
      by auto
    obtain t' where "tarjan_roots adj nodes t1 = Some t'" "search_ok adj [] t'" "visited t1 \<union> set nodes \<subseteq> visited t'"
      "visited t' \<subseteq> visited t1 \<union> set nodes \<union> targets adj"
      using Cons.IH [OF t1(2)] by blast
    then show ?thesis using t1 False by (intro exI [of _ t']) (auto simp: mhas_iff_keys visited_def)
  qed
qed (auto)

lemma zero_ok: "search_ok adj [] tarjan_zero"
  by (simp add: search_ok_def stack_ok_def comps_ok_def settled_def visited_def tarjan_zero_def mkeys_def)

definition closed_graph :: "string list \<Rightarrow> (string, string list) gomap \<Rightarrow> bool" where
  "closed_graph nodes adj \<longleftrightarrow> targets adj \<subseteq> set nodes"

lemma scc_comps:
  "\<exists>r D. tarjanSCC nodes adj = Some r \<and> comps_ok adj D (sc_compOf r) (sc_compSize r) (sc_numComp r)
    \<and> set nodes \<subseteq> D \<and> (closed_graph nodes adj \<longrightarrow> D = set nodes)"
proof -
  obtain t where t: "tarjan_roots adj nodes tarjan_zero = Some t" "search_ok adj [] t" "set nodes \<subseteq> visited t"
    "visited t \<subseteq> visited tarjan_zero \<union> set nodes \<union> targets adj"
    using roots_ok [OF zero_ok, of adj nodes] by blast
  moreover have "visited tarjan_zero = {}" by (simp add: visited_def tarjan_zero_def mkeys_def)
  moreover have "settled t = visited t" using t(2) by (simp add: settled_def search_ok_def)
  ultimately show ?thesis
    by (intro exI [of _ "\<lparr>sc_compOf = tj_compOf t, sc_compSize = tj_compSize t, sc_numComp = tj_nextComp t\<rparr>"] exI [of _ "visited t"])
      (auto simp: tarjanSCC_def search_ok_def closed_graph_def)
qed

text \<open>
  The component search always returns: on every adjacency map, cyclic or with targets that are no nodes, its loops end and the component
  stack is never popped when it is empty.
\<close>

theorem tarjan_always_returns: "\<exists>r. tarjanSCC nodes adj = Some r"
  using scc_comps by blast

text \<open>
  C9. The search finds exactly the strongly connected components: two nodes have the same component number iff each reaches
  the other, the numbers in use are \<open>0 .. numComp - 1\<close>, every size is the number of members, and no edge leads to a component
  with a larger number, so that the condensation has no cycle.
\<close>

theorem tarjan_components_exact:
  assumes "closed_graph nodes adj" and "tarjanSCC nodes adj = Some r"
  shows "(\<forall>u \<in> set nodes. \<forall>v \<in> set nodes. mget_or (sc_compOf r) u 0 = mget_or (sc_compOf r) v 0 \<longleftrightarrow> mutual adj u v)
    \<and> (\<lambda>u. mget_or (sc_compOf r) u 0) ` set nodes = {..<sc_numComp r}
    \<and> (\<forall>c. mget_or (sc_compSize r) c 0 = card {u \<in> set nodes. mget_or (sc_compOf r) u 0 = c})
    \<and> (\<forall>u \<in> set nodes. \<forall>w. (u, w) \<in> edges adj \<longrightarrow> mget_or (sc_compOf r) w 0 \<le> mget_or (sc_compOf r) u 0)"
proof -
  have "comps_ok adj (set nodes) (sc_compOf r) (sc_compSize r) (sc_numComp r)" using scc_comps [of nodes adj] assms by auto
  then show ?thesis unfolding comps_ok_def by blast
qed

theorem tarjan_components_exact_witness:
  "\<exists>r. tarjanSCC [''a'', ''b'', ''c''] [(''a'', [''b'']), (''b'', [''a'', ''c''])] = Some r
    \<and> mget_or (sc_compOf r) ''a'' 0 = mget_or (sc_compOf r) ''b'' 0
    \<and> (\<lambda>u. mget_or (sc_compOf r) u 0) ` set [''a'', ''b'', ''c''] = {..<sc_numComp r}"
proof -
  let ?nodes = "[''a'', ''b'', ''c'']" and ?adj = "[(''a'', [''b'']), (''b'', [''a'', ''c''])]"
  have closed: "closed_graph ?nodes ?adj" by (simp add: closed_graph_def targets_def)
  have "(''a'', ''b'') \<in> edges ?adj" "(''b'', ''a'') \<in> edges ?adj" by (simp_all add: edges_def mget_or_def)
  then have "mutual ?adj ''a'' ''b''" by (auto simp: mutual_def)
  moreover obtain r where r: "tarjanSCC ?nodes ?adj = Some r" using scc_comps by blast
  moreover note tarjan_components_exact [OF closed r]
  moreover have "''a'' \<in> set ?nodes" "''b'' \<in> set ?nodes" by simp_all
  ultimately show ?thesis by blast
qed

end
