(* ===== verification/Tick_Graph.thy ===== *)
theory Tick_Graph
  imports Tick_Scc Dispatch_Order Dispatch
begin

text \<open>
  The dependency graph of a tick (\<open>internal/orchestrator/tick_graph.go\<close>) with the wave order of its condensation
  (\<open>kahnTopoOrder\<close> in \<open>tick_graph_scc.go\<close>): how the graph is built from the candidates, the ordering metrics computed on the
  condensation, and the reported cycles. An index outside a slice panics in Go and is \<open>None\<close> here.
\<close>

definition edgeKindTracker :: string where "edgeKindTracker = ''tracker''"
definition edgeKindInferred :: string where "edgeKindInferred = ''inferred''"

section \<open>Building the graph\<close>

definition add_edge :: "string \<Rightarrow> string \<Rightarrow> string \<Rightarrow> tick_graph \<Rightarrow> tick_graph" where
  "add_edge src to kind g = (
     let key = src @ ''->'' @ to
     in case mget (tg_EdgeKinds g) key of
          Some kinds \<Rightarrow> g\<lparr>tg_EdgeKinds := mput (tg_EdgeKinds g) key (mput kinds kind ())\<rparr>
        | None \<Rightarrow> g\<lparr>tg_EdgeKinds := mput (tg_EdgeKinds g) key [(kind, ())],
                   tg_Out := mput (tg_Out g) src (mget_or (tg_Out g) src [] @ [to])\<rparr>)"

definition tracker_edges :: "state \<Rightarrow> tick_graph \<Rightarrow> issue \<Rightarrow> tick_graph" where
  "tracker_edges s g c = (
     if \<not> mhas (tg_Nodes g) (is_Identifier c) then g
     else foldl (\<lambda>g blocker.
       if blockerResolvedForDispatch blocker s then g
       else case br_Identifier blocker of
              None \<Rightarrow> g
            | Some b \<Rightarrow> if b = [] \<or> \<not> mhas (tg_Nodes g) b then g else add_edge b (is_Identifier c) edgeKindTracker g)
       g (is_BlockedBy c))"

definition inferred_edges :: "tick_graph \<Rightarrow> string \<times> inferred_dep_entry list \<Rightarrow> tick_graph" where
  "inferred_edges g te = (case te of (target, entries) \<Rightarrow>
     if \<not> mhas (tg_Nodes g) target then g
     else foldl (\<lambda>g entry.
       if \<not> id_Gating entry \<or> id_Source entry = [] then g
       else if \<not> mhas (tg_Nodes g) (id_Source entry) then g
       else add_edge (id_Source entry) target edgeKindInferred g) g entries)"

definition BuildTickGraph :: "issue list \<Rightarrow> (string, inferred_dep_entry list) gomap \<Rightarrow> state \<Rightarrow> tick_graph" where
  "BuildTickGraph candidates inferred s = (
     let nodes = foldl (\<lambda>ns c. if is_Identifier c = [] then ns else mput ns (is_Identifier c) ()) [] candidates;
         g0 = \<lparr>tg_Nodes = nodes, tg_Out = [], tg_EdgeKinds = []\<rparr>;
         g1 = foldl (tracker_edges s) g0 candidates;
         g2 = foldl inferred_edges g1 inferred
     in g2\<lparr>tg_Out := map (\<lambda>(k, out). (k, sort out)) (tg_Out g2)\<rparr>)"

section \<open>The order of the condensation\<close>

definition sortedIntKeys :: "nat goset \<Rightarrow> nat list" where
  "sortedIntKeys m = sort (mkeys m)"

fun drain_targets :: "nat list \<Rightarrow> int list \<Rightarrow> nat list \<Rightarrow> (int list \<times> nat list) option" where
  "drain_targets [] remaining wave' = Some (remaining, wave')"
| "drain_targets (t # ts) remaining wave' = (
     if t < length remaining
     then let left = remaining ! t - 1
          in drain_targets ts (remaining[t := left]) (if left = 0 then wave' @ [t] else wave')
     else None)"

fun drain_wave :: "nat goset list \<Rightarrow> nat list \<Rightarrow> int list \<Rightarrow> nat list \<Rightarrow> (int list \<times> nat list) option" where
  "drain_wave condOut [] remaining wave' = Some (remaining, wave')"
| "drain_wave condOut (c # cs) remaining wave' = (
     if c < length condOut
     then Option.bind (drain_targets (sortedIntKeys (condOut ! c)) remaining wave') (\<lambda>(r, w). drain_wave condOut cs r w)
     else None)"

partial_function (option) kahn_loop :: "nat goset list \<Rightarrow> nat list \<Rightarrow> int list \<Rightarrow> nat list \<Rightarrow> nat list option" where
  "kahn_loop condOut wave remaining topo = (
     if wave = [] then Some topo
     else Option.bind (drain_wave condOut wave remaining []) (\<lambda>(r, w). kahn_loop condOut (sort w) r (topo @ wave)))"

definition kahnTopoOrder :: "nat goset list \<Rightarrow> int list \<Rightarrow> nat list option" where
  "kahnTopoOrder condOut inDegree =
     kahn_loop condOut (sort (filter (\<lambda>c. inDegree ! c = 0) [0..<length inDegree])) inDegree []"

section \<open>The metrics\<close>

definition comp_of :: "scc_result \<Rightarrow> string \<Rightarrow> nat" where
  "comp_of scc v = mget_or (sc_compOf scc) v 0"

definition put_cond :: "nat goset list \<Rightarrow> nat \<times> nat \<Rightarrow> nat goset list option" where
  "put_cond condOut e = (case e of (a, b) \<Rightarrow>
     if a = b then Some condOut
     else if a < length condOut then Some (condOut[a := mput (condOut ! a) b ()]) else None)"

definition count_in :: "int list \<Rightarrow> nat \<Rightarrow> int list option" where
  "count_in inDegree t = (if t < length inDegree then Some (inDegree[t := inDegree ! t + 1]) else None)"

fun fold_option :: "('s \<Rightarrow> 'x \<Rightarrow> 's option) \<Rightarrow> 's \<Rightarrow> 'x list \<Rightarrow> 's option" where
  "fold_option f s [] = Some s"
| "fold_option f s (x # xs) = Option.bind (f s x) (\<lambda>s'. fold_option f s' xs)"

record comp_metrics =
  cm_dependents :: "nat list"
  cm_chain :: "int list"
  cm_downstream :: "nat goset list"

definition metric_step :: "scc_result \<Rightarrow> nat goset list \<Rightarrow> comp_metrics \<Rightarrow> nat \<Rightarrow> comp_metrics option" where
  "metric_step scc condOut m c = (
     if \<not> c < sc_numComp scc then None
     else let ts = sortedIntKeys (condOut ! c)
     in if \<not> list_all (\<lambda>t. t < sc_numComp scc) ts then None
     else let down_set = foldl (\<lambda>down_set t. foldl (\<lambda>down_set d. mput down_set d ()) (mput down_set t ()) (mkeys (cm_downstream m ! t))) [] ts;
              maxChildChain = foldl (\<lambda>mx t. if cm_chain m ! t > mx then cm_chain m ! t else mx) (- 1) ts;
              total = sum_list (map (\<lambda>comp. mget_or (sc_compSize scc) comp 0) (mkeys down_set))
     in Some \<lparr>cm_dependents = (cm_dependents m)[c := total],
              cm_chain = (if maxChildChain \<ge> 0 then (cm_chain m)[c := maxChildChain + 1] else cm_chain m),
              cm_downstream = (cm_downstream m)[c := down_set]\<rparr>)"

definition members_by_comp :: "string list \<Rightarrow> scc_result \<Rightarrow> (nat, string list) gomap" where
  "members_by_comp nodes scc =
     foldl (\<lambda>m node. mput m (comp_of scc node) (mget_or m (comp_of scc node) [] @ [node])) [] nodes"

definition mark_cycle :: "(string, string list) gomap \<Rightarrow> (string, int) gomap \<Rightarrow> nat \<times> string list \<Rightarrow> (string, int) gomap" where
  "mark_cycle adj cm e = (case e of (c, members) \<Rightarrow>
     if length members > 1 then foldl (\<lambda>cm node. mput cm node (int c)) cm members
     else if hasSelfEdge adj (members ! 0) then mput cm (members ! 0) (int c) else cm)"

definition condensation :: "string list \<Rightarrow> (string, string list) gomap \<Rightarrow> scc_result \<Rightarrow> nat goset list option" where
  "condensation nodes adj scc = fold_option put_cond (replicate (sc_numComp scc) [])
     (concat (map (\<lambda>u. map (\<lambda>w. (comp_of scc u, comp_of scc w)) (mget_or adj u [])) nodes))"

definition component_metrics :: "scc_result \<Rightarrow> nat goset list \<Rightarrow> comp_metrics option" where
  "component_metrics scc condOut =
     Option.bind (fold_option count_in (replicate (sc_numComp scc) 0) (concat (map mkeys condOut))) (\<lambda>inDegree.
     Option.bind (kahnTopoOrder condOut inDegree) (\<lambda>topo.
       fold_option (metric_step scc condOut)
         \<lparr>cm_dependents = replicate (sc_numComp scc) 0, cm_chain = replicate (sc_numComp scc) 0,
          cm_downstream = replicate (sc_numComp scc) []\<rparr> (rev topo)))"

definition computeGraphMetrics :: "string list \<Rightarrow> (string, string list) gomap \<Rightarrow> scc_result \<Rightarrow> graph_metrics option" where
  "computeGraphMetrics nodes adj scc =
     Option.bind (condensation nodes adj scc) (\<lambda>condOut.
     map_option (\<lambda>m.
       \<lparr>gm_TransitiveDependents = foldl (\<lambda>g node. mput g node (int (cm_dependents m ! comp_of scc node))) [] nodes,
        gm_LongestChain = foldl (\<lambda>g node. mput g node (cm_chain m ! comp_of scc node)) [] nodes,
        gm_CycleMembers = foldl (mark_cycle adj) [] (members_by_comp nodes scc)\<rparr>)
     (component_metrics scc condOut))"

section \<open>The reported cycles\<close>

definition cycleKindFromSet :: "string goset \<Rightarrow> string" where
  "cycleKindFromSet kinds = (
     if mhas kinds edgeKindTracker \<and> mhas kinds edgeKindInferred then ''mixed''
     else if mhas kinds edgeKindInferred then edgeKindInferred
     else edgeKindTracker)"

definition cycle_kinds :: "tick_graph \<Rightarrow> (string, string list) gomap \<Rightarrow> string list \<Rightarrow> string goset" where
  "cycle_kinds g adj members =
     foldl (\<lambda>ks (src, to). foldl (\<lambda>ks k. mput ks k ()) ks (mkeys (mget_or (tg_EdgeKinds g) (src @ ''->'' @ to) []))) []
       (concat (map (\<lambda>src. map (\<lambda>to. (src, to)) (filter (\<lambda>to. to \<in> set members) (mget_or adj src []))) members))"

definition extractCycles :: "tick_graph \<Rightarrow> string list \<Rightarrow> (string, string list) gomap \<Rightarrow> scc_result \<Rightarrow> dependency_cycle list \<Rightarrow> time \<Rightarrow> dependency_cycle list" where
  "extractCycles g nodes adj scc prev now = (
     let byComp = members_by_comp nodes scc;
         prevDetectedAt = foldl (\<lambda>m cyc. mput m (join_with '','' (dc_Members cyc)) (dc_DetectedAt cyc)) [] prev;
         compIDs = sort (mkeys byComp);
         cyclic = filter (\<lambda>c. let members = mget_or byComp c [] in \<not> (length members = 1 \<and> \<not> hasSelfEdge adj (members ! 0))) compIDs
     in stable_sort (\<lambda>a b. dc_Members a ! 0 < dc_Members b ! 0)
       (map (\<lambda>c. let members = sort (mget_or byComp c [])
          in \<lparr>dc_Members = members, dc_Kind = cycleKindFromSet (cycle_kinds g adj members),
              dc_DetectedAt = mget_or prevDetectedAt (join_with '','' members) now\<rparr>) cyclic))"

definition ComputeTickGraphAnalysis :: "tick_graph \<Rightarrow> dependency_cycle list \<Rightarrow> time \<Rightarrow> (graph_metrics \<times> dependency_cycle list) option" where
  "ComputeTickGraphAnalysis g prevCycles now = (
     let nodes = sortedNodes g; adj = adjacency g nodes
     in Option.bind (tarjanSCC nodes adj) (\<lambda>scc.
        map_option (\<lambda>metrics. (metrics, extractCycles g nodes adj scc prevCycles now)) (computeGraphMetrics nodes adj scc)))"

section \<open>Properties of the wave order\<close>

definition preds :: "nat goset list \<Rightarrow> nat \<Rightarrow> nat set" where
  "preds out t = {c. c < length out \<and> mhas (out ! c) t}"

definition descending :: "nat goset list \<Rightarrow> bool" where
  "descending out \<longleftrightarrow> (\<forall>c < length out. mwf (out ! c) \<and> (\<forall>t. mhas (out ! c) t \<longrightarrow> t < c))"

definition sources_first :: "nat goset list \<Rightarrow> nat list \<Rightarrow> bool" where
  "sources_first out topo \<longleftrightarrow> (\<forall>ys z zs. topo = ys @ z # zs \<longrightarrow> preds out z \<subseteq> set ys)"

definition kahn_inv :: "nat goset list \<Rightarrow> nat list \<Rightarrow> int list \<Rightarrow> nat list \<Rightarrow> bool" where
  "kahn_inv out wave remaining topo \<longleftrightarrow> distinct (topo @ wave) \<and> set (topo @ wave) \<subseteq> {..<length out} \<and> length remaining = length out
     \<and> (\<forall>t < length out. remaining ! t = int (card (preds out t - set topo)))
     \<and> (\<forall>t < length out. remaining ! t = 0 \<longleftrightarrow> t \<in> set (topo @ wave)) \<and> sources_first out topo"

lemma sortedIntKeys_simps [simp]: "set (sortedIntKeys m) = {t. mhas m t}" "distinct (sortedIntKeys m) = mwf m"
  by (auto simp: sortedIntKeys_def mhas_iff_keys mwf_def mkeys_def)

lemma drain_targets_append:
  "drain_targets (xs @ ys) r w = Option.bind (drain_targets xs r w) (\<lambda>(r', w'). drain_targets ys r' w')"
  by (induction xs arbitrary: r w) (simp_all add: Let_def)

lemma drain_wave_flat:
  "list_all (\<lambda>c. c < length out) wave \<Longrightarrow>
    drain_wave out wave r w = drain_targets (concat (map (\<lambda>c. sortedIntKeys (out ! c)) wave)) r w"
  by (induction wave arbitrary: r w) (simp_all add: drain_targets_append split: Option.bind_splits)

lemma drain_targets_result:
  assumes "list_all (\<lambda>t. t < length r) ts" and "\<And>t. t < length r \<Longrightarrow> int (count_list ts t) \<le> r ! t"
  shows "\<exists>r' new. drain_targets ts r w = Some (r', w @ new) \<and> length r' = length r
    \<and> (\<forall>t < length r. r' ! t = r ! t - int (count_list ts t)) \<and> distinct new
    \<and> set new = {t \<in> set ts. r ! t = int (count_list ts t)}"
  using assms
proof (induction ts arbitrary: r w)
  case (Cons x ts)
  let ?r = "r[x := r ! x - 1]"
  have x: "x < length r" using Cons.prems(1) by simp
  have le: "int (count_list ts t) \<le> ?r ! t" if "t < length ?r" for t
    using Cons.prems(2) [of t] that x by (auto simp: nth_list_update split: if_splits)
  have "list_all (\<lambda>t. t < length ?r) ts" using Cons.prems(1) by simp
  from Cons.IH [OF this le, where w = "if r ! x - 1 = 0 then w @ [x] else w"]
  obtain r' new where ih: "drain_targets ts ?r (if r ! x - 1 = 0 then w @ [x] else w) = Some (r', (if r ! x - 1 = 0 then w @ [x] else w) @ new)"
    "length r' = length r" "\<forall>t < length r. r' ! t = ?r ! t - int (count_list ts t)" "distinct new"
    "set new = {t \<in> set ts. ?r ! t = int (count_list ts t)}"
    by auto
  let ?new = "if r ! x - 1 = 0 then x # new else new"
  have zero: "count_list ts x = 0" if "r ! x = 1" using Cons.prems(2) [OF x] that by simp
  then have fresh: "x \<notin> set new" if "r ! x = 1" using that ih(5) by (auto simp: count_list_0_iff)
  have "drain_targets (x # ts) r w = Some (r', w @ ?new)" using ih(1) x by (auto simp: Let_def)
  moreover have "\<forall>t < length r. r' ! t = r ! t - int (count_list (x # ts) t)" using ih(3) x by (simp add: nth_list_update)
  moreover have "distinct ?new" using ih(4) fresh by auto
  moreover have "set ?new = {t \<in> set (x # ts). r ! t = int (count_list (x # ts) t)}"
  proof (rule set_eqI)
    fix t
    show "t \<in> set ?new \<longleftrightarrow> t \<in> {t \<in> set (x # ts). r ! t = int (count_list (x # ts) t)}"
    proof (cases "t = x")
      case True
      have "x \<in> set new \<longleftrightarrow> x \<in> set ts \<and> r ! x - 1 = int (count_list ts x)" using ih(5) x by simp
      moreover have "x \<in> set ts" if "count_list ts x \<noteq> 0" using that by (metis count_list_0_iff)
      ultimately show ?thesis using True zero by auto
    next
      case False
      then show ?thesis using ih(5) by auto
    qed
  qed
  ultimately show ?case using ih(2) by blast
qed simp

lemma wave_count:
  assumes "distinct wave" and "set wave \<subseteq> {..<length out}"
    and "\<And>c. c \<in> set wave \<Longrightarrow> distinct (f c) \<and> set (f c) = {t. mhas (out ! c) t}"
  shows "count_list (concat (map f wave)) t = card (preds out t \<inter> set wave)"
  using assms
proof (induction wave)
  case (Cons c wave)
  have "distinct (f c)" "set (f c) = {t. mhas (out ! c) t}" using Cons.prems(3) by auto
  then have "count (mset (f c)) t = (if mhas (out ! c) t then 1 else 0)" using distinct_count_atmost_1 [of "f c"] by simp
  moreover have "preds out t \<inter> set (c # wave) = (if mhas (out ! c) t then insert c (preds out t \<inter> set wave) else preds out t \<inter> set wave)"
    using Cons.prems by (auto simp: preds_def)
  moreover have "c \<notin> preds out t \<inter> set wave" using Cons.prems by auto
  ultimately show ?case using Cons by (simp add: count_mset)
qed simp

lemma sources_first_append:
  assumes "sources_first out topo" and "\<forall>z \<in> set wave. preds out z \<subseteq> set topo"
  shows "sources_first out (topo @ wave)"
  unfolding sources_first_def
proof (intro allI impI)
  fix ys z zs assume e: "topo @ wave = ys @ z # zs"
  show "preds out z \<subseteq> set ys"
  proof (cases "length ys < length topo")
    case True
    then obtain us where "topo = ys @ z # us"
      using e by (auto simp: append_eq_append_conv2 append_eq_Cons_conv)
    then show ?thesis using assms(1) by (simp add: sources_first_def)
  next
    case False
    then obtain us where "ys = topo @ us" "wave = us @ z # zs" using e by (auto simp: append_eq_append_conv2 append_eq_Cons_conv)
    then show ?thesis using assms(2) by auto
  qed
qed

lemma kahn_step:
  assumes inv: "kahn_inv out wave r topo" and desc: "descending out"
  shows "\<exists>r' w. drain_wave out wave r [] = Some (r', w) \<and> kahn_inv out (sort w) r' (topo @ wave)"
proof -
  let ?ts = "concat (map (\<lambda>c. sortedIntKeys (out ! c)) wave)"
  have dis: "distinct topo" "distinct wave" "set topo \<inter> set wave = {}" and sub: "set wave \<subseteq> {..<length out}" "set topo \<subseteq> {..<length out}"
    and len: "length r = length out" and rem: "\<And>t. t < length out \<Longrightarrow> r ! t = int (card (preds out t - set topo))"
    and zero: "\<And>t. t < length out \<Longrightarrow> r ! t = 0 \<longleftrightarrow> t \<in> set topo \<union> set wave" and first: "sources_first out topo"
    using inv by (auto simp: kahn_inv_def)
  have fin: "finite (preds out t)" for t by (simp add: preds_def)
  have keys: "distinct (sortedIntKeys (out ! c)) \<and> set (sortedIntKeys (out ! c)) = {t. mhas (out ! c) t}" if "c \<in> set wave" for c
    using that desc sub(1) by (auto simp: descending_def)
  note cnt = wave_count [OF dis(2) sub(1) keys]
  have split_: "card (preds out t - set topo) = card (preds out t \<inter> set wave) + card (preds out t - set (topo @ wave))" for t
  proof -
    have e: "preds out t - set topo = (preds out t \<inter> set wave) \<union> (preds out t - set (topo @ wave))" using dis(3) by auto
    show ?thesis unfolding e by (rule card_Un_disjoint) (use fin in auto)
  qed
  have small: "list_all (\<lambda>t. t < length r) ?ts"
    using desc sub(1) by (fastforce simp: list_all_iff descending_def len)
  have "int (count_list ?ts t) \<le> r ! t" if "t < length r" for t using that rem [of t] len by (simp add: cnt split_)
  from drain_targets_result [OF small this, of "[]"]
  obtain r' new where d: "drain_targets ?ts r [] = Some (r', new)" "length r' = length r" "\<forall>t < length r. r' ! t = r ! t - int (count_list ?ts t)"
    "distinct new" "set new = {t \<in> set ?ts. r ! t = int (count_list ?ts t)}" by auto
  have r': "r' ! t = int (card (preds out t - set (topo @ wave)))" if "t < length out" for t
    using d(3) rem [OF that] that len by (simp add: cnt split_)
  have new: "t \<in> set new \<longleftrightarrow> t < length out \<and> r' ! t = 0 \<and> r ! t \<noteq> 0" for t
  proof -
    have "t \<in> set ?ts \<longleftrightarrow> count_list ?ts t \<noteq> 0" by (metis count_list_0_iff)
    moreover have "t < length out" if "t \<in> set ?ts" using that small len by (metis list_all_iff)
    ultimately show ?thesis using d(3,5) len by auto
  qed
  have wave0: "preds out z \<subseteq> set topo" if "z \<in> set wave" for z
    using that zero [of z] rem [of z] sub(1) fin [of z] by auto
  have "kahn_inv out (sort new) r' (topo @ wave)"
    unfolding kahn_inv_def
  proof (intro conjI allI impI)
    show "distinct ((topo @ wave) @ sort new)" using dis d(4) new zero by auto
    show "set ((topo @ wave) @ sort new) \<subseteq> {..<length out}" using sub new by auto
    show "length r' = length out" using d(2) len by simp
    show "r' ! t = int (card (preds out t - set (topo @ wave)))" if "t < length out" for t by (rule r' [OF that])
    show "r' ! t = 0 \<longleftrightarrow> t \<in> set ((topo @ wave) @ sort new)" if t: "t < length out" for t
    proof -
      have "r' ! t = 0" if "r ! t = 0" using that r' [OF t] rem [OF t] split_ [of t] by simp
      then show ?thesis using new [of t] zero [OF t] t by auto
    qed
    show "sources_first out (topo @ wave)" using first wave0 by (intro sources_first_append) auto
  qed
  moreover have "drain_wave out wave r [] = Some (r', new)"
    using d(1) sub(1) by (subst drain_wave_flat) (auto simp: list_all_iff)
  ultimately show ?thesis by blast
qed

lemma kahn_complete:
  assumes inv: "kahn_inv out [] r topo" and desc: "descending out"
  shows "set topo = {..<length out}"
proof (rule ccontr)
  assume "set topo \<noteq> {..<length out}"
  then have ne: "{..<length out} - set topo \<noteq> {}" using inv by (auto simp: kahn_inv_def)
  define t where "t = Max ({..<length out} - set topo)"
  have t: "t < length out" "t \<notin> set topo" using Max_in [OF _ ne] by (auto simp: t_def)
  have "c \<in> set topo" if "c \<in> preds out t" for c
  proof (rule ccontr)
    assume "c \<notin> set topo"
    then have "c \<le> t" using that unfolding t_def by (intro Max_ge) (auto simp: preds_def)
    moreover have "t < c" using that desc by (simp add: preds_def descending_def)
    ultimately show False by simp
  qed
  then have "preds out t - set topo = {}" by auto
  moreover have "r ! t = int (card (preds out t - set topo))" using inv t(1) unfolding kahn_inv_def by blast
  ultimately have "r ! t = 0" by (simp only: card.empty of_nat_0)
  then show False using inv t by (auto simp: kahn_inv_def)
qed

lemma kahn_loop_result:
  assumes "kahn_inv out wave r topo" and "descending out"
  shows "\<exists>res. kahn_loop out wave r topo = Some res \<and> distinct res \<and> set res = {..<length out} \<and> sources_first out res"
  using assms
proof (induction "length out - length topo" arbitrary: wave r topo rule: less_induct)
  case less
  show ?case
  proof (cases "wave = []")
    case True
    have inv: "kahn_inv out [] r topo" using less.prems(1) True by simp
    have "set topo = {..<length out}" by (rule kahn_complete [OF inv less.prems(2)])
    moreover have "distinct topo" "sources_first out topo" using inv unfolding kahn_inv_def by simp_all
    moreover have "kahn_loop out wave r topo = Some topo" using True by (subst kahn_loop.simps) simp
    ultimately show ?thesis by blast
  next
    case False
    obtain r' w where s: "drain_wave out wave r [] = Some (r', w)" "kahn_inv out (sort w) r' (topo @ wave)"
      using kahn_step [OF less.prems] by blast
    have "length (topo @ wave) \<le> length out"
      using less.prems(1) by (metis card_lessThan card_mono distinct_card finite_lessThan kahn_inv_def)
    then have "length out - length (topo @ wave) < length out - length topo" using False by (cases wave) auto
    from less.hyps [OF this s(2) less.prems(2)] show ?thesis using s(1) False by (subst kahn_loop.simps) simp
  qed
qed

lemma kahn_result:
  assumes "descending out" and "length inDegree = length out" and "\<And>t. t < length out \<Longrightarrow> inDegree ! t = int (card (preds out t))"
  shows "\<exists>res. kahnTopoOrder out inDegree = Some res \<and> distinct res \<and> set res = {..<length out} \<and> sources_first out res"
  unfolding kahnTopoOrder_def
  by (rule kahn_loop_result) (use assms in \<open>auto simp: kahn_inv_def sources_first_def\<close>)

section \<open>The condensation and its metrics\<close>

lemma condensed:
  assumes "list_all (\<lambda>(a, b). a < length out) es" and "\<forall>c < length out. mwf (out ! c)"
  shows "\<exists>out'. fold_option put_cond out es = Some out' \<and> length out' = length out \<and> (\<forall>c < length out. mwf (out' ! c))
    \<and> (\<forall>c < length out. \<forall>t. mhas (out' ! c) t \<longleftrightarrow> mhas (out ! c) t \<or> (c, t) \<in> set es \<and> c \<noteq> t)"
  using assms
proof (induction es arbitrary: out)
  case (Cons e es)
  obtain a b where e: "e = (a, b)" by (cases e)
  let ?out = "if a = b then out else out[a := mput (out ! a) b ()]"
  have a: "a < length out" using Cons.prems(1) by (simp add: e)
  have put: "put_cond out e = Some ?out" using Cons.prems(1) by (simp add: put_cond_def e)
  have has: "mhas (?out ! c) t \<longleftrightarrow> mhas (out ! c) t \<or> c = a \<and> t = b \<and> a \<noteq> b" if "c < length out" for c t
    using that a by (auto simp: nth_list_update)
  have "\<forall>c < length ?out. mwf (?out ! c)" using Cons.prems(2) a by (auto simp: nth_list_update)
  moreover have "list_all (\<lambda>(a, b). a < length ?out) es" using Cons.prems(1) by simp
  ultimately obtain out' where "fold_option put_cond ?out es = Some out'" "length out' = length out" "\<forall>c < length out. mwf (out' ! c)"
    "\<forall>c < length out. \<forall>t. mhas (out' ! c) t \<longleftrightarrow> mhas (?out ! c) t \<or> (c, t) \<in> set es \<and> c \<noteq> t"
    using Cons.IH [of ?out] by auto
  then show ?case using put has by (intro exI [of _ out']) (auto simp: e)
qed simp

lemma counted:
  assumes "list_all (\<lambda>t. t < length r) ts"
  shows "\<exists>r'. fold_option count_in r ts = Some r' \<and> length r' = length r \<and> (\<forall>t < length r. r' ! t = r ! t + int (count_list ts t))"
  using assms
proof (induction ts arbitrary: r)
  case (Cons x ts)
  let ?r = "r[x := r ! x + 1]"
  obtain r' where "fold_option count_in ?r ts = Some r'" "length r' = length r" "\<forall>t < length r. r' ! t = ?r ! t + int (count_list ts t)"
    using Cons.IH [of ?r] Cons.prems by auto
  moreover have "x < length r" using Cons.prems by simp
  moreover have "count_in r x = Some ?r" using calculation(4) by (simp add: count_in_def)
  ultimately show ?case by (intro exI [of _ r']) (simp add: nth_list_update)
qed simp

lemma fold_put_keys:
  "mwf s \<Longrightarrow> mwf (foldl (\<lambda>s d. mput s d ()) s ds)"
  "mhas (foldl (\<lambda>s d. mput s d ()) s ds) x \<longleftrightarrow> mhas s x \<or> x \<in> set ds"
  by (induction ds arbitrary: s) auto

lemma union_keys:
  fixes down :: "nat goset list" and acc :: "nat goset"
  defines "U \<equiv> \<lambda>acc ts. foldl (\<lambda>s t. foldl (\<lambda>s d. mput s d ()) (mput s t ()) (mkeys (down ! t))) acc ts"
  shows "mwf acc \<Longrightarrow> mwf (U acc ts)"
    and "mhas (U acc ts) x \<longleftrightarrow> mhas acc x \<or> (\<exists>t \<in> set ts. x = t \<or> mhas (down ! t) x)"
proof -
  show "mwf acc \<Longrightarrow> mwf (U acc ts)" unfolding U_def by (induction ts arbitrary: acc) (simp_all add: fold_put_keys)
  show "mhas (U acc ts) x \<longleftrightarrow> mhas acc x \<or> (\<exists>t \<in> set ts. x = t \<or> mhas (down ! t) x)"
    unfolding U_def by (induction ts arbitrary: acc) (auto simp: fold_put_keys simp flip: mhas_iff_keys)
qed

lemma max_fold:
  fixes f :: "nat \<Rightarrow> int"
  defines "M \<equiv> \<lambda>mx ts. foldl (\<lambda>mx t. if f t > mx then f t else mx) mx ts"
  shows "mx \<le> M mx ts \<and> (\<forall>t \<in> set ts. f t \<le> M mx ts) \<and> (M mx ts = mx \<or> (\<exists>t \<in> set ts. M mx ts = f t))"
  unfolding M_def
proof (induction ts arbitrary: mx)
  case (Cons a ts)
  show ?case using Cons.IH [of "if mx < f a then f a else mx"] by (cases "mx < f a") auto
qed simp

definition metric_eqs :: "scc_result \<Rightarrow> nat goset list \<Rightarrow> comp_metrics \<Rightarrow> nat \<Rightarrow> bool" where
  "metric_eqs scc out m c \<longleftrightarrow> mwf (cm_downstream m ! c)
     \<and> (\<forall>d. mhas (cm_downstream m ! c) d \<longleftrightarrow> (\<exists>t. mhas (out ! c) t \<and> (d = t \<or> mhas (cm_downstream m ! t) d)))
     \<and> 0 \<le> cm_chain m ! c \<and> (\<forall>t. mhas (out ! c) t \<longrightarrow> cm_chain m ! t < cm_chain m ! c)
     \<and> (cm_chain m ! c = 0 \<or> (\<exists>t. mhas (out ! c) t \<and> cm_chain m ! c = cm_chain m ! t + 1))
     \<and> cm_dependents m ! c = (\<Sum>d \<in> set (mkeys (cm_downstream m ! c)). mget_or (sc_compSize scc) d 0)"

definition metric_inv :: "scc_result \<Rightarrow> nat goset list \<Rightarrow> nat set \<Rightarrow> comp_metrics \<Rightarrow> bool" where
  "metric_inv scc out P m \<longleftrightarrow> length (cm_dependents m) = length out \<and> length (cm_chain m) = length out \<and> length (cm_downstream m) = length out
     \<and> P \<subseteq> {..<length out} \<and> (\<forall>c \<in> P. metric_eqs scc out m c \<and> (\<forall>t. mhas (out ! c) t \<longrightarrow> t \<in> P))
     \<and> (\<forall>c < length out. c \<notin> P \<longrightarrow> cm_chain m ! c = 0)"

lemma metric_step_ok:
  assumes inv: "metric_inv scc out P m" and c: "c < length out" "c \<notin> P" and ts: "\<And>t. mhas (out ! c) t \<Longrightarrow> t \<in> P"
    and k: "sc_numComp scc = length out"
  shows "\<exists>m'. metric_step scc out m c = Some m' \<and> metric_inv scc out (insert c P) m'"
proof -
  let ?ts = "sortedIntKeys (out ! c)" and ?f = "\<lambda>t. cm_chain m ! t"
  define D where "D = foldl (\<lambda>s t. foldl (\<lambda>s d. mput s d ()) (mput s t ()) (mkeys (cm_downstream m ! t))) [] ?ts"
  define mx where "mx = foldl (\<lambda>mx t. if ?f t > mx then ?f t else mx) (- 1) ?ts"
  define n where "n = sum_list (map (\<lambda>d. mget_or (sc_compSize scc) d 0) (mkeys D))"
  define m' where "m' = \<lparr>cm_dependents = (cm_dependents m)[c := n], cm_chain = (if mx \<ge> 0 then (cm_chain m)[c := mx + 1] else cm_chain m),
    cm_downstream = (cm_downstream m)[c := D]\<rparr>"
  have len: "length (cm_dependents m) = length out" "length (cm_chain m) = length out" "length (cm_downstream m) = length out"
    and P: "P \<subseteq> {..<length out}" and eqs: "\<And>c. c \<in> P \<Longrightarrow> metric_eqs scc out m c" and cl: "\<And>c t. c \<in> P \<Longrightarrow> mhas (out ! c) t \<Longrightarrow> t \<in> P"
    and zero: "\<And>c. c < length out \<Longrightarrow> c \<notin> P \<Longrightarrow> cm_chain m ! c = 0"
    using inv by (auto simp: metric_inv_def)
  have "list_all (\<lambda>t. t < sc_numComp scc) ?ts" using ts P k by (auto simp: list_all_iff)
  then have step: "metric_step scc out m c = Some m'"
    using c k unfolding metric_step_def Let_def D_def [symmetric] mx_def [symmetric] n_def [symmetric] by (simp add: m'_def)
  have D: "mwf D" "mhas D d \<longleftrightarrow> (\<exists>t. mhas (out ! c) t \<and> (d = t \<or> mhas (cm_downstream m ! t) d))" for d
    unfolding D_def using union_keys [where acc = "[]"] by auto
  have mx: "- 1 \<le> mx" "\<And>t. mhas (out ! c) t \<Longrightarrow> ?f t \<le> mx" "mx = - 1 \<or> (\<exists>t. mhas (out ! c) t \<and> mx = ?f t)"
    using max_fold [where f = ?f and mx = "- 1" and ts = ?ts] unfolding mx_def [symmetric] by auto
  have same: "cm_chain m' ! t = cm_chain m ! t \<and> cm_downstream m' ! t = cm_downstream m ! t \<and> cm_dependents m' ! t = cm_dependents m ! t" if "t \<noteq> c" for t
    using that by (simp add: m'_def)
  have n: "n = (\<Sum>d \<in> set (mkeys D). mget_or (sc_compSize scc) d 0)"
    unfolding n_def using D(1) by (simp add: mwf_def sum_list_distinct_conv_sum_set)
  have here: "cm_downstream m' ! c = D" "cm_dependents m' ! c = n" "cm_chain m' ! c = mx + 1"
    using c len mx(1) zero [OF c] by (auto simp: m'_def nth_list_update)
  have not_self: "t \<noteq> c" if "mhas (out ! c) t" for t using ts [OF that] c(2) by auto
  have ts': "cm_chain m' ! t = ?f t" "cm_downstream m' ! t = cm_downstream m ! t" if "mhas (out ! c) t" for t
    using same not_self that by blast+
  have "metric_eqs scc out m' c"
    unfolding metric_eqs_def here
  proof (intro conjI allI impI)
    show "mwf D" "n = (\<Sum>d \<in> set (mkeys D). mget_or (sc_compSize scc) d 0)" by (rule D(1), rule n)
    show "mhas D d \<longleftrightarrow> (\<exists>t. mhas (out ! c) t \<and> (d = t \<or> mhas (cm_downstream m' ! t) d))" for d using D(2) ts'(2) by metis
    show "0 \<le> mx + 1" using mx(1) by simp
    show "cm_chain m' ! t < mx + 1" if "mhas (out ! c) t" for t using mx(2) [OF that] ts'(1) [OF that] by simp
    show "mx + 1 = 0 \<or> (\<exists>t. mhas (out ! c) t \<and> mx + 1 = cm_chain m' ! t + 1)" using mx(3) ts'(1) by auto
  qed
  moreover have "metric_eqs scc out m' c'" if "c' \<in> P" for c'
  proof -
    have "c' \<noteq> c" "\<And>t. mhas (out ! c') t \<Longrightarrow> t \<noteq> c" using that c(2) cl by auto
    with eqs [OF that] same show ?thesis unfolding metric_eqs_def by metis
  qed
  moreover have "cm_chain m' ! c' = 0" if "c' < length out" "c' \<notin> insert c P" for c' using that zero same [of c'] by auto
  ultimately have "metric_inv scc out (insert c P) m'"
    using len P c(1) ts cl by (auto simp: metric_inv_def) (auto simp: m'_def)
  with step show ?thesis by blast
qed

lemma metric_fold:
  assumes "metric_inv scc out P m" and "distinct cs" and "set cs \<subseteq> {..<length out} - P" and "sc_numComp scc = length out"
    and "\<And>ys z zs t. cs = ys @ z # zs \<Longrightarrow> mhas (out ! z) t \<Longrightarrow> t \<in> P \<union> set ys"
  shows "\<exists>m'. fold_option (metric_step scc out) m cs = Some m' \<and> metric_inv scc out (P \<union> set cs) m'"
  using assms
proof (induction cs arbitrary: P m)
  case (Cons c cs)
  have "t \<in> P" if "mhas (out ! c) t" for t using Cons.prems(5) [of "[]" c cs t] that by simp
  then obtain m1 where m1: "metric_step scc out m c = Some m1" "metric_inv scc out (insert c P) m1"
    using metric_step_ok [OF Cons.prems(1), of c] Cons.prems(3,4) by auto
  have "t \<in> insert c P \<union> set ys" if "cs = ys @ z # zs" "mhas (out ! z) t" for ys z zs t
    using Cons.prems(5) [of "c # ys" z zs t] that by auto
  moreover have "set cs \<subseteq> {..<length out} - insert c P" using Cons.prems(2,3) by auto
  ultimately obtain m' where "fold_option (metric_step scc out) m1 cs = Some m'" "metric_inv scc out (insert c P \<union> set cs) m'"
    using Cons.IH [OF m1(2)] Cons.prems(2,4) by auto
  then show ?case using m1(1) by auto
qed simp

section \<open>The metrics in terms of the graph\<close>

lemma mark_has:
  "mhas (mark_cycle adj cm (c, ms)) u \<longleftrightarrow> mhas cm u \<or> (if length ms > 1 then u \<in> set ms else ms ! 0 = u \<and> hasSelfEdge adj u)"
proof -
  have "mhas (foldl (\<lambda>cm node. mput cm node (int c)) cm ms) u \<longleftrightarrow> mhas cm u \<or> u \<in> set ms"
    by (induction ms arbitrary: cm) auto
  then show ?thesis by (auto simp: mark_cycle_def)
qed

lemma marks_has:
  "mhas (foldl (mark_cycle adj) cm es) u \<longleftrightarrow> mhas cm u
    \<or> (\<exists>(c, ms) \<in> set es. if length ms > 1 then u \<in> set ms else ms ! 0 = u \<and> hasSelfEdge adj u)"
  by (induction es arbitrary: cm) (auto simp: mark_has split: if_splits)

lemma foldl_put_get:
  "mget (foldl (\<lambda>g node. mput g node (f node)) g nodes) u = (if u \<in> set nodes then Some (f u) else mget g u)"
  by (induction nodes arbitrary: g) auto

text \<open>\<open>hop_path adj u n\<close>: a path from \<open>u\<close> that leaves a component \<open>n\<close> times.\<close>

inductive hop_path :: "(string, string list) gomap \<Rightarrow> string \<Rightarrow> nat \<Rightarrow> bool" for adj where
  stay: "hop_path adj u 0"
| inside: "(u, w) \<in> edges adj \<Longrightarrow> mutual adj u w \<Longrightarrow> hop_path adj w n \<Longrightarrow> hop_path adj u n"
| outside: "(u, w) \<in> edges adj \<Longrightarrow> \<not> mutual adj u w \<Longrightarrow> hop_path adj w n \<Longrightarrow> hop_path adj u (Suc n)"

lemma hop_path_inside:
  assumes "(u, v) \<in> (edges adj)\<^sup>*" and "(v, u) \<in> (edges adj)\<^sup>*" and "hop_path adj v n"
  shows "hop_path adj u n"
  using assms
proof (induction rule: converse_rtrancl_induct)
  case (step u w)
  have vw: "(v, w) \<in> (edges adj)\<^sup>*" using step.prems(1) step.hyps(1) by (rule rtrancl_into_rtrancl)
  have "mutual adj u w" using step.hyps step.prems(1) unfolding mutual_def by (meson r_into_rtrancl rtrancl_trans)
  then show ?case using step.IH [OF vw step.prems(2)] step.hyps(1) by (rule hop_path.inside [rotated])
qed

text \<open>
  A component numbering of a closed graph, as the search returns it, is the interface the metrics rely on.
\<close>

locale numbered_graph =
  fixes nodes :: "string list" and adj :: "(string, string list) gomap" and scc :: scc_result
  assumes numbering: "comps_ok adj (set nodes) (sc_compOf scc) (sc_compSize scc) (sc_numComp scc)"
begin

lemma successor_node: "u \<in> set nodes \<Longrightarrow> (u, w) \<in> edges adj \<Longrightarrow> w \<in> set nodes \<and> comp_of scc w \<le> comp_of scc u"
  using numbering unfolding comps_ok_def comp_of_def by blast

lemma same_comp: "u \<in> set nodes \<Longrightarrow> v \<in> set nodes \<Longrightarrow> comp_of scc u = comp_of scc v \<longleftrightarrow> mutual adj u v"
  using numbering unfolding comps_ok_def comp_of_def by blast

lemma same_comp': "u \<in> set nodes \<Longrightarrow> v \<in> set nodes \<Longrightarrow> comp_of scc v = comp_of scc u \<longleftrightarrow> mutual adj u v"
  using same_comp by metis

lemma comps_used: "comp_of scc ` set nodes = {..<sc_numComp scc}"
  using numbering unfolding comps_ok_def comp_of_def by blast

lemma comp_size: "mget_or (sc_compSize scc) c 0 = card {u \<in> set nodes. comp_of scc u = c}"
  using numbering unfolding comps_ok_def comp_of_def by blast

lemma comp_less: "u \<in> set nodes \<Longrightarrow> comp_of scc u < sc_numComp scc"
  using comps_used by blast

lemma reached_node:
  assumes "(u, v) \<in> (edges adj)\<^sup>*" and "u \<in> set nodes"
  shows "v \<in> set nodes \<and> comp_of scc v \<le> comp_of scc u"
  using assms by (induction rule: rtrancl_induct) (auto dest: successor_node)

definition condensed_to :: "nat goset list \<Rightarrow> bool" where
  "condensed_to out \<longleftrightarrow> length out = sc_numComp scc \<and> (\<forall>c < sc_numComp scc. mwf (out ! c)
     \<and> (\<forall>t. mhas (out ! c) t \<longleftrightarrow> (\<exists>u \<in> set nodes. \<exists>w. (u, w) \<in> edges adj \<and> comp_of scc u = c \<and> comp_of scc w = t \<and> c \<noteq> t)))"

lemma condensation_ok: "\<exists>out. condensation nodes adj scc = Some out \<and> condensed_to out"
proof -
  let ?es = "concat (map (\<lambda>u. map (\<lambda>w. (comp_of scc u, comp_of scc w)) (mget_or adj u [])) nodes)"
  have "list_all (\<lambda>(a, b). a < length (replicate (sc_numComp scc) ([] :: nat goset))) ?es"
    using comp_less by (auto simp: list_all_iff)
  moreover have "\<forall>c < length (replicate (sc_numComp scc) ([] :: nat goset)). mwf (replicate (sc_numComp scc) ([] :: nat goset) ! c)" by simp
  ultimately obtain out where out: "condensation nodes adj scc = Some out" "length out = sc_numComp scc" "\<forall>c < sc_numComp scc. mwf (out ! c)"
    "\<forall>c < sc_numComp scc. \<forall>t. mhas (out ! c) t \<longleftrightarrow> (c, t) \<in> set ?es \<and> c \<noteq> t"
    using condensed [of "replicate (sc_numComp scc) []" ?es] by (auto simp: condensation_def)
  moreover have "(c, t) \<in> set ?es \<longleftrightarrow> (\<exists>u \<in> set nodes. \<exists>w. (u, w) \<in> edges adj \<and> comp_of scc u = c \<and> comp_of scc w = t)" for c t
    by (auto simp: edges_iff)
  ultimately show ?thesis unfolding condensed_to_def by blast
qed

lemma condensed_descending:
  assumes "condensed_to out"
  shows "descending out"
  unfolding descending_def
proof (intro allI impI conjI)
  fix c t assume c: "c < length out"
  then show "mwf (out ! c)" using assms by (simp add: condensed_to_def)
  assume "mhas (out ! c) t"
  then obtain u w where "u \<in> set nodes" "(u, w) \<in> edges adj" "comp_of scc u = c" "comp_of scc w = t" "c \<noteq> t"
    using assms c unfolding condensed_to_def by auto
  then show "t < c" using successor_node [of u w] by simp
qed

lemma component_metrics_ok:
  assumes out: "condensed_to out"
  shows "\<exists>m. component_metrics scc out = Some m \<and> metric_inv scc out {..<length out} m"
proof -
  let ?k = "sc_numComp scc" and ?ts = "concat (map mkeys out)"
  have len: "length out = ?k" using out by (simp add: condensed_to_def)
  note desc = condensed_descending [OF out]
  have keys: "distinct (mkeys (out ! c)) \<and> set (mkeys (out ! c)) = {t. mhas (out ! c) t}" if "c \<in> set [0..<length out]" for c
    using desc that by (auto simp: descending_def mwf_def mhas_iff_keys)
  have ts: "?ts = concat (map (\<lambda>c. mkeys (out ! c)) [0..<length out])" by (metis map_map map_nth comp_apply list.map_cong)
  have cnt: "count_list ?ts t = card (preds out t)" for t
    unfolding ts using wave_count [where wave = "[0..<length out]" and t = t, OF _ _ keys] by (simp add: preds_def Int_def subset_iff cong: conj_cong)
  have "list_all (\<lambda>t. t < length (replicate ?k (0 :: int))) ?ts"
    unfolding ts list_all_iff using keys desc len by (fastforce simp: descending_def)
  from counted [OF this] obtain r where r: "fold_option count_in (replicate ?k 0) ?ts = Some r" "length r = ?k"
    "\<forall>t < ?k. r ! t = int (count_list ?ts t)" by auto
  obtain topo where topo: "kahnTopoOrder out r = Some topo" "distinct topo" "set topo = {..<length out}" "sources_first out topo"
    using kahn_result [OF desc, of r] r cnt len by auto
  let ?m = "\<lparr>cm_dependents = replicate ?k 0, cm_chain = replicate ?k 0, cm_downstream = replicate ?k []\<rparr>"
  have "metric_inv scc out {} ?m" using len by (simp add: metric_inv_def)
  moreover have "t \<in> {} \<union> set ys" if "rev topo = ys @ z # zs" "mhas (out ! z) t" for ys z zs t
  proof -
    have tp: "topo = rev zs @ z # rev ys" using that(1) by (metis append.assoc append_Cons append_Nil rev_append rev_rev_ident rev.simps(2))
    have z: "z < length out" using topo(3) tp by auto
    then have "t < length out" using that(2) desc unfolding descending_def by (meson less_trans)
    then obtain as bs where as: "topo = as @ t # bs" using topo(3) by (metis lessThan_iff split_list)
    have "z \<in> set as" using topo(4) as z that(2) by (auto simp: sources_first_def preds_def)
    then obtain as1 as2 where "as = as1 @ z # as2" by (metis split_list)
    then have "rev zs @ z # rev ys = as1 @ z # (as2 @ t # bs)" using as tp by simp
    moreover have "z \<notin> set (rev zs)" "z \<notin> set (rev ys)" using topo(2) tp by auto
    ultimately have "rev ys = as2 @ t # bs" by (metis append_Cons_eq_iff)
    then show ?thesis by (metis Un_iff in_set_conv_decomp set_rev)
  qed
  ultimately obtain m where "fold_option (metric_step scc out) ?m (rev topo) = Some m" "metric_inv scc out ({} \<union> set (rev topo)) m"
    using metric_fold [of scc out "{}" ?m "rev topo"] topo(2,3) len by (metis Diff_empty distinct_rev order_refl set_rev)
  then show ?thesis using r(1) topo by (auto simp: component_metrics_def)
qed

lemma hop_path_bound:
  assumes out: "condensed_to out" and m: "metric_inv scc out {..<length out} m" and "hop_path adj u n" and "u \<in> set nodes"
  shows "int n \<le> cm_chain m ! comp_of scc u"
  using assms(3,4)
proof (induction rule: hop_path.induct)
  case (stay u)
  then show ?case using m out comp_less by (auto simp: metric_inv_def metric_eqs_def condensed_to_def)
next
  case (inside u w n)
  then show ?case using successor_node same_comp by metis
next
  case (outside u w n)
  have w: "w \<in> set nodes" using outside successor_node by blast
  then have "comp_of scc u \<noteq> comp_of scc w" using outside same_comp by blast
  then have "mhas (out ! comp_of scc u) (comp_of scc w)"
    using out comp_less outside.hyps(1) outside.prems unfolding condensed_to_def by blast
  then have "cm_chain m ! comp_of scc w < cm_chain m ! comp_of scc u"
    using m out comp_less [OF outside.prems] by (simp add: metric_inv_def metric_eqs_def condensed_to_def)
  then show ?case using outside.IH [OF w] by simp
qed

lemma hop_path_attained:
  assumes out: "condensed_to out" and m: "metric_inv scc out {..<length out} m" and "u \<in> set nodes"
  shows "hop_path adj u (nat (cm_chain m ! comp_of scc u))"
  using assms(3)
proof (induction "comp_of scc u" arbitrary: u rule: less_induct)
  case less
  let ?c = "comp_of scc u"
  have c: "?c < length out" and eqs: "metric_eqs scc out m ?c"
    using m out comp_less [OF less.prems] by (auto simp: metric_inv_def condensed_to_def)
  show ?case
  proof (cases "cm_chain m ! ?c = 0")
    case True
    then show ?thesis by (simp add: hop_path.stay)
  next
    case False
    then obtain t where t: "mhas (out ! ?c) t" "cm_chain m ! ?c = cm_chain m ! t + 1" using eqs unfolding metric_eqs_def by blast
    obtain a b where ab: "a \<in> set nodes" "(a, b) \<in> edges adj" "comp_of scc a = ?c" "comp_of scc b = t" "?c \<noteq> t"
      using t(1) out c unfolding condensed_to_def by metis
    have b: "b \<in> set nodes" "t < ?c" using successor_node [OF ab(1,2)] ab by auto
    have "\<not> mutual adj a b" using same_comp [OF ab(1) b(1)] ab by simp
    note b = b this
    have "hop_path adj b (nat (cm_chain m ! t))" using less.hyps [of b] b ab(4) by simp
    then have "hop_path adj a (Suc (nat (cm_chain m ! t)))" by (rule hop_path.outside [OF ab(2) b(3)])
    moreover have "mutual adj u a" using same_comp [OF less.prems ab(1)] ab(3) by simp
    ultimately have "hop_path adj u (Suc (nat (cm_chain m ! t)))" by (auto simp: mutual_def intro: hop_path_inside)
    moreover have "0 \<le> cm_chain m ! t"
      using m b(2) c by (simp add: metric_inv_def metric_eqs_def)
    ultimately show ?thesis using t(2) by (simp add: Suc_nat_eq_nat_zadd1 add.commute)
  qed
qed

lemma downstream_reached:
  assumes out: "condensed_to out" and m: "metric_inv scc out {..<length out} m" and "u \<in> set nodes"
  shows "mhas (cm_downstream m ! comp_of scc u) d \<longleftrightarrow> (\<exists>v. (u, v) \<in> (edges adj)\<^sup>* \<and> comp_of scc v = d \<and> comp_of scc v \<noteq> comp_of scc u)"
proof
  have down: "mhas (cm_downstream m ! comp_of scc u) d \<longleftrightarrow>
      (\<exists>t. mhas (out ! comp_of scc u) t \<and> (d = t \<or> mhas (cm_downstream m ! t) d))" if "u \<in> set nodes" for u d
    using m out comp_less [OF that] by (auto simp: metric_inv_def metric_eqs_def condensed_to_def)
  have has: "mhas (out ! comp_of scc u) t \<longleftrightarrow>
      (\<exists>a \<in> set nodes. \<exists>b. (a, b) \<in> edges adj \<and> comp_of scc a = comp_of scc u \<and> comp_of scc b = t \<and> comp_of scc u \<noteq> t)" if "u \<in> set nodes" for u t
    using out comp_less [OF that] unfolding condensed_to_def by blast
  show "\<exists>v. (u, v) \<in> (edges adj)\<^sup>* \<and> comp_of scc v = d \<and> comp_of scc v \<noteq> comp_of scc u" if "mhas (cm_downstream m ! comp_of scc u) d"
    using assms(3) that
  proof (induction "comp_of scc u" arbitrary: u rule: less_induct)
    case less
    obtain t where t: "mhas (out ! comp_of scc u) t" "d = t \<or> mhas (cm_downstream m ! t) d" using less.prems down by blast
    obtain a b where ab: "a \<in> set nodes" "(a, b) \<in> edges adj" "comp_of scc a = comp_of scc u" "comp_of scc b = t" "comp_of scc u \<noteq> t"
      using t(1) has [OF less.prems(1)] by blast
    have b: "b \<in> set nodes" "t < comp_of scc u" using successor_node [OF ab(1,2)] ab by auto
    have "(u, a) \<in> (edges adj)\<^sup>*" using same_comp [OF less.prems(1) ab(1)] ab(3) by (simp add: mutual_def)
    then have ub: "(u, b) \<in> (edges adj)\<^sup>*" using ab(2) by (rule rtrancl_into_rtrancl)
    show ?case
    proof (cases "d = t")
      case True
      then show ?thesis using ub ab by auto
    next
      case False
      then obtain v where "(b, v) \<in> (edges adj)\<^sup>*" "comp_of scc v = d"
        using less.hyps [of b] b t(2) ab(4) by auto
      moreover from this have "comp_of scc v \<le> t" using reached_node [OF _ b(1)] ab(4) by auto
      ultimately show ?thesis using ub b(2) by (metis less_le_not_le rtrancl_trans)
    qed
  qed
  show "mhas (cm_downstream m ! comp_of scc u) d" if ex: "\<exists>v. (u, v) \<in> (edges adj)\<^sup>* \<and> comp_of scc v = d \<and> comp_of scc v \<noteq> comp_of scc u"
  proof -
    obtain v where "(u, v) \<in> (edges adj)\<^sup>*" "comp_of scc v = d" "comp_of scc v \<noteq> comp_of scc u" using ex by blast
    then show ?thesis using assms(3)
    proof (induction rule: converse_rtrancl_induct)
      case (step u x)
      have x: "x \<in> set nodes" using successor_node step.hyps(1) step.prems(3) by blast
      show ?case
      proof (cases "comp_of scc x = comp_of scc u")
        case True
        then show ?thesis using step x by simp
      next
        case False
        then have "mhas (out ! comp_of scc u) (comp_of scc x)" using has [OF step.prems(3)] step.hyps(1) step.prems(3) by metis
        moreover have "d = comp_of scc x \<or> mhas (cm_downstream m ! comp_of scc x) d" using step.IH step.prems(1) x by auto
        ultimately show ?thesis unfolding down [OF step.prems(3)] by blast
      qed
    qed simp
  qed
qed

lemma dependents_counted:
  assumes out: "condensed_to out" and m: "metric_inv scc out {..<length out} m" and u: "u \<in> set nodes"
  shows "cm_dependents m ! comp_of scc u = card {v \<in> set nodes. (u, v) \<in> (edges adj)\<^sup>* \<and> \<not> mutual adj u v}"
proof -
  let ?K = "set (mkeys (cm_downstream m ! comp_of scc u))" and ?R = "{v \<in> set nodes. (u, v) \<in> (edges adj)\<^sup>* \<and> \<not> mutual adj u v}"
  have down: "d \<in> ?K \<longleftrightarrow> (\<exists>v. (u, v) \<in> (edges adj)\<^sup>* \<and> comp_of scc v = d \<and> comp_of scc v \<noteq> comp_of scc u)" for d
    using downstream_reached [OF assms, of d] by (simp add: mhas_iff_keys)
  have "comp_of scc u < length out" using out comp_less [OF u] by (simp add: condensed_to_def)
  then have "cm_dependents m ! comp_of scc u = (\<Sum>d \<in> ?K. card {v \<in> set nodes. comp_of scc v = d})"
    using m by (simp add: metric_inv_def metric_eqs_def comp_size)
  also have "\<dots> = card (\<Union>d \<in> ?K. {v \<in> set nodes. comp_of scc v = d})"
    by (rule card_UN_disjoint [symmetric]) auto
  also have "(\<Union>d \<in> ?K. {v \<in> set nodes. comp_of scc v = d}) = ?R"
  proof (rule set_eqI)
    fix v
    have "(\<exists>w. (u, w) \<in> (edges adj)\<^sup>* \<and> comp_of scc w = comp_of scc v \<and> comp_of scc w \<noteq> comp_of scc u)
        \<longleftrightarrow> (u, v) \<in> (edges adj)\<^sup>* \<and> comp_of scc v \<noteq> comp_of scc u" if v: "v \<in> set nodes"
      using reached_node [OF _ u] same_comp [OF _ v] unfolding mutual_def by (metis rtrancl_trans)
    then show "v \<in> (\<Union>d \<in> ?K. {v \<in> set nodes. comp_of scc v = d}) \<longleftrightarrow> v \<in> ?R" using down same_comp' [OF u, of v] by auto
  qed
  finally show ?thesis .
qed

lemma members_exact:
  "mget_or (members_by_comp nodes scc) c [] = filter (\<lambda>v. comp_of scc v = c) nodes"
proof -
  have "mget_or (foldl (\<lambda>m node. mput m (comp_of scc node) (mget_or m (comp_of scc node) [] @ [node])) m ns) c []
      = mget_or m c [] @ filter (\<lambda>v. comp_of scc v = c) ns" for m ns
    by (induction ns arbitrary: m) (simp_all add: mget_or_def)
  then show ?thesis by (simp add: members_by_comp_def mget_or_def)
qed

lemma members_keys: "mwf (members_by_comp nodes scc) \<and> set (mkeys (members_by_comp nodes scc)) = comp_of scc ` set nodes"
proof -
  have "mwf m \<Longrightarrow> mwf (foldl (\<lambda>m node. mput m (comp_of scc node) (mget_or m (comp_of scc node) [] @ [node])) m ns)"
    "set (mkeys (foldl (\<lambda>m node. mput m (comp_of scc node) (mget_or m (comp_of scc node) [] @ [node])) m ns))
      = set (mkeys m) \<union> comp_of scc ` set ns" for m ns
    by (induction ns arbitrary: m) auto
  then show ?thesis by (simp add: members_by_comp_def mkeys_def)
qed

lemma on_cycle_iff:
  assumes dis: "distinct nodes" and u: "u \<in> set nodes" and ms: "ms = filter (\<lambda>v. comp_of scc v = comp_of scc u) nodes"
  shows "(u, u) \<in> (edges adj)\<^sup>+ \<longleftrightarrow> length ms > 1 \<or> ms ! 0 = u \<and> hasSelfEdge adj u"
proof -
  have self: "hasSelfEdge adj u \<longleftrightarrow> (u, u) \<in> edges adj" by (auto simp: hasSelfEdge_def list_ex_iff edges_iff)
  have mem: "u \<in> set ms" "distinct ms" and set_ms: "\<And>v. v \<in> set ms \<longleftrightarrow> v \<in> set nodes \<and> mutual adj u v"
    using dis u same_comp' [OF u] by (auto simp: ms)
  show ?thesis
  proof (cases "\<exists>v \<in> set ms. v \<noteq> u")
    case True
    then obtain v where v: "v \<in> set ms" "v \<noteq> u" by blast
    then have "(u, v) \<in> (edges adj)\<^sup>+" "(v, u) \<in> (edges adj)\<^sup>*" using set_ms unfolding mutual_def by (metis rtranclD)+
    moreover have "length ms > 1"
    proof (rule ccontr)
      assume "\<not> length ms > 1"
      then obtain x where "ms = [x]" using mem(1) by (cases ms; cases "tl ms") auto
      then show False using v mem(1) by simp
    qed
    ultimately show ?thesis by (simp add: trancl_rtrancl_trancl)
  next
    case False
    then have "set ms = {u}" using mem(1) by blast
    moreover from this have "length ms = 1" using distinct_card [OF mem(2)] by simp
    ultimately have one: "ms = [u]" by (cases ms) auto
    have "(u, u) \<in> edges adj" if cyc: "(u, u) \<in> (edges adj)\<^sup>+"
    proof -
      obtain w where w: "(u, w) \<in> edges adj" "(w, u) \<in> (edges adj)\<^sup>*" using cyc by (metis tranclD)
      then have "w \<in> set ms" using set_ms successor_node [OF u w(1)] by (auto simp: mutual_def)
      then show ?thesis using w one by simp
    qed
    then show ?thesis using one self by auto
  qed
qed

lemma member_entry:
  "(c, ms) \<in> set (members_by_comp nodes scc) \<longleftrightarrow> c \<in> comp_of scc ` set nodes \<and> ms = filter (\<lambda>v. comp_of scc v = c) nodes"
proof -
  let ?M = "members_by_comp nodes scc"
  have "(c, ms) \<in> set ?M \<longleftrightarrow> mget ?M c = Some ms" using members_keys mwf_in_set_iff by metis
  also have "\<dots> \<longleftrightarrow> mhas ?M c \<and> mget_or ?M c [] = ms" by (auto simp: mhas_def mget_or_def split: option.splits)
  also have "\<dots> \<longleftrightarrow> c \<in> comp_of scc ` set nodes \<and> ms = filter (\<lambda>v. comp_of scc v = c) nodes"
    using members_keys by (auto simp: mhas_iff_keys members_exact)
  finally show ?thesis .
qed

lemma cycle_marks:
  assumes dis: "distinct nodes" and u: "u \<in> set nodes"
  shows "mhas (foldl (mark_cycle adj) [] (members_by_comp nodes scc)) u \<longleftrightarrow> (u, u) \<in> (edges adj)\<^sup>+"
proof -
  let ?ms = "\<lambda>c. filter (\<lambda>v. comp_of scc v = c) nodes"
  have own: "comp_of scc v = c" if "length (?ms c) > 1 \<longrightarrow> v \<in> set (?ms c)" "\<not> length (?ms c) > 1 \<longrightarrow> ?ms c ! 0 = v" "c \<in> comp_of scc ` set nodes" for c v
  proof (cases "length (?ms c) > 1")
    case False
    have "?ms c \<noteq> []" using that(3) by (auto simp: filter_empty_conv)
    then show ?thesis using that(2) False nth_mem [of 0 "?ms c"] by simp
  qed (use that in simp)
  define Q where "Q = (\<lambda>ms. if length ms > 1 then u \<in> set ms else ms ! 0 = u \<and> hasSelfEdge adj u)"
  have "mhas (foldl (mark_cycle adj) [] (members_by_comp nodes scc)) u \<longleftrightarrow> (\<exists>(c, ms) \<in> set (members_by_comp nodes scc). Q ms)"
    unfolding marks_has Q_def by simp
  also have "\<dots> \<longleftrightarrow> Q (?ms (comp_of scc u))"
  proof
    assume "\<exists>(c, ms) \<in> set (members_by_comp nodes scc). Q ms"
    then obtain c where c: "c \<in> comp_of scc ` set nodes" "Q (?ms c)" by (auto simp: member_entry)
    then have "comp_of scc u = c" by (intro own) (auto simp: Q_def split: if_splits)
    then show "Q (?ms (comp_of scc u))" using c(2) by simp
  next
    assume "Q (?ms (comp_of scc u))"
    moreover have "(comp_of scc u, ?ms (comp_of scc u)) \<in> set (members_by_comp nodes scc)" using u by (simp add: member_entry)
    ultimately show "\<exists>(c, ms) \<in> set (members_by_comp nodes scc). Q ms" by blast
  qed
  also have "\<dots> \<longleftrightarrow> (u, u) \<in> (edges adj)\<^sup>+" using on_cycle_iff [OF dis u refl] u by (auto simp: Q_def)
  finally show ?thesis .
qed

lemma metrics_ok:
  assumes dis: "distinct nodes"
  shows "\<exists>m. computeGraphMetrics nodes adj scc = Some m \<and> (\<forall>u \<in> set nodes.
    mget (gm_TransitiveDependents m) u = Some (int (card {v \<in> set nodes. (u, v) \<in> (edges adj)\<^sup>* \<and> \<not> mutual adj u v}))
    \<and> (\<exists>n. mget (gm_LongestChain m) u = Some (int n) \<and> hop_path adj u n \<and> (\<forall>n'. hop_path adj u n' \<longrightarrow> n' \<le> n))
    \<and> (mhas (gm_CycleMembers m) u \<longleftrightarrow> (u, u) \<in> (edges adj)\<^sup>+))"
proof -
  obtain out where out: "condensation nodes adj scc = Some out" "condensed_to out" using condensation_ok by blast
  obtain cm where cm: "component_metrics scc out = Some cm" "metric_inv scc out {..<length out} cm" using component_metrics_ok [OF out(2)] by blast
  let ?m = "\<lparr>gm_TransitiveDependents = foldl (\<lambda>g node. mput g node (int (cm_dependents cm ! comp_of scc node))) [] nodes,
    gm_LongestChain = foldl (\<lambda>g node. mput g node (cm_chain cm ! comp_of scc node)) [] nodes,
    gm_CycleMembers = foldl (mark_cycle adj) [] (members_by_comp nodes scc)\<rparr>"
  have "computeGraphMetrics nodes adj scc = Some ?m" using out(1) cm(1) by (simp add: computeGraphMetrics_def)
  moreover have "mget (gm_TransitiveDependents ?m) u = Some (int (card {v \<in> set nodes. (u, v) \<in> (edges adj)\<^sup>* \<and> \<not> mutual adj u v}))"
    if "u \<in> set nodes" for u using dependents_counted [OF out(2) cm(2) that] that by (simp add: foldl_put_get)
  moreover have "\<exists>n. mget (gm_LongestChain ?m) u = Some (int n) \<and> hop_path adj u n \<and> (\<forall>n'. hop_path adj u n' \<longrightarrow> n' \<le> n)"
    if u: "u \<in> set nodes" for u
  proof -
    let ?n = "nat (cm_chain cm ! comp_of scc u)"
    have pos: "0 \<le> cm_chain cm ! comp_of scc u" using hop_path_bound [OF out(2) cm(2) hop_path.stay u] by simp
    have "n' \<le> ?n" if "hop_path adj u n'" for n' using hop_path_bound [OF out(2) cm(2) that u] by simp
    then show ?thesis using hop_path_attained [OF out(2) cm(2) u] pos u by (intro exI [of _ ?n]) (simp add: foldl_put_get)
  qed
  moreover have "mhas (gm_CycleMembers ?m) u \<longleftrightarrow> (u, u) \<in> (edges adj)\<^sup>+" if "u \<in> set nodes" for u
    using cycle_marks [OF dis that] by simp
  ultimately show ?thesis by blast
qed

definition comp_members :: "nat \<Rightarrow> string list" where
  "comp_members c = filter (\<lambda>v. comp_of scc v = c) nodes"

definition cyclic_comp :: "nat \<Rightarrow> bool" where
  "cyclic_comp c \<longleftrightarrow> c \<in> comp_of scc ` set nodes \<and> \<not> (length (comp_members c) = 1 \<and> \<not> hasSelfEdge adj (comp_members c ! 0))"

definition cycle_of :: "tick_graph \<Rightarrow> dependency_cycle list \<Rightarrow> time \<Rightarrow> nat \<Rightarrow> dependency_cycle" where
  "cycle_of g prev now c = \<lparr>dc_Members = sort (comp_members c), dc_Kind = cycleKindFromSet (cycle_kinds g adj (sort (comp_members c))),
     dc_DetectedAt = mget_or (foldl (\<lambda>m cyc. mput m (join_with '','' (dc_Members cyc)) (dc_DetectedAt cyc)) [] prev)
       (join_with '','' (sort (comp_members c))) now\<rparr>"

lemma extract_mset:
  "\<exists>cs. distinct cs \<and> set cs = {c. cyclic_comp c} \<and> mset (extractCycles g nodes adj scc prev now) = mset (map (cycle_of g prev now) cs)"
proof -
  let ?cs = "filter (\<lambda>c. \<not> (length (comp_members c) = 1 \<and> \<not> hasSelfEdge adj (comp_members c ! 0))) (sort (mkeys (members_by_comp nodes scc)))"
  have "distinct ?cs" "set ?cs = {c. cyclic_comp c}"
    using members_keys by (auto simp: cyclic_comp_def mwf_def)
  moreover have "mset (extractCycles g nodes adj scc prev now) = mset (map (cycle_of g prev now) ?cs)"
    by (simp add: extractCycles_def Let_def members_exact comp_members_def cycle_of_def [abs_def])
  ultimately show ?thesis by blast
qed

lemma cyclic_comp_iff:
  assumes "distinct nodes" and "u \<in> set nodes"
  shows "cyclic_comp (comp_of scc u) \<longleftrightarrow> (u, u) \<in> (edges adj)\<^sup>+"
proof -
  let ?ms = "comp_members (comp_of scc u)"
  have mem: "u \<in> set ?ms" using assms(2) by (simp add: comp_members_def)
  have one: "?ms ! 0 = u" if "length ?ms = 1" using that mem by (cases ?ms) auto
  have "length ?ms > 1 \<or> length ?ms = 1" using mem by (cases ?ms) auto
  then show ?thesis
    using on_cycle_iff [OF assms refl] one assms(2) unfolding cyclic_comp_def comp_members_def [symmetric] by auto
qed

lemma cycle_members:
  assumes "u \<in> set nodes"
  shows "set (dc_Members (cycle_of g prev now (comp_of scc u))) = {v \<in> set nodes. mutual adj u v}"
  using same_comp' [OF assms] by (auto simp: cycle_of_def comp_members_def)

lemma cycles_ok:
  assumes dis: "distinct nodes" and cs: "cycles = extractCycles g nodes adj scc prev now"
  shows "(\<forall>cyc \<in> set cycles. \<exists>u \<in> set nodes. (u, u) \<in> (edges adj)\<^sup>+ \<and> set (dc_Members cyc) = {v \<in> set nodes. mutual adj u v})
    \<and> (\<forall>u \<in> set nodes. (u, u) \<in> (edges adj)\<^sup>+ \<longrightarrow> (\<exists>cyc \<in> set cycles. u \<in> set (dc_Members cyc)))
    \<and> distinct (map dc_Members cycles)"
proof -
  obtain ids where ids: "distinct ids" "set ids = {c. cyclic_comp c}" "mset cycles = mset (map (cycle_of g prev now) ids)"
    using extract_mset cs by blast
  then have set_cs: "set cycles = cycle_of g prev now ` {c. cyclic_comp c}" by (metis list.set_map set_mset_mset)
  have "\<exists>u \<in> set nodes. (u, u) \<in> (edges adj)\<^sup>+ \<and> set (dc_Members cyc) = {v \<in> set nodes. mutual adj u v}" if reported: "cyc \<in> set cycles" for cyc
  proof -
    obtain c where c: "cyclic_comp c" "cyc = cycle_of g prev now c" using reported set_cs by blast
    then obtain u where "u \<in> set nodes" "comp_of scc u = c" by (auto simp: cyclic_comp_def)
    then show ?thesis using c cyclic_comp_iff [OF dis, of u] cycle_members [of u g prev now] by auto
  qed
  moreover have "\<exists>cyc \<in> set cycles. u \<in> set (dc_Members cyc)" if u: "u \<in> set nodes" "(u, u) \<in> (edges adj)\<^sup>+" for u
  proof -
    have "cyclic_comp (comp_of scc u)" using cyclic_comp_iff [OF dis u(1)] u(2) by simp
    then have "cycle_of g prev now (comp_of scc u) \<in> set cycles" unfolding set_cs by simp
    moreover have "u \<in> set (dc_Members (cycle_of g prev now (comp_of scc u)))" using cycle_members [OF u(1)] u(1) by simp
    ultimately show ?thesis by (rule bexI [rotated])
  qed
  moreover have "distinct (map dc_Members cycles)"
  proof -
    have "inj_on (\<lambda>c. dc_Members (cycle_of g prev now c)) {c. cyclic_comp c}"
    proof (rule inj_onI)
      fix c c' assume c: "c \<in> {c. cyclic_comp c}" and eq: "dc_Members (cycle_of g prev now c) = dc_Members (cycle_of g prev now c')"
      obtain u where u: "u \<in> set nodes" "comp_of scc u = c" using c by (auto simp: cyclic_comp_def)
      have "sort (comp_members c) = sort (comp_members c')" using eq by (simp add: cycle_of_def)
      then have "set (comp_members c) = set (comp_members c')" by (metis set_sort)
      moreover have "u \<in> set (comp_members c)" using u by (simp add: comp_members_def)
      ultimately show "c = c'" using u by (simp add: comp_members_def)
    qed
    then have "distinct (map (\<lambda>c. dc_Members (cycle_of g prev now c)) ids)" using ids(1,2) by (simp add: distinct_map)
    moreover have "mset (map dc_Members cycles) = mset (map (\<lambda>c. dc_Members (cycle_of g prev now c)) ids)"
      using arg_cong [OF ids(3), of "image_mset dc_Members"] by (simp add: image_mset.compositionality comp_def)
    ultimately show ?thesis by (metis mset_eq_imp_distinct_iff)
  qed
  ultimately show ?thesis by blast
qed

end

section \<open>The graph of a tick\<close>

lemma adjacency_get:
  "mget_or (adjacency g nodes) u [] = (if u \<in> set nodes then filter (mhas (tg_Nodes g)) (mget_or (tg_Out g) u []) else [])"
proof -
  let ?step = "\<lambda>adj n. let out = mget_or (tg_Out g) n [] in if out = [] then adj else mput adj n (filter (mhas (tg_Nodes g)) out)"
  have "mget_or (foldl ?step adj nodes) u [] = (if u \<in> set nodes \<and> mget_or (tg_Out g) u [] \<noteq> []
      then filter (mhas (tg_Nodes g)) (mget_or (tg_Out g) u []) else mget_or adj u [])" for adj
    by (induction nodes arbitrary: adj) (auto simp: Let_def mget_or_def)
  then show ?thesis by (auto simp: adjacency_def mget_or_def)
qed

lemma adjacency_mwf: "mwf (adjacency g nodes)"
proof -
  let ?step = "\<lambda>adj n. let out = mget_or (tg_Out g) n [] in if out = [] then adj else mput adj n (filter (mhas (tg_Nodes g)) out)"
  have "mwf adj \<Longrightarrow> mwf (foldl ?step adj nodes)" for adj by (induction nodes arbitrary: adj) (auto simp: Let_def)
  then show ?thesis by (simp add: adjacency_def)
qed

lemma adjacency_closed: "closed_graph (sortedNodes g) (adjacency g nodes)"
proof -
  have "w \<in> set (sortedNodes g)" if "(n, out) \<in> set (adjacency g nodes)" "w \<in> set out" for n out w
  proof -
    have "mget_or (adjacency g nodes) n [] = out" using that(1) adjacency_mwf by (simp add: mwf_in_set_iff mget_or_def)
    then show ?thesis using that(2) by (auto simp: adjacency_get sortedNodes_def mhas_iff_keys split: if_splits)
  qed
  then show ?thesis by (fastforce simp: closed_graph_def targets_def)
qed

text \<open>The edges of the tick graph between its nodes.\<close>

definition graph_edges :: "tick_graph \<Rightarrow> (string \<times> string) set" where
  "graph_edges g = {(u, w). mhas (tg_Nodes g) u \<and> mhas (tg_Nodes g) w \<and> w \<in> set (mget_or (tg_Out g) u [])}"

lemma adjacency_edges: "edges (adjacency g (sortedNodes g)) = graph_edges g"
  by (auto simp: edges_iff graph_edges_def adjacency_get sortedNodes_def mhas_iff_keys)

definition tick_scc :: "tick_graph \<Rightarrow> scc_result" where
  "tick_scc g = the (tarjanSCC (sortedNodes g) (adjacency g (sortedNodes g)))"

interpretation tick: numbered_graph "sortedNodes g" "adjacency g (sortedNodes g)" "tick_scc g" for g
proof
  obtain r D where "tarjanSCC (sortedNodes g) (adjacency g (sortedNodes g)) = Some r"
    "comps_ok (adjacency g (sortedNodes g)) D (sc_compOf r) (sc_compSize r) (sc_numComp r)" "D = set (sortedNodes g)"
    using scc_comps [of "sortedNodes g" "adjacency g (sortedNodes g)"] adjacency_closed by blast
  then show "comps_ok (adjacency g (sortedNodes g)) (set (sortedNodes g)) (sc_compOf (tick_scc g)) (sc_compSize (tick_scc g)) (sc_numComp (tick_scc g))"
    by (simp add: tick_scc_def)
qed

lemma tick_scc_Some: "tarjanSCC (sortedNodes g) (adjacency g (sortedNodes g)) = Some (tick_scc g)"
  using scc_comps [of "sortedNodes g" "adjacency g (sortedNodes g)"] by (auto simp: tick_scc_def)

lemma analysis_eq:
  "ComputeTickGraphAnalysis g prev now = map_option (\<lambda>m. (m, extractCycles g (sortedNodes g) (adjacency g (sortedNodes g)) (tick_scc g) prev now))
     (computeGraphMetrics (sortedNodes g) (adjacency g (sortedNodes g)) (tick_scc g))"
  by (simp add: ComputeTickGraphAnalysis_def Let_def tick_scc_Some)

definition cyclic_with :: "tick_graph \<Rightarrow> string \<Rightarrow> string \<Rightarrow> bool" where
  "cyclic_with g u v \<longleftrightarrow> (u, v) \<in> (graph_edges g)\<^sup>* \<and> (v, u) \<in> (graph_edges g)\<^sup>*"

text \<open>A chain of blocked issues: each step goes from a blocker to an issue it blocks, and steps inside a cycle do not count.\<close>

inductive chain_of_blocked :: "tick_graph \<Rightarrow> string \<Rightarrow> nat \<Rightarrow> bool" for g where
  here: "chain_of_blocked g u 0"
| within: "(u, w) \<in> graph_edges g \<Longrightarrow> cyclic_with g u w \<Longrightarrow> chain_of_blocked g w n \<Longrightarrow> chain_of_blocked g u n"
| onward: "(u, w) \<in> graph_edges g \<Longrightarrow> \<not> cyclic_with g u w \<Longrightarrow> chain_of_blocked g w n \<Longrightarrow> chain_of_blocked g u (Suc n)"

lemma cyclic_with_mutual: "cyclic_with g = mutual (adjacency g (sortedNodes g))"
  by (intro ext) (simp add: cyclic_with_def mutual_def adjacency_edges)

lemma chain_hop_path: "chain_of_blocked g u n \<longleftrightarrow> hop_path (adjacency g (sortedNodes g)) u n"
proof
  show "chain_of_blocked g u n \<Longrightarrow> hop_path (adjacency g (sortedNodes g)) u n"
    by (induction rule: chain_of_blocked.induct) (auto simp: cyclic_with_mutual adjacency_edges intro: hop_path.intros)
  show "hop_path (adjacency g (sortedNodes g)) u n \<Longrightarrow> chain_of_blocked g u n"
    by (induction rule: hop_path.induct) (auto simp: cyclic_with_mutual adjacency_edges intro: chain_of_blocked.intros)
qed

text \<open>
  C10. The metrics of a tick are exact: the analysis never panics, and for every node of a well-formed graph \<open>TransitiveDependents\<close> is the number of nodes it
  transitively blocks outside its own cycle, \<open>LongestChain\<close> is the length of the longest chain of blocked issues below it, and
  it is a cycle member iff it transitively blocks itself.
\<close>

theorem tick_metrics_exact:
  assumes "mwf (tg_Nodes g)"
  shows "\<exists>m cycles. ComputeTickGraphAnalysis g prev now = Some (m, cycles) \<and> (\<forall>u. mhas (tg_Nodes g) u \<longrightarrow>
    mget (gm_TransitiveDependents m) u = Some (int (card {v. (u, v) \<in> (graph_edges g)\<^sup>* \<and> \<not> cyclic_with g u v}))
    \<and> (\<exists>n. mget (gm_LongestChain m) u = Some (int n) \<and> chain_of_blocked g u n \<and> (\<forall>n'. chain_of_blocked g u n' \<longrightarrow> n' \<le> n))
    \<and> (mhas (gm_CycleMembers m) u \<longleftrightarrow> (u, u) \<in> (graph_edges g)\<^sup>+))"
proof -
  let ?nodes = "sortedNodes g" and ?adj = "adjacency g (sortedNodes g)"
  have nodes: "u \<in> set ?nodes \<longleftrightarrow> mhas (tg_Nodes g) u" for u by (simp add: sortedNodes_def mhas_iff_keys)
  have dis: "distinct ?nodes" using assms by (simp add: sortedNodes_def mwf_def)
  have set_eq: "{v \<in> set ?nodes. (u, v) \<in> (edges ?adj)\<^sup>* \<and> \<not> mutual ?adj u v} = {v. (u, v) \<in> (graph_edges g)\<^sup>* \<and> \<not> cyclic_with g u v}"
    if "u \<in> set ?nodes" for u
    using tick.reached_node [of u _ g] that by (auto simp: adjacency_edges cyclic_with_mutual)
  obtain m where "computeGraphMetrics ?nodes ?adj (tick_scc g) = Some m"
    "\<forall>u \<in> set ?nodes. mget (gm_TransitiveDependents m) u = Some (int (card {v \<in> set ?nodes. (u, v) \<in> (edges ?adj)\<^sup>* \<and> \<not> mutual ?adj u v}))
      \<and> (\<exists>n. mget (gm_LongestChain m) u = Some (int n) \<and> hop_path ?adj u n \<and> (\<forall>n'. hop_path ?adj u n' \<longrightarrow> n' \<le> n))
      \<and> (mhas (gm_CycleMembers m) u \<longleftrightarrow> (u, u) \<in> (edges ?adj)\<^sup>+)"
    using tick.metrics_ok [OF dis] by blast
  then show ?thesis
    using set_eq by (intro exI [of _ m] exI) (simp add: analysis_eq nodes adjacency_edges chain_hop_path)
qed

text \<open>
  C11. The reported cycles are exactly the dependency cycles: every report lists one set of issues that transitively block each other,
  every issue that transitively blocks itself is listed, and no cycle is reported twice.
\<close>

theorem tick_cycles_exact:
  assumes "mwf (tg_Nodes g)" and "ComputeTickGraphAnalysis g prev now = Some (m, cycles)"
  shows "(\<forall>cyc \<in> set cycles. \<exists>u. (u, u) \<in> (graph_edges g)\<^sup>+ \<and> set (dc_Members cyc) = {v. cyclic_with g u v})
    \<and> (\<forall>u. (u, u) \<in> (graph_edges g)\<^sup>+ \<longrightarrow> (\<exists>cyc \<in> set cycles. u \<in> set (dc_Members cyc)))
    \<and> distinct (map dc_Members cycles)"
proof -
  let ?nodes = "sortedNodes g" and ?adj = "adjacency g (sortedNodes g)"
  have nodes: "u \<in> set ?nodes \<longleftrightarrow> mhas (tg_Nodes g) u" for u by (simp add: sortedNodes_def mhas_iff_keys)
  have dis: "distinct ?nodes" using assms(1) by (simp add: sortedNodes_def mwf_def)
  have "cycles = extractCycles g ?nodes ?adj (tick_scc g) prev now" using assms(2) by (auto simp: analysis_eq)
  note ok = tick.cycles_ok [OF dis this]
  have node: "u \<in> set ?nodes" if "(u, u) \<in> (graph_edges g)\<^sup>+" for u using that by (auto simp: nodes graph_edges_def dest: tranclD)
  have members: "{v \<in> set ?nodes. mutual ?adj u v} = {v. cyclic_with g u v}" if "u \<in> set ?nodes" for u
    using tick.reached_node [of u _ g] that by (auto simp: cyclic_with_mutual mutual_def)
  have "\<exists>u. (u, u) \<in> (graph_edges g)\<^sup>+ \<and> set (dc_Members cyc) = {v. cyclic_with g u v}" if cyc: "cyc \<in> set cycles" for cyc
  proof -
    obtain u where "u \<in> set ?nodes" "(u, u) \<in> (edges ?adj)\<^sup>+" "set (dc_Members cyc) = {v \<in> set ?nodes. mutual ?adj u v}"
      using ok cyc by blast
    then show ?thesis using members by (metis adjacency_edges)
  qed
  moreover have "\<exists>cyc \<in> set cycles. u \<in> set (dc_Members cyc)" if "(u, u) \<in> (graph_edges g)\<^sup>+" for u
    using ok node [OF that] that unfolding adjacency_edges by blast
  ultimately show ?thesis using ok by blast
qed

section \<open>The edges that are built\<close>

definition out_edges :: "tick_graph \<Rightarrow> (string \<times> string) set" where
  "out_edges g = {(u, w). w \<in> set (mget_or (tg_Out g) u [])}"

definition graph_inv :: "string goset \<Rightarrow> tick_graph \<Rightarrow> bool" where
  "graph_inv N g \<longleftrightarrow> tg_Nodes g = N \<and> (\<forall>(u, w) \<in> out_edges g. mhas N u \<and> mhas N w)
     \<and> (\<forall>u w. mhas N u \<longrightarrow> mhas N w \<longrightarrow> mhas (tg_EdgeKinds g) (u @ ''->'' @ w) = ((u, w) \<in> out_edges g))"

definition arrow_free :: "string goset \<Rightarrow> bool" where
  "arrow_free N \<longleftrightarrow> (\<forall>u. mhas N u \<longrightarrow> CHR ''>'' \<notin> set u)"

lemma edge_key_inject:
  assumes "CHR ''>'' \<notin> set u" "CHR ''>'' \<notin> set v" "u @ ''->'' @ w = v @ ''->'' @ x"
  shows "u = v \<and> w = x"
proof -
  have tw: "takeWhile (\<lambda>c. c \<noteq> CHR ''>'') (y @ ''->'' @ z) = y @ ''-''" if "CHR ''>'' \<notin> set y" for y z
    using that by (induction y) auto
  have "u @ ''-'' = v @ ''-''" using tw [OF assms(1), of w] tw [OF assms(2), of x] assms(3) by simp
  then have "u = v" by simp
  then show ?thesis using assms(3) by simp
qed

lemma add_edge_inv:
  assumes inv: "graph_inv N g" and free: "arrow_free N" and N: "mhas N a" "mhas N b"
  shows "graph_inv N (add_edge a b kind g) \<and> out_edges (add_edge a b kind g) = out_edges g \<union> {(a, b)}"
proof -
  let ?key = "a @ ''->'' @ b"
  have key: "u @ ''->'' @ w = ?key \<longleftrightarrow> (u, w) = (a, b)" if "mhas N u" for u w
    using edge_key_inject [of u a w b] that N free by (auto simp: arrow_free_def)
  have old: "mhas (tg_EdgeKinds g) ?key \<longleftrightarrow> (a, b) \<in> out_edges g" using inv N by (simp add: graph_inv_def)
  have oe: "out_edges (add_edge a b kind g) = out_edges g \<union> {(a, b)}"
  proof (cases "mget (tg_EdgeKinds g) ?key")
    case None
    then have "mget_or (tg_Out (add_edge a b kind g)) u [] = (if u = a then mget_or (tg_Out g) a [] @ [b] else mget_or (tg_Out g) u [])" for u
      by (simp add: add_edge_def Let_def mget_or_def)
    then show ?thesis by (auto simp: out_edges_def split: if_splits)
  next
    case (Some kinds)
    then have "(a, b) \<in> out_edges g" using old by (simp add: mhas_def)
    moreover have "out_edges (add_edge a b kind g) = out_edges g" using Some by (simp add: add_edge_def Let_def out_edges_def)
    ultimately show ?thesis by blast
  qed
  have "mhas (tg_EdgeKinds (add_edge a b kind g)) k \<longleftrightarrow> k = ?key \<or> mhas (tg_EdgeKinds g) k" for k
    by (auto simp: add_edge_def Let_def split: option.splits)
  moreover have "tg_Nodes (add_edge a b kind g) = tg_Nodes g" by (simp add: add_edge_def Let_def split: option.splits)
  ultimately have "graph_inv N (add_edge a b kind g)" using inv N key by (auto simp: graph_inv_def oe)
  with oe show ?thesis by simp
qed

lemma foldl_edges:
  assumes "\<And>g x. x \<in> set xs \<Longrightarrow> graph_inv N g \<Longrightarrow> graph_inv N (f g x) \<and> out_edges (f g x) = out_edges g \<union> A x" and "graph_inv N g"
  shows "graph_inv N (foldl f g xs) \<and> out_edges (foldl f g xs) = out_edges g \<union> (\<Union>x \<in> set xs. A x)"
  using assms
proof (induction xs arbitrary: g)
  case (Cons x xs)
  have "graph_inv N (f g x) \<and> out_edges (f g x) = out_edges g \<union> A x" using Cons.prems by simp
  then show ?case using Cons.IH [of "f g x"] Cons.prems(1) by auto
qed simp

definition tracker_waits :: "state \<Rightarrow> string goset \<Rightarrow> issue \<Rightarrow> (string \<times> string) set" where
  "tracker_waits s N i = {(b, c). c = is_Identifier i \<and> mhas N c \<and> mhas N b \<and> b \<noteq> []
     \<and> (\<exists>bl \<in> set (is_BlockedBy i). \<not> blockerResolvedForDispatch bl s \<and> br_Identifier bl = Some b)}"

definition inferred_waits :: "string goset \<Rightarrow> string \<times> inferred_dep_entry list \<Rightarrow> (string \<times> string) set" where
  "inferred_waits N te = {(b, c). c = fst te \<and> mhas N c \<and> mhas N b \<and> b \<noteq> [] \<and> (\<exists>e \<in> set (snd te). id_Gating e \<and> id_Source e = b)}"

lemma tracker_edges_add:
  assumes free: "arrow_free N" and inv: "graph_inv N g"
  shows "graph_inv N (tracker_edges s g i) \<and> out_edges (tracker_edges s g i) = out_edges g \<union> tracker_waits s N i"
proof (cases "mhas N (is_Identifier i)")
  case False
  moreover have "tg_Nodes g = N" using inv by (simp add: graph_inv_def)
  ultimately show ?thesis using inv by (auto simp: tracker_edges_def tracker_waits_def)
next
  case True
  let ?f = "\<lambda>g blocker. if blockerResolvedForDispatch blocker s then g
       else case br_Identifier blocker of None \<Rightarrow> g
            | Some b \<Rightarrow> if b = [] \<or> \<not> mhas (tg_Nodes g) b then g else add_edge b (is_Identifier i) edgeKindTracker g"
  let ?A = "\<lambda>bl. {(b, c). c = is_Identifier i \<and> mhas N b \<and> b \<noteq> [] \<and> \<not> blockerResolvedForDispatch bl s \<and> br_Identifier bl = Some b}"
  have "graph_inv N (?f g bl) \<and> out_edges (?f g bl) = out_edges g \<union> ?A bl" if "graph_inv N g" for g bl
  proof -
    have "tg_Nodes g = N" using that by (simp add: graph_inv_def)
    then show ?thesis using that add_edge_inv [OF that free _ True] by (auto split: option.splits)
  qed
  from foldl_edges [of "is_BlockedBy i" N ?f ?A, OF this inv] have "graph_inv N (foldl ?f g (is_BlockedBy i))
    \<and> out_edges (foldl ?f g (is_BlockedBy i)) = out_edges g \<union> (\<Union>bl \<in> set (is_BlockedBy i). ?A bl)" by blast
  moreover have "tracker_edges s g i = foldl ?f g (is_BlockedBy i)"
    using True inv unfolding tracker_edges_def graph_inv_def by simp
  moreover have "(\<Union>bl \<in> set (is_BlockedBy i). ?A bl) = tracker_waits s N i" using True by (auto simp: tracker_waits_def)
  ultimately show ?thesis by simp
qed

lemma inferred_edges_add:
  assumes free: "arrow_free N" and inv: "graph_inv N g"
  shows "graph_inv N (inferred_edges g te) \<and> out_edges (inferred_edges g te) = out_edges g \<union> inferred_waits N te"
proof (cases "mhas N (fst te)")
  case False
  moreover have "tg_Nodes g = N" using inv by (simp add: graph_inv_def)
  ultimately show ?thesis using inv by (cases te) (auto simp: inferred_edges_def inferred_waits_def)
next
  case True
  let ?f = "\<lambda>g entry. if \<not> id_Gating entry \<or> id_Source entry = [] then g else if \<not> mhas (tg_Nodes g) (id_Source entry) then g
       else add_edge (id_Source entry) (fst te) edgeKindInferred g"
  let ?A = "\<lambda>e. {(b, c). c = fst te \<and> mhas N b \<and> b \<noteq> [] \<and> id_Gating e \<and> id_Source e = b}"
  have "graph_inv N (?f g e) \<and> out_edges (?f g e) = out_edges g \<union> ?A e" if "graph_inv N g" for g e
  proof -
    have "tg_Nodes g = N" using that by (simp add: graph_inv_def)
    then show ?thesis using that add_edge_inv [OF that free _ True] by auto
  qed
  from foldl_edges [of "snd te" N ?f ?A, OF this inv] have "graph_inv N (foldl ?f g (snd te))
    \<and> out_edges (foldl ?f g (snd te)) = out_edges g \<union> (\<Union>e \<in> set (snd te). ?A e)" by blast
  moreover have "inferred_edges g te = foldl ?f g (snd te)"
    using True inv unfolding inferred_edges_def graph_inv_def by (simp add: case_prod_unfold)
  moreover have "(\<Union>e \<in> set (snd te). ?A e) = inferred_waits N te" using True by (auto simp: inferred_waits_def)
  ultimately show ?thesis by simp
qed

text \<open>Which issue of a tick waits on which, read off the candidates and the inferred entries.\<close>

definition is_candidate :: "issue list \<Rightarrow> string \<Rightarrow> bool" where
  "is_candidate candidates u \<longleftrightarrow> u \<noteq> [] \<and> (\<exists>i \<in> set candidates. is_Identifier i = u)"

definition waits_on :: "issue list \<Rightarrow> (string, inferred_dep_entry list) gomap \<Rightarrow> state \<Rightarrow> string \<Rightarrow> string \<Rightarrow> bool" where
  "waits_on candidates inferred s c b \<longleftrightarrow>
     (\<exists>i \<in> set candidates. is_Identifier i = c \<and> (\<exists>bl \<in> set (is_BlockedBy i). \<not> blockerResolvedForDispatch bl s \<and> br_Identifier bl = Some b))
     \<or> (\<exists>es. (c, es) \<in> set inferred \<and> (\<exists>e \<in> set es. id_Gating e \<and> id_Source e = b))"

lemma candidate_nodes:
  defines "N \<equiv> \<lambda>candidates. foldl (\<lambda>ns c. if is_Identifier c = [] then ns else mput ns (is_Identifier c) ()) []  candidates"
  shows "mhas (N candidates) u \<longleftrightarrow> is_candidate candidates u" and "mwf (N candidates)"
proof -
  have "mhas (foldl (\<lambda>ns c. if is_Identifier c = [] then ns else mput ns (is_Identifier c) ()) ns candidates) u
      \<longleftrightarrow> mhas ns u \<or> is_candidate candidates u" for ns
    by (induction candidates arbitrary: ns) (auto simp: is_candidate_def)
  then show "mhas (N candidates) u \<longleftrightarrow> is_candidate candidates u" by (simp add: N_def)
  have "mwf ns \<Longrightarrow> mwf (foldl (\<lambda>ns c. if is_Identifier c = [] then ns else mput ns (is_Identifier c) ()) ns candidates)" for ns
    by (induction candidates arbitrary: ns) auto
  then show "mwf (N candidates)" by (simp add: N_def)
qed

lemma sorted_out: "mget_or (map (\<lambda>(k, out). (k, sort out)) m) u [] = sort (mget_or m u [])"
  by (induction m) (auto simp: mget_or_def)

lemma graph_nodes: "mhas (tg_Nodes (BuildTickGraph candidates inferred s)) u \<longleftrightarrow> is_candidate candidates u"
    "mwf (tg_Nodes (BuildTickGraph candidates inferred s))"
proof -
  have add: "tg_Nodes (add_edge a b k g) = tg_Nodes g" for a b k g by (simp add: add_edge_def Let_def split: option.splits)
  have keep: "tg_Nodes (foldl f g xs) = tg_Nodes g" if "\<And>g x. tg_Nodes (f g x) = tg_Nodes g" for f :: "tick_graph \<Rightarrow> 'x \<Rightarrow> tick_graph" and g xs
    by (induction xs arbitrary: g) (simp_all add: that)
  have "tg_Nodes (tracker_edges s g i) = tg_Nodes g" for g i
    unfolding tracker_edges_def by (simp add: keep add split: option.splits)
  moreover have "tg_Nodes (inferred_edges g te) = tg_Nodes g" for g te
    unfolding inferred_edges_def by (simp add: keep add split: prod.splits)
  ultimately have "tg_Nodes (BuildTickGraph candidates inferred s)
      = foldl (\<lambda>ns c. if is_Identifier c = [] then ns else mput ns (is_Identifier c) ()) [] candidates"
    by (simp add: BuildTickGraph_def Let_def keep)
  then show "mhas (tg_Nodes (BuildTickGraph candidates inferred s)) u \<longleftrightarrow> is_candidate candidates u"
    "mwf (tg_Nodes (BuildTickGraph candidates inferred s))" using candidate_nodes by simp_all
qed

text \<open>
  The tick graph has exactly the edges that hold dispatch: it is well formed, and it has an edge from a candidate to a candidate
  iff the second waits on the first, by an unresolved blocker of the tracker or by a gating inferred entry. Identifiers without the
  separator character of the edge keys are assumed; the keys of other identifiers can coincide.
\<close>

theorem tick_graph_edges_exact:
  assumes "\<forall>i \<in> set candidates. CHR ''>'' \<notin> set (is_Identifier i)"
  shows "(b, c) \<in> graph_edges (BuildTickGraph candidates inferred s)
    \<longleftrightarrow> is_candidate candidates b \<and> is_candidate candidates c \<and> waits_on candidates inferred s c b"
proof -
  define N where "N = foldl (\<lambda>ns c. if is_Identifier c = [] then ns else mput ns (is_Identifier c) ()) [] candidates"
  let ?g0 = "\<lparr>tg_Nodes = N, tg_Out = [], tg_EdgeKinds = []\<rparr>"
  let ?g1 = "foldl (tracker_edges s) ?g0 candidates"
  let ?g2 = "foldl inferred_edges ?g1 inferred"
  have N: "mhas N u \<longleftrightarrow> is_candidate candidates u" for u unfolding N_def by (rule candidate_nodes)
  have free: "arrow_free N" using assms by (auto simp: arrow_free_def N is_candidate_def)
  have "graph_inv N ?g0" "out_edges ?g0 = {}" by (simp_all add: graph_inv_def out_edges_def)
  then have g1: "graph_inv N ?g1" "out_edges ?g1 = (\<Union>i \<in> set candidates. tracker_waits s N i)"
    using foldl_edges [of candidates N "tracker_edges s" "tracker_waits s N" ?g0] tracker_edges_add [OF free] by simp_all
  then have g2: "out_edges ?g2 = (\<Union>i \<in> set candidates. tracker_waits s N i) \<union> (\<Union>te \<in> set inferred. inferred_waits N te)"
    using foldl_edges [of inferred N inferred_edges "inferred_waits N" ?g1] inferred_edges_add [OF free] by simp
  have "BuildTickGraph candidates inferred s = ?g2\<lparr>tg_Out := map (\<lambda>(k, out). (k, sort out)) (tg_Out ?g2)\<rparr>"
    by (simp add: BuildTickGraph_def Let_def N_def)
  then have "set (mget_or (tg_Out (BuildTickGraph candidates inferred s)) b []) = set (mget_or (tg_Out ?g2) b [])" by (simp add: sorted_out)
  then have "(b, c) \<in> graph_edges (BuildTickGraph candidates inferred s)
      \<longleftrightarrow> is_candidate candidates b \<and> is_candidate candidates c \<and> (b, c) \<in> out_edges ?g2"
    by (simp add: graph_edges_def graph_nodes out_edges_def)
  also have "\<dots> \<longleftrightarrow> is_candidate candidates b \<and> is_candidate candidates c \<and> waits_on candidates inferred s c b"
  proof -
    have "(b, c) \<in> out_edges ?g2 \<longleftrightarrow> waits_on candidates inferred s c b" if "is_candidate candidates b" "is_candidate candidates c"
    proof -
      have "b \<noteq> []" using that(1) by (simp add: is_candidate_def)
      then show ?thesis using that unfolding g2 waits_on_def tracker_waits_def inferred_waits_def N by force
    qed
    then show ?thesis by blast
  qed
  finally show ?thesis .
qed

definition ex_waiting :: "issue list" where
  "ex_waiting = [ex_issue ''ENG-1'', (ex_issue ''ENG-2'')\<lparr>is_BlockedBy := [ex_blocker ''ENG-1'']\<rparr>]"

theorem tick_graph_edges_exact_witness:
  "(''ENG-1'', ''ENG-2'') \<in> graph_edges (BuildTickGraph ex_waiting [] ex_state)"
proof -
  have "\<forall>i \<in> set ex_waiting. CHR ''>'' \<notin> set (is_Identifier i)" by (simp add: ex_waiting_def ex_defs)
  note e = tick_graph_edges_exact [OF this, of "''ENG-1''" "''ENG-2''" "[]" ex_state]
  have "\<not> blockerResolvedForDispatch (ex_blocker ''ENG-1'') ex_state" by code_simp
  moreover have "br_Identifier (ex_blocker ''ENG-1'') = Some ''ENG-1''" by (simp add: ex_defs)
  ultimately show ?thesis unfolding e by (simp add: is_candidate_def waits_on_def ex_waiting_def ex_issue_def)
qed

definition ex_knot :: tick_graph where
  "ex_knot = \<lparr>tg_Nodes = [(''A'', ()), (''B'', ()), (''C'', ())], tg_Out = [(''A'', [''B'']), (''B'', [''A'', ''C''])], tg_EdgeKinds = []\<rparr>"

lemma ex_knot_facts: "mwf (tg_Nodes ex_knot)" "mhas (tg_Nodes ex_knot) ''A''" "(''A'', ''A'') \<in> (graph_edges ex_knot)\<^sup>+"
proof -
  show "mwf (tg_Nodes ex_knot)" "mhas (tg_Nodes ex_knot) ''A''" by (simp_all add: ex_knot_def mwf_def mkeys_def mhas_def)
  have "(''A'', ''B'') \<in> graph_edges ex_knot" "(''B'', ''A'') \<in> graph_edges ex_knot"
    by (simp_all add: graph_edges_def ex_knot_def mhas_def mget_or_def)
  then show "(''A'', ''A'') \<in> (graph_edges ex_knot)\<^sup>+" by (meson trancl.simps)
qed

theorem tick_metrics_exact_witness:
  "\<exists>m cycles. ComputeTickGraphAnalysis ex_knot [] 0 = Some (m, cycles) \<and> mhas (gm_CycleMembers m) ''A''"
  using tick_metrics_exact [OF ex_knot_facts(1), of "[]" 0] ex_knot_facts(2,3) by blast

theorem tick_cycles_exact_witness:
  "\<exists>m cycles. ComputeTickGraphAnalysis ex_knot [] 0 = Some (m, cycles) \<and> (\<exists>cyc \<in> set cycles. ''A'' \<in> set (dc_Members cyc))"
proof -
  obtain m cycles where a: "ComputeTickGraphAnalysis ex_knot [] 0 = Some (m, cycles)"
    using tick.metrics_ok [of ex_knot] ex_knot_facts(1) by (auto simp: analysis_eq sortedNodes_def mwf_def)
  with tick_cycles_exact [OF ex_knot_facts(1) a] ex_knot_facts(3) show ?thesis by blast
qed

end
