(* ===== verification/Dependency_Attention.thy ===== *)
theory Dependency_Attention
  imports Tick_Graph
begin

text \<open>
  The dependency alerts of a tick (\<open>internal/orchestrator/dependency_attention.go\<close>) and the list of the candidates it saw
  (\<open>candidate_seen.go\<close>): members of cycles, and issues that have been blocked for longer than the escalation window. The sorts of
  the code are not stable; the keys of the alerts differ, so that every sort gives the same list.
\<close>

section \<open>Alerts\<close>

definition audit_by_identifier :: "state \<Rightarrow> (string, dependency_audit_entry) gomap" where
  "audit_by_identifier s =
     foldl (\<lambda>m (key, row). mput m (if da_Identifier row = [] then key else da_Identifier row) row) [] (s_DependencyAudit s)"

definition cycle_alert :: "dependency_cycle \<Rightarrow> string \<Rightarrow> dependency_attention_entry" where
  "cycle_alert cyc member =
     \<lparr>at_Identifier = member, at_Blockers = filter (\<lambda>m. m \<noteq> member) (dc_Members cyc), at_BlockedSince = dc_DetectedAt cyc, at_Kind = ''cycle''\<rparr>"

definition cycle_alerts :: "dependency_cycle list \<Rightarrow> (string, dependency_attention_entry) gomap" where
  "cycle_alerts cycles = foldl (\<lambda>m cyc. foldl (\<lambda>m member. mput m member (cycle_alert cyc member)) m (dc_Members cyc)) [] cycles"

definition tracker_blockers :: "dependency_audit_entry option \<Rightarrow> string list" where
  "tracker_blockers row =
     (case row of
        None \<Rightarrow> []
      | Some r \<Rightarrow> concat (map (\<lambda>b. case br_Identifier b of Some i \<Rightarrow> if i = [] then [] else [i] | None \<Rightarrow> []) (da_UnresolvedBlockers r)))"

definition tracker_since :: "dependency_audit_entry option \<Rightarrow> time" where
  "tracker_since row =
     (case row of
        None \<Rightarrow> 0
      | Some r \<Rightarrow> if tracker_blockers row \<noteq> [] \<and> \<not> isZero (da_FirstBlockedAt r) then da_FirstBlockedAt r else 0)"

fun inferred_since :: "inferred_dep_entry list \<Rightarrow> time \<Rightarrow> bool \<Rightarrow> time" where
  "inferred_since [] since have_one = since"
| "inferred_since (e # es) since have_one =
     (if \<not> id_Gating e then inferred_since es since have_one
      else inferred_since es (if \<not> have_one \<or> id_InferredAt e < since then id_InferredAt e else since) True)"

definition inferred_blockers :: "inferred_dep_entry list \<Rightarrow> string list" where
  "inferred_blockers es = map id_Source (filter (\<lambda>e. id_Gating e \<and> id_Source e \<noteq> []) es)"

definition blocked_since :: "time \<Rightarrow> time \<Rightarrow> time" where
  "blocked_since trackerSince inferredSince =
     (if \<not> isZero trackerSince \<and> \<not> isZero inferredSince then (if trackerSince < inferredSince then trackerSince else inferredSince)
      else if \<not> isZero trackerSince then trackerSince
      else if \<not> isZero inferredSince then inferredSince
      else 0)"

definition stale_alert :: "(string, dependency_audit_entry) gomap \<Rightarrow> state \<Rightarrow> duration \<Rightarrow> time \<Rightarrow> string \<Rightarrow> dependency_attention_entry option" where
  "stale_alert audits s window now i =
     (let row = mget audits i; deps = mget_or (s_InferredDeps s) i [];
          blockers = tracker_blockers row @ inferred_blockers deps;
          since = blocked_since (tracker_since row) (inferred_since deps 0 False)
      in if blockers = [] \<or> isZero since \<or> time_sub now since \<le> window then None
         else Some \<lparr>at_Identifier = i, at_Blockers = sort (remdups blockers), at_BlockedSince = since, at_Kind = ''stale_blocker''\<rparr>)"

definition add_stale :: "(string \<Rightarrow> dependency_attention_entry option) \<Rightarrow> (string, dependency_attention_entry) gomap \<Rightarrow> string \<Rightarrow> (string, dependency_attention_entry) gomap" where
  "add_stale alert m i =
     (if mhas m i then m else case alert i of None \<Rightarrow> m | Some e \<Rightarrow> mput m i e)"

definition DeriveDependencyAttention ::
  "tick_graph \<Rightarrow> dependency_cycle list \<Rightarrow> state \<Rightarrow> config \<Rightarrow> time \<Rightarrow> dependency_attention_entry list" where
  "DeriveDependencyAttention g cycles s cfg now =
     (let windowHours = dp_EscalateBlockedAfterHours (cf_Dependencies cfg);
          window = wrap64 (windowHours * hour);
          audits = audit_by_identifier s;
          byIdentifier = cycle_alerts cycles;
          all = (if windowHours > 0 then foldl (add_stale (stale_alert audits s window now)) byIdentifier (mkeys (tg_Nodes g)) else byIdentifier)
      in stable_sort (\<lambda>a b. at_Identifier a < at_Identifier b) (map snd all))"

definition candidateSeenRows :: "issue list \<Rightarrow> candidate_seen_row list" where
  "candidateSeenRows issues =
     stable_sort (\<lambda>a b. cr_Identifier a < cr_Identifier b)
       (map (\<lambda>i. \<lparr>cr_Identifier = is_Identifier i, cr_UpdatedAt = (case is_UpdatedAt i of Some t \<Rightarrow> t | None \<Rightarrow> 0)\<rparr>)
         (filter (\<lambda>i. is_Identifier i \<noteq> []) issues))"

interpretation attention_order: strict_weak_order "\<lambda>a b. at_Identifier a < at_Identifier b"
  by unfold_locales auto

section \<open>The alerts as a map\<close>

definition keyed :: "(string, dependency_attention_entry) gomap \<Rightarrow> bool" where
  "keyed m \<longleftrightarrow> mwf m \<and> (\<forall>k e. mget m k = Some e \<longrightarrow> at_Identifier e = k)"

lemma keyed_put: "keyed m \<Longrightarrow> at_Identifier e = k \<Longrightarrow> keyed (mput m k e)"
  by (auto simp: keyed_def)

lemma keyed_rows:
  assumes "keyed m"
  shows "e \<in> set (map snd m) \<longleftrightarrow> mget m (at_Identifier e) = Some e" and "distinct (map at_Identifier (map snd m))"
proof -
  have k: "at_Identifier v = k" if "(k, v) \<in> set m" for k v
    using assms that by (simp add: keyed_def mwf_def mkeys_def)
  show "e \<in> set (map snd m) \<longleftrightarrow> mget m (at_Identifier e) = Some e"
  proof
    assume "e \<in> set (map snd m)"
    then obtain i where i: "(i, e) \<in> set m" by auto
    then have "mget m i = Some e" using assms by (simp add: keyed_def mwf_def mkeys_def)
    then show "mget m (at_Identifier e) = Some e" using k [OF i] by simp
  next
    assume "mget m (at_Identifier e) = Some e"
    then show "e \<in> set (map snd m)" by (force dest: map_of_SomeD)
  qed
  have "map at_Identifier (map snd m) = mkeys m" using k by (auto simp: mkeys_def)
  then show "distinct (map at_Identifier (map snd m))" using assms by (simp add: keyed_def mwf_def)
qed

lemma alert_members:
  "keyed m \<Longrightarrow> keyed (foldl (\<lambda>m member. mput m member (cycle_alert cyc member)) m ms)"
  "mget (foldl (\<lambda>m member. mput m member (cycle_alert cyc member)) m ms) k = (if k \<in> set ms then Some (cycle_alert cyc k) else mget m k)"
  by (induction ms arbitrary: m) (auto simp: keyed_put cycle_alert_def)

lemma cycle_alerts_map:
  "keyed (cycle_alerts cycles)"
  "(mget (cycle_alerts cycles) k = None \<longleftrightarrow> (\<forall>c \<in> set cycles. k \<notin> set (dc_Members c))) \<and>
   (\<forall>e. mget (cycle_alerts cycles) k = Some e \<longrightarrow> (\<exists>c \<in> set cycles. k \<in> set (dc_Members c) \<and> e = cycle_alert c k))"
proof -
  let ?f = "\<lambda>m cyc. foldl (\<lambda>m member. mput m member (cycle_alert cyc member)) m (dc_Members cyc)"
  show "keyed (cycle_alerts cycles)"
    unfolding cycle_alerts_def by (induction cycles rule: rev_induct) (simp_all add: alert_members(1), simp add: keyed_def mwf_def mkeys_def)
  show "(mget (cycle_alerts cycles) k = None \<longleftrightarrow> (\<forall>c \<in> set cycles. k \<notin> set (dc_Members c))) \<and>
   (\<forall>e. mget (cycle_alerts cycles) k = Some e \<longrightarrow> (\<exists>c \<in> set cycles. k \<in> set (dc_Members c) \<and> e = cycle_alert c k))"
    unfolding cycle_alerts_def by (induction cycles rule: rev_induct) (auto simp: alert_members(2) split: if_splits)
qed

lemma stale_alert_id: "stale_alert audits s w now i = Some e \<Longrightarrow> at_Identifier e = i"
  by (auto simp: stale_alert_def Let_def split: if_splits)

lemma stale_fold:
  assumes "keyed m" and "\<And>i e. alert i = Some e \<Longrightarrow> at_Identifier e = i"
  shows "keyed (foldl (add_stale alert) m ids)"
    and "mget (foldl (add_stale alert) m ids) k = (case mget m k of Some e \<Rightarrow> Some e | None \<Rightarrow> if k \<in> set ids then alert k else None)"
proof -
  have k: "keyed (add_stale alert m i)" if "keyed m" for m i
    using that assms(2) by (auto simp: add_stale_def intro: keyed_put split: option.split)
  show "keyed (foldl (add_stale alert) m ids)" using assms(1) k by (induction ids arbitrary: m) simp_all
  show "mget (foldl (add_stale alert) m ids) k = (case mget m k of Some e \<Rightarrow> Some e | None \<Rightarrow> if k \<in> set ids then alert k else None)"
    by (induction ids arbitrary: m) (auto simp: add_stale_def mhas_def split: option.splits)
qed

section \<open>The alerts are exact\<close>

definition in_cycle :: "dependency_cycle list \<Rightarrow> string \<Rightarrow> bool" where
  "in_cycle cycles i \<longleftrightarrow> (\<exists>c \<in> set cycles. i \<in> set (dc_Members c))"

definition gating_deps :: "state \<Rightarrow> string \<Rightarrow> inferred_dep_entry set" where
  "gating_deps s i = {e \<in> set (mget_or (s_InferredDeps s) i []). id_Gating e}"

definition named_blockers :: "state \<Rightarrow> string \<Rightarrow> string set" where
  "named_blockers s i =
     {b. b \<noteq> [] \<and> (\<exists>row bl. mget (audit_by_identifier s) i = Some row \<and> bl \<in> set (da_UnresolvedBlockers row) \<and> br_Identifier bl = Some b)}"

text \<open>The issues that hold an issue up, and the moments since when they are known to.\<close>

definition held_up_by :: "state \<Rightarrow> string \<Rightarrow> string set" where
  "held_up_by s i = named_blockers s i \<union> (id_Source ` gating_deps s i - {[]})"

definition waiting_times :: "state \<Rightarrow> string \<Rightarrow> time set" where
  "waiting_times s i =
     {da_FirstBlockedAt row | row. mget (audit_by_identifier s) i = Some row \<and> named_blockers s i \<noteq> {}} \<union>
     {Min (id_InferredAt ` gating_deps s i) | e. e \<in> gating_deps s i} - {0}"

lemma set_tracker_blockers: "set (tracker_blockers (mget (audit_by_identifier s) i)) = named_blockers s i"
  by (auto simp: tracker_blockers_def named_blockers_def split: option.splits if_splits) force+

lemma set_inferred_blockers: "set (inferred_blockers (mget_or (s_InferredDeps s) i [])) = id_Source ` gating_deps s i - {[]}"
  by (auto simp: inferred_blockers_def gating_deps_def)

lemma Min_either: "finite X \<Longrightarrow> Min (insert (if a < t then a else t) X) = Min (insert t (insert (a::time) X))"
  by (cases "X = {}") (auto simp del: Min_insert2 simp: Min_insert min_def)

lemma inferred_since_from: "inferred_since es t True = Min (insert t (id_InferredAt ` {e \<in> set es. id_Gating e}))"
proof (induction es arbitrary: t)
  case (Cons e es)
  have g: "id_InferredAt ` {x \<in> set (e # es). id_Gating x} = (if id_Gating e then {id_InferredAt e} else {}) \<union> id_InferredAt ` {x \<in> set es. id_Gating x}"
    by auto
  show ?case
    unfolding g using Cons.IH Min_either [of "id_InferredAt ` {x \<in> set es. id_Gating x}" "id_InferredAt e" t] by simp
qed simp

lemma inferred_since_min:
  "inferred_since es 0 False = (if {e \<in> set es. id_Gating e} = {} then 0 else Min (id_InferredAt ` {e \<in> set es. id_Gating e}))"
proof (induction es)
  case (Cons e es)
  have "id_InferredAt ` {x \<in> set (e # es). id_Gating x} = insert (id_InferredAt e) (id_InferredAt ` {x \<in> set es. id_Gating x})" if "id_Gating e"
    using that by auto
  moreover have "{x \<in> set (e # es). id_Gating x} = {x \<in> set es. id_Gating x}" if "\<not> id_Gating e" using that by auto
  ultimately show ?case using Cons.IH by (cases "id_Gating e") (auto simp: inferred_since_from)
qed simp

lemma since_min:
  "blocked_since (tracker_since (mget (audit_by_identifier s) i)) (inferred_since (mget_or (s_InferredDeps s) i []) 0 False) =
     (if waiting_times s i = {} then 0 else Min (waiting_times s i))"
proof -
  let ?row = "mget (audit_by_identifier s) i" and ?deps = "mget_or (s_InferredDeps s) i []"
  have nb: "tracker_blockers ?row \<noteq> [] \<longleftrightarrow> named_blockers s i \<noteq> {}"
    using set_tracker_blockers [of s i] by (metis set_empty)
  have t: "{da_FirstBlockedAt row | row. ?row = Some row \<and> named_blockers s i \<noteq> {}} - {0} =
      (if tracker_since ?row = 0 then {} else {tracker_since ?row})"
    using nb by (cases ?row) (auto simp: tracker_since_def isZero_def)
  have "inferred_since ?deps 0 False = (if gating_deps s i = {} then 0 else Min (id_InferredAt ` gating_deps s i))"
    unfolding gating_deps_def by (rule inferred_since_min)
  then have u: "{Min (id_InferredAt ` gating_deps s i) | e. e \<in> gating_deps s i} - {0} =
      (if inferred_since ?deps 0 False = 0 then {} else {inferred_since ?deps 0 False})" by auto
  have w: "waiting_times s i = (if tracker_since ?row = 0 then {} else {tracker_since ?row}) \<union>
      (if inferred_since ?deps 0 False = 0 then {} else {inferred_since ?deps 0 False})"
    unfolding waiting_times_def t [symmetric] u [symmetric] by blast
  show ?thesis unfolding w by (auto simp: blocked_since_def isZero_def)
qed

lemma stale_alert_iff:
  "stale_alert (audit_by_identifier s) s w now i = Some e \<longleftrightarrow>
     held_up_by s i \<noteq> {} \<and> waiting_times s i \<noteq> {} \<and> w < time_sub now (Min (waiting_times s i)) \<and>
     e = \<lparr>at_Identifier = i, at_Blockers = sorted_list_of_set (held_up_by s i), at_BlockedSince = Min (waiting_times s i), at_Kind = ''stale_blocker''\<rparr>"
proof -
  let ?bs = "tracker_blockers (mget (audit_by_identifier s) i) @ inferred_blockers (mget_or (s_InferredDeps s) i [])"
  have b: "set ?bs = held_up_by s i" by (simp add: set_tracker_blockers set_inferred_blockers held_up_by_def)
  have l: "sort (remdups ?bs) = sorted_list_of_set (held_up_by s i)" using sorted_list_of_set_sort_remdups [of ?bs] unfolding b ..
  have e: "?bs = [] \<longleftrightarrow> held_up_by s i = {}" using b by (metis set_empty)
  have "finite (waiting_times s i)" by (cases "mget (audit_by_identifier s) i") (simp_all add: waiting_times_def gating_deps_def)
  moreover have "0 \<notin> waiting_times s i" by (simp add: waiting_times_def)
  ultimately have z: "waiting_times s i \<noteq> {} \<Longrightarrow> Min (waiting_times s i) \<noteq> 0" using Min_in by metis
  show ?thesis
    unfolding stale_alert_def Let_def e l since_min using z by (auto simp: isZero_def)
qed

definition alert_map :: "tick_graph \<Rightarrow> dependency_cycle list \<Rightarrow> state \<Rightarrow> int \<Rightarrow> time \<Rightarrow> (string, dependency_attention_entry) gomap" where
  "alert_map g cycles s hours now =
     (if hours > 0 then foldl (add_stale (stale_alert (audit_by_identifier s) s (wrap64 (hours * hour)) now)) (cycle_alerts cycles) (mkeys (tg_Nodes g))
      else cycle_alerts cycles)"

lemma alert_map_keyed: "keyed (alert_map g cycles s hours now)"
  using stale_fold(1) [OF cycle_alerts_map(1) stale_alert_id] cycle_alerts_map(1) by (simp add: alert_map_def)

lemma alert_map_get:
  "mget (alert_map g cycles s hours now) k = (case mget (cycle_alerts cycles) k of Some e \<Rightarrow> Some e
     | None \<Rightarrow> if hours > 0 \<and> mhas (tg_Nodes g) k then stale_alert (audit_by_identifier s) s (wrap64 (hours * hour)) now k else None)"
  using stale_fold(2) [where alert = "stale_alert (audit_by_identifier s) s (wrap64 (hours * hour)) now" and m = "cycle_alerts cycles"
      and ids = "mkeys (tg_Nodes g)" and k = k, OF cycle_alerts_map(1) stale_alert_id]
  by (auto simp: alert_map_def mhas_iff_keys split: option.split)

lemma attention_alerts:
  assumes "out = DeriveDependencyAttention g cycles s cfg now" and "hours = dp_EscalateBlockedAfterHours (cf_Dependencies cfg)"
  shows "e \<in> set out \<and> at_Identifier e = i \<longleftrightarrow> mget (alert_map g cycles s hours now) i = Some e"
    and "sorted_wrt (<) (map at_Identifier out)"
proof -
  define m where "m = alert_map g cycles s hours now"
  have keyed: "keyed m" by (simp add: m_def alert_map_keyed)
  have out: "out = stable_sort (\<lambda>a b. at_Identifier a < at_Identifier b) (map snd m)"
    by (simp add: assms m_def alert_map_def DeriveDependencyAttention_def Let_def)
  show "e \<in> set out \<and> at_Identifier e = i \<longleftrightarrow> mget (alert_map g cycles s hours now) i = Some e"
    using keyed_rows(1) [OF keyed, of e] keyed by (auto simp: keyed_def out m_def)
  have "sorted_wrt (\<lambda>a b. \<not> at_Identifier b < at_Identifier a) out" unfolding out by (rule attention_order.sorted_stable_sort)
  then have "sorted (map at_Identifier out)" by (simp add: sorted_map not_less)
  moreover have "distinct (map at_Identifier out)"
    using keyed_rows(2) [OF keyed] by (metis distinct_map map_map out set_stable_sort distinct_stable_sort)
  ultimately show "sorted_wrt (<) (map at_Identifier out)" by (simp add: strict_sorted_iff)
qed

lemma cycle_alert_kind:
  "mget (cycle_alerts cycles) k = None \<longleftrightarrow> \<not> in_cycle cycles k"
  "mget (cycle_alerts cycles) k = Some e \<Longrightarrow> at_Kind e = ''cycle''"
  using cycle_alerts_map(2) [of cycles k] by (auto simp: in_cycle_def cycle_alert_def)

lemma stale_alert_set:
  "{e. 0 < hours \<and> node \<and> stale_alert (audit_by_identifier s) s w now i = Some e} =
     (if 0 < hours \<and> node \<and> held_up_by s i \<noteq> {} \<and> waiting_times s i \<noteq> {} \<and> w < time_sub now (Min (waiting_times s i))
      then {\<lparr>at_Identifier = i, at_Blockers = sorted_list_of_set (held_up_by s i), at_BlockedSince = Min (waiting_times s i), at_Kind = ''stale_blocker''\<rparr>}
      else {})"
  unfolding stale_alert_iff by auto


end
