(* ===== verification/Outbox_Flusher.thy ===== *)
theory Outbox_Flusher
  imports Outbox Managed_Comments
begin

text \<open>
  The goroutine that delivers the outbox to the tracker (\<open>cmd/itervox/outbox_flusher.go\<close>): one tick
  over the due entries, the delivery of one entry, the key lookup before a comment is posted again,
  and the batch reconciliation of issues that left the active states.

  The tracker is the interface \<open>tracker.Tracker\<close> with its optional \<open>IdempotentCommenter\<close>, a record
  of functions over an arbitrary tracker state \<open>'w\<close>; the rate-limit gate is a predicate on it.
  Refresh signals and failure records sent to the orchestrator are returned as effects.
\<close>

section \<open>Definitions\<close>

record 'w tracker_api =
  ta_UpdateIssueState :: "'w \<Rightarrow> string \<Rightarrow> string \<Rightarrow> 'w \<times> flush_error option"
  ta_CreateComment :: "'w \<Rightarrow> string \<Rightarrow> string \<Rightarrow> 'w \<times> flush_error option"
  ta_Idempotent :: bool
  ta_CreateCommentWithKey :: "'w \<Rightarrow> string \<Rightarrow> string \<Rightarrow> string \<Rightarrow> 'w \<times> flush_error option"
  ta_FindCommentByKey :: "'w \<Rightarrow> string \<Rightarrow> string \<Rightarrow> 'w \<times> (flush_error + bool)"
  ta_FetchIssueStatesByIDs :: "'w \<Rightarrow> string list \<Rightarrow> 'w \<times> issue list option"

datatype delivery = Delivered | AlreadyDelivered | DeliveryFailed flush_error

definition wrap_lookup_error :: "flush_error \<Rightarrow> flush_error" where
  "wrap_lookup_error err =
     (case err of
        RateLimitedError reset msg \<Rightarrow> RateLimitedError reset msg
      | OtherError msg \<Rightarrow> OtherError (''outbox flusher: comment lookup failed, deferring: '' @ msg))"

definition delivery_of :: "flush_error option \<Rightarrow> delivery" where
  "delivery_of r = (case r of None \<Rightarrow> Delivered | Some err \<Rightarrow> DeliveryFailed err)"

definition deliverComment :: "'w tracker_api \<Rightarrow> 'w \<Rightarrow> outbox_entry \<Rightarrow> 'w \<times> delivery" where
  "deliverComment tr w e =
     (if \<not> ta_Idempotent tr \<or> oe_CommentKey e = []
      then (case ta_CreateComment tr w (oe_IssueID e) (oe_Body e) of (w', r) \<Rightarrow> (w', delivery_of r))
      else let post = (\<lambda>w. case ta_CreateCommentWithKey tr w (oe_IssueID e) (oe_CommentKey e) (oe_Body e) of
                 (w', r) \<Rightarrow> (w', delivery_of r))
           in if 0 < oe_Attempts e + oe_RateLimitedAttempts e
              then (case ta_FindCommentByKey tr w (oe_IssueID e) (oe_CommentKey e) of
                      (w', Inl err) \<Rightarrow> (w', DeliveryFailed (wrap_lookup_error err))
                    | (w', Inr True) \<Rightarrow> (w', AlreadyDelivered)
                    | (w', Inr False) \<Rightarrow> post w')
              else post w)"

datatype flusher_effect = Refresh | RecordFailure string string string time

definition error_text :: "flush_error \<Rightarrow> string" where
  "error_text err = (case err of RateLimitedError reset msg \<Rightarrow> msg | OtherError msg \<Rightarrow> msg)"

definition deliver_entry :: "'w tracker_api \<Rightarrow> 'w \<Rightarrow> outbox_entry \<Rightarrow> 'w \<times> delivery" where
  "deliver_entry tr w e =
     (if oe_Kind e = KindUpdateState
      then (case ta_UpdateIssueState tr w (oe_IssueID e) (oe_TargetState e) of (w', r) \<Rightarrow> (w', delivery_of r))
      else if oe_Kind e = KindCreateComment then deliverComment tr w e
      else (w, DeliveryFailed (OtherError (''outbox flusher: entry has unknown kind '' @ oe_Kind e @ '', cannot deliver''))))"

definition flushOutboxEntry ::
  "'w tracker_api \<Rightarrow> duration \<Rightarrow> string option \<Rightarrow> 'w \<times> outbox \<Rightarrow> outbox_entry \<Rightarrow> time \<Rightarrow> ('w \<times> outbox) \<times> flusher_effect list" where
  "flushOutboxEntry tr jitter write st e now =
     (case deliver_entry tr (fst st) e of
        (w', DeliveryFailed err) \<Rightarrow>
          ((w', MarkFailed jitter write (snd st) (oe_ID e) err now),
           (case err of
              RateLimitedError reset msg \<Rightarrow> []
            | OtherError msg \<Rightarrow> [RecordFailure (oe_Identifier e) (oe_Kind e)
                (''outbox '' @ oe_Kind e @ '' delivery failed, will retry: '' @ error_text err) now]))
      | (w', _) \<Rightarrow>
          ((w', MarkFlushed write (snd st) (oe_ID e)), if oe_Kind e = KindUpdateState then [Refresh] else []))"

fun tick_loop ::
  "'w tracker_api \<Rightarrow> ('w \<Rightarrow> bool) \<Rightarrow> (string \<Rightarrow> duration) \<Rightarrow> (string \<Rightarrow> string option) \<Rightarrow> time \<Rightarrow>
    outbox_entry list \<Rightarrow> 'w \<times> outbox \<Rightarrow> ('w \<times> outbox) \<times> flusher_effect list" where
  "tick_loop tr gate_open jitters writes now [] st = (st, [])"
| "tick_loop tr gate_open jitters writes now (e # es) st =
     (if gate_open (fst st) then (st, [])
      else let (st', effs) = flushOutboxEntry tr (jitters (oe_ID e)) (writes (oe_ID e)) st e now;
               (st'', effs') = tick_loop tr gate_open jitters writes now es st'
           in (st'', effs @ effs'))"

definition runOutboxFlusherTickGated ::
  "'w tracker_api \<Rightarrow> ('w \<Rightarrow> bool) \<Rightarrow> (string \<Rightarrow> duration) \<Rightarrow> (string \<Rightarrow> string option) \<Rightarrow> time \<Rightarrow>
    'w \<times> outbox \<Rightarrow> ('w \<times> outbox) \<times> flusher_effect list" where
  "runOutboxFlusherTickGated tr gate_open jitters writes now st =
     tick_loop tr gate_open jitters writes now (Due (snd st) now) st"

subsection \<open>Issues that left the active states\<close>

fun first_seen :: "'a list \<Rightarrow> 'a list \<Rightarrow> 'a list" where
  "first_seen seen [] = []"
| "first_seen seen (x # xs) = (if x \<in> set seen then first_seen seen xs else x # first_seen (x # seen) xs)"

definition pendingUpdateStateIssueIDs :: "outbox \<Rightarrow> string list" where
  "pendingUpdateStateIssueIDs ob =
     first_seen [] (map oe_IssueID (filter (\<lambda>e. oe_Kind e = KindUpdateState) (ob_entries ob)))"

definition absent_entry ::
  "(string \<Rightarrow> string option) \<Rightarrow> issue list \<Rightarrow> outbox \<Rightarrow> outbox_entry \<Rightarrow> outbox" where
  "absent_entry writes issues ob e =
     (if oe_Kind e \<noteq> KindUpdateState then ob
      else case List.find (\<lambda>i. is_ID i = oe_IssueID e) (rev issues) of
        None \<Rightarrow> ob
      | Some issue \<Rightarrow>
          if fst (ReconcileVerdict e (is_State issue) (is_UpdatedAt issue)) then Drop (writes (oe_ID e)) ob (oe_ID e)
          else ob)"

definition runAbsentIssueReconcileTick ::
  "'w tracker_api \<Rightarrow> (string \<Rightarrow> string option) \<Rightarrow> 'w \<times> outbox \<Rightarrow> 'w \<times> outbox" where
  "runAbsentIssueReconcileTick tr writes st =
     (let ids = pendingUpdateStateIssueIDs (snd st)
      in if ids = [] then st
         else case ta_FetchIssueStatesByIDs tr (fst st) ids of
           (w', None) \<Rightarrow> (w', snd st)
         | (w', Some issues) \<Rightarrow> (w', foldl (absent_entry writes issues) (snd st) (ob_entries (snd st))))"

definition absentReconcileInterval :: duration where
  "absentReconcileInterval = 60 * second"

record absent_issue_reconciler =
  ai_lastRun :: time
  ai_running :: bool

definition tryRun :: "absent_issue_reconciler \<Rightarrow> time \<Rightarrow> absent_issue_reconciler \<times> bool" where
  "tryRun r now =
     (if ai_running r then (r, False)
      else if \<not> isZero (ai_lastRun r) \<and> time_sub now (ai_lastRun r) < absentReconcileInterval then (r, False)
      else (r\<lparr>ai_running := True, ai_lastRun := now\<rparr>, True))"

definition finish :: "absent_issue_reconciler \<Rightarrow> absent_issue_reconciler" where
  "finish r = r\<lparr>ai_running := False\<rparr>"

section \<open>Steps\<close>

text \<open>
  The flusher interleaved with the rest of the daemon: it takes the due list at the start of a tick,
  delivers it entry by entry and may stop at an open gate; in between, any goroutine may enqueue,
  drop or retry. Fresh entries do not reuse an ID nor mention the key \<open>k\<close> that is followed.
\<close>

definition foreign :: "string \<Rightarrow> outbox_entry \<Rightarrow> bool" where
  "foreign k e \<longleftrightarrow> (oe_Kind e = KindCreateComment \<longrightarrow>
     key_ok (oe_CommentKey e) \<and> oe_CommentKey e \<noteq> k \<and> \<not> CommentHasKey (oe_Body e) k)"

type_synonym 'w flusher = "'w \<times> outbox \<times> outbox_entry list"

inductive flusher_step :: "'w tracker_api \<Rightarrow> string \<Rightarrow> 'w flusher \<Rightarrow> 'w flusher \<Rightarrow> bool" for tr k where
  start: "flusher_step tr k (w, ob, []) (w, ob, Due ob now)"
| flush: "flushOutboxEntry tr j wr (w, ob) e now = ((w', ob'), effs) \<Longrightarrow> flusher_step tr k (w, ob, e # todo) (w', ob', todo)"
| stop: "flusher_step tr k (w, ob, todo) (w, ob, [])"
| enqueue: "Enqueue newID newKey wr now ob e = (ob', r) \<Longrightarrow> newID \<notin> set (map oe_ID (ob_entries ob @ todo)) \<Longrightarrow>
    \<forall>e' \<in> set (ob_entries ob'). oe_ID e' = newID \<longrightarrow> foreign k e' \<Longrightarrow> flusher_step tr k (w, ob, todo) (w, ob', todo)"
| drop: "flusher_step tr k (w, ob, todo) (w, Drop wr ob x, todo)"
| retry: "flusher_step tr k (w, ob, todo) (w, fst (RetryNow wr now ob x), todo)"

inductive_cases flusher_stepE: "flusher_step tr k s s'"

text \<open>A tick of the code is a sequence of these steps.\<close>

lemma tick_loop_steps:
  assumes "tick_loop tr gate_open jitters writes now es (w, ob) = ((w', ob'), effs)"
  shows "(flusher_step tr k)\<^sup>*\<^sup>* (w, ob, es) (w', ob', [])"
  using assms
proof (induction es arbitrary: w ob effs)
  case Nil
  then show ?case by simp
next
  case (Cons e es)
  show ?case
  proof (cases "gate_open w")
    case True
    then have "w' = w" "ob' = ob" using Cons.prems by simp_all
    then show ?thesis by (metis flusher_step.stop r_into_rtranclp)
  next
    case False
    obtain w1 ob1 effs1 where f: "flushOutboxEntry tr (jitters (oe_ID e)) (writes (oe_ID e)) (w, ob) e now = ((w1, ob1), effs1)"
      by (metis surj_pair)
    obtain st2 effs2 where r: "tick_loop tr gate_open jitters writes now es (w1, ob1) = (st2, effs2)" by fastforce
    then have "st2 = (w', ob')" using Cons.prems False f by simp
    with r have "(flusher_step tr k)\<^sup>*\<^sup>* (w1, ob1, es) (w', ob', [])" using Cons.IH by blast
    with flusher_step.flush [OF f, of k es] show ?thesis by (rule converse_rtranclp_into_rtranclp)
  qed
qed

lemma tick_steps:
  assumes "runOutboxFlusherTickGated tr gate_open jitters writes now (w, ob) = ((w', ob'), effs)"
  shows "(flusher_step tr k)\<^sup>*\<^sup>* (w, ob, []) (w', ob', [])"
proof -
  have "(flusher_step tr k)\<^sup>*\<^sup>* (w, ob, Due ob now) (w', ob', [])"
    using assms by (intro tick_loop_steps) (simp add: runOutboxFlusherTickGated_def)
  with flusher_step.start [of tr k w ob now] show ?thesis by (rule converse_rtranclp_into_rtranclp)
qed

section \<open>Trackers with idempotent comments\<close>

text \<open>
  The contract of \<open>IdempotentCommenter\<close>: \<open>landed w i k\<close> counts the comments on issue \<open>i\<close> that carry
  key \<open>k\<close>. Creating adds at most one, whether or not the caller learns of it; a lookup never denies
  a comment that is there, though it may fail.
\<close>

locale idempotent_tracker =
  fixes tr :: "'w tracker_api" and landed :: "'w \<Rightarrow> string \<Rightarrow> string \<Rightarrow> nat"
  assumes idempotent: "ta_Idempotent tr"
    and update_keeps: "landed (fst (ta_UpdateIssueState tr w i st)) = landed w"
    and find_keeps: "landed (fst (ta_FindCommentByKey tr w i k)) = landed w"
    and find_complete: "key_ok k \<Longrightarrow> 0 < landed w i k \<Longrightarrow> snd (ta_FindCommentByKey tr w i k) \<noteq> Inr False"
    and create_one: "key_ok k \<Longrightarrow> landed (fst (ta_CreateCommentWithKey tr w i k b)) i k \<le> landed w i k + 1"
    and create_other: "key_ok k \<Longrightarrow> key_ok k' \<Longrightarrow> k' \<noteq> k \<Longrightarrow> \<not> CommentHasKey b k' \<Longrightarrow>
      landed (fst (ta_CreateCommentWithKey tr w i k b)) i' k' = landed w i' k'"
begin

definition tracked :: "string \<Rightarrow> string \<Rightarrow> string \<Rightarrow> outbox_entry \<Rightarrow> bool" where
  "tracked t i k e \<longleftrightarrow> oe_ID e = t \<and> oe_Kind e = KindCreateComment \<and> oe_IssueID e = i \<and> oe_CommentKey e = k"

definition counted :: "'w \<Rightarrow> string \<Rightarrow> string \<Rightarrow> outbox_entry \<Rightarrow> bool" where
  "counted w i k e \<longleftrightarrow> 0 \<le> oe_Attempts e \<and> 0 \<le> oe_RateLimitedAttempts e \<and>
     (0 < landed w i k \<longrightarrow> 0 < oe_Attempts e + oe_RateLimitedAttempts e)"

definition entry_ok :: "'w \<Rightarrow> string \<Rightarrow> string \<Rightarrow> string \<Rightarrow> outbox_entry \<Rightarrow> bool" where
  "entry_ok w t i k e \<longleftrightarrow> tracked t i k e \<and> counted w i k e \<or> foreign k e"

fun flusher_inv :: "string \<Rightarrow> string \<Rightarrow> string \<Rightarrow> 'w flusher \<Rightarrow> bool" where
  "flusher_inv t i k (w, ob, todo) \<longleftrightarrow> distinct (entry_ids ob) \<and> distinct (map oe_ID todo) \<and>
     (\<forall>e \<in> set (ob_entries ob) \<union> set todo. entry_ok w t i k e) \<and> landed w i k \<le> 1"

lemma deliver_foreign:
  assumes "key_ok k" and "foreign k e" and "deliver_entry tr w e = (w', r)"
  shows "landed w' i k = landed w i k"
proof -
  have post: "landed (fst (ta_CreateCommentWithKey tr x (oe_IssueID e) (oe_CommentKey e) (oe_Body e))) i k = landed x i k"
    if "oe_Kind e = KindCreateComment" for x
    using assms(1,2) that by (intro create_other) (auto simp: foreign_def)
  show ?thesis
  proof (cases "oe_Kind e = KindUpdateState")
    case True
    then have "w' = fst (ta_UpdateIssueState tr w (oe_IssueID e) (oe_TargetState e))"
      using assms(3) by (auto simp: deliver_entry_def split: prod.splits)
    then show ?thesis by (simp add: update_keeps)
  next
    case False
    show ?thesis
    proof (cases "oe_Kind e = KindCreateComment")
      case True
      then have "oe_CommentKey e \<noteq> []" using assms(2) by (auto simp: foreign_def key_ok_def)
      moreover obtain w1 f where f: "ta_FindCommentByKey tr w (oe_IssueID e) (oe_CommentKey e) = (w1, f)" by fastforce
      moreover have "landed w1 = landed w" using find_keeps [of w "oe_IssueID e" "oe_CommentKey e"] f by simp
      ultimately show ?thesis
        using assms(3) False True post [OF True, of w] post [OF True, of w1] idempotent
        by (auto simp: deliver_entry_def deliverComment_def Let_def split: if_splits prod.splits sum.splits bool.splits)
    next
      case no_comment: False
      then show ?thesis using assms(3) False by (simp add: deliver_entry_def)
    qed
  qed
qed

lemma deliver_tracked:
  assumes "key_ok k" and "tracked t i k e" and "counted w i k e" and "landed w i k \<le> 1"
    and "deliver_entry tr w e = (w', r)"
  shows "landed w' i k \<le> 1"
proof -
  have e: "oe_Kind e = KindCreateComment" "oe_IssueID e = i" "oe_CommentKey e = k" "k \<noteq> []"
    using assms(1,2) by (auto simp: tracked_def key_ok_def)
  have post: "landed (fst (ta_CreateCommentWithKey tr x i k (oe_Body e))) i k \<le> 1" if "landed x i k = 0" for x
    using create_one [OF assms(1), of x i "oe_Body e"] that by simp
  obtain w1 f where f: "ta_FindCommentByKey tr w i k = (w1, f)" by fastforce
  have same: "landed w1 i k = landed w i k" using find_keeps [of w i k] f by simp
  have eq: "deliver_entry tr w e = deliverComment tr w e"
    using e by (simp add: deliver_entry_def outbox_consts)
  show ?thesis
  proof (cases "0 < oe_Attempts e + oe_RateLimitedAttempts e")
    case True
    have "landed w1 i k = 0" if "f = Inr False"
      using find_complete [OF assms(1), of w i] f that same by fastforce
    then show ?thesis using assms(4,5) True e same post [of w1] idempotent f
      by (auto simp: eq deliverComment_def Let_def split: prod.splits sum.splits bool.splits)
  next
    case False
    then have "landed w i k = 0" using assms(3) by (auto simp: counted_def)
    then show ?thesis using assms(5) False e post [of w] idempotent
      by (auto simp: eq deliverComment_def Let_def split: prod.splits)
  qed
qed

text \<open>After any delivery, the entry the outbox keeps has a recorded attempt.\<close>

lemma failed_counted:
  assumes "0 \<le> oe_Attempts e" and "0 \<le> oe_RateLimitedAttempts e"
  shows "counted w' i k (fail_entry j err now e)"
  using assms by (simp add: counted_def fail_entry_def Let_def split: flush_error.split)

lemma flush_cases:
  assumes "flushOutboxEntry tr j wr (w, ob) e now = ((w', ob'), effs)"
  obtains err where "deliver_entry tr w e = (w', DeliveryFailed err)" "ob' = MarkFailed j wr ob (oe_ID e) err now"
  | r where "deliver_entry tr w e = (w', r)" "ob' = MarkFlushed wr ob (oe_ID e)"
  using assms by (auto simp: flushOutboxEntry_def split: prod.splits delivery.splits)

lemma entry_ok_mono:
  "entry_ok w t i k e \<Longrightarrow> landed w' i k = landed w i k \<Longrightarrow> entry_ok w' t i k e"
  by (auto simp: entry_ok_def counted_def)

lemma flush_preserves:
  assumes "key_ok k" and inv: "flusher_inv t i k (w, ob, e # todo)"
    and f: "flushOutboxEntry tr j wr (w, ob) e now = ((w', ob'), effs)"
  shows "flusher_inv t i k (w', ob', todo)"
proof -
  from inv have d: "distinct (entry_ids ob)" "distinct (map oe_ID todo)" "oe_ID e \<notin> oe_ID ` set todo"
    and ok: "\<And>x. x \<in> set (ob_entries ob) \<union> set todo \<Longrightarrow> entry_ok w t i k x"
    and e: "entry_ok w t i k e" and l: "landed w i k \<le> 1" by auto
  obtain r where del: "deliver_entry tr w e = (w', r)" using f by (rule flush_cases) auto
  have l': "landed w' i k \<le> 1"
    using e deliver_tracked [OF assms(1) _ _ l del] deliver_foreign [OF assms(1) _ del, of i] l
    by (auto simp: entry_ok_def)
  have other: "entry_ok w' t i k x" if "x \<in> set (ob_entries ob) \<union> set todo" "oe_ID x \<noteq> oe_ID e" for x
  proof (cases "tracked t i k e")
    case True
    then show ?thesis using ok [OF that(1)] that(2) by (auto simp: entry_ok_def tracked_def)
  next
    case False
    then have "landed w' i k = landed w i k"
      using e deliver_foreign [OF assms(1) _ del, of i] by (auto simp: entry_ok_def)
    then show ?thesis by (rule entry_ok_mono [OF ok [OF that(1)]])
  qed
  have todo: "\<forall>x \<in> set todo. entry_ok w' t i k x" using other d(3) by (metis UnCI image_eqI)
  from f show ?thesis
  proof (rule flush_cases)
    fix err
    assume "deliver_entry tr w e = (w', DeliveryFailed err)" and ob': "ob' = MarkFailed j wr ob (oe_ID e) err now"
    have ids: "entry_ids ob' = entry_ids ob"
      unfolding entry_ids_def ob' updated_entries(1) [OF d(1)] by (rule map_ids_update) simp
    have "entry_ok w' t i k (fail_entry j err now x)" if "x \<in> set (ob_entries ob)" for x
      using ok [of x] that failed_counted
      by (auto simp: entry_ok_def tracked_def foreign_def counted_def [of w])
    then have "\<forall>x \<in> set (ob_entries ob'). entry_ok w' t i k x"
      unfolding ob' updated_entries(1) [OF d(1)] using other by auto
    then show ?thesis using todo l' d ids by auto
  next
    fix r
    assume ob': "ob' = MarkFlushed wr ob (oe_ID e)"
    have "distinct (entry_ids ob')"
      using d(1) unfolding entry_ids_def ob' removed_entries(1) [OF d(1)] by (rule distinct_map_filter)
    moreover have "\<forall>x \<in> set (ob_entries ob'). entry_ok w' t i k x"
      unfolding ob' removed_entries(1) [OF d(1)] using other by auto
    ultimately show ?thesis using todo l' d by auto
  qed
qed

lemma due_sub: "set (due_loop now seen es) \<subseteq> set es \<and> (distinct (map oe_ID es) \<longrightarrow> distinct (map oe_ID (due_loop now seen es)))"
  by (induction now seen es rule: due_loop.induct) auto

lemma step_preserves:
  assumes "key_ok k" and "flusher_step tr k s s'" and "flusher_inv t i k s"
  shows "flusher_inv t i k s'"
  using assms(2,3)
proof (induction rule: flusher_step.induct)
  case (start w ob now)
  then show ?case using due_sub [of now "[]" "ob_entries ob"] by (auto simp: Due_def entry_ids_def)
next
  case (flush j wr w ob e now w' ob' effs todo)
  show ?case by (rule flush_preserves [OF assms(1) flush(2,1)])
next
  case (enqueue newID newKey wr now ob e ob' r todo w)
  show ?case
  proof (cases rule: Enqueue_cases [of newID newKey wr now ob e])
    case (1 err)
    then show ?thesis using enqueue by simp
  next
    case (2 e')
    then have ob': "ob_entries ob' = ob_entries ob @ [e']" and e': "oe_ID e' = newID" "foreign k e'"
      using enqueue by (auto simp: enqueued_as_def)
    have "entry_ok w t i k e'" using e'(2) by (simp add: entry_ok_def)
    then show ?thesis using enqueue(2,4) e'(1) by (auto simp: ob' entry_ids_def)
  qed
next
  case (drop w ob todo wr x)
  then have d: "distinct (entry_ids ob)" by simp
  have "distinct (entry_ids (Drop wr ob x))"
    using d unfolding entry_ids_def removed_entries(2) [OF d] by (rule distinct_map_filter)
  then show ?case using drop by (auto simp: removed_entries(2) [OF d])
next
  case (retry w ob todo wr now x)
  then have d: "distinct (entry_ids ob)" by simp
  have "entry_ids (fst (RetryNow wr now ob x)) = entry_ids ob"
    unfolding entry_ids_def updated_entries(2) [OF d] by (rule map_ids_update) simp
  moreover have "entry_ok w t i k (y\<lparr>oe_NextAttemptAt := now\<rparr>) = entry_ok w t i k y" for y
    by (simp add: entry_ok_def tracked_def counted_def foreign_def)
  ultimately show ?case using retry by (auto simp: updated_entries(2) [OF d])
qed simp_all

lemma at_most_once:
  assumes "key_ok k" and "(flusher_step tr k)\<^sup>*\<^sup>* s s'" and "flusher_inv t i k s"
  shows "flusher_inv t i k s'"
  using assms(2,3) by (induction rule: rtranclp_induct) (blast intro: step_preserves [OF assms(1)])+

end

section \<open>The in-memory tracker keeps the contract\<close>

definition issue_comments :: "memory_tracker \<Rightarrow> string \<Rightarrow> comment list" where
  "issue_comments m i = concat (map is_Comments (filter (\<lambda>x. is_ID x = i) (mt_issues m)))"

definition mem_landed :: "memory_tracker \<Rightarrow> string \<Rightarrow> string \<Rightarrow> nat" where
  "mem_landed m i k = length (filter (\<lambda>c. CommentHasKey (cm_Body c) k) (issue_comments m i))"

definition mem_api :: "memory_tracker tracker_api" where
  "mem_api = \<lparr>ta_UpdateIssueState = (\<lambda>m i st. (mem_UpdateIssueState m i st, None)),
     ta_CreateComment = (\<lambda>m i b. (fst (mem_CreateComment m i b), None)), ta_Idempotent = True,
     ta_CreateCommentWithKey = (\<lambda>m i k b. (fst (mem_CreateCommentWithKey m i k b), None)),
     ta_FindCommentByKey = (\<lambda>m i k. (m, Inr (mem_FindCommentByKey m i k \<noteq> None))),
     ta_FetchIssueStatesByIDs = (\<lambda>m ids. (m, case mem_FetchIssueStatesByIDs m ids of Inl err \<Rightarrow> None | Inr is \<Rightarrow> Some is))\<rparr>"

lemma update_state_comments: "issue_comments (mem_UpdateIssueState m k st) i = issue_comments m i"
proof -
  have "concat (map is_Comments (filter (\<lambda>x. is_ID x = i) (update_first (\<lambda>x. is_ID x = k) (\<lambda>x. x\<lparr>is_State := st\<rparr>) xs))) =
      concat (map is_Comments (filter (\<lambda>x. is_ID x = i) xs))" for xs
    by (induction xs) auto
  then show ?thesis by (simp add: issue_comments_def mem_UpdateIssueState_def mem_SetIssueState_def)
qed

lemma create_landed:
  "mem_landed (fst (mem_CreateComment m j b)) i k = mem_landed m i k \<or>
   CommentHasKey b k \<and> i = j \<and> mem_landed (fst (mem_CreateComment m j b)) i k = mem_landed m i k + 1"
proof -
  let ?n = "\<lambda>xs. length (filter (\<lambda>c. CommentHasKey (cm_Body c) k) (concat (map is_Comments (filter (\<lambda>x. is_ID x = i) xs))))"
  have upd: "?n (update_first (\<lambda>x. is_ID x = j) (\<lambda>x. x\<lparr>is_Comments := is_Comments x @ [c]\<rparr>) xs) = ?n xs \<or>
      CommentHasKey b k \<and> i = j \<and>
      ?n (update_first (\<lambda>x. is_ID x = j) (\<lambda>x. x\<lparr>is_Comments := is_Comments x @ [c]\<rparr>) xs) = ?n xs + 1"
    if "cm_Body c = b" for c xs
    using that by (induction xs) auto
  let ?c = "snd (mem_CreateComment m j b)"
  have "cm_Body ?c = b" and "mt_issues (fst (mem_CreateComment m j b)) =
      update_first (\<lambda>x. is_ID x = j) (\<lambda>x. x\<lparr>is_Comments := is_Comments x @ [?c]\<rparr>) (mt_issues m)"
    by (simp_all add: mem_CreateComment_def Let_def)
  then show ?thesis using upd [of ?c "mt_issues m"] by (simp add: mem_landed_def issue_comments_def)
qed

lemma find_landed: "0 < mem_landed m i k \<Longrightarrow> mem_FindCommentByKey m i k \<noteq> None"
  by (auto simp: mem_landed_def mem_FindCommentByKey_def issue_comments_def find_None_iff filter_empty_conv)

interpretation memory: idempotent_tracker mem_api mem_landed
proof
  show "mem_landed (fst (ta_UpdateIssueState mem_api w i st)) = mem_landed w" for w i st
    by (intro ext) (simp add: mem_api_def mem_landed_def update_state_comments)
  show "snd (ta_FindCommentByKey mem_api w i k) \<noteq> Inr False" if "0 < mem_landed w i k" for w i k
    using find_landed [OF that] by (simp add: mem_api_def)
  show "mem_landed (fst (ta_CreateCommentWithKey mem_api w i k b)) i k \<le> mem_landed w i k + 1" for w i k b
    using create_landed [of w i "MarkCommentKey b k" i k] by (auto simp: mem_api_def mem_CreateCommentWithKey_def)
  show "mem_landed (fst (ta_CreateCommentWithKey mem_api w i k b)) i' k' = mem_landed w i' k'"
    if "key_ok k" "key_ok k'" "k' \<noteq> k" "\<not> CommentHasKey b k'" for w i k b i' k'
    using create_landed [of w i "MarkCommentKey b k" i' k'] marked_other_key [OF that(1,2,3)] that(4)
    by (auto simp: mem_api_def mem_CreateCommentWithKey_def)
qed (simp_all add: mem_api_def)

text \<open>The same tracker behind a network that loses the responses of the first posts.\<close>

definition lossy_api :: "(memory_tracker \<times> nat) tracker_api" where
  "lossy_api = \<lparr>ta_UpdateIssueState = (\<lambda>(m, n) i st. ((mem_UpdateIssueState m i st, n), None)),
     ta_CreateComment = (\<lambda>(m, n) i b. ((fst (mem_CreateComment m i b), n), None)), ta_Idempotent = True,
     ta_CreateCommentWithKey = (\<lambda>(m, n) i k b. ((fst (mem_CreateCommentWithKey m i k b), n - 1),
       if n = 0 then None else Some (OtherError ''timeout''))),
     ta_FindCommentByKey = (\<lambda>(m, n) i k. ((m, n), Inr (mem_FindCommentByKey m i k \<noteq> None))),
     ta_FetchIssueStatesByIDs = (\<lambda>w ids. (w, None))\<rparr>"

definition lossy_landed :: "memory_tracker \<times> nat \<Rightarrow> string \<Rightarrow> string \<Rightarrow> nat" where
  "lossy_landed w = mem_landed (fst w)"

interpretation lossy: idempotent_tracker lossy_api lossy_landed
proof
  show "lossy_landed (fst (ta_UpdateIssueState lossy_api w i st)) = lossy_landed w" for w i st
    by (intro ext) (simp add: lossy_api_def lossy_landed_def mem_landed_def update_state_comments split: prod.split)
  show "snd (ta_FindCommentByKey lossy_api w i k) \<noteq> Inr False" if "0 < lossy_landed w i k" for w i k
    using find_landed [of "fst w" i k] that by (auto simp: lossy_api_def lossy_landed_def split: prod.split)
  show "lossy_landed (fst (ta_CreateCommentWithKey lossy_api w i k b)) i k \<le> lossy_landed w i k + 1" for w i k b
    using memory.create_one [of k "fst w" i b] create_landed [of "fst w" i "MarkCommentKey b k" i k]
    by (auto simp: lossy_api_def lossy_landed_def mem_api_def mem_CreateCommentWithKey_def split: prod.split)
  show "lossy_landed (fst (ta_CreateCommentWithKey lossy_api w i k b)) i' k' = lossy_landed w i' k'"
    if "key_ok k" "key_ok k'" "k' \<noteq> k" "\<not> CommentHasKey b k'" for w i k b i' k'
    using memory.create_other [OF that, of "fst w" i i']
    by (auto simp: lossy_api_def lossy_landed_def mem_api_def split: prod.split)
qed (auto simp: lossy_api_def lossy_landed_def split: prod.split)

section \<open>Properties\<close>

text \<open>
  C20. A keyed comment is posted at most once. Let a comment entry with its own key wait in an outbox
  whose other entries have other keys, on a tracker that keeps the contract of idempotent comments.
  Whatever the flusher and the rest of the daemon do from there, in any interleaving and with any
  lost responses, rate limits and failed lookups, the tracker never holds two comments with that
  key; in particular after any tick of the flusher.
\<close>

theorem comment_posted_at_most_once:
  assumes "idempotent_tracker tr landed" and "key_ok k" and "landed w i k = 0" and "distinct (entry_ids ob)"
    and "\<forall>e \<in> set (ob_entries ob). 0 \<le> oe_Attempts e \<and> 0 \<le> oe_RateLimitedAttempts e \<and>
      (oe_ID e = t \<and> oe_Kind e = KindCreateComment \<and> oe_IssueID e = i \<and> oe_CommentKey e = k \<or> foreign k e)"
    and "(flusher_step tr k)\<^sup>*\<^sup>* (w, ob, []) (w', ob', todo)"
    and "runOutboxFlusherTickGated tr gate_open jitters writes now (w', ob') = ((w'', ob''), effs)" and "todo = []"
  shows "landed w' i k \<le> 1 \<and> landed w'' i k \<le> 1"
proof -
  have inv: "idempotent_tracker.flusher_inv landed t i k (w, ob, [])"
    using assms(3-5) by (auto simp: idempotent_tracker.flusher_inv.simps [OF assms(1)] idempotent_tracker.entry_ok_def [OF assms(1)]
      idempotent_tracker.tracked_def [OF assms(1)] idempotent_tracker.counted_def [OF assms(1)])
  note once = idempotent_tracker.at_most_once [OF assms(1,2)]
  have "(flusher_step tr k)\<^sup>*\<^sup>* (w', ob', []) (w'', ob'', [])" by (rule tick_steps [OF assms(7)])
  with assms(6,8) have "(flusher_step tr k)\<^sup>*\<^sup>* (w, ob, []) (w'', ob'', [])" by simp
  from once [OF this inv] once [OF assms(6) inv] show ?thesis
    by (simp add: idempotent_tracker.flusher_inv.simps [OF assms(1)])
qed

definition ex_comment_entry :: outbox_entry where
  "ex_comment_entry = (ex_entry ''id-A'' [] [])\<lparr>oe_ID := ''1'', oe_Kind := KindCreateComment, oe_Body := ''done'',
     oe_CommentKey := ''0-0''\<rparr>"

definition ex_lossy :: "(memory_tracker \<times> nat) \<times> outbox" where
  "ex_lossy = ((\<lparr>mt_issues = [ex_issue ''A''], mt_injectedError = None, mt_nextCommentID = 0\<rparr>, 1),
     ex_outbox\<lparr>ob_entries := [ex_comment_entry]\<rparr>)"

definition ex_tick :: "time \<Rightarrow> (memory_tracker \<times> nat) \<times> outbox \<Rightarrow> (memory_tracker \<times> nat) \<times> outbox" where
  "ex_tick now st = fst (runOutboxFlusherTickGated lossy_api (\<lambda>_. False) (\<lambda>_. 0) (\<lambda>_. None) now st)"

theorem comment_posted_at_most_once_witness:
  "lossy_landed (fst (ex_tick 0 ex_lossy)) ''id-A'' ''0-0'' = 1 \<and> ob_entries (snd (ex_tick 0 ex_lossy)) \<noteq> [] \<and>
   lossy_landed (fst (ex_tick hour (ex_tick 0 ex_lossy))) ''id-A'' ''0-0'' \<le> 1 \<and>
   ob_entries (snd (ex_tick hour (ex_tick 0 ex_lossy))) = []"
proof -
  have st: "ex_lossy = (fst ex_lossy, snd ex_lossy)" "ex_tick 0 ex_lossy = (fst (ex_tick 0 ex_lossy), snd (ex_tick 0 ex_lossy))"
    "ex_tick hour (ex_tick 0 ex_lossy) =
      (fst (ex_tick hour (ex_tick 0 ex_lossy)), snd (ex_tick hour (ex_tick 0 ex_lossy)))" by simp_all
  let ?run = "\<lambda>now st. runOutboxFlusherTickGated lossy_api (\<lambda>_. False) (\<lambda>_. 0) (\<lambda>_. None) now st"
  have first: "?run 0 (fst ex_lossy, snd ex_lossy) =
      ((fst (ex_tick 0 ex_lossy), snd (ex_tick 0 ex_lossy)), snd (?run 0 ex_lossy))" by (simp add: ex_tick_def)
  have second: "?run hour (fst (ex_tick 0 ex_lossy), snd (ex_tick 0 ex_lossy)) =
      ((fst (ex_tick hour (ex_tick 0 ex_lossy)), snd (ex_tick hour (ex_tick 0 ex_lossy))), snd (?run hour (ex_tick 0 ex_lossy)))"
    by (simp add: ex_tick_def)
  have "lossy_landed (fst ex_lossy) ''id-A'' ''0-0'' = 0" "distinct (entry_ids (snd ex_lossy))" by code_simp+
  moreover have "key_ok ''0-0''" by (simp add: key_ok_def)
  moreover have "\<forall>e \<in> set (ob_entries (snd ex_lossy)). 0 \<le> oe_Attempts e \<and> 0 \<le> oe_RateLimitedAttempts e \<and>
      (oe_ID e = ''1'' \<and> oe_Kind e = KindCreateComment \<and> oe_IssueID e = ''id-A'' \<and> oe_CommentKey e = ''0-0'' \<or> foreign ''0-0'' e)"
    by (simp add: ex_lossy_def ex_comment_entry_def ex_entry_def)
  ultimately have "lossy_landed (fst (ex_tick hour (ex_tick 0 ex_lossy))) ''id-A'' ''0-0'' \<le> 1"
    using comment_posted_at_most_once [OF lossy.idempotent_tracker_axioms _ _ _ _ tick_steps [OF first] second refl] by blast
  moreover have "lossy_landed (fst (ex_tick 0 ex_lossy)) ''id-A'' ''0-0'' = 1" "ob_entries (snd (ex_tick 0 ex_lossy)) \<noteq> []"
    "ob_entries (snd (ex_tick hour (ex_tick 0 ex_lossy))) = []" by code_simp+
  ultimately show ?thesis by simp
qed

end
