(* ===== verification/Spec2Isabelle.thy ===== *)
theory Spec2Isabelle
  imports Watcher Agent_Tokens Daemon_Run Dependency_Attention Restack Retry Review_Quorum Workspace_Branch Status_History Outbox_Flusher
begin

text \<open>
  \<^bold>\<open>A verification of the orchestration core of itervox.\<close>

  Itervox is a daemon that polls an issue tracker and runs coding agents on the issues it finds. One goroutine, the
  event loop of \<open>internal/orchestrator/event_loop.go\<close>, owns the whole mutable state (\<open>State\<close> in
  \<open>state.go\<close>); workers, timers, the HTTP server and the outbox flusher talk to it by events or through locked maps. The
  development follows the code: the state is a record, an operation of the loop is a function from a pair of the
  orchestrator's own fields and the state (\<open>daemon\<close>) to the updated pair, and a worker goroutine that the code would
  start is an element appended to \<open>o_started\<close>. A panic of the code is \<open>None\<close>. Times are nanoseconds as \<open>int\<close>, with the
  wrap-around of \<open>time.Duration\<close> written out where it matters; Go maps are association lists with the laws of the locale
  \<open>go_map\<close>, and the random order of a Go map iteration is the order of that list, so that a theorem about every list is a
  theorem about every order.

  \<^bold>\<open>The theories and the code.\<close>
  \<^item> \<open>Prelude\<close>: maps and sets of Go, strings (\<open>strings.TrimSpace\<close>, \<open>EqualFold\<close>, prefixes), 64-bit wrap-around, stable sorting with a
    comparison (\<open>sort.SliceStable\<close>) and its locale \<open>strict_weak_order\<close>.
  \<^item> \<open>Domain_Types\<close>, \<open>Orch_State\<close>: \<open>internal/domain\<close>, the configuration that the decisions read (\<open>internal/config\<close>), \<open>State\<close> and
    its entries, \<open>NewState\<close>.
  \<^item> \<open>Status_History\<close>, \<open>Dependency_Audit\<close>, \<open>Restack\<close>: the ledger of observed states, the audit of blockers with its
    latch, and the replay of a worktree once its blockers are done (\<open>status_history.go\<close>, \<open>dependency_audit.go\<close>, \<open>restack.go\<close>).
  \<^item> \<open>Backend_Health\<close>, \<open>Backend_Gate\<close>, \<open>Rate_Switch\<close>, \<open>Backend_Command\<close>: the circuit breaker per backend and host, the gate in front
    of every dispatch with its fallback chain and holds, the per-issue switches and their cap, and the resolution of a
    command to a runner (\<open>backend_health.go\<close>, \<open>backend_gate.go\<close>, \<open>automation_rate_limited.go\<close>, \<open>backend_command.go\<close>, \<open>dispatch_resolve.go\<close>).
  \<^item> \<open>Dispatch\<close>, \<open>Dispatch_Order\<close>, \<open>Retry\<close>, \<open>Workspace_Branch\<close>: who may run, in which order, when again and on which branch
    (\<open>dispatch.go\<close>, \<open>sort_critical_path.go\<close>, \<open>retry.go\<close>, \<open>stacked_base.go\<close>, \<open>internal/workspace/worktree.go\<close>).
  \<^item> \<open>Automation_Queue\<close>, \<open>Automations\<close>, \<open>Review_Quorum\<close>: the bounded queue of automation runs, the rules that fill it, and the chain
    of reviewers (\<open>automation_queue.go\<close>, \<open>automation.go\<close>, \<open>review_quorum.go\<close>).
  \<^item> \<open>Admission\<close>: every path that starts a run (\<open>dispatch\<close>, \<open>dispatchReviewerForIssue\<close>, \<open>startAutomationRunOrHold\<close>, the drain of the
    queue, pending reviews) and the drain of the daemon (\<open>drain.go\<close>).
  \<^item> \<open>Outbox\<close>, \<open>Managed_Comments\<close>, \<open>Outbox_Flusher\<close>: the write-ahead outbox, comment keys and the flusher
    (\<open>internal/outbox\<close>, \<open>internal/tracker\<close>, \<open>cmd/itervox/outbox_flusher.go\<close>).
  \<^item> \<open>Failures\<close>, \<open>Failure_Text\<close>, \<open>Rate_Limited\<close>: the ring of recent failures and the classification of tracker errors, the text of a failed
    run, and the rate_limited rules (\<open>recent_failures.go\<close>, \<open>tracker_error.go\<close>, \<open>internal/agent/failure_text.go\<close>, \<open>automation_rate_limited.go\<close>).
  \<^item> \<open>Tick_Scc\<close>, \<open>Tick_Graph\<close>, \<open>Dependency_Attention\<close>, \<open>Inferred_Deps\<close>, \<open>Dependency_Refresh\<close>: the dependency graph of a tick with its components, order, metrics, cycles and alerts, the
    inferred edges with their overrides, and the background refresh of audit rows (\<open>tick_graph.go\<close>, \<open>tick_graph_scc.go\<close>, \<open>inferred_deps.go\<close>,
    \<open>deps_override.go\<close>, \<open>dependency_refresh.go\<close>).
  \<^item> \<open>Cron\<close>, \<open>Watcher\<close>, \<open>Agent_Tokens\<close>: cron expressions, the goroutine that compiles, schedules, polls and replays the automation rules, and the tokens
    by which agents act (\<open>internal/schedule\<close>, \<open>cmd/itervox/automations.go\<close>, \<open>automations_input_required.go\<close>, \<open>internal/agentactions\<close>).
  \<^item> \<open>Input_Resume\<close>, \<open>Reconcile\<close>, \<open>Janitor\<close>, \<open>Event_Loop\<close>: questions to humans and their replies, the stopping of stalled and
    obsolete workers, the sweeps of the ledgers, and the tick that puts all of these together
    (\<open>event_loop.go\<close>, \<open>tracker_reply_budget.go\<close>, \<open>reconcile.go\<close>, \<open>janitor.go\<close>, \<open>failure_ack.go\<close>).
  \<^item> \<open>Worker_Exit\<close>, \<open>Operator_Events\<close>, \<open>Daemon_Run\<close>: the exit of a worker in all its branches, every other event of \<open>handleEvent\<close>, and the
    interleaving of events and ticks. What the handlers start in the background is a list of tasks (\<open>loop_task\<close>).

  \<^bold>\<open>The interfaces.\<close> A component's contract is a locale and its clients are proved inside it:
  \<open>go_map\<close> (interpreted on association lists), \<open>strict_weak_order\<close> (on the dispatch comparisons and on the order of the
  reply checks), \<open>bounded_queue\<close> (on the automation queue), \<open>breaker_impl\<close> (on the stored breakers), \<open>idempotent_tracker\<close> (on the
  in-memory tracker and on one that loses responses), and three for the paths that start runs: \<open>admission_path\<close> and its
  extension \<open>slot_gated_path\<close> (nothing starts once a drain is requested, nor beyond the slots), and
  \<open>admission_relation\<close>, any relation closed under the elementary moves of an admission path. The last is interpreted
  on \<open>slot_admits\<close> (capacity and drain) and on \<open>books_kept\<close> (claims), so each path is walked through once for both; its extension
  \<open>exit_relation\<close> adds the moves of an exit and is interpreted on \<open>keeps_shape\<close>.

  \<^bold>\<open>What is shown.\<close> For each component its invariant and the behaviour of its operations on every branch: the breaker
  refines a four-phase automaton and cannot stay open for ever; the gate admits only through a breaker that admits, or holds;
  the eligibility cascade equals the conjunction of its guards; the three orders are the unique stable sorts by their
  keys; the queue is a bounded queue in arrival order; the outbox delivers each issue's writes in order, survives
  restarts and posts a keyed comment at most once. The graph
  analysis numbers exactly the strongly connected components and computes the graph-theoretic metrics; a cron expression means its fields and
  a rule fires once a minute; a token authorises what it was issued for; a lost refresh worker wedges nothing and a late one re-arms nothing. For the daemon as a
  whole, over every interleaving of ticks and events (\<open>daemon_step\<close> of \<open>Daemon_Run\<close>, \<open>loop_step\<close> of \<open>Event_Loop\<close>): each claim has exactly one owner; and over
  the ticks the number of workers stays within the configured bound and nothing starts after a drain. Theorems of kind
  error, and some others with them, state defects of the code: a sweep that leaks a claim, a stall retry that never escalates, a held review that is
  dropped, a retried review that is reviewed again, a late exit that drops a newer run, an outdated tracker write that is delivered, a comment that no
  rule sees, a replay that ignores the age limit, and events that race with the loop: a retry cancelled after it fired, a review started beside a
  pending retry, a resumed run that cannot be terminated.

  \<^bold>\<open>Parameters.\<close> The tracker is a record of functions (\<open>tracker_ops\<close>, \<open>tracker_api\<close>), git replays, regular expressions, the
  formatting of times, random identifiers and the clock are arguments; what a theorem needs of them is a named hypothesis
  (\<open>tracker_honest\<close>: an issue fetched by its ID has that ID and its own identifier). There is no fuel: most
  loops are structural recursions or folds; \<open>tarjan_loop\<close>, \<open>kahn_loop\<close> and \<open>fill_from\<close>, whose end is not evident from their shape, are partial functions
  with values in \<open>option\<close>, and the theorems about them include that they return.

  \<^bold>\<open>Not modelled.\<close> The worker goroutine itself (subprocess, SSH, hooks, prompt assembly), the dependency analyzer (it calls an agent) and the files
  of its edges, token and cost totals, the tracker clients over HTTP, the parsing and rewriting of workflow files, the HTTP API, the dashboards and
  logging. They are I/O, presentation or text processing around the decisions modelled here.
\<close>

end
